(* ===== verification/Prelude.thy ===== *)
theory Prelude
  imports Main "HOL-Library.Word"
begin

text \<open>
  What every component shares: the names of Go's machine types, the little-endian
  encodings of \<^verbatim>\<open>encoding/binary\<close>, slices, the string functions of the Go library
  the program calls, and lists read as queues. Byte buffers are lists of 8-bit words;
  Go strings are lists of characters, one character per byte.
\<close>

unbundle bit_operations_syntax

section \<open>Machine types and hint collections\<close>

type_synonym byte = "8 word"
type_synonym u16 = "16 word"
type_synonym u32 = "32 word"
type_synonym u64 = "64 word"
type_synonym bytes = "8 word list"

named_theorems wire \<open>layout of the binary formats: encoders, decoders, slices\<close>
named_theorems strs \<open>unfolding rules of the string functions\<close>

section \<open>Little-endian encoding\<close>

text \<open>\<^verbatim>\<open>binary.LittleEndian.PutUint16\<close> and \<^verbatim>\<open>PutUint32\<close>: the bytes they store.\<close>

definition le16 :: "u16 \<Rightarrow> bytes" where
  "le16 w = [ucast w, ucast (drop_bit 8 w)]"

definition le32 :: "u32 \<Rightarrow> bytes" where
  "le32 w = [ucast w, ucast (drop_bit 8 w), ucast (drop_bit 16 w), ucast (drop_bit 24 w)]"

definition of_le16 :: "byte \<Rightarrow> byte \<Rightarrow> u16" where
  "of_le16 a b = ucast a OR push_bit 8 (ucast b)"

definition of_le32 :: "byte \<Rightarrow> byte \<Rightarrow> byte \<Rightarrow> byte \<Rightarrow> u32" where
  "of_le32 a b c d =
     ucast a OR push_bit 8 (ucast b) OR push_bit 16 (ucast c) OR push_bit 24 (ucast d)"

text \<open>\<^verbatim>\<open>binary.LittleEndian.Uint32(buf[i:i+4])\<close>, for a buffer long enough.\<close>

definition u16_at :: "bytes \<Rightarrow> nat \<Rightarrow> u16" where
  "u16_at buf i = of_le16 (buf ! i) (buf ! (i + 1))"

definition u32_at :: "bytes \<Rightarrow> nat \<Rightarrow> u32" where
  "u32_at buf i = of_le32 (buf ! i) (buf ! (i + 1)) (buf ! (i + 2)) (buf ! (i + 3))"

lemma of_le16_le16 [simp, wire]: "of_le16 (ucast w) (ucast (drop_bit 8 w)) = w"
proof (rule bit_word_eqI)
  fix n :: nat
  assume "n < LENGTH(16)"
  then show "bit (of_le16 (ucast w) (ucast (drop_bit 8 w))) n = bit w n"
    by (cases "n < 8") (auto simp: of_le16_def bit_simps)
qed

lemma of_le32_le32 [simp, wire]:
  "of_le32 (ucast w) (ucast (drop_bit 8 w)) (ucast (drop_bit 16 w)) (ucast (drop_bit 24 w)) = w"
proof (rule bit_word_eqI)
  fix n :: nat
  assume "n < LENGTH(32)"
  then have "n < 8 \<or> 8 \<le> n \<and> n < 16 \<or> 16 \<le> n \<and> n < 24 \<or> 24 \<le> n \<and> n < 32"
    by auto
  then show "bit (of_le32 (ucast w) (ucast (drop_bit 8 w)) (ucast (drop_bit 16 w))
    (ucast (drop_bit 24 w))) n = bit w n"
    by (elim disjE) (auto simp: of_le32_def bit_simps)
qed

lemma length_le16 [simp]: "length (le16 w) = 2"
  by (simp add: le16_def)

lemma length_le32 [simp]: "length (le32 w) = 4"
  by (simp add: le32_def)

lemma u16_at_append [wire]: "length p = i \<Longrightarrow> u16_at (p @ le16 w @ q) i = w"
  by (auto simp: u16_at_def le16_def nth_append)

lemma u32_at_append [wire]: "length p = i \<Longrightarrow> u32_at (p @ le32 w @ q) i = w"
  by (auto simp: u32_at_def le32_def nth_append)

lemma u32_at_prefix: "i + 4 \<le> length buf \<Longrightarrow> u32_at (buf @ more) i = u32_at buf i"
  by (simp add: u32_at_def nth_append)

lemma u16_at_prefix: "i + 2 \<le> length buf \<Longrightarrow> u16_at (buf @ more) i = u16_at buf i"
  by (simp add: u16_at_def nth_append)

section \<open>Slices\<close>

text \<open>\<^verbatim>\<open>buf[i:j]\<close> for \<open>i \<le> j \<le> len(buf)\<close>; the models check the bounds first.\<close>

definition slice :: "'a list \<Rightarrow> nat \<Rightarrow> nat \<Rightarrow> 'a list" where
  "slice buf i j = take (j - i) (drop i buf)"

lemma length_slice [simp]: "j \<le> length buf \<Longrightarrow> length (slice buf i j) = j - i"
  by (auto simp: slice_def)

lemma length_slice_le: "length (slice buf i j) \<le> j - i"
  by (simp add: slice_def)

lemma slice_prefix: "j \<le> length buf \<Longrightarrow> slice (buf @ more) i j = slice buf i j"
  by (cases "i \<le> j") (auto simp: slice_def)

lemma slice_append_mid: "length p = i \<Longrightarrow> i + length x = j \<Longrightarrow> slice (p @ x @ q) i j = x"
  by (auto simp: slice_def)

lemma slice_all: "i \<le> length buf \<Longrightarrow> slice buf i (length buf) = drop i buf"
  by (simp add: slice_def)

section \<open>Zero-filled buffers\<close>

text \<open>The bytes of \<^verbatim>\<open>make([]byte, n)\<close>.\<close>

abbreviation zeros :: "nat \<Rightarrow> bytes" where
  "zeros n \<equiv> replicate n 0"

section \<open>Exclusive or with a key stream\<close>

lemma word_xor_cancel [simp]: "(a XOR k) XOR k = (a :: 'a::len word)"
  by (simp add: xor.assoc)

lemma word_xor_eq_iff: "a XOR k = b XOR k \<longleftrightarrow> a = (b :: 'a::len word)"
  by (metis word_xor_cancel)

text \<open>A loop \<^verbatim>\<open>for i, b := range buf { out[i] = b ^ stream[i] }\<close>, from index \<open>i\<close> on.\<close>

fun xor_from :: "(nat \<Rightarrow> byte) \<Rightarrow> nat \<Rightarrow> bytes \<Rightarrow> bytes" where
  "xor_from stream i [] = []"
| "xor_from stream i (b # buf) = (b XOR stream i) # xor_from stream (Suc i) buf"

lemma length_xor_from [simp]: "length (xor_from stream i buf) = length buf"
  by (induction buf arbitrary: i) simp_all

lemma xor_from_twice [simp]: "xor_from stream i (xor_from stream i buf) = buf"
  by (induction buf arbitrary: i) simp_all

lemma take_xor_from: "take n (xor_from stream i buf) = xor_from stream i (take n buf)"
  by (induction buf arbitrary: i n) (auto simp: take_Cons split: nat.splits)

section \<open>Strings and bytes\<close>

text \<open>The conversions \<^verbatim>\<open>[]byte(s)\<close> and \<^verbatim>\<open>string(b)\<close>.\<close>

definition bytes_of :: "string \<Rightarrow> bytes" where
  "bytes_of s = map of_char s"

definition string_of :: "bytes \<Rightarrow> string" where
  "string_of b = map (\<lambda>x. char_of (unat x)) b"

lemma char_of_byte [simp]: "char_of (unat (of_char c :: byte)) = c"
proof -
  have "(of_char c :: byte) = word_of_nat (of_char c)"
    by (metis of_nat_of_char)
  moreover have "(of_char c :: nat) < 256"
    by simp
  ultimately show ?thesis
    by (simp add: unat_of_nat take_bit_eq_mod)
qed

lemma string_of_bytes_of [simp]: "string_of (bytes_of s) = s"
  by (simp add: string_of_def bytes_of_def comp_def)

lemma length_bytes_of [simp]: "length (bytes_of s) = length s"
  by (simp add: bytes_of_def)

text \<open>\<^verbatim>\<open>strings.ToUpper\<close> and \<^verbatim>\<open>strings.ToLower\<close>, on ASCII.\<close>

definition upper_char :: "char \<Rightarrow> char" where
  "upper_char c = (let n = of_char c :: nat in if 97 \<le> n \<and> n \<le> 122 then char_of (n - 32) else c)"

definition lower_char :: "char \<Rightarrow> char" where
  "lower_char c = (let n = of_char c :: nat in if 65 \<le> n \<and> n \<le> 90 then char_of (n + 32) else c)"

definition to_upper :: "string \<Rightarrow> string" where
  "to_upper s = map upper_char s"

definition to_lower :: "string \<Rightarrow> string" where
  "to_lower s = map lower_char s"

text \<open>\<^verbatim>\<open>strings.TrimSpace\<close>, on ASCII white space.\<close>

definition is_space :: "char \<Rightarrow> bool" where
  "is_space c \<longleftrightarrow> (of_char c :: nat) \<in> {9, 10, 11, 12, 13, 32}"

definition trim_space :: "string \<Rightarrow> string" where
  "trim_space s = rev (dropWhile is_space (rev (dropWhile is_space s)))"

text \<open>\<^verbatim>\<open>strings.HasPrefix\<close>, also of byte slices.\<close>

definition has_prefix :: "'a list \<Rightarrow> 'a list \<Rightarrow> bool" where
  "has_prefix s p \<longleftrightarrow> take (length p) s = p"

lemma has_prefix_append [simp]: "has_prefix (p @ s) p"
  by (simp add: has_prefix_def)

section \<open>Lists\<close>

lemma map_upt_Suc_shift: "map f [0..<Suc n] = f 0 # map (\<lambda>j. f (Suc j)) [0..<n]"
  by (simp add: upt_conv_Cons map_Suc_upt [symmetric] comp_def del: upt_Suc)

lemma map_upt_append:
  "i \<le> j \<Longrightarrow> j \<le> k \<Longrightarrow> map f [i..<j] @ map f [j..<k] = map f [i..<k]"
  using upt_add_eq_append [of i j "k - j"] by (simp flip: map_append)

section \<open>Words as numbers\<close>

lemma inj_unat: "inj_on (unat :: 'a::len word \<Rightarrow> nat) A"
  by (auto simp: inj_on_def word_unat_eq_iff)

lemma unat_image_iff [simp]: "unat i \<in> unat ` A \<longleftrightarrow> (i :: 'a::len word) \<in> A"
  using inj_unat inj_image_mem_iff by metis

section \<open>Quantifying over a machine type\<close>

lemma all_byte_list: "(\<forall>b :: byte. P b) \<longleftrightarrow> list_all P (map word_of_nat [0..<256])"
proof
  assume "list_all P (map word_of_nat [0..<256])"
  then have *: "P (word_of_nat n)" if "n < 256" for n
    using that by (auto simp: list_all_iff)
  show "\<forall>b. P b"
  proof
    fix b :: byte
    have "unat b < 256" using unsigned_less [of b, where ?'a = nat] by simp
    then have "P (word_of_nat (unat b))" by (rule *)
    then show "P b" by simp
  qed
qed (simp add: list_all_iff)

lemma list_all_range: "list_all P (map f [a..<b]) \<Longrightarrow> a \<le> n \<Longrightarrow> n < b \<Longrightarrow> P (f n)"
  by (simp add: list_all_iff)

end
