(* ===== verification/Codec.thy ===== *)
theory Codec
  imports Prelude
begin

text \<open>
  The audio codecs of \<^verbatim>\<open>pkg/codec\<close>: A-law and mu-law (\<^verbatim>\<open>pcma.go\<close>) on 16-bit words, as
  Go's \<^verbatim>\<open>int16\<close> wraps, and the IMA ADPCM decoder and encoder (\<^verbatim>\<open>adpcm.go\<close>), whose
  predictor and step index are Go \<^verbatim>\<open>int\<close>s kept in range by the code's own clamps.
\<close>

section \<open>A-law and mu-law\<close>

type_synonym i16 = "16 word"

text \<open>The normalisation loop \<^verbatim>\<open>for (pcm & 0x4000) == 0\<close>; \<open>None\<close> if it never ends.\<close>

partial_function (option) alaw_normalise :: "i16 \<Rightarrow> i16 \<Rightarrow> (i16 \<times> i16) option" where
  "alaw_normalise pcm exponent =
     (if pcm AND 0x4000 = 0 then alaw_normalise (push_bit 1 pcm) (exponent - 1)
      else Some (pcm, exponent))"

declare alaw_normalise.simps [code]

definition linear_to_alaw :: "i16 \<Rightarrow> byte option" where
  "linear_to_alaw pcm0 =
     (let sign = (if 0 \<le> sint pcm0 then 0x80 else 0 :: i16);
          pcm = (if 0 \<le> sint pcm0 then pcm0 else - pcm0 - 1)
      in if 256 \<le> sint pcm then
           (case alaw_normalise pcm 7 of
              None \<Rightarrow> None
            | Some (pcm', exponent) \<Rightarrow>
                let mantissa = signed_drop_bit 10 pcm' AND 0x0F
                in Some (ucast (sign OR push_bit 4 exponent OR mantissa) XOR 0x55))
         else Some (ucast (sign OR (signed_drop_bit 4 pcm AND 0x0F)) XOR 0x55))"

definition alaw_to_linear :: "byte \<Rightarrow> i16" where
  "alaw_to_linear v0 =
     (let v = v0 XOR 0x55;
          t = push_bit 4 (ucast (v AND 0x0F)) :: i16;
          seg = drop_bit 4 (v AND 0x70);
          t' = (if seg = 0 then t + 8
                else if seg = 1 then t + 0x108
                else push_bit (unat (seg - 1)) (t + 0x108))
      in if v AND 0x80 = 0 then - t' else t')"

text \<open>\<^verbatim>\<open>muLawToLinear\<close> computes in \<^verbatim>\<open>int\<close>; nothing exceeds 16 bits, so the words agree.\<close>

definition mulaw_to_linear :: "byte \<Rightarrow> i16" where
  "mulaw_to_linear v0 =
     (let v = NOT v0;
          t0 = push_bit 3 (uint v AND 0x0F) + 0x84;
          t = push_bit (nat (drop_bit 4 (uint v AND 0x70))) t0
      in if v AND 0x80 \<noteq> 0 then word_of_int (t - 0x84) else word_of_int (0x84 - t))"

text \<open>The loops over a buffer. A sample that never ends would make the whole call never end.\<close>

fun encode_pcma :: "i16 list \<Rightarrow> bytes option" where
  "encode_pcma [] = Some []"
| "encode_pcma (s # pcm) =
     (case linear_to_alaw s of
        None \<Rightarrow> None
      | Some b \<Rightarrow> map_option ((#) b) (encode_pcma pcm))"

definition decode_pcma :: "bytes \<Rightarrow> i16 list" where
  "decode_pcma data = map alaw_to_linear data"

definition decode_pcmu :: "bytes \<Rightarrow> i16 list" where
  "decode_pcmu data = map mulaw_to_linear data"

section \<open>IMA ADPCM\<close>

definition ima_index_table :: "int list" where
  "ima_index_table = [-1, -1, -1, -1, 2, 4, 6, 8, -1, -1, -1, -1, 2, 4, 6, 8]"

definition ima_step_table :: "int list" where
  "ima_step_table =
     [7, 8, 9, 10, 11, 12, 13, 14, 16, 17,
      19, 21, 23, 25, 28, 31, 34, 37, 41, 45,
      50, 55, 60, 66, 73, 80, 88, 97, 107, 118,
      130, 143, 157, 173, 190, 209, 230, 253, 279, 307,
      337, 371, 408, 449, 494, 544, 598, 658, 724, 796,
      876, 963, 1060, 1166, 1282, 1411, 1552, 1707, 1878, 2066,
      2272, 2499, 2749, 3024, 3327, 3660, 4026, 4428, 4871, 5358,
      5894, 6484, 7132, 7845, 8630, 9493, 10442, 11487, 12635, 13899,
      15289, 16818, 18500, 20350, 22385, 24623, 27086, 29794, 32767]"

text \<open>\<^verbatim>\<open>ADPCMDecoder\<close> and \<^verbatim>\<open>ADPCMEncoder\<close> have the same two fields.\<close>

record adpcm =
  predicted :: int
  index :: int

definition clamp_sample :: "int \<Rightarrow> int" where
  "clamp_sample p0 =
     (let p = (if p0 > 32767 then 32767 else p0)
      in if p < - 32768 then - 32768 else p)"

definition clamp_index :: "int \<Rightarrow> int" where
  "clamp_index i0 =
     (let i = (if i0 < 0 then 0 else i0)
      in if i > 88 then 88 else i)"

text \<open>The body of the inner loop of \<^verbatim>\<open>Decode\<close>: one nibble.\<close>

definition decode_nibble :: "adpcm \<Rightarrow> byte \<Rightarrow> adpcm" where
  "decode_nibble d nibble =
     (let step = ima_step_table ! nat (index d);
          diff0 = drop_bit 3 step;
          diff1 = (if nibble AND 1 \<noteq> 0 then diff0 + drop_bit 2 step else diff0);
          diff2 = (if nibble AND 2 \<noteq> 0 then diff1 + drop_bit 1 step else diff1);
          diff = (if nibble AND 4 \<noteq> 0 then diff2 + step else diff2);
          p = (if nibble AND 8 \<noteq> 0 then predicted d - diff else predicted d + diff)
      in \<lparr>predicted = clamp_sample p,
          index = clamp_index (index d + ima_index_table ! unat nibble)\<rparr>)"

fun decode_payload :: "adpcm \<Rightarrow> bytes \<Rightarrow> adpcm \<times> i16 list" where
  "decode_payload d [] = (d, [])"
| "decode_payload d (b # payload) =
     (let d1 = decode_nibble d (drop_bit 4 b AND 0x0F);
          d2 = decode_nibble d1 (b AND 0x0F);
          (d', out) = decode_payload d2 payload
      in (d', word_of_int (predicted d1) # word_of_int (predicted d2) # out))"

definition adpcm_decode :: "adpcm \<Rightarrow> bytes \<Rightarrow> adpcm \<times> i16 list" where
  "adpcm_decode d data =
     (if length data < 4 then (d, [])
      else decode_payload
             \<lparr>predicted = sint (u16_at data 0),
              index = min (max (uint (data ! 2)) 0) 88\<rparr>
             (drop 4 data))"

text \<open>\<^verbatim>\<open>encodeNibble\<close>: the encoder's new state and the nibble.\<close>

definition encode_nibble :: "adpcm \<Rightarrow> int \<Rightarrow> adpcm \<times> byte" where
  "encode_nibble e sample =
     (let step = ima_step_table ! nat (index e);
          diff0 = sample - predicted e;
          nib0 = (if diff0 < 0 then 8 else 0 :: byte);
          dif0 = (if diff0 < 0 then - diff0 else diff0);
          delta0 = drop_bit 3 step;
          (nib1, dif1, delta1) =
            (if dif0 \<ge> step then (nib0 OR 4, dif0 - step, delta0 + step)
             else (nib0, dif0, delta0));
          (nib2, dif2, delta2) =
            (if dif1 \<ge> drop_bit 1 step
             then (nib1 OR 2, dif1 - drop_bit 1 step, delta1 + drop_bit 1 step)
             else (nib1, dif1, delta1));
          (nib3, delta3) =
            (if dif2 \<ge> drop_bit 2 step then (nib2 OR 1, delta2 + drop_bit 2 step)
             else (nib2, delta2));
          p = (if nib3 AND 8 \<noteq> 0 then predicted e - delta3 else predicted e + delta3)
      in (\<lparr>predicted = clamp_sample p,
           index = clamp_index (index e + ima_index_table ! unat nib3)\<rparr>, nib3))"

datatype adpcm_error = TooFewSamples nat | OddSampleCount nat

text \<open>The loop of \<^verbatim>\<open>EncodeBlock\<close>, two samples a byte; the sample count is even there.\<close>

fun encode_samples :: "adpcm \<Rightarrow> i16 list \<Rightarrow> adpcm \<times> bytes" where
  "encode_samples e (s1 # s2 # pcm) =
     (let (e1, first) = encode_nibble e (sint s1);
          (e2, second) = encode_nibble e1 (sint s2);
          (e', out) = encode_samples e2 pcm
      in (e', (push_bit 4 first OR second) # out))"
| "encode_samples e _ = (e, [])"

definition encode_block :: "adpcm \<Rightarrow> i16 list \<Rightarrow> adpcm \<times> (adpcm_error + bytes)" where
  "encode_block e pcm =
     (if length pcm = 0 then (e, Inr [])
      else if length pcm < 2 then (e, Inl (TooFewSamples (length pcm)))
      else if length pcm mod 2 \<noteq> 0 then (e, Inl (OddSampleCount (length pcm)))
      else let (e', out) = encode_samples e pcm
           in (e', Inr (le16 (word_of_int (predicted e)) @ [word_of_int (index e), 0] @ out)))"

section \<open>A-law: every code survives decoding and encoding\<close>

lemmas alaw_eval = linear_to_alaw_def alaw_to_linear_def alaw_normalise.simps Let_def

lemma alaw_roundtrip_0:
  "list_all (\<lambda>v. linear_to_alaw (alaw_to_linear v) = Some v) (map word_of_nat [0..<32])"
  by (simp add: upt_rec alaw_eval)

lemma alaw_roundtrip_1:
  "list_all (\<lambda>v. linear_to_alaw (alaw_to_linear v) = Some v) (map word_of_nat [32..<64])"
  by (simp add: upt_rec alaw_eval)

lemma alaw_roundtrip_2:
  "list_all (\<lambda>v. linear_to_alaw (alaw_to_linear v) = Some v) (map word_of_nat [64..<96])"
  by (simp add: upt_rec alaw_eval)

lemma alaw_roundtrip_3:
  "list_all (\<lambda>v. linear_to_alaw (alaw_to_linear v) = Some v) (map word_of_nat [96..<128])"
  by (simp add: upt_rec alaw_eval)

lemma alaw_roundtrip_4:
  "list_all (\<lambda>v. linear_to_alaw (alaw_to_linear v) = Some v) (map word_of_nat [128..<160])"
  by (simp add: upt_rec alaw_eval)

lemma alaw_roundtrip_5:
  "list_all (\<lambda>v. linear_to_alaw (alaw_to_linear v) = Some v) (map word_of_nat [160..<192])"
  by (simp add: upt_rec alaw_eval)

lemma alaw_roundtrip_6:
  "list_all (\<lambda>v. linear_to_alaw (alaw_to_linear v) = Some v) (map word_of_nat [192..<224])"
  by (simp add: upt_rec alaw_eval)

lemma alaw_roundtrip_7:
  "list_all (\<lambda>v. linear_to_alaw (alaw_to_linear v) = Some v) (map word_of_nat [224..<256])"
  by (simp add: upt_rec alaw_eval)

lemma alaw_roundtrip_all:
  "list_all (\<lambda>v. linear_to_alaw (alaw_to_linear v) = Some v) (map word_of_nat [0..<256])"
proof -
  have "linear_to_alaw (alaw_to_linear (word_of_nat n)) = Some (word_of_nat n)" if "n < 256" for n
  proof -
    from that consider "n < 32" | "32 \<le> n \<and> n < 64" | "64 \<le> n \<and> n < 96" | "96 \<le> n \<and> n < 128"
      | "128 \<le> n \<and> n < 160" | "160 \<le> n \<and> n < 192" | "192 \<le> n \<and> n < 224" | "224 \<le> n"
      by linarith
    then show ?thesis
      by cases (use that in \<open>auto intro: list_all_range [OF alaw_roundtrip_0]
        list_all_range [OF alaw_roundtrip_1] list_all_range [OF alaw_roundtrip_2]
        list_all_range [OF alaw_roundtrip_3] list_all_range [OF alaw_roundtrip_4]
        list_all_range [OF alaw_roundtrip_5] list_all_range [OF alaw_roundtrip_6]
        list_all_range [OF alaw_roundtrip_7]\<close>)
  qed
  then show ?thesis by (simp add: list_all_iff)
qed

lemma alaw_roundtrip_byte: "linear_to_alaw (alaw_to_linear v) = Some v"
  using alaw_roundtrip_all all_byte_list [of "\<lambda>v. linear_to_alaw (alaw_to_linear v) = Some v"]
  by blast

text \<open>Decoding an A-law buffer and encoding the samples again gives back the same bytes, and
  the encoder's normalisation loop ends on every sample the decoder can produce.\<close>

theorem pcma_roundtrip: "encode_pcma (decode_pcma data) = Some data"
  by (induction data) (simp_all add: decode_pcma_def alaw_roundtrip_byte)

text \<open>The encoder's normalisation loop ends: a set bit below bit 14 is shifted up to it.\<close>

lemma alaw_normalise_ends: "bit pcm (14 - k) \<Longrightarrow> k \<le> 6 \<Longrightarrow> alaw_normalise pcm ex \<noteq> None"
proof (induction k arbitrary: pcm ex)
  case 0
  then have "pcm AND 0x4000 \<noteq> 0"
    using and_exp_eq_0_iff_not_bit [of pcm 14] by simp
  then show ?case by (subst alaw_normalise.simps) simp
next
  case (Suc k)
  have "bit (push_bit 1 pcm) (14 - k)"
    unfolding bit_push_bit_iff using Suc.prems by (simp, arith)
  then have "alaw_normalise (push_bit 1 pcm) (ex - 1) \<noteq> None"
    using Suc by simp
  then show ?case by (subst alaw_normalise.simps) simp
qed

lemma alaw_loud_bit:
  assumes "256 \<le> sint (pcm :: i16)"
  shows "\<exists>k \<le> 6. bit pcm (14 - k)"
proof -
  have s: "take_bit 15 (sint pcm) = sint pcm"
    using assms sint_less [of pcm] by (simp add: take_bit_eq_mod)
  show ?thesis
  proof (rule ccontr)
    assume "\<not> ?thesis"
    then have no: "\<not> bit pcm n" if "8 \<le> n" "n \<le> 14" for n
      using that by (auto dest: spec [of _ "14 - n"])
    have "take_bit 8 (sint pcm) = sint pcm"
    proof (rule bit_eqI)
      fix n
      show "bit (take_bit 8 (sint pcm)) n = bit (sint pcm) n"
        using no [of n] arg_cong [OF s, of "\<lambda>x. bit x n"]
        by (cases "n < 8") (auto simp: bit_take_bit_iff bit_sint_iff min_def split: if_splits)
    qed
    then show False
      using assms take_bit_int_less_exp [of 8 "sint pcm"] by simp
  qed
qed

lemma linear_to_alaw_ends: "linear_to_alaw s \<noteq> None"
proof -
  have "alaw_normalise pcm ex \<noteq> None" if "256 \<le> sint pcm" for pcm ex
    using alaw_loud_bit [OF that] alaw_normalise_ends by blast
  then show ?thesis
    by (auto simp: linear_to_alaw_def Let_def simp del: not_None_eq split: option.splits)
qed

text \<open>The A-law encoder ends on every buffer of 16-bit samples and writes one byte a sample.\<close>

theorem encode_pcma_total: "\<exists>out. encode_pcma pcm = Some out \<and> length out = length pcm"
proof (induction pcm)
  case (Cons s pcm)
  obtain b where "linear_to_alaw s = Some b" using linear_to_alaw_ends by blast
  with Cons show ?case by auto
qed simp

section \<open>ADPCM: ranges, tracking error, and the encoder against the decoder\<close>

definition adpcm_ok :: "adpcm \<Rightarrow> bool" where
  "adpcm_ok d \<longleftrightarrow>
     - 32768 \<le> predicted d \<and> predicted d \<le> 32767 \<and> 0 \<le> index d \<and> index d \<le> 88"

lemma adpcm_ok_initial: "adpcm_ok \<lparr>predicted = 0, index = 0\<rparr>"
  by (simp add: adpcm_ok_def)

lemma decode_nibble_ok: "adpcm_ok (decode_nibble d n)"
  by (simp add: adpcm_ok_def decode_nibble_def clamp_sample_def clamp_index_def Let_def)

lemma encode_nibble_decodes: "encode_nibble e s = (e', nib) \<Longrightarrow> decode_nibble e nib = e'"
  by (auto simp: encode_nibble_def decode_nibble_def Let_def split: if_splits)
    (simp_all add: add.commute add.left_commute add.assoc)

lemma encode_nibble_ok: "encode_nibble e s = (e', nib) \<Longrightarrow> adpcm_ok e'"
  using decode_nibble_ok encode_nibble_decodes by metis

lemma encode_nibble_small: "encode_nibble e s = (e', nib) \<Longrightarrow> nib < 16"
  by (auto simp: encode_nibble_def Let_def split: if_splits)

lemma nibble_take_bit: "(a :: byte) < 16 \<Longrightarrow> take_bit 4 a = a"
  by (rule unsigned_word_eqI [where ?'a = nat])
    (simp add: take_bit_eq_mod unat_mod_distrib word_less_nat_alt)

lemma nibble_bits: "(a :: byte) < 16 \<Longrightarrow> bit a n \<Longrightarrow> n < 4"
  by (metis bit_take_bit_iff nibble_take_bit)

lemma and_15: "(x :: byte) AND 0x0F = take_bit 4 x"
  by (simp add: take_bit_eq_mask mask_eq_exp_minus_1)

lemma high_nibble:
  "(a :: byte) < 16 \<Longrightarrow> b < 16 \<Longrightarrow> drop_bit 4 (push_bit 4 a OR b) AND 0x0F = a"
  unfolding and_15 by (rule bit_word_eqI) (auto simp: bit_simps dest: nibble_bits)

lemma low_nibble: "(a :: byte) < 16 \<Longrightarrow> b < 16 \<Longrightarrow> (push_bit 4 a OR b) AND 0x0F = b"
  unfolding and_15 by (rule bit_word_eqI) (auto simp: bit_simps dest: nibble_bits)

text \<open>The index never leaves the step table, so no table read of the code can panic.\<close>

lemma step_table_bounds:
  assumes "0 \<le> i" "i \<le> 88"
  shows "nat i < length ima_step_table \<and> 7 \<le> ima_step_table ! nat i \<and>
    ima_step_table ! nat i \<le> 32767"
proof -
  have i: "nat i < length ima_step_table"
    using assms by (simp add: ima_step_table_def)
  then have "ima_step_table ! nat i \<in> set ima_step_table" by (rule nth_mem)
  moreover have "\<forall>s \<in> set ima_step_table. 7 \<le> s \<and> s \<le> 32767"
    by (simp add: ima_step_table_def)
  ultimately show ?thesis using i by blast
qed

lemma decode_payload_ok:
  "adpcm_ok d \<Longrightarrow> adpcm_ok (fst (decode_payload d payload))"
  by (induction d payload rule: decode_payload.induct)
    (auto simp: Let_def decode_nibble_ok split: prod.splits)

lemma decode_payload_length: "length (snd (decode_payload d payload)) = 2 * length payload"
  by (induction d payload rule: decode_payload.induct) (auto simp: Let_def split: prod.splits)

text \<open>The three right shifts of a step, bounded as divisions.\<close>

lemma shift_bounds:
  fixes s :: int
  shows "drop_bit 3 s * 8 \<le> s" "s < drop_bit 3 s * 8 + 8"
    "drop_bit 2 s * 4 \<le> s" "s < drop_bit 2 s * 4 + 4"
    "drop_bit (Suc 0) s * 2 \<le> s" "s < drop_bit (Suc 0) s * 2 + 2"
  by (simp_all add: drop_bit_eq_div)

lemma clamp_closer:
  "- 32768 \<le> s \<Longrightarrow> s \<le> 32767 \<Longrightarrow> \<bar>s - clamp_sample p\<bar> \<le> \<bar>s - p\<bar>"
  by (simp add: clamp_sample_def Let_def)

lemma encode_nibble_error:
  assumes "encode_nibble e s = (e', nib)"
    and "step = ima_step_table ! nat (index e)"
    and "s - predicted e < 2 * step" "predicted e - s < 2 * step"
  shows "\<exists>p. predicted e' = clamp_sample p \<and> \<bar>s - p\<bar> \<le> drop_bit 3 step + 2"
proof -
  define q h o8 where "q = drop_bit 2 step" and "h = drop_bit 1 step" and "o8 = drop_bit 3 step"
  have b: "o8 * 8 \<le> step" "step < o8 * 8 + 8" "q * 4 \<le> step" "step < q * 4 + 4"
    "h * 2 \<le> step" "step < h * 2 + 2"
    using shift_bounds [of step] by (simp_all add: q_def h_def o8_def)
  define d0 where "d0 = (if s - predicted e < 0 then - (s - predicted e) else s - predicted e)"
  define d1 where "d1 = (if d0 \<ge> step then d0 - step else d0)"
  define d2 where "d2 = (if d1 \<ge> h then d1 - h else d1)"
  define d3 where "d3 = (if d2 \<ge> q then d2 - q else d2)"
  have d3: "0 \<le> d3 \<and> d3 \<le> 2 * o8 + 2"
    using b assms(3,4) unfolding d3_def d2_def d1_def d0_def by auto
  have p: "predicted e' = clamp_sample (if s < predicted e then predicted e - (o8 + d0 - d3)
      else predicted e + (o8 + d0 - d3))"
    using assms(1)
    unfolding encode_nibble_def Let_def assms(2)[symmetric] q_def[symmetric] h_def[symmetric]
      o8_def[symmetric] d0_def[symmetric]
    unfolding d3_def d2_def d1_def
    by (simp cong: if_cong split: if_splits) (auto simp: add.assoc)
  have "\<bar>s - (if s < predicted e then predicted e - (o8 + d0 - d3)
      else predicted e + (o8 + d0 - d3))\<bar> \<le> o8 + 2"
    using d3 by (auto simp: d0_def)
  with p show ?thesis unfolding o8_def by blast
qed

text \<open>The encoder's states after each sample.\<close>

fun encoder_trace :: "adpcm \<Rightarrow> int list \<Rightarrow> adpcm list" where
  "encoder_trace e [] = []"
| "encoder_trace e (s # ss) =
     fst (encode_nibble e s) # encoder_trace (fst (encode_nibble e s)) ss"

lemma decode_encoded_pair:
  assumes "encode_nibble e a = (e1, x)" "encode_nibble e1 b = (e2, y)"
  shows "decode_nibble e (drop_bit 4 (push_bit 4 x OR y) AND 0x0F) = e1"
    "decode_nibble e1 ((push_bit 4 x OR y) AND 0x0F) = e2"
proof -
  have "x < 16" "y < 16"
    using assms encode_nibble_small by blast+
  then show "decode_nibble e (drop_bit 4 (push_bit 4 x OR y) AND 0x0F) = e1"
    "decode_nibble e1 ((push_bit 4 x OR y) AND 0x0F) = e2"
    using assms encode_nibble_decodes by (simp_all only: high_nibble low_nibble)
qed

lemma decode_encode_samples:
  "even (length pcm) \<Longrightarrow> encode_samples e pcm = (e', out) \<Longrightarrow>
   decode_payload e out =
     (e', map (\<lambda>x. word_of_int (predicted x)) (encoder_trace e (map sint pcm)))
   \<and> e' = last (e # encoder_trace e (map sint pcm)) \<and> length out = length pcm div 2"
proof (induction e pcm arbitrary: e' out rule: encode_samples.induct)
  case (1 e s1 s2 pcm)
  obtain e1 x where 1: "encode_nibble e (sint s1) = (e1, x)" by fastforce
  obtain e2 y where 2: "encode_nibble e1 (sint s2) = (e2, y)" by fastforce
  obtain e3 rest where 3: "encode_samples e2 pcm = (e3, rest)" by fastforce
  have "e' = e3" "out = (push_bit 4 x OR y) # rest"
    using "1.prems"(2) 1 2 3 by simp_all
  moreover note decode_encoded_pair [OF 1 2]
  moreover have "decode_payload e2 rest =
      (e3, map (\<lambda>x. word_of_int (predicted x)) (encoder_trace e2 (map sint pcm)))
      \<and> e3 = last (e2 # encoder_trace e2 (map sint pcm)) \<and> length rest = length pcm div 2"
    using "1.IH" [OF 1 [symmetric] _ 2 [symmetric]] 3 "1.prems"(1) by simp
  ultimately show ?case
    using 1 2 by simp
qed (simp_all)

lemma sint_word_of_int_16: "- 32768 \<le> p \<Longrightarrow> p \<le> 32767 \<Longrightarrow> sint (word_of_int p :: u16) = p"
  by (subst sint_sbintrunc') (simp add: signed_take_bit_int_eq_self)

lemma encode_block_layout:
  assumes "encode_samples e pcm = (e', out)" "even (length pcm)" "pcm \<noteq> []"
  shows "encode_block e pcm =
    (e', Inr (le16 (word_of_int (predicted e)) @ [word_of_int (index e), 0] @ out))"
proof -
  have "\<not> length pcm < 2" "length pcm \<noteq> 0"
    using assms(2,3) by (cases pcm; cases "tl pcm"; simp)+
  then show ?thesis
    using assms by (simp add: encode_block_def even_iff_mod_2_eq_zero)
qed

lemma adpcm_decode_header:
  assumes "adpcm_ok e"
  shows "adpcm_decode d (le16 (word_of_int (predicted e)) @ [word_of_int (index e), 0] @ out) =
    decode_payload e out"
proof -
  have "u16_at (le16 (word_of_int (predicted e)) @ [word_of_int (index e), 0] @ out) 0 =
      word_of_int (predicted e)"
    using u16_at_append [of "[]" 0] by simp
  moreover have "uint (word_of_int (index e) :: byte) = index e"
    using assms by (simp add: adpcm_ok_def uint_word_of_int)
  ultimately show ?thesis
    using assms
    by (cases e) (simp add: adpcm_decode_def adpcm_ok_def sint_word_of_int_16 le16_def)
qed

text \<open>C10: A block the encoder writes for an even, non-empty number of samples has the length the
  talk format promises, and a decoder in any state that decodes it goes through exactly the
  encoder's predictions: it ends in the encoder's state, so the two never drift apart.\<close>

theorem adpcm_block_roundtrip:
  assumes "adpcm_ok e" "even (length pcm)" "pcm \<noteq> []"
  shows "\<exists>e' block. encode_block e pcm = (e', Inr block) \<and> adpcm_ok e' \<and>
    length block = 4 + length pcm div 2 \<and>
    adpcm_decode d block =
      (e', map (\<lambda>x. word_of_int (predicted x)) (encoder_trace e (map sint pcm)))"
proof -
  obtain e' out where 1: "encode_samples e pcm = (e', out)" by fastforce
  note 2 = decode_encode_samples [OF assms(2) 1]
  have "adpcm_ok e'"
    using 2 decode_payload_ok [OF assms(1), of out] by simp
  then show ?thesis
    using encode_block_layout [OF 1 assms(2,3)] 2 adpcm_decode_header [OF assms(1)] by simp
qed

theorem adpcm_block_roundtrip_witness:
  "\<exists>e' block. encode_block \<lparr>predicted = 0, index = 0\<rparr> [100, - 200] = (e', Inr block) \<and> adpcm_ok e' \<and>
    length block = 5 \<and>
    adpcm_decode \<lparr>predicted = 5, index = 3\<rparr> block =
      (e', map (\<lambda>x. word_of_int (predicted x))
         (encoder_trace \<lparr>predicted = 0, index = 0\<rparr> [100, - 200]))"
  using adpcm_block_roundtrip [of "\<lparr>predicted = 0, index = 0\<rparr>" "[100, - 200]"
      "\<lparr>predicted = 5, index = 3\<rparr>"]
  by (simp add: adpcm_ok_def)

text \<open>While the signal moves by less than twice the current step, the sample the decoder
  reconstructs from the encoder's nibble is within an eighth of the step, plus the two units
  the three rounded shifts can lose, of the sample that was encoded.\<close>

theorem adpcm_tracking_error:
  assumes "adpcm_ok e"
    and "\<bar>sint (s :: i16) - predicted e\<bar> < 2 * (ima_step_table ! nat (index e))"
  shows "\<bar>sint s - predicted (decode_nibble e (snd (encode_nibble e (sint s))))\<bar>
    \<le> ima_step_table ! nat (index e) div 8 + 2"
proof -
  obtain e' nib where e: "encode_nibble e (sint s) = (e', nib)" by fastforce
  obtain p where p: "predicted e' = clamp_sample p"
    "\<bar>sint s - p\<bar> \<le> drop_bit 3 (ima_step_table ! nat (index e)) + 2"
    using encode_nibble_error [OF e refl] assms(2) by (auto simp: abs_less_iff)
  have "- 32768 \<le> sint s" "sint s \<le> 32767"
    using sint_greater_eq [of s] sint_less [of s] by simp_all
  then show ?thesis
    using clamp_closer [of "sint s" p] p encode_nibble_decodes [OF e] e
    by (simp add: drop_bit_eq_div)
qed

theorem adpcm_tracking_error_witness:
  "\<bar>sint (10 :: i16) - predicted (decode_nibble \<lparr>predicted = 0, index = 0\<rparr>
      (snd (encode_nibble \<lparr>predicted = 0, index = 0\<rparr> (sint (10 :: i16)))))\<bar> \<le> 2"
  using adpcm_tracking_error [of "\<lparr>predicted = 0, index = 0\<rparr>" 10]
  by (simp add: adpcm_ok_def ima_step_table_def)

end
