(* ===== verification/Crypto.thy ===== *)
theory Crypto
  imports Prelude
begin

text \<open>
  The ciphers of \<^verbatim>\<open>pkg/baichuan/crypto.go\<close>: the XOR cipher of the Baichuan XML, the XOR
  stream of the UID transport, AES in CFB mode, and the choice between them. The block
  function of AES and the MD5 digest are parameters (\<open>E\<close>, \<open>md5\<close>): nothing below depends on
  what they compute. The interface \<open>cipher\<close> states what the protocol code relies on; every
  cipher of the file is an interpretation of it.
\<close>

section \<open>The interface\<close>

locale cipher =
  fixes enc :: "'k \<Rightarrow> bytes \<Rightarrow> bytes"
    and dec :: "'k \<Rightarrow> bytes \<Rightarrow> bytes"
  assumes dec_enc: "dec k (enc k buf) = buf"
    and enc_dec: "enc k (dec k buf) = buf"
    and take_enc: "take n (enc k buf) = enc k (take n buf)"
    and length_enc: "length (enc k buf) = length buf"
begin

lemma enc_inject: "enc k a = enc k b \<longleftrightarrow> a = b"
  by (metis dec_enc)

lemma length_dec: "length (dec k buf) = length buf"
  by (metis enc_dec length_enc)

lemma take_dec: "take n (dec k buf) = dec k (take n buf)"
  by (metis dec_enc enc_dec take_enc)

lemma enc_Nil: "enc k [] = []"
  using length_enc [of k "[]"] by simp

lemma enc_eq_Nil: "enc k buf = [] \<longleftrightarrow> buf = []"
  by (metis length_0_conv length_enc)

text \<open>What follows a ciphertext does not disturb the plaintext of the part before.\<close>

lemma dec_prefix: "take (length buf) (dec k (enc k buf @ more)) = buf"
  by (simp add: take_dec length_enc dec_enc)

end

text \<open>A cipher that is its own inverse.\<close>

locale involution_cipher =
  fixes f :: "'k \<Rightarrow> bytes \<Rightarrow> bytes"
  assumes f_f: "f k (f k buf) = buf"
    and take_f: "take n (f k buf) = f k (take n buf)"
    and length_f: "length (f k buf) = length buf"

sublocale involution_cipher \<subseteq> cipher f f
  by unfold_locales (simp_all add: f_f take_f length_f)

section \<open>The XOR ciphers\<close>

definition bcXMLKey :: bytes where
  "bcXMLKey = [0x1F, 0x2D, 0x3C, 0x4B, 0x5A, 0x69, 0x78, 0xFF]"

definition udpXMLKey :: "u32 list" where
  "udpXMLKey =
     [0x1f2d3c4b, 0x5a6c7f8d, 0x38172e4b, 0x8271635a,
      0x863f1a2b, 0xa5c6f7d8, 0x8371e1b4, 0x17f2d3a5]"

definition BCXOR :: "byte \<Rightarrow> bytes \<Rightarrow> bytes" where
  "BCXOR offset buf =
     xor_from (\<lambda>i. bcXMLKey ! ((unat offset + i) mod length bcXMLKey) XOR offset) 0 buf"

definition udp_stream :: "u32 \<Rightarrow> bytes" where
  "udp_stream tid = concat (map (\<lambda>key. le32 (key + tid)) udpXMLKey)"

definition UDPXOR :: "u32 \<Rightarrow> bytes \<Rightarrow> bytes" where
  "UDPXOR tid buf =
     (let stream = udp_stream tid in xor_from (\<lambda>i. stream ! (i mod length stream)) 0 buf)"

interpretation bc: involution_cipher BCXOR
  by unfold_locales (simp_all add: BCXOR_def take_xor_from)

interpretation udp: involution_cipher UDPXOR
  by unfold_locales (simp_all add: UDPXOR_def Let_def take_xor_from)

section \<open>AES-CFB\<close>

type_synonym block_function = "bytes \<Rightarrow> bytes \<Rightarrow> bytes"

definition aesIV :: bytes where
  "aesIV = bytes_of ''0123456789abcdef''"

text \<open>
  \<^verbatim>\<open>cipher.NewCFBEncrypter\<close> and \<^verbatim>\<open>NewCFBDecrypter\<close>: each block of at most 16 bytes is
  combined with the encryption of the ciphertext block before it, the first one with that
  of the initialisation vector.
\<close>

function cfb_encrypt :: "(bytes \<Rightarrow> bytes) \<Rightarrow> bytes \<Rightarrow> bytes \<Rightarrow> bytes" where
  "cfb_encrypt E reg buf =
     (if buf = [] then []
      else let c = xor_from (\<lambda>i. E reg ! i) 0 (take 16 buf)
           in c @ cfb_encrypt E c (drop 16 buf))"
  by pat_completeness auto
termination
  by (relation "measure (\<lambda>(E, reg, buf). length buf)") auto

function cfb_decrypt :: "(bytes \<Rightarrow> bytes) \<Rightarrow> bytes \<Rightarrow> bytes \<Rightarrow> bytes" where
  "cfb_decrypt E reg buf =
     (if buf = [] then []
      else xor_from (\<lambda>i. E reg ! i) 0 (take 16 buf)
           @ cfb_decrypt E (take 16 buf) (drop 16 buf))"
  by pat_completeness auto
termination
  by (relation "measure (\<lambda>(E, reg, buf). length buf)") auto

declare cfb_encrypt.simps [simp del] cfb_decrypt.simps [simp del]

definition aesCFB :: "block_function \<Rightarrow> bytes \<Rightarrow> bytes \<Rightarrow> bool \<Rightarrow> bytes" where
  "aesCFB E buf key encrypt =
     (if encrypt then cfb_encrypt (E key) aesIV buf else cfb_decrypt (E key) aesIV buf)"

lemma cfb_Nil [simp]: "cfb_encrypt E reg [] = []" "cfb_decrypt E reg [] = []"
  by (simp_all add: cfb_encrypt.simps cfb_decrypt.simps)

lemma length_cfb_encrypt: "length (cfb_encrypt E reg buf) = length buf"
proof (induction E reg buf rule: cfb_encrypt.induct)
  case (1 E reg buf)
  then show ?case
    by (subst cfb_encrypt.simps) (auto simp: Let_def)
qed

lemma cfb_decrypt_encrypt: "cfb_decrypt E reg (cfb_encrypt E reg buf) = buf"
proof (induction E reg buf rule: cfb_encrypt.induct)
  case (1 E reg buf)
  show ?case
  proof (cases "buf = []")
    case False
    define c where "c = xor_from (\<lambda>i. E reg ! i) 0 (take 16 buf)"
    have enc: "cfb_encrypt E reg buf = c @ cfb_encrypt E c (drop 16 buf)"
      using False by (subst cfb_encrypt.simps) (simp add: c_def Let_def)
    have split: "take 16 (c @ cfb_encrypt E c (drop 16 buf)) = c"
      "drop 16 (c @ cfb_encrypt E c (drop 16 buf)) = cfb_encrypt E c (drop 16 buf)"
      by (cases "length buf \<le> 16"; simp add: c_def)+
    have "c \<noteq> []" using False by (metis c_def length_0_conv length_xor_from take_eq_Nil zero_neq_numeral)
    then have "cfb_decrypt E reg (cfb_encrypt E reg buf) =
        xor_from (\<lambda>i. E reg ! i) 0 c @ cfb_decrypt E c (cfb_encrypt E c (drop 16 buf))"
      unfolding enc by (subst cfb_decrypt.simps) (simp only: split append_is_Nil_conv if_False simp_thms)
    also have "\<dots> = take 16 buf @ drop 16 buf"
      using "1.IH" [OF False c_def] by (simp add: c_def)
    finally show ?thesis by simp
  qed simp
qed

lemma cfb_encrypt_decrypt: "cfb_encrypt E reg (cfb_decrypt E reg buf) = buf"
proof (induction E reg buf rule: cfb_decrypt.induct)
  case (1 E reg buf)
  show ?case
  proof (cases "buf = []")
    case False
    define p where "p = xor_from (\<lambda>i. E reg ! i) 0 (take 16 buf)"
    define rest where "rest = cfb_decrypt E (take 16 buf) (drop 16 buf)"
    have dec: "cfb_decrypt E reg buf = p @ rest"
      using False by (subst cfb_decrypt.simps) (simp add: p_def rest_def)
    have "length rest = length buf - 16"
      using "1.IH" [OF False] length_cfb_encrypt [of E "take 16 buf" rest]
      by (simp add: rest_def)
    then have split: "take 16 (p @ rest) = p" "drop 16 (p @ rest) = rest"
      by (cases "length buf \<le> 16"; simp add: p_def)+
    have "p \<noteq> []" using False by (metis p_def length_0_conv length_xor_from take_eq_Nil zero_neq_numeral)
    then have "cfb_encrypt E reg (p @ rest) =
        xor_from (\<lambda>i. E reg ! i) 0 p @ cfb_encrypt E (xor_from (\<lambda>i. E reg ! i) 0 p) rest"
      by (subst cfb_encrypt.simps) (simp only: split Let_def append_is_Nil_conv if_False simp_thms)
    also have "\<dots> = take 16 buf @ drop 16 buf"
      using "1.IH" [OF False] by (simp add: p_def rest_def)
    finally show ?thesis by (simp add: dec)
  qed simp
qed

lemma take_cfb_encrypt: "take n (cfb_encrypt E reg buf) = cfb_encrypt E reg (take n buf)"
proof (induction E reg buf arbitrary: n rule: cfb_encrypt.induct)
  case (1 E reg buf)
  show ?case
  proof (cases "buf = [] \<or> n = 0")
    case False
    define c where "c = xor_from (\<lambda>i. E reg ! i) 0 (take 16 buf)"
    have enc: "cfb_encrypt E reg buf = c @ cfb_encrypt E c (drop 16 buf)"
      using False by (subst cfb_encrypt.simps) (simp add: c_def Let_def)
    have IH: "take m (cfb_encrypt E c (drop 16 buf)) = cfb_encrypt E c (take m (drop 16 buf))" for m
      using "1.IH" [OF _ c_def] False by blast
    show ?thesis
    proof (cases "n \<le> 16")
      case True
      then have "cfb_encrypt E reg (take n buf) = take n c"
        using False by (subst cfb_encrypt.simps) (simp add: Let_def c_def take_xor_from min_def)
      moreover have "take n (c @ cfb_encrypt E c (drop 16 buf)) = take n c"
        using True by (cases "length buf \<le> 16") (auto simp: c_def)
      ultimately show ?thesis by (simp add: enc)
    next
      case n: False
      then have "cfb_encrypt E reg (take n buf) =
          c @ cfb_encrypt E c (take (n - 16) (drop 16 buf))"
        using False by (subst cfb_encrypt.simps)
          (simp add: Let_def c_def min_def drop_take)
      moreover have "take n (c @ cfb_encrypt E c (drop 16 buf)) =
          c @ take (n - 16) (cfb_encrypt E c (drop 16 buf))"
        using n by (cases "length buf \<le> 16") (auto simp: c_def)
      ultimately show ?thesis by (simp add: enc IH)
    qed
  qed auto
qed

interpretation cfb: cipher "\<lambda>key buf. aesCFB E buf key True" "\<lambda>key buf. aesCFB E buf key False"
  for E
  by unfold_locales
    (simp_all add: aesCFB_def cfb_decrypt_encrypt cfb_encrypt_decrypt length_cfb_encrypt
      take_cfb_encrypt)

section \<open>Digests and the session key\<close>

type_synonym digest = "bytes \<Rightarrow> bytes"

definition hex_digits :: string where
  "hex_digits = ''0123456789ABCDEF''"

definition stringifyMD5 :: "bytes \<Rightarrow> string" where
  "stringifyMD5 md =
     (let out = concat (map (\<lambda>b. [hex_digits ! unat (drop_bit 4 b), hex_digits ! unat (b AND 0x0F)]) md)
      in if length out > 31 then take 31 out else out)"

text \<open>\<^verbatim>\<open>strings.TrimSuffix(s, "")\<close> is \<open>s\<close>.\<close>

definition MD5Modern :: "digest \<Rightarrow> string \<Rightarrow> string" where
  "MD5Modern md5 input = to_upper (to_upper (stringifyMD5 (md5 (bytes_of input))))"

text \<open>\<^verbatim>\<open>keyPhrase[:16]\<close> panics on a shorter phrase: \<open>None\<close>.\<close>

definition DeriveAESKey :: "digest \<Rightarrow> string \<Rightarrow> string \<Rightarrow> bytes option" where
  "DeriveAESKey md5 nonce password =
     (let keyPhrase = MD5Modern md5 (nonce @ ''-'' @ password)
      in if length keyPhrase < 16 then None else Some (bytes_of (take 16 keyPhrase)))"

section \<open>The negotiated mode\<close>

datatype encryption_mode = EncryptionNone | EncryptionBC | EncryptionAES

record cipher_state =
  mode :: encryption_mode
  aesKey :: bytes
  hasAESKey :: bool

definition encryptXML :: "block_function \<Rightarrow> byte \<Rightarrow> bytes \<Rightarrow> cipher_state \<Rightarrow> bytes" where
  "encryptXML E offset buf c =
     (case mode c of
        EncryptionNone \<Rightarrow> buf
      | EncryptionBC \<Rightarrow> BCXOR offset buf
      | EncryptionAES \<Rightarrow>
          if \<not> hasAESKey c then BCXOR offset buf else aesCFB E buf (aesKey c) True)"

definition decryptXML :: "block_function \<Rightarrow> byte \<Rightarrow> bytes \<Rightarrow> cipher_state \<Rightarrow> bytes" where
  "decryptXML E offset buf c =
     (case mode c of
        EncryptionNone \<Rightarrow> buf
      | EncryptionBC \<Rightarrow> BCXOR offset buf
      | EncryptionAES \<Rightarrow>
          if \<not> hasAESKey c then BCXOR offset buf else aesCFB E buf (aesKey c) False)"

definition isXMLPrefix :: "bytes \<Rightarrow> bool" where
  "isXMLPrefix buf \<longleftrightarrow>
     has_prefix (dropWhile (\<lambda>b. b \<in> {0x20, 0x09, 0x0D, 0x0A}) buf) (bytes_of ''<?xml'')"

definition decryptXMLAuto :: "block_function \<Rightarrow> byte \<Rightarrow> bytes \<Rightarrow> cipher_state \<Rightarrow> bytes" where
  "decryptXMLAuto E offset buf c =
     (let out = decryptXML E offset buf c
      in if isXMLPrefix out then out
         else if isXMLPrefix buf then buf
         else if isXMLPrefix (BCXOR offset buf) then BCXOR offset buf
         else if hasAESKey c \<and> isXMLPrefix (aesCFB E buf (aesKey c) False)
              then aesCFB E buf (aesKey c) False
         else out)"

interpretation session: cipher
  "\<lambda>(offset, c) buf. encryptXML E offset buf c" "\<lambda>(offset, c) buf. decryptXML E offset buf c"
  for E
  by unfold_locales
    (auto simp: encryptXML_def decryptXML_def bc.f_f bc.take_f bc.length_f cfb.dec_enc
      cfb.enc_dec cfb.take_enc cfb.length_enc split: encryption_mode.splits)

lemma decryptXML_encryptXML [simp]: "decryptXML E offset (encryptXML E offset buf c) c = buf"
  using session.dec_enc [of E "(offset, c)" buf] by simp

lemma length_encryptXML [simp]: "length (encryptXML E offset buf c) = length buf"
  using session.length_enc [of E "(offset, c)" buf] by simp

lemma encryptXML_eq_Nil [simp]: "encryptXML E offset buf c = [] \<longleftrightarrow> buf = []"
  by (metis length_0_conv length_encryptXML)

lemma encryptXML_Nil [simp]: "encryptXML E offset [] c = []"
  by simp

lemma decryptXMLAuto_encryptXML:
  "isXMLPrefix doc \<Longrightarrow> decryptXMLAuto E offset (encryptXML E offset doc c) c = doc"
  by (simp add: decryptXMLAuto_def)

text \<open>Whatever the mode, the key and the channel, what \<^verbatim>\<open>encryptXML\<close> wrote is read back by
  \<^verbatim>\<open>decryptXML\<close>, also when other bytes follow it (a message cut out of a longer buffer), and the
  ciphertext is as long as the plaintext, so the lengths the header announces stay right.\<close>

theorem decrypt_encrypt_prefix:
  "take (length buf) (decryptXML E offset (encryptXML E offset buf c @ tail) c) = buf
   \<and> length (encryptXML E offset buf c) = length buf"
  using session.dec_prefix [where E = E and k = "(offset, c)" and buf = buf and more = tail]
  by simp

text \<open>A document the camera sent in any of the three modes - not only the negotiated one - is
  recovered, as long as no interpretation that is tried before the right one happens to look
  like XML; and whatever comes out is one of the four readings of the buffer.\<close>

theorem decryptXMLAuto_foreign_mode:
  assumes "isXMLPrefix doc" "hasAESKey c"
    and "m \<noteq> mode c \<Longrightarrow> \<not> isXMLPrefix (decryptXML E offset buf c)"
    and "m \<noteq> mode c \<Longrightarrow> m \<noteq> EncryptionNone \<Longrightarrow> \<not> isXMLPrefix buf"
    and "m \<noteq> mode c \<Longrightarrow> m = EncryptionAES \<Longrightarrow> \<not> isXMLPrefix (BCXOR offset buf)"
    and "buf = encryptXML E offset doc (c\<lparr>mode := m\<rparr>)"
  shows "decryptXMLAuto E offset buf c = doc"
proof (cases "m = mode c")
  case True
  then have "c\<lparr>mode := m\<rparr> = c" by simp
  then show ?thesis using assms(1,6) decryptXMLAuto_encryptXML by simp
next
  case False
  then show ?thesis
    using assms by (cases m)
      (simp_all add: decryptXMLAuto_def encryptXML_def bc.f_f cfb.dec_enc)
qed

theorem decryptXMLAuto_foreign_mode_witness:
  "decryptXMLAuto (\<lambda>key reg. map (\<lambda>b. b XOR 0x5A) reg) 250
     (BCXOR 250 (bytes_of ''<?xml version=''))
     \<lparr>mode = EncryptionAES, aesKey = bytes_of ''0123456789ABCDEF'', hasAESKey = True\<rparr>
   = bytes_of ''<?xml version=''"
  by (rule decryptXMLAuto_foreign_mode [where m = EncryptionBC]; code_simp)

lemma length_stringifyMD5: "length (stringifyMD5 md) = min 31 (2 * length md)"
proof -
  have "length (concat (map (\<lambda>b. [hex_digits ! unat (drop_bit 4 b), hex_digits ! unat (b AND 0x0F)])
      md)) = 2 * length md"
    by (induction md) simp_all
  then show ?thesis by (simp add: stringifyMD5_def Let_def min_def)
qed

lemma hex_digits_set: "unat (b AND 0x0F :: byte) < 16" "unat (drop_bit 4 b :: byte) < 16"
proof -
  show "unat (b AND 0x0F :: byte) < 16"
    using word_and_le1 [of b "0x0F"] by (simp add: word_le_nat_alt)
  have "unat b < 256" using unsigned_less [of b, where ?'a = nat] by simp
  then show "unat (drop_bit 4 b :: byte) < 16"
    by (simp only: unat_drop_bit_eq) (simp add: drop_bit_eq_div)
qed

lemma set_hex_digits: "x \<in> set (stringifyMD5 md) \<Longrightarrow> x \<in> set hex_digits"
proof -
  assume "x \<in> set (stringifyMD5 md)"
  then have "x \<in> set (concat (map (\<lambda>b. [hex_digits ! unat (drop_bit 4 b),
      hex_digits ! unat (b AND 0x0F)]) md))"
    by (auto simp: stringifyMD5_def Let_def split: if_splits dest: in_set_takeD)
  then obtain b where "x = hex_digits ! unat (drop_bit 4 b :: byte) \<or>
      x = hex_digits ! unat (b AND 0x0F :: byte)" by auto
  moreover have "length hex_digits = 16" by (simp add: hex_digits_def)
  ultimately show ?thesis using hex_digits_set [of b] by (metis nth_mem)
qed

lemma to_upper_hex: "set s \<subseteq> set hex_digits \<Longrightarrow> to_upper s = s"
proof (induction s)
  case (Cons c s)
  have "\<forall>c \<in> set hex_digits. upper_char c = c" by (simp add: hex_digits_def upper_char_def)
  with Cons show ?case by (simp add: to_upper_def)
qed (simp add: to_upper_def)

text \<open>On the 16-byte digests of MD5 the truncated digest is 31 upper-case hexadecimal digits, the
  two conversions to upper case change nothing, and the session key is always derived (the slice
  of 16 characters never panics) and 16 bytes long.\<close>

theorem md5_modern_and_key:
  assumes "\<And>b. length (md5 b) = 16"
  shows "MD5Modern md5 input = stringifyMD5 (md5 (bytes_of input))
    \<and> length (MD5Modern md5 input) = 31 \<and> set (MD5Modern md5 input) \<subseteq> set hex_digits
    \<and> (\<exists>key. DeriveAESKey md5 nonce password = Some key \<and> length key = 16)"
proof -
  have up: "MD5Modern md5 x = stringifyMD5 (md5 (bytes_of x))" for x
    using set_hex_digits to_upper_hex by (simp add: MD5Modern_def subset_iff)
  then have len: "length (MD5Modern md5 x) = 31" for x
    by (simp add: length_stringifyMD5 assms)
  show ?thesis
    using up len set_hex_digits by (auto simp: DeriveAESKey_def Let_def)
qed

theorem md5_modern_and_key_witness:
  "length (MD5Modern (\<lambda>b. replicate 16 0xAB) ''nonce'') = 31"
  by (rule conjunct1 [OF conjunct2 [OF md5_modern_and_key]]) simp

end
