(* ===== verification/UdpPacket.thy ===== *)
theory UdpPacket
  imports Prelude
begin

text \<open>
  The datagrams of the UID transport (\<^verbatim>\<open>pkg/baichuan/udp.go\<close>): their binary layout, the
  checksum of discovery packets, and the two routines on the receive buffer. Connection ids
  are Go \<^verbatim>\<open>int32\<close>s, kept as 32-bit words, so the conversions to \<^verbatim>\<open>uint32\<close> are the identity;
  \<^verbatim>\<open>int(payloadLen)\<close> is exact because \<^verbatim>\<open>int\<close> has 64 bits on the platforms built.
\<close>

section \<open>The interface of a packet format\<close>

locale packet_codec =
  fixes marshal :: "'p \<Rightarrow> bytes"
    and parse :: "bytes \<Rightarrow> 'e + 'p"
    and wf :: "'p \<Rightarrow> bool"
  assumes parse_marshal: "wf p \<Longrightarrow> parse (marshal p) = Inr p"
    and parse_truncated: "wf p \<Longrightarrow> n < length (marshal p) \<Longrightarrow> \<exists>e. parse (take n (marshal p)) = Inl e"
begin

lemma marshal_inject: "wf p \<Longrightarrow> wf q \<Longrightarrow> marshal p = marshal q \<longleftrightarrow> p = q"
  by (metis parse_marshal sum.inject(2))

lemma no_proper_prefix: "wf p \<Longrightarrow> wf q \<Longrightarrow> marshal p = marshal q @ tail \<Longrightarrow> tail = []"
proof (rule ccontr)
  assume "wf p" "wf q" and eq: "marshal p = marshal q @ tail" and "tail \<noteq> []"
  then have "length (marshal q) < length (marshal p)" by simp
  then obtain e where "parse (take (length (marshal q)) (marshal p)) = Inl e"
    using parse_truncated [OF \<open>wf p\<close>] by blast
  then show False using parse_marshal [OF \<open>wf q\<close>] eq by simp
qed

end

section \<open>Packets\<close>

definition udpMagicDiscovery :: u32 where "udpMagicDiscovery = 0x2A87CF3A"
definition udpMagicAck :: u32 where "udpMagicAck = 0x2A87CF20"
definition udpMagicData :: u32 where "udpMagicData = 0x2A87CF10"

datatype udp_packet =
    UdpDiscovery (dTID: u32) (dPayload: bytes)
  | UdpAck (aConnectionID: u32) (aPacketID: u32) (aPayload: bytes)
  | UdpData (uConnectionID: u32) (uPacketID: u32) (uPayload: bytes)

datatype udp_error =
    ShortPacket | ShortDiscovery | ShortDiscoveryPayload | ChecksumMismatch
  | ShortAck | ShortAckPayload | ShortData | ShortDataPayload | UnknownMagic u32

definition crc_shift :: "u32 \<Rightarrow> u32" where
  "crc_shift crc = (if crc AND 1 \<noteq> 0 then drop_bit 1 crc XOR 0xEDB88320 else drop_bit 1 crc)"

definition udpCRC32 :: "bytes \<Rightarrow> u32" where
  "udpCRC32 buf = fold (\<lambda>b crc. (crc_shift ^^ 8) (crc XOR ucast b)) buf 0"

definition len32 :: "'a list \<Rightarrow> u32" where
  "len32 xs = word_of_nat (length xs)"

fun marshalUDPPacket :: "udp_packet \<Rightarrow> bytes" where
  "marshalUDPPacket (UdpDiscovery tid payload) =
     le32 udpMagicDiscovery @ le32 (len32 payload) @ le32 1 @ le32 tid
       @ le32 (udpCRC32 payload) @ payload"
| "marshalUDPPacket (UdpAck conn pid payload) =
     le32 udpMagicAck @ le32 conn @ le32 0 @ le32 0 @ le32 pid @ le32 0
       @ le32 (len32 payload) @ payload"
| "marshalUDPPacket (UdpData conn pid payload) =
     le32 udpMagicData @ le32 conn @ le32 0 @ le32 pid @ le32 (len32 payload) @ payload"

definition parseUDPPacket :: "bytes \<Rightarrow> udp_error + udp_packet" where
  "parseUDPPacket buf =
     (if length buf < 4 then Inl ShortPacket
      else let magic = u32_at buf 0
      in if magic = udpMagicDiscovery then
           (if length buf < 20 then Inl ShortDiscovery
            else let payloadLen = unat (u32_at buf 4); tid = u32_at buf 12; checksum = u32_at buf 16
            in if length buf < 20 + payloadLen then Inl ShortDiscoveryPayload
               else let payload = slice buf 20 (20 + payloadLen)
               in if udpCRC32 payload \<noteq> checksum then Inl ChecksumMismatch
                  else Inr (UdpDiscovery tid payload))
         else if magic = udpMagicAck then
           (if length buf < 28 then Inl ShortAck
            else let payloadLen = unat (u32_at buf 24)
            in if length buf < 28 + payloadLen then Inl ShortAckPayload
               else Inr (UdpAck (u32_at buf 4) (u32_at buf 16) (slice buf 28 (28 + payloadLen))))
         else if magic = udpMagicData then
           (if length buf < 20 then Inl ShortData
            else let payloadLen = unat (u32_at buf 16)
            in if length buf < 20 + payloadLen then Inl ShortDataPayload
               else Inr (UdpData (u32_at buf 4) (u32_at buf 12) (slice buf 20 (20 + payloadLen))))
         else Inl (UnknownMagic magic))"

fun packet_payload :: "udp_packet \<Rightarrow> bytes" where
  "packet_payload (UdpDiscovery tid payload) = payload"
| "packet_payload (UdpAck conn pid payload) = payload"
| "packet_payload (UdpData conn pid payload) = payload"

definition udp_wf :: "udp_packet \<Rightarrow> bool" where
  "udp_wf p \<longleftrightarrow> length (packet_payload p) < 2 ^ 32"

lemmas udp_magic = udpMagicDiscovery_def udpMagicAck_def udpMagicData_def

lemma unat_len32: "length xs < 2 ^ 32 \<Longrightarrow> unat (len32 xs) = length xs"
  by (simp add: len32_def unat_of_nat take_bit_nat_eq_self)

text \<open>Reading the words of a marshalled header back, at the offsets the parser uses.\<close>

lemma u32_words:
  "u32_at (le32 a @ r) 0 = a"
  "u32_at (le32 a @ le32 b @ r) 4 = b"
  "u32_at (le32 a @ le32 b @ le32 c @ r) 8 = c"
  "u32_at (le32 a @ le32 b @ le32 c @ le32 d @ r) 12 = d"
  "u32_at (le32 a @ le32 b @ le32 c @ le32 d @ le32 e @ r) 16 = e"
  "u32_at (le32 a @ le32 b @ le32 c @ le32 d @ le32 e @ le32 f @ r) 20 = f"
  "u32_at (le32 a @ le32 b @ le32 c @ le32 d @ le32 e @ le32 f @ le32 g @ r) 24 = g"
  using u32_at_append [of "[]" 0 a r]
    u32_at_append [of "le32 a" 4 b r]
    u32_at_append [of "le32 a @ le32 b" 8 c r]
    u32_at_append [of "le32 a @ le32 b @ le32 c" 12 d r]
    u32_at_append [of "le32 a @ le32 b @ le32 c @ le32 d" 16 e r]
    u32_at_append [of "le32 a @ le32 b @ le32 c @ le32 d @ le32 e" 20 f r]
    u32_at_append [of "le32 a @ le32 b @ le32 c @ le32 d @ le32 e @ le32 f" 24 g r]
  by simp_all

lemma slice_words:
  "n = 20 + length p \<Longrightarrow> slice (le32 a @ le32 b @ le32 c @ le32 d @ le32 e @ p @ tail) 20 n = p"
  "n = 28 + length p \<Longrightarrow>
    slice (le32 a @ le32 b @ le32 c @ le32 d @ le32 e @ le32 f @ le32 g @ p @ tail) 28 n = p"
  by (simp_all add: slice_def)

lemma slice_words0:
  "n = 20 + length p \<Longrightarrow> slice (le32 a @ le32 b @ le32 c @ le32 d @ le32 e @ p) 20 n = p"
  "n = 28 + length p \<Longrightarrow>
    slice (le32 a @ le32 b @ le32 c @ le32 d @ le32 e @ le32 f @ le32 g @ p) 28 n = p"
  by (simp_all add: slice_def)

lemma parse_marshal_udp: "udp_wf p \<Longrightarrow> parseUDPPacket (marshalUDPPacket p) = Inr p"
  by (cases p)
    (simp_all add: udp_wf_def parseUDPPacket_def u32_words unat_len32 slice_words0 udp_magic Let_def)

text \<open>A field that lies within the cut is the same before and after it.\<close>

lemma u32_at_take: "i + 4 \<le> n \<Longrightarrow> n \<le> length buf \<Longrightarrow> u32_at (take n buf) i = u32_at buf i"
  using u32_at_prefix [of i "take n buf" "drop n buf"] by simp

lemma parse_cut:
  assumes "n < length m" "4 \<le> length m"
  shows "u32_at m 0 = udpMagicDiscovery \<Longrightarrow> length m = 20 + unat (u32_at m 4) \<Longrightarrow>
      \<exists>e. parseUDPPacket (take n m) = Inl e"
    and "u32_at m 0 = udpMagicAck \<Longrightarrow> length m = 28 + unat (u32_at m 24) \<Longrightarrow>
      \<exists>e. parseUDPPacket (take n m) = Inl e"
    and "u32_at m 0 = udpMagicData \<Longrightarrow> length m = 20 + unat (u32_at m 16) \<Longrightarrow>
      \<exists>e. parseUDPPacket (take n m) = Inl e"
proof -
  have len: "length (take n m) = n" using assms by simp
  have at: "i + 4 \<le> n \<Longrightarrow> u32_at (take n m) i = u32_at m i" for i
    using assms u32_at_take by simp
  show "\<exists>e. parseUDPPacket (take n m) = Inl e"
    if "u32_at m 0 = udpMagicDiscovery" "length m = 20 + unat (u32_at m 4)"
    using that assms at [of 0] at [of 4]
    by (cases "n < 4"; cases "n < 20") (simp_all add: parseUDPPacket_def len Let_def)
  show "\<exists>e. parseUDPPacket (take n m) = Inl e"
    if "u32_at m 0 = udpMagicAck" "length m = 28 + unat (u32_at m 24)"
    using that assms at [of 0] at [of 24]
    by (cases "n < 4"; cases "n < 28") (simp_all add: parseUDPPacket_def len Let_def udp_magic)
  show "\<exists>e. parseUDPPacket (take n m) = Inl e"
    if "u32_at m 0 = udpMagicData" "length m = 20 + unat (u32_at m 16)"
    using that assms at [of 0] at [of 16]
    by (cases "n < 4"; cases "n < 20") (simp_all add: parseUDPPacket_def len Let_def udp_magic)
qed

lemma parse_truncated_udp:
  assumes "udp_wf p" "n < length (marshalUDPPacket p)"
  shows "\<exists>e. parseUDPPacket (take n (marshalUDPPacket p)) = Inl e"
proof (cases p)
  case (UdpDiscovery tid payload)
  show ?thesis
    by (rule parse_cut(1) [OF assms(2)])
      (use assms(1) in \<open>simp_all add: UdpDiscovery udp_wf_def u32_words unat_len32\<close>)
next
  case (UdpAck conn pid payload)
  show ?thesis
    by (rule parse_cut(2) [OF assms(2)])
      (use assms(1) in \<open>simp_all add: UdpAck udp_wf_def u32_words unat_len32\<close>)
next
  case (UdpData conn pid payload)
  show ?thesis
    by (rule parse_cut(3) [OF assms(2)])
      (use assms(1) in \<open>simp_all add: UdpData udp_wf_def u32_words unat_len32\<close>)
qed

interpretation udp: packet_codec marshalUDPPacket parseUDPPacket udp_wf
  by unfold_locales (simp_all add: parse_marshal_udp parse_truncated_udp)

section \<open>The checksum\<close>

lemma udpCRC32_append: "udpCRC32 (p @ q) =
    fold (\<lambda>b crc. (crc_shift ^^ 8) (crc XOR ucast b)) q (udpCRC32 p)"
  by (simp add: udpCRC32_def)

text \<open>The polynomial has its top bit set and the shifted register has not, so the top bit of the
  result tells which branch was taken: the shift loses nothing.\<close>

lemma crc_shift_bit:
  "crc_shift x = (if bit x 0 then drop_bit 1 x XOR 0xEDB88320 else drop_bit 1 x)"
  by (simp add: crc_shift_def and_one_eq odd_iff_mod_2_eq_one bit_0)

lemma crc_shift_top: "bit (crc_shift x) 31 \<longleftrightarrow> bit x 0"
proof -
  have "bit (0xEDB88320 :: u32) 31" by (simp add: bit_numeral_rec)
  moreover have "\<not> bit x 32" using bit_imp_le_length [of x 32] by auto
  ultimately show ?thesis
    unfolding crc_shift_bit by (simp add: bit_xor_iff bit_drop_bit_eq)
qed

lemma crc_shift_inject: "crc_shift x = crc_shift y \<Longrightarrow> x = y"
proof -
  assume eq: "crc_shift x = crc_shift y"
  then have 0: "bit x 0 = bit y 0" using crc_shift_top by metis
  then have "drop_bit 1 x = drop_bit 1 y"
    using eq word_xor_eq_iff unfolding crc_shift_bit by (metis (full_types))
  then have "bit x (Suc n) = bit y (Suc n)" for n
    by (metis bit_drop_bit_eq comp_apply plus_1_eq_Suc)
  then show "x = y" using 0 by (metis bit_word_eqI not0_implies_Suc)
qed

lemma crc_shift_pow_inject: "(crc_shift ^^ n) x = (crc_shift ^^ n) y \<Longrightarrow> x = y"
  by (induction n) (auto dest: crc_shift_inject)

lemma udpCRC32_fold_inject:
  "fold (\<lambda>b crc. (crc_shift ^^ 8) (crc XOR ucast b)) q x =
   fold (\<lambda>b crc. (crc_shift ^^ 8) (crc XOR ucast b)) q y \<Longrightarrow> x = y"
proof (induction q arbitrary: x y)
  case (Cons b q)
  then have "(crc_shift ^^ 8) (x XOR ucast b) = (crc_shift ^^ 8) (y XOR ucast b)" by simp
  then show ?case using crc_shift_pow_inject word_xor_eq_iff by blast
qed simp

lemma udpCRC32_byte:
  assumes "udpCRC32 (p @ b # q) = udpCRC32 (p @ c # q)"
  shows "b = c"
proof -
  have "(crc_shift ^^ 8) (udpCRC32 p XOR ucast b) = (crc_shift ^^ 8) (udpCRC32 p XOR ucast c)"
    using assms udpCRC32_fold_inject by (simp add: udpCRC32_append)
  then have "(ucast b :: u32) = ucast c"
    using crc_shift_pow_inject word_xor_eq_iff [of "ucast b :: u32" "udpCRC32 p" "ucast c"]
    by (metis xor.commute)
  then have "unat (ucast b :: u32) = unat (ucast c :: u32)" by simp
  moreover have "unat (ucast x :: u32) = unat x" for x :: byte
    using unsigned_less [of x, where ?'a = nat]
    by (simp add: unsigned_ucast_eq take_bit_nat_eq_self)
  ultimately have "unat b = unat c" by simp
  then show ?thesis by (rule word_unat_eq_iff [THEN iffD2])
qed

text \<open>A well-formed datagram is parsed back to the packet it was marshalled from, a datagram cut
  short anywhere is rejected with an error, and no datagram is a proper prefix of another.\<close>

theorem udp_packet_roundtrip:
  assumes "udp_wf p"
  shows "parseUDPPacket (marshalUDPPacket p) = Inr p
    \<and> (\<forall>n. n < length (marshalUDPPacket p) \<longrightarrow>
         (\<exists>e. parseUDPPacket (take n (marshalUDPPacket p)) = Inl e))
    \<and> (\<forall>q tail. udp_wf q \<longrightarrow> marshalUDPPacket p = marshalUDPPacket q @ tail \<longrightarrow> tail = [])"
  using assms udp.parse_marshal udp.parse_truncated udp.no_proper_prefix by blast

theorem udp_packet_roundtrip_witness:
  "parseUDPPacket (marshalUDPPacket (UdpData 7 3 [1, 2, 3])) = Inr (UdpData 7 3 [1, 2, 3])"
  using udp_packet_roundtrip [of "UdpData 7 3 [1, 2, 3]"] by (simp add: udp_wf_def)

text \<open>A discovery datagram one byte of whose payload was altered on the way is always rejected
  with the checksum error.\<close>

theorem discovery_corruption_detected:
  assumes "length (p @ b # q) < 2 ^ 32" "b \<noteq> c"
  shows "parseUDPPacket
      (take (20 + length p) (marshalUDPPacket (UdpDiscovery tid (p @ b # q))) @ c # q)
    = Inl ChecksumMismatch"
proof -
  have take: "take (20 + length p) (marshalUDPPacket (UdpDiscovery tid (p @ b # q))) @ c # q =
      le32 udpMagicDiscovery @ le32 (len32 (p @ b # q)) @ le32 1 @ le32 tid
       @ le32 (udpCRC32 (p @ b # q)) @ p @ c # q"
    by simp
  have len: "unat (len32 (p @ b # q)) = Suc (length p + length q)"
    using unat_len32 [OF assms(1)] by simp
  have "udpCRC32 (p @ c # q) \<noteq> udpCRC32 (p @ b # q)"
    using udpCRC32_byte assms(2) by metis
  then show ?thesis
    unfolding take parseUDPPacket_def
    by (simp add: u32_words len slice_words0 Let_def)
qed

theorem discovery_corruption_detected_witness:
  "parseUDPPacket
      (take 21 (marshalUDPPacket (UdpDiscovery 9 ([1] @ 2 # [3]))) @ 4 # [3])
    = Inl ChecksumMismatch"
  using discovery_corruption_detected [of "[1]" 2 "[3]" 4 9] by simp

section \<open>The receive buffer\<close>

type_synonym packet_store = "u32 \<Rightarrow> bytes option"

text \<open>
  The loop of \<^verbatim>\<open>contiguousPayloads\<close>, from \<open>next\<close> on: the store left, the payloads taken and
  the id of the last one. Every round removes a key, so it ends.
\<close>

function take_contiguous :: "packet_store \<Rightarrow> u32 \<Rightarrow> packet_store \<times> bytes list \<times> u32 option" where
  "take_contiguous store next =
     (case store next of
        None \<Rightarrow> (store, [], None)
      | Some payload \<Rightarrow>
          let (store', results, last) = take_contiguous (store(next := None)) (next + 1)
          in (store', payload # results,
              Some (case last of None \<Rightarrow> next | Some l \<Rightarrow> l)))"
  by pat_completeness auto
termination
proof (relation "measure (\<lambda>(store, next). card (dom store))")
  fix store :: packet_store and "next" payload
  assume "store next = Some payload"
  then have "dom (store(next := None)) \<subset> dom store" by auto
  then show "((store(next := None), next + 1), store, next)
      \<in> measure (\<lambda>(store, next). card (dom store))"
    by (simp add: psubset_card_mono)
qed simp

declare take_contiguous.simps [simp del]

text \<open>The in-out parameters \<^verbatim>\<open>consumed\<close> and \<^verbatim>\<open>hasConsumed\<close> as one option.\<close>

definition contiguousPayloads ::
  "packet_store \<Rightarrow> u32 option \<Rightarrow> packet_store \<times> u32 option \<times> bytes list" where
  "contiguousPayloads store consumed =
     (let next = (case consumed of None \<Rightarrow> 0 | Some c \<Rightarrow> c + 1);
          (store', results, last) = take_contiguous store next
      in (store', case last of None \<Rightarrow> consumed | Some l \<Rightarrow> Some l, results))"

text \<open>The first loop of \<^verbatim>\<open>ackWindow\<close>; it would not end on a store that holds every id.\<close>

partial_function (option) ack_start :: "packet_store \<Rightarrow> u32 \<Rightarrow> u32 option" where
  "ack_start store start =
     (if store (start + 1) = None then Some start else ack_start store (start + 1))"

text \<open>The last loop, \<^verbatim>\<open>for id := start + 1; id <= end; id++\<close>.\<close>

partial_function (option) ack_bits :: "packet_store \<Rightarrow> u32 \<Rightarrow> u32 \<Rightarrow> bytes option" where
  "ack_bits store i end =
     (if i \<le> end then
        Option.bind (ack_bits store (i + 1) end)
          (\<lambda>bs. Some ((if store i \<noteq> None then 1 else 0) # bs))
      else Some [])"

text \<open>The outer option is that of a loop that does not end, the inner one the \<^verbatim>\<open>ok\<close> result.\<close>

definition ackWindow :: "packet_store \<Rightarrow> u32 option \<Rightarrow> (u32 \<times> bytes) option option" where
  "ackWindow store consumed =
     (case consumed of
        None \<Rightarrow> Some None
      | Some c \<Rightarrow>
          (case ack_start store c of
             None \<Rightarrow> None
           | Some start \<Rightarrow>
               if dom store = {} then Some (Some (start, []))
               else let end = Max (dom store)
               in if end < start then Some (Some (start, []))
                  else let end' = (if 200 < end - start then start + 200 else end)
                  in (case ack_bits store (start + 1) end' of
                        None \<Rightarrow> None
                      | Some payload \<Rightarrow> Some (Some (start, payload)))))"

text \<open>
  The bitmap loop ends when the window does not run over the largest id: with \<open>n\<close> ids from \<open>i\<close>
  on below \<open>2 ^ 32 - 1\<close> it writes the \<open>n\<close> flags.
\<close>

lemma ack_bits_eval:
  "unat i + n = unat end + 1 \<Longrightarrow> unat end + 1 < 2 ^ 32 \<Longrightarrow>
   ack_bits store i end =
     Some (map (\<lambda>j. if store (i + word_of_nat j) \<noteq> None then 1 else 0) [0..<n])"
proof (induction n arbitrary: i)
  case 0
  then have "\<not> i \<le> end" by (simp add: word_le_nat_alt)
  then show ?case by (subst ack_bits.simps) simp
next
  case (Suc n)
  then have le: "i \<le> end" and "unat i + 1 < 2 ^ 32" by (simp_all add: word_le_nat_alt)
  then have "unat (i + 1) = unat i + 1"
    using unat_word_ariths(1) [of i 1] by simp
  then have "ack_bits store (i + 1) end =
      Some (map (\<lambda>j. if store (i + 1 + word_of_nat j) \<noteq> None then 1 else 0) [0..<n])"
    using Suc.IH [of "i + 1"] Suc.prems by simp
  then show ?case
    unfolding map_upt_Suc_shift using le by (subst ack_bits.simps) (simp add: add.assoc)
qed

lemma unat_plus_small: "unat (c :: u32) + n < 2 ^ 32 \<Longrightarrow> unat (c + word_of_nat n) = unat c + n"
  by (simp add: unat_word_ariths unat_of_nat take_bit_nat_eq_self)

text \<open>The window of a receiver that has consumed up to \<open>c\<close> and misses \<open>c + 1\<close>.\<close>

lemma ackWindow_eval:
  assumes "store (c + 1) = None" "unat c + 201 < 2 ^ 32"
  shows "\<exists>n \<le> 200. ackWindow store (Some c) = Some (Some (c,
      map (\<lambda>j. if store (c + 1 + word_of_nat j) \<noteq> None then 1 else 0) [0..<n]))
    \<and> (\<forall>k. k < 200 \<longrightarrow> store (c + 1 + word_of_nat k) \<noteq> None \<longrightarrow> k < n)"
proof -
  have start: "ack_start store c = Some c"
    using assms(1) by (subst ack_start.simps) simp
  let ?bits = "\<lambda>n. map (\<lambda>j. if store (c + 1 + word_of_nat j) \<noteq> None then 1 else 0) [0..<n]"
  have unat: "unat (c + 1 + word_of_nat k) = unat c + 1 + k" if "k < 200" for k
    using unat_plus_small [of c "Suc k"] that assms(2) by (simp add: add.assoc)
  consider (empty) "dom store = {}" | (old) "dom store \<noteq> {}" "Max (dom store) < c"
    | (new) "dom store \<noteq> {}" "c \<le> Max (dom store)" by fastforce
  then show ?thesis
  proof cases
    case empty
    then show ?thesis using start by (intro exI [of _ 0]) (auto simp: ackWindow_def)
  next
    case old
    have "\<not> c + 1 + word_of_nat k \<in> dom store" if "k < 200" for k
      using old Max_ge [of "dom store" "c + 1 + word_of_nat k"] unat [OF that]
      by (auto simp: word_le_nat_alt word_less_nat_alt)
    then show ?thesis
      using old start by (intro exI [of _ 0]) (auto simp: ackWindow_def Let_def domIff)
  next
    case new
    define end' where
      "end' = (if 200 < Max (dom store) - c then c + 200 else Max (dom store))"
    define n where "n = unat end' - unat c"
    have sub: "unat (Max (dom store) - c) = unat (Max (dom store)) - unat c"
      using new by (simp add: unat_sub_if_size word_le_nat_alt)
    have c200: "unat (c + 200) = unat c + 200"
      using unat_plus_small [of c 200] assms(2) by simp
    have n: "n \<le> 200" "unat c \<le> unat end'" "unat end' \<le> unat c + 200"
      using new sub c200 by (auto simp: n_def end'_def word_less_nat_alt word_le_nat_alt)
    have c1: "unat (c + 1) = unat c + 1"
      using unat_plus_small [of c 1] assms(2) by simp
    have "ack_bits store (c + 1) end' = Some (?bits n)"
      by (rule ack_bits_eval) (use c1 n assms(2) in \<open>simp_all add: n_def\<close>)
    then have "ackWindow store (Some c) = Some (Some (c, ?bits n))"
      using new start
      by (simp add: ackWindow_def Let_def end'_def [symmetric] leD del: Max_less_iff)
    moreover have "k < n" if "k < 200" "store (c + 1 + word_of_nat k) \<noteq> None" for k
    proof -
      have "unat c + 1 + k \<le> unat (Max (dom store))"
        using Max_ge [of "dom store" "c + 1 + word_of_nat k"] that unat [OF that(1)]
        by (auto simp: word_le_nat_alt)
      then show ?thesis
        using that(1) sub c200 by (auto simp: n_def end'_def word_less_nat_alt)
    qed
    ultimately show ?thesis using n(1) by blast
  qed
qed

end
