(* ===== verification/Latch.thy ===== *)
theory Latch
  imports Prelude
begin

text \<open>
  The error latches of the program: \<^verbatim>\<open>closeState\<close> (\<^verbatim>\<open>message.go\<close>), which records why a connection
  or session ended, and \<^verbatim>\<open>MediaReader.setErr\<close> (\<^verbatim>\<open>types.go\<close>), which records why a reader ended.
  The first error recorded is the one reported, whatever is recorded after it.
\<close>

locale error_latch =
  fixes get :: "'s \<Rightarrow> 'e option"
    and set :: "'e \<Rightarrow> 's \<Rightarrow> 's"
  assumes get_set: "get (set e s) = Some (case get s of None \<Rightarrow> e | Some e' \<Rightarrow> e')"
begin

lemma sticky: "get s = Some e \<Longrightarrow> get (set e' s) = Some e"
  by (simp add: get_set)

lemma fold_sticky: "get s = Some e \<Longrightarrow> get (fold set es s) = Some e"
  by (induction es arbitrary: s) (simp_all add: get_set)

lemma first_wins: "get s = None \<Longrightarrow> get (fold set (e # es) s) = Some e"
  by (simp add: fold_sticky get_set)

end

text \<open>\<^verbatim>\<open>closeState\<close>: the field \<^verbatim>\<open>err\<close>, nil as \<open>None\<close>; the mutex makes each call one step.\<close>

definition closeState_set :: "'e \<Rightarrow> 'e option \<Rightarrow> 'e option" where
  "closeState_set err s = (if s = None then Some err else s)"

definition closeState_get :: "'e option \<Rightarrow> 'e option" where
  "closeState_get s = s"

interpretation close_state: error_latch closeState_get closeState_set
  by unfold_locales (simp add: closeState_get_def closeState_set_def split: option.splits)

end
