(* ===== verification/Xml.thy ===== *)
theory Xml
  imports Prelude "HOL-Library.Monad_Syntax"
begin

text \<open>
  What the program uses of \<^verbatim>\<open>encoding/xml\<close> and \<^verbatim>\<open>strconv\<close>. A document is a tree; the tokeniser
  that turns text into a tree is a parameter of the components that read XML (\<open>xml_parser\<close>),
  and the struct decoding of \<^verbatim>\<open>xml.Unmarshal\<close> is written out on the tree: a field takes the
  child elements of its name, a later scalar replaces an earlier one, the elements of a
  repeated nested struct are merged, and a number that does not parse fails the whole
  decoding. Writing a document (\<^verbatim>\<open>xml.Marshal\<close>) is the function \<open>render\<close>.
\<close>

section \<open>Decimal numbers\<close>

definition digit :: "nat \<Rightarrow> char" where
  "digit n = char_of (48 + n)"

fun show_nat :: "nat \<Rightarrow> string" where
  "show_nat n = (if n < 10 then [digit n] else show_nat (n div 10) @ [digit (n mod 10)])"

declare show_nat.simps [simp del]

definition show_int :: "int \<Rightarrow> string" where
  "show_int i = (if i < 0 then CHR ''-'' # show_nat (nat (- i)) else show_nat (nat i))"

definition digit_value :: "char \<Rightarrow> nat option" where
  "digit_value c = (let n = of_char c :: nat in if 48 \<le> n \<and> n \<le> 57 then Some (n - 48) else None)"

fun read_digits :: "nat \<Rightarrow> string \<Rightarrow> nat option" where
  "read_digits acc [] = Some acc"
| "read_digits acc (c # s) =
     (case digit_value c of None \<Rightarrow> None | Some d \<Rightarrow> read_digits (10 * acc + d) s)"

definition read_nat :: "string \<Rightarrow> nat option" where
  "read_nat s = (if s = [] then None else read_digits 0 s)"

text \<open>\<^verbatim>\<open>strconv.ParseInt(s, 10, bits)\<close>; \<open>None\<close> for a syntax or range error.\<close>

definition parse_int :: "nat \<Rightarrow> string \<Rightarrow> int option" where
  "parse_int bits s =
     do { n \<leftarrow> (case s of
                   [] \<Rightarrow> None
                 | c # t \<Rightarrow>
                     if c = CHR ''-'' then map_option (\<lambda>n. - int n) (read_nat t)
                     else if c = CHR ''+'' then map_option int (read_nat t)
                     else map_option int (read_nat s));
          if - (2 ^ (bits - 1)) \<le> n \<and> n < 2 ^ (bits - 1) then Some n else None }"

definition parse_uint :: "nat \<Rightarrow> string \<Rightarrow> nat option" where
  "parse_uint bits s = do { n \<leftarrow> read_nat s; if n < 2 ^ bits then Some n else None }"

lemma digit_value_digit [simp]: "n < 10 \<Longrightarrow> digit_value (digit n) = Some n"
  by (simp add: digit_value_def digit_def)

lemma read_digits_append:
  "read_digits acc (s @ t) = Option.bind (read_digits acc s) (\<lambda>n. read_digits n t)"
  by (induction s arbitrary: acc) (auto split: option.splits)

lemma read_digits_show: "\<exists>k > 0. \<forall>acc. read_digits acc (show_nat n) = Some (acc * 10 ^ k + n)"
proof (induction n rule: show_nat.induct)
  case (1 n)
  show ?case
  proof (cases "n < 10")
    case True
    then show ?thesis by (intro exI [of _ 1]) (simp add: show_nat.simps)
  next
    case False
    then obtain k where "\<And>acc. read_digits acc (show_nat (n div 10)) = Some (acc * 10 ^ k + n div 10)"
      using 1 by blast
    then have "read_digits acc (show_nat n) = Some (acc * 10 ^ Suc k + n)" for acc
      using False by (subst show_nat.simps) (simp add: read_digits_append algebra_simps)
    then show ?thesis by blast
  qed
qed

lemma show_nat_not_Nil [simp]: "show_nat n \<noteq> []"
  by (simp add: show_nat.simps)

lemma read_nat_show [simp]: "read_nat (show_nat n) = Some n"
  using read_digits_show [of n] by (auto simp: read_nat_def)

lemma show_nat_digits: "c \<in> set (show_nat n) \<Longrightarrow> \<exists>d < 10. c = digit d"
proof (induction n rule: show_nat.induct)
  case (1 n)
  have "\<exists>d < 10. digit (n mod 10) = digit d" by (rule exI [of _ "n mod 10"]) simp
  with 1 show ?case
    by (subst (asm) (2) show_nat.simps) (auto split: if_splits)
qed

lemma digit_not_sign: "d < 10 \<Longrightarrow> digit d \<noteq> CHR ''-'' \<and> digit d \<noteq> CHR ''+''"
proof -
  assume "d < 10"
  then have "digit_value (digit d) = Some d" by simp
  moreover have "digit_value (CHR ''-'') = None" "digit_value (CHR ''+'') = None"
    by (simp_all add: digit_value_def)
  ultimately show ?thesis by auto
qed

lemma parse_show_int:
  assumes "- (2 ^ (bits - 1)) \<le> i" "i < 2 ^ (bits - 1)"
  shows "parse_int bits (show_int i) = Some i"
proof (cases "i < 0")
  case True
  then show ?thesis using assms by (simp add: parse_int_def show_int_def)
next
  case False
  obtain c t where s: "show_nat (nat i) = c # t" by (cases "show_nat (nat i)") auto
  then have "c \<noteq> CHR ''-'' \<and> c \<noteq> CHR ''+''"
    using show_nat_digits [of c "nat i"] digit_not_sign by auto
  then show ?thesis
    using False assms read_nat_show [of "nat i"] by (simp add: parse_int_def show_int_def s)
qed

section \<open>Documents\<close>

datatype xml = Elem string "(string \<times> string) list" "xml list" | Text string

type_synonym xml_parser = "string \<Rightarrow> xml option"

text \<open>The child elements of a struct that bear a field's name.\<close>

fun elems :: "string \<Rightarrow> xml list \<Rightarrow> ((string \<times> string) list \<times> xml list) list" where
  "elems name [] = []"
| "elems name (Text s # ks) = elems name ks"
| "elems name (Elem t as cs # ks) = (if t = name then (as, cs) # elems name ks else elems name ks)"

fun char_data :: "xml list \<Rightarrow> string" where
  "char_data [] = []"
| "char_data (Text s # ks) = s @ char_data ks"
| "char_data (Elem t as cs # ks) = char_data ks"

text \<open>A field of pointer-to-struct type: the merged children, \<open>None\<close> for a nil pointer.\<close>

definition struct_field :: "string \<Rightarrow> xml list \<Rightarrow> xml list option" where
  "struct_field name ks =
     (case elems name ks of [] \<Rightarrow> None | es \<Rightarrow> Some (concat (map snd es)))"

definition str_field :: "string \<Rightarrow> xml list \<Rightarrow> string" where
  "str_field name ks =
     (case elems name ks of [] \<Rightarrow> [] | es \<Rightarrow> char_data (snd (last es)))"

definition slice_field :: "string \<Rightarrow> xml list \<Rightarrow> xml list list" where
  "slice_field name ks = map snd (elems name ks)"

definition attr_value :: "string \<Rightarrow> (string \<times> string) list \<Rightarrow> string" where
  "attr_value name as = (case map_of as name of None \<Rightarrow> [] | Some v \<Rightarrow> v)"

text \<open>A number: an empty element is 0, anything else is trimmed and parsed.\<close>

definition int_text :: "nat \<Rightarrow> string \<Rightarrow> int option" where
  "int_text bits s = (if s = [] then Some 0 else parse_int bits (trim_space s))"

text \<open>An optional number (\<^verbatim>\<open>*int\<close>); the outer option is the error.\<close>

fun opt_ints :: "nat \<Rightarrow> int option \<Rightarrow> ((string \<times> string) list \<times> xml list) list \<Rightarrow> int option option"
where
  "opt_ints bits acc [] = Some acc"
| "opt_ints bits acc ((as, cs) # es) =
     do { n \<leftarrow> int_text bits (char_data cs); opt_ints bits (Some n) es }"

definition opt_int_field :: "nat \<Rightarrow> string \<Rightarrow> xml list \<Rightarrow> int option option" where
  "opt_int_field bits name ks = opt_ints bits None (elems name ks)"

definition int_field :: "nat \<Rightarrow> string \<Rightarrow> xml list \<Rightarrow> int option" where
  "int_field bits name ks = map_option (\<lambda>v. case v of None \<Rightarrow> 0 | Some n \<Rightarrow> n) (opt_int_field bits name ks)"

text \<open>An unsigned number, 0 when it is absent.\<close>

definition uint_field :: "nat \<Rightarrow> string \<Rightarrow> xml list \<Rightarrow> nat option" where
  "uint_field bits name ks =
     foldl (\<lambda>acc (as, cs). do { _ \<leftarrow> acc; if char_data cs = [] then Some 0
                                 else parse_uint bits (trim_space (char_data cs)) })
       (Some 0) (elems name ks)"

text \<open>The root element; \<^verbatim>\<open>XMLName\<close> with a name makes another root an error.\<close>

definition root_kids :: "string \<Rightarrow> xml \<Rightarrow> xml list option" where
  "root_kids name doc =
     (case doc of Elem t as ks \<Rightarrow> if t = name then Some ks else None | Text s \<Rightarrow> None)"

definition any_root_kids :: "xml \<Rightarrow> xml list option" where
  "any_root_kids doc = (case doc of Elem t as ks \<Rightarrow> Some ks | Text s \<Rightarrow> None)"

section \<open>Writing\<close>

definition escape_char :: "char \<Rightarrow> string" where
  "escape_char c =
     (if c = CHR ''<'' then ''&lt;'' else if c = CHR ''>'' then ''&gt;''
      else if c = CHR ''&'' then ''&amp;'' else if c = CHR 0x22 then ''&#34;''
      else if c = CHR 0x27 then ''&#39;'' else if c = CHR 0x09 then ''&#x9;''
      else if c = CHR 0x0A then ''&#xA;'' else if c = CHR 0x0D then ''&#xD;'' else [c])"

definition escape :: "string \<Rightarrow> string" where
  "escape s = concat (map escape_char s)"

fun render :: "xml \<Rightarrow> string" where
  "render (Text s) = escape s"
| "render (Elem t as ks) =
     ''<'' @ t @ concat (map (\<lambda>(a, v). '' '' @ a @ ''='' @ [CHR 0x22] @ escape v @ [CHR 0x22]) as)
       @ ''>'' @ concat (map render ks) @ ''</'' @ t @ ''>''"

definition xml_header :: string where
  "xml_header = ''<?xml version='' @ [CHR 0x22] @ ''1.0'' @ [CHR 0x22] @ '' encoding=''
     @ [CHR 0x22] @ ''UTF-8'' @ [CHR 0x22] @ ''?>'' @ [CHR 0x0A]"

definition marshalXMLDocument :: "xml \<Rightarrow> bytes" where
  "marshalXMLDocument v = bytes_of (xml_header @ render v)"

text \<open>A scalar field of a struct that is written.\<close>

definition field :: "string \<Rightarrow> string \<Rightarrow> xml" where
  "field name v = Elem name [] (if v = [] then [] else [Text v])"

definition num_field :: "string \<Rightarrow> int \<Rightarrow> xml" where
  "num_field name n = Elem name [] [Text (show_int n)]"

text \<open>The documented behaviour of the tokeniser that round trips rely on.\<close>

definition parses_rendered :: "xml_parser \<Rightarrow> xml \<Rightarrow> bool" where
  "parses_rendered parser doc \<longleftrightarrow> parser (xml_header @ render doc) = Some doc"

lemma elems_append [simp]: "elems name (a @ b) = elems name a @ elems name b"
  by (induction name a rule: elems.induct) simp_all

lemma show_nat_no_space: "c \<in> set (show_nat n) \<Longrightarrow> \<not> is_space c"
proof -
  assume "c \<in> set (show_nat n)"
  then obtain d where "d < 10" "c = digit d" using show_nat_digits by blast
  then show ?thesis by (auto simp: is_space_def digit_def)
qed

lemma show_int_no_space: "c \<in> set (show_int i) \<Longrightarrow> \<not> is_space c"
  using show_nat_no_space by (auto simp: show_int_def is_space_def split: if_splits)

lemma dropWhile_none: "\<forall>c \<in> set s. \<not> P c \<Longrightarrow> dropWhile P s = s"
  by (cases s) simp_all

lemma trim_show_int [simp]: "trim_space (show_int i) = show_int i"
  using show_int_no_space by (simp add: trim_space_def dropWhile_none)

lemma show_int_not_Nil [simp]: "show_int i \<noteq> []"
  by (simp add: show_int_def)

lemma int_text_show:
  "- (2 ^ (bits - 1)) \<le> i \<Longrightarrow> i < 2 ^ (bits - 1) \<Longrightarrow> int_text bits (show_int i) = Some i"
  by (simp add: int_text_def parse_show_int)

end
