(* ===== verification/UidSession.thy ===== *)
theory UidSession
  imports UdpPacket Crypto Xml Latch
begin

text \<open>
  The reliable byte stream over UDP of \<^verbatim>\<open>pkg/baichuan/uid.go\<close>: the session's state, the receive
  path (\<^verbatim>\<open>readLoop\<close>, \<^verbatim>\<open>Read\<close>), the send path (\<^verbatim>\<open>Write\<close>, \<^verbatim>\<open>writeLoop\<close>), the acceptance of the
  camera's reply when dialling, and the end of a session. One function is one round of a
  loop; the mutexes of the code make the rounds atomic. The queues are unbounded lists: a full
  channel only delays the goroutine that writes to it.
\<close>

section \<open>State\<close>

datatype uid_error =
    EOF | ConnError | CameraDisconnect | RecvOverflow | SendOverflow
  | InvalidMtu | ErrClosedPipe

text \<open>
  \<open>ended\<close> stands for \<^verbatim>\<open>closeOnce\<close>, \<^verbatim>\<open>closeCh\<close> and \<^verbatim>\<open>closeState\<close> together: \<^verbatim>\<open>shutdown\<close> is the only
  writer of all three. \<open>consumed\<close> is \<^verbatim>\<open>consumedID\<close> with \<^verbatim>\<open>hasConsumed\<close>.
\<close>

record uid_session =
  uid :: string
  remoteAddr :: "string \<times> int"
  mtu :: int
  clientID :: u32
  cameraID :: u32
  readQueue :: "bytes list"
  writeQueue :: "bytes list"
  readBuf :: bytes
  sentPackets :: packet_store
  nextPacketID :: u32
  recvPackets :: packet_store
  consumed :: "u32 option"
  lastInbound :: int
  ended :: "uid_error option"

definition uid_shutdown :: "uid_error \<Rightarrow> uid_session \<Rightarrow> uid_session" where
  "uid_shutdown err s = s\<lparr>ended := closeState_set err (ended s)\<rparr>"

interpretation uid_end: error_latch ended uid_shutdown
  by unfold_locales (simp add: uid_shutdown_def closeState_set_def split: option.splits)

section \<open>Receiving\<close>

definition recv_data :: "u32 \<Rightarrow> bytes \<Rightarrow> uid_session \<Rightarrow> uid_session" where
  "recv_data pid payload s =
     (if card (dom (recvPackets s)) > 1024 then uid_shutdown RecvOverflow s
      else let store = (if recvPackets s pid = None then (recvPackets s)(pid := Some payload)
                        else recvPackets s);
               (store', consumed', chunks) = contiguousPayloads store (consumed s)
           in s\<lparr>recvPackets := store', consumed := consumed', readQueue := readQueue s @ chunks\<rparr>)"

fun ack_deletes :: "packet_store \<Rightarrow> u32 \<Rightarrow> bytes \<Rightarrow> packet_store" where
  "ack_deletes sent pid [] = sent"
| "ack_deletes sent pid (v # vs) =
     ack_deletes (if v = 0 then sent else sent(pid + 1 := None)) (pid + 1) vs"

definition recv_ack :: "u32 \<Rightarrow> bytes \<Rightarrow> uid_session \<Rightarrow> uid_session" where
  "recv_ack pid payload s =
     s\<lparr>sentPackets :=
         ack_deletes (\<lambda>i. if i \<le> pid then None else sentPackets s i) pid payload\<rparr>"

text \<open>\<^verbatim>\<open>udpP2PEnvelope\<close>: the ids of \<^verbatim>\<open>D2C_C_R\<close> and \<^verbatim>\<open>D2C_DISC\<close>; the other members of the struct
  are decoded too, and a number in them that does not parse fails the decoding.\<close>

record p2p_envelope =
  D2CCR :: "(u32 \<times> u32) option"
  D2CDisc :: "(u32 \<times> u32) option"

definition session_ids :: "xml list \<Rightarrow> (u32 \<times> u32) option" where
  "session_ids ks =
     do { cid \<leftarrow> int_field 32 ''cid'' ks; did \<leftarrow> int_field 32 ''did'' ks;
          Some (word_of_int cid, word_of_int did) }"

definition optional :: "('a \<Rightarrow> 'b option) \<Rightarrow> 'a option \<Rightarrow> 'b option option" where
  "optional f x = (case x of None \<Rightarrow> Some None | Some v \<Rightarrow> map_option Some (f v))"

definition port_list :: "xml list \<Rightarrow> int option" where
  "port_list ks = int_field 64 ''port'' ks"

definition c2d_c :: "xml list \<Rightarrow> unit option" where
  "c2d_c ks =
     do { _ \<leftarrow> optional port_list (struct_field ''cli'' ks); _ \<leftarrow> int_field 32 ''cid'' ks;
          _ \<leftarrow> uint_field 32 ''mtu'' ks; _ \<leftarrow> int_field 64 ''debug'' ks; Some () }"

definition decode_envelope :: "xml \<Rightarrow> p2p_envelope option" where
  "decode_envelope doc =
     do { ks \<leftarrow> root_kids ''P2P'' doc;
          _ \<leftarrow> optional (\<lambda>c. optional port_list (struct_field ''to'' c)) (struct_field ''C2D_S'' ks);
          _ \<leftarrow> optional c2d_c (struct_field ''C2D_C'' ks);
          ccr \<leftarrow> optional session_ids (struct_field ''D2C_C_R'' ks);
          _ \<leftarrow> optional session_ids (struct_field ''C2D_HB'' ks);
          _ \<leftarrow> optional session_ids (struct_field ''C2D_DISC'' ks);
          disc \<leftarrow> optional session_ids (struct_field ''D2C_DISC'' ks);
          Some \<lparr>D2CCR = ccr, D2CDisc = disc\<rparr> }"

definition open_envelope :: "xml_parser \<Rightarrow> u32 \<Rightarrow> bytes \<Rightarrow> p2p_envelope option" where
  "open_envelope parser tid payload =
     do { doc \<leftarrow> parser (string_of (UDPXOR tid payload)); decode_envelope doc }"

text \<open>One packet of the read loop, and one datagram.\<close>

fun on_packet :: "xml_parser \<Rightarrow> udp_packet \<Rightarrow> uid_session \<Rightarrow> uid_session" where
  "on_packet parser (UdpDiscovery tid payload) s =
     (case open_envelope parser tid payload of
        None \<Rightarrow> s
      | Some env \<Rightarrow>
          if D2CDisc env = Some (clientID s, cameraID s) then uid_shutdown CameraDisconnect s
          else s)"
| "on_packet parser (UdpAck conn pid payload) s =
     (if conn \<noteq> clientID s then s else recv_ack pid payload s)"
| "on_packet parser (UdpData conn pid payload) s =
     (if conn \<noteq> clientID s then s else recv_data pid payload s)"

definition on_datagram ::
  "xml_parser \<Rightarrow> int \<Rightarrow> (string \<times> int) \<Rightarrow> bytes \<Rightarrow> uid_session \<Rightarrow> uid_session" where
  "on_datagram parser now addr buf s =
     (if ended s \<noteq> None then s
      else if fst addr \<noteq> fst (remoteAddr s) then s
      else if snd addr \<noteq> snd (remoteAddr s) then s
      else let s' = s\<lparr>lastInbound := now\<rparr>
      in (case parseUDPPacket buf of
            Inl e \<Rightarrow> s'
          | Inr packet \<Rightarrow> on_packet parser packet s'))"

text \<open>
  \<^verbatim>\<open>Read(p)\<close> with \<open>len(p) = n\<close>. Empty chunks leave the loop running; \<open>closing\<close> is the choice of
  the \<^verbatim>\<open>select\<close> between a queued chunk and \<^verbatim>\<open>closeCh\<close> when both are ready.
\<close>

datatype read_result = ReadBytes bytes | ReadError uid_error | ReadBlocks

fun next_chunk :: "bytes list \<Rightarrow> (bytes \<times> bytes list) option" where
  "next_chunk [] = None"
| "next_chunk (c # q) = (if c = [] then next_chunk q else Some (c, q))"

definition uid_read :: "nat \<Rightarrow> bool \<Rightarrow> uid_session \<Rightarrow> read_result \<times> uid_session" where
  "uid_read n closing s =
     (if readBuf s \<noteq> [] then (ReadBytes (take n (readBuf s)), s\<lparr>readBuf := drop n (readBuf s)\<rparr>)
      else case (closing, ended s) of
        (True, Some e) \<Rightarrow> (ReadError e, s)
      | _ \<Rightarrow>
        (case next_chunk (readQueue s) of
           Some (c, q) \<Rightarrow> (ReadBytes (take n c), s\<lparr>readBuf := drop n c, readQueue := q\<rparr>)
         | None \<Rightarrow>
             (case ended s of
                Some e \<Rightarrow> (ReadError e, s\<lparr>readQueue := []\<rparr>)
              | None \<Rightarrow> (ReadBlocks, s\<lparr>readQueue := []\<rparr>))))"

section \<open>Sending\<close>

text \<open>
  \<^verbatim>\<open>Write\<close>: the chunks queued, the bytes written and whether the session closed underneath.
  \<open>room\<close> is the number of chunks the queue takes before \<^verbatim>\<open>closeCh\<close> fires, \<open>None\<close> if it never does.
\<close>

function write_chunks :: "nat \<Rightarrow> nat option \<Rightarrow> bytes \<Rightarrow> bytes list \<times> nat \<times> bool" where
  "write_chunks maxPayload room p =
     (if p = [] \<or> maxPayload = 0 then ([], 0, False)
      else if room = Some 0 then ([], 0, True)
      else let chunkLen = min (length p) maxPayload;
               (chunks, written, stopped) =
                 write_chunks maxPayload (map_option (\<lambda>r. r - 1) room) (drop chunkLen p)
           in (take chunkLen p # chunks, chunkLen + written, stopped))"
  by pat_completeness auto
termination
  by (relation "measure (\<lambda>(m, room, p). length p)") auto

declare write_chunks.simps [simp del]

definition uid_write ::
  "nat option \<Rightarrow> bytes \<Rightarrow> uid_session \<Rightarrow> uid_session \<times> nat \<times> uid_error option" where
  "uid_write room p s =
     (let maxPayload = mtu s - 20
      in if maxPayload \<le> 0 then (s, 0, Some InvalidMtu)
         else let (chunks, written, stopped) = write_chunks (nat maxPayload) room p
              in (s\<lparr>writeQueue := writeQueue s @ chunks\<rparr>, written,
                  if stopped then Some (case ended s of None \<Rightarrow> ErrClosedPipe | Some e \<Rightarrow> e)
                  else None))"

text \<open>The documents of \<^verbatim>\<open>sendControl\<close> and of the dialling packets.\<close>

definition session_ids_xml :: "string \<Rightarrow> uid_session \<Rightarrow> xml" where
  "session_ids_xml name s =
     Elem ''P2P'' [] [Elem name [] [num_field ''cid'' (sint (clientID s)),
                                    num_field ''did'' (sint (cameraID s))]]"

definition control_datagram :: "u32 \<Rightarrow> xml \<Rightarrow> bytes" where
  "control_datagram tid doc =
     marshalUDPPacket (UdpDiscovery tid (UDPXOR tid (marshalXMLDocument doc)))"

definition sendControl :: "byte \<Rightarrow> string \<Rightarrow> uid_session \<Rightarrow> bytes" where
  "sendControl tid name s = control_datagram (ucast tid) (session_ids_xml name s)"

text \<open>The three events of \<^verbatim>\<open>writeLoop\<close>; \<open>ok\<close> says whether the socket accepted the datagram.\<close>

definition send_chunk :: "bool \<Rightarrow> uid_session \<Rightarrow> uid_session \<times> bytes list" where
  "send_chunk ok s =
     (case writeQueue s of
        [] \<Rightarrow> (s, [])
      | chunk # queue \<Rightarrow>
          let s1 = s\<lparr>writeQueue := queue\<rparr>
          in if card (dom (sentPackets s1)) > 1024 then (uid_shutdown SendOverflow s1, [])
             else let pid = nextPacketID s1;
                      packet = marshalUDPPacket (UdpData (cameraID s1) pid chunk);
                      s2 = s1\<lparr>nextPacketID := pid + 1\<rparr>
                  in if \<not> ok then (uid_shutdown ConnError s2, [])
                     else (s2\<lparr>sentPackets := (sentPackets s2)(pid := Some packet)\<rparr>, [packet]))"

definition resend :: "uid_session \<Rightarrow> bytes set" where
  "resend s = ran (sentPackets s)"

text \<open>The acknowledgement of a tick; \<open>None\<close> if \<^verbatim>\<open>ackWindow\<close> does not return.\<close>

definition send_ack :: "bool \<Rightarrow> uid_session \<Rightarrow> (uid_session \<times> bytes list) option" where
  "send_ack ok s =
     (case ackWindow (recvPackets s) (consumed s) of
        None \<Rightarrow> None
      | Some None \<Rightarrow> Some (s, [])
      | Some (Some (start, payload)) \<Rightarrow>
          if \<not> ok then Some (uid_shutdown ConnError s, [])
          else Some (s, [marshalUDPPacket (UdpAck (cameraID s) start payload)]))"

text \<open>\<^verbatim>\<open>Close\<close>: the farewell to the camera, then the end.\<close>

definition uid_close :: "byte \<Rightarrow> uid_session \<Rightarrow> uid_session \<times> bytes list" where
  "uid_close tid s = (uid_shutdown EOF s, [sendControl tid ''C2D_DISC'' s])"

section \<open>Dialling\<close>

definition defaultUIDMTU :: int where
  "defaultUIDMTU = 1350"

definition connect_xml :: "string \<Rightarrow> int \<Rightarrow> u32 \<Rightarrow> xml" where
  "connect_xml u port cid =
     Elem ''P2P'' [] [Elem ''C2D_C'' []
       [field ''uid'' u, Elem ''cli'' [] [num_field ''port'' port], num_field ''cid'' (sint cid),
        num_field ''mtu'' defaultUIDMTU, num_field ''debug'' 0, field ''p'' ''MAC'']]"

definition query_xml :: "int \<Rightarrow> xml" where
  "query_xml port =
     Elem ''P2P'' [] [Elem ''C2D_S'' [] [Elem ''to'' [] [num_field ''port'' port]]]"

text \<open>What \<^verbatim>\<open>dialUIDLocal\<close> does with one datagram: \<open>None\<close> to wait on, or the session.\<close>

definition dial_reply ::
  "xml_parser \<Rightarrow> string \<Rightarrow> u32 \<Rightarrow> (string \<times> int) \<Rightarrow> bytes \<Rightarrow> uid_session option" where
  "dial_reply parser u cid addr buf =
     (case parseUDPPacket buf of
        Inr (UdpDiscovery tid payload) \<Rightarrow>
          (case open_envelope parser tid payload of
             None \<Rightarrow> None
           | Some env \<Rightarrow>
               (case D2CCR env of
                  None \<Rightarrow> None
                | Some (c, d) \<Rightarrow>
                    if c \<noteq> cid then None
                    else Some \<lparr>uid = u, remoteAddr = addr, mtu = defaultUIDMTU, clientID = cid,
                               cameraID = d, readQueue = [], writeQueue = [], readBuf = [],
                               sentPackets = Map.empty, nextPacketID = 0,
                               recvPackets = Map.empty, consumed = None, lastInbound = 0,
                               ended = None\<rparr>))
      | _ \<Rightarrow> None)"

text \<open>\<^verbatim>\<open>bytes.Index\<close> and \<^verbatim>\<open>xmlElementValue\<close>.\<close>

fun index_of :: "'a list \<Rightarrow> 'a list \<Rightarrow> nat option" where
  "index_of [] pat = (if pat = [] then Some 0 else None)"
| "index_of (x # xs) pat =
     (if has_prefix (x # xs) pat then Some 0 else map_option Suc (index_of xs pat))"

definition xmlElementValue :: "bytes \<Rightarrow> string \<Rightarrow> string" where
  "xmlElementValue doc name =
     (let open_tag = bytes_of (''<'' @ name @ ''>'')
      in case index_of doc open_tag of
           None \<Rightarrow> []
         | Some i \<Rightarrow>
             let start = i + length open_tag
             in (case index_of (drop start doc) (bytes_of (''</'' @ name @ ''>'')) of
                   None \<Rightarrow> []
                 | Some end \<Rightarrow> trim_space (string_of (slice doc start (start + end)))))"

text \<open>What \<^verbatim>\<open>queryUIDLocal\<close> does with one datagram.\<close>

definition query_reply :: "bytes \<Rightarrow> string option" where
  "query_reply buf =
     (case parseUDPPacket buf of
        Inr (UdpDiscovery tid payload) \<Rightarrow>
          let u = xmlElementValue (UDPXOR tid payload) ''uid''
          in if u \<noteq> [] then Some u else None
      | _ \<Rightarrow> None)"

text \<open>A broadcast address of \<^verbatim>\<open>ipv4Broadcasts\<close>: \<^verbatim>\<open>ip4[i] | ^mask[i]\<close>.\<close>

definition ipv4_broadcast :: "byte list \<Rightarrow> byte list \<Rightarrow> byte list" where
  "ipv4_broadcast ip netmask = map2 (\<lambda>a m. a OR NOT m) ip netmask"

section \<open>The receiver delivers a prefix of the stream\<close>

text \<open>The loop of \<^verbatim>\<open>contiguousPayloads\<close> takes the packets from \<open>j\<close> up to the first gap \<open>k\<close>.\<close>

lemma take_contiguous_spec:
  assumes "take_contiguous store next = (store', results, lst)"
    and "\<forall>i \<in> dom store. unat i < N" "N < 2 ^ 32" "unat next = j" "j \<le> N"
  shows "\<exists>k. j \<le> k \<and> k \<le> N \<and> results = map (\<lambda>i. the (store (word_of_nat i))) [j..<k]
    \<and> (\<forall>i. j \<le> i \<and> i < k \<longrightarrow> word_of_nat i \<in> dom store)
    \<and> store' = (\<lambda>i. if j \<le> unat i \<and> unat i < k then None else store i)
    \<and> store' (word_of_nat k) = None
    \<and> lst = (if k = j then None else Some (word_of_nat (k - 1)))"
  using assms
proof (induction store "next" arbitrary: store' results lst j rule: take_contiguous.induct)
  case (1 store "next")
  have nj: "next = word_of_nat j" using "1.prems"(4) by auto
  show ?case
  proof (cases "store next")
    case None
    then have "store' = store" "results = []" "lst = None"
      using "1.prems"(1) by (simp_all add: take_contiguous.simps)
    then show ?thesis using None nj "1.prems"(5) by (intro exI [of _ j]) (auto simp: fun_eq_iff)
  next
    case (Some payload)
    obtain st rs l where rec: "take_contiguous (store(next := None)) (next + 1) = (st, rs, l)"
      by (metis prod_cases3)
    have out: "store' = st" "results = payload # rs"
      "lst = Some (case l of None \<Rightarrow> next | Some l \<Rightarrow> l)"
      using "1.prems"(1) rec Some by (simp_all add: take_contiguous.simps [of store])
    have jN: "j < N" using Some "1.prems"(2,4) by auto
    then have next1: "unat (next + 1) = Suc j"
      using "1.prems"(3,4) unat_plus_small [of "next" 1] by simp
    have dom: "\<forall>i \<in> dom (store(next := None)). unat i < N" using "1.prems"(2) by auto
    obtain k where k: "Suc j \<le> k" "k \<le> N"
      "rs = map (\<lambda>i. the ((store(next := None)) (word_of_nat i))) [Suc j..<k]"
      "\<forall>i. Suc j \<le> i \<and> i < k \<longrightarrow> word_of_nat i \<in> dom (store(next := None))"
      "st = (\<lambda>i. if Suc j \<le> unat i \<and> unat i < k then None else (store(next := None)) i)"
      "st (word_of_nat k) = None"
      "l = (if k = Suc j then None else Some (word_of_nat (k - 1)))"
      using "1.IH" [OF Some rec dom "1.prems"(3) next1 Suc_leI [OF jN]] by blast
    have small: "unat (word_of_nat i :: u32) = i" if "i \<le> N" for i
      using that "1.prems"(3) by (simp add: unat_of_nat take_bit_nat_eq_self)
    have ne: "word_of_nat i \<noteq> next" if "Suc j \<le> i" "i \<le> N" for i
      using small [OF that(2)] that(1) "1.prems"(4) by (metis Suc_n_not_le_n)
    have "results = map (\<lambda>i. the (store (word_of_nat i))) [j..<k]"
      using k(1,2,3) out(2) Some ne nj
      by (simp add: upt_conv_Cons)
    moreover have "store' = (\<lambda>i. if j \<le> unat i \<and> unat i < k then None else store i)"
    proof
      fix i
      show "store' i = (if j \<le> unat i \<and> unat i < k then None else store i)"
        using k(1,5) out(1) "1.prems"(4) word_unat_eq_iff [of i "next"]
        by (cases "i = next") (auto simp: Suc_le_eq nat_less_le)
    qed
    moreover have "\<forall>i. j \<le> i \<and> i < k \<longrightarrow> word_of_nat i \<in> dom store"
    proof (intro allI impI)
      fix i assume "j \<le> i \<and> i < k"
      then show "word_of_nat i \<in> dom store"
        using k(4) Some nj by (cases "i = j") (auto split: if_splits)
    qed
    ultimately show ?thesis
      using k out nj by (intro exI [of _ k]) auto
  qed
qed

text \<open>
  The stream of the peer: packet \<open>i\<close> carries \<open>src i\<close>, for \<open>i < N\<close>. After the packets with ids
  in \<open>R\<close> have arrived, the first \<open>k\<close> have been delivered and \<open>k\<close> is the first one missing; all
  other arrivals wait in the buffer. Packets that arrived again after their delivery are kept there too.
\<close>

definition recv_inv :: "(nat \<Rightarrow> bytes) \<Rightarrow> nat \<Rightarrow> nat set \<Rightarrow> nat \<Rightarrow> uid_session \<Rightarrow> bool" where
  "recv_inv src N R k s \<longleftrightarrow>
     k \<le> N \<and> readQueue s = map src [0..<k]
     \<and> consumed s = (if k = 0 then None else Some (word_of_nat (k - 1)))
     \<and> recvPackets s (word_of_nat k) = None
     \<and> (\<forall>i p. recvPackets s i = Some p \<longrightarrow> unat i < N \<and> p = src (unat i))
     \<and> {..<k} \<union> unat ` dom (recvPackets s) = R"

lemma recv_inv_fresh:
  "readQueue s = [] \<Longrightarrow> consumed s = None \<Longrightarrow> recvPackets s = Map.empty \<Longrightarrow> recv_inv src N {} 0 s"
  by (simp add: recv_inv_def)

lemma recv_inv_cong:
  "recv_inv src N R k s \<Longrightarrow> readQueue s' = readQueue s \<Longrightarrow> consumed s' = consumed s \<Longrightarrow>
   recvPackets s' = recvPackets s \<Longrightarrow> recv_inv src N R k s'"
  by (simp add: recv_inv_def)

lemma recv_inv_next:
  assumes "N < 2 ^ 32" "k \<le> N" "consumed s = (if k = 0 then None else Some (word_of_nat (k - 1)))"
  shows "(case consumed s of None \<Rightarrow> 0 | Some c \<Rightarrow> c + 1) = (word_of_nat k :: u32)"
    "unat (word_of_nat k :: u32) = k"
proof -
  show "unat (word_of_nat k :: u32) = k"
    using assms by (simp add: unat_of_nat take_bit_nat_eq_self)
  show "(case consumed s of None \<Rightarrow> 0 | Some c \<Rightarrow> c + 1) = (word_of_nat k :: u32)"
    using assms(3) by (cases k) (simp_all add: add.commute)
qed

text \<open>Taking a contiguous run out of the store does not change what has been received.\<close>

lemma taken_received:
  fixes store :: "u32 \<Rightarrow> bytes option"
  assumes "k \<le> k'" "\<And>i. i < k' \<Longrightarrow> unat (word_of_nat i :: u32) = i"
    and "\<forall>i. k \<le> i \<and> i < k' \<longrightarrow> word_of_nat i \<in> dom store"
    and "store' = (\<lambda>i. if k \<le> unat i \<and> unat i < k' then None else store i)"
  shows "{..<k'} \<union> unat ` dom store' = {..<k} \<union> unat ` dom store"
proof
  show "{..<k'} \<union> unat ` dom store' \<subseteq> {..<k} \<union> unat ` dom store"
  proof
    fix n assume "n \<in> {..<k'} \<union> unat ` dom store'"
    then consider "n < k" | "k \<le> n" "n < k'" | "n \<in> unat ` dom store'" by fastforce
    then show "n \<in> {..<k} \<union> unat ` dom store"
    proof cases
      case 2
      then have "word_of_nat n \<in> dom store" "unat (word_of_nat n :: u32) = n" using assms(2,3) by auto
      then show ?thesis by (metis UnI2 imageI)
    qed (auto simp: assms(4) split: if_splits)
  qed
  show "{..<k} \<union> unat ` dom store \<subseteq> {..<k'} \<union> unat ` dom store'"
    using assms(1) by (auto simp: assms(4) domIff image_iff)
qed

lemma recv_data_inv:
  assumes N: "N < 2 ^ 32" and inv: "recv_inv src N R k s"
    and pid: "unat pid < N" "payload = src (unat pid)"
    and room: "card (dom (recvPackets s)) \<le> 1024"
  shows "\<exists>k'. recv_inv src N (insert (unat pid) R) k' (recv_data pid payload s)"
proof -
  define store where "store = (if recvPackets s pid = None then (recvPackets s)(pid := Some payload)
    else recvPackets s)"
  note i = inv [unfolded recv_inv_def]
  note nxt = recv_inv_next [OF N, of k s]
  have kN: "k \<le> N" and cons: "consumed s = (if k = 0 then None else Some (word_of_nat (k - 1)))"
    using i by simp_all
  have src: "store i = Some p \<Longrightarrow> unat i < N \<and> p = src (unat i)" for i p
    using i pid by (auto simp: store_def split: if_splits)
  have dom: "\<forall>i \<in> dom store. unat i < N" using src by auto
  have dom_store: "dom store = insert pid (dom (recvPackets s))" by (auto simp: store_def)
  obtain store' results lst where
    take: "take_contiguous store (word_of_nat k) = (store', results, lst)" by (metis prod_cases3)
  obtain k' where k': "k \<le> k'" "k' \<le> N"
    "results = map (\<lambda>i. the (store (word_of_nat i))) [k..<k']"
    "\<forall>i. k \<le> i \<and> i < k' \<longrightarrow> word_of_nat i \<in> dom store"
    "store' = (\<lambda>i. if k \<le> unat i \<and> unat i < k' then None else store i)"
    "store' (word_of_nat k') = None"
    "lst = (if k' = k then None else Some (word_of_nat (k' - 1)))"
    using take_contiguous_spec [OF take dom N nxt(2) [OF kN cons] kN] by blast
  have small: "unat (word_of_nat i :: u32) = i" if "i \<le> N" for i
    using that N by (simp add: unat_of_nat take_bit_nat_eq_self)
  have results: "results = map src [k..<k']"
  proof -
    have "the (store (word_of_nat i)) = src i" if "k \<le> i" "i < k'" for i
      using k'(2,4) that src small [of i] by fastforce
    then show ?thesis using k'(3) by simp
  qed
  have run: "recv_data pid payload s =
      s\<lparr>recvPackets := store', consumed := (case lst of None \<Rightarrow> consumed s | Some l \<Rightarrow> Some l),
        readQueue := readQueue s @ results\<rparr>"
    using room nxt(1) [OF kN cons] take
    by (simp add: recv_data_def store_def [symmetric] contiguousPayloads_def Let_def)
  have received: "{..<k'} \<union> unat ` dom store' = insert (unat pid) R"
  proof -
    have "{..<k} \<union> unat ` dom store = insert (unat pid) R" using i dom_store by auto
    then show ?thesis using taken_received [OF k'(1) _ k'(4,5)] small k'(2) by simp
  qed
  have "recv_inv src N (insert (unat pid) R) k' (recv_data pid payload s)"
    unfolding recv_inv_def run
  proof (intro conjI allI impI)
    show "readQueue (s\<lparr>recvPackets := store', consumed := (case lst of None \<Rightarrow> consumed s | Some l \<Rightarrow> Some l),
        readQueue := readQueue s @ results\<rparr>) = map src [0..<k']"
      using i k'(1) results map_upt_append [of 0 k k' src] by simp
    show "{..<k'} \<union> unat ` dom (recvPackets (s\<lparr>recvPackets := store',
        consumed := (case lst of None \<Rightarrow> consumed s | Some l \<Rightarrow> Some l),
        readQueue := readQueue s @ results\<rparr>)) = insert (unat pid) R"
      using received by simp
  qed (use k' src cons in \<open>auto split: if_splits\<close>)
  then show ?thesis by blast
qed

text \<open>The ids of the data packets a datagram carries for this session: none or one.\<close>

definition data_ids :: "uid_session \<Rightarrow> (string \<times> int) \<times> bytes \<Rightarrow> nat set" where
  "data_ids s d =
     (case parseUDPPacket (snd d) of
        Inr (UdpData conn pid payload) \<Rightarrow>
          if fst d = remoteAddr s \<and> conn = clientID s then {unat pid} else {}
      | _ \<Rightarrow> {})"

text \<open>No one else answers under the camera's address, id and session.\<close>

definition faithful :: "(nat \<Rightarrow> bytes) \<Rightarrow> nat \<Rightarrow> uid_session \<Rightarrow> (string \<times> int) \<times> bytes \<Rightarrow> bool" where
  "faithful src N s d \<longleftrightarrow>
     (case parseUDPPacket (snd d) of
        Inr (UdpData conn pid payload) \<Rightarrow>
          fst d = remoteAddr s \<and> conn = clientID s \<longrightarrow> unat pid < N \<and> payload = src (unat pid)
      | _ \<Rightarrow> True)"

definition on_datagrams ::
  "xml_parser \<Rightarrow> int \<Rightarrow> ((string \<times> int) \<times> bytes) list \<Rightarrow> uid_session \<Rightarrow> uid_session" where
  "on_datagrams parser now ds s = fold (\<lambda>d. on_datagram parser now (fst d) (snd d)) ds s"

lemma on_packet_same:
  "remoteAddr (on_packet parser packet s) = remoteAddr s"
  "clientID (on_packet parser packet s) = clientID s"
  by (cases packet; simp add: recv_data_def recv_ack_def uid_shutdown_def Let_def
      split: option.split prod.split)+

lemma on_datagram_same:
  "remoteAddr (on_datagram parser now addr buf s) = remoteAddr s"
  "clientID (on_datagram parser now addr buf s) = clientID s"
  by (simp_all add: on_datagram_def Let_def on_packet_same split: sum.split)

lemma recv_inv_shutdown [simp]: "recv_inv src N R k (uid_shutdown e s) = recv_inv src N R k s"
  by (simp add: recv_inv_def uid_shutdown_def)

lemma recv_data_ended:
  "card (dom (recvPackets s)) \<le> 1024 \<Longrightarrow> ended (recv_data pid payload s) = ended s"
  by (simp add: recv_data_def split: prod.split)

lemma on_datagram_inv:
  assumes N: "N < 2 ^ 32" and inv: "recv_inv src N R k s" and ok: "faithful src N s d"
    and "ended s = None" and s'_def: "s' = on_datagram parser now (fst d) (snd d) s"
  shows "(\<exists>k'. recv_inv src N (R \<union> data_ids s d) k' s') \<or> ended s' \<noteq> None \<and> recv_inv src N R k s'"
proof (cases "fst d = remoteAddr s")
  case False
  then have "s' = s \<and> data_ids s d = {}"
    using assms(4) by (auto simp: s'_def on_datagram_def data_ids_def prod_eq_iff
        split: sum.splits udp_packet.splits)
  then show ?thesis using inv by auto
next
  case addr: True
  have now: "recv_inv src N R k (s\<lparr>lastInbound := now\<rparr>)"
    using inv by (rule recv_inv_cong) simp_all
  show ?thesis
  proof (cases "parseUDPPacket (snd d)")
    case (Inl e)
    then have "s' = s\<lparr>lastInbound := now\<rparr> \<and> data_ids s d = {}"
      using assms(4) addr by (simp add: s'_def on_datagram_def data_ids_def Let_def)
    then show ?thesis using now by auto
  next
    case (Inr packet)
    then have s': "s' = on_packet parser packet (s\<lparr>lastInbound := now\<rparr>)"
      using assms(4) addr by (simp add: s'_def on_datagram_def Let_def)
    show ?thesis
    proof (cases packet)
      case (UdpDiscovery tid payload)
      then show ?thesis
        using s' Inr now by (auto simp: data_ids_def split: option.splits)
    next
      case (UdpAck conn pid payload)
      have "recv_inv src N R k (recv_ack pid payload (s\<lparr>lastInbound := now\<rparr>))"
        using inv by (rule recv_inv_cong) (simp_all add: recv_ack_def)
      then show ?thesis
        using UdpAck s' Inr now by (auto simp: data_ids_def)
    next
      case (UdpData conn pid payload)
      show ?thesis
      proof (cases "conn = clientID s")
        case False
        then show ?thesis
          using UdpData s' Inr now by (auto simp: data_ids_def)
      next
        case conn: True
        have pid: "unat pid < N" "payload = src (unat pid)"
          using ok UdpData Inr addr conn by (auto simp: faithful_def)
        have s'': "s' = recv_data pid payload (s\<lparr>lastInbound := now\<rparr>)"
          using UdpData s' conn by simp
        show ?thesis
        proof (cases "card (dom (recvPackets s)) \<le> 1024")
          case True
          then show ?thesis
            using recv_data_inv [OF N now pid] UdpData Inr addr conn s''
            by (simp add: data_ids_def insert_is_Un [of "unat pid" R, symmetric])
        next
          case False
          then have "s' = uid_shutdown RecvOverflow (s\<lparr>lastInbound := now\<rparr>)"
            by (simp add: s'' recv_data_def)
          moreover have "ended (uid_shutdown RecvOverflow (s\<lparr>lastInbound := now\<rparr>)) \<noteq> None"
            by (simp add: uid_end.get_set)
          ultimately show ?thesis using now recv_inv_shutdown by metis
        qed
      qed
    qed
  qed
qed

lemma data_ids_cong:
  "remoteAddr s' = remoteAddr s \<Longrightarrow> clientID s' = clientID s \<Longrightarrow> data_ids s' = data_ids s"
  by (simp add: data_ids_def fun_eq_iff split: sum.split udp_packet.split)

lemma faithful_cong:
  "remoteAddr s' = remoteAddr s \<Longrightarrow> clientID s' = clientID s \<Longrightarrow> faithful src N s' = faithful src N s"
  by (simp add: faithful_def fun_eq_iff split: sum.split udp_packet.split)

lemma recv_inv_gap: "N < 2 ^ 32 \<Longrightarrow> recv_inv src N R k s \<Longrightarrow> {..<k} \<subseteq> R \<and> k \<notin> R"
proof -
  assume N: "N < 2 ^ 32" and inv: "recv_inv src N R k s"
  then have "i = word_of_nat k" if "unat i = k" for i :: u32
    using that by auto
  then show ?thesis using inv by (auto simp: recv_inv_def)
qed

lemma recv_inv_card: "recv_inv src N R k s \<Longrightarrow> card (dom (recvPackets s)) \<le> N"
proof -
  assume "recv_inv src N R k s"
  then have "unat ` dom (recvPackets s) \<subseteq> {..<N}" by (auto simp: recv_inv_def)
  then have "card (unat ` dom (recvPackets s)) \<le> N"
    using card_mono [of "{..<N}"] by simp
  then show ?thesis by (simp add: card_image inj_unat)
qed

lemma on_datagram_overflow:
  assumes "ended s = None" "card (dom (recvPackets s)) \<le> 1024"
  shows "ended (on_datagram parser now addr buf s) \<noteq> Some RecvOverflow"
proof -
  have packet: "ended (on_packet parser packet t) \<noteq> Some RecvOverflow"
    if "ended t = None" "card (dom (recvPackets t)) \<le> 1024" for packet t
    using that
    by (cases packet) (simp_all add: recv_data_ended recv_ack_def uid_shutdown_def
      closeState_set_def split: option.split)
  have "ended (s\<lparr>lastInbound := now\<rparr>) = None" "card (dom (recvPackets (s\<lparr>lastInbound := now\<rparr>))) \<le> 1024"
    using assms by simp_all
  then show ?thesis
    using assms packet by (simp add: on_datagram_def Let_def split: sum.split)
qed

lemma on_datagram_ended [simp]: "ended s \<noteq> None \<Longrightarrow> on_datagram parser now addr buf s = s"
  by (simp add: on_datagram_def)

lemma on_datagrams_ended: "ended s \<noteq> None \<Longrightarrow> on_datagrams parser now ds s = s"
  by (induction ds) (simp_all add: on_datagrams_def del: not_None_eq)

lemma on_datagrams_inv:
  assumes "N < 2 ^ 32"
  shows "recv_inv src N R k s \<Longrightarrow> ended s = None \<Longrightarrow> \<forall>d \<in> set ds. faithful src N s d \<Longrightarrow>
    \<exists>k' R'. recv_inv src N R' k' (on_datagrams parser now ds s)
      \<and> (ended (on_datagrams parser now ds s) = None \<longrightarrow> R' = R \<union> \<Union> (data_ids s ` set ds))
      \<and> (N \<le> 1024 \<longrightarrow> ended (on_datagrams parser now ds s) \<noteq> Some RecvOverflow)"
proof (induction ds arbitrary: s R k)
  case Nil
  then show ?case by (auto simp: on_datagrams_def)
next
  case (Cons d ds)
  define s1 where "s1 = on_datagram parser now (fst d) (snd d) s"
  have step: "on_datagrams parser now (d # ds) s = on_datagrams parser now ds s1"
    by (simp add: on_datagrams_def s1_def)
  have room: "N \<le> 1024 \<longrightarrow> ended s1 \<noteq> Some RecvOverflow"
    using on_datagram_overflow [OF Cons.prems(2)] recv_inv_card [OF Cons.prems(1)]
    by (auto simp: s1_def)
  have inv1: "(\<exists>k'. recv_inv src N (R \<union> data_ids s d) k' s1) \<or> ended s1 \<noteq> None \<and> recv_inv src N R k s1"
    using on_datagram_inv [OF assms Cons.prems(1) _ Cons.prems(2) s1_def] Cons.prems(3) by simp
  show ?case
  proof (cases "ended s1 = None")
    case True
    have same: "data_ids s1 = data_ids s" "faithful src N s1 = faithful src N s"
      by (rule data_ids_cong, simp_all add: s1_def on_datagram_same)
        (rule faithful_cong, simp_all add: on_datagram_same)
    obtain k1 where k1: "recv_inv src N (R \<union> data_ids s d) k1 s1" using inv1 True by blast
    have "\<forall>x \<in> set ds. faithful src N s1 x" using Cons.prems(3) same by simp
    from Cons.IH [OF k1 True this] obtain k' R' where "recv_inv src N R' k' (on_datagrams parser now ds s1)"
      "ended (on_datagrams parser now ds s1) = None \<longrightarrow> R' = R \<union> data_ids s d \<union> \<Union> (data_ids s1 ` set ds)"
      "N \<le> 1024 \<longrightarrow> ended (on_datagrams parser now ds s1) \<noteq> Some RecvOverflow"
      by (elim exE conjE) (rule that)
    then show ?thesis
      unfolding step same(1) by (intro exI [of _ k'] exI [of _ R']) (simp add: Un_assoc)
  next
    case False
    then have "on_datagrams parser now ds s1 = s1" by (rule on_datagrams_ended)
    moreover obtain k' R' where "recv_inv src N R' k' s1" using inv1 by blast
    ultimately show ?thesis using False room step by metis
  qed
qed

text \<open>C1: Whatever the network does to the camera's datagrams - loses, repeats or reorders them, mixes
  in noise, acknowledgements, broken and foreign datagrams - what the session has queued for
  reading is at every moment exactly the payloads of packets \<open>0, 1, ..., k - 1\<close>, each once and in
  order; while the session runs \<open>k\<close> is the first packet that has not arrived, so nothing that
  could be delivered is held back; and a stream of at most 1024 packets cannot overflow.\<close>

theorem uid_stream_prefix:
  assumes "N < 2 ^ 32" "readQueue s = []" "consumed s = None" "recvPackets s = Map.empty"
    and "ended s = None" "\<forall>d \<in> set ds. faithful src N s d"
  shows "\<exists>k \<le> N. readQueue (on_datagrams parser now ds s) = map src [0..<k]
    \<and> (ended (on_datagrams parser now ds s) = None \<longrightarrow>
         {..<k} \<subseteq> \<Union> (data_ids s ` set ds) \<and> k \<notin> \<Union> (data_ids s ` set ds))
    \<and> (N \<le> 1024 \<longrightarrow> ended (on_datagrams parser now ds s) \<noteq> Some RecvOverflow)"
proof -
  obtain k R where R: "recv_inv src N R k (on_datagrams parser now ds s)"
    "ended (on_datagrams parser now ds s) = None \<longrightarrow> R = \<Union> (data_ids s ` set ds)"
    "N \<le> 1024 \<longrightarrow> ended (on_datagrams parser now ds s) \<noteq> Some RecvOverflow"
    using on_datagrams_inv [OF assms(1) recv_inv_fresh [OF assms(2-4)] assms(5,6),
        where parser = parser and now = now]
    unfolding Un_empty_left by (elim exE conjE) (rule that)
  have k: "k \<le> N" "readQueue (on_datagrams parser now ds s) = map src [0..<k]"
    using R(1) by (simp_all add: recv_inv_def)
  have gap: "{..<k} \<subseteq> \<Union> (data_ids s ` set ds) \<and> k \<notin> \<Union> (data_ids s ` set ds)"
    if "ended (on_datagrams parser now ds s) = None"
    using recv_inv_gap [OF assms(1) R(1)] R(2) that by (simp only: simp_thms)
  show ?thesis
    by (rule exI [of _ k], intro conjI impI) (rule k(1), rule k(2), drule gap, simp only: simp_thms, drule gap, simp only: simp_thms, erule mp [OF R(3)])
qed

definition demo_session :: uid_session where
  "demo_session =
     \<lparr>uid = ''UID'', remoteAddr = (''10.0.0.2'', 2015), mtu = 1350, clientID = 7, cameraID = 9,
      readQueue = [], writeQueue = [], readBuf = [], sentPackets = Map.empty, nextPacketID = 0,
      recvPackets = Map.empty, consumed = None, lastInbound = 0, ended = None\<rparr>"

lemma demo_fresh:
  "readQueue demo_session = []" "consumed demo_session = None"
  "recvPackets demo_session = Map.empty" "ended demo_session = None"
  by (simp_all add: demo_session_def)

lemma faithful_marshalled:
  "length payload < 2 ^ 32 \<Longrightarrow> unat pid < N \<Longrightarrow> payload = src (unat pid) \<Longrightarrow>
   faithful src N s (addr, marshalUDPPacket (UdpData conn pid payload))"
  by (simp add: faithful_def parse_marshal_udp udp_wf_def del: marshalUDPPacket.simps)

theorem uid_stream_prefix_witness:
  "\<exists>k \<le> 2. readQueue (on_datagrams (\<lambda>_. None) 0
      [((''10.0.0.2'', 2015), marshalUDPPacket (UdpData 7 1 [22])),
       ((''10.0.0.2'', 2015), marshalUDPPacket (UdpData 7 0 [11]))] demo_session)
    = map (\<lambda>i. if i = 0 then [11] else [22]) [0..<k]"
  using uid_stream_prefix [of 2 demo_session
      "[((''10.0.0.2'', 2015), marshalUDPPacket (UdpData 7 1 [22])),
        ((''10.0.0.2'', 2015), marshalUDPPacket (UdpData 7 0 [11]))]"
      "\<lambda>i. if i = 0 then [11] else [22]" "\<lambda>_. None" 0]
  by (simp add: demo_fresh faithful_marshalled del: marshalUDPPacket.simps) blast

text \<open>
  A packet that arrives again after its delivery is put into the buffer and never leaves it:
  the loop only removes ids that follow the last one consumed.
\<close>

lemma recv_data_stale:
  assumes "consumed s = Some c" "recvPackets s (c + 1) = None" "pid \<noteq> c + 1"
    and "card (dom (recvPackets s)) \<le> 1024"
  shows "recv_data pid payload s = s\<lparr>recvPackets :=
      (if recvPackets s pid = None then (recvPackets s)(pid := Some payload) else recvPackets s)\<rparr>"
  using assms
  by (simp add: recv_data_def contiguousPayloads_def take_contiguous.simps [of _ "c + 1"] Let_def)

lemma recv_stale_fold:
  assumes "consumed s = Some c" "recvPackets s (c + 1) = None"
    and "\<forall>(pid, p) \<in> set ps. pid \<noteq> c + 1 \<and> recvPackets s pid = None" "distinct (map fst ps)"
    and "card (dom (recvPackets s)) + length ps \<le> 1025"
  shows "\<exists>store. fold (\<lambda>(pid, p). recv_data pid p) ps s = s\<lparr>recvPackets := store\<rparr>
    \<and> store (c + 1) = None \<and> card (dom store) = card (dom (recvPackets s)) + length ps"
  using assms
proof (induction ps arbitrary: s)
  case Nil
  then show ?case by (intro exI [of _ "recvPackets s"]) simp
next
  case (Cons d ps)
  obtain pid p where d: "d = (pid, p)" by (cases d)
  define s1 where "s1 = s\<lparr>recvPackets := (recvPackets s)(pid := Some p)\<rparr>"
  have new: "pid \<noteq> c + 1" "recvPackets s pid = None" using Cons.prems(3) d by auto
  have run: "recv_data pid p s = s1"
    using recv_data_stale [OF Cons.prems(1,2) new(1)] Cons.prems(5) new(2) by (simp add: s1_def)
  have card: "card (dom (recvPackets s1)) = Suc (card (dom (recvPackets s)))"
    using new(2) by (simp add: s1_def domIff)
  have "\<exists>store. fold (\<lambda>(pid, p). recv_data pid p) ps s1 = s1\<lparr>recvPackets := store\<rparr>
    \<and> store (c + 1) = None \<and> card (dom store) = card (dom (recvPackets s1)) + length ps"
  proof (rule Cons.IH)
    show "consumed s1 = Some c" "recvPackets s1 (c + 1) = None"
      using Cons.prems new by (simp_all add: s1_def)
    show "\<forall>(i, q) \<in> set ps. i \<noteq> c + 1 \<and> recvPackets s1 i = None"
      using Cons.prems(3,4) d by (auto simp: s1_def rev_image_eqI)
    show "distinct (map fst ps)" using Cons.prems(4) by simp
    show "card (dom (recvPackets s1)) + length ps \<le> 1025"
      using Cons.prems(5) unfolding card by simp
  qed
  then show ?case
    using run card d by (auto simp: s1_def)
qed

text \<open>C31: Repeats of packets that were already delivered are not discarded: 1025 of them with distinct
  ids, all delivered before, leave the read queue as it is, fill the receive buffer for good, and
  the next data packet, whichever it is, ends the session with the error that blames missing
  packets.\<close>

theorem stale_duplicates_end_session:
  assumes "consumed s = Some c" "recvPackets s = Map.empty" "ended s = None"
    and "\<forall>(i, p) \<in> set ps. i \<le> c" "c + 1 \<noteq> 0" "distinct (map fst ps)" "length ps = 1025"
  shows "ended (recv_data pid payload (fold (\<lambda>(i, p). recv_data i p) ps s)) = Some RecvOverflow
    \<and> readQueue (recv_data pid payload (fold (\<lambda>(i, p). recv_data i p) ps s)) = readQueue s"
proof -
  have "unat (c + 1) = Suc (unat c)"
    using assms(5) unatSuc [of c] by (simp add: add.commute)
  then have "\<not> c + 1 \<le> c" by (simp add: word_le_nat_alt)
  then have "\<forall>(i, p) \<in> set ps. i \<noteq> c + 1 \<and> recvPackets s i = None"
    using assms(2,4) by auto
  then obtain store where
    "fold (\<lambda>(i, p). recv_data i p) ps s = s\<lparr>recvPackets := store\<rparr>" "card (dom store) = 1025"
    using recv_stale_fold [OF assms(1) _ _ assms(6)] assms(2,7) by auto
  then show ?thesis
    by (simp add: recv_data_def uid_shutdown_def closeState_set_def assms(3))
qed

theorem stale_duplicates_end_session_witness:
  "ended (recv_data 5000 [] (fold (\<lambda>(i, p). recv_data i p)
      (map (\<lambda>j. (word_of_nat j, [])) [0..<1025]) (demo_session\<lparr>consumed := Some 2000\<rparr>)))
    = Some RecvOverflow"
proof (rule conjunct1 [OF stale_duplicates_end_session [where c = 2000]])
  have small: "unat (word_of_nat j :: u32) = j" if "j < 1025" for j
    using that by (simp add: unat_of_nat take_bit_nat_eq_self)
  show "\<forall>(i, p) \<in> set (map (\<lambda>j. (word_of_nat j :: u32, [] :: bytes)) [0..<1025]). i \<le> 2000"
    using small by (auto simp: word_le_nat_alt)
  have "inj_on (word_of_nat :: nat \<Rightarrow> u32) {0..<1025}"
    using small by (intro inj_on_inverseI [where g = unat]) auto
  then show "distinct (map fst (map (\<lambda>j. (word_of_nat j :: u32, [] :: bytes)) [0..<1025]))"
    by (simp add: comp_def distinct_map)
qed (simp_all add: demo_session_def)

section \<open>Sending\<close>

lemma write_chunks_spec:
  assumes "0 < m" "write_chunks m room p = (chunks, written, stopped)"
  shows "concat chunks = take written p \<and> written \<le> length p
    \<and> (\<forall>c \<in> set chunks. c \<noteq> [] \<and> length c \<le> m)
    \<and> (stopped \<or> written = length p) \<and> (stopped \<longrightarrow> room = Some (length chunks))"
  using assms
proof (induction m room p arbitrary: chunks written stopped rule: write_chunks.induct)
  case (1 m room p)
  show ?case
  proof (cases "p = [] \<or> room = Some 0")
    case True
    then show ?thesis using "1.prems" by (auto simp: write_chunks.simps [of m] split: if_splits)
  next
    case False
    define n where "n = min (length p) m"
    obtain cs w st where
      rec: "write_chunks m (map_option (\<lambda>r. r - 1) room) (drop n p) = (cs, w, st)"
      by (metis prod_cases3)
    have out: "chunks = take n p # cs" "written = n + w" "stopped = st"
      using "1.prems" False rec
      by (simp_all add: write_chunks.simps [of m room p] n_def [symmetric] Let_def)
    have IH: "concat cs = take w (drop n p)" "w \<le> length (drop n p)"
      "\<forall>c \<in> set cs. c \<noteq> [] \<and> length c \<le> m" "st \<or> w = length (drop n p)"
      "st \<longrightarrow> map_option (\<lambda>r. r - 1) room = Some (length cs)"
      using "1.IH" [OF _ _ n_def "1.prems"(1) rec] False "1.prems"(1) by auto
    have "n \<le> length p" "n \<le> m" "0 < n" using False "1.prems"(1) by (auto simp: n_def)
    have stop: "stopped \<longrightarrow> room = Some (length chunks)"
      using IH(5) out False by (cases room) auto
    have "concat chunks = take written p" "written \<le> length p"
      using IH(1,2) out \<open>n \<le> length p\<close> by (simp_all add: take_add)
    moreover have "\<forall>c \<in> set chunks. c \<noteq> [] \<and> length c \<le> m"
      using IH(3) out \<open>n \<le> m\<close> \<open>0 < n\<close> False by auto
    moreover have "stopped \<or> written = length p"
      using IH(4) out \<open>n \<le> length p\<close> by auto
    ultimately show ?thesis using stop by blast
  qed
qed

lemma uid_write_spec:
  assumes "20 < mtu s" "uid_write room p s = (s', n, err)"
  shows "\<exists>chunks. writeQueue s' = writeQueue s @ chunks \<and> concat chunks = take n p \<and> n \<le> length p
    \<and> (\<forall>c \<in> set chunks. c \<noteq> [] \<and>
         int (length (marshalUDPPacket (UdpData (cameraID s) i c))) \<le> mtu s)
    \<and> (err = None \<longrightarrow> n = length p) \<and> (room = None \<longrightarrow> err = None)"
proof -
  obtain chunks written stopped where
    w: "write_chunks (nat (mtu s - 20)) room p = (chunks, written, stopped)"
    by (metis prod_cases3)
  have "n = written" "writeQueue s' = writeQueue s @ chunks" "err = None \<longleftrightarrow> \<not> stopped"
    using assms w by (auto simp: uid_write_def Let_def split: if_splits)
  moreover have "concat chunks = take written p" "written \<le> length p"
    "\<forall>c \<in> set chunks. c \<noteq> [] \<and> length c \<le> nat (mtu s - 20)" "stopped \<or> written = length p"
    "stopped \<longrightarrow> room = Some (length chunks)"
    using write_chunks_spec [OF _ w] assms(1) by simp_all
  moreover have "int (length (marshalUDPPacket (UdpData (cameraID s) i c))) \<le> mtu s"
    if "length c \<le> nat (mtu s - 20)" for c
    using that assms(1) by simp
  ultimately show ?thesis
    by (intro exI [of _ chunks] conjI impI ballI) (auto simp del: marshalUDPPacket.simps)
qed

text \<open>\<^verbatim>\<open>Write\<close> cuts its argument into non-empty chunks whose datagrams fit the MTU of the session
  and whose concatenation is exactly the part it reports as written; it reports an error exactly
  when it stopped early, and without one everything was queued.\<close>

theorem uid_write_chunks:
  assumes "20 < mtu s" "uid_write room p s = (s', n, err)"
  shows "\<exists>chunks. writeQueue s' = writeQueue s @ chunks \<and> concat chunks = take n p \<and> n \<le> length p
    \<and> (\<forall>c \<in> set chunks. c \<noteq> [] \<and>
         int (length (marshalUDPPacket (UdpData (cameraID s) i c))) \<le> mtu s)
    \<and> (err = None \<longrightarrow> n = length p) \<and> (room = None \<longrightarrow> err = None)"
  using uid_write_spec [OF assms] by blast

theorem uid_write_chunks_witness:
  "\<exists>chunks. writeQueue (fst (uid_write None [1, 2, 3] demo_session)) = chunks
    \<and> concat chunks = [1, 2, 3]"
  using uid_write_chunks [of demo_session None "[1, 2, 3]"
      "fst (uid_write None ([1, 2, 3]) demo_session)"
      "fst (snd (uid_write None ([1, 2, 3]) demo_session))"
      "snd (snd (uid_write None ([1, 2, 3]) demo_session))" 0]
  by (simp add: demo_session_def)

text \<open>Draining the write queue over a working socket.\<close>

fun send_all :: "nat \<Rightarrow> uid_session \<Rightarrow> uid_session \<times> bytes list" where
  "send_all 0 s = (s, [])"
| "send_all (Suc n) s =
     (let (s1, out) = send_chunk True s; (s2, out') = send_all n s1 in (s2, out @ out'))"

lemma send_chunk_one:
  "writeQueue s = c # q \<Longrightarrow> card (dom (sentPackets s)) \<le> 1024 \<Longrightarrow>
   send_chunk True s =
     (s\<lparr>writeQueue := q, nextPacketID := nextPacketID s + 1,
        sentPackets := (sentPackets s)(nextPacketID s \<mapsto>
          marshalUDPPacket (UdpData (cameraID s) (nextPacketID s) c))\<rparr>,
      [marshalUDPPacket (UdpData (cameraID s) (nextPacketID s) c)])"
  by (simp add: send_chunk_def Let_def del: marshalUDPPacket.simps)

lemma card_insert_le_Suc: "card (insert x A) \<le> Suc (card A)"
  by (cases "finite A") (auto simp: card_insert_if)

lemma send_all_spec:
  assumes "writeQueue s = cs @ q" "card (dom (sentPackets s)) + length cs \<le> 1025"
  shows "snd (send_all (length cs) s) =
      map (\<lambda>j. marshalUDPPacket (UdpData (cameraID s) (nextPacketID s + word_of_nat j) (cs ! j)))
        [0..<length cs]
    \<and> writeQueue (fst (send_all (length cs) s)) = q
    \<and> ended (fst (send_all (length cs) s)) = ended s"
  using assms
proof (induction cs arbitrary: s)
  case (Cons c cs)
  define s1 where "s1 = fst (send_chunk True s)"
  have one: "send_chunk True s =
      (s1, [marshalUDPPacket (UdpData (cameraID s) (nextPacketID s) c)])"
    and s1: "writeQueue s1 = cs @ q" "cameraID s1 = cameraID s" "nextPacketID s1 = nextPacketID s + 1"
      "ended s1 = ended s" "dom (sentPackets s1) = insert (nextPacketID s) (dom (sentPackets s))"
    using send_chunk_one [of s c "cs @ q"] Cons.prems
    by (simp_all add: s1_def del: marshalUDPPacket.simps)
  have card: "card (dom (sentPackets s1)) + length cs \<le> 1025"
    using s1(5) card_insert_le_Suc [of "nextPacketID s" "dom (sentPackets s)"] Cons.prems(2)
    by (simp del: card_insert_disjoint)
  show ?case
    unfolding list.size add_0_right add_Suc_right map_upt_Suc_shift
    using Cons.IH [OF s1(1) card] one s1
    by (simp add: Let_def split_beta add.assoc del: marshalUDPPacket.simps upt_Suc)
qed simp

text \<open>What \<^verbatim>\<open>Write\<close> accepted goes out, over a working socket, as data packets addressed to the
  camera with consecutive ids whose payloads, put together in the order of the ids, are the
  bytes written; a receiver that orders packets by id reads the stream that was written.\<close>

theorem uid_write_sends_stream:
  assumes "20 < mtu s" "writeQueue s = []" "uid_write None p s = (s1, n, err)"
    and "card (dom (sentPackets s)) + length (writeQueue s1) \<le> 1025" "mtu s < 2 ^ 32"
  shows "\<exists>chunks. concat chunks = p
    \<and> map parseUDPPacket (snd (send_all (length (writeQueue s1)) s1)) =
        map (\<lambda>j. Inr (UdpData (cameraID s) (nextPacketID s + word_of_nat j) (chunks ! j)))
          [0..<length chunks]
    \<and> ended (fst (send_all (length (writeQueue s1)) s1)) = ended s"
proof -
  obtain chunks where c: "writeQueue s1 = chunks" "concat chunks = take n p"
    "\<forall>c \<in> set chunks. c \<noteq> [] \<and>
       int (length (marshalUDPPacket (UdpData (cameraID s) 0 c))) \<le> mtu s"
    "err = None \<longrightarrow> n = length p" "err = None"
    using uid_write_spec [OF assms(1,3), of 0] assms(2) by auto
  have same: "sentPackets s1 = sentPackets s" "cameraID s1 = cameraID s"
    "nextPacketID s1 = nextPacketID s" "ended s1 = ended s"
    using assms(1,3) by (auto simp: uid_write_def Let_def split: prod.splits if_splits)
  have "udp_wf (UdpData (cameraID s) i (chunks ! j))" if "j < length chunks" for i j
    using c(3) nth_mem [OF that] assms(5) by (fastforce simp: udp_wf_def)
  then show ?thesis
    using send_all_spec [of s1 chunks "[]"] c assms(4) same
    by (intro exI [of _ chunks]) (simp add: parse_marshal_udp del: marshalUDPPacket.simps)
qed

theorem uid_write_sends_stream_witness:
  "\<exists>chunks. concat chunks = [1, 2, 3]
    \<and> map parseUDPPacket (snd (send_all 1 (fst (uid_write None [1, 2, 3] demo_session)))) =
        map (\<lambda>j. Inr (UdpData 9 (word_of_nat j) (chunks ! j))) [0..<length chunks]"
proof -
  have w: "uid_write None [1, 2, 3] demo_session = (demo_session\<lparr>writeQueue := [[1, 2, 3]]\<rparr>, 3, None)"
    by (simp add: uid_write_def demo_session_def write_chunks.simps)
  show ?thesis
    using uid_write_sends_stream [OF _ _ w] by (simp add: w, simp add: demo_session_def) blast
qed

section \<open>Acknowledgements\<close>

lemma ack_deletes_iff:
  "length vs + unat pid < 2 ^ 32 \<Longrightarrow>
   ack_deletes sent pid vs i =
     (if \<exists>j < length vs. i = pid + 1 + word_of_nat j \<and> vs ! j \<noteq> 0 then None else sent i)"
proof (induction vs arbitrary: sent pid)
  case (Cons v vs)
  have "unat (pid + 1) = Suc (unat pid)"
    using unat_plus_small [of pid 1] Cons.prems by simp
  then have IH: "ack_deletes sent' (pid + 1) vs i =
     (if \<exists>j < length vs. i = pid + 1 + 1 + word_of_nat j \<and> vs ! j \<noteq> 0 then None else sent' i)" for sent'
    using Cons by simp
  define P where "P \<longleftrightarrow> (\<exists>j < length vs. i = pid + 1 + 1 + word_of_nat j \<and> vs ! j \<noteq> 0)"
  have eq: "(\<exists>j < length (v # vs). i = pid + 1 + word_of_nat j \<and> (v # vs) ! j \<noteq> 0) \<longleftrightarrow>
      i = pid + 1 \<and> v \<noteq> 0 \<or> P"
    by (auto simp: P_def less_Suc_eq_0_disj add.assoc)
  show ?case
    unfolding ack_deletes.simps IH eq P_def [symmetric] by simp
qed simp

lemma recv_inv_received:
  assumes "recv_inv src N R k r"
  shows "unat i \<in> R \<longleftrightarrow> unat i < k \<or> recvPackets r i \<noteq> None"
proof -
  have "R = {..<k} \<union> unat ` dom (recvPackets r)" using assms by (simp add: recv_inv_def)
  then show ?thesis by (simp only: Un_iff unat_image_iff lessThan_iff domIff)
qed

lemma recv_ack_bits:
  assumes "n + unat c < 2 ^ 32"
  shows "sentPackets (recv_ack c (map (\<lambda>j. if recvPackets r (c + 1 + word_of_nat j) \<noteq> None then 1 else 0) [0..<n]) s) i =
    (if i \<le> c \<or> (\<exists>j < n. i = c + 1 + word_of_nat j \<and> recvPackets r i \<noteq> None) then None else sentPackets s i)"
proof -
  define bits :: bytes where
    "bits = map (\<lambda>j. if recvPackets r (c + 1 + word_of_nat j) \<noteq> None then 1 else 0) [0..<n]"
  have "length bits + unat c < 2 ^ 32" using assms by (simp add: bits_def)
  then show ?thesis
    unfolding bits_def [symmetric]
    by (auto simp: recv_ack_def ack_deletes_iff) (auto simp: bits_def split: if_splits)
qed

text \<open>What such an acknowledgement covers, by number: the packets received up to 200 behind the gap.\<close>

lemma acked_iff:
  assumes R: "unat i \<in> R \<longleftrightarrow> unat i < k \<or> recvPackets r i \<noteq> None"
    and c: "unat c = k - 1" "c + 1 = word_of_nat k" and k: "0 < k" "k + 201 < 2 ^ 32"
    and n: "n \<le> 200" "\<forall>j. j < 200 \<longrightarrow> recvPackets r (c + 1 + word_of_nat j) \<noteq> None \<longrightarrow> j < n"
  shows "i \<le> c \<or> (\<exists>j < n. i = c + 1 + word_of_nat j \<and> recvPackets r i \<noteq> None) \<longleftrightarrow> unat i \<in> R \<and> unat i < k + 200"
proof -
  have le: "i \<le> c \<longleftrightarrow> unat i < k" using c(1) k(1) by (auto simp: word_le_nat_alt)
  have at: "unat (c + 1 + word_of_nat j) = k + j" if "j < 200" for j
    using unat_plus_small [of c "Suc j"] that c(1) k by (simp add: add.assoc)
  show ?thesis
  proof (cases "unat i < k")
    case False
    define d where "d = unat i - k"
    have "(word_of_nat k :: u32) + word_of_nat d = word_of_nat (unat i)"
      using False by (simp add: d_def flip: of_nat_add)
    then have d: "unat i = k + d" "i = c + 1 + word_of_nat d" using False c(2) by (simp_all add: d_def)
    show ?thesis
    proof
      assume "i \<le> c \<or> (\<exists>j < n. i = c + 1 + word_of_nat j \<and> recvPackets r i \<noteq> None)"
      then obtain j where "j < n" "i = c + 1 + word_of_nat j" "recvPackets r i \<noteq> None"
        using le False by blast
      then show "unat i \<in> R \<and> unat i < k + 200" using R n(1) at [of j] by simp
    next
      assume "unat i \<in> R \<and> unat i < k + 200"
      then have "d < 200" "recvPackets r i \<noteq> None" using R False d(1) by auto
      then show "i \<le> c \<or> (\<exists>j < n. i = c + 1 + word_of_nat j \<and> recvPackets r i \<noteq> None)"
        using n(2) d(2) by metis
    qed
  qed (use le R in simp)
qed

text \<open>C11: An acknowledgement is safe and useful. When a receiver that has got the packets of a set \<open>R\<close>
  sends the acknowledgement its state calls for, the datagram announces at most 200 packets, and
  a sender that processes it forgets exactly those of its packets that are in \<open>R\<close> and not more
  than 200 behind the first gap: a packet that has not arrived is kept and sent again.\<close>

theorem ack_forgets_received_only:
  assumes "recv_inv src N R k r" "0 < k" "k + 201 < 2 ^ 32" "N < 2 ^ 32"
  shows "\<exists>payload. send_ack True r =
      Some (r, [marshalUDPPacket (UdpAck (cameraID r) (word_of_nat (k - 1)) payload)])
    \<and> length payload \<le> 200
    \<and> (\<forall>i. sentPackets (recv_ack (word_of_nat (k - 1)) payload s) i =
         (if unat i \<in> R \<and> unat i < k + 200 then None else sentPackets s i))"
proof -
  define c :: u32 where "c = word_of_nat (k - 1)"
  obtain m where m: "k = Suc m" using assms(2) by (cases k) auto
  have c: "unat c = k - 1" "c + 1 = word_of_nat k"
    using assms(3) by (simp_all add: c_def m unat_of_nat take_bit_nat_eq_self)
  have cons: "consumed r = Some c" and gap: "recvPackets r (c + 1) = None"
    using assms(1,2) c(2) by (simp_all add: recv_inv_def c_def)
  have wide: "unat c + 201 < 2 ^ 32" using c(1) assms(2,3) by simp
  obtain n where n: "n \<le> 200" "ackWindow (recvPackets r) (Some c) = Some (Some (c,
      map (\<lambda>j. if recvPackets r (c + 1 + word_of_nat j) \<noteq> None then 1 else 0) [0..<n]))"
    "\<forall>j. j < 200 \<longrightarrow> recvPackets r (c + 1 + word_of_nat j) \<noteq> None \<longrightarrow> j < n"
    using ackWindow_eval [where store = "recvPackets r" and c = c, OF gap wide] by (elim exE conjE) (rule that)
  define bits :: bytes where
    "bits = map (\<lambda>j. if recvPackets r (c + 1 + word_of_nat j) \<noteq> None then 1 else 0) [0..<n]"
  have "n + unat c < 2 ^ 32" using n(1) wide by simp
  then have "sentPackets (recv_ack c bits s) i =
      (if i \<le> c \<or> (\<exists>j < n. i = c + 1 + word_of_nat j \<and> recvPackets r i \<noteq> None) then None else sentPackets s i)" for i
    unfolding bits_def by (rule recv_ack_bits)
  then have forget: "sentPackets (recv_ack c bits s) i =
      (if unat i \<in> R \<and> unat i < k + 200 then None else sentPackets s i)" for i
    using acked_iff [OF recv_inv_received [OF assms(1)] c assms(2,3) n(1,3)] by simp
  have "send_ack True r = Some (r, [marshalUDPPacket (UdpAck (cameraID r) c bits)])"
    using n(2) cons by (simp add: send_ack_def bits_def del: marshalUDPPacket.simps)
  then show ?thesis
    using forget n(1) unfolding c_def by (intro exI [of _ bits]) (simp add: bits_def)
qed

theorem ack_forgets_received_only_witness:
  "\<exists>payload. send_ack True (demo_session\<lparr>consumed := Some 0, readQueue := [[5]]\<rparr>) =
      Some (demo_session\<lparr>consumed := Some 0, readQueue := [[5]]\<rparr>,
        [marshalUDPPacket (UdpAck 9 0 payload)])
    \<and> length payload \<le> 200
    \<and> (\<forall>i. sentPackets (recv_ack 0 payload demo_session) i =
         (if unat i \<in> {0} \<and> unat i < 201 then None else sentPackets demo_session i))"
proof -
  have "recv_inv (\<lambda>_. [5]) 3 {0} 1 (demo_session\<lparr>consumed := Some 0, readQueue := [[5]]\<rparr>)"
    by (auto simp: recv_inv_def demo_session_def)
  from ack_forgets_received_only [OF this, of demo_session] show ?thesis
    by (simp add: demo_session_def del: marshalUDPPacket.simps)
qed

section \<open>Reading\<close>

text \<open>\<^verbatim>\<open>Read\<close> hands out the delivered payloads as one byte stream: what it returns, followed by what
  it leaves in the session, is what was there, at most \<open>len(p)\<close> bytes at a time, and it returns
  bytes whenever there are any unless the session has ended.\<close>

theorem uid_read_stream:
  "(case uid_read n closing s of
      (ReadBytes b, s') \<Rightarrow>
        readBuf s @ concat (readQueue s) = b @ readBuf s' @ concat (readQueue s') \<and> length b \<le> n
    | (ReadError e, s') \<Rightarrow> ended s = Some e \<and> (closing \<or> readBuf s @ concat (readQueue s) = [])
    | (ReadBlocks, s') \<Rightarrow> ended s = None \<and> readBuf s @ concat (readQueue s) = [])"
proof -
  have some: "next_chunk q = Some (c, q') \<Longrightarrow> concat q = c @ concat q'" for q c q'
    by (induction q) (auto split: if_splits)
  have none: "next_chunk q = None \<Longrightarrow> concat q = []" for q
    by (induction q) (auto split: if_splits)
  show ?thesis
    using some [of "readQueue s"] none [of "readQueue s"]
    by (auto simp: uid_read_def split: option.split bool.split)
qed

end
