(* ===== verification/Wire.thy ===== *)
theory Wire
  imports Crypto UdpPacket Xml
begin

text \<open>
  Baichuan messages on the wire (\<^verbatim>\<open>pkg/baichuan/message.go\<close>, the header and status types of
  \<^verbatim>\<open>types.go\<close>, the extension block of \<^verbatim>\<open>xml.go\<close>): encoding a request, reading a message from
  the byte stream, and the bookkeeping of message numbers that carry binary payloads. Times
  are nanoseconds. The transport is the list of bytes it will deliver.
\<close>

section \<open>Constants and headers\<close>

definition magicHeader :: u32 where "magicHeader = 0x0ABCDEF0"
definition classLegacy :: u16 where "classLegacy = 0x6514"
definition classModern :: u16 where "classModern = 0x6614"
definition classModernWithOffset :: u16 where "classModernWithOffset = 0x6414"
definition classModernAlt :: u16 where "classModernAlt = 0x0000"
definition msgIDLogin :: u32 where "msgIDLogin = 1"

record header =
  MsgID :: u32
  BodyLen :: u32
  ChannelID :: byte
  StreamType :: byte
  MsgNum :: u16
  ResponseCode :: u16
  Class :: u16
  PayloadOffset :: u32

definition hasPayloadOffset :: "u16 \<Rightarrow> bool" where
  "hasPayloadOffset class \<longleftrightarrow> class = classModernWithOffset \<or> class = classModernAlt"

definition IsModern :: "header \<Rightarrow> bool" where
  "IsModern h \<longleftrightarrow> Class h \<noteq> classLegacy"

record extension =
  BinaryData :: "int option"
  ExtChannelID :: "int option"
  EncryptLen :: "int option"

record message =
  Header :: header
  Extension :: bytes
  Payload :: bytes
  XML :: string
  Binary :: bool
  ExtensionMeta :: "extension option"

text \<open>\<^verbatim>\<open>Message.success\<close>; the error is a \<^verbatim>\<open>StatusError\<close> of the id and the code.\<close>

definition message_success :: "message \<Rightarrow> (u32 \<times> u16) option" where
  "message_success m =
     (if \<not> hasPayloadOffset (Class (Header m)) then None
      else if ResponseCode (Header m) \<in> {200, 201, 300} then None
      else Some (MsgID (Header m), ResponseCode (Header m)))"

section \<open>The state the codec uses\<close>

record wire_client =
  cipher :: cipher_state
  negotiated :: bool
  binaryMsgNums :: "u16 \<Rightarrow> int option"

definition setNegotiatedEncryption :: "u16 \<Rightarrow> wire_client \<Rightarrow> wire_client" where
  "setNegotiatedEncryption code c =
     (let b = ucast code :: byte;
          set_mode = (\<lambda>m. c\<lparr>cipher := (cipher c)\<lparr>mode := m\<rparr>, negotiated := True\<rparr>)
      in if b = 0x00 then set_mode EncryptionNone
         else if b = 0x01 then set_mode EncryptionBC
         else if b \<in> {0x02, 0x03, 0x12} then set_mode EncryptionAES
         else c)"

definition binaryMsgNumTTL :: int where
  "binaryMsgNumTTL = 5 * 60 * 10 ^ 9"

definition markBinaryMsgNum :: "int \<Rightarrow> u16 \<Rightarrow> wire_client \<Rightarrow> wire_client" where
  "markBinaryMsgNum now msgNum c =
     (let nums = (binaryMsgNums c)(msgNum := Some now)
      in c\<lparr>binaryMsgNums :=
             (\<lambda>num. case nums num of
                      None \<Rightarrow> None
                    | Some lastSeen \<Rightarrow> if now - lastSeen > binaryMsgNumTTL then None else Some lastSeen)\<rparr>)"

definition isBinaryMsgNum :: "int \<Rightarrow> u16 \<Rightarrow> wire_client \<Rightarrow> bool \<times> wire_client" where
  "isBinaryMsgNum now msgNum c =
     (case binaryMsgNums c msgNum of
        None \<Rightarrow> (False, c)
      | Some lastSeen \<Rightarrow>
          if now - lastSeen > binaryMsgNumTTL
          then (False, c\<lparr>binaryMsgNums := (binaryMsgNums c)(msgNum := None)\<rparr>)
          else (True, c\<lparr>binaryMsgNums := (binaryMsgNums c)(msgNum := Some now)\<rparr>))"

section \<open>The extension block\<close>

definition trimXML :: "bytes \<Rightarrow> string" where
  "trimXML buf = trim_space (string_of buf)"

definition parseExtension :: "xml_parser \<Rightarrow> bytes \<Rightarrow> extension option" where
  "parseExtension parser buf =
     (if buf = [] then None
      else do { doc \<leftarrow> parser (string_of buf); ks \<leftarrow> any_root_kids doc;
                b \<leftarrow> opt_int_field 64 ''binaryData'' ks;
                ch \<leftarrow> opt_int_field 64 ''channelId'' ks;
                e \<leftarrow> opt_int_field 64 ''encryptLen'' ks;
                Some \<lparr>BinaryData = b, ExtChannelID = ch, EncryptLen = e\<rparr> })"

definition parseEncryptLen :: "xml_parser \<Rightarrow> string \<Rightarrow> int option" where
  "parseEncryptLen parser xmlText =
     (if xmlText = [] then None
      else do { doc \<leftarrow> parser xmlText; ks \<leftarrow> root_kids ''body'' doc;
                n \<leftarrow> int_field 64 ''encryptLen'' ks;
                if n \<le> 0 then None else Some n })"

section \<open>Encoding a request\<close>

record request =
  rMsgID :: u32
  rChannelID :: byte
  rStreamType :: byte
  rClass :: u16
  rMsgNum :: u16
  rResponseCode :: u16
  rExtension :: bytes
  rBody :: bytes
  rBinary :: bool
  rForceBC :: bool

text \<open>The header part of a packet: 20 bytes, 24 with the payload offset.\<close>

definition encode_header :: "header \<Rightarrow> bytes" where
  "encode_header h =
     le32 magicHeader @ le32 (MsgID h) @ le32 (BodyLen h) @ [ChannelID h, StreamType h]
       @ le16 (MsgNum h) @ le16 (ResponseCode h) @ le16 (Class h)
       @ (if hasPayloadOffset (Class h) then le32 (PayloadOffset h) else [])"

definition encodeRequest :: "block_function \<Rightarrow> wire_client \<Rightarrow> request \<Rightarrow> bytes" where
  "encodeRequest E c req =
     (let cs = (if rForceBC req then (cipher c)\<lparr>mode := EncryptionBC\<rparr> else cipher c);
          ext = (if rClass req \<noteq> classLegacy \<and> 0 < length (rExtension req)
                 then encryptXML E (rChannelID req) (rExtension req) cs else rExtension req);
          body = (if rClass req \<noteq> classLegacy \<and> \<not> rBinary req \<and> 0 < length (rBody req)
                  then encryptXML E (rChannelID req) (rBody req) cs else rBody req);
          responseCode = (if rClass req = classLegacy \<and> rMsgID req = msgIDLogin \<and> length body = 0
                          then 0xDC12 else rResponseCode req)
      in encode_header
           \<lparr>MsgID = rMsgID req, BodyLen = word_of_nat (length ext + length body),
            ChannelID = rChannelID req, StreamType = rStreamType req, MsgNum = rMsgNum req,
            ResponseCode = responseCode, Class = rClass req,
            PayloadOffset = (if 0 < length ext then word_of_nat (length ext) else 0)\<rparr>
         @ ext @ body)"

section \<open>Reading a message\<close>

datatype read_error =
    ReadEOF | ReadUnexpectedEOF | UnexpectedMagic u32 | BodyTooLarge u32
  | InvalidPayloadOffset u32 u32

text \<open>\<^verbatim>\<open>io.ReadFull\<close> of \<open>n\<close> bytes.\<close>

definition read_full :: "nat \<Rightarrow> bytes \<Rightarrow> read_error + bytes \<times> bytes" where
  "read_full n input =
     (if n \<le> length input then Inr (take n input, drop n input)
      else if input = [] then Inl ReadEOF else Inl ReadUnexpectedEOF)"

definition bind_sum :: "'e + 'a \<Rightarrow> ('a \<Rightarrow> 'e + 'b) \<Rightarrow> 'e + 'b" where
  "bind_sum r f = (case r of Inl e \<Rightarrow> Inl e | Inr a \<Rightarrow> f a)"

lemma bind_sum_simps [simp]: "bind_sum (Inl e) f = Inl e" "bind_sum (Inr a) f = f a"
  by (simp_all add: bind_sum_def)

lemma bind_sum_Inr: "bind_sum r f = Inr b \<longleftrightarrow> (\<exists>a. r = Inr a \<and> f a = Inr b)"
  by (cases r) simp_all

definition read_header :: "bytes \<Rightarrow> read_error + header \<times> bytes" where
  "read_header input =
     bind_sum (read_full 20 input) (\<lambda>(b, input1).
       if u32_at b 0 \<noteq> magicHeader then Inl (UnexpectedMagic (u32_at b 0))
       else
         let h = \<lparr>MsgID = u32_at b 4, BodyLen = u32_at b 8, ChannelID = b ! 12, StreamType = b ! 13,
                  MsgNum = u16_at b 14, ResponseCode = u16_at b 16, Class = u16_at b 18,
                  PayloadOffset = 0\<rparr>
         in if hasPayloadOffset (Class h)
            then bind_sum (read_full 4 input1) (\<lambda>(o4, input2).
                   Inr (h\<lparr>PayloadOffset := u32_at o4 0\<rparr>, input2))
            else Inr (h, input1))"

definition decode_payload_part ::
  "block_function \<Rightarrow> xml_parser \<Rightarrow> wire_client \<Rightarrow> header \<Rightarrow> extension option \<Rightarrow> string \<Rightarrow> bool \<Rightarrow>
   bytes \<Rightarrow> bytes \<times> string" where
  "decode_payload_part E parser c h meta prePayloadXML binaryPayload enc =
     (if enc = [] then ([], [])
      else if binaryPayload then
        let encryptLen =
              (case meta of
                 Some m \<Rightarrow> (case EncryptLen m of
                             Some v \<Rightarrow> v
                           | None \<Rightarrow> (case parseEncryptLen parser prePayloadXML of
                                       Some v \<Rightarrow> v | None \<Rightarrow> 0))
               | None \<Rightarrow> (case parseEncryptLen parser prePayloadXML of Some v \<Rightarrow> v | None \<Rightarrow> 0))
        in (if 0 < encryptLen \<and> hasAESKey (cipher c) \<and> encryptLen \<le> int (length enc)
            then aesCFB E (take (nat encryptLen) enc) (aesKey (cipher c)) False
                   @ drop (nat encryptLen) enc
            else enc,
            prePayloadXML)
      else let payload = decryptXMLAuto E (ChannelID h) enc (cipher c)
           in (payload, trimXML payload))"

definition decode_body ::
  "block_function \<Rightarrow> xml_parser \<Rightarrow> int \<Rightarrow> wire_client \<Rightarrow> header \<Rightarrow> bytes \<Rightarrow> message \<times> wire_client" where
  "decode_body E parser now c h body =
     (let extLen = (if hasPayloadOffset (Class h) then unat (PayloadOffset h) else 0);
          extEncrypted = take extLen body;
          payloadEncrypted = drop extLen body;
          ext = (if extEncrypted \<noteq> [] then decryptXMLAuto E (ChannelID h) extEncrypted (cipher c)
                 else []);
          prePayloadXML = (if extEncrypted \<noteq> [] then trimXML ext else []);
          meta = parseExtension parser ext;
          (binaryPayload, c') =
            (if (case meta of Some m \<Rightarrow> BinaryData m = Some 1 | None \<Rightarrow> False)
             then (True, markBinaryMsgNum now (MsgNum h) c)
             else isBinaryMsgNum now (MsgNum h) c);
          (payload, xmlText) =
            decode_payload_part E parser c h meta prePayloadXML binaryPayload payloadEncrypted
      in (\<lparr>Header = h, Extension = ext, Payload = payload, XML = xmlText,
           Binary = binaryPayload, ExtensionMeta = meta\<rparr>, c'))"

definition readMessage ::
  "block_function \<Rightarrow> xml_parser \<Rightarrow> int \<Rightarrow> wire_client \<Rightarrow> bytes \<Rightarrow>
   read_error + message \<times> wire_client \<times> bytes" where
  "readMessage E parser now c input =
     bind_sum (read_header input) (\<lambda>(h, input1).
       if BodyLen h > 50 * 1024 * 1024 then Inl (BodyTooLarge (BodyLen h))
       else bind_sum (read_full (unat (BodyLen h)) input1) (\<lambda>(body, input2).
         let c1 = (if MsgID h = msgIDLogin \<and> IsModern h \<and> drop_bit 8 (ResponseCode h) = 0xDD
                   then setNegotiatedEncryption (ResponseCode h) c else c)
         in if hasPayloadOffset (Class h) \<and> PayloadOffset h > BodyLen h
            then Inl (InvalidPayloadOffset (PayloadOffset h) (BodyLen h))
            else let (m, c2) = decode_body E parser now c1 h body in Inr (m, c2, input2)))"

section \<open>The header as a packet format\<close>

definition header_wf :: "header \<Rightarrow> bool" where
  "header_wf h \<longleftrightarrow> hasPayloadOffset (Class h) \<or> PayloadOffset h = 0"

definition parse_header :: "bytes \<Rightarrow> read_error + header" where
  "parse_header buf = bind_sum (read_header buf) (\<lambda>(h, rest). Inr h)"

lemma read_full_append: "length a = n \<Longrightarrow> read_full n (a @ b) = Inr (a, b)"
  by (simp add: read_full_def)

lemma read_full_short: "length a < n \<Longrightarrow> \<exists>e. read_full n a = Inl e"
  by (simp add: read_full_def)

lemma length_encode_header:
  "length (encode_header h) = (if hasPayloadOffset (Class h) then 24 else 20)"
  by (simp add: encode_header_def)

lemma header_fields:
  fixes h :: header
  defines "b \<equiv> le32 magicHeader @ le32 (MsgID h) @ le32 (BodyLen h) @ [ChannelID h, StreamType h]
       @ le16 (MsgNum h) @ le16 (ResponseCode h) @ le16 (Class h)"
  shows "u32_at b 0 = magicHeader" "u32_at b 4 = MsgID h" "u32_at b 8 = BodyLen h"
    "b ! 12 = ChannelID h" "b ! 13 = StreamType h" "u16_at b 14 = MsgNum h"
    "u16_at b 16 = ResponseCode h" "u16_at b 18 = Class h" "length b = 20"
  unfolding b_def
  using u32_words(1-3)
    u16_at_append [of "le32 magicHeader @ le32 (MsgID h) @ le32 (BodyLen h) @ [ChannelID h, StreamType h]"
      14 "MsgNum h" "le16 (ResponseCode h) @ le16 (Class h)"]
    u16_at_append [of "le32 magicHeader @ le32 (MsgID h) @ le32 (BodyLen h) @ [ChannelID h, StreamType h]
      @ le16 (MsgNum h)" 16 "ResponseCode h" "le16 (Class h)"]
    u16_at_append [of "le32 magicHeader @ le32 (MsgID h) @ le32 (BodyLen h) @ [ChannelID h, StreamType h]
      @ le16 (MsgNum h) @ le16 (ResponseCode h)" 18 "Class h" "[]"]
  by (simp_all add: nth_append)

lemma read_header_encode: "header_wf h \<Longrightarrow> read_header (encode_header h @ rest) = Inr (h, rest)"
proof -
  assume wf: "header_wf h"
  define b where "b = le32 magicHeader @ le32 (MsgID h) @ le32 (BodyLen h) @ [ChannelID h, StreamType h]
       @ le16 (MsgNum h) @ le16 (ResponseCode h) @ le16 (Class h)"
  note f = header_fields [of h, folded b_def]
  have enc: "encode_header h = b @ (if hasPayloadOffset (Class h) then le32 (PayloadOffset h) else [])"
    by (simp add: encode_header_def b_def)
  show ?thesis
    unfolding read_header_def enc append_assoc read_full_append [OF f(9)] bind_sum_simps prod.case f
    using wf u32_words(1) [of "PayloadOffset h" "[]"]
    by (cases h) (auto simp: header_wf_def read_full_append)
qed

lemma read_header_short:
  assumes "n < length (encode_header h)"
  shows "\<exists>e. read_header (take n (encode_header h)) = Inl e"
proof (cases "n < 20")
  case True
  then have "length (take n (encode_header h)) < 20" by simp
  then obtain e where "read_full 20 (take n (encode_header h)) = Inl e"
    using read_full_short by blast
  then show ?thesis by (simp add: read_header_def)
next
  case False
  define b where "b = le32 magicHeader @ le32 (MsgID h) @ le32 (BodyLen h) @ [ChannelID h, StreamType h]
       @ le16 (MsgNum h) @ le16 (ResponseCode h) @ le16 (Class h)"
  note f = header_fields [of h, folded b_def]
  have off: "hasPayloadOffset (Class h)" and n: "n < 24"
    using assms False by (auto simp: length_encode_header split: if_splits)
  have enc: "encode_header h = b @ le32 (PayloadOffset h)"
    using off by (simp add: encode_header_def b_def)
  have cut: "take n (encode_header h) = b @ take (n - 20) (le32 (PayloadOffset h))"
    using False f(9) by (simp add: enc)
  have "length (take (n - 20) (le32 (PayloadOffset h))) < 4" using n False by simp
  then obtain e where e: "read_full 4 (take (n - 20) (le32 (PayloadOffset h))) = Inl e"
    using read_full_short by blast
  show ?thesis
    unfolding cut read_header_def read_full_append [OF f(9)] bind_sum_simps prod.case f
    using off e by simp
qed

interpretation header: packet_codec encode_header parse_header header_wf
proof unfold_locales
  fix h n
  assume "header_wf h"
  then show "parse_header (encode_header h) = Inr h"
    using read_header_encode [of h "[]"] by (simp add: parse_header_def)
  assume "n < length (encode_header h)"
  then show "\<exists>e. parse_header (take n (encode_header h)) = Inl e"
    using read_header_short by (fastforce simp: parse_header_def)
qed

section \<open>A message that was sent is the message that is read\<close>

lemma bodies_fit: "n \<le> 50 * 1024 * 1024 \<Longrightarrow> unat (word_of_nat n :: u32) = n"
  by (simp add: unat_of_nat take_bit_nat_eq_self)

lemma body_not_large: "n \<le> 50 * 1024 * 1024 \<Longrightarrow> \<not> (word_of_nat n :: u32) > 50 * 1024 * 1024"
  by (simp add: word_less_nat_alt bodies_fit)

lemma Header_decode_body [simp]: "Header (fst (decode_body E parser now c h body)) = h"
  by (simp add: decode_body_def Let_def split: prod.split)

text \<open>The two encrypted parts of a message, as the reader recovers them.\<close>

lemma decode_body_plain:
  assumes "hasPayloadOffset (Class h)" "unat (PayloadOffset h) = length ext"
    and "ext = [] \<or> isXMLPrefix ext" "body = [] \<or> isXMLPrefix body"
    and "case parseExtension parser ext of None \<Rightarrow> True | Some m \<Rightarrow> BinaryData m \<noteq> Some 1"
    and "\<not> fst (isBinaryMsgNum now (MsgNum h) c)"
  shows "fst (decode_body E parser now c h
      (encryptXML E (ChannelID h) ext (cipher c) @ encryptXML E (ChannelID h) body (cipher c)))
    = \<lparr>Header = h, Extension = ext, Payload = body,
       XML = (if body = [] then [] else trimXML body), Binary = False,
       ExtensionMeta = parseExtension parser ext\<rparr>"
proof -
  have ext: "(if ext \<noteq> [] then decryptXMLAuto E (ChannelID h)
      (encryptXML E (ChannelID h) ext (cipher c)) (cipher c) else []) = ext"
    using assms(3) by (auto simp: decryptXMLAuto_encryptXML)
  have payload: "body \<noteq> [] \<longrightarrow> decryptXMLAuto E (ChannelID h)
      (encryptXML E (ChannelID h) body (cipher c)) (cipher c) = body"
    using assms(4) by (auto simp: decryptXMLAuto_encryptXML)
  obtain c' where num: "isBinaryMsgNum now (MsgNum h) c = (False, c')"
    using assms(6) by (cases "isBinaryMsgNum now (MsgNum h) c") auto
  have bin: "(if (case parseExtension parser ext of None \<Rightarrow> False | Some m \<Rightarrow> BinaryData m = Some 1)
      then (True, markBinaryMsgNum now (MsgNum h) c) else isBinaryMsgNum now (MsgNum h) c) = (False, c')"
    using assms(5) num by (auto split: option.splits)
  have take: "take (length ext) (encryptXML E (ChannelID h) ext (cipher c) @ q) =
      encryptXML E (ChannelID h) ext (cipher c)"
    and drop: "drop (length ext) (encryptXML E (ChannelID h) ext (cipher c) @ q) = q" for q
    by simp_all
  show ?thesis
    unfolding decode_body_def Let_def assms(2) take drop if_P [OF assms(1)] encryptXML_eq_Nil ext bin
    using payload by (simp add: decode_payload_part_def)
qed

text \<open>C18: A request whose extension and body are XML documents (or absent) is read back by a peer
  with the same cipher state, whatever follows it in the stream: the header fields, the extension
  and the body come out as they went in, and exactly the bytes of the message are consumed.\<close>

theorem request_roundtrip:
  assumes "hasPayloadOffset (rClass req)" "\<not> rBinary req" "\<not> rForceBC req"
    and "length (rExtension req) + length (rBody req) \<le> 50 * 1024 * 1024"
    and "rExtension req = [] \<or> isXMLPrefix (rExtension req)"
    and "rBody req = [] \<or> isXMLPrefix (rBody req)"
    and "rMsgID req \<noteq> msgIDLogin \<or> drop_bit 8 (rResponseCode req) \<noteq> 0xDD"
    and "case parseExtension parser (rExtension req) of
           None \<Rightarrow> True | Some m \<Rightarrow> BinaryData m \<noteq> Some 1"
    and "\<not> fst (isBinaryMsgNum now (rMsgNum req) c)"
  shows "\<exists>m c'. readMessage E parser now c (encodeRequest E c req @ rest) = Inr (m, c', rest)
    \<and> MsgID (Header m) = rMsgID req \<and> MsgNum (Header m) = rMsgNum req
    \<and> ChannelID (Header m) = rChannelID req \<and> StreamType (Header m) = rStreamType req
    \<and> ResponseCode (Header m) = rResponseCode req \<and> Class (Header m) = rClass req
    \<and> Extension m = rExtension req \<and> Payload m = rBody req \<and> \<not> Binary m"
proof -
  let ?ext = "encryptXML E (rChannelID req) (rExtension req) (cipher c)"
  let ?body = "encryptXML E (rChannelID req) (rBody req) (cipher c)"
  define h where "h = \<lparr>MsgID = rMsgID req,
    BodyLen = word_of_nat (length (rExtension req) + length (rBody req)),
    ChannelID = rChannelID req, StreamType = rStreamType req, MsgNum = rMsgNum req,
    ResponseCode = rResponseCode req, Class = rClass req,
    PayloadOffset = word_of_nat (length (rExtension req))\<rparr>"
  have modern: "rClass req \<noteq> classLegacy"
    using assms(1) by (auto simp: hasPayloadOffset_def classModernWithOffset_def classModernAlt_def
        classLegacy_def)
  have enc: "encodeRequest E c req @ rest = encode_header h @ (?ext @ ?body) @ rest"
    using modern assms(2,3) by (auto simp: encodeRequest_def Let_def h_def)
  have wf: "header_wf h" using assms(1) by (simp add: header_wf_def h_def)
  have len: "unat (BodyLen h) = length (?ext @ ?body)" "\<not> BodyLen h > 50 * 1024 * 1024"
    "unat (PayloadOffset h) = length (rExtension req)"
    using assms(4) body_not_large [OF assms(4)] bodies_fit [OF assms(4)]
    by (simp_all add: h_def bodies_fit del: of_nat_add)
  have off: "\<not> PayloadOffset h > BodyLen h"
    using len by (simp add: word_less_nat_alt)
  have body: "fst (decode_body E parser now c h (?ext @ ?body)) =
      \<lparr>Header = h, Extension = rExtension req, Payload = rBody req,
       XML = (if rBody req = [] then [] else trimXML (rBody req)), Binary = False,
       ExtensionMeta = parseExtension parser (rExtension req)\<rparr>"
    using decode_body_plain [of h "rExtension req" "rBody req" parser now c E] assms len(3)
    by (simp add: h_def)
  have "readMessage E parser now c (encodeRequest E c req @ rest) =
      Inr (fst (decode_body E parser now c h (?ext @ ?body)),
           snd (decode_body E parser now c h (?ext @ ?body)), rest)"
    unfolding readMessage_def enc read_header_encode [OF wf] bind_sum_simps prod.case
      read_full_append [OF len(1) [symmetric]]
    using len(2) off assms(7) by (auto simp: Let_def h_def split_beta)
  then show ?thesis unfolding body by (simp add: h_def)
qed

definition demo_wire :: wire_client where
  "demo_wire = \<lparr>cipher = \<lparr>mode = EncryptionBC, aesKey = [], hasAESKey = False\<rparr>,
     negotiated = True, binaryMsgNums = (\<lambda>_. None)\<rparr>"

theorem request_roundtrip_witness:
  "\<exists>m c'. readMessage (\<lambda>_ _. []) (\<lambda>_. None) 0 demo_wire
      (encodeRequest (\<lambda>_ _. []) demo_wire
        \<lparr>rMsgID = 93, rChannelID = 250, rStreamType = 0, rClass = 0x6414, rMsgNum = 5,
         rResponseCode = 0, rExtension = [], rBody = bytes_of ''<?xml?>'', rBinary = False,
         rForceBC = False\<rparr> @ [1, 2, 3]) = Inr (m, c', [1, 2, 3])
    \<and> Payload m = bytes_of ''<?xml?>''"
  using request_roundtrip [of "\<lparr>rMsgID = 93, rChannelID = 250, rStreamType = 0, rClass = 0x6414,
      rMsgNum = 5, rResponseCode = 0, rExtension = [], rBody = bytes_of ''<?xml?>'',
      rBinary = False, rForceBC = False\<rparr>" "\<lambda>_. None" 0 demo_wire "\<lambda>_ _. []" "[1, 2, 3]"]
  by (simp add: hasPayloadOffset_def classModernWithOffset_def isXMLPrefix_def has_prefix_def
      bytes_of_def parseExtension_def msgIDLogin_def isBinaryMsgNum_def demo_wire_def) blast

text \<open>C32: The reader never loses its place in the stream: a message that is accepted took its header
  (20 or 24 bytes) and exactly the announced body from the front of the stream, the announced
  length is at most 50 MiB and the payload offset lies within the body.\<close>

theorem readMessage_framing:
  assumes "readMessage E parser now c input = Inr (m, c', rest)"
  shows "\<exists>taken. input = taken @ rest
    \<and> length taken = (if hasPayloadOffset (Class (Header m)) then 24 else 20)
        + unat (BodyLen (Header m))
    \<and> BodyLen (Header m) \<le> 50 * 1024 * 1024
    \<and> (hasPayloadOffset (Class (Header m)) \<longrightarrow> PayloadOffset (Header m) \<le> BodyLen (Header m))
    \<and> u32_at taken 0 = magicHeader"
proof -
  obtain h input1 body c1 where
    h: "read_header input = Inr (h, input1)" "\<not> BodyLen h > 50 * 1024 * 1024"
      "read_full (unat (BodyLen h)) input1 = Inr (body, rest)"
      "\<not> (hasPayloadOffset (Class h) \<and> PayloadOffset h > BodyLen h)"
    and m: "m = fst (decode_body E parser now c1 h body)"
    using assms by (auto simp: readMessage_def bind_sum_Inr Let_def split_beta split: if_splits)
  have hm: "Header m = h"
    by (simp add: m)
  have full: "n \<le> length x \<and> a = take n x \<and> b = drop n x" if "read_full n x = Inr (a, b)" for n x a b
    using that by (auto simp: read_full_def split: if_splits)
  obtain b b4 where hd: "length b = 20" "u32_at b 0 = magicHeader" "input = b @ b4 @ input1"
    "length b4 = (if hasPayloadOffset (Class h) then 4 else 0)"
  proof -
    obtain b in1 where b: "read_full 20 input = Inr (b, in1)" "u32_at b 0 = magicHeader"
      and more: "if hasPayloadOffset (Class h)
        then \<exists>o4. read_full 4 in1 = Inr (o4, input1) else in1 = input1"
      using h(1) by (auto simp: read_header_def bind_sum_Inr Let_def split: if_splits prod.splits)
    from full [OF b(1)] have "input = b @ in1" "length b = 20" by auto
    moreover obtain b4 where "in1 = b4 @ input1"
      "length b4 = (if hasPayloadOffset (Class h) then 4 else 0)"
    proof (cases "hasPayloadOffset (Class h)")
      case True
      then obtain o4 where "read_full 4 in1 = Inr (o4, input1)" using more by auto
      from full [OF this] show thesis using True by (intro that [of o4]) auto
    qed (use more that [of "[]"] in auto)
    ultimately show thesis using b(2) that by simp
  qed
  have "input1 = body @ rest" "length body = unat (BodyLen h)"
    using full [OF h(3)] by auto
  then show ?thesis
    using hd h(2,4) by (intro exI [of _ "b @ b4 @ body"]) (auto simp: hm u32_at_prefix)
qed

theorem readMessage_framing_witness:
  "\<exists>m c' taken. readMessage (\<lambda>_ _. []) (\<lambda>_. None) 0 demo_wire
      (encode_header \<lparr>MsgID = 33, BodyLen = 2, ChannelID = 0, StreamType = 0, MsgNum = 0,
         ResponseCode = 200, Class = 0x6614, PayloadOffset = 0\<rparr> @ [1, 2, 3]) = Inr (m, c', [3])
    \<and> length taken = 22 \<and> u32_at taken 0 = magicHeader"
proof -
  let ?h = "\<lparr>MsgID = 33, BodyLen = 2, ChannelID = 0, StreamType = 0, MsgNum = 0,
         ResponseCode = 200, Class = 0x6614, PayloadOffset = 0\<rparr>"
  have wf: "header_wf ?h" by (simp add: header_wf_def)
  have r: "readMessage (\<lambda>_ _. []) (\<lambda>_. None) 0 demo_wire (encode_header ?h @ [1, 2, 3]) =
      Inr (fst (decode_body (\<lambda>_ _. []) (\<lambda>_. None) 0 demo_wire ?h [1, 2]),
        snd (decode_body (\<lambda>_ _. []) (\<lambda>_. None) 0 demo_wire ?h [1, 2]), [3])"
    unfolding readMessage_def read_header_encode [OF wf]
    by (simp add: read_full_def Let_def hasPayloadOffset_def classModernWithOffset_def
        classModernAlt_def msgIDLogin_def split_beta)
  from readMessage_framing [OF r] obtain taken where "length taken = 22" "u32_at taken 0 = magicHeader"
    by (elim exE conjE) (rule that, simp_all add: hasPayloadOffset_def
      classModernWithOffset_def classModernAlt_def)
  with r show ?thesis by blast
qed

text \<open>A message number stays flagged as binary while it is used at least every five minutes, and
  no longer: asked within that time of its last use it is binary and its time starts anew; asked
  later it is not, and the flag is gone; other numbers are untouched.\<close>

theorem binary_number_lifetime:
  "isBinaryMsgNum now n c =
     (case binaryMsgNums c n of
        Some t \<Rightarrow> (now - t \<le> binaryMsgNumTTL,
          c\<lparr>binaryMsgNums := (binaryMsgNums c)(n :=
              (if now - t \<le> binaryMsgNumTTL then Some now else None))\<rparr>)
      | None \<Rightarrow> (False, c))
   \<and> binaryMsgNums (markBinaryMsgNum now n c) n = Some now
   \<and> (\<forall>i. i \<noteq> n \<longrightarrow> binaryMsgNums (markBinaryMsgNum now n c) i =
        (case binaryMsgNums c i of
           Some t \<Rightarrow> if now - t \<le> binaryMsgNumTTL then Some t else None | None \<Rightarrow> None))"
  by (auto simp: isBinaryMsgNum_def markBinaryMsgNum_def binaryMsgNumTTL_def Let_def
      split: option.splits)

end
