(* ===== verification/MediaParser.thy ===== *)
theory MediaParser
  imports Prelude
begin

text \<open>
  The incremental parser of the media stream (\<^verbatim>\<open>pkg/baichuan/media.go\<close>, the packet type of
  \<^verbatim>\<open>types.go\<close>). A slice with its bounds reversed panics in Go; that outcome is \<open>SlicePanic\<close>, one
  of the failures.
\<close>

section \<open>The interface of an incremental parser\<close>

datatype ('e, 'p) outcome = NeedMore | Parsed 'p nat | Failed 'e

locale incremental_parser =
  fixes parse :: "bytes \<Rightarrow> ('e, 'p) outcome"
    and run :: "bytes \<Rightarrow> bytes \<times> 'p list \<times> 'e option"
  assumes run_unfold: "run buf =
      (case parse buf of
         NeedMore \<Rightarrow> (buf, [], None)
       | Failed e \<Rightarrow> (buf, [], Some e)
       | Parsed p n \<Rightarrow> (case run (drop n buf) of (buf', ps, e) \<Rightarrow> (buf', p # ps, e)))"
    and parsed_bounds: "parse buf = Parsed p n \<Longrightarrow> 0 < n \<and> n \<le> length buf"
    and parsed_stable: "parse buf = Parsed p n \<Longrightarrow> parse (buf @ tail) = Parsed p n"
    and failed_stable: "parse buf = Failed e \<Longrightarrow> parse (buf @ tail) = Failed e"
begin

lemma run_append:
  "run (buf @ tail) =
     (case run buf of
        (buf', ps, None) \<Rightarrow> (case run (buf' @ tail) of (b, qs, e) \<Rightarrow> (b, ps @ qs, e))
      | (buf', ps, Some e) \<Rightarrow> (buf' @ tail, ps, Some e))"
proof (induction "length buf" arbitrary: buf rule: less_induct)
  case less
  show ?case
  proof (cases "parse buf")
    case NeedMore
    then show ?thesis by (simp add: run_unfold [of buf] split: prod.split)
  next
    case (Failed e)
    then show ?thesis
      by (simp add: run_unfold [of buf] run_unfold [of "buf @ tail"] failed_stable)
  next
    case (Parsed p n)
    note n = parsed_bounds [OF Parsed]
    obtain b ps e where r: "run (drop n buf) = (b, ps, e)" by (metis prod_cases3)
    have "run (buf @ tail) = (case run (drop n buf @ tail) of (b, ps, e) \<Rightarrow> (b, p # ps, e))"
      using n by (subst run_unfold) (simp add: parsed_stable [OF Parsed])
    also have "run (drop n buf @ tail) =
       (case run (drop n buf) of
        (buf', ps, None) \<Rightarrow> (case run (buf' @ tail) of (b, qs, e) \<Rightarrow> (b, ps @ qs, e))
      | (buf', ps, Some e) \<Rightarrow> (buf' @ tail, ps, Some e))"
      using n by (intro less.hyps) auto
    finally show ?thesis
      using Parsed r by (simp add: run_unfold [of buf] split: option.split prod.split)
  qed
qed

lemma run_Parsed: "parse (u @ tail) = Parsed p (length u) \<Longrightarrow>
  run (u @ tail) = (case run tail of (b, ps, e) \<Rightarrow> (b, p # ps, e))"
  by (subst run_unfold) simp

end

section \<open>Packets\<close>

datatype media_kind = InfoV1 | InfoV2 | IFrame | PFrame | AAC | ADPCM

fun media_kind_string :: "media_kind \<Rightarrow> string" where
  "media_kind_string InfoV1 = ''info-v1''"
| "media_kind_string InfoV2 = ''info-v2''"
| "media_kind_string IFrame = ''iframe''"
| "media_kind_string PFrame = ''pframe''"
| "media_kind_string AAC = ''aac''"
| "media_kind_string ADPCM = ''adpcm''"

text \<open>\<^verbatim>\<open>UnixTime\<close> holds the seconds passed to \<^verbatim>\<open>time.Unix\<close>.\<close>

record media_packet =
  Kind :: media_kind
  Codec :: string
  Data :: bytes
  TimestampMicrosecs :: u32
  HasTimestamp :: bool
  UnixTime :: "u32 option"
  Width :: u32
  Height :: u32
  FPS :: byte

definition empty_packet :: "media_kind \<Rightarrow> media_packet" where
  "empty_packet k =
     \<lparr>Kind = k, Codec = [], Data = [], TimestampMicrosecs = 0, HasTimestamp = False,
      UnixTime = None, Width = 0, Height = 0, FPS = 0\<rparr>"

definition bcmediaInfoV1 :: u32 where "bcmediaInfoV1 = 0x31303031"
definition bcmediaInfoV2 :: u32 where "bcmediaInfoV2 = 0x32303031"
definition bcmediaIFrameMin :: u32 where "bcmediaIFrameMin = 0x63643030"
definition bcmediaIFrameMax :: u32 where "bcmediaIFrameMax = 0x63643039"
definition bcmediaPFrameMin :: u32 where "bcmediaPFrameMin = 0x63643130"
definition bcmediaPFrameMax :: u32 where "bcmediaPFrameMax = 0x63643139"
definition bcmediaAAC :: u32 where "bcmediaAAC = 0x62773530"
definition bcmediaAACV2 :: u32 where "bcmediaAACV2 = 0x62773531"
definition bcmediaADPCM :: u32 where "bcmediaADPCM = 0x62773130"
definition bcmediaADPCMHeader :: u16 where "bcmediaADPCMHeader = 0x0100"

lemmas media_magic = bcmediaInfoV1_def bcmediaInfoV2_def bcmediaIFrameMin_def
  bcmediaIFrameMax_def bcmediaPFrameMin_def bcmediaPFrameMax_def bcmediaAAC_def
  bcmediaAACV2_def bcmediaADPCM_def

datatype media_error =
    BadInfoHeaderSize u32 | UnsupportedCodec string | ImplausibleSizes nat nat
  | BadAdpcmMarker u16 | UnknownMediaMagic u32 | SlicePanic

definition padLen :: "nat \<Rightarrow> nat" where
  "padLen sz = (if sz mod 8 = 0 then 0 else 8 - sz mod 8)"

definition parseVideoFrame :: "bytes \<Rightarrow> bool \<Rightarrow> (media_error, media_packet) outcome" where
  "parseVideoFrame buf iframe =
     (if length buf < 24 then NeedMore
      else let codec = string_of (slice buf 4 8)
      in if codec \<noteq> ''H264'' \<and> codec \<noteq> ''H265'' then Failed (UnsupportedCodec codec)
      else let payloadSize = unat (u32_at buf 8);
               additionalHeaderSize = unat (u32_at buf 12);
               microseconds = u32_at buf 16
      in if payloadSize > 50 * 1024 * 1024 \<or> additionalHeaderSize > 1024 * 1024
         then Failed (ImplausibleSizes payloadSize additionalHeaderSize)
      else let total = 24 + additionalHeaderSize + payloadSize + padLen payloadSize
      in if length buf < total then NeedMore
      else let unixTime = (if iframe \<and> 4 \<le> additionalHeaderSize then Some (u32_at buf 24) else None);
               pos = 24 + additionalHeaderSize
      in Parsed
           ((empty_packet (if iframe then IFrame else PFrame))
              \<lparr>Codec := codec, Data := slice buf pos (pos + payloadSize),
               TimestampMicrosecs := microseconds, HasTimestamp := True, UnixTime := unixTime\<rparr>)
           total)"

text \<open>The cases of the switch on the magic.\<close>

definition parse_info :: "bytes \<Rightarrow> u32 \<Rightarrow> (media_error, media_packet) outcome" where
  "parse_info buf magic =
     (if length buf < 32 then NeedMore
      else if u32_at buf 4 \<noteq> 32 then Failed (BadInfoHeaderSize (u32_at buf 4))
      else Parsed ((empty_packet (if magic = bcmediaInfoV2 then InfoV2 else InfoV1))
             \<lparr>Width := u32_at buf 8, Height := u32_at buf 12, FPS := buf ! 17\<rparr>) 32)"

definition parse_aac :: "bytes \<Rightarrow> (media_error, media_packet) outcome" where
  "parse_aac buf =
     (if length buf < 8 then NeedMore
      else let payloadSize = unat (u16_at buf 4); total = 8 + payloadSize + padLen payloadSize
      in if length buf < total then NeedMore
         else Parsed ((empty_packet AAC)\<lparr>Data := slice buf 8 (8 + payloadSize)\<rparr>) total)"

definition parse_adpcm :: "bytes \<Rightarrow> (media_error, media_packet) outcome" where
  "parse_adpcm buf =
     (if length buf < 12 then NeedMore
      else let payloadSize = unat (u16_at buf 4); total = 8 + payloadSize + padLen payloadSize
      in if length buf < total then NeedMore
         else if u16_at buf 8 \<noteq> bcmediaADPCMHeader then Failed (BadAdpcmMarker (u16_at buf 8))
         else let blockSize = int payloadSize - 4
         in if blockSize < 0 then Failed SlicePanic
            else Parsed ((empty_packet ADPCM)\<lparr>Data := slice buf 12 (12 + nat blockSize)\<rparr>) total)"

definition parseMediaPacket :: "bytes \<Rightarrow> (media_error, media_packet) outcome" where
  "parseMediaPacket buf =
     (if length buf < 4 then NeedMore
      else let magic = u32_at buf 0
      in if magic = bcmediaInfoV1 \<or> magic = bcmediaInfoV2 then parse_info buf magic
         else if magic \<ge> bcmediaIFrameMin \<and> magic \<le> bcmediaIFrameMax then parseVideoFrame buf True
         else if magic \<ge> bcmediaPFrameMin \<and> magic \<le> bcmediaPFrameMax then parseVideoFrame buf False
         else if magic = bcmediaAAC \<or> magic = bcmediaAACV2 then parse_aac buf
         else if magic = bcmediaADPCM then parse_adpcm buf
         else Failed (UnknownMediaMagic magic))"

lemmas media_branches = parse_info_def parse_aac_def parse_adpcm_def parseVideoFrame_def

text \<open>A packet is at least eight bytes, lies within the buffer, and its payload is bounded.\<close>

lemma u16_bound: "unat (w :: u16) < 65536"
  using unsigned_less [of w, where ?'a = nat] by simp

lemma branch_bounds:
  "parse_info buf m = Parsed p n \<Longrightarrow> 8 \<le> n \<and> n \<le> length buf \<and> length (Data p) \<le> 52428800"
  "parse_aac buf = Parsed p n \<Longrightarrow> 8 \<le> n \<and> n \<le> length buf \<and> length (Data p) \<le> 52428800"
  "parse_adpcm buf = Parsed p n \<Longrightarrow> 8 \<le> n \<and> n \<le> length buf \<and> length (Data p) \<le> 52428800"
  "parseVideoFrame buf i = Parsed p n \<Longrightarrow> 8 \<le> n \<and> n \<le> length buf \<and> length (Data p) \<le> 52428800"
proof -
  define k where "k = unat (u16_at buf 4)"
  have k: "k < 65536" unfolding k_def by (rule u16_bound)
  show "parse_info buf m = Parsed p n \<Longrightarrow> 8 \<le> n \<and> n \<le> length buf \<and> length (Data p) \<le> 52428800"
    by (auto simp: parse_info_def empty_packet_def split: if_splits)
  show "parse_aac buf = Parsed p n \<Longrightarrow> 8 \<le> n \<and> n \<le> length buf \<and> length (Data p) \<le> 52428800"
    using k length_slice_le [of buf 8 "8 + k"]
    by (auto simp: parse_aac_def Let_def k_def [symmetric] empty_packet_def split: if_splits)
  show "parse_adpcm buf = Parsed p n \<Longrightarrow> 8 \<le> n \<and> n \<le> length buf \<and> length (Data p) \<le> 52428800"
    using k length_slice_le [of buf 12 "12 + nat (int k - 4)"]
    by (auto simp: parse_adpcm_def Let_def k_def [symmetric] empty_packet_def split: if_splits)
  show "parseVideoFrame buf i = Parsed p n \<Longrightarrow> 8 \<le> n \<and> n \<le> length buf \<and> length (Data p) \<le> 52428800"
    by (auto simp: parseVideoFrame_def Let_def empty_packet_def split: if_splits)
qed

lemma parseMediaPacket_bounds:
  "parseMediaPacket buf = Parsed p n \<Longrightarrow> 8 \<le> n \<and> n \<le> length buf \<and> length (Data p) \<le> 52428800"
  by (auto simp only: parseMediaPacket_def Let_def branch_bounds split: if_splits)

text \<open>\<^verbatim>\<open>MediaParser\<close> is its buffer. The loop of \<^verbatim>\<open>Append\<close> ends because a packet takes bytes.\<close>

function media_drain :: "bytes \<Rightarrow> bytes \<times> media_packet list \<times> media_error option" where
  "media_drain buf =
     (case parseMediaPacket buf of
        NeedMore \<Rightarrow> (buf, [], None)
      | Failed e \<Rightarrow> (buf, [], Some e)
      | Parsed p n \<Rightarrow> (case media_drain (drop n buf) of (buf', ps, e) \<Rightarrow> (buf', p # ps, e)))"
  by pat_completeness auto
termination
  by (relation "measure length") (auto dest!: parseMediaPacket_bounds)

declare media_drain.simps [simp del]

definition media_append ::
  "bytes \<Rightarrow> bytes \<Rightarrow> bytes \<times> media_packet list \<times> media_error option" where
  "media_append buf data = media_drain (buf @ data)"

text \<open>More bytes do not change what was decided: every field read lies within the bytes checked.\<close>

lemma parse_adpcm_stable:
  assumes "parse_adpcm buf \<noteq> NeedMore"
  shows "parse_adpcm (buf @ tail) = parse_adpcm buf"
proof -
  define k where "k = unat (u16_at buf 4)"
  have 12: "12 \<le> length buf" using assms by (auto simp: parse_adpcm_def split: if_splits)
  then have at: "u16_at (buf @ tail) 4 = u16_at buf 4" "u16_at (buf @ tail) 8 = u16_at buf 8"
    by (simp_all add: u16_at_prefix)
  have k: "8 + k + padLen k \<le> length buf"
    using assms 12 by (auto simp: parse_adpcm_def Let_def k_def [symmetric] split: if_splits)
  have "slice (buf @ tail) 12 (12 + nat (int k - 4)) = slice buf 12 (12 + nat (int k - 4))"
    if "\<not> int k - 4 < 0"
    using that k by (intro slice_prefix) auto
  then show ?thesis
    unfolding parse_adpcm_def at Let_def k_def [symmetric] using 12 k by simp
qed

lemma parseVideoFrame_stable:
  assumes "parseVideoFrame buf i \<noteq> NeedMore"
  shows "parseVideoFrame (buf @ tail) i = parseVideoFrame buf i"
proof -
  define k h where "k = unat (u32_at buf 8)" and "h = unat (u32_at buf 12)"
  have 24: "24 \<le> length buf" using assms by (auto simp: parseVideoFrame_def split: if_splits)
  then have at: "u32_at (buf @ tail) 8 = u32_at buf 8" "u32_at (buf @ tail) 12 = u32_at buf 12"
    "u32_at (buf @ tail) 16 = u32_at buf 16" "slice (buf @ tail) 4 8 = slice buf 4 8"
    by (simp_all add: u32_at_prefix slice_prefix)
  note unf = parseVideoFrame_def Let_def at k_def [symmetric] h_def [symmetric]
  consider "length buf < 24 + h + k + padLen k" | "24 + h + k + padLen k \<le> length buf" by linarith
  then show ?thesis
  proof cases
    case 1
    then show ?thesis
      using assms 24 unfolding unf by (auto split: if_splits)
  next
    case 2
    then have "slice (buf @ tail) (24 + h) (24 + h + k) = slice buf (24 + h) (24 + h + k)"
      "4 \<le> h \<Longrightarrow> u32_at (buf @ tail) 24 = u32_at buf 24"
      by (simp_all add: slice_prefix u32_at_prefix)
    then show ?thesis using 2 24 unfolding unf by simp
  qed
qed

lemma branch_stable:
  "parse_info buf m \<noteq> NeedMore \<Longrightarrow> parse_info (buf @ tail) m = parse_info buf m"
  "parse_aac buf \<noteq> NeedMore \<Longrightarrow> parse_aac (buf @ tail) = parse_aac buf"
  "parse_adpcm buf \<noteq> NeedMore \<Longrightarrow> parse_adpcm (buf @ tail) = parse_adpcm buf"
  "parseVideoFrame buf i \<noteq> NeedMore \<Longrightarrow> parseVideoFrame (buf @ tail) i = parseVideoFrame buf i"
proof -
  show "parse_info buf m \<noteq> NeedMore \<Longrightarrow> parse_info (buf @ tail) m = parse_info buf m"
    by (auto simp: parse_info_def u32_at_prefix nth_append split: if_splits)
  show "parse_aac buf \<noteq> NeedMore \<Longrightarrow> parse_aac (buf @ tail) = parse_aac buf"
    by (auto simp: parse_aac_def Let_def u16_at_prefix slice_prefix split: if_splits)
qed (rule parse_adpcm_stable, assumption, rule parseVideoFrame_stable, assumption)

lemma five_way_stable:
  assumes "(if c1 then a1 else if c2 then a2 else if c3 then a3 else if c4 then a4
      else if c5 then a5 else a6) \<noteq> N"
    and "a1 \<noteq> N \<Longrightarrow> b1 = a1" "a2 \<noteq> N \<Longrightarrow> b2 = a2" "a3 \<noteq> N \<Longrightarrow> b3 = a3"
    and "a4 \<noteq> N \<Longrightarrow> b4 = a4" "a5 \<noteq> N \<Longrightarrow> b5 = a5" "b6 = a6"
  shows "(if c1 then b1 else if c2 then b2 else if c3 then b3 else if c4 then b4
      else if c5 then b5 else b6) =
    (if c1 then a1 else if c2 then a2 else if c3 then a3 else if c4 then a4
      else if c5 then a5 else a6)"
  using assms by (simp split: if_splits)

lemma parseMediaPacket_stable:
  "parseMediaPacket buf \<noteq> NeedMore \<Longrightarrow> parseMediaPacket (buf @ tail) = parseMediaPacket buf"
proof -
  assume more: "parseMediaPacket buf \<noteq> NeedMore"
  then have 4: "\<not> length buf < 4" by (auto simp: parseMediaPacket_def split: if_splits)
  then have magic: "u32_at (buf @ tail) 0 = u32_at buf 0" by (simp add: u32_at_prefix)
  have more4: "\<not> length (buf @ tail) < 4" using 4 by simp
  show ?thesis
    using more
    unfolding parseMediaPacket_def [of buf] parseMediaPacket_def [of "buf @ tail"] Let_def magic
      if_not_P [OF 4] if_not_P [OF more4]
    by (rule five_way_stable) (erule branch_stable | rule refl)+
qed

interpretation media: incremental_parser parseMediaPacket media_drain
proof unfold_locales
  show "media_drain buf =
     (case parseMediaPacket buf of
        NeedMore \<Rightarrow> (buf, [], None)
      | Failed e \<Rightarrow> (buf, [], Some e)
      | Parsed p n \<Rightarrow> (case media_drain (drop n buf) of (buf', ps, e) \<Rightarrow> (buf', p # ps, e)))" for buf
    by (subst media_drain.simps) (auto split: outcome.split)
next
  show "parseMediaPacket buf = Parsed p n \<Longrightarrow> 0 < n \<and> n \<le> length buf" for buf p n
    using parseMediaPacket_bounds [of buf p n] by auto
qed (simp_all add: parseMediaPacket_stable)

section \<open>Any cutting of the stream gives the same packets\<close>

text \<open>The calls of \<^verbatim>\<open>Append\<close> by the preview reader, which stops at the first error.\<close>

fun media_feed ::
  "bytes \<Rightarrow> bytes list \<Rightarrow> bytes \<times> media_packet list \<times> media_error option" where
  "media_feed buf [] = (buf, [], None)"
| "media_feed buf (data # rest) =
     (case media_append buf data of
        (buf', ps, Some e) \<Rightarrow> (buf', ps, Some e)
      | (buf', ps, None) \<Rightarrow>
          (case media_feed buf' rest of (b, qs, e) \<Rightarrow> (b, ps @ qs, e)))"

lemma media_feed_concat:
  "parseMediaPacket buf = NeedMore \<Longrightarrow> snd (media_feed buf chunks) = snd (media_drain (buf @ concat chunks))"
proof (induction chunks arbitrary: buf)
  case Nil
  then show ?case by (simp add: media.run_unfold [of buf])
next
  case (Cons data rest)
  obtain b ps e where d: "media_drain (buf @ data) = (b, ps, e)" by (metis prod_cases3)
  show ?case
  proof (cases e)
    case None
    have "parseMediaPacket b = NeedMore"
    proof -
      have "media_drain x = (b, ps, None) \<Longrightarrow> parseMediaPacket b = NeedMore" for x ps
      proof (induction x arbitrary: ps rule: media_drain.induct)
        case (1 x)
        then show ?case
          by (subst (asm) (2) media.run_unfold) (auto split: outcome.splits prod.splits)
      qed
      then show ?thesis using d None by blast
    qed
    then have "snd (media_feed b rest) = snd (media_drain (b @ concat rest))" by (rule Cons.IH)
    then show ?thesis
      using media.run_append [of "buf @ data" "concat rest"] d None
      by (auto simp: media_append_def split: prod.splits)
  next
    case (Some x)
    then show ?thesis
      using media.run_append [of "buf @ data" "concat rest"] d by (simp add: media_append_def)
  qed
qed

text \<open>C19: However the byte stream is cut into messages, the parser hands out the same packets and the
  same error as if it had come in one piece.\<close>

theorem media_chunking:
  "snd (media_feed [] chunks) = snd (media_append [] (concat chunks))"
  using media_feed_concat [of "[]" chunks] by (simp add: parseMediaPacket_def media_append_def)

section \<open>The units of the stream\<close>

text \<open>
  What a camera sends: the specification of the format the parser reads. \<open>kind\<close> is the digit
  of the frame magic, \<open>u1\<close>, \<open>u2\<close> are header bytes the parser ignores, and the padding is arbitrary.
\<close>

datatype media_unit =
    VideoUnit bool nat bool u32 bytes bytes bytes bytes
  | AacUnit bool bytes bytes bytes
  | AdpcmUnit bytes bytes bytes bytes
  | InfoUnit bool u32 u32 byte byte bytes

fun unit_bytes :: "media_unit \<Rightarrow> bytes" where
  "unit_bytes (VideoUnit iframe kind h265 ts u1 hdr payload pad) =
     le32 ((if iframe then bcmediaIFrameMin else bcmediaPFrameMin) + word_of_nat kind)
       @ bytes_of (if h265 then ''H265'' else ''H264'') @ le32 (word_of_nat (length payload))
       @ le32 (word_of_nat (length hdr)) @ le32 ts @ u1 @ hdr @ payload @ pad"
| "unit_bytes (AacUnit v2 u1 payload pad) =
     le32 (if v2 then bcmediaAACV2 else bcmediaAAC) @ le16 (word_of_nat (length payload)) @ u1
       @ payload @ pad"
| "unit_bytes (AdpcmUnit u1 u2 block pad) =
     le32 bcmediaADPCM @ le16 (word_of_nat (length block + 4)) @ u1 @ le16 bcmediaADPCMHeader @ u2
       @ block @ pad"
| "unit_bytes (InfoUnit v2 w h u0 fps u1) =
     le32 (if v2 then bcmediaInfoV2 else bcmediaInfoV1) @ le32 32 @ le32 w @ le32 h @ [u0, fps] @ u1"

text \<open>The padding the format asks for, without the formula of the code: the bytes that are missing to a
  multiple of eight.\<close>

definition aligned :: "nat \<Rightarrow> bytes \<Rightarrow> bool" where
  "aligned n pad \<longleftrightarrow> length pad < 8 \<and> 8 dvd n + length pad"

lemma aligned_iff [simp]: "aligned n pad \<longleftrightarrow> length pad = padLen n"
proof -
  define q r where "q = n div 8" and "r = n mod 8"
  have n: "n = 8 * q + r" "r < 8" by (simp_all add: q_def r_def)
  have "8 dvd n + length pad \<longleftrightarrow> 8 dvd r + length pad"
    using dvd_add_right_iff [of 8 "8 * q" "r + length pad"] by (simp add: n(1) add.assoc)
  also have "\<dots> \<longleftrightarrow> length pad = padLen n" if "length pad < 8"
  proof -
    have "8 dvd r + length pad \<longleftrightarrow> r + length pad = 0 \<or> r + length pad = 8" using that n(2) by presburger
    then show ?thesis using that n(2) by (auto simp: padLen_def r_def [symmetric])
  qed
  moreover have "padLen n < 8" by (simp add: padLen_def)
  ultimately show ?thesis by (auto simp: aligned_def)
qed

fun unit_wf :: "media_unit \<Rightarrow> bool" where
  "unit_wf (VideoUnit iframe kind h265 ts u1 hdr payload pad) \<longleftrightarrow>
     kind \<le> 9 \<and> length u1 = 4 \<and> length hdr \<le> 1024 * 1024 \<and> length payload \<le> 50 * 1024 * 1024
     \<and> aligned (length payload) pad"
| "unit_wf (AacUnit v2 u1 payload pad) \<longleftrightarrow>
     length u1 = 2 \<and> length payload < 2 ^ 16 \<and> aligned (length payload) pad"
| "unit_wf (AdpcmUnit u1 u2 block pad) \<longleftrightarrow>
     length u1 = 2 \<and> length u2 = 2 \<and> length block + 4 < 2 ^ 16 \<and> aligned (length block + 4) pad"
| "unit_wf (InfoUnit v2 w h u0 fps u1) \<longleftrightarrow> length u1 = 14"

fun unit_packet :: "media_unit \<Rightarrow> media_packet" where
  "unit_packet (VideoUnit iframe kind h265 ts u1 hdr payload pad) =
     (empty_packet (if iframe then IFrame else PFrame))
       \<lparr>Codec := (if h265 then ''H265'' else ''H264''), Data := payload, TimestampMicrosecs := ts,
        HasTimestamp := True,
        UnixTime := (if iframe \<and> 4 \<le> length hdr then Some (u32_at hdr 0) else None)\<rparr>"
| "unit_packet (AacUnit v2 u1 payload pad) = (empty_packet AAC)\<lparr>Data := payload\<rparr>"
| "unit_packet (AdpcmUnit u1 u2 block pad) = (empty_packet ADPCM)\<lparr>Data := block\<rparr>"
| "unit_packet (InfoUnit v2 w h u0 fps u1) =
     (empty_packet (if v2 then InfoV2 else InfoV1))\<lparr>Width := w, Height := h, FPS := fps\<rparr>"

lemma u32_at_middle: "length p = i \<Longrightarrow> 4 \<le> length x \<Longrightarrow> u32_at (p @ x @ q) i = u32_at x 0"
proof -
  assume "length p = i" "4 \<le> length x"
  then have "(p @ x @ q) ! (i + j) = x ! j" if "j < 4" for j
    using that by (simp add: nth_append)
  from this [of 0] this [of 1] this [of 2] this [of 3] show ?thesis
    by (simp add: u32_at_def numeral_2_eq_2)
qed

lemma video_magic:
  assumes "kind \<le> 9"
  shows "m = bcmediaIFrameMin + word_of_nat kind \<Longrightarrow>
      m \<noteq> bcmediaInfoV1 \<and> m \<noteq> bcmediaInfoV2 \<and> bcmediaIFrameMin \<le> m \<and> m \<le> bcmediaIFrameMax"
    and "m = bcmediaPFrameMin + word_of_nat kind \<Longrightarrow>
      m \<noteq> bcmediaInfoV1 \<and> m \<noteq> bcmediaInfoV2 \<and> \<not> (bcmediaIFrameMin \<le> m \<and> m \<le> bcmediaIFrameMax)
      \<and> bcmediaPFrameMin \<le> m \<and> m \<le> bcmediaPFrameMax"
proof -
  have "kind \<in> {0, 1, 2, 3, 4, 5, 6, 7, 8, 9}" using assms by auto
  then show "m = bcmediaIFrameMin + word_of_nat kind \<Longrightarrow>
      m \<noteq> bcmediaInfoV1 \<and> m \<noteq> bcmediaInfoV2 \<and> bcmediaIFrameMin \<le> m \<and> m \<le> bcmediaIFrameMax"
    and "m = bcmediaPFrameMin + word_of_nat kind \<Longrightarrow>
      m \<noteq> bcmediaInfoV1 \<and> m \<noteq> bcmediaInfoV2 \<and> \<not> (bcmediaIFrameMin \<le> m \<and> m \<le> bcmediaIFrameMax)
      \<and> bcmediaPFrameMin \<le> m \<and> m \<le> bcmediaPFrameMax"
    by (auto simp: media_magic media_branches)
qed

lemma parse_video_unit:
  assumes "unit_wf (VideoUnit iframe kind h265 ts u1 hdr payload pad)"
  defines "u \<equiv> unit_bytes (VideoUnit iframe kind h265 ts u1 hdr payload pad)"
  shows "parseVideoFrame (u @ tail) iframe =
      Parsed (unit_packet (VideoUnit iframe kind h265 ts u1 hdr payload pad)) (length u)"
proof -
  define magic :: u32 where
    "magic = (if iframe then bcmediaIFrameMin else bcmediaPFrameMin) + word_of_nat kind"
  define codec where "codec = (if h265 then ''H265'' else ''H264'')"
  have buf: "u @ tail = le32 magic @ bytes_of codec @ le32 (word_of_nat (length payload))
       @ le32 (word_of_nat (length hdr)) @ le32 ts @ u1 @ hdr @ payload @ pad @ tail"
    by (simp add: u_def magic_def codec_def)
  have lc: "length codec = 4" by (simp add: codec_def)
  have codec: "slice (u @ tail) 4 8 = bytes_of codec"
    unfolding buf by (simp add: slice_def lc)
  have f8: "u32_at (u @ tail) 8 = word_of_nat (length payload)"
    unfolding buf using u32_at_append [of "le32 magic @ bytes_of codec" 8] lc by simp
  have f12: "u32_at (u @ tail) 12 = word_of_nat (length hdr)"
    unfolding buf using u32_at_append [of "le32 magic @ bytes_of codec
      @ le32 (word_of_nat (length payload))" 12] lc by simp
  have f16: "u32_at (u @ tail) 16 = ts"
    unfolding buf using u32_at_append [of "le32 magic @ bytes_of codec
      @ le32 (word_of_nat (length payload)) @ le32 (word_of_nat (length hdr))" 16] lc by simp
  have f24: "u32_at (u @ tail) 24 = u32_at hdr 0" if "4 \<le> length hdr"
    unfolding buf using u32_at_middle [of "le32 magic @ bytes_of codec
      @ le32 (word_of_nat (length payload)) @ le32 (word_of_nat (length hdr)) @ le32 ts @ u1" 24 hdr]
      lc that assms(1) by simp
  have data: "slice (u @ tail) (24 + length hdr) (24 + length hdr + length payload) = payload"
    unfolding buf using slice_append_mid [of "le32 magic @ bytes_of codec
      @ le32 (word_of_nat (length payload)) @ le32 (word_of_nat (length hdr)) @ le32 ts @ u1 @ hdr"
      "24 + length hdr" payload "24 + length hdr + length payload"] lc assms(1) by simp
  have sizes: "unat (word_of_nat (length payload) :: u32) = length payload"
    "unat (word_of_nat (length hdr) :: u32) = length hdr"
    using assms(1) by (simp_all add: unat_of_nat take_bit_nat_eq_self)
  have len: "length u = 24 + length hdr + length payload + padLen (length payload)"
    using assms(1) by (simp add: u_def)
  then have long: "\<not> length (u @ tail) < 24"
    "\<not> length (u @ tail) < 24 + length hdr + length payload + padLen (length payload)" by simp_all
  have known: "codec = ''H264'' \<or> codec = ''H265''" by (simp add: codec_def)
  show ?thesis
    unfolding parseVideoFrame_def codec string_of_bytes_of Let_def f8 f12 f16 sizes data
    using long known assms(1) f24 len by (auto simp: codec_def)
qed

lemma parse_video_dispatch:
  assumes "\<not> length buf < 4" "u32_at buf 0 = m" "m \<noteq> bcmediaInfoV1 \<and> m \<noteq> bcmediaInfoV2"
  shows "bcmediaIFrameMin \<le> m \<and> m \<le> bcmediaIFrameMax \<Longrightarrow>
      parseMediaPacket buf = parseVideoFrame buf True"
    and "\<not> (bcmediaIFrameMin \<le> m \<and> m \<le> bcmediaIFrameMax) \<Longrightarrow>
      bcmediaPFrameMin \<le> m \<and> m \<le> bcmediaPFrameMax \<Longrightarrow>
      parseMediaPacket buf = parseVideoFrame buf False"
  using assms by (simp_all only: parseMediaPacket_def Let_def if_False if_True simp_thms)

lemma parse_dispatch:
  assumes "\<not> length buf < 4" "u32_at buf 0 = m"
  shows "m = bcmediaAAC \<or> m = bcmediaAACV2 \<Longrightarrow> parseMediaPacket buf = parse_aac buf"
    and "m = bcmediaADPCM \<Longrightarrow> parseMediaPacket buf = parse_adpcm buf"
    and "m = bcmediaInfoV1 \<or> m = bcmediaInfoV2 \<Longrightarrow> parseMediaPacket buf = parse_info buf m"
proof -
  show "m = bcmediaAAC \<or> m = bcmediaAACV2 \<Longrightarrow> parseMediaPacket buf = parse_aac buf"
    using assms by (elim disjE; simp add: parseMediaPacket_def Let_def media_magic)
  show "m = bcmediaADPCM \<Longrightarrow> parseMediaPacket buf = parse_adpcm buf"
    using assms by (simp add: parseMediaPacket_def Let_def media_magic)
  show "m = bcmediaInfoV1 \<or> m = bcmediaInfoV2 \<Longrightarrow> parseMediaPacket buf = parse_info buf m"
    using assms by (simp add: parseMediaPacket_def)
qed

lemma parse_unit_video:
  assumes "unit_wf u" and VideoUnit: "u = VideoUnit iframe kind h265 ts u1 hdr payload pad"
  shows "parseMediaPacket (unit_bytes u @ tail) = Parsed (unit_packet u) (length (unit_bytes u))"
proof -
  define m :: u32 where
    "m = (if iframe then bcmediaIFrameMin else bcmediaPFrameMin) + word_of_nat kind"
  have f0: "u32_at (unit_bytes u @ tail) 0 = m"
    using u32_at_append [of "[]" 0 m] by (simp add: VideoUnit m_def)
  have len: "\<not> length (unit_bytes u @ tail) < 4" by (simp add: VideoUnit)
  have kind: "kind \<le> 9" using assms VideoUnit by simp
  have "parseMediaPacket (unit_bytes u @ tail) = parseVideoFrame (unit_bytes u @ tail) iframe"
  proof (cases iframe)
    case True
    then show ?thesis
      using video_magic(1) [OF kind, of m] parse_video_dispatch(1) [OF len f0] by (simp add: m_def)
  next
    case False
    then show ?thesis
      using video_magic(2) [OF kind, of m] parse_video_dispatch(2) [OF len f0] by (simp add: m_def)
  qed
  then show ?thesis
    using parse_video_unit [of iframe kind h265 ts u1 hdr payload pad tail] assms VideoUnit by simp
qed

lemma parse_unit_aac:
  assumes "unit_wf u" and AacUnit: "u = AacUnit v2 u1 payload pad"
  shows "parseMediaPacket (unit_bytes u @ tail) = Parsed (unit_packet u) (length (unit_bytes u))"
proof -
  define m :: u32 where "m = (if v2 then bcmediaAACV2 else bcmediaAAC)"
  have buf: "unit_bytes u @ tail = le32 m @ le16 (word_of_nat (length payload)) @ u1 @ payload @ pad @ tail"
    by (simp add: AacUnit m_def)
  have f0: "u32_at (unit_bytes u @ tail) 0 = m"
    unfolding buf using u32_at_append [of "[]" 0 m] by simp
  have f4: "u16_at (unit_bytes u @ tail) 4 = word_of_nat (length payload)"
    unfolding buf using u16_at_append [of "le32 m" 4] by simp
  have data: "slice (unit_bytes u @ tail) 8 (8 + length payload) = payload"
    unfolding buf using slice_append_mid [of "le32 m @ le16 (word_of_nat (length payload)) @ u1" 8 payload
      "8 + length payload"] assms AacUnit by simp
  have sz: "unat (word_of_nat (length payload) :: u16) = length payload"
    using assms AacUnit by (simp add: unat_of_nat take_bit_nat_eq_self)
  have len: "length (unit_bytes u) = 8 + length payload + padLen (length payload)"
    using assms AacUnit by simp
  have "parseMediaPacket (unit_bytes u @ tail) = parse_aac (unit_bytes u @ tail)"
    by (rule parse_dispatch(1) [OF _ f0]) (auto simp: len m_def)
  also have "\<dots> = Parsed (unit_packet u) (length (unit_bytes u))"
    unfolding parse_aac_def Let_def f4 sz data
    using len by (simp add: AacUnit)
  finally show ?thesis .
qed

lemma parse_unit_adpcm:
  assumes "unit_wf u" and AdpcmUnit: "u = AdpcmUnit u1 u2 block pad"
  shows "parseMediaPacket (unit_bytes u @ tail) = Parsed (unit_packet u) (length (unit_bytes u))"
proof -
  have buf: "unit_bytes u @ tail = le32 bcmediaADPCM @ le16 (word_of_nat (length block + 4)) @ u1
      @ le16 bcmediaADPCMHeader @ u2 @ block @ pad @ tail"
    by (simp add: AdpcmUnit)
  have f0: "u32_at (unit_bytes u @ tail) 0 = bcmediaADPCM"
    unfolding buf using u32_at_append [of "[]" 0] by simp
  have f4: "u16_at (unit_bytes u @ tail) 4 = word_of_nat (length block + 4)"
    unfolding buf using u16_at_append [of "le32 bcmediaADPCM" 4] by simp
  have f8: "u16_at (unit_bytes u @ tail) 8 = bcmediaADPCMHeader"
    unfolding buf using u16_at_append [of "le32 bcmediaADPCM
      @ le16 (word_of_nat (length block + 4)) @ u1" 8] assms AdpcmUnit by simp
  have data: "slice (unit_bytes u @ tail) 12 (12 + length block) = block"
    unfolding buf using slice_append_mid [of "le32 bcmediaADPCM @ le16 (word_of_nat (length block + 4))
      @ u1 @ le16 bcmediaADPCMHeader @ u2" 12 block "12 + length block"] assms AdpcmUnit by simp
  have sz: "unat (word_of_nat (length block + 4) :: u16) = length block + 4"
    using assms AdpcmUnit by (simp add: unat_of_nat take_bit_nat_eq_self del: of_nat_add)
  have len: "length (unit_bytes u) = 8 + (length block + 4) + padLen (length block + 4)"
    using assms AdpcmUnit by simp
  have block: "nat (int (length block + 4) - 4) = length block" "\<not> int (length block + 4) - 4 < 0"
    by simp_all
  have "parseMediaPacket (unit_bytes u @ tail) = parse_adpcm (unit_bytes u @ tail)"
    by (rule parse_dispatch(2) [OF _ f0]) (auto simp: len)
  also have "\<dots> = Parsed (unit_packet u) (length (unit_bytes u))"
    unfolding parse_adpcm_def Let_def f4 f8 sz block data
    using len block(2) by (simp add: AdpcmUnit)
  finally show ?thesis .
qed

lemma parse_unit_info:
  assumes "unit_wf u" and InfoUnit: "u = InfoUnit v2 w h u0 fps u1"
  shows "parseMediaPacket (unit_bytes u @ tail) = Parsed (unit_packet u) (length (unit_bytes u))"
proof -
  define m :: u32 where "m = (if v2 then bcmediaInfoV2 else bcmediaInfoV1)"
  have buf: "unit_bytes u @ tail = le32 m @ le32 32 @ le32 w @ le32 h @ [u0, fps] @ u1 @ tail"
    by (simp add: InfoUnit m_def)
  have f: "u32_at (unit_bytes u @ tail) 0 = m" "u32_at (unit_bytes u @ tail) 4 = 32"
    "u32_at (unit_bytes u @ tail) 8 = w" "u32_at (unit_bytes u @ tail) 12 = h"
    "(unit_bytes u @ tail) ! 17 = fps"
    unfolding buf
    using u32_at_append [of "[]" 0 m] u32_at_append [of "le32 m" 4] u32_at_append [of "le32 m @ le32 32" 8]
      u32_at_append [of "le32 m @ le32 32 @ le32 w" 12]
    by (simp_all add: nth_append)
  have len: "length (unit_bytes u) = 32" using assms InfoUnit by simp
  have "parseMediaPacket (unit_bytes u @ tail) = parse_info (unit_bytes u @ tail) m"
    by (rule parse_dispatch(3) [OF _ f(1)]) (auto simp: len m_def)
  also have "\<dots> = Parsed (unit_packet u) (length (unit_bytes u))"
    unfolding parse_info_def f
    using len by (simp add: InfoUnit m_def media_magic)
  finally show ?thesis .
qed

lemma parse_unit:
  assumes "unit_wf u"
  shows "parseMediaPacket (unit_bytes u @ tail) = Parsed (unit_packet u) (length (unit_bytes u))"
  by (cases u) (elim parse_unit_video [OF assms] parse_unit_aac [OF assms] parse_unit_adpcm [OF assms] parse_unit_info [OF assms])+

lemma drain_units: "list_all unit_wf us \<Longrightarrow>
  media_drain (concat (map unit_bytes us)) = ([], map unit_packet us, None)"
proof (induction us)
  case Nil
  then show ?case by (simp add: media.run_unfold [of "[]"] parseMediaPacket_def)
next
  case (Cons u us)
  then show ?case
    using media.run_Parsed [OF parse_unit [of u "concat (map unit_bytes us)"]] by simp
qed

text \<open>C5: A stream of well-formed units - video frames of both codecs, AAC, ADPCM and stream
  information, whatever their headers and padding hold - cut into messages in any way is parsed
  into exactly its packets: the codec, the payload, the timestamp and the wall-clock time of each,
  with nothing left over and no error.\<close>

theorem media_units_parsed:
  assumes "list_all unit_wf us" "concat chunks = concat (map unit_bytes us)"
  shows "snd (media_feed [] chunks) = (map unit_packet us, None)"
  using media_feed_concat [of "[]" chunks] drain_units [OF assms(1)] assms(2)
  by (simp add: parseMediaPacket_def)

theorem media_units_parsed_witness:
  "snd (media_feed [] [take 5 (unit_bytes (AacUnit False [0, 0] [1, 2, 3] [0, 0, 0, 0, 0])),
      drop 5 (unit_bytes (AacUnit False [0, 0] [1, 2, 3] [0, 0, 0, 0, 0]))])
    = ([(empty_packet AAC)\<lparr>Data := [1, 2, 3]\<rparr>], None)"
  using media_units_parsed [of "[AacUnit False [0, 0] [1, 2, 3] [0, 0, 0, 0, 0]]"
      "[take 5 (unit_bytes (AacUnit False [0, 0] [1, 2, 3] [0, 0, 0, 0, 0])),
        drop 5 (unit_bytes (AacUnit False [0, 0] [1, 2, 3] [0, 0, 0, 0, 0]))]"]
  by (simp add: padLen_def del: unit_bytes.simps)

text \<open>Garbage does not hang the parser: on every buffer \<^verbatim>\<open>Append\<close> returns, each packet takes at least
  eight bytes of the stream, and no packet's payload is longer than 50 MiB.\<close>

theorem media_append_progress:
  assumes "media_append buf data = (buf', ps, e)"
  shows "8 * length ps + length buf' \<le> length buf + length data
    \<and> (\<forall>p \<in> set ps. length (Data p) \<le> 50 * 1024 * 1024)"
proof -
  have "media_drain x = (b, ps, e) \<Longrightarrow> 8 * length ps + length b \<le> length x
      \<and> (\<forall>p \<in> set ps. length (Data p) \<le> 50 * 1024 * 1024)" for x b ps e
  proof (induction x arbitrary: b ps e rule: media_drain.induct)
    case (1 x)
    show ?case
    proof (cases "parseMediaPacket x")
      case (Parsed p n)
      obtain c qs f where r: "media_drain (drop n x) = (c, qs, f)" by (metis prod_cases3)
      then have "ps = p # qs" "b = c"
        using "1.prems" Parsed by (simp_all add: media.run_unfold [of x])
      then show ?thesis
        using "1.IH" [OF Parsed r] parseMediaPacket_bounds [OF Parsed] by auto
    qed (use "1.prems" in \<open>simp_all add: media.run_unfold [of x]\<close>)
  qed
  then show ?thesis using assms unfolding media_append_def by (metis length_append)
qed

theorem media_append_progress_witness:
  "8 * length (fst (snd (media_append [] [1, 2, 3]))) + length (fst (media_append [] [1, 2, 3])) \<le> 3"
  using media_append_progress [of "[]" "[1, 2, 3]" "fst (media_append [] [1, 2, 3])"
      "fst (snd (media_append [] [1, 2, 3]))" "snd (snd (media_append [] [1, 2, 3]))"]
  by simp

text \<open>C33: The size check of the parser's ADPCM branch is not enough: an ADPCM unit that announces a
  payload of fewer than four bytes and carries the marker makes the slice bounds negative.\<close>

theorem short_adpcm_panics:
  assumes "n < 4" "length u1 = 2" "length pad = 8"
  shows "parseMediaPacket (le32 bcmediaADPCM @ le16 (word_of_nat n) @ u1 @ le16 bcmediaADPCMHeader @ pad)
    = Failed SlicePanic"
proof -
  define buf where
    "buf = le32 bcmediaADPCM @ le16 (word_of_nat n) @ u1 @ le16 bcmediaADPCMHeader @ pad"
  have "u32_at buf 0 = bcmediaADPCM" "u16_at buf 4 = word_of_nat n" "u16_at buf 8 = bcmediaADPCMHeader"
    unfolding buf_def
    using u32_at_append [of "[]" 0] u16_at_append [of "le32 bcmediaADPCM" 4]
      u16_at_append [of "le32 bcmediaADPCM @ le16 (word_of_nat n) @ u1" 8] assms(2)
    by simp_all
  moreover have "unat (word_of_nat n :: u16) = n" "padLen n \<le> 8" "n + padLen n \<le> 8"
    using assms(1) by (auto simp: unat_of_nat take_bit_nat_eq_self padLen_def)
  moreover have "length buf = 18" by (simp add: buf_def assms)
  ultimately show ?thesis
    using assms(1) unfolding buf_def [symmetric]
    by (simp add: parseMediaPacket_def Let_def media_magic media_branches)
qed

theorem short_adpcm_panics_witness:
  "parseMediaPacket (le32 bcmediaADPCM @ le16 0 @ [0, 0] @ le16 bcmediaADPCMHeader @ replicate 8 0)
    = Failed SlicePanic"
  using short_adpcm_panics [of 0 "[0, 0]" "replicate 8 0"] by simp

end
