(* ===== verification/Registry.thy ===== *)
theory Registry
  imports Prelude
begin

text \<open>
  The interface of the tables the program keeps under a key: subscriptions by message id, camera
  streams and talkback paths by URL path, webhook tokens, cameras by name. Each component that
  owns such a table interprets the locale with its own operations.
\<close>

locale keyed_registry =
  fixes get :: "'s \<Rightarrow> 'k \<Rightarrow> 'v option"
    and put :: "'k \<Rightarrow> 'v \<Rightarrow> 's \<Rightarrow> 's"
    and del :: "'k \<Rightarrow> 's \<Rightarrow> 's"
  assumes get_put: "get (put k v s) k' = (if k' = k then Some v else get s k')"
    and get_del: "get (del k s) k' = (if k' = k then None else get s k')"
begin

lemma get_put_other: "k' \<noteq> k \<Longrightarrow> get (put k v s) k' = get s k'"
  by (simp add: get_put)

lemma put_del: "get (del k (put k v s)) = get (del k s)"
  by (simp add: fun_eq_iff get_del get_put)

lemma del_unused: "get s k = None \<Longrightarrow> get (del k s) = get s"
  by (auto simp: fun_eq_iff get_del)

lemma dom_put: "dom (get (put k v s)) = insert k (dom (get s))"
  by (auto simp: dom_def get_put)

lemma dom_del: "dom (get (del k s)) = dom (get s) - {k}"
  by (auto simp: dom_def get_del)

text \<open>A batch of entries under distinct keys is found complete, and taken out again without a trace.\<close>

lemma get_put_all:
  "distinct (map fst kvs) \<Longrightarrow>
   get (fold (\<lambda>(k, v). put k v) kvs s) k' =
     (case map_of kvs k' of None \<Rightarrow> get s k' | Some v \<Rightarrow> Some v)"
proof (induction kvs arbitrary: s)
  case (Cons kv kvs)
  obtain k v where "kv = (k, v)" by (cases kv)
  moreover from this Cons.prems have "map_of kvs k = None"
    by (simp add: map_of_eq_None_iff)
  ultimately show ?case
    using Cons by (auto simp: get_put split: option.split)
qed simp

lemma get_del_all: "get (fold del ks s) k' = (if k' \<in> set ks then None else get s k')"
  by (induction ks arbitrary: s) (auto simp: get_del)

lemma put_all_del_all:
  assumes "distinct (map fst kvs)"
  shows "get (fold del (map fst kvs) (fold (\<lambda>(k, v). put k v) kvs s)) k' =
    (if k' \<in> fst ` set kvs then None else get s k')"
proof -
  have "k' \<notin> fst ` set kvs \<Longrightarrow> map_of kvs k' = None" by (simp add: map_of_eq_None_iff)
  then show ?thesis by (simp add: get_del_all get_put_all [OF assms])
qed

end

end
