(* ===== verification/Client.thy ===== *)
theory Client
  imports Wire MediaParser Latch Registry "HOL-Library.Sublist"
begin

text \<open>
  The Baichuan client (\<^verbatim>\<open>pkg/baichuan/client.go\<close>, the login documents of \<^verbatim>\<open>xml.go\<close>): the fan-out
  of received messages to the request that waits for them and to the subscribers, the login
  exchange, the keepalive and idle timers, the choice of the transport and the preview reader.
  The camera and the transport are the parameter \<open>env\<close>: given a request with its number and the
  client, the reply (or the error) and the client as the read loop left it. Channels of the
  code are bounded lists.
\<close>

section \<open>State\<close>

record subscription =
  ch :: "message list"
  dropped :: nat

datatype client_error =
    StatusError u32 u16 | AccountDeviceError | RequestNonce client_error | ParseNonce
  | LocalLoginDenied client_error | LoginFailed client_error | TransportError | Canceled
  | DeadlineExceeded | ErrIdle | UidSilent | PingFailed client_error | ReadError read_error
  | NoHostOrUid | DialError client_error client_error | XmlError

record login_device_info =
  diType :: string
  diTypeInfo :: string
  diChannelNum :: int
  diAnalogChnNum :: int

definition no_device_info :: login_device_info where
  "no_device_info = \<lparr>diType = [], diTypeInfo = [], diChannelNum = 0, diAnalogChnNum = 0\<rparr>"

record config =
  Host :: string
  Port :: int
  UID :: string
  Username :: string
  Password :: string
  Timeout :: int
  PreferUID :: bool
  LowPower :: bool

text \<open>
  \<open>pending\<close> maps a waiting request to the content of its one-place channel; \<open>subs\<close> maps a
  message id to its listeners, which are numbered in the order of their creation.
\<close>

record client =
  cfg :: config
  isUDP :: bool
  wire :: wire_client
  msgNum :: u16
  loginInfo :: login_device_info
  loggedIn :: bool
  pending :: "(u32 \<times> u16) \<Rightarrow> message option option"
  subs :: "u32 \<Rightarrow> (nat \<Rightarrow> subscription option) option"
  nextSub :: nat
  keepAliveStarted :: bool
  closeErr :: "client_error option"

definition client_shutdown :: "client_error \<Rightarrow> client \<Rightarrow> client" where
  "client_shutdown err c = c\<lparr>closeErr := closeState_set err (closeErr c)\<rparr>"

interpretation client_end: error_latch closeErr client_shutdown
  by unfold_locales (simp add: client_shutdown_def closeState_set_def split: option.splits)

definition client_close :: "client \<Rightarrow> client" where
  "client_close c = client_shutdown Canceled c"

section \<open>Subscriptions and dispatch\<close>

definition listener :: "client \<Rightarrow> u32 \<times> nat \<Rightarrow> subscription option" where
  "listener c k = (case subs c (fst k) of None \<Rightarrow> None | Some m \<Rightarrow> m (snd k))"

definition subscribe :: "u32 \<Rightarrow> client \<Rightarrow> nat \<times> client" where
  "subscribe msgID c =
     (let i = nextSub c;
          m = (case subs c msgID of None \<Rightarrow> Map.empty | Some m \<Rightarrow> m)
      in (i, c\<lparr>subs := (subs c)(msgID := Some (m(i := Some \<lparr>ch = [], dropped = 0\<rparr>))),
               nextSub := i + 1\<rparr>))"

definition unsubscribe :: "u32 \<Rightarrow> nat \<Rightarrow> client \<Rightarrow> client" where
  "unsubscribe msgID i c =
     (case subs c msgID of
        None \<Rightarrow> c
      | Some m \<Rightarrow>
          let m' = m(i := None)
          in c\<lparr>subs := (subs c)(msgID := if m' = Map.empty then None else Some m')\<rparr>)"

text \<open>The table of listeners as a keyed registry: the key is the message id with the number.\<close>

definition put_listener :: "u32 \<times> nat \<Rightarrow> subscription \<Rightarrow> client \<Rightarrow> client" where
  "put_listener k sub c =
     (let m = (case subs c (fst k) of None \<Rightarrow> Map.empty | Some m \<Rightarrow> m)
      in c\<lparr>subs := (subs c)(fst k := Some (m(snd k := Some sub)))\<rparr>)"

definition del_listener :: "u32 \<times> nat \<Rightarrow> client \<Rightarrow> client" where
  "del_listener k c = unsubscribe (fst k) (snd k) c"

interpretation listeners: keyed_registry listener put_listener del_listener
proof unfold_locales
  fix c :: client and k k' :: "u32 \<times> nat" and v
  show "listener (put_listener k v c) k' = (if k' = k then Some v else listener c k')"
    by (cases k; cases k') (auto simp: listener_def put_listener_def Let_def split: option.splits)
  show "listener (del_listener k c) k' = (if k' = k then None else listener c k')"
    by (cases k; cases k')
      (auto simp: listener_def del_listener_def unsubscribe_def Let_def fun_eq_iff
        split: option.splits)
qed

text \<open>Delivery to one listener: the channel holds 256 messages, what does not fit is counted.\<close>

definition offer :: "message \<Rightarrow> subscription \<Rightarrow> subscription" where
  "offer msg sub =
     (if length (ch sub) < 256 then sub\<lparr>ch := ch sub @ [msg]\<rparr>
      else sub\<lparr>dropped := dropped sub + 1\<rparr>)"

definition dispatch :: "message \<Rightarrow> client \<Rightarrow> client" where
  "dispatch msg c =
     (let key = (MsgID (Header msg), MsgNum (Header msg));
          c1 = (case pending c key of
                  Some None \<Rightarrow> c\<lparr>pending := (pending c)(key := Some (Some msg))\<rparr>
                | _ \<Rightarrow> c)
      in c1\<lparr>subs := (subs c1)(MsgID (Header msg) :=
              map_option (\<lambda>m. \<lambda>i. map_option (offer msg) (m i)) (subs c1 (MsgID (Header msg))))\<rparr>)"

text \<open>A consumer takes the next message of its channel.\<close>

definition take_message :: "u32 \<times> nat \<Rightarrow> client \<Rightarrow> message option \<times> client" where
  "take_message k c =
     (case listener c k of
        Some sub \<Rightarrow>
          (case ch sub of
             [] \<Rightarrow> (None, c)
           | m # ms \<Rightarrow> (Some m, put_listener k (sub\<lparr>ch := ms\<rparr>) c))
      | None \<Rightarrow> (None, c))"

section \<open>The read loop\<close>

definition msgIDUDPKeepAlive :: u32 where "msgIDUDPKeepAlive = 234"
definition channelIDHost :: byte where "channelIDHost = 250"

definition answerKeepAlive :: "header \<Rightarrow> request" where
  "answerKeepAlive h =
     \<lparr>rMsgID = msgIDUDPKeepAlive, rChannelID = ChannelID h, rStreamType = StreamType h,
      rClass = classModernWithOffset, rMsgNum = MsgNum h, rResponseCode = 200,
      rExtension = [], rBody = [], rBinary = False, rForceBC = False\<rparr>"

text \<open>One round: the bytes left, the client, and the bytes of the answer to a camera's keepalive.\<close>

definition read_step ::
  "block_function \<Rightarrow> xml_parser \<Rightarrow> int \<Rightarrow> client \<Rightarrow> bytes \<Rightarrow> client \<times> bytes \<times> bytes" where
  "read_step E parser now c input =
     (if closeErr c \<noteq> None then (c, input, [])
      else case readMessage E parser now (wire c) input of
        Inl e \<Rightarrow> (client_shutdown (ReadError e) c, input, [])
      | Inr (msg, w, rest) \<Rightarrow>
          let c1 = c\<lparr>wire := w\<rparr>
          in if isUDP c1 \<and> MsgID (Header msg) = msgIDUDPKeepAlive
             then (c1, rest, encodeRequest E (wire c1) (answerKeepAlive (Header msg)))
             else (dispatch msg c1, rest, []))"

section \<open>Requests\<close>

definition reserveMessageNumber :: "client \<Rightarrow> u16 \<times> client" where
  "reserveMessageNumber c = (msgNum c, c\<lparr>msgNum := msgNum c + 1\<rparr>)"

text \<open>
  The bookkeeping of one request: registered before it is written, taken out when the round
  trip is over. \<open>roundtrip_result\<close> is the \<^verbatim>\<open>select\<close>, \<open>None\<close> while none of its cases is ready; when
  several are, Go picks one, and \<open>pick\<close> says which it tries first.
\<close>

definition roundtrip_begin :: "u32 \<times> u16 \<Rightarrow> client \<Rightarrow> client" where
  "roundtrip_begin key c = c\<lparr>pending := (pending c)(key := Some None)\<rparr>"

definition roundtrip_end :: "u32 \<times> u16 \<Rightarrow> client \<Rightarrow> client" where
  "roundtrip_end key c = c\<lparr>pending := (pending c)(key := None)\<rparr>"

datatype ready = ReplyReady | ClosedReady | CtxReady

fun ready_result :: "u32 \<times> u16 \<Rightarrow> client_error option \<Rightarrow> client \<Rightarrow> ready \<Rightarrow>
  (client_error + message) option" where
  "ready_result key ctx c ReplyReady =
     (case pending c key of Some (Some m) \<Rightarrow> Some (Inr m) | _ \<Rightarrow> None)"
| "ready_result key ctx c ClosedReady = map_option Inl (closeErr c)"
| "ready_result key ctx c CtxReady = map_option Inl ctx"

definition roundtrip_result :: "ready list \<Rightarrow> u32 \<times> u16 \<Rightarrow> client_error option \<Rightarrow> client \<Rightarrow>
  (client_error + message) option" where
  "roundtrip_result pick key ctx c =
     (case List.map_filter (ready_result key ctx c) pick of [] \<Rightarrow> None | r # rs \<Rightarrow> Some r)"

type_synonym env = "request \<Rightarrow> client \<Rightarrow> (client_error + message) \<times> client"

definition roundTripRequest :: "env \<Rightarrow> request \<Rightarrow> client \<Rightarrow> (client_error + message) \<times> client" where
  "roundTripRequest env req c =
     (let (n, c1) = reserveMessageNumber c in env (req\<lparr>rMsgNum := n\<rparr>) c1)"

definition sendRequest :: "env \<Rightarrow> request \<Rightarrow> client \<Rightarrow> (client_error + message) \<times> client" where
  "sendRequest env req c =
     (case roundTripRequest env req c of
        (Inl e, c') \<Rightarrow> (Inl e, c')
      | (Inr m, c') \<Rightarrow>
          (case message_success m of
             None \<Rightarrow> (Inr m, c')
           | Some (i, code) \<Rightarrow> (Inl (StatusError i code), c')))"

definition base_request :: "u32 \<Rightarrow> byte \<Rightarrow> request" where
  "base_request i channel =
     \<lparr>rMsgID = i, rChannelID = channel, rStreamType = 0, rClass = classModernWithOffset, rMsgNum = 0,
      rResponseCode = 0, rExtension = [], rBody = [], rBinary = False, rForceBC = False\<rparr>"

section \<open>Login\<close>

text \<open>\<^verbatim>\<open>xmlElementText\<close> walks the tokens of a document, up to the first syntax error.\<close>

datatype xml_token = StartTok string | EndTok | CharTok string

type_synonym xml_tokens = "string \<Rightarrow> xml_token list"

text \<open>The text directly inside the element that was opened, \<open>None\<close> if it is never closed.\<close>

fun element_chars :: "nat \<Rightarrow> xml_token list \<Rightarrow> string option" where
  "element_chars depth [] = None"
| "element_chars depth (StartTok n # ts) = element_chars (Suc depth) ts"
| "element_chars depth (EndTok # ts) =
     (case depth of 0 \<Rightarrow> Some [] | Suc d \<Rightarrow> element_chars d ts)"
| "element_chars depth (CharTok s # ts) =
     map_option (\<lambda>t. if depth = 0 then s @ t else t) (element_chars depth ts)"

fun first_element :: "xml_token list \<Rightarrow> string \<Rightarrow> string" where
  "first_element [] name = []"
| "first_element (StartTok n # ts) name =
     (if n = name then (case element_chars 0 ts of None \<Rightarrow> [] | Some s \<Rightarrow> s)
      else first_element ts name)"
| "first_element (t # ts) name = first_element ts name"

definition xmlElementText :: "xml_tokens \<Rightarrow> string \<Rightarrow> string \<Rightarrow> string" where
  "xmlElementText tokens xmlText name = first_element (tokens xmlText) name"

definition parseNonce :: "xml_parser \<Rightarrow> string \<Rightarrow> string option" where
  "parseNonce parser xmlText =
     do { doc \<leftarrow> parser xmlText; ks \<leftarrow> root_kids ''body'' doc;
          enc \<leftarrow> struct_field ''Encryption'' ks;
          let nonce = str_field ''nonce'' enc;
          if nonce = [] then None else Some nonce }"

definition IsNVR :: "login_device_info \<Rightarrow> bool" where
  "IsNVR i \<longleftrightarrow> diType i \<in> {''nvr'', ''wifi_nvr'', ''homehub''}
     \<or> diTypeInfo i \<in> {''NVR'', ''WIFI_NVR'', ''HOMEHUB''}"

definition IsDualLens :: "login_device_info \<Rightarrow> bool" where
  "IsDualLens i \<longleftrightarrow> \<not> IsNVR i \<and> 0 < diAnalogChnNum i \<and> diAnalogChnNum i < diChannelNum i"

definition parseLoginDeviceInfo :: "xml_parser \<Rightarrow> string \<Rightarrow> login_device_info" where
  "parseLoginDeviceInfo parser xmlText =
     (case do { doc \<leftarrow> parser xmlText; ks \<leftarrow> any_root_kids doc; d \<leftarrow> struct_field ''DeviceInfo'' ks;
                n \<leftarrow> int_field 64 ''channelNum'' d; a \<leftarrow> int_field 64 ''analogChnNum'' d;
                Some \<lparr>diType = str_field ''type'' d, diTypeInfo = str_field ''typeInfo'' d,
                      diChannelNum = n, diAnalogChnNum = a\<rparr> } of
        None \<Rightarrow> no_device_info
      | Some i \<Rightarrow> i)"

definition buildLoginXML :: "string \<Rightarrow> string \<Rightarrow> bytes" where
  "buildLoginXML userHash passwordHash =
     marshalXMLDocument (Elem ''body'' []
       [Elem ''LoginUser'' [(''version'', ''1.1'')]
          [field ''userName'' userHash, field ''password'' passwordHash, num_field ''userVer'' 1],
        Elem ''LoginNet'' [(''version'', ''1.1'')]
          [field ''type'' ''LAN'', num_field ''udpPort'' 0]])"

definition loginError :: "client_error \<Rightarrow> bool \<Rightarrow> client_error" where
  "loginError err sigV3 =
     (case err of
        StatusError i code \<Rightarrow>
          if code \<noteq> 401 then
            (if sigV3 then AccountDeviceError
             else if code = 406 then LocalLoginDenied err else LoginFailed err)
          else LoginFailed err
      | _ \<Rightarrow> LoginFailed err)"

definition StartKeepAlive :: "client \<Rightarrow> client" where
  "StartKeepAlive c = c\<lparr>keepAliveStarted := True\<rparr>"

definition nonce_request :: request where
  "nonce_request = (base_request msgIDLogin channelIDHost)\<lparr>rClass := classLegacy, rForceBC := True\<rparr>"

definition login_request :: "bytes \<Rightarrow> bool \<Rightarrow> request" where
  "login_request body forceBC =
     (base_request msgIDLogin channelIDHost)\<lparr>rBody := body, rForceBC := forceBC\<rparr>"

text \<open>The end of \<^verbatim>\<open>Login\<close>, with the camera's acceptance.\<close>

definition login_finish :: "xml_parser \<Rightarrow> message \<Rightarrow> client \<Rightarrow> client" where
  "login_finish parser resp c =
     (let c1 = c\<lparr>loginInfo := parseLoginDeviceInfo parser (XML resp)\<rparr>;
          w = wire c1;
          c2 = (if \<not> negotiated w \<and> hasAESKey (cipher w)
                then c1\<lparr>wire := w\<lparr>cipher := (cipher w)\<lparr>mode := EncryptionAES\<rparr>\<rparr>\<rparr> else c1);
          c3 = c2\<lparr>loggedIn := True\<rparr>
      in if \<not> LowPower (cfg c3) then StartKeepAlive c3 else c3)"

text \<open>The second half of \<^verbatim>\<open>Login\<close>, once the nonce is known; the key is derived from it.\<close>

definition login_with_nonce ::
  "digest \<Rightarrow> xml_parser \<Rightarrow> env \<Rightarrow> bool \<Rightarrow> string \<Rightarrow> bytes \<Rightarrow> client \<Rightarrow> client_error option \<times> client" where
  "login_with_nonce md5 parser env sigV3 nonce key c =
     (let w = wire c;
          c1 = c\<lparr>wire := w\<lparr>cipher := (cipher w)\<lparr>aesKey := key, hasAESKey := True\<rparr>\<rparr>\<rparr>;
          loginPlain = (negotiated (wire c1) \<and> mode (cipher (wire c1)) = EncryptionNone);
          loginXML = buildLoginXML (MD5Modern md5 (Username (cfg c1) @ nonce))
                       (MD5Modern md5 (Password (cfg c1) @ nonce))
      in case sendRequest env (login_request loginXML (\<not> loginPlain)) c1 of
           (Inl e, c2) \<Rightarrow> (Some (loginError e sigV3), c2)
         | (Inr resp, c2) \<Rightarrow> (None, login_finish parser resp c2))"

text \<open>\<^verbatim>\<open>Login\<close>; the outer \<open>None\<close> is the panic of \<^verbatim>\<open>DeriveAESKey\<close> on a short digest.\<close>

definition Login ::
  "digest \<Rightarrow> xml_parser \<Rightarrow> xml_tokens \<Rightarrow> env \<Rightarrow> client \<Rightarrow> (client_error option \<times> client) option" where
  "Login md5 parser tokens env c =
     (if loggedIn c then Some (None, c)
      else case sendRequest env nonce_request c of
        (Inl e, c1) \<Rightarrow> Some (Some (RequestNonce e), c1)
      | (Inr resp, c1) \<Rightarrow>
          let sigV3 = (xmlElementText tokens (XML resp) ''sigVer'' = ''v3'')
          in (case parseNonce parser (XML resp) of
                None \<Rightarrow> Some (Some (if sigV3 then AccountDeviceError else ParseNonce), c1)
              | Some nonce \<Rightarrow>
                  map_option (\<lambda>key. login_with_nonce md5 parser env sigV3 nonce key c1)
                    (DeriveAESKey md5 nonce (Password (cfg c1)))))"

section \<open>Timers\<close>

text \<open>
  One tick of the TCP keepalive: the failures so far, the ping's error and whether anything
  was read after it was sent. The result is the new count, or the error that ends the client.
\<close>

definition ping_tick :: "client_error option \<Rightarrow> bool \<Rightarrow> nat \<Rightarrow> client_error + nat" where
  "ping_tick err read_after pingFailures =
     (case err of
        None \<Rightarrow> Inr 0
      | Some e \<Rightarrow>
          if read_after then Inr 0
          else if 3 \<le> pingFailures + 1 then Inl (PingFailed e) else Inr (pingFailures + 1))"

text \<open>A tick of the keepalive of a UID session: silent for more than 15 s.\<close>

definition uid_tick :: "int \<Rightarrow> int \<Rightarrow> int \<Rightarrow> client_error option" where
  "uid_tick now inbound startedAt =
     (if now - max inbound startedAt > 15 * 10 ^ 9 then Some UidSilent else None)"

definition idle_tick :: "int \<Rightarrow> int \<Rightarrow> int \<Rightarrow> int \<Rightarrow> client_error option" where
  "idle_tick now last_read last_send after =
     (if now - max last_read last_send < after then None else Some ErrIdle)"

section \<open>Choosing the transport\<close>

definition normalized :: "config \<Rightarrow> config" where
  "normalized c =
     (let c1 = (if Port c = 0 then c\<lparr>Port := 9000\<rparr> else c)
      in if Timeout c1 = 0 then c1\<lparr>Timeout := 10 * 10 ^ 9\<rparr> else c1)"

text \<open>
  \<^verbatim>\<open>Dial\<close>: \<open>tcp\<close> and \<open>uid\<close> are the outcomes the two transports would have, an error or nothing.
  The result is the error or whether UDP is used.
\<close>

definition dial :: "client_error option \<Rightarrow> client_error option \<Rightarrow> config \<Rightarrow> client_error + bool" where
  "dial tcp uid_dial cfg0 =
     (let c = normalized cfg0;
          preferUID = (PreferUID c \<and> UID c \<noteq> [])
      in if Host c \<noteq> [] \<and> \<not> preferUID then
           (case tcp of
              None \<Rightarrow> Inr False
            | Some err \<Rightarrow> (case uid_dial of None \<Rightarrow> Inr True | Some uidErr \<Rightarrow> Inl (DialError err uidErr)))
         else if UID c \<noteq> [] then
           (case uid_dial of
              None \<Rightarrow> Inr True
            | Some err \<Rightarrow>
                if Host c = [] then Inl err
                else (case tcp of None \<Rightarrow> Inr False | Some tcpErr \<Rightarrow> Inl (DialError err tcpErr)))
         else Inl NoHostOrUid)"

definition new_client :: "config \<Rightarrow> bool \<Rightarrow> client" where
  "new_client cfg0 udp =
     \<lparr>cfg = normalized cfg0, isUDP = udp,
      wire = \<lparr>cipher = \<lparr>mode = EncryptionNone, aesKey = zeros 16, hasAESKey = False\<rparr>,
              negotiated = False, binaryMsgNums = (\<lambda>_. None)\<rparr>,
      msgNum = 0, loginInfo = no_device_info, loggedIn = False, pending = (\<lambda>_. None),
      subs = (\<lambda>_. None), nextSub = 0, keepAliveStarted = False, closeErr = None\<rparr>"

section \<open>Previews\<close>

definition msgIDVideo :: u32 where "msgIDVideo = 3"
definition msgIDVideoStop :: u32 where "msgIDVideoStop = 4"

definition headerChannelID :: "byte \<Rightarrow> byte" where
  "headerChannelID channel = channel + 1"

text \<open>\<^verbatim>\<open>Stream\<close> is a string type.\<close>

definition streamParams :: "string \<Rightarrow> byte \<times> u32" where
  "streamParams stream =
     (if stream = ''subStream'' then (1, 256)
      else if stream = ''externStream'' then (2, 1024) else (0, 0))"

definition buildPreviewXML :: "byte \<Rightarrow> u32 \<Rightarrow> string \<Rightarrow> bytes" where
  "buildPreviewXML channel handle stream =
     marshalXMLDocument (Elem ''body'' [] [Elem ''Preview'' [(''version'', ''1.1'')]
       [num_field ''channelId'' (uint channel), num_field ''handle'' (uint handle),
        field ''streamType'' stream]])"

definition buildStopPreviewXML :: "byte \<Rightarrow> u32 \<Rightarrow> bytes" where
  "buildStopPreviewXML channel handle =
     marshalXMLDocument (Elem ''body'' [] [Elem ''Preview'' [(''version'', ''1.1'')]
       [num_field ''channelId'' (uint channel), num_field ''handle'' (uint handle)]])"

text \<open>The client after \<^verbatim>\<open>StartPreview\<close> and the number of the subscription its reader holds.\<close>

definition StartPreview ::
  "(client \<Rightarrow> (client_error option \<times> client) option) \<Rightarrow> env \<Rightarrow> byte \<Rightarrow> string \<Rightarrow> client \<Rightarrow>
   ((client_error + nat) \<times> client) option" where
  "StartPreview login env channel stream c =
     do { (err, c1) \<leftarrow> login c;
          Some (case err of
            Some e \<Rightarrow> (Inl e, c1)
          | None \<Rightarrow>
              let (streamType, handle) = streamParams stream;
                  (i, c2) = subscribe msgIDVideo c1;
                  req = (base_request msgIDVideo (headerChannelID channel))
                          \<lparr>rStreamType := streamType, rBody := buildPreviewXML channel handle stream\<rparr>
              in (case sendRequest env req c2 of
                    (Inl e, c3) \<Rightarrow> (Inl e, unsubscribe msgIDVideo i c3)
                  | (Inr m, c3) \<Rightarrow> (Inr i, c3))) }"

definition StopPreview ::
  "(client \<Rightarrow> (client_error option \<times> client) option) \<Rightarrow> env \<Rightarrow> byte \<Rightarrow> string \<Rightarrow> client \<Rightarrow>
   (client_error option \<times> client) option" where
  "StopPreview login env channel stream c =
     do { (err, c1) \<leftarrow> login c;
          Some (case err of
            Some e \<Rightarrow> (Some e, c1)
          | None \<Rightarrow>
              let (streamType, handle) = streamParams stream;
                  req = (base_request msgIDVideoStop (headerChannelID channel))
                          \<lparr>rStreamType := streamType, rBody := buildStopPreviewXML channel handle\<rparr>
              in (case sendRequest env req c1 of
                    (Inl (StatusError i code), c2) \<Rightarrow> (Some (StatusError i code), c2)
                  | (Inl e, c2) \<Rightarrow> (None, c2)
                  | (Inr m, c2) \<Rightarrow>
                      (map_option (\<lambda>(i, code). StatusError i code) (message_success m), c2))) }"

datatype reader_error = StreamLost nat | BcmediaParse media_error

record media_reader =
  parserBuf :: bytes
  readerErr :: "reader_error option"
  readerDone :: bool

definition setErr :: "reader_error \<Rightarrow> media_reader \<Rightarrow> media_reader" where
  "setErr err r = (if readerErr r = None then r\<lparr>readerErr := Some err\<rparr> else r)"

interpretation reader_latch: error_latch readerErr setErr
  by unfold_locales (simp add: setErr_def split: option.splits)




text \<open>\<^verbatim>\<open>listenForStates\<close>: the callbacks for one message.\<close>

definition state_callback ::
  "(string \<Rightarrow> int \<Rightarrow> bool option) \<Rightarrow> byte \<Rightarrow> message \<Rightarrow> bool list" where
  "state_callback parse channel msg =
     (case parse (XML msg) (uint channel) of None \<Rightarrow> [] | Some state \<Rightarrow> [state])"

section \<open>What the client guarantees\<close>

lemma dispatch_listener:
  "listener (dispatch m c) k =
     (if MsgID (Header m) = fst k then map_option (offer m) (listener c k) else listener c k)"
  by (auto simp: dispatch_def listener_def Let_def split: option.splits)

lemma offer_spec:
  assumes "length (ch sub) + n = 256"
  shows "ch (fold offer ms sub) = ch sub @ take n ms \<and>
    dropped (fold offer ms sub) = dropped sub + (length ms - n)"
  using assms
proof (induction ms arbitrary: sub n)
  case (Cons m ms)
  show ?case
  proof (cases n)
    case 0
    then have "offer m sub = sub\<lparr>dropped := dropped sub + 1\<rparr>" using Cons.prems by (simp add: offer_def)
    then show ?thesis using Cons.IH [of "offer m sub" 0] Cons.prems 0 by simp
  next
    case (Suc n')
    then have "offer m sub = sub\<lparr>ch := ch sub @ [m]\<rparr>" using Cons.prems by (simp add: offer_def)
    then show ?thesis using Cons.IH [of "offer m sub" n'] Cons.prems Suc by simp
  qed
qed simp

lemma fold_dispatch_listener:
  "listener (fold dispatch ms c) k =
     map_option (fold offer (filter (\<lambda>m. MsgID (Header m) = fst k) ms)) (listener c k)"
  by (induction ms arbitrary: c) (simp_all add: dispatch_listener option.map_comp comp_def option.map_id0)

text \<open>Whatever arrives, a listener that is not read gets the messages of its id, and of no other,
  in the order of their arrival until its channel is full, and its counter says exactly how many
  it missed after that, so a consumer can tell a gap from a quiet stream.\<close>

theorem dispatch_delivers:
  assumes "listener c k = Some sub" "length (ch sub) \<le> 256"
    and "matching = filter (\<lambda>m. MsgID (Header m) = fst k) ms"
  shows "\<exists>sub'. listener (fold dispatch ms c) k = Some sub'
    \<and> ch sub' = ch sub @ take (256 - length (ch sub)) matching
    \<and> dropped sub' = dropped sub + (length matching - (256 - length (ch sub)))
    \<and> length (ch sub') \<le> 256"
proof -
  have "length (ch sub) + (256 - length (ch sub)) = 256" using assms(2) by simp
  from offer_spec [OF this, of matching] show ?thesis
    using assms(2) by (simp add: fold_dispatch_listener assms(1) flip: assms(3))
qed

definition demo_message :: "u32 \<Rightarrow> u16 \<Rightarrow> message" where
  "demo_message i n =
     \<lparr>Header = \<lparr>MsgID = i, BodyLen = 0, ChannelID = 0, StreamType = 0, MsgNum = n, ResponseCode = 200,
       Class = classModernWithOffset, PayloadOffset = 0\<rparr>,
      Extension = [], Payload = [], XML = [], Binary = False, ExtensionMeta = None\<rparr>"

definition demo_config :: config where
  "demo_config = \<lparr>Host = ''cam'', Port = 0, UID = [], Username = ''admin'', Password = ''pw'',
     Timeout = 0, PreferUID = False, LowPower = False\<rparr>"

theorem dispatch_delivers_witness:
  "\<exists>sub'. listener (fold dispatch [demo_message 33 0, demo_message 3 0]
      (snd (subscribe 33 (new_client demo_config False)))) (33, 0) = Some sub'
    \<and> ch sub' = [demo_message 33 0]"
  using dispatch_delivers [of "snd (subscribe 33 (new_client demo_config False))" "(33, 0)"
      "\<lparr>ch = [], dropped = 0\<rparr>" "[demo_message 33 0]" "[demo_message 33 0, demo_message 3 0]"]
  by (simp add: subscribe_def new_client_def listener_def Let_def demo_message_def) blast

lemma dispatch_pending:
  "pending (dispatch m c) key =
     (if key = (MsgID (Header m), MsgNum (Header m)) \<and> pending c key = Some None
      then Some (Some m) else pending c key)"
  by (auto simp: dispatch_def Let_def split: option.splits)

text \<open>C15: A request gets its own reply: the first message that carries its id and its number, and no
  other, however many messages of whatever kind arrive, and whatever other requests wait; when
  the round trip is over the table of waiting requests is as it was before.\<close>

theorem request_gets_first_reply:
  assumes "pending c key = None"
  shows "pending (fold dispatch ms (roundtrip_begin key c)) key =
      Some (List.find (\<lambda>m. (MsgID (Header m), MsgNum (Header m)) = key) ms)
    \<and> pending (roundtrip_end key (fold dispatch ms (roundtrip_begin key c))) =
        pending (fold dispatch ms c)"
proof -
  have full: "pending c key = Some (Some x) \<Longrightarrow> pending (fold dispatch ms c) key = Some (Some x)" for c x
    by (induction ms arbitrary: c) (simp_all add: dispatch_pending)
  have first: "pending c key = Some None \<Longrightarrow> pending (fold dispatch ms c) key =
      Some (List.find (\<lambda>m. (MsgID (Header m), MsgNum (Header m)) = key) ms)" for c ms
  proof (induction ms arbitrary: c)
    case (Cons m ms)
    have full: "pending c key = Some (Some x) \<Longrightarrow> pending (fold dispatch ms c) key = Some (Some x)" for c x
      by (induction ms arbitrary: c) (simp_all add: dispatch_pending)
    show ?case
      using Cons.IH [of "dispatch m c"] full [of "dispatch m c" m] Cons.prems
      by (auto simp: dispatch_pending)
  qed simp
  have others: "k \<noteq> key \<Longrightarrow> pending c k = pending d k \<Longrightarrow>
      pending (fold dispatch ms c) k = pending (fold dispatch ms d) k" for c d k
  proof (induction ms arbitrary: c d)
    case (Cons m ms)
    have "pending (dispatch m c) k = pending (dispatch m d) k"
      using Cons.prems(2)
      by (cases "k = (MsgID (Header m), MsgNum (Header m))") (auto simp: dispatch_pending)
    from Cons.IH [OF Cons.prems(1) this] show ?case by simp
  qed simp
  have none: "pending c key = None \<Longrightarrow> pending (fold dispatch ms c) key = None" for c
    by (induction ms arbitrary: c) (simp_all add: dispatch_pending)
  have "pending (roundtrip_end key (fold dispatch ms (roundtrip_begin key c))) k = pending (fold dispatch ms c) k" for k
  proof (cases "k = key")
    case True
    then show ?thesis using none [OF assms] by (simp add: roundtrip_end_def)
  next
    case False
    then show ?thesis
      using others [OF False, of "roundtrip_begin key c" c]
      by (simp add: roundtrip_end_def roundtrip_begin_def)
  qed
  moreover have "pending (roundtrip_begin key c) key = Some None" by (simp add: roundtrip_begin_def)
  ultimately show ?thesis using first by (simp add: fun_eq_iff)
qed

theorem request_gets_first_reply_witness:
  "pending (fold dispatch [demo_message 93 6, demo_message 93 5, demo_message 93 5]
      (roundtrip_begin (93, 5) (new_client demo_config False))) (93, 5) = Some (Some (demo_message 93 5))"
  using request_gets_first_reply [of "new_client demo_config False" "(93, 5)"
      "[demo_message 93 6, demo_message 93 5, demo_message 93 5]"]
  by (simp add: new_client_def demo_message_def)

text \<open>The numbers of consecutive requests.\<close>

fun reserve_many :: "nat \<Rightarrow> client \<Rightarrow> u16 list" where
  "reserve_many 0 c = []"
| "reserve_many (Suc k) c =
     (let (n, c') = reserveMessageNumber c in n # reserve_many k c')"

lemma reserve_many_eq: "reserve_many k c = map (\<lambda>j. msgNum c + word_of_nat j) [0..<k]"
proof (induction k arbitrary: c)
  case (Suc k)
  show ?case
    unfolding map_upt_Suc_shift by (simp add: reserveMessageNumber_def Suc.IH add.assoc)
qed simp

text \<open>Message numbers wrap around after 65536 requests and not before: within that many
  requests no two share a number, so a late reply cannot be taken for another request's.\<close>

theorem message_numbers_distinct:
  "k \<le> 65536 \<Longrightarrow> distinct (reserve_many k c) \<and> length (reserve_many k c) = k"
proof -
  assume k: "k \<le> 65536"
  have "inj_on (\<lambda>j. msgNum c + word_of_nat j :: u16) {0..<k}"
  proof (rule inj_onI)
    fix i j assume ij: "i \<in> {0..<k}" "j \<in> {0..<k}"
      and "msgNum c + word_of_nat i = (msgNum c + word_of_nat j :: u16)"
    then have "unat (word_of_nat i :: u16) = unat (word_of_nat j :: u16)" by simp
    then show "i = j" using ij k by (simp add: unat_of_nat take_bit_nat_eq_self)
  qed
  then show ?thesis by (simp add: reserve_many_eq distinct_map)
qed

theorem message_numbers_distinct_witness:
  "distinct (reserve_many 3 (new_client demo_config False))"
  using message_numbers_distinct [of 3 "new_client demo_config False"] by simp

section \<open>What login leaves behind\<close>

text \<open>The environment only changes what the read loop changes while a request waits.\<close>

definition env_reads :: "env \<Rightarrow> bool" where
  "env_reads env \<longleftrightarrow> (\<forall>req c.
     cfg (snd (env req c)) = cfg c \<and> loggedIn (snd (env req c)) = loggedIn c
     \<and> aesKey (cipher (wire (snd (env req c)))) = aesKey (cipher (wire c))
     \<and> hasAESKey (cipher (wire (snd (env req c)))) = hasAESKey (cipher (wire c)))"

lemma sendRequest_keeps:
  assumes "env_reads env" "sendRequest env req c = (r, c')"
  shows "cfg c' = cfg c" "loggedIn c' = loggedIn c"
    "aesKey (cipher (wire c')) = aesKey (cipher (wire c))"
    "hasAESKey (cipher (wire c')) = hasAESKey (cipher (wire c))"
proof -
  obtain n c1 where n: "reserveMessageNumber c = (n, c1)" by fastforce
  have "c' = snd (env (req\<lparr>rMsgNum := n\<rparr>) c1)"
    using assms(2) n by (auto simp: sendRequest_def roundTripRequest_def split: sum.splits prod.splits
        option.splits)
  moreover have "cfg c1 = cfg c" "loggedIn c1 = loggedIn c" "wire c1 = wire c"
    using n by (auto simp: reserveMessageNumber_def)
  ultimately show "cfg c' = cfg c" "loggedIn c' = loggedIn c"
    "aesKey (cipher (wire c')) = aesKey (cipher (wire c))"
    "hasAESKey (cipher (wire c')) = hasAESKey (cipher (wire c))"
    using assms(1) by (auto simp: env_reads_def)
qed

lemma login_finish_ok:
  "loggedIn (login_finish parser m c) \<and> cfg (login_finish parser m c) = cfg c
    \<and> hasAESKey (cipher (wire (login_finish parser m c))) = hasAESKey (cipher (wire c))
    \<and> aesKey (cipher (wire (login_finish parser m c))) = aesKey (cipher (wire c))
    \<and> (hasAESKey (cipher (wire c)) \<longrightarrow> negotiated (wire (login_finish parser m c))
         \<or> mode (cipher (wire (login_finish parser m c))) = EncryptionAES)
    \<and> (keepAliveStarted (login_finish parser m c) \<or> LowPower (cfg c))"
  by (simp add: login_finish_def Let_def StartKeepAlive_def)

lemma login_with_nonce_ok:
  assumes "env_reads env" "login_with_nonce md5 parser env sigV3 nonce key c = (None, c')"
  shows "loggedIn c' \<and> hasAESKey (cipher (wire c')) \<and> aesKey (cipher (wire c')) = key
    \<and> (negotiated (wire c') \<or> mode (cipher (wire c')) = EncryptionAES)
    \<and> (keepAliveStarted c' \<or> LowPower (cfg c)) \<and> cfg c' = cfg c"
proof -
  define c1 where "c1 = c\<lparr>wire := (wire c)\<lparr>cipher := (cipher (wire c))\<lparr>aesKey := key, hasAESKey := True\<rparr>\<rparr>\<rparr>"
  obtain req where "(case sendRequest env req c1 of
      (Inl e, c2) \<Rightarrow> (Some (loginError e sigV3), c2)
    | (Inr resp, c2) \<Rightarrow> (None, login_finish parser resp c2)) = (None, c')"
    using assms(2) by (simp add: login_with_nonce_def Let_def c1_def)
  then obtain m c2 where s: "sendRequest env req c1 = (Inr m, c2)" "c' = login_finish parser m c2"
    by (auto split: prod.splits sum.splits)
  from sendRequest_keeps [OF assms(1) s(1)] login_finish_ok [of parser m c2] s(2)
  show ?thesis by (simp add: c1_def)
qed

text \<open>A login that succeeds leaves a client that is logged in, holds the key derived from the
  nonce and the password, uses the mode the camera negotiated or else AES, and has its keepalive
  running unless the camera is a low-power one; a client that is logged in sends nothing more.\<close>

theorem login_success:
  assumes "env_reads env" "Login md5 parser tokens env c = Some (None, c')"
  shows "loggedIn c'
    \<and> (loggedIn c \<longrightarrow> c' = c)
    \<and> (\<not> loggedIn c \<longrightarrow>
         hasAESKey (cipher (wire c'))
         \<and> (\<exists>nonce. DeriveAESKey md5 nonce (Password (cfg c)) = Some (aesKey (cipher (wire c'))))
         \<and> (negotiated (wire c') \<or> mode (cipher (wire c')) = EncryptionAES)
         \<and> (keepAliveStarted c' \<or> LowPower (cfg c)))"
proof (cases "loggedIn c")
  case True
  then show ?thesis using assms(2) by (simp add: Login_def)
next
  case False
  obtain r c1 where s: "sendRequest env nonce_request c = (r, c1)" by fastforce
  note k = sendRequest_keeps [OF assms(1) s]
  obtain m where r: "r = Inr m"
    using assms(2) s False by (cases r) (simp_all add: Login_def)
  obtain nonce where n: "parseNonce parser (XML m) = Some nonce"
    using assms(2) s False r by (cases "parseNonce parser (XML m)") (simp_all add: Login_def Let_def split: if_splits)
  obtain key where key: "DeriveAESKey md5 nonce (Password (cfg c1)) = Some key"
    using assms(2) s False r n
    by (cases "DeriveAESKey md5 nonce (Password (cfg c1))") (simp_all add: Login_def Let_def)
  have "login_with_nonce md5 parser env (xmlElementText tokens (XML m) ''sigVer'' = ''v3'')
      nonce key c1 = (None, c')"
    using assms(2) s False r n key by (simp add: Login_def Let_def)
  from login_with_nonce_ok [OF assms(1) this] show ?thesis
    using False k key by auto
qed

text \<open>A camera that answers every request: the nonce first, then a bare acceptance.\<close>

definition demo_env :: env where
  "demo_env req c =
     (Inr ((demo_message msgIDLogin (rMsgNum req))\<lparr>XML := (if rClass req = classLegacy then ''n'' else [])\<rparr>), c)"

definition demo_parser :: xml_parser where
  "demo_parser s = (if s = ''n'' then Some (Elem ''body'' [] [Elem ''Encryption'' []
     [field ''nonce'' ''abc'']]) else None)"

theorem login_success_witness:
  "\<exists>c'. Login (\<lambda>b. replicate 16 0xAB) demo_parser (\<lambda>_. []) demo_env (new_client demo_config False)
      = Some (None, c') \<and> loggedIn c' \<and> hasAESKey (cipher (wire c')) \<and> keepAliveStarted c'"
proof -
  have reads: "env_reads demo_env" by (simp add: env_reads_def demo_env_def)
  have send: "sendRequest demo_env req c = (Inr ((demo_message msgIDLogin (msgNum c))
      \<lparr>XML := (if rClass req = classLegacy then ''n'' else [])\<rparr>), c\<lparr>msgNum := msgNum c + 1\<rparr>)" for req c
    by (simp add: sendRequest_def roundTripRequest_def reserveMessageNumber_def demo_env_def
        message_success_def demo_message_def)
  have nonce: "parseNonce demo_parser ''n'' = Some ''abc''"
    by (simp add: parseNonce_def demo_parser_def root_kids_def struct_field_def str_field_def
        field_def Let_def)
  obtain key where key: "DeriveAESKey (\<lambda>b. replicate 16 0xAB) ''abc'' ''pw'' = Some key"
    by (simp add: DeriveAESKey_def MD5Modern_def Let_def to_upper_def length_stringifyMD5)
  have "\<exists>c'. Login (\<lambda>b. replicate 16 0xAB) demo_parser (\<lambda>_. []) demo_env
      (new_client demo_config False) = Some (None, c')"
    using key
    by (simp add: Login_def send nonce nonce_request_def login_with_nonce_def Let_def
        new_client_def demo_config_def normalized_def)
  then obtain c' where c': "Login (\<lambda>b. replicate 16 0xAB) demo_parser (\<lambda>_. []) demo_env
      (new_client demo_config False) = Some (None, c')" by blast
  from login_success [OF reads c'] c' show ?thesis
    by (auto simp: new_client_def demo_config_def normalized_def)
qed

section \<open>When the keepalive gives up\<close>

text \<open>The loop over the ticks of a connection: whether each ping failed with nothing read after it.\<close>

fun ping_loop :: "bool list \<Rightarrow> nat \<Rightarrow> bool" where
  "ping_loop [] k = False"
| "ping_loop (silent # ts) k =
     (case ping_tick (if silent then Some TransportError else None) False k of
        Inl e \<Rightarrow> True
      | Inr k' \<Rightarrow> ping_loop ts k')"

lemma ping_loop_sublist:
  "k \<le> 2 \<Longrightarrow> ping_loop ts k \<longleftrightarrow> sublist [True, True, True] (replicate k True @ ts)"
proof (induction ts arbitrary: k)
  case Nil
  then have "k = 0 \<or> k = 1 \<or> k = 2" by auto
  then show ?case by (auto simp: sublist_Cons_right numeral_2_eq_2)
next
  case (Cons t ts)
  have "k = 0 \<or> k = 1 \<or> k = 2" using Cons.prems by auto
  then show ?case
    using Cons.IH [of 0] Cons.IH [of 1] Cons.IH [of 2]
    by (cases t) (auto simp: ping_tick_def sublist_Cons_right numeral_2_eq_2)
qed

text \<open>The keepalive ends the connection exactly when three pings in a row failed with nothing read
  after they were sent; a single answer, or any byte from the camera, starts the count anew.\<close>

theorem keepalive_three_strikes:
  "ping_loop ts 0 \<longleftrightarrow> sublist [True, True, True] ts"
  using ping_loop_sublist [of 0 ts] by simp

text \<open>\<^verbatim>\<open>Dial\<close> comes up whenever a transport the configuration allows would: it prefers TCP unless the
  caller asked for the UID transport and has a UID, it falls back to the other one, a camera known
  only by host is tried over P2P too, one known only by UID never over TCP, and the result says
  which transport it is.\<close>

lemma dial_choice:
  "dial tcp uid_dial c =
     (if Host c = [] \<and> UID c = [] then Inl NoHostOrUid
      else let uid_first = (UID c \<noteq> [] \<and> (PreferUID c \<or> Host c = [])) in
        (case (if Host c = [] then Some NoHostOrUid else tcp, uid_dial) of
           (None, None) \<Rightarrow> Inr uid_first
         | (None, Some e) \<Rightarrow> Inr False
         | (Some e, None) \<Rightarrow> Inr True
         | (Some e, Some e') \<Rightarrow>
             Inl (if Host c = [] then e' else if uid_first then DialError e' e else DialError e e')))"
  by (auto simp: dial_def normalized_def Let_def split: option.split)














end
