(* ===== verification/Translator.thy ===== *)
theory Translator
  imports Prelude
begin

text \<open>
  The bitstream work on video and audio payloads (\<^verbatim>\<open>pkg/media/translator.go\<close>): cutting an Annex-B
  stream into NAL units, filtering and ordering the units of an access unit, picking parameter
  sets, repairing HEVC aggregation packets, and checking a set of ADTS packets. The ADTS parser
  is a parameter (it is another project's code).
\<close>

section \<open>Annex B\<close>

definition startCodeLen :: "bytes \<Rightarrow> nat" where
  "startCodeLen buf =
     (if 4 \<le> length buf \<and> buf ! 0 = 0 \<and> buf ! 1 = 0 \<and> buf ! 2 = 0 \<and> buf ! 3 = 1 then 4
      else if 3 \<le> length buf \<and> buf ! 0 = 0 \<and> buf ! 1 = 0 \<and> buf ! 2 = 1 then 3 else 0)"

text \<open>The scanning loop; the result is \<open>start\<close>, \<open>found\<close> and \<open>out\<close> when it ends.\<close>

function annexb_scan ::
  "bytes \<Rightarrow> nat \<Rightarrow> nat \<Rightarrow> bool \<Rightarrow> bytes list \<Rightarrow> nat \<times> bool \<times> bytes list" where
  "annexb_scan buf i start found out =
     (if i + 3 < length buf then
        let prefixLen = startCodeLen (drop i buf)
        in if prefixLen = 0 then annexb_scan buf (i + 1) start found out
           else annexb_scan buf (i + prefixLen) (i + prefixLen) True
                  (if found \<and> start < i then out @ [slice buf start i] else out)
      else (start, found, out))"
  by pat_completeness auto
termination
  by (relation "measure (\<lambda>(buf, i, start, found, out). length buf - i)") auto

declare annexb_scan.simps [simp del]

definition SplitAnnexB :: "bytes \<Rightarrow> bytes list" where
  "SplitAnnexB buf =
     (let (start, found, out) = annexb_scan buf 0 0 False [];
          out1 = (if found \<and> start < length buf then out @ [drop start buf] else out);
          out2 = (if out1 = [] \<and> 0 < length buf then [buf] else out1)
      in filter (\<lambda>nalu. 0 < length nalu) out2)"

text \<open>The scan runs over positions without a start code; what it finds does not change there.\<close>

lemma annexb_scan_skip:
  "i \<le> k \<Longrightarrow> (\<And>j. i \<le> j \<Longrightarrow> j < k \<Longrightarrow> startCodeLen (drop j buf) = 0) \<Longrightarrow>
   annexb_scan buf i start found out = annexb_scan buf k start found out"
proof (induction "k - i" arbitrary: i)
  case (Suc n)
  then have i: "i < k" and zero: "startCodeLen (drop i buf) = 0" by auto
  have IH: "annexb_scan buf (i + 1) start found out = annexb_scan buf k start found out"
    using Suc i by auto
  show ?case
  proof (cases "i + 3 < length buf")
    case True
    then show ?thesis using IH zero by (subst annexb_scan.simps) simp
  next
    case False
    then show ?thesis using i by (simp add: annexb_scan.simps [of buf])
  qed
qed simp

text \<open>
  A NAL unit as it appears in a byte stream: not empty, no start code inside (which emulation
  prevention rules out) and no zero at its end (\<open>rbsp_trailing_bits\<close> ends in a set bit).
\<close>

definition nal_ok :: "bytes \<Rightarrow> bool" where
  "nal_ok n \<longleftrightarrow> n \<noteq> [] \<and> last n \<noteq> 0 \<and> (\<forall>k < length n. startCodeLen (drop k n) = 0)"

lemma no_start_code_at_end:
  assumes "d \<noteq> []" "last d \<noteq> 0" "startCodeLen d = 0"
  shows "startCodeLen (d @ rest) = 0"
proof -
  consider (1) a where "d = [a]" | (2) a b where "d = [a, b]" | (3) a b c where "d = [a, b, c]"
    | (4) a b c e r where "d = a # b # c # e # r"
    using assms(1) by (cases d rule: list.exhaust; cases "tl d"; cases "tl (tl d)"; cases "tl (tl (tl d))") auto
  then show ?thesis
    using assms(2,3) by cases (auto simp: startCodeLen_def split: if_splits)
qed

lemma nal_no_start_code:
  assumes "nal_ok n" "k < length n"
  shows "startCodeLen (drop k n @ rest) = 0"
  using assms by (intro no_start_code_at_end) (auto simp: nal_ok_def)

lemma nal_ok_eval:
  "nal_ok n \<longleftrightarrow> n \<noteq> [] \<and> last n \<noteq> 0 \<and> list_all (\<lambda>k. startCodeLen (drop k n) = 0) [0..<length n]"
  by (auto simp: nal_ok_def list_all_iff)

text \<open>Start codes of both lengths, as encoders mix them.\<close>

definition start_code :: "bool \<Rightarrow> bytes" where
  "start_code long = (if long then [0, 0, 0, 1] else [0, 0, 1])"

definition annexb :: "(bool \<times> bytes) list \<Rightarrow> bytes" where
  "annexb us = concat (map (\<lambda>(long, n). start_code long @ n) us)"

lemma startCodeLen_start_code:
  "startCodeLen (start_code long @ rest) = length (start_code long)"
  by (simp add: startCodeLen_def start_code_def)

lemma annexb_scan_units:
  assumes "us \<noteq> []" "\<forall>(long, n) \<in> set us. nal_ok n" "buf = pre @ annexb us"
    and "annexb_scan buf (length pre) start found out = (start', found', out')"
  shows "found' \<and> start' < length buf \<and>
    out' @ [drop start' buf] =
      (if found \<and> start < length pre then out @ [slice buf start (length pre)] else out) @ map snd us"
  using assms
proof (induction us arbitrary: pre start found out)
  case (Cons u us)
  obtain long n where u: "u = (long, n)" by (cases u)
  have n: "nal_ok n" "n \<noteq> []" using Cons.prems(2) u by (auto simp: nal_ok_def)
  define s where "s = length pre + length (start_code long)"
  define pre' where "pre' = pre @ start_code long @ n"
  have buf: "buf = pre' @ annexb us" using Cons.prems(3) by (simp add: u annexb_def pre'_def)
  have at: "drop (length pre) buf = start_code long @ n @ annexb us" by (simp add: buf pre'_def)
  have len: "length pre + 3 < length buf"
    using n(2) by (cases n) (auto simp: buf pre'_def start_code_def)
  define out1 where "out1 = (if found \<and> start < length pre then out @ [slice buf start (length pre)] else out)"
  have pos: "startCodeLen (drop (length pre) buf) = length (start_code long)"
    by (simp add: at startCodeLen_start_code)
  have "length (start_code long) \<noteq> 0" by (simp add: start_code_def)
  then have "annexb_scan buf (length pre) start found out = annexb_scan buf s s True out1"
    using len pos by (subst annexb_scan.simps) (simp add: s_def out1_def Let_def)
  also have "\<dots> = annexb_scan buf (length pre') s True out1"
  proof (rule annexb_scan_skip)
    show "s \<le> length pre'" by (simp add: s_def pre'_def)
    fix j assume j: "s \<le> j" "j < length pre'"
    then have "drop j buf = drop (j - s) n @ annexb us"
      by (simp add: buf pre'_def s_def)
    then show "startCodeLen (drop j buf) = 0"
      using nal_no_start_code [OF n(1), of "j - s"] j by (simp add: pre'_def s_def)
  qed
  finally have run: "annexb_scan buf (length pre') s True out1 = (start', found', out')"
    using Cons.prems(4) by simp
  have s: "s < length pre'" using n(2) by (simp add: s_def pre'_def)
  have slice: "slice buf s (length pre') = n"
    by (simp add: slice_def buf pre'_def s_def)
  show ?case
  proof (cases us)
    case Nil
    then have "length pre' = length buf" by (simp add: buf annexb_def)
    then have "(start', found', out') = (s, True, out1)"
      using run by (simp add: annexb_scan.simps [of buf "length buf"])
    moreover have "drop s buf = n" using Nil by (simp add: buf pre'_def s_def annexb_def)
    ultimately show ?thesis using s \<open>length pre' = length buf\<close> by (simp add: u Nil out1_def)
  next
    case (Cons u' us')
    from Cons.IH [OF _ _ buf run] have "found' \<and> start' < length buf \<and>
      out' @ [drop start' buf] = (out1 @ [slice buf s (length pre')]) @ map snd us"
      using Cons.prems(2) s Cons by simp
    then show ?thesis by (simp add: slice u out1_def)
  qed
qed simp

text \<open>A byte stream of NAL units behind start codes of three or four bytes is cut into exactly those
  units, in order.\<close>

theorem split_annexb_units:
  assumes "us \<noteq> []" "\<forall>(long, n) \<in> set us. nal_ok n"
  shows "SplitAnnexB (annexb us) = map snd us"
proof -
  obtain start found out where
    scan: "annexb_scan (annexb us) 0 0 False [] = (start, found, out)" by (metis prod_cases3)
  from annexb_scan_units [OF assms, of "annexb us" "[]" 0 False "[]" start found out] scan
  have r: "found" "start < length (annexb us)" "out @ [drop start (annexb us)] = map snd us" by auto
  have "filter (\<lambda>nalu. 0 < length nalu) (map snd us) = map snd us"
    using assms(2) by (auto simp: filter_id_conv nal_ok_def)
  then show ?thesis
    using assms(1) by (simp add: SplitAnnexB_def scan r del: filter_append filter.simps)
qed

theorem split_annexb_units_witness:
  "SplitAnnexB (annexb [(True, [0x67, 0x42]), (False, [0x68, 0, 1, 7])]) = [[0x67, 0x42], [0x68, 0, 1, 7]]"
  using split_annexb_units [of "[(True, [0x67, 0x42]), (False, [0x68, 0, 1, 7])]"]
  by (simp add: nal_ok_eval startCodeLen_def upt_rec)

section \<open>NAL units of an access unit\<close>

definition FilterH265DecodableNALs :: "bytes list \<Rightarrow> bytes list" where
  "FilterH265DecodableNALs nalus =
     filter (\<lambda>n. if length n < 2 then False
                 else let t = drop_bit 1 (n ! 0) AND 0x3F
                 in if t \<ge> 48 then False
                    else let layerID = push_bit 5 (n ! 0 AND 1) OR drop_bit 3 (n ! 1)
                    in layerID = 0) nalus"

definition h265NALUnitType :: "byte \<Rightarrow> byte" where
  "h265NALUnitType header0 = drop_bit 1 header0 AND 0x3F"

definition h265IsSliceNAL :: "byte \<Rightarrow> bool" where
  "h265IsSliceNAL typ \<longleftrightarrow> typ \<le> 9 \<or> typ \<ge> 16 \<and> typ \<le> 21"

definition h264NALUnitType :: "byte \<Rightarrow> byte" where
  "h264NALUnitType header0 = header0 AND 0x1F"

definition h264IsSliceNAL :: "byte \<Rightarrow> bool" where
  "h264IsSliceNAL typ \<longleftrightarrow> typ \<ge> 1 \<and> typ \<le> 5"

text \<open>The loop of both reorderings: units too short are dropped, slices collected apart.\<close>

fun reorder_loop ::
  "nat \<Rightarrow> (bytes \<Rightarrow> bool) \<Rightarrow> bytes list \<Rightarrow> bytes list \<Rightarrow> bytes list \<Rightarrow> bytes list" where
  "reorder_loop minLen isSlice nonSlice sl [] = nonSlice @ sl"
| "reorder_loop minLen isSlice nonSlice sl (n # nalus) =
     (if length n < minLen then reorder_loop minLen isSlice nonSlice sl nalus
      else if isSlice n then reorder_loop minLen isSlice nonSlice (sl @ [n]) nalus
      else reorder_loop minLen isSlice (nonSlice @ [n]) sl nalus)"

definition ReorderH265NALsForAccessUnit :: "bytes list \<Rightarrow> bytes list" where
  "ReorderH265NALsForAccessUnit nalus =
     reorder_loop 2 (\<lambda>n. h265IsSliceNAL (h265NALUnitType (n ! 0))) [] [] nalus"

definition ReorderH264NALsForAccessUnit :: "bytes list \<Rightarrow> bytes list" where
  "ReorderH264NALsForAccessUnit nalus =
     reorder_loop 1 (\<lambda>n. h264IsSliceNAL (h264NALUnitType (n ! 0))) [] [] nalus"

lemma reorder_loop_filter:
  "reorder_loop m f ns sl nalus =
     ns @ filter (\<lambda>n. m \<le> length n \<and> \<not> f n) nalus @ sl @ filter (\<lambda>n. m \<le> length n \<and> f n) nalus"
  by (induction nalus arbitrary: ns sl) auto

lemma reorder_idem: "reorder_loop m f [] [] (reorder_loop m f [] [] nalus) = reorder_loop m f [] [] nalus"
  by (simp add: reorder_loop_filter cong: conj_cong)

text \<open>The reordering of an access unit, for both codecs, moves every slice behind every other unit,
  keeps the order within both groups, neither loses nor duplicates a unit that has a header, and
  does nothing to an access unit that was reordered before, so the last packet of the access unit
  carries its last slice.\<close>

theorem reorder_access_unit:
  "ReorderH265NALsForAccessUnit nalus =
     filter (\<lambda>n. \<not> h265IsSliceNAL (h265NALUnitType (n ! 0))) (filter (\<lambda>n. 2 \<le> length n) nalus)
     @ filter (\<lambda>n. h265IsSliceNAL (h265NALUnitType (n ! 0))) (filter (\<lambda>n. 2 \<le> length n) nalus)
   \<and> ReorderH264NALsForAccessUnit nalus =
     filter (\<lambda>n. \<not> h264IsSliceNAL (h264NALUnitType (n ! 0))) (filter (\<lambda>n. 1 \<le> length n) nalus)
     @ filter (\<lambda>n. h264IsSliceNAL (h264NALUnitType (n ! 0))) (filter (\<lambda>n. 1 \<le> length n) nalus)
   \<and> ReorderH265NALsForAccessUnit (ReorderH265NALsForAccessUnit nalus) = ReorderH265NALsForAccessUnit nalus
   \<and> ReorderH264NALsForAccessUnit (ReorderH264NALsForAccessUnit nalus) = ReorderH264NALsForAccessUnit nalus"
proof (intro conjI)
  show "ReorderH265NALsForAccessUnit nalus =
     filter (\<lambda>n. \<not> h265IsSliceNAL (h265NALUnitType (n ! 0))) (filter (\<lambda>n. 2 \<le> length n) nalus)
     @ filter (\<lambda>n. h265IsSliceNAL (h265NALUnitType (n ! 0))) (filter (\<lambda>n. 2 \<le> length n) nalus)"
    by (simp add: ReorderH265NALsForAccessUnit_def reorder_loop_filter conj_commute)
  show "ReorderH264NALsForAccessUnit nalus =
     filter (\<lambda>n. \<not> h264IsSliceNAL (h264NALUnitType (n ! 0))) (filter (\<lambda>n. 1 \<le> length n) nalus)
     @ filter (\<lambda>n. h264IsSliceNAL (h264NALUnitType (n ! 0))) (filter (\<lambda>n. 1 \<le> length n) nalus)"
    by (simp add: ReorderH264NALsForAccessUnit_def reorder_loop_filter conj_commute)
qed (simp_all only: ReorderH265NALsForAccessUnit_def ReorderH264NALsForAccessUnit_def reorder_idem)

section \<open>Parameter sets\<close>

fun ExtractH264Params :: "bytes option \<times> bytes option \<Rightarrow> bytes list \<Rightarrow> bytes option \<times> bytes option" where
  "ExtractH264Params acc [] = acc"
| "ExtractH264Params (sps, pps) (nalu # nalus) =
     (if length nalu < 1 then ExtractH264Params (sps, pps) nalus
      else let t = nalu ! 0 AND 0x1F
      in if t = 7 then ExtractH264Params (Some nalu, pps) nalus
         else if t = 8 then ExtractH264Params (sps, Some nalu) nalus
         else ExtractH264Params (sps, pps) nalus)"

record h265_params =
  vps :: "bytes option"
  sps :: "bytes option"
  pps :: "bytes option"

fun ExtractH265Params :: "h265_params \<Rightarrow> bytes list \<Rightarrow> h265_params" where
  "ExtractH265Params acc [] = acc"
| "ExtractH265Params acc (nalu # nalus) =
     (if length nalu < 2 then ExtractH265Params acc nalus
      else let t = drop_bit 1 (nalu ! 0) AND 0x3F
      in if t = 32 then ExtractH265Params (acc\<lparr>vps := Some nalu\<rparr>) nalus
         else if t = 33 then ExtractH265Params (acc\<lparr>sps := Some nalu\<rparr>) nalus
         else if t = 34 then ExtractH265Params (acc\<lparr>pps := Some nalu\<rparr>) nalus
         else ExtractH265Params acc nalus)"

text \<open>The last unit of a kind.\<close>

definition last_such :: "(bytes \<Rightarrow> bool) \<Rightarrow> bytes option \<Rightarrow> bytes list \<Rightarrow> bytes option" where
  "last_such P old nalus = (case filter P nalus of [] \<Rightarrow> old | ns \<Rightarrow> Some (last ns))"

lemma last_such_Cons:
  "last_such P old (n # ns) = (if P n then last_such P (Some n) ns else last_such P old ns)"
  by (auto simp: last_such_def split: list.split)

lemma last_such_Nil [simp]: "last_such P old [] = old"
  by (simp add: last_such_def)

text \<open>The parameter sets taken from an access unit are the last ones it contains, each kind for
  itself, and an access unit without one keeps what was known.\<close>

theorem params_last_wins:
  "ExtractH264Params (s, p) nalus =
     (last_such (\<lambda>n. 1 \<le> length n \<and> n ! 0 AND 0x1F = 7) s nalus,
      last_such (\<lambda>n. 1 \<le> length n \<and> n ! 0 AND 0x1F = 8) p nalus)
   \<and> ExtractH265Params acc nalus =
     \<lparr>vps = last_such (\<lambda>n. 2 \<le> length n \<and> drop_bit 1 (n ! 0) AND 0x3F = 32) (vps acc) nalus,
      sps = last_such (\<lambda>n. 2 \<le> length n \<and> drop_bit 1 (n ! 0) AND 0x3F = 33) (sps acc) nalus,
      pps = last_such (\<lambda>n. 2 \<le> length n \<and> drop_bit 1 (n ! 0) AND 0x3F = 34) (pps acc) nalus\<rparr>"
proof
  show "ExtractH264Params (s, p) nalus =
     (last_such (\<lambda>n. 1 \<le> length n \<and> n ! 0 AND 0x1F = 7) s nalus,
      last_such (\<lambda>n. 1 \<le> length n \<and> n ! 0 AND 0x1F = 8) p nalus)"
    by (induction nalus arbitrary: s p) (auto simp: last_such_Cons Let_def not_less Suc_le_eq)
  show "ExtractH265Params acc nalus =
     \<lparr>vps = last_such (\<lambda>n. 2 \<le> length n \<and> drop_bit 1 (n ! 0) AND 0x3F = 32) (vps acc) nalus,
      sps = last_such (\<lambda>n. 2 \<le> length n \<and> drop_bit 1 (n ! 0) AND 0x3F = 33) (sps acc) nalus,
      pps = last_such (\<lambda>n. 2 \<le> length n \<and> drop_bit 1 (n ! 0) AND 0x3F = 34) (pps acc) nalus\<rparr>"
    by (induction nalus arbitrary: acc) (auto simp: last_such_Cons Let_def not_less Suc_le_eq)
qed

section \<open>Aggregation packets\<close>

text \<open>One packet's payload; \<^verbatim>\<open>48 << 1\<close> is \<open>0x60\<close>.\<close>

definition fix_aggregation :: "bytes \<Rightarrow> bytes" where
  "fix_aggregation p =
     (if length p < 6 then p
      else if drop_bit 1 (p ! 0) AND 0x3F \<noteq> (48 :: byte) then p
      else let firstNALULen = unat (p ! 2) * 256 + unat (p ! 3)
      in if firstNALULen < 2 \<or> length p < 4 + firstNALULen then p
         else p[0 := (p ! 4 AND 0x81) OR 0x60, 1 := p ! 5])"

definition FixH265AggregationTemporalID :: "bytes list \<Rightarrow> bytes list" where
  "FixH265AggregationTemporalID pkts = map fix_aggregation pkts"

lemma fix_aggregation_type:
  "length p \<ge> 6 \<Longrightarrow> drop_bit 1 (p ! 0) AND 0x3F = (48 :: byte) \<Longrightarrow>
   drop_bit 1 (fix_aggregation p ! 0) AND 0x3F = 48"
proof -
  assume p: "length p \<ge> 6" "drop_bit 1 (p ! 0) AND 0x3F = (48 :: byte)"
  have "drop_bit 1 ((b AND 0x81) OR 0x60) AND 0x3F = (48 :: byte)" for b :: byte
    by (simp add: bit.conj_disj_distrib2 and.assoc)
  moreover have "p \<noteq> []" using p(1) by auto
  ultimately show ?thesis using p by (simp add: fix_aggregation_def Let_def nth_list_update)
qed

text \<open>Repairing an aggregation packet takes the layer and temporal id of its first unit, keeps the
  packet an aggregation packet of the same length with the same body, and repairing it again
  changes nothing; any other packet is left alone.\<close>

theorem fix_aggregation_idempotent:
  "fix_aggregation (fix_aggregation p) = fix_aggregation p
   \<and> length (fix_aggregation p) = length p \<and> drop 2 (fix_aggregation p) = drop 2 p
   \<and> (fix_aggregation p \<noteq> p \<longrightarrow> drop_bit 1 (fix_aggregation p ! 0) AND 0x3F = (48 :: byte)
        \<and> fix_aggregation p ! 1 = p ! 5)"
proof (cases "length p < 6 \<or> drop_bit 1 (p ! 0) AND 0x3F \<noteq> (48 :: byte) \<or>
    unat (p ! 2) * 256 + unat (p ! 3) < 2 \<or> length p < 4 + (unat (p ! 2) * 256 + unat (p ! 3))")
  case True
  then have "fix_aggregation p = p" by (auto simp: fix_aggregation_def Let_def)
  then show ?thesis by simp
next
  case False
  define q where "q = p[0 := (p ! 4 AND 0x81) OR 0x60, 1 := p ! 5]"
  have repaired: "fix_aggregation p = q" using False by (auto simp: fix_aggregation_def Let_def q_def)
  have len: "length q = length p" by (simp add: q_def)
  have "p \<noteq> []" using False by auto
  then have at: "q ! 0 = (p ! 4 AND 0x81) OR 0x60" "q ! 1 = p ! 5" "q ! 2 = p ! 2" "q ! 3 = p ! 3"
    "q ! 4 = p ! 4" "q ! 5 = p ! 5"
    using False by (simp_all add: q_def nth_list_update)
  have agg: "drop_bit 1 (q ! 0) AND 0x3F = (48 :: byte)"
    using fix_aggregation_type [of p] False repaired by auto
  have "q[0 := (q ! 4 AND 0x81) OR 0x60, 1 := q ! 5] = q"
    using at by (metis list_update_id)
  then have "fix_aggregation q = q"
    by (simp only: fix_aggregation_def Let_def if_cancel)
  moreover have "drop 2 q = drop 2 p" by (simp add: q_def)
  ultimately show ?thesis using repaired agg len at by simp
qed

section \<open>ADTS\<close>

record 'c adts_packet =
  AudioConfig :: 'c
  AU :: bytes

datatype aac_error = AdtsParse | EmptySet | MixedConfig

text \<open>\<open>'c\<close> is the triple of object type, sample rate and channel configuration.\<close>

definition ParseAACAccessUnits ::
  "(bytes \<Rightarrow> 'c adts_packet list option) \<Rightarrow> bytes \<Rightarrow> aac_error + bytes list \<times> 'c" where
  "ParseAACAccessUnits unmarshal data =
     (case unmarshal data of
        None \<Rightarrow> Inl AdtsParse
      | Some [] \<Rightarrow> Inl EmptySet
      | Some (first # pkts) \<Rightarrow>
          if list_all (\<lambda>p. AudioConfig p = AudioConfig first) (first # pkts)
          then Inr (map AU (first # pkts), AudioConfig first)
          else Inl MixedConfig)"

end
