(* ===== verification/Talk.thy ===== *)
theory Talk
  imports Client Codec
begin

text \<open>
  Talkback towards the camera (\<^verbatim>\<open>pkg/baichuan/talk.go\<close>): the camera's ability and the choice of
  the audio format, opening a session with the retry after a leftover one, the framing of ADPCM
  blocks, and the session's own state. Times are nanoseconds.
\<close>

section \<open>Ability and configuration\<close>

record talk_audio_config =
  Priority :: "nat option"
  AudioType :: string
  SampleRate :: nat
  SamplePrecision :: nat
  LengthPerEncode :: nat
  SoundTrack :: string

record talk_config =
  tcVersion :: string
  tcChannelID :: byte
  tcDuplex :: string
  tcAudioStreamMode :: string
  tcAudioConfig :: talk_audio_config

record talk_ability =
  taVersion :: string
  DuplexList :: "string list"
  AudioStreamModeList :: "string list"
  AudioConfigList :: "talk_audio_config list"

datatype talk_error =
    NoAbility nat | EmptyAbility | AbilityMissing | NoProfiles | NoAdpcm | ConfigRejected u16
  | AbilityParse | TalkClient client_error

definition opt_uint_field :: "nat \<Rightarrow> string \<Rightarrow> xml list \<Rightarrow> nat option option" where
  "opt_uint_field bits name ks =
     (if elems name ks = [] then Some None else map_option Some (uint_field bits name ks))"

definition decode_audio_config :: "xml list option \<Rightarrow> talk_audio_config option" where
  "decode_audio_config x =
     (case x of
        None \<Rightarrow> Some \<lparr>Priority = None, AudioType = [], SampleRate = 0, SamplePrecision = 0,
                      LengthPerEncode = 0, SoundTrack = []\<rparr>
      | Some ks \<Rightarrow>
          do { prio \<leftarrow> opt_uint_field 32 ''priority'' ks;
               rate \<leftarrow> uint_field 16 ''sampleRate'' ks;
               prec \<leftarrow> uint_field 16 ''samplePrecision'' ks;
               len \<leftarrow> uint_field 16 ''lengthPerEncoder'' ks;
               Some \<lparr>Priority = prio, AudioType = str_field ''audioType'' ks, SampleRate = rate,
                     SamplePrecision = prec, LengthPerEncode = len,
                     SoundTrack = str_field ''soundTrack'' ks\<rparr> })"

fun all_some :: "'a option list \<Rightarrow> 'a list option" where
  "all_some [] = Some []"
| "all_some (x # xs) = do { a \<leftarrow> x; as \<leftarrow> all_some xs; Some (a # as) }"

text \<open>The inner option is the nil pointer of a body without the block.\<close>

definition decode_talk_ability :: "xml \<Rightarrow> talk_ability option option" where
  "decode_talk_ability doc =
     do { body \<leftarrow> root_kids ''body'' doc;
          (case elems ''TalkAbility'' body of
             [] \<Rightarrow> Some None
           | es \<Rightarrow>
               let ks = concat (map snd es); version = attr_value ''version'' (fst (last es))
               in do { cfgs \<leftarrow> all_some (map (\<lambda>opt. decode_audio_config (struct_field ''audioConfig'' opt))
                                           (slice_field ''audioConfigList'' ks));
                       Some (Some
                         \<lparr>taVersion = version,
                          DuplexList = map (str_field ''duplex'') (slice_field ''duplexList'' ks),
                          AudioStreamModeList =
                            map (str_field ''audioStreamMode'') (slice_field ''audioStreamModeList'' ks),
                          AudioConfigList = cfgs\<rparr>) }) }"

text \<open>The choice in both option loops: the wanted value when it is offered, else the first.\<close>

fun offered_or_first :: "string \<Rightarrow> string \<Rightarrow> string list \<Rightarrow> string" where
  "offered_or_first wanted fallback [] = fallback"
| "offered_or_first wanted fallback (x # xs) =
     (if x = wanted then x else offered_or_first wanted fallback xs)"

fun first_adpcm :: "talk_audio_config list \<Rightarrow> talk_audio_config option" where
  "first_adpcm [] = None"
| "first_adpcm (c # cs) =
     (if AudioType c \<noteq> ''adpcm'' then first_adpcm cs
      else if SampleRate c = 0 \<or> LengthPerEncode c = 0 then first_adpcm cs
      else Some c)"

definition defaultTalkConfig :: "byte \<Rightarrow> talk_ability option \<Rightarrow> talk_error + talk_config" where
  "defaultTalkConfig channel ability =
     (case ability of
        None \<Rightarrow> Inl EmptyAbility
      | Some a \<Rightarrow>
          if length (DuplexList a) = 0 \<or> length (AudioStreamModeList a) = 0
             \<or> length (AudioConfigList a) = 0 then Inl NoProfiles
          else (case first_adpcm (AudioConfigList a) of
                  None \<Rightarrow> Inl NoAdpcm
                | Some c \<Rightarrow>
                    Inr \<lparr>tcVersion = (if taVersion a = [] then ''1.1'' else taVersion a),
                         tcChannelID = channel,
                         tcDuplex = offered_or_first ''FDX'' (hd (DuplexList a)) (DuplexList a),
                         tcAudioStreamMode =
                           offered_or_first ''followVideoStream'' (hd (AudioStreamModeList a))
                             (AudioStreamModeList a),
                         tcAudioConfig = c\<lparr>Priority := None\<rparr>\<rparr>))"

section \<open>Requests\<close>

definition msgIDTalkAbility :: u32 where "msgIDTalkAbility = 10"
definition msgIDTalkReset :: u32 where "msgIDTalkReset = 11"
definition msgIDTalkConfig :: u32 where "msgIDTalkConfig = 201"
definition msgIDTalk :: u32 where "msgIDTalk = 202"

definition buildTalkExtension :: "byte \<Rightarrow> bool \<Rightarrow> bytes" where
  "buildTalkExtension channel binaryData =
     marshalXMLDocument (Elem ''Extension'' [(''version'', ''1.1'')]
       (num_field ''channelId'' (uint channel)
        # (if binaryData then [num_field ''binaryData'' 1] else [])))"

definition talk_config_xml :: "talk_config \<Rightarrow> xml" where
  "talk_config_xml c =
     (let a = tcAudioConfig c in
      Elem ''body'' [] [Elem ''TalkConfig'' [(''version'', tcVersion c)]
        [num_field ''channelId'' (uint (tcChannelID c)), field ''duplex'' (tcDuplex c),
         field ''audioStreamMode'' (tcAudioStreamMode c),
         Elem ''audioConfig'' []
           ((case Priority a of None \<Rightarrow> [] | Some p \<Rightarrow> [num_field ''priority'' (int p)])
            @ [field ''audioType'' (AudioType a), num_field ''sampleRate'' (int (SampleRate a)),
               num_field ''samplePrecision'' (int (SamplePrecision a)),
               num_field ''lengthPerEncoder'' (int (LengthPerEncode a)),
               field ''soundTrack'' (SoundTrack a)])]])"

definition talk_request :: "u32 \<Rightarrow> byte \<Rightarrow> bytes \<Rightarrow> request" where
  "talk_request i channel body =
     (base_request i (headerChannelID channel))
       \<lparr>rExtension := buildTalkExtension channel False, rBody := body\<rparr>"

definition getTalkAbility ::
  "xml_parser \<Rightarrow> env \<Rightarrow> byte \<Rightarrow> client \<Rightarrow> (talk_error + talk_ability) \<times> client" where
  "getTalkAbility parser env channel c =
     (case sendRequest env (talk_request msgIDTalkAbility channel []) c of
        (Inl (StatusError i code), c') \<Rightarrow> (Inl (NoAbility (unat code)), c')
      | (Inl e, c') \<Rightarrow> (Inl (TalkClient e), c')
      | (Inr resp, c') \<Rightarrow>
          (case Option.bind (parser (XML resp)) decode_talk_ability of
             None \<Rightarrow> (Inl AbilityParse, c')
           | Some None \<Rightarrow> (Inl AbilityMissing, c')
           | Some (Some a) \<Rightarrow> (Inr a, c')))"

text \<open>A reset that finds no session (status 422) is a success.\<close>

definition stopTalk :: "env \<Rightarrow> byte \<Rightarrow> client \<Rightarrow> client_error option \<times> client" where
  "stopTalk env channel c =
     (case sendRequest env (talk_request msgIDTalkReset channel []) c of
        (Inr m, c') \<Rightarrow> (None, c')
      | (Inl (StatusError i code), c') \<Rightarrow> (if code = 422 then None else Some (StatusError i code), c')
      | (Inl e, c') \<Rightarrow> (Some e, c'))"

definition talk_accepted :: "message \<Rightarrow> talk_error option" where
  "talk_accepted resp = map_option (\<lambda>(i, code). ConfigRejected code) (message_success resp)"

definition startTalkSession ::
  "env \<Rightarrow> byte \<Rightarrow> talk_config \<Rightarrow> client \<Rightarrow> talk_error option \<times> client" where
  "startTalkSession env channel tc c =
     (let req = talk_request msgIDTalkConfig channel (marshalXMLDocument (talk_config_xml tc))
      in case roundTripRequest env req c of
           (Inl e, c1) \<Rightarrow> (Some (TalkClient e), c1)
         | (Inr resp, c1) \<Rightarrow>
             if ResponseCode (Header resp) = 421 \<or> ResponseCode (Header resp) = 422 then
               (case stopTalk env channel c1 of
                  (Some e, c2) \<Rightarrow> (Some (TalkClient e), c2)
                | (None, c2) \<Rightarrow>
                    (case roundTripRequest env req c2 of
                       (Inl e, c3) \<Rightarrow> (Some (TalkClient e), c3)
                     | (Inr resp', c3) \<Rightarrow> (talk_accepted resp', c3)))
             else (talk_accepted resp, c1))"

section \<open>A session\<close>

text \<open>\<open>talkClosed\<close> stands for \<^verbatim>\<open>closed\<close> and \<^verbatim>\<open>closeOnce\<close>, which \<^verbatim>\<open>Close\<close> sets together, whatever the camera answers to
  its stop: it says that this side is done with the session, and the error of \<^verbatim>\<open>Close\<close> what the camera made of it.\<close>

record talk_session =
  tsChannel :: byte
  tsMsgNum :: u16
  binaryExtension :: bytes
  sampleRate :: nat
  samplesPerBlock :: nat
  bytesPerBlock :: nat
  blockDuration :: int
  talkClosed :: bool
  tsSeq :: u16
  playoutEnd :: int

definition second :: int where "second = 10 ^ 9"

definition new_talk_session :: "byte \<Rightarrow> u16 \<Rightarrow> talk_config \<Rightarrow> talk_session" where
  "new_talk_session channel num tc =
     (let a = tcAudioConfig tc in
      \<lparr>tsChannel = channel, tsMsgNum = num, binaryExtension = buildTalkExtension channel True,
       sampleRate = SampleRate a, samplesPerBlock = LengthPerEncode a,
       bytesPerBlock = LengthPerEncode a div 2 + 4,
       blockDuration = int (LengthPerEncode a) * second div int (SampleRate a),
       talkClosed = False, tsSeq = 0, playoutEnd = 0\<rparr>)"

definition StartTalk ::
  "(client \<Rightarrow> (client_error option \<times> client) option) \<Rightarrow> xml_parser \<Rightarrow> env \<Rightarrow> byte \<Rightarrow> client \<Rightarrow>
   ((talk_error + talk_session) \<times> client) option" where
  "StartTalk login parser env channel c =
     do { (err, c1) \<leftarrow> login c;
          Some (case err of
            Some e \<Rightarrow> (Inl (TalkClient e), c1)
          | None \<Rightarrow>
              (case getTalkAbility parser env channel c1 of
                 (Inl e, c2) \<Rightarrow> (Inl e, c2)
               | (Inr ability, c2) \<Rightarrow>
                   (case defaultTalkConfig channel (Some ability) of
                      Inl e \<Rightarrow> (Inl e, c2)
                    | Inr tc \<Rightarrow>
                        (case startTalkSession env channel tc c2 of
                           (Some e, c3) \<Rightarrow> (Inl e, c3)
                         | (None, c3) \<Rightarrow>
                             let (num, c4) = reserveMessageNumber c3
                             in (Inr (new_talk_session channel num tc), c4))))) }"

definition serializeTalkADPCMBlock :: "bytes \<Rightarrow> u16 \<Rightarrow> bytes" where
  "serializeTalkADPCMBlock block sq =
     (let payloadSize = length block + 4
      in le32 bcmediaADPCM @ le16 (word_of_nat payloadSize) @ le16 (word_of_nat payloadSize)
           @ le16 bcmediaADPCMHeader @ le16 sq @ block @ zeros (padLen payloadSize))"

datatype write_block_error = TalkCanceled | BadBlockSize nat | BlockTransport

text \<open>
  \<^verbatim>\<open>WriteADPCMBlock\<close> at time \<open>now\<close>; \<open>ok\<close> says whether the transport took the request, which is
  the last component when there is one.
\<close>

definition WriteADPCMBlock ::
  "bool \<Rightarrow> int \<Rightarrow> bytes \<Rightarrow> talk_session \<Rightarrow> client \<Rightarrow>
   write_block_error option \<times> talk_session \<times> client \<times> request option" where
  "WriteADPCMBlock ok now block s c =
     (if talkClosed s then (Some TalkCanceled, s, c, None)
      else if length block \<noteq> bytesPerBlock s then (Some (BadBlockSize (length block)), s, c, None)
      else let s1 = s\<lparr>tsSeq := tsSeq s + 1\<rparr>;
               (num, c1) = reserveMessageNumber c;
               req = (base_request msgIDTalk (headerChannelID (tsChannel s1)))
                       \<lparr>rMsgNum := num, rExtension := binaryExtension s1,
                        rBody := serializeTalkADPCMBlock block (tsSeq s1), rBinary := True\<rparr>
           in if \<not> ok then (Some BlockTransport, s1, c1, Some req)
              else let from = (if playoutEnd s1 < now then now else playoutEnd s1)
                   in (None, s1\<lparr>playoutEnd := from + blockDuration s1\<rparr>, c1, Some req))"

definition talkPlayoutMargin :: int where "talkPlayoutMargin = 1500 * 10 ^ 6"

text \<open>\<^verbatim>\<open>Close\<close>: how long it waits for the playout (unless the context ends first), then the reset.\<close>

definition close_wait :: "int \<Rightarrow> talk_session \<Rightarrow> int" where
  "close_wait now s = max 0 (playoutEnd s + talkPlayoutMargin - now)"

definition CloseTalk :: "env \<Rightarrow> talk_session \<Rightarrow> client \<Rightarrow> client_error option \<times> talk_session \<times> client" where
  "CloseTalk env s c =
     (if talkClosed s then (None, s, c)
      else case stopTalk env (tsChannel s) c of (err, c') \<Rightarrow> (err, s\<lparr>talkClosed := True\<rparr>, c'))"

section \<open>The blocks the camera reads\<close>

lemma serialize_is_unit:
  "serializeTalkADPCMBlock block sq =
     unit_bytes (AdpcmUnit (le16 (word_of_nat (length block + 4))) (le16 sq) block
       (zeros (padLen (length block + 4))))"
  by (simp add: serializeTalkADPCMBlock_def Let_def)

text \<open>C34: From the microphone to the camera's decoder: a block of an even number of samples encoded with
  the session's ADPCM encoder, framed for talkback and parsed as the camera parses its media, is
  one ADPCM packet of exactly the framed bytes, and decoding it goes through the encoder's own
  predictions and ends in its state, so the next block continues where this one stopped.\<close>

theorem talk_block_arrives:
  assumes "adpcm_ok e" "even (length pcm)" "pcm \<noteq> []" "length pcm \<le> 65534"
  shows "\<exists>e' block. encode_block e pcm = (e', Inr block) \<and> adpcm_ok e'
    \<and> parseMediaPacket (serializeTalkADPCMBlock block sq @ tail) =
        Parsed ((empty_packet ADPCM)\<lparr>Data := block\<rparr>) (length (serializeTalkADPCMBlock block sq))
    \<and> adpcm_decode d block =
        (e', map (\<lambda>x. word_of_int (predicted x)) (encoder_trace e (map sint pcm)))"
proof -
  obtain e' out where 1: "encode_samples e pcm = (e', out)" by fastforce
  note 2 = decode_encode_samples [OF assms(2) 1]
  define block where "block = le16 (word_of_int (predicted e)) @ [word_of_int (index e), 0] @ out"
  have enc: "encode_block e pcm = (e', Inr block)"
    using encode_block_layout [OF 1 assms(2,3)] by (simp add: block_def)
  have ok: "adpcm_ok e'"
    using 2 decode_payload_ok [OF assms(1), of out] by simp
  have "length block + 4 < 2 ^ 16"
    using 2 assms(4) by (simp add: block_def)
  then have "unit_wf (AdpcmUnit (le16 (word_of_nat (length block + 4))) (le16 sq) block
      (zeros (padLen (length block + 4))))" by simp
  from parse_unit [OF this, of tail]
  have "parseMediaPacket (serializeTalkADPCMBlock block sq @ tail) =
      Parsed ((empty_packet ADPCM)\<lparr>Data := block\<rparr>) (length (serializeTalkADPCMBlock block sq))"
    by (simp add: serialize_is_unit del: unit_bytes.simps)
  moreover have "adpcm_decode d block =
      (e', map (\<lambda>x. word_of_int (predicted x)) (encoder_trace e (map sint pcm)))"
    using 2 adpcm_decode_header [OF assms(1)] by (simp add: block_def)
  ultimately show ?thesis using enc ok by blast
qed

theorem talk_block_arrives_witness:
  "\<exists>e' block. encode_block \<lparr>predicted = 0, index = 0\<rparr> [1, 2] = (e', Inr block)
    \<and> parseMediaPacket (serializeTalkADPCMBlock block 7 @ [9]) =
        Parsed ((empty_packet ADPCM)\<lparr>Data := block\<rparr>) (length (serializeTalkADPCMBlock block 7))"
  using talk_block_arrives [of "\<lparr>predicted = 0, index = 0\<rparr>" "[1, 2]" 7 "[9]" "\<lparr>predicted = 0, index = 0\<rparr>"]
  by (simp add: adpcm_ok_def) blast

lemma first_adpcm_spec:
  "first_adpcm cs = List.find (\<lambda>c. AudioType c = ''adpcm'' \<and> SampleRate c \<noteq> 0 \<and> LengthPerEncode c \<noteq> 0) cs"
  by (induction cs) auto

lemma offered_or_first_spec:
  "offered_or_first w f xs = (if w \<in> set xs then w else f)"
  by (induction xs) auto

text \<open>The session \<^verbatim>\<open>StartTalk\<close> opens fits its own audio format: the camera's first usable ADPCM
  format is taken, FDX and followVideoStream when they are offered, the block sizes are those of
  the encoder, and a block is never played in no time or by a rate of zero (the division that
  computes its duration cannot panic).\<close>

theorem talk_config_usable:
  assumes "defaultTalkConfig channel (Some a) = Inr tc"
  shows "tcAudioConfig tc \<in> (\<lambda>c. c\<lparr>Priority := None\<rparr>) ` set (AudioConfigList a)
    \<and> AudioType (tcAudioConfig tc) = ''adpcm''
    \<and> 0 < SampleRate (tcAudioConfig tc) \<and> 0 < LengthPerEncode (tcAudioConfig tc)
    \<and> (''FDX'' \<in> set (DuplexList a) \<longrightarrow> tcDuplex tc = ''FDX'')
    \<and> tcDuplex tc \<in> set (DuplexList a)
    \<and> (''followVideoStream'' \<in> set (AudioStreamModeList a) \<longrightarrow> tcAudioStreamMode tc = ''followVideoStream'')
    \<and> tcAudioStreamMode tc \<in> set (AudioStreamModeList a)
    \<and> (\<forall>e pcm e' block. length pcm = samplesPerBlock (new_talk_session channel num tc) \<longrightarrow>
         encode_block e pcm = (e', Inr block) \<longrightarrow>
         length block = bytesPerBlock (new_talk_session channel num tc))"
proof -
  obtain c where c: "first_adpcm (AudioConfigList a) = Some c"
    "tcAudioConfig tc = c\<lparr>Priority := None\<rparr>"
    and lists: "DuplexList a \<noteq> []" "AudioStreamModeList a \<noteq> []"
    and tc: "tcDuplex tc = offered_or_first ''FDX'' (hd (DuplexList a)) (DuplexList a)"
      "tcAudioStreamMode tc = offered_or_first ''followVideoStream'' (hd (AudioStreamModeList a))
        (AudioStreamModeList a)"
    using assms by (auto simp: defaultTalkConfig_def split: if_splits option.splits)
  have usable: "c \<in> set (AudioConfigList a)" "AudioType c = ''adpcm''" "SampleRate c \<noteq> 0" "LengthPerEncode c \<noteq> 0"
    using c(1) by (auto simp: first_adpcm_spec find_Some_iff)
  have block: "length block = LengthPerEncode c div 2 + 4"
    if "encode_block e pcm = (e', Inr block)" "length pcm = LengthPerEncode c" for e pcm e' block
  proof -
    have "pcm \<noteq> []" using that(2) usable(4) by auto
    note that = that(1) this that(2)
    have even: "even (length pcm)"
      using that by (auto simp: encode_block_def even_iff_mod_2_eq_zero split: if_splits prod.splits)
    obtain e2 out where "encode_samples e pcm = (e2, out)" by fastforce
    from encode_block_layout [OF this even that(2)] decode_encode_samples [OF even this] that(1,3)
    show ?thesis by simp
  qed
  show ?thesis
    using usable c lists tc block
    by (auto simp: offered_or_first_spec new_talk_session_def Let_def)
qed

theorem talk_config_usable_witness:
  "\<exists>tc. defaultTalkConfig 0 (Some \<lparr>taVersion = [], DuplexList = [''FDX''],
      AudioStreamModeList = [''followVideoStream''],
      AudioConfigList = [\<lparr>Priority = None, AudioType = ''adpcm'', SampleRate = 16000,
        SamplePrecision = 16, LengthPerEncode = 1024, SoundTrack = ''mono''\<rparr>]\<rparr>) = Inr tc
    \<and> 0 < SampleRate (tcAudioConfig tc)"
proof -
  let ?a = "\<lparr>taVersion = [], DuplexList = [''FDX''],
      AudioStreamModeList = [''followVideoStream''],
      AudioConfigList = [\<lparr>Priority = None, AudioType = ''adpcm'', SampleRate = 16000,
        SamplePrecision = 16, LengthPerEncode = 1024, SoundTrack = ''mono''\<rparr>]\<rparr>"
  have "\<exists>tc. defaultTalkConfig 0 (Some ?a) = Inr tc" by (simp add: defaultTalkConfig_def)
  then obtain tc where tc: "defaultTalkConfig 0 (Some ?a) = Inr tc" ..
  from talk_config_usable [OF tc] show ?thesis using tc by blast
qed

section \<open>The playout clock\<close>

fun write_blocks :: "(int \<times> bytes) list \<Rightarrow> talk_session \<Rightarrow> client \<Rightarrow> talk_session \<times> client" where
  "write_blocks [] s c = (s, c)"
| "write_blocks ((now, block) # ws) s c =
     (case WriteADPCMBlock True now block s c of (err, s', c', req) \<Rightarrow> write_blocks ws s' c')"

lemma WriteADPCMBlock_step:
  "\<not> talkClosed s \<Longrightarrow> length block = bytesPerBlock s \<Longrightarrow>
   \<exists>s' c' req. WriteADPCMBlock True now block s c = (None, s', c', Some req)
     \<and> s' = s\<lparr>tsSeq := tsSeq s + 1, playoutEnd := max now (playoutEnd s) + blockDuration s\<rparr>
     \<and> rBody req = serializeTalkADPCMBlock block (tsSeq s + 1) \<and> rBinary req"
  by (simp add: WriteADPCMBlock_def reserveMessageNumber_def Let_def max_def)

text \<open>The session knows when the camera will be silent: after blocks were written its end of playout
  lies at least the duration of all of them behind the first write and at least one block behind
  the last, so closing waits for what the camera still has to play, and at most for as much as
  was written.\<close>

theorem playout_end_covers_blocks:
  assumes "\<not> talkClosed s" "\<forall>(now, block) \<in> set ws. length block = bytesPerBlock s"
    and "0 \<le> blockDuration s" "ws \<noteq> []" "write_blocks ws s c = (s', c')"
    and "\<forall>(now, block) \<in> set ws. now \<le> last_now"
  shows "fst (hd ws) + int (length ws) * blockDuration s \<le> playoutEnd s'
    \<and> fst (last ws) + blockDuration s \<le> playoutEnd s'
    \<and> playoutEnd s' \<le> max last_now (playoutEnd s) + int (length ws) * blockDuration s
    \<and> close_wait last_now s' \<le> max 0 (playoutEnd s - last_now) + int (length ws) * blockDuration s + talkPlayoutMargin"
proof -
  have lower: "\<not> talkClosed s \<Longrightarrow> \<forall>(now, block) \<in> set ws. length block = bytesPerBlock s \<Longrightarrow>
      0 \<le> blockDuration s \<Longrightarrow> write_blocks ws s c = (s', c') \<Longrightarrow>
      \<forall>(now, block) \<in> set ws. now \<le> last_now \<Longrightarrow>
      playoutEnd s + int (length ws) * blockDuration s \<le> playoutEnd s'
      \<and> (ws \<noteq> [] \<longrightarrow> fst (hd ws) + int (length ws) * blockDuration s \<le> playoutEnd s'
           \<and> fst (last ws) + blockDuration s \<le> playoutEnd s')
      \<and> playoutEnd s' \<le> max last_now (playoutEnd s) + int (length ws) * blockDuration s" for ws s c s' c'
  proof (induction ws arbitrary: s c)
    case (Cons w ws)
    obtain now block where w: "w = (now, block)" by (cases w)
    obtain s1 c1 req where st: "WriteADPCMBlock True now block s c = (None, s1, c1, Some req)"
      "s1 = s\<lparr>tsSeq := tsSeq s + 1, playoutEnd := max now (playoutEnd s) + blockDuration s\<rparr>"
      using WriteADPCMBlock_step [of s block now c] Cons.prems(1,2) w by auto
    have "write_blocks ws s1 c1 = (s', c')" using Cons.prems(4) w st(1) by simp
    from Cons.IH [OF _ _ _ this] Cons.prems(1-3,5) w
    have IH: "playoutEnd s1 + int (length ws) * blockDuration s \<le> playoutEnd s'"
      "ws \<noteq> [] \<longrightarrow> fst (last ws) + blockDuration s \<le> playoutEnd s'"
      "playoutEnd s' \<le> max last_now (playoutEnd s1) + int (length ws) * blockDuration s"
      by (auto simp: st(2))
    have now: "now \<le> last_now" using Cons.prems(5) w by auto
    have nn: "0 \<le> int (length ws) * blockDuration s" using Cons.prems(3) by simp
    have e: "playoutEnd s1 = max now (playoutEnd s) + blockDuration s" by (simp add: st(2))
    have len: "int (length (w # ws)) * blockDuration s = int (length ws) * blockDuration s + blockDuration s"
      by (simp add: algebra_simps)
    show ?case
      unfolding len using IH e now nn Cons.prems(3) w
      by (auto simp: max_def split: if_splits)
  qed simp
  have "0 \<le> int (length ws) * blockDuration s" using assms(3) by simp
  with lower [OF assms(1,2,3,5,6)] assms(4) show ?thesis
    by (simp add: close_wait_def talkPlayoutMargin_def max_def split: if_splits)
qed

definition demo_talk :: talk_session where
  "demo_talk = \<lparr>tsChannel = 0, tsMsgNum = 0, binaryExtension = [], sampleRate = 8000,
     samplesPerBlock = 4, bytesPerBlock = 6, blockDuration = 500000, talkClosed = False, tsSeq = 0,
     playoutEnd = 0\<rparr>"

theorem playout_end_covers_blocks_witness:
  "\<exists>s'. fst (write_blocks [(10, [0, 0, 0, 0, 1, 2])] demo_talk (new_client demo_config False)) = s'
    \<and> 10 + 500000 \<le> playoutEnd s'"
  using playout_end_covers_blocks [of demo_talk "[(10, [0, 0, 0, 0, 1, 2])]"
      "new_client demo_config False"
      "fst (write_blocks [(10, [0, 0, 0, 0, 1, 2])] demo_talk (new_client demo_config False))"
      "snd (write_blocks [(10, [0, 0, 0, 0, 1, 2])] demo_talk (new_client demo_config False))" 10]
  by (simp add: demo_talk_def)

end
