(* ===== verification/Timeline.thy ===== *)
theory Timeline
  imports Prelude Complex_Main
begin

text \<open>
  The clocks of a stream, \<^verbatim>\<open>pkg/bridge/stream_run.go\<close>: the camera's 32-bit microsecond clock
  unwrapped to 64 bits, the corrected timeline video and audio share, the guard that keeps RTP
  timestamps in order, and the live edge that drops a backlog. Times are nanoseconds (\<open>int\<close>) and
  an input wherever the code reads the clock; \<^verbatim>\<open>float64\<close> values are rationals with the rounding of
  the machine as the parameter \<open>rnd\<close>.
\<close>

section \<open>Unwrapping the camera clock\<close>

definition absDiff :: "u64 \<Rightarrow> u64 \<Rightarrow> u64" where
  "absDiff a b = (if b < a then a - b else b - a)"

definition unwrapTimestamp :: "u32 \<Rightarrow> u64 \<Rightarrow> u64" where
  "unwrapTimestamp ts32 highest64 =
     (if highest64 = 0 then ucast ts32
      else let high32 = drop_bit 32 highest64;
               cand1 = push_bit 32 high32 OR ucast ts32;
               cand2 = (if 2 ^ 32 \<le> cand1 then cand1 - 2 ^ 32 else cand1);
               cand3 = cand1 + 2 ^ 32;
               bestCand = (if absDiff cand2 highest64 < absDiff cand1 highest64 then cand2 else cand1);
               bestDiff = absDiff bestCand highest64
           in if absDiff cand3 highest64 < bestDiff then cand3 else bestCand)"

record timestampUnwrapper =
  highest :: u64
  unwrapOffset :: u64
  baseSet :: bool

text \<open>\<open>now\<close> is the wall clock in microseconds.\<close>

definition unwrap :: "int \<Rightarrow> u32 \<Rightarrow> timestampUnwrapper \<Rightarrow> u64 \<times> timestampUnwrapper" where
  "unwrap now ts32 u =
     (if \<not> baseSet u then
        let systemMicro = word_of_int (max now 0)
        in (systemMicro, u\<lparr>unwrapOffset := systemMicro - ucast ts32, highest := ucast ts32, baseSet := True\<rparr>)
      else let continuous = unwrapTimestamp ts32 (highest u);
               u' = (if highest u < continuous then u\<lparr>highest := continuous\<rparr> else u)
           in (continuous + unwrapOffset u, u'))"

definition fresh_unwrapper :: timestampUnwrapper where
  "fresh_unwrapper = \<lparr>highest = 0, unwrapOffset = 0, baseSet = False\<rparr>"

fun unwrap_run :: "int \<Rightarrow> u32 list \<Rightarrow> timestampUnwrapper \<Rightarrow> u64 list" where
  "unwrap_run now [] u = []"
| "unwrap_run now (ts # rest) u = (case unwrap now ts u of (us, u') \<Rightarrow> us # unwrap_run now rest u')"

lemma uint_absDiff: "uint (absDiff a b) = \<bar>uint a - uint b\<bar>"
  by (auto simp: absDiff_def uint_sub_if' word_less_def)

lemma uint_splice: "uint (push_bit 32 (drop_bit 32 (h :: u64)) OR ucast (ts :: u32)) =
    uint h div 2 ^ 32 * 2 ^ 32 + uint ts"
proof -
  have disj: "push_bit 32 (drop_bit 32 h) AND (ucast ts :: u64) = 0"
    by (rule bit_eqI) (auto simp: bit_and_iff bit_push_bit_iff bit_unsigned_iff dest: bit_imp_le_length)
  have "push_bit 32 (drop_bit 32 h) OR (ucast ts :: u64) = push_bit 32 (drop_bit 32 h) + ucast ts"
    using disjunctive_add_eq_or [OF disj] by simp
  moreover have "uint (push_bit 32 (drop_bit 32 h)) = uint h div 2 ^ 32 * 2 ^ 32"
  proof -
    have "uint h div 2 ^ 32 * 2 ^ 32 < 2 ^ 64" "0 \<le> uint h div 2 ^ 32 * 2 ^ 32"
      using uint_lt2p [of h] by (simp_all add: pos_imp_zdiv_nonneg_iff)
    then show ?thesis
      by (simp add: drop_bit_eq_div push_bit_eq_mult uint_word_ariths uint_div)
  qed
  moreover have "uint h div 2 ^ 32 * 2 ^ 32 + uint ts < 2 ^ 64"
  proof -
    have "uint h div 2 ^ 32 \<le> 2 ^ 32 - 1"
      using zdiv_mono1 [of "uint h" "2 ^ 64 - 1" "2 ^ 32"] uint_lt2p [of h] by simp
    then show ?thesis using uint_lt2p [of ts] by simp
  qed
  moreover have "0 \<le> uint h div 2 ^ 32 * 2 ^ 32 + uint ts" by (simp add: pos_imp_zdiv_nonneg_iff)
  ultimately show ?thesis by (simp add: uint_word_ariths uint_up_ucast is_up)
qed

text \<open>The true time \<open>t\<close> lies within half a period of the highest time seen \<open>h\<close>.\<close>

lemma unwrapTimestamp_true:
  assumes "0 \<le> t" "\<bar>t - uint h\<bar> < 2 ^ 31" "uint h < 2 ^ 63"
  shows "uint (unwrapTimestamp (word_of_int t) h) = t"
proof -
  have t: "t < 2 ^ 64" using assms by simp
  define ts where "ts = (word_of_int t :: u32)"
  have ts: "uint ts = t mod 2 ^ 32" by (simp add: ts_def uint_word_of_int)
  define cand1 where "cand1 = push_bit 32 (drop_bit 32 h) OR (ucast ts :: u64)"
  have c1: "uint cand1 = uint h div 2 ^ 32 * 2 ^ 32 + t mod 2 ^ 32"
    unfolding cand1_def uint_splice ts ..
  define q where "q = uint h div 2 ^ 32"
  define q' where "q' = t div 2 ^ 32"
  define r where "r = uint h mod 2 ^ 32"
  define x where "x = t mod 2 ^ 32"
  have H: "uint h = 2 ^ 32 * q + r" "0 \<le> r" "r < 2 ^ 32" by (auto simp: q_def r_def)
  have T: "t = 2 ^ 32 * q' + x" "0 \<le> x" "x < 2 ^ 32" by (auto simp: q'_def x_def)
  have q0: "0 \<le> q" "0 \<le> q'" using assms(1) by (simp_all add: q_def q'_def pos_imp_zdiv_nonneg_iff)
  have near: "q' = q \<or> q' = q + 1 \<or> q' = q - 1" using assms(2) H T by auto
  have c1': "uint cand1 = 2 ^ 32 * q + x" using c1 by (simp add: q_def x_def)
  have c3: "uint (cand1 + 2 ^ 32) = 2 ^ 32 * q + x + 2 ^ 32"
    using c1' H(2) T(2,3) assms(3) H(1) q0(1) by (simp add: uint_word_ariths)
  have ge: "4294967296 \<le> cand1 \<longleftrightarrow> 1 \<le> q"
    using c1' T(2,3) q0 by (auto simp: word_le_def)
  have c2: "1 \<le> q \<Longrightarrow> uint (cand1 - 2 ^ 32) = 2 ^ 32 * q + x - 2 ^ 32"
    using c1' T(2) by (simp add: uint_sub_if')
  have zero: "h = 0 \<Longrightarrow> ?thesis"
    using assms ts by (simp add: unwrapTimestamp_def uint_up_ucast is_up flip: ts_def)
  define best where "best = (if absDiff (if 2 ^ 32 \<le> cand1 then cand1 - 2 ^ 32 else cand1) h < absDiff cand1 h
    then if 2 ^ 32 \<le> cand1 then cand1 - 2 ^ 32 else cand1 else cand1)"
  have unfold: "h \<noteq> 0 \<Longrightarrow> unwrapTimestamp (word_of_int t) h =
      (if absDiff (cand1 + 2 ^ 32) h < absDiff best h then cand1 + 2 ^ 32 else best)"
    by (simp add: unwrapTimestamp_def Let_def cand1_def ts_def best_def)
  have d1: "uint (absDiff cand1 h) = \<bar>x - r\<bar>" by (simp add: uint_absDiff c1' H(1))
  have d2: "uint (absDiff (cand1 - 2 ^ 32) h) = \<bar>x - r - 2 ^ 32\<bar>" if "1 \<le> q"
    unfolding uint_absDiff c2 [OF that] H(1) by (simp add: algebra_simps)
  have d3: "uint (absDiff (cand1 + 2 ^ 32) h) = \<bar>x - r + 2 ^ 32\<bar>"
    unfolding uint_absDiff c3 H(1) by (simp add: algebra_simps)
  have "uint (unwrapTimestamp (word_of_int t) h) = t" if "h \<noteq> 0"
    using near
  proof (elim disjE)
    assume "q' = q"
    then have "\<bar>x - r\<bar> < 2 ^ 31" and tq: "t = uint cand1" using assms(2) H(1) T(1) c1' by auto
    then have "\<not> absDiff (cand1 + 2 ^ 32) h < absDiff cand1 h"
      and "1 \<le> q \<Longrightarrow> \<not> absDiff (cand1 - 2 ^ 32) h < absDiff cand1 h"
      using d1 d2 d3 by (auto simp: word_less_def)
    then show ?thesis using unfold [OF that] tq by (simp add: best_def ge)
  next
    assume "q' = q + 1"
    then have "x - r < - (2 ^ 31)" and tq: "t = uint (cand1 + 2 ^ 32)" using assms(2) H(1) T(1) c3 by auto
    then have "absDiff (cand1 + 2 ^ 32) h < absDiff cand1 h"
      and "1 \<le> q \<Longrightarrow> \<not> absDiff (cand1 - 2 ^ 32) h < absDiff cand1 h"
      using d1 d2 d3 T(2) H(3) by (auto simp: word_less_def)
    then show ?thesis using unfold [OF that] tq by (simp add: best_def ge)
  next
    assume q: "q' = q - 1"
    then have q1: "1 \<le> q" using q0 by simp
    have "2 ^ 31 < x - r" and tq: "t = uint (cand1 - 2 ^ 32)" using assms(2) H(1) T(1) c2 [OF q1] q by auto
    then have "absDiff (cand1 - 2 ^ 32) h < absDiff cand1 h"
      and "\<not> absDiff (cand1 + 2 ^ 32) h < absDiff (cand1 - 2 ^ 32) h"
      using d1 d2 [OF q1] d3 T(3) H(2) by (auto simp: word_less_def)
    then show ?thesis using unfold [OF that] tq q1 by (simp add: best_def ge)
  qed
  with zero show ?thesis by blast
qed

text \<open>The times a camera clock shows: each within half a period of the highest before it.\<close>

fun clock_run :: "int \<Rightarrow> int list \<Rightarrow> bool" where
  "clock_run h [] = True"
| "clock_run h (t # ts) = (0 \<le> t \<and> \<bar>t - h\<bar> < 2 ^ 31 \<and> t < 2 ^ 63 \<and> clock_run (max h t) ts)"

lemma unwrap_run_based:
  assumes "baseSet u" "clock_run (uint (highest u)) ts" "uint (highest u) < 2 ^ 63"
  shows "unwrap_run now (map word_of_int ts) u = map (\<lambda>t. word_of_int t + unwrapOffset u) ts"
  using assms
proof (induction ts arbitrary: u)
  case (Cons t ts)
  have t: "uint (unwrapTimestamp (word_of_int t) (highest u)) = t"
    using unwrapTimestamp_true [of t "highest u"] Cons.prems by simp
  then have w: "unwrapTimestamp (word_of_int t) (highest u) = word_of_int t"
    by (metis word_of_int_uint)
  define u' where "u' = snd (unwrap now (word_of_int t) u)"
  have h: "uint (highest u') = max (uint (highest u)) t" "baseSet u'" "unwrapOffset u' = unwrapOffset u"
    using Cons.prems(1) t by (auto simp: u'_def unwrap_def Let_def word_less_def)
  have "unwrap_run now (map word_of_int ts) u' = map (\<lambda>t. word_of_int t + unwrapOffset u') ts"
    using Cons.prems h by (intro Cons.IH) auto
  moreover have "unwrap now (word_of_int t) u = (word_of_int t + unwrapOffset u, u')"
    using Cons.prems(1) w by (simp add: u'_def unwrap_def Let_def)
  ultimately show ?case using h by simp
qed simp

text \<open>The 64-bit timeline is the camera's clock moved to the wall clock of the first frame: however
  often the 32-bit microsecond counter wraps, and for late packets before a wrap as well, as long
  as no packet is more than 35 minutes (half a period) off the highest time seen, every packet is
  placed at its true distance from the first.\<close>

theorem unwrap_follows_clock:
  assumes "0 \<le> t0" "t0 < 2 ^ 32" "clock_run t0 ts" "0 \<le> now" "now < 2 ^ 63"
  shows "unwrap_run now (map word_of_int (t0 # ts)) fresh_unwrapper =
    map (\<lambda>t. word_of_int (now + (t - t0))) (t0 # ts)"
proof -
  define u where "u = snd (unwrap now (word_of_int t0) fresh_unwrapper)"
  have t0: "(ucast (word_of_int t0 :: u32) :: u64) = word_of_int t0"
    using assms(1,2) by (simp add: unsigned_ucast_eq ucast_eq uint_word_of_int)
  have u: "baseSet u" "uint (highest u) = t0" "unwrapOffset u = word_of_int (now - t0)"
    using assms(1,2,4) t0 by (auto simp: u_def unwrap_def fresh_unwrapper_def Let_def uint_word_of_int)
  have "unwrap_run now (map word_of_int ts) u = map (\<lambda>t. word_of_int t + unwrapOffset u) ts"
    using unwrap_run_based [of u ts now] assms u by simp
  moreover have "unwrap now (word_of_int t0) fresh_unwrapper = (word_of_int now, u)"
    using assms(4) by (simp add: u_def unwrap_def fresh_unwrapper_def Let_def)
  ultimately show ?thesis by (simp add: u algebra_simps)
qed

theorem unwrap_follows_clock_witness:
  "unwrap_run 1000 [4294967290, 4294967295, 4, 4294967291] fresh_unwrapper = [1000, 1005, 1010, 1001]"
proof -
  have wrap: "(4294967300 :: u32) = 4" by (simp add: word_uint_eq_iff)
  show ?thesis
    using unwrap_follows_clock [of 4294967290 "[4294967295, 4294967300, 4294967291]" 1000]
    by (simp add: wrap del: unwrap_run.simps)
qed

section \<open>The corrected timeline\<close>

text \<open>Signed 64-bit arithmetic of the offset, kept as \<^typ>\<open>int\<close> with its wrap-around.\<close>

definition i64 :: "int \<Rightarrow> int" where
  "i64 x = signed_take_bit 63 x"

lemma i64_small: "- (2 ^ 63) \<le> x \<Longrightarrow> x < 2 ^ 63 \<Longrightarrow> i64 x = x"
  by (simp add: i64_def signed_take_bit_int_eq_self)

definition maxTrustedVideoDeltaUS :: int where "maxTrustedVideoDeltaUS = 500000"
definition fallbackVideoDeltaUS :: int where "fallbackVideoDeltaUS = 40000"

text \<open>\<^verbatim>\<open>int64(f)\<close>: the fraction is dropped.\<close>

definition trunc :: "rat \<Rightarrow> int" where
  "trunc x = (if x < 0 then - \<lfloor>- x\<rfloor> else \<lfloor>x\<rfloor>)"

record mediaTimeline =
  unwrapper :: timestampUnwrapper
  tlOffset :: int
  lastVideo :: u64
  avgDeltaUS :: rat
  haveVideo :: bool

definition applyOffset :: "u64 \<Rightarrow> mediaTimeline \<Rightarrow> u64" where
  "applyOffset raw t = (let us = i64 (sint raw - tlOffset t) in if us < 0 then 0 else word_of_int us)"

definition average :: "(rat \<Rightarrow> rat) \<Rightarrow> rat \<Rightarrow> int \<Rightarrow> rat" where
  "average rnd avg delta = rnd (avg + rnd (rnd (rnd (of_int delta) - avg) * rnd (1 / 10)))"

definition place_video :: "(rat \<Rightarrow> rat) \<Rightarrow> u64 \<Rightarrow> mediaTimeline \<Rightarrow> u64 \<times> mediaTimeline" where
  "place_video rnd raw t =
     (let us = applyOffset raw t in
      if \<not> haveVideo t then (us, t\<lparr>haveVideo := True, lastVideo := us\<rparr>)
      else let delta = i64 (sint us - sint (lastVideo t)) in
        if delta \<le> 0 \<or> maxTrustedVideoDeltaUS < delta then
          let step0 = trunc (avgDeltaUS t);
              step = (if step0 \<le> 0 then fallbackVideoDeltaUS else step0);
              us' = lastVideo t + word_of_int step
          in (us', t\<lparr>tlOffset := i64 (tlOffset t + i64 (delta - step)), lastVideo := us'\<rparr>)
        else if avgDeltaUS t = 0 then (us, t\<lparr>avgDeltaUS := rnd (of_int delta), lastVideo := us\<rparr>)
        else (us, t\<lparr>avgDeltaUS := average rnd (avgDeltaUS t) delta, lastVideo := us\<rparr>))"

text \<open>\<^verbatim>\<open>mediaTimeline.video\<close>: the time to publish, the raw camera time, the timeline after.\<close>

definition timeline_video :: "(rat \<Rightarrow> rat) \<Rightarrow> int \<Rightarrow> u32 \<Rightarrow> mediaTimeline \<Rightarrow> (u64 \<times> u64) \<times> mediaTimeline" where
  "timeline_video rnd now ts32 t =
     (let (raw, u) = unwrap now ts32 (unwrapper t);
          (us, t') = place_video rnd raw (t\<lparr>unwrapper := u\<rparr>)
      in ((us, raw), t'))"

definition timeline_audio :: "int \<Rightarrow> u32 \<Rightarrow> mediaTimeline \<Rightarrow> u64 \<times> mediaTimeline" where
  "timeline_audio now ts32 t =
     (let (raw, u) = unwrap now ts32 (unwrapper t); t' = t\<lparr>unwrapper := u\<rparr> in (applyOffset raw t', t'))"

definition fresh_timeline :: mediaTimeline where
  "fresh_timeline = \<lparr>unwrapper = fresh_unwrapper, tlOffset = 0, lastVideo = 0, avgDeltaUS = 0, haveVideo = False\<rparr>"

text \<open>What \<^verbatim>\<open>float64\<close> rounding guarantees of the magnitudes used here.\<close>

definition float_rounding :: "(rat \<Rightarrow> rat) \<Rightarrow> bool" where
  "float_rounding rnd =
     ((\<forall>x y. x \<le> y \<longrightarrow> rnd x \<le> rnd y) \<and> (\<forall>n. \<bar>n\<bar> \<le> 2 ^ 53 \<longrightarrow> rnd (of_int n) = of_int n)
      \<and> (\<forall>x. rnd (rnd x) = rnd x) \<and> (\<forall>x. \<bar>rnd x\<bar> \<le> 2 * \<bar>x\<bar>))"

lemma average_between:
  assumes fr: "float_rounding rnd" and "1 \<le> avg" "avg \<le> 500000" "1 \<le> delta" "delta \<le> 500000"
  shows "1 \<le> average rnd avg delta \<and> average rnd avg delta \<le> 500000"
proof -
  have mono: "x \<le> y \<Longrightarrow> rnd x \<le> rnd y" and close: "\<bar>rnd x\<bar> \<le> 2 * \<bar>x\<bar>" for x y
    using fr by (auto simp: float_rounding_def)
  have whole: "\<bar>n\<bar> \<le> 2 ^ 53 \<Longrightarrow> rnd (of_int n) = of_int n" for n
    using fr by (simp add: float_rounding_def)
  have fixed: "rnd 0 = 0" "rnd 1 = 1" "rnd 500000 = 500000" "rnd (of_int delta) = of_int delta"
    using whole [of 0] whole [of 1] whole [of 500000] whole [of delta] assms(4,5) by auto
  define y where "y = of_int delta - avg"
  define x where "x = rnd (rnd y * rnd (1 / 10))"
  have tenth: "0 \<le> rnd (1 / 10)" "rnd (1 / 10) \<le> 1 / 5"
    using mono [of 0 "1 / 10"] close [of "1 / 10"] fixed(1) by auto
  have size: "\<bar>x\<bar> \<le> \<bar>y\<bar>"
  proof -
    have "\<bar>rnd y\<bar> * \<bar>rnd (1 / 10)\<bar> \<le> (2 * \<bar>y\<bar>) * (1 / 5)"
      using close [of y] tenth by (intro mult_mono) auto
    then show ?thesis using close [of "rnd y * rnd (1 / 10)"] by (simp add: x_def abs_mult)
  qed
  have sign: "0 \<le> y \<Longrightarrow> 0 \<le> x" "y \<le> 0 \<Longrightarrow> x \<le> 0"
  proof -
    assume "0 \<le> y"
    then have "0 \<le> rnd y" using mono [of 0 y] fixed by simp
    then show "0 \<le> x" using mono [of 0 "rnd y * rnd (1 / 10)"] fixed tenth by (simp add: x_def)
  next
    assume "y \<le> 0"
    then have "rnd y \<le> 0" using mono [of y 0] fixed by simp
    then have "rnd y * rnd (1 / 10) \<le> 0" using tenth by (simp add: mult_nonpos_nonneg)
    then show "x \<le> 0" using mono [of "rnd y * rnd (1 / 10)" 0] fixed by (simp add: x_def)
  qed
  have d: "1 \<le> (of_int delta :: rat)" "(of_int delta :: rat) \<le> 500000"
    using assms(4,5) by (simp_all add: of_int_le_iff [of 1 delta, simplified])
  have "1 \<le> avg + x \<and> avg + x \<le> 500000"
    using size sign d assms(2,3) by (cases "0 \<le> y") (auto simp: y_def)
  then show ?thesis
    using mono [of 1 "avg + x"] mono [of "avg + x" 500000] fixed
    by (simp add: average_def x_def y_def)
qed

lemma sint_small: "uint w < 2 ^ 63 \<Longrightarrow> sint (w :: u64) = uint w"
  unfolding sint_uint
  by (subst signed_take_bit_int_eq_self) (auto intro: order_trans [OF _ uint_ge_0])

lemma uint_of_int_small: "0 \<le> k \<Longrightarrow> k < 2 ^ 64 \<Longrightarrow> uint (word_of_int k :: u64) = k"
  by (simp add: uint_word_of_int)

lemma trunc_between: "1 \<le> x \<Longrightarrow> x \<le> 500000 \<Longrightarrow> 1 \<le> trunc x \<and> trunc x \<le> 500000"
  by (auto simp: trunc_def le_floor_iff floor_le_iff)

text \<open>After a frame of raw time \<open>raw\<close>: the offset is what separates the two clocks.\<close>

definition tl_inv :: "int \<Rightarrow> mediaTimeline \<Rightarrow> bool" where
  "tl_inv raw t = (haveVideo t \<and> tlOffset t = raw - uint (lastVideo t)
     \<and> (avgDeltaUS t = 0 \<or> 1 \<le> avgDeltaUS t \<and> avgDeltaUS t \<le> 500000))"

lemma applyOffset_inv:
  assumes "tlOffset t = r - l" "0 \<le> r" "r < 2 ^ 62" "0 \<le> l" "l < 2 ^ 62"
    and "uint raw < 2 ^ 62" "0 \<le> uint raw - r + l"
  shows "uint (applyOffset raw t) = uint raw - r + l"
proof -
  have "sint raw = uint raw" using assms(6) by (simp add: sint_small)
  moreover have "i64 (uint raw - (r - l)) = uint raw - r + l"
    using assms by (subst i64_small) auto
  ultimately have "applyOffset raw t = word_of_int (uint raw - r + l)"
    using assms(1,7) by (simp only: applyOffset_def Let_def not_less [symmetric] if_False)
  then show ?thesis using assms by (simp only:) (rule uint_of_int_small, auto)
qed

lemma place_video_step:
  assumes fr: "float_rounding rnd" and inv: "tl_inv r t" and r: "0 \<le> r" "r < 2 ^ 62"
    and l: "uint (lastVideo t) < 2 ^ 61" and raw: "uint raw < 2 ^ 62" "0 \<le> uint raw - r + uint (lastVideo t)"
    and st: "place_video rnd raw t = (us, t')"
  shows "tl_inv (uint raw) t' \<and> lastVideo t' = us
    \<and> 1 \<le> uint us - uint (lastVideo t) \<and> uint us - uint (lastVideo t) \<le> 500000
    \<and> (1 \<le> uint raw - r \<and> uint raw - r \<le> 500000 \<longrightarrow> uint us - uint (lastVideo t) = uint raw - r)"
proof -
  define L where "L = uint (lastVideo t)"
  define d where "d = uint raw - r"
  have L: "0 \<le> L" "L < 2 ^ 61" "0 \<le> d + L" "d < 2 ^ 62" "- (2 ^ 62) < d"
    using l raw r by (auto simp: L_def d_def)
  have off: "tlOffset t = r - L" and hv: "haveVideo t"
    and avg: "avgDeltaUS t = 0 \<or> 1 \<le> avgDeltaUS t \<and> avgDeltaUS t \<le> 500000"
    using inv by (simp_all add: tl_inv_def L_def)
  have us: "uint (applyOffset raw t) = d + L"
    using applyOffset_inv [OF off r] raw L by (simp add: d_def L_def)
  have sus: "sint (applyOffset raw t) = d + L" using us L by (simp add: sint_small)
  have sl: "sint (lastVideo t) = L" using l by (simp add: sint_small L_def)
  have delta: "i64 (sint (applyOffset raw t) - sint (lastVideo t)) = d"
    unfolding sus sl using L by (subst i64_small) auto
  show ?thesis
  proof (cases "d \<le> 0 \<or> maxTrustedVideoDeltaUS < d")
    case True
    define step where "step = (if trunc (avgDeltaUS t) \<le> 0 then fallbackVideoDeltaUS else trunc (avgDeltaUS t))"
    have step: "1 \<le> step" "step \<le> 500000"
      using avg trunc_between [of "avgDeltaUS t"]
      by (auto simp: step_def fallbackVideoDeltaUS_def trunc_def)
    have u: "us = lastVideo t + word_of_int step"
      "t' = t\<lparr>tlOffset := i64 (tlOffset t + i64 (d - step)), lastVideo := us\<rparr>"
      using st True delta hv by (auto simp: place_video_def Let_def step_def)
    have uus: "uint us = L + step"
      using step L unfolding u(1) by (simp add: uint_word_ariths uint_word_of_int flip: L_def)
    have "i64 (d - step) = d - step" using L step by (intro i64_small) auto
    moreover have "i64 (r - L + (d - step)) = r - L + (d - step)" using L step r by (intro i64_small) auto
    ultimately have "tlOffset t' = uint raw - uint us" using u(2) off uus by (simp add: d_def)
    then show ?thesis using u(2) hv avg uus step True
      by (auto simp: tl_inv_def maxTrustedVideoDeltaUS_def d_def simp flip: L_def)
  next
    case False
    then have d: "1 \<le> d" "d \<le> 500000" by (auto simp: maxTrustedVideoDeltaUS_def)
    have "rnd (of_int d) = of_int d" using fr d by (auto simp: float_rounding_def)
    moreover have "avgDeltaUS t \<noteq> 0 \<Longrightarrow> 1 \<le> average rnd (avgDeltaUS t) d \<and> average rnd (avgDeltaUS t) d \<le> 500000"
      using average_between [OF fr _ _ d] avg by auto
    moreover have "1 \<le> (of_int d :: rat) \<and> (of_int d :: rat) \<le> 500000"
      using d by (simp add: of_int_le_iff [of 1 d, simplified])
    ultimately show ?thesis
      using st False delta hv us off d
      by (auto simp: place_video_def Let_def tl_inv_def d_def simp flip: L_def split: if_splits)
  qed
qed

fun video_run :: "(rat \<Rightarrow> rat) \<Rightarrow> int \<Rightarrow> u32 list \<Rightarrow> mediaTimeline \<Rightarrow> (u64 \<times> u64) list \<times> mediaTimeline" where
  "video_run rnd now [] t = ([], t)"
| "video_run rnd now (ts # rest) t =
     (let (out, t1) = timeline_video rnd now ts t; (outs, t2) = video_run rnd now rest t1 in (out # outs, t2))"

text \<open>The schedule of two frames in a row.\<close>

fun paced :: "(u64 \<times> u64) list \<Rightarrow> bool" where
  "paced ((us, raw) # (us', raw') # rest) =
     (1 \<le> uint us' - uint us \<and> uint us' - uint us \<le> 500000
      \<and> (1 \<le> uint raw' - uint raw \<and> uint raw' - uint raw \<le> 500000 \<longrightarrow>
           uint us' - uint us = uint raw' - uint raw)
      \<and> paced ((us', raw') # rest))"
| "paced outs = True"

lemma applyOffset_unwrapper [simp]: "applyOffset raw (t\<lparr>unwrapper := u\<rparr>) = applyOffset raw t"
  by (simp add: applyOffset_def)

lemma tl_inv_audio:
  assumes "tl_inv (uint raw) t" "uint raw < 2 ^ 62" "uint (lastVideo t) < 2 ^ 62"
  shows "applyOffset raw t = lastVideo t"
  using applyOffset_inv [of t "uint raw" "uint (lastVideo t)" raw] assms
  by (auto simp: tl_inv_def word_uint_eq_iff)

lemma video_run_paced:
  assumes "float_rounding rnd" "tl_inv (uint raw0) t" "video_run rnd now ts t = (outs, t')"
    and "\<forall>(us, raw) \<in> set outs. lo \<le> uint raw \<and> uint raw < 2 * lo" "lo \<le> 2 ^ 59"
    and "lo \<le> uint raw0" "uint raw0 < 2 * lo" "lo \<le> uint (lastVideo t)"
    and "uint (lastVideo t) + 500000 * int (length ts) < 2 ^ 61"
  shows "paced ((lastVideo t, raw0) # outs)
    \<and> applyOffset (snd (last ((lastVideo t, raw0) # outs))) t' = fst (last ((lastVideo t, raw0) # outs))"
  using assms(2-4,6-)
proof (induction ts arbitrary: t raw0 outs)
  case Nil
  then show ?case using tl_inv_audio [of raw0 t] assms(5) by auto
next
  case (Cons ts rest)
  obtain us raw t1 where st: "timeline_video rnd now ts t = ((us, raw), t1)" by (metis surj_pair)
  obtain outs1 where outs: "outs = (us, raw) # outs1" "video_run rnd now rest t1 = (outs1, t')"
    using Cons.prems(2) st by (auto simp: Let_def split: prod.splits)
  obtain u where pl: "place_video rnd raw (t\<lparr>unwrapper := u\<rparr>) = (us, t1)"
    using st by (auto simp: timeline_video_def Let_def split: prod.splits)
  have raw: "lo \<le> uint raw" "uint raw < 2 * lo" using Cons.prems(3) outs by auto
  have "tl_inv (uint raw0) (t\<lparr>unwrapper := u\<rparr>)" using Cons.prems(1) by (simp add: tl_inv_def)
  from place_video_step [OF assms(1) this _ _ _ _ _ pl] raw Cons.prems(4-7) assms(5)
  have step: "tl_inv (uint raw) t1" "lastVideo t1 = us" "1 \<le> uint us - uint (lastVideo t)"
    "uint us - uint (lastVideo t) \<le> 500000"
    "1 \<le> uint raw - uint raw0 \<and> uint raw - uint raw0 \<le> 500000 \<longrightarrow>
     uint us - uint (lastVideo t) = uint raw - uint raw0"
    by auto
  from Cons.IH [OF step(1) outs(2)] Cons.prems(3,6,7) outs raw step(2-4)
  have "paced ((us, raw) # outs1)
    \<and> applyOffset (snd (last ((us, raw) # outs1))) t' = fst (last ((us, raw) # outs1))"
    by auto
  with step show ?case by (auto simp: outs)
qed

text \<open>C16: The published video timeline: whatever the camera clock does (it repeats, jumps back, jumps
  ahead), two frames in a row are published between one microsecond and half a second apart; a
  frame the camera stamps up to half a second after the one before is published at exactly that
  distance, and audio carrying the camera time of the last frame is published at that frame's
  time, gaps or not.\<close>

theorem video_timeline_paced:
  assumes "float_rounding rnd" "video_run rnd now ts fresh_timeline = (outs, t)" "outs \<noteq> []"
    and "\<forall>(us, raw) \<in> set outs. lo \<le> uint raw \<and> uint raw < 2 * lo" "lo \<le> 2 ^ 59" "length ts \<le> 2 ^ 40"
  shows "paced outs \<and> applyOffset (snd (last outs)) t = fst (last outs)"
proof -
  obtain t0 rest where ts: "ts = t0 # rest" using assms(2,3) by (cases ts) auto
  obtain us raw t1 where st: "timeline_video rnd now t0 fresh_timeline = ((us, raw), t1)" by (metis surj_pair)
  obtain outs1 where outs: "outs = (us, raw) # outs1" "video_run rnd now rest t1 = (outs1, t)"
    using assms(2) ts st by (auto simp: Let_def split: prod.splits)
  have raw: "lo \<le> uint raw" "uint raw < 2 * lo" using assms(4) outs by auto
  obtain u where pl: "place_video rnd raw (fresh_timeline\<lparr>unwrapper := u\<rparr>) = (us, t1)"
    using st by (auto simp: timeline_video_def Let_def split: prod.splits)
  have "applyOffset raw fresh_timeline = raw"
    using applyOffset_inv [of fresh_timeline 0 0 raw] raw assms(5)
    by (simp add: fresh_timeline_def word_uint_eq_iff)
  then have t1: "us = raw" "tl_inv (uint raw) t1" "lastVideo t1 = us"
    using pl by (auto simp: place_video_def Let_def tl_inv_def fresh_timeline_def applyOffset_def)
  have "paced ((lastVideo t1, raw) # outs1)
    \<and> applyOffset (snd (last ((lastVideo t1, raw) # outs1))) t = fst (last ((lastVideo t1, raw) # outs1))"
    using video_run_paced [OF assms(1) t1(2) outs(2) _ assms(5)] assms(4,5,6) outs raw t1 ts
    by auto
  then show ?thesis using t1 by (simp add: outs)
qed

lemma id_rounds: "float_rounding (\<lambda>x. x)"
  by (simp add: float_rounding_def)

theorem video_timeline_paced_witness:
  "paced (fst (video_run (\<lambda>x. x) 1500000 [5, 40005, 40005, 400000] fresh_timeline))"
proof -
  let ?r = "video_run (\<lambda>x. x) 1500000 [5, 40005, 40005, 400000] fresh_timeline"
  have "fst ?r = [(1500000, 1500000), (1540000, 1540000), (1580000, 1540000), (1939995, 1899995)]"
    by code_simp
  then show ?thesis
    using video_timeline_paced [OF id_rounds, of 1500000 "[5, 40005, 40005, 400000]" "fst ?r" "snd ?r" 1000000]
    by (simp del: video_run.simps)
qed

section \<open>RTP timestamps\<close>

definition rtpTimestampAfter :: "u32 \<Rightarrow> u32 \<Rightarrow> bool" where
  "rtpTimestampAfter ts prev = (0 < sint (ts - prev))"

definition rtpTimestampBefore :: "u32 \<Rightarrow> u32 \<Rightarrow> bool" where
  "rtpTimestampBefore ts prev = (sint (ts - prev) < 0)"

record rtpTimestampGuard =
  rtpOffset :: u32
  rtpLast :: u32
  rtpSet :: bool

definition guard_next :: "u32 \<Rightarrow> rtpTimestampGuard \<Rightarrow> u32 \<times> rtpTimestampGuard" where
  "guard_next ts g =
     (if \<not> rtpSet g then (ts, g\<lparr>rtpLast := ts, rtpSet := True\<rparr>)
      else let adjusted = ts + rtpOffset g;
               (adjusted, g) =
                 (if ts = rtpLast g then (rtpLast g + 1, g\<lparr>rtpOffset := rtpLast g + 1 - ts\<rparr>)
                  else if \<not> rtpTimestampAfter adjusted (rtpLast g) then
                    let jumpBackward = rtpLast g - adjusted
                    in if 90000 < jumpBackward
                       then let g = g\<lparr>rtpOffset := rtpLast g + 1 - ts\<rparr> in (ts + rtpOffset g, g)
                       else (rtpLast g + 1, g)
                  else (adjusted, g))
           in (adjusted, g\<lparr>rtpLast := adjusted\<rparr>))"

text \<open>
  \<^verbatim>\<open>applyBaseToPackets\<close> reads only the timestamp of the first packet, so the packets are the list
  of their timestamps.
\<close>

definition applyBaseToPackets :: "u32 list \<Rightarrow> u32 \<Rightarrow> u32 \<Rightarrow> rtpTimestampGuard \<Rightarrow> u32 \<times> rtpTimestampGuard" where
  "applyBaseToPackets pkts base duration g =
     (case pkts of
        [] \<Rightarrow> (base, g)
      | t0 # rest \<Rightarrow>
          let sum1 = base + t0;
              (first, g) = (if rtpSet g \<and> sum1 = rtpLast g then (sum1, g\<lparr>rtpOffset := 0\<rparr>) else (sum1 + rtpOffset g, g));
              (first, g) =
                (if rtpSet g \<and> rtpTimestampBefore first (rtpLast g) then
                   let jumpBackward = rtpLast g - first
                   in if 90000 < jumpBackward
                      then let g = g\<lparr>rtpOffset := rtpLast g - sum1\<rparr> in (sum1 + rtpOffset g, g)
                      else (rtpLast g, g)
                 else (first, g))
          in (first - t0, g\<lparr>rtpLast := (if duration = 0 then first else first + duration), rtpSet := True\<rparr>))"

lemma after_succ: "rtpTimestampAfter (x + 1) x"
  by (simp add: rtpTimestampAfter_def)

lemma not_before_self [simp]: "\<not> rtpTimestampBefore x x"
  by (simp add: rtpTimestampBefore_def)

fun guard_run :: "u32 list \<Rightarrow> rtpTimestampGuard \<Rightarrow> u32 list" where
  "guard_run [] g = []"
| "guard_run (ts # rest) g = (case guard_next ts g of (out, g') \<Rightarrow> out # guard_run rest g')"

lemma guard_next_step:
  assumes "rtpSet g" "guard_next ts g = (out, g')"
  shows "rtpSet g' \<and> rtpLast g' = out \<and> rtpTimestampAfter out (rtpLast g)
    \<and> (out = rtpLast g + 1 \<or> out = ts + rtpOffset g)
    \<and> (rtpOffset g = 0 \<and> rtpTimestampAfter ts (rtpLast g) \<longrightarrow> out = ts \<and> rtpOffset g' = 0)"
  using assms after_succ [of "rtpLast g"]
  by (auto simp: guard_next_def Let_def rtpTimestampAfter_def split: if_splits)

fun serial_increasing :: "u32 list \<Rightarrow> bool" where
  "serial_increasing (a # b # rest) = (rtpTimestampAfter b a \<and> serial_increasing (b # rest))"
| "serial_increasing xs = True"

lemma guard_run_increasing:
  "rtpSet g \<Longrightarrow> serial_increasing (rtpLast g # guard_run ts g)"
proof (induction ts arbitrary: g)
  case (Cons t ts)
  obtain out g' where st: "guard_next t g = (out, g')" by fastforce
  from guard_next_step [OF Cons.prems st] Cons.IH [of g'] st show ?case by auto
qed simp

lemma guard_run_identity:
  "rtpSet g \<Longrightarrow> rtpOffset g = 0 \<Longrightarrow> serial_increasing (rtpLast g # ts) \<Longrightarrow> guard_run ts g = ts"
proof (induction ts arbitrary: g)
  case (Cons t ts)
  obtain out g' where st: "guard_next t g = (out, g')" by fastforce
  from guard_next_step [OF Cons.prems(1) st] Cons.prems Cons.IH [of g'] st show ?case by auto
qed simp

text \<open>The RTP timestamps of the video frames: for every sequence of timestamps asked for, those sent
  increase from frame to frame in RTP's serial order, across wraps and jumps back, and when the
  timestamps asked for already increase they are sent as they are.\<close>

theorem video_rtp_increasing:
  "serial_increasing (guard_run ts \<lparr>rtpOffset = 0, rtpLast = 0, rtpSet = False\<rparr>)
   \<and> (serial_increasing ts \<longrightarrow> guard_run ts \<lparr>rtpOffset = 0, rtpLast = 0, rtpSet = False\<rparr> = ts)"
proof (cases ts)
  case (Cons t rest)
  let ?g = "\<lparr>rtpOffset = 0, rtpLast = t, rtpSet = True\<rparr>"
  have "guard_run ts \<lparr>rtpOffset = 0, rtpLast = 0, rtpSet = False\<rparr> = t # guard_run rest ?g"
    by (simp add: Cons guard_next_def)
  then show ?thesis
    using guard_run_increasing [of ?g rest] guard_run_identity [of ?g rest] by (simp add: Cons)
qed simp

theorem video_rtp_increasing_witness:
  "guard_run [10, 20, 30] \<lparr>rtpOffset = 0, rtpLast = 0, rtpSet = False\<rparr> = [10, 20, 30]"
  using video_rtp_increasing [of "[10, 20, 30]"] by (simp add: rtpTimestampAfter_def del: guard_run.simps)

lemma audio_guard_keeps_order:
  assumes "applyBaseToPackets (t0 # rest) base duration g = (base', g')"
  shows "(rtpSet g \<longrightarrow> \<not> rtpTimestampBefore (base' + t0) (rtpLast g))
    \<and> rtpSet g' \<and> rtpLast g' = base' + t0 + duration"
  using assms by (auto simp: applyBaseToPackets_def Let_def ac_simps split: if_splits)

section \<open>The live edge\<close>

definition minute :: int where "minute = 60 * 10 ^ 9"

text \<open>\<open>leLogged\<close> is the number of catch-ups reported, the only trace of the log.\<close>

record liveEdge =
  wallAnchor :: int
  mediaAnchor :: u64
  anchored :: bool
  catchingUp :: bool
  edgeLag :: int
  skipped :: nat
  lastLog :: int
  leLogged :: nat

definition set_anchor :: "u64 \<Rightarrow> int \<Rightarrow> liveEdge \<Rightarrow> liveEdge" where
  "set_anchor mediaUS now l = l\<lparr>wallAnchor := now, mediaAnchor := mediaUS, anchored := True\<rparr>"

definition report :: "int \<Rightarrow> liveEdge \<Rightarrow> liveEdge" where
  "report now l =
     (let n = skipped l; l = l\<lparr>skipped := 0, edgeLag := 0\<rparr> in
      if n = 0 then l
      else if now - lastLog l < minute then l
      else l\<lparr>lastLog := now, leLogged := leLogged l + 1\<rparr>)"

text \<open>\<open>maxLag = None\<close> is the nil pointer; \<open>now'\<close> the clock \<^verbatim>\<open>report\<close> reads.\<close>

definition behind :: "int option \<Rightarrow> u64 \<Rightarrow> bool \<Rightarrow> int \<Rightarrow> int \<Rightarrow> liveEdge \<Rightarrow> bool \<times> liveEdge" where
  "behind maxLag0 mediaUS keyframe now now' l =
     (let maxLag = (case maxLag0 of None \<Rightarrow> 0 | Some d \<Rightarrow> d) in
      if maxLag \<le> 0 then (False, l\<lparr>catchingUp := False\<rparr>)
      else if \<not> anchored l then (False, set_anchor mediaUS now l)
      else
        let lag = i64 ((now - wallAnchor l) - i64 (sint (mediaUS - mediaAnchor l) * 1000));
            l = (if lag < 0 then set_anchor mediaUS now l
                 else if maxLag < lag then l\<lparr>catchingUp := True, edgeLag := lag\<rparr> else l)
        in if \<not> catchingUp l then (False, l)
           else if \<not> keyframe then (True, l\<lparr>skipped := skipped l + 1\<rparr>)
           else (False, report now' (set_anchor mediaUS now (l\<lparr>catchingUp := False\<rparr>))))"

text \<open>Nanoseconds the picture trails the anchor.\<close>

definition lag_of :: "u64 \<Rightarrow> int \<Rightarrow> liveEdge \<Rightarrow> int" where
  "lag_of mediaUS now l = i64 ((now - wallAnchor l) - i64 (sint (mediaUS - mediaAnchor l) * 1000))"

lemma behind_step:
  assumes "behind (Some maxLag) mediaUS keyframe now now' l = (drop_it, l')" "0 < maxLag"
  shows "anchored l' \<and> (\<not> drop_it \<longrightarrow> \<not> catchingUp l' \<or> \<not> anchored l)
    \<and> (\<not> drop_it \<longrightarrow> lag_of mediaUS now l' \<le> maxLag)
    \<and> (drop_it \<longrightarrow> \<not> keyframe \<and> catchingUp l')
    \<and> (anchored l \<and> catchingUp l \<and> \<not> drop_it \<longrightarrow> keyframe)"
  using assms
  by (auto simp: behind_def Let_def lag_of_def set_anchor_def report_def i64_def split: if_splits)

text \<open>A stream of frames (media time, keyframe, arrival): which are dropped, and how late each was.\<close>

fun edge_run :: "int \<Rightarrow> (u64 \<times> bool \<times> int) list \<Rightarrow> liveEdge \<Rightarrow> (bool \<times> bool \<times> int) list" where
  "edge_run maxLag [] l = []"
| "edge_run maxLag ((mediaUS, keyframe, now) # frames) l =
     (case behind (Some maxLag) mediaUS keyframe now now l of
        (drop_it, l') \<Rightarrow> (keyframe, drop_it, lag_of mediaUS now l') # edge_run maxLag frames l')"

text \<open>\<open>dropped\<close>: whether the frame before was.\<close>

fun decodable_and_live :: "int \<Rightarrow> bool \<Rightarrow> (bool \<times> bool \<times> int) list \<Rightarrow> bool" where
  "decodable_and_live maxLag dropped [] = True"
| "decodable_and_live maxLag dropped ((keyframe, drop_it, lag) # frames) =
     ((dropped \<and> \<not> drop_it \<longrightarrow> keyframe) \<and> (drop_it \<longrightarrow> \<not> keyframe) \<and> (\<not> drop_it \<longrightarrow> lag \<le> maxLag)
      \<and> decodable_and_live maxLag drop_it frames)"

definition fresh_edge :: liveEdge where
  "fresh_edge = \<lparr>wallAnchor = 0, mediaAnchor = 0, anchored = False, catchingUp = False, edgeLag = 0,
     skipped = 0, lastLog = 0, leLogged = 0\<rparr>"

lemma edge_run_ok:
  "0 < maxLag \<Longrightarrow> (dropped \<longrightarrow> anchored l \<and> catchingUp l) \<Longrightarrow>
   decodable_and_live maxLag dropped (edge_run maxLag frames l)"
proof (induction frames arbitrary: dropped l)
  case (Cons f frames)
  obtain mediaUS keyframe now where f: "f = (mediaUS, keyframe, now)" by (metis surj_pair)
  obtain drop_it l' where st: "behind (Some maxLag) mediaUS keyframe now now l = (drop_it, l')" by fastforce
  from behind_step [OF st Cons.prems(1)] Cons.IH [of drop_it l'] Cons.prems st f show ?case by auto
qed simp

text \<open>C17: Catching up with live keeps the video decodable: over any sequence of frames, a frame that is
  passed on trails the live edge by no more than the limit, no keyframe is ever dropped, and the
  first frame passed on after dropped ones is a keyframe.\<close>

theorem live_edge_decodable:
  assumes "0 < maxLag"
  shows "decodable_and_live maxLag False (edge_run maxLag frames fresh_edge)"
  using edge_run_ok [OF assms] by simp

theorem live_edge_decodable_witness:
  "decodable_and_live 3000000000 False (edge_run 3000000000
     [(0, True, 0), (40000, False, 9000000000), (80000, True, 9000000001)] fresh_edge)"
  by (rule live_edge_decodable) simp

section \<open>Audio timestamps and profile names\<close>

record mediaTimestamp =
  Microseconds :: u64
  Valid :: bool
  Authoritative :: bool

text \<open>\<open>stamp\<close> is the packet's own timestamp, when it has one.\<close>

definition audioTimestampForPacket ::
  "int \<Rightarrow> u32 option \<Rightarrow> mediaTimeline \<Rightarrow> u64 \<Rightarrow> bool \<Rightarrow> mediaTimestamp \<times> mediaTimeline" where
  "audioTimestampForPacket now stamp t videoUS haveVideoUS =
     (case stamp of
        Some ts \<Rightarrow> (case timeline_audio now ts t of
          (us, t') \<Rightarrow> (\<lparr>Microseconds = us, Valid = True, Authoritative = True\<rparr>, t'))
      | None \<Rightarrow> (if haveVideoUS then (\<lparr>Microseconds = videoUS, Valid = True, Authoritative = False\<rparr>, t)
                  else (\<lparr>Microseconds = 0, Valid = False, Authoritative = False\<rparr>, t)))"

definition parseStream :: "string \<Rightarrow> string" where
  "parseStream v =
     (if v = ''sub'' then ''subStream'' else if v = ''extern'' then ''externStream'' else ''mainStream'')"

end
