(* ===== verification/Queries.thy ===== *)
theory Queries
  imports Client "HOL-Library.Monad_Syntax"
begin

text \<open>
  Commands to the camera and the reports it answers with: the retry of a busy camera and
  \<^verbatim>\<open>exec\<close> (\<^verbatim>\<open>pkg/baichuan/motion.go\<close>, \<^verbatim>\<open>api_control.go\<close>), permissions (\<^verbatim>\<open>ability.go\<close>), capabilities
  (\<^verbatim>\<open>support.go\<close>), stream profiles (\<^verbatim>\<open>streaminfo.go\<close>), and the battery, floodlight and sleep
  states (\<^verbatim>\<open>battery.go\<close>, \<^verbatim>\<open>floodlight.go\<close>, \<^verbatim>\<open>webhook.go\<close>).
\<close>

section \<open>Retrying a busy camera\<close>

definition busyAttempts :: nat where "busyAttempts = 3"

definition isBusyStatus :: "client_error \<Rightarrow> bool" where
  "isBusyStatus e = (case e of StatusError i code \<Rightarrow> code = 400 | _ \<Rightarrow> False)"

text \<open>How the wait after a refused attempt ends.\<close>

datatype wait_end = Elapsed | WaitCtx client_error | WaitClosed

type_synonym attempt = "nat \<Rightarrow> client \<Rightarrow> (client_error + message) \<times> client"

text \<open>The loop from attempt \<open>n\<close> on, \<open>left\<close> of them after it.\<close>

fun retry_from :: "nat \<Rightarrow> nat \<Rightarrow> attempt \<Rightarrow> (nat \<Rightarrow> wait_end) \<Rightarrow> client \<Rightarrow> (client_error + message) \<times> client" where
  "retry_from left n send wait c =
     (case send n c of
        (Inr m, c') \<Rightarrow> (Inr m, c')
      | (Inl e, c') \<Rightarrow>
          (case left of
             0 \<Rightarrow> (Inl e, c')
           | Suc left' \<Rightarrow>
               if \<not> isBusyStatus e then (Inl e, c')
               else (case wait n of
                       WaitCtx e' \<Rightarrow> (Inl e', c')
                     | WaitClosed \<Rightarrow> (Inl e, c')
                     | Elapsed \<Rightarrow> retry_from left' (Suc n) send wait c')))"

declare retry_from.simps [simp del]

definition retryWhileBusy :: "attempt \<Rightarrow> (nat \<Rightarrow> wait_end) \<Rightarrow> client \<Rightarrow> (client_error + message) \<times> client" where
  "retryWhileBusy send wait c = retry_from (busyAttempts - 1) 1 send wait c"

definition channelExtension :: "byte \<Rightarrow> bytes" where
  "channelExtension channel =
     bytes_of (''<?xml version='' @ [CHR 0x22] @ ''1.0'' @ [CHR 0x22] @ '' encoding='' @ [CHR 0x22] @ ''utf-8''
       @ [CHR 0x22] @ ''?><Extension version='' @ [CHR 0x22] @ ''1.1'' @ [CHR 0x22] @ ''><channelId>''
       @ show_int (uint channel) @ ''</channelId></Extension>'')"

text \<open>\<^verbatim>\<open>exec\<close>: \<open>login\<close> is the client's \<^verbatim>\<open>Login\<close>; the camera may answer each attempt differently.\<close>

definition exec ::
  "(client \<Rightarrow> (client_error option \<times> client) option) \<Rightarrow> (nat \<Rightarrow> env) \<Rightarrow> (nat \<Rightarrow> wait_end) \<Rightarrow>
   u32 \<Rightarrow> byte \<Rightarrow> bytes \<Rightarrow> xml option \<Rightarrow> client \<Rightarrow> ((client_error + message) \<times> client) option" where
  "exec login env wait msgID headerChannel extn body c =
     do { (err, c1) \<leftarrow> login c;
          Some (case err of
            Some e \<Rightarrow> (Inl e, c1)
          | None \<Rightarrow>
              let req = (base_request msgID headerChannel)
                          \<lparr>rExtension := extn, rBody := (case body of None \<Rightarrow> [] | Some b \<Rightarrow> marshalXMLDocument b)\<rparr>
              in retryWhileBusy (\<lambda>n. sendRequest (env n) req) wait c1) }"

definition execCommand ::
  "(client \<Rightarrow> (client_error option \<times> client) option) \<Rightarrow> (nat \<Rightarrow> env) \<Rightarrow> (nat \<Rightarrow> wait_end) \<Rightarrow>
   u32 \<Rightarrow> byte \<Rightarrow> xml option \<Rightarrow> client \<Rightarrow> ((client_error + message) \<times> client) option" where
  "execCommand login env wait msgID channel body c =
     exec login env wait msgID (headerChannelID channel) (channelExtension channel) body c"

definition execHostCommand ::
  "(client \<Rightarrow> (client_error option \<times> client) option) \<Rightarrow> (nat \<Rightarrow> env) \<Rightarrow> (nat \<Rightarrow> wait_end) \<Rightarrow>
   u32 \<Rightarrow> xml option \<Rightarrow> client \<Rightarrow> ((client_error + message) \<times> client) option" where
  "execHostCommand login env wait msgID body c = exec login env wait msgID channelIDHost [] body c"

definition msgIDMotionRequest :: u32 where "msgIDMotionRequest = 31"
definition channelIDPush :: byte where "channelIDPush = 251"

definition RefreshAlarmSubscription ::
  "(nat \<Rightarrow> env) \<Rightarrow> (nat \<Rightarrow> wait_end) \<Rightarrow> client \<Rightarrow> client_error option \<times> client" where
  "RefreshAlarmSubscription env wait c =
     (case retryWhileBusy (\<lambda>n. sendRequest (env n) (base_request msgIDMotionRequest channelIDPush)) wait c of
        (Inl e, c') \<Rightarrow> (Some e, c') | (Inr m, c') \<Rightarrow> (None, c'))"

section \<open>Permissions\<close>

datatype abilityAccess = abilityNone | abilityReadOnly | abilityReadWrite

fun access_level :: "abilityAccess \<Rightarrow> nat" where
  "access_level abilityNone = 0"
| "access_level abilityReadOnly = 1"
| "access_level abilityReadWrite = 2"

instantiation abilityAccess :: linorder
begin

definition less_eq_abilityAccess :: "abilityAccess \<Rightarrow> abilityAccess \<Rightarrow> bool" where
  "less_eq_abilityAccess a b = (access_level a \<le> access_level b)"

definition less_abilityAccess :: "abilityAccess \<Rightarrow> abilityAccess \<Rightarrow> bool" where
  "less_abilityAccess a b = (access_level a < access_level b)"

instance
proof
  fix a b :: abilityAccess
  assume "a \<le> b" "b \<le> a"
  then show "a = b" by (cases a; cases b) (simp_all add: less_eq_abilityAccess_def)
qed (auto simp: less_eq_abilityAccess_def less_abilityAccess_def)

end

lemma abilityNone_least [simp]: "abilityNone \<le> a"
  by (simp add: less_eq_abilityAccess_def)

text \<open>\<^verbatim>\<open>strings.Split\<close> at a character, and \<^verbatim>\<open>strings.LastIndex\<close> of one.\<close>

fun split_at :: "char \<Rightarrow> string \<Rightarrow> string \<Rightarrow> string list" where
  "split_at sep cur [] = [cur]"
| "split_at sep cur (c # s) = (if c = sep then cur # split_at sep [] s else split_at sep (cur @ [c]) s)"

fun last_index :: "char \<Rightarrow> string \<Rightarrow> nat option" where
  "last_index x [] = None"
| "last_index x (c # s) =
     (case last_index x s of Some i \<Rightarrow> Some (Suc i) | None \<Rightarrow> if c = x then Some 0 else None)"

text \<open>What one token grants: the lower-case name and the access.\<close>

definition token_ability :: "string \<Rightarrow> (string \<times> abilityAccess) option" where
  "token_ability raw =
     (let token = trim_space raw in
      if token = [] then None
      else case last_index (CHR ''_'') token of
        None \<Rightarrow> None
      | Some idx \<Rightarrow>
          if idx = 0 \<or> idx = length token - 1 then None
          else let name = to_lower (take idx token); suffix = drop (idx + 1) token
               in if suffix = ''rw'' then Some (name, abilityReadWrite)
                  else if suffix = ''ro'' then Some (name, abilityReadOnly)
                  else None)"

text \<open>The map of abilities; a name without an entry is \<open>abilityNone\<close>, the zero value.\<close>

type_synonym abilities = "string \<Rightarrow> abilityAccess"

definition merge_token :: "abilities \<Rightarrow> string \<Rightarrow> abilities" where
  "merge_token dst raw =
     (case token_ability raw of
        None \<Rightarrow> dst
      | Some (name, acc) \<Rightarrow> if dst name < acc then dst(name := acc) else dst)"

definition mergeAbilities :: "abilities \<Rightarrow> string \<Rightarrow> abilities" where
  "mergeAbilities dst raw = foldl merge_token dst (split_at (CHR '','') [] raw)"

definition ability_modules :: "string list" where
  "ability_modules = [''system'', ''network'', ''alarm'', ''image'', ''video'', ''security'', ''replay'',
     ''PTZ'', ''IO'', ''streaming'']"

text \<open>The sub modules in the order of the token list: the channel (\<^verbatim>\<open>*uint8\<close>) and the value.\<close>

definition decode_sub_module :: "xml list \<Rightarrow> (byte option \<times> string) option" where
  "decode_sub_module ks =
     do { channel \<leftarrow> uint_field 8 ''channelId'' ks;
          Some (if elems ''channelId'' ks = [] then None else Some (word_of_nat channel),
                str_field ''abilityValue'' ks) }"

definition decode_modules :: "xml list \<Rightarrow> (byte option \<times> string) list option" where
  "decode_modules info =
     those (map decode_sub_module
       (concat (map (\<lambda>name. case struct_field name info of
                              None \<Rightarrow> [] | Some ks \<Rightarrow> slice_field ''subModule'' ks) ability_modules)))"

datatype ability_error = AbilitySyntax | AbilityInfoMissing

definition parseAbilityInfo :: "xml_parser \<Rightarrow> string \<Rightarrow> byte \<Rightarrow> ability_error + abilities" where
  "parseAbilityInfo parser xmlText channel =
     (case Option.bind (parser xmlText) (root_kids ''body'') of
        None \<Rightarrow> Inl AbilitySyntax
      | Some body \<Rightarrow>
          (case struct_field ''AbilityInfo'' body of
             None \<Rightarrow> Inl AbilityInfoMissing
           | Some info \<Rightarrow>
               (case decode_modules info of
                  None \<Rightarrow> Inl AbilitySyntax
                | Some mods \<Rightarrow>
                    Inr (foldl (\<lambda>dst (chan, value).
                           if chan \<noteq> None \<and> chan \<noteq> Some channel then dst else mergeAbilities dst value)
                         (\<lambda>_. abilityNone) mods))))"

text \<open>\<^verbatim>\<open>requireAbilityRW\<close>: the access that is there instead of the wanted one.\<close>

definition requireAbilityRW :: "abilities \<Rightarrow> string \<Rightarrow> abilityAccess option" where
  "requireAbilityRW abilities name =
     (case abilities (to_lower name) of abilityReadWrite \<Rightarrow> None | acc \<Rightarrow> Some acc)"

definition buildAbilityInfoExtension :: "string \<Rightarrow> bytes" where
  "buildAbilityInfoExtension username =
     marshalXMLDocument (Elem ''Extension'' [(''version'', ''1.1'')]
       [field ''userName'' username,
        field ''token'' ''system, streaming, PTZ, IO, security, replay, disk, network, alarm, record, video, image''])"

definition msgIDAbilityInfo :: u32 where "msgIDAbilityInfo = 151"

definition AbilityInfoXML ::
  "(client \<Rightarrow> (client_error option \<times> client) option) \<Rightarrow> env \<Rightarrow> client \<Rightarrow> ((client_error + string) \<times> client) option" where
  "AbilityInfoXML login env c =
     do { (err, c1) \<leftarrow> login c;
          Some (case err of
            Some e \<Rightarrow> (Inl e, c1)
          | None \<Rightarrow>
              (case sendRequest env ((base_request msgIDAbilityInfo channelIDHost)
                       \<lparr>rExtension := buildAbilityInfoExtension (Username (cfg c1))\<rparr>) c1 of
                 (Inl e, c2) \<Rightarrow> (Inl e, c2)
               | (Inr resp, c2) \<Rightarrow> (Inr (XML resp), c2))) }"

text \<open>What the abilities of a list of tokens grant to a name.\<close>

definition granted :: "string list \<Rightarrow> string \<Rightarrow> abilityAccess set" where
  "granted raws name = {acc. \<exists>raw \<in> set raws. token_ability raw = Some (name, acc)}"

lemma merge_token_at:
  "merge_token dst raw name =
     (case token_ability raw of None \<Rightarrow> dst name | Some (n, acc) \<Rightarrow> if n = name then max (dst name) acc else dst name)"
  by (auto simp: merge_token_def max_def split: option.splits)

lemma foldl_merge_token:
  "foldl merge_token dst raws name \<in> insert (dst name) (granted raws name)
   \<and> (\<forall>acc \<in> insert (dst name) (granted raws name). acc \<le> foldl merge_token dst raws name)"
proof (induction raws arbitrary: dst)
  case Nil
  show ?case by (simp add: granted_def)
next
  case (Cons raw raws)
  have "insert (merge_token dst raw name) (granted raws name) \<subseteq> insert (dst name) (granted (raw # raws) name)"
    by (auto simp: granted_def merge_token_at max_def split: option.splits)
  moreover have "\<exists>b \<in> insert (merge_token dst raw name) (granted raws name). a \<le> b"
    if "a \<in> insert (dst name) (granted (raw # raws) name)" for a
    using that by (auto simp: granted_def merge_token_at split: option.splits)
  moreover have "foldl merge_token dst (raw # raws) name = foldl merge_token (merge_token dst raw) raws name"
    by simp
  moreover note Cons [of "merge_token dst raw"]
  ultimately show ?case by (metis (no_types, lifting) order_trans subsetD)
qed

lemma foldl_modules:
  "foldl (\<lambda>dst (chan, value). if chan \<noteq> None \<and> chan \<noteq> Some channel then dst else mergeAbilities dst value) a mods =
   foldl merge_token a
     (concat [split_at (CHR '','') [] value. (chan, value) \<leftarrow> mods, chan = None \<or> chan = Some channel])"
  by (induction mods arbitrary: a) (auto simp: mergeAbilities_def)

text \<open>Permissions are read right whatever their order: the access a user has to a feature of a channel
  is the highest one granted to it by any token of any module for that channel or for all, in any
  spelling of the name's case, and none when no token grants it.\<close>

theorem ability_is_highest_grant:
  assumes "parser xmlText = Some doc" "root_kids ''body'' doc = Some body"
    and "struct_field ''AbilityInfo'' body = Some info" "decode_modules info = Some mods"
    and "tokens = concat [split_at (CHR '','') [] value. (chan, value) \<leftarrow> mods, chan = None \<or> chan = Some channel]"
  shows "\<exists>abilities. parseAbilityInfo parser xmlText channel = Inr abilities
    \<and> (\<forall>name. abilities name = Max (insert abilityNone (granted tokens name)))
    \<and> (\<forall>feature. requireAbilityRW abilities feature = None \<longleftrightarrow>
         abilityReadWrite \<in> granted tokens (to_lower feature))"
proof -
  let ?ab = "foldl merge_token (\<lambda>_. abilityNone) tokens"
  have parsed: "parseAbilityInfo parser xmlText channel = Inr ?ab"
    unfolding parseAbilityInfo_def assms(5) foldl_modules [symmetric] using assms(1-4) by simp
  have fin: "finite (granted tokens name)" for name
  proof -
    have "granted tokens name \<subseteq> {abilityNone, abilityReadOnly, abilityReadWrite}"
      using abilityAccess.exhaust by auto
    then show ?thesis by (rule finite_subset) simp
  qed
  have highest: "?ab name = Max (insert abilityNone (granted tokens name))" for name
    using foldl_merge_token [of "\<lambda>_. abilityNone" tokens name] fin [of name]
    by (intro Max_eqI [symmetric]) auto
  have top: "abilityReadWrite \<le> a \<longleftrightarrow> a = abilityReadWrite" for a
    by (cases a) (simp_all add: less_eq_abilityAccess_def)
  have "requireAbilityRW ?ab feature = None \<longleftrightarrow> ?ab (to_lower feature) = abilityReadWrite" for feature
    by (simp add: requireAbilityRW_def split: abilityAccess.split)
  moreover have "?ab name = abilityReadWrite \<longleftrightarrow> abilityReadWrite \<in> granted tokens name" for name
    using foldl_merge_token [of "\<lambda>_. abilityNone" tokens name] top by fastforce
  ultimately show ?thesis using parsed highest by auto
qed

theorem ability_is_highest_grant_witness:
  "\<exists>abilities. parseAbilityInfo (\<lambda>s. Some (Elem ''body'' [] [Elem ''AbilityInfo'' [] [Elem ''alarm'' []
       [Elem ''subModule'' [] [Elem ''abilityValue'' [] [Text ''motion_ro, Motion_rw'']]]]])) ''x'' 0 = Inr abilities
     \<and> requireAbilityRW abilities ''motion'' = None"
proof -
  let ?info = "[Elem ''alarm'' [] [Elem ''subModule'' [] [Elem ''abilityValue'' [] [Text ''motion_ro, Motion_rw'']]]]"
  let ?body = "[Elem ''AbilityInfo'' [] ?info]"
  have dec: "decode_modules ?info = Some [(None, ''motion_ro, Motion_rw'')]" by code_simp
  have toks: "split_at (CHR '','') [] ''motion_ro, Motion_rw'' = [''motion_ro'', '' Motion_rw'']" by code_simp
  have grant: "token_ability '' Motion_rw'' = Some (''motion'', abilityReadWrite)" by code_simp
  have low: "to_lower ''motion'' = ''motion''" by code_simp
  have "root_kids ''body'' (Elem ''body'' [] ?body) = Some ?body" "struct_field ''AbilityInfo'' ?body = Some ?info"
    by (simp_all add: root_kids_def struct_field_def)
  from ability_is_highest_grant [of "\<lambda>s. Some (Elem ''body'' [] ?body)" "''x''", OF refl this dec refl, of 0] show ?thesis
    using grant by (auto simp: toks low granted_def)
qed

section \<open>Capabilities\<close>

record support_item =
  ChnID :: int
  ChannelType :: string
  PTZType :: int
  siBattery :: int
  DoorbellVersion :: int
  AudioVersion :: int
  LedCtrl :: int
  IPCAudioTalk :: "int option"
  siMotion :: int
  AIType :: int

record capabilities =
  capChannel :: int
  PTZ :: bool
  Pan :: bool
  Tilt :: bool
  Zoom :: bool
  capBattery :: bool
  Doorbell :: bool
  capSiren :: bool
  Floodlight :: bool
  capTalk :: bool
  capMotion :: bool
  capAITypes :: "string list"

definition ai_bits :: "(nat \<times> string) list" where
  "ai_bits = [(1, ''people''), (2, ''vehicle''), (3, ''face''), (4, ''dog_cat''), (17, ''package''),
     (23, ''package''), (23, ''non-motor vehicle'')]"

definition decodeChannelCapabilities :: "support_item \<Rightarrow> bool \<Rightarrow> capabilities" where
  "decodeChannelCapabilities item deviceTalk =
     \<lparr>capChannel = ChnID item, PTZ = (PTZType item \<noteq> 0),
      Pan = (PTZType item \<in> {2, 3, 5, 6, 7}), Tilt = (PTZType item \<in> {2, 3, 5, 6}),
      Zoom = (PTZType item \<in> {1, 2, 5}),
      capBattery = (siBattery item > 0),
      Doorbell = (DoorbellVersion item > 0 \<or> to_lower (ChannelType item) = ''doorbell''),
      capSiren = bit (AudioVersion item) 2,
      Floodlight = (bit (LedCtrl item) 1 \<and> bit (LedCtrl item) 2),
      capTalk = (case IPCAudioTalk item of None \<Rightarrow> deviceTalk | Some t \<Rightarrow> t \<noteq> 0),
      capMotion = (siMotion item > 0),
      capAITypes = foldl (\<lambda>types (b, name). if bit (AIType item) b \<and> name \<notin> set types then types @ [name] else types)
        [] ai_bits\<rparr>"

definition decode_support_item :: "xml list \<Rightarrow> support_item option" where
  "decode_support_item ks =
     do { chn \<leftarrow> int_field 64 ''chnID'' ks; ptz \<leftarrow> int_field 64 ''ptzType'' ks;
          battery \<leftarrow> int_field 64 ''battery'' ks; doorbell \<leftarrow> int_field 64 ''doorbellVersion'' ks;
          audio \<leftarrow> int_field 64 ''audioVersion'' ks; led \<leftarrow> int_field 64 ''ledCtrl'' ks;
          talk \<leftarrow> opt_int_field 64 ''ipcAudioTalk'' ks; motion \<leftarrow> int_field 64 ''motion'' ks;
          ai \<leftarrow> int_field 64 ''aitype'' ks;
          Some \<lparr>ChnID = chn, ChannelType = str_field ''channelType'' ks, PTZType = ptz, siBattery = battery,
                DoorbellVersion = doorbell, AudioVersion = audio, LedCtrl = led, IPCAudioTalk = talk,
                siMotion = motion, AIType = ai\<rparr> }"

record support =
  ChannelNum :: int
  AudioTalk :: bool
  ExternStream :: bool
  supChannels :: "capabilities list"

datatype report_error = ReportSyntax | ReportMissing

text \<open>\<^verbatim>\<open>GetSupport\<close> after the query: the report a reply carries.\<close>

definition decode_support :: "xml_parser \<Rightarrow> bool \<Rightarrow> string \<Rightarrow> report_error + support" where
  "decode_support parser isNVR xmlText =
     (case Option.bind (parser xmlText) any_root_kids of
        None \<Rightarrow> Inl ReportSyntax
      | Some body \<Rightarrow>
          (case struct_field ''Support'' body of
             None \<Rightarrow> Inl ReportMissing
           | Some ks \<Rightarrow>
               (case do { num \<leftarrow> int_field 64 ''channelNum'' ks; talk \<leftarrow> int_field 64 ''audioTalk'' ks;
                          noext \<leftarrow> int_field 64 ''noExternStream'' ks;
                          items \<leftarrow> those (map decode_support_item (slice_field ''item'' ks));
                          Some (num, talk, noext, items) } of
                  None \<Rightarrow> Inl ReportSyntax
                | Some (num, talk, noext, items) \<Rightarrow>
                    Inr \<lparr>ChannelNum = num, AudioTalk = (talk \<noteq> 0), ExternStream = (noext = 0),
                         supChannels = map (\<lambda>item. decodeChannelCapabilities item (talk \<noteq> 0 \<and> \<not> isNVR)) items\<rparr>)))"

fun find_channel :: "byte \<Rightarrow> capabilities list \<Rightarrow> capabilities option" where
  "find_channel channel [] = None"
| "find_channel channel (cap # caps) = (if capChannel cap = uint channel then Some cap else find_channel channel caps)"

definition CapabilitiesFor :: "byte \<Rightarrow> support \<Rightarrow> capabilities option" where
  "CapabilitiesFor channel s = find_channel channel (supChannels s)"

section \<open>Stream profiles\<close>

record encode_table =
  etType :: string
  etWidth :: int
  etHeight :: int
  DefaultFramerate :: int
  DefaultBitrate :: int
  FramerateTable :: string
  BitrateTable :: string
  DefaultGop :: int

record stream_info =
  ChannelBits :: int
  EncodeTables :: "encode_table list"

record stream_profile =
  spName :: string
  spWidth :: int
  spHeight :: int
  Framerate :: int

definition profileNameForStreamType :: "string \<Rightarrow> string" where
  "profileNameForStreamType t =
     (if t = ''mainStream'' then ''main'' else if t = ''subStream'' then ''sub''
      else if t = ''externStream'' then ''extern'' else [])"

fun last_of_type :: "string \<Rightarrow> encode_table list \<Rightarrow> encode_table option" where
  "last_of_type t [] = None"
| "last_of_type t (e # es) =
     (case last_of_type t es of Some e' \<Rightarrow> Some e' | None \<Rightarrow> if etType e = t then Some e else None)"

definition subCopiesMain :: "stream_info \<Rightarrow> bool" where
  "subCopiesMain info =
     (case (last_of_type ''mainStream'' (EncodeTables info), last_of_type ''subStream'' (EncodeTables info)) of
        (Some a, Some b) \<Rightarrow> a\<lparr>etType := []\<rparr> = b\<lparr>etType := []\<rparr>
      | _ \<Rightarrow> False)"

definition area :: "stream_profile \<Rightarrow> int" where "area p = signed_take_bit 63 (spWidth p * spHeight p)"

definition better_profile :: "(string \<rightharpoonup> stream_profile) \<Rightarrow> stream_profile \<Rightarrow> string \<rightharpoonup> stream_profile" where
  "better_profile best candidate =
     (case best (spName candidate) of
        None \<Rightarrow> best(spName candidate \<mapsto> candidate)
      | Some current \<Rightarrow> if area candidate > area current then best(spName candidate \<mapsto> candidate) else best)"

definition candidates :: "byte \<Rightarrow> stream_info \<Rightarrow> stream_profile list" where
  "candidates channel info =
     (if \<not> bit (ChannelBits info) (unat channel) then []
      else [\<lparr>spName = profileNameForStreamType (etType t), spWidth = etWidth t, spHeight = etHeight t,
             Framerate = DefaultFramerate t\<rparr>.
            t \<leftarrow> EncodeTables info,
            \<not> (profileNameForStreamType (etType t) = []
               \<or> profileNameForStreamType (etType t) = ''sub'' \<and> subCopiesMain info)])"

text \<open>\<^verbatim>\<open>StreamProfiles\<close> after decoding; \<open>None\<close> is the error that no stream was reported.\<close>

definition stream_profiles :: "byte \<Rightarrow> stream_info list \<Rightarrow> stream_profile list option" where
  "stream_profiles channel infos =
     (let best = foldl better_profile Map.empty (concat (map (candidates channel) infos));
          profiles = List.map_filter best [''main'', ''extern'', ''sub'']
      in if length profiles = 0 then None else Some profiles)"

text \<open>\<^verbatim>\<open>OccupiedChannels\<close> after decoding.\<close>

definition occupied_channels :: "stream_info list \<Rightarrow> nat list" where
  "occupied_channels infos =
     (let mask = foldl (\<lambda>m info. m OR word_of_int (ChannelBits info)) (0 :: u64) infos
      in filter (\<lambda>i. bit mask i) [0..<64])"

lemma better_profile_at:
  "better_profile best cand n =
     (if n = spName cand
      then (case best n of None \<Rightarrow> Some cand | Some cur \<Rightarrow> Some (if area cur < area cand then cand else cur))
      else best n)"
  by (auto simp: better_profile_def split: option.splits)

lemma foldl_better:
  "(case foldl better_profile best cands n of
      None \<Rightarrow> best n = None \<and> (\<forall>c \<in> set cands. spName c \<noteq> n)
    | Some p \<Rightarrow> (best n = Some p \<or> p \<in> set cands \<and> spName p = n)
        \<and> (\<forall>c \<in> set cands. spName c = n \<longrightarrow> area c \<le> area p)
        \<and> (\<forall>q. best n = Some q \<longrightarrow> area q \<le> area p))"
proof (induction cands arbitrary: best)
  case (Cons c cands)
  from Cons [of "better_profile best c"] show ?case
    by (auto simp: better_profile_at split: option.splits if_splits)
qed (simp split: option.split)

lemma map_filter_member: "p \<in> set (List.map_filter f xs) \<Longrightarrow> \<exists>x. f x = Some p"
  by (auto simp: List.map_filter_def)

text \<open>The profiles a channel is said to offer are the ones it reports: each is one of its encode tables,
  the largest of its kind, kinds are listed once and in the order main, extern, sub, a kind is
  missing only when the channel reports no table of it, and a sub stream that repeats the main
  stream's table does not count.\<close>

theorem stream_profiles_largest:
  assumes "cands = concat (map (candidates channel) infos)"
  shows "(stream_profiles channel infos = None \<longleftrightarrow> cands = [])
    \<and> (\<forall>ps. stream_profiles channel infos = Some ps \<longrightarrow>
         map spName ps = filter (\<lambda>n. n \<in> spName ` set cands) [''main'', ''extern'', ''sub'']
         \<and> (\<forall>p \<in> set ps. p \<in> set cands \<and> (\<forall>c \<in> set cands. spName c = spName p \<longrightarrow> area c \<le> area p)))"
proof -
  let ?names = "[''main'', ''extern'', ''sub'']"
  define best where "best = foldl better_profile Map.empty cands"
  have none: "best n = None \<longleftrightarrow> n \<notin> spName ` set cands" for n
    using foldl_better [where best = Map.empty and cands = cands and n = n] by (auto simp: best_def split: option.splits)
  have some: "best n = Some p \<Longrightarrow>
      p \<in> set cands \<and> spName p = n \<and> (\<forall>c \<in> set cands. spName c = n \<longrightarrow> area c \<le> area p)" for n p
    using foldl_better [where best = Map.empty and cands = cands and n = n] by (auto simp: best_def)
  have kinds: "c \<in> set cands \<Longrightarrow> spName c \<in> set ?names" for c
    by (auto simp: assms candidates_def profileNameForStreamType_def split: if_splits)
  have sp: "stream_profiles channel infos =
      (if List.map_filter best ?names = [] then None else Some (List.map_filter best ?names))"
    by (simp only: stream_profiles_def Let_def best_def assms length_0_conv)
  have "map spName (List.map_filter best ns) = filter (\<lambda>n. n \<in> spName ` set cands) ns" for ns
  proof (induction ns)
    case (Cons n ns)
    then show ?case
      using none some [of n] by (cases "best n") (simp_all add: List.map_filter_def)
  qed (simp add: List.map_filter_def)
  then have names: "map spName (List.map_filter best ?names) = filter (\<lambda>n. n \<in> spName ` set cands) ?names" .
  have "List.map_filter best ?names = [] \<longleftrightarrow> cands = []"
  proof
    assume "List.map_filter best ?names = []"
    then have none_left: "\<forall>n \<in> set ?names. n \<notin> spName ` set cands"
      using names by (metis (no_types, lifting) filter_empty_conv list.map_disc_iff)
    show "cands = []"
    proof (rule ccontr)
      assume "cands \<noteq> []"
      then have "hd cands \<in> set cands" by simp
      with kinds none_left show False by blast
    qed
  next
    assume "cands = []"
    then show "List.map_filter best ?names = []" using names by (simp del: map_filter_simps)
  qed
  moreover have "\<forall>p \<in> set (List.map_filter best ?names).
      p \<in> set cands \<and> (\<forall>c \<in> set cands. spName c = spName p \<longrightarrow> area c \<le> area p)"
  proof
    fix p
    assume "p \<in> set (List.map_filter best ?names)"
    then obtain n where "best n = Some p" using map_filter_member by metis
    from some [OF this] show "p \<in> set cands \<and> (\<forall>c \<in> set cands. spName c = spName p \<longrightarrow> area c \<le> area p)"
      by simp
  qed
  ultimately show ?thesis unfolding sp using names by auto
qed

definition demo_infos :: "stream_info list" where
  "demo_infos = [\<lparr>ChannelBits = 1, EncodeTables =
     [\<lparr>etType = ''mainStream'', etWidth = 4, etHeight = 3, DefaultFramerate = 25, DefaultBitrate = 0,
       FramerateTable = [], BitrateTable = [], DefaultGop = 1\<rparr>,
      \<lparr>etType = ''mainStream'', etWidth = 8, etHeight = 6, DefaultFramerate = 25, DefaultBitrate = 0,
       FramerateTable = [], BitrateTable = [], DefaultGop = 1\<rparr>]\<rparr>]"

theorem stream_profiles_largest_witness:
  "\<exists>ps. stream_profiles 0 demo_infos = Some ps \<and> map spName ps = [''main'']"
proof -
  let ?cands = "concat (map (candidates 0) demo_infos)"
  have c: "?cands = [\<lparr>spName = ''main'', spWidth = 4, spHeight = 3, Framerate = 25\<rparr>,
      \<lparr>spName = ''main'', spWidth = 8, spHeight = 6, Framerate = 25\<rparr>]" by code_simp
  have "filter (\<lambda>n. n \<in> spName ` set ?cands) [''main'', ''extern'', ''sub''] = [''main'']"
    unfolding c by simp
  with stream_profiles_largest [OF refl, of 0 demo_infos] c show ?thesis
    by (cases "stream_profiles 0 demo_infos") simp_all
qed

section \<open>Battery, floodlight and sleep\<close>

record battery_info =
  biChannelID :: int
  ChargeStatus :: string
  AdapterStatus :: string
  Voltage :: int
  Current :: int
  Temperature :: int
  BatteryPercent :: int
  LowPower :: int
  BatteryVersion :: int
  PowerSupplyStatus :: string

definition decode_battery :: "xml list \<Rightarrow> battery_info option" where
  "decode_battery ks =
     do { chan \<leftarrow> int_field 64 ''channelId'' ks; voltage \<leftarrow> int_field 64 ''voltage'' ks;
          current \<leftarrow> int_field 64 ''current'' ks; temperature \<leftarrow> int_field 64 ''temperature'' ks;
          percent \<leftarrow> int_field 64 ''batteryPercent'' ks; low \<leftarrow> int_field 64 ''lowPower'' ks;
          version \<leftarrow> int_field 64 ''batteryVersion'' ks;
          Some \<lparr>biChannelID = chan, ChargeStatus = str_field ''chargeStatus'' ks,
                AdapterStatus = str_field ''adapterStatus'' ks, Voltage = voltage, Current = current,
                Temperature = temperature, BatteryPercent = percent, LowPower = low, BatteryVersion = version,
                PowerSupplyStatus = str_field ''powerSupplyStatus'' ks\<rparr> }"

text \<open>Both shapes of a push: a bare \<^verbatim>\<open>BatteryInfo\<close> and a \<^verbatim>\<open>BatteryList\<close>; anything else is no battery.\<close>

definition parseBatteryPayload :: "xml_parser \<Rightarrow> string \<Rightarrow> battery_info list" where
  "parseBatteryPayload parser xmlText =
     (if xmlText = [] then []
      else case Option.bind (parser xmlText) any_root_kids of
        None \<Rightarrow> []
      | Some body \<Rightarrow>
          (case Option.bind (struct_field ''BatteryInfo'' body) decode_battery of
             Some info \<Rightarrow> [info]
           | None \<Rightarrow>
               (case Option.bind (struct_field ''BatteryList'' body)
                       (\<lambda>ks. those (map decode_battery (slice_field ''BatteryInfo'' ks))) of
                  Some items \<Rightarrow> items
                | None \<Rightarrow> [])))"

text \<open>\<^verbatim>\<open>ListenForBattery\<close>: the callbacks one message causes.\<close>

definition battery_callbacks :: "xml_parser \<Rightarrow> byte \<Rightarrow> string \<Rightarrow> battery_info list" where
  "battery_callbacks parser channel xmlText =
     filter (\<lambda>info. biChannelID info = uint channel) (parseBatteryPayload parser xmlText)"

text \<open>The entries of a nested list \<^verbatim>\<open>outer>inner\<close>.\<close>

definition path_field :: "string \<Rightarrow> string \<Rightarrow> xml list \<Rightarrow> xml list list" where
  "path_field outer inner ks = concat (map (slice_field inner) (slice_field outer ks))"

definition ParseFloodlightStates :: "xml_parser \<Rightarrow> string \<Rightarrow> int \<rightharpoonup> bool" where
  "ParseFloodlightStates parser xmlText =
     (if xmlText = [] then Map.empty
      else case do { doc \<leftarrow> parser xmlText; body \<leftarrow> any_root_kids doc;
                     those (map (\<lambda>ks. do { chan \<leftarrow> int_field 64 ''channel'' ks;
                                           status \<leftarrow> int_field 64 ''status'' ks; Some (chan, status) })
                             (path_field ''FloodlightStatusList'' ''FloodlightStatus'' body)) } of
        None \<Rightarrow> Map.empty
      | Some entries \<Rightarrow> map_of (rev (map (\<lambda>(chan, status). (chan, status \<noteq> 0)) entries)))"

definition ParseSleepStates :: "xml_parser \<Rightarrow> string \<Rightarrow> int \<rightharpoonup> bool" where
  "ParseSleepStates parser xmlText =
     (if xmlText = [] then Map.empty
      else case do { doc \<leftarrow> parser xmlText; body \<leftarrow> any_root_kids doc;
                     those (map (\<lambda>ks. map_option (\<lambda>chan. (chan, str_field ''loginState'' ks)) (int_field 64 ''channelId'' ks))
                             (path_field ''ChannelInfoList'' ''ChannelInfo'' body)) } of
        None \<Rightarrow> Map.empty
      | Some entries \<Rightarrow> map_of (rev (map (\<lambda>(chan, login). (chan, login = ''standby'')) entries)))"

section \<open>The retry\<close>

text \<open>The clients before attempts \<open>n\<close>, \<open>n + 1\<close>, ...: each but the last was refused as busy.\<close>

fun busy_chain :: "attempt \<Rightarrow> nat \<Rightarrow> client list \<Rightarrow> bool" where
  "busy_chain send n (c # c' # cs) =
     ((\<exists>e. send n c = (Inl e, c') \<and> isBusyStatus e) \<and> busy_chain send (Suc n) (c' # cs))"
| "busy_chain send n cs = True"

lemma retry_from_chain:
  assumes "\<And>n. wait n = Elapsed"
  shows "\<exists>cs. hd cs = c \<and> cs \<noteq> [] \<and> length cs \<le> Suc left \<and> busy_chain send n cs
    \<and> retry_from left n send wait c = send (n + length cs - 1) (last cs)
    \<and> (length cs < Suc left \<longrightarrow> (\<forall>e. fst (send (n + length cs - 1) (last cs)) = Inl e \<longrightarrow> \<not> isBusyStatus e))"
proof (induction left arbitrary: n c)
  case 0
  show ?case
    by (intro exI [of _ "[c]"]) (auto simp: retry_from.simps split: prod.splits sum.splits)
next
  case (Suc left)
  show ?case
  proof (cases "\<exists>e c'. send n c = (Inl e, c') \<and> isBusyStatus e")
    case True
    then obtain e c' where st: "send n c = (Inl e, c')" "isBusyStatus e" by blast
    from Suc.IH [of c' "Suc n"] obtain cs where cs: "hd cs = c'" "cs \<noteq> []" "length cs \<le> Suc left"
      "busy_chain send (Suc n) cs"
      "retry_from left (Suc n) send wait c' = send (Suc n + length cs - 1) (last cs)"
      "length cs < Suc left \<longrightarrow> (\<forall>e. fst (send (Suc n + length cs - 1) (last cs)) = Inl e \<longrightarrow> \<not> isBusyStatus e)"
      by blast
    obtain cs' where c: "cs = c' # cs'" using cs(1,2) by (cases cs) auto
    have "retry_from (Suc left) n send wait c = retry_from left (Suc n) send wait c'"
      using st assms by (simp add: retry_from.simps [of "Suc left"])
    moreover have ix: "n + length (c # cs) - 1 = Suc n + length cs - 1" "last (c # cs) = last cs"
      using cs(2) by (simp_all add: c)
    moreover have "busy_chain send n (c # cs)" using st cs(4) by (simp add: c)
    ultimately show ?thesis
    proof (intro exI [of _ "c # cs"] conjI)
      show "hd (c # cs) = c" "c # cs \<noteq> []" by simp_all
      show "length (c # cs) \<le> Suc (Suc left)" using cs(3) by simp
    qed (simp_all only: ix cs(5), use cs(6) in simp)
  next
    case False
    have "retry_from (Suc left) n send wait c = send n c"
      using False by (auto simp: retry_from.simps [of "Suc left"] split: prod.splits sum.splits)
    moreover obtain r c' where "send n c = (r, c')" by fastforce
    ultimately show ?thesis
      using False by (intro exI [of _ "[c]"]) auto
  qed
qed

text \<open>A busy camera is asked again and no more than twice: the answer of a command is the answer to the
  last of one, two or three attempts, every one before it was refused with status 400, and a
  refusal for being busy is only returned by the third.\<close>

theorem busy_camera_retried:
  assumes "\<And>n. wait n = Elapsed"
  shows "\<exists>cs. hd cs = c \<and> 1 \<le> length cs \<and> length cs \<le> 3 \<and> busy_chain send 1 cs
    \<and> retryWhileBusy send wait c = send (length cs) (last cs)
    \<and> (length cs < 3 \<longrightarrow> (\<forall>e. fst (send (length cs) (last cs)) = Inl e \<longrightarrow> \<not> isBusyStatus e))"
proof -
  have "\<exists>cs. hd cs = c \<and> cs \<noteq> [] \<and> length cs \<le> 3 \<and> busy_chain send 1 cs
    \<and> retryWhileBusy send wait c = send (length cs) (last cs)
    \<and> (length cs < 3 \<longrightarrow> (\<forall>e. fst (send (length cs) (last cs)) = Inl e \<longrightarrow> \<not> isBusyStatus e))"
    using retry_from_chain [where wait = wait and c = c and left = 2 and send = send and n = 1, OF assms]
    by (simp only: retryWhileBusy_def busyAttempts_def) simp
  then show ?thesis by (simp only: One_nat_def Suc_le_eq length_greater_0_conv)
qed

theorem busy_camera_retried_witness:
  "\<exists>cs. retryWhileBusy (\<lambda>n c. (Inl (StatusError 31 400), c)) (\<lambda>n. Elapsed) (new_client demo_config False) =
     (\<lambda>n c. (Inl (StatusError 31 400), c)) (length cs) (last (cs :: client list)) \<and> length cs \<le> 3"
  using busy_camera_retried [of "\<lambda>n. Elapsed" "new_client demo_config False" "\<lambda>n c. (Inl (StatusError 31 400), c)"] by blast

end
