(* ===== verification/Alarm.thy ===== *)
theory Alarm
  imports Queries
begin

text \<open>
  Alarm pushes, \<^verbatim>\<open>pkg/baichuan/motion.go\<close>: decoding them for a channel, merging the alarm push with
  the YOLO World pushes, and the listener that reports the merged state.
\<close>

section \<open>Strings and lists of types\<close>

text \<open>\<^verbatim>\<open>strings.FieldsFunc\<close>: the maximal runs of characters that are no separators.\<close>

fun fields_from :: "(char \<Rightarrow> bool) \<Rightarrow> string \<Rightarrow> string \<Rightarrow> string list" where
  "fields_from sep cur [] = (if cur = [] then [] else [cur])"
| "fields_from sep cur (c # s) =
     (if sep c then (if cur = [] then fields_from sep [] s else cur # fields_from sep [] s)
      else fields_from sep (cur @ [c]) s)"

definition contains_str :: "string \<Rightarrow> string \<Rightarrow> bool" where
  "contains_str s sub = list_ex (\<lambda>i. has_prefix (drop i s) sub) [0..<Suc (length s)]"

definition parseAITypes :: "string \<Rightarrow> string list" where
  "parseAITypes raw =
     filter (\<lambda>part. part \<noteq> [] \<and> part \<noteq> ''none'' \<and> part \<noteq> ''other'')
       (map (\<lambda>part. to_lower (trim_space part))
         (fields_from (\<lambda>r. r = CHR ''&'' \<or> r = CHR '','' \<or> r = CHR '' '') [] raw))"

fun appendNew :: "'a list \<Rightarrow> 'a list \<Rightarrow> 'a list" where
  "appendNew xs [] = xs"
| "appendNew xs (item # items) = appendNew (if item \<in> set xs then xs else xs @ [item]) items"

definition yoloAIType :: "string \<Rightarrow> string" where
  "yoloAIType raw =
     (let name = to_lower (trim_space raw) in
      if name = ''person'' then ''people''
      else if name = ''motor vehicle'' then ''vehicle''
      else if name = ''animal'' then ''dog_cat''
      else name)"

lemma set_appendNew [simp]: "set (appendNew xs items) = set xs \<union> set items"
  by (induction items arbitrary: xs) auto

lemma distinct_appendNew [simp]: "distinct (appendNew xs items) \<longleftrightarrow> distinct xs"
  by (induction items arbitrary: xs) auto

lemma appendNew_prefix: "\<exists>more. appendNew xs items = xs @ more"
proof (induction items arbitrary: xs)
  case (Cons a items)
  show ?case using Cons [of xs] Cons [of "xs @ [a]"] by auto
qed simp

section \<open>The documents\<close>

record smart_ai = smIndex :: int  smTypes :: "string list"

record alarm_event =
  evChannel :: byte
  evStatus :: string
  evAIType :: string
  evSmart :: "smart_ai list"

record alarm_state =
  MotionDetected :: bool
  Visitor :: bool
  AITypes :: "string list"

definition no_alarm :: alarm_state where
  "no_alarm = \<lparr>MotionDetected = False, Visitor = False, AITypes = []\<rparr>"

definition Active :: "alarm_state \<Rightarrow> bool" where
  "Active s = (MotionDetected s \<or> length (AITypes s) > 0)"

text \<open>The elements a field with the \<^verbatim>\<open>,any\<close> tag takes: all that no other field takes.\<close>

fun any_elems :: "xml list \<Rightarrow> xml list list" where
  "any_elems [] = []"
| "any_elems (Text s # ks) = any_elems ks"
| "any_elems (Elem t as cs # ks) = cs # any_elems ks"

fun traverse :: "('a \<Rightarrow> 'b option) \<Rightarrow> 'a list \<Rightarrow> 'b list option" where
  "traverse f [] = Some []"
| "traverse f (x # xs) = do { y \<leftarrow> f x; ys \<leftarrow> traverse f xs; Some (y # ys) }"

definition decode_smart :: "xml list \<Rightarrow> smart_ai option" where
  "decode_smart ks =
     do { index \<leftarrow> int_field 64 ''index'' ks;
          _ \<leftarrow> traverse (int_field 64 ''index'') (slice_field ''subList'' ks);
          Some \<lparr>smIndex = index, smTypes = map (str_field ''type'') (slice_field ''subList'' ks)\<rparr> }"

definition decode_event :: "xml list \<Rightarrow> alarm_event option" where
  "decode_event ks =
     do { channel \<leftarrow> uint_field 8 ''channelId'' ks;
          smart \<leftarrow> traverse decode_smart
                     (concat (map (slice_field ''smartAiType'') (slice_field ''smartAiTypeList'' ks)));
          Some \<lparr>evChannel = word_of_nat channel, evStatus = str_field ''status'' ks,
                evAIType = str_field ''AItype'' ks, evSmart = smart\<rparr> }"

definition decode_alarm :: "xml \<Rightarrow> alarm_event list option" where
  "decode_alarm doc =
     do { ks \<leftarrow> any_root_kids doc;
          traverse decode_event (concat (map (slice_field ''AlarmEvent'') (any_elems ks))) }"

text \<open>A YOLO event: its channel (\<^verbatim>\<open>*uint8\<close>) and the class names.\<close>

definition decode_yolo_event :: "xml list \<Rightarrow> (byte option \<times> string list) option" where
  "decode_yolo_event ks =
     do { channel \<leftarrow> uint_field 8 ''channel'' ks;
          Some (if elems ''channel'' ks = [] then None else Some (word_of_nat channel),
                map (str_field ''type'') (slice_field ''YoloWorldType'' ks)) }"

definition decode_yolo :: "xml \<Rightarrow> (byte option \<times> string list) list option" where
  "decode_yolo doc =
     do { ks \<leftarrow> any_root_kids doc; traverse decode_yolo_event (concat (map any_elems (any_elems ks))) }"

section \<open>The state of a channel\<close>

definition add_zone :: "alarm_state \<Rightarrow> string \<Rightarrow> alarm_state" where
  "add_zone s raw =
     (let types = parseAITypes raw in
      if length types = 0 then s\<lparr>MotionDetected := True\<rparr>
      else s\<lparr>AITypes := appendNew (AITypes s) types\<rparr>)"

definition add_smart :: "alarm_state \<Rightarrow> smart_ai \<Rightarrow> alarm_state" where
  "add_smart s smart =
     foldl add_zone (if smIndex smart > 0 then s\<lparr>MotionDetected := True\<rparr> else s) (smTypes smart)"

definition add_event :: "alarm_state \<Rightarrow> alarm_event \<Rightarrow> alarm_state" where
  "add_event s ev =
     (let s = (if contains_str (evStatus ev) ''MD'' then s\<lparr>MotionDetected := True\<rparr> else s);
          s = (if contains_str (evStatus ev) ''visitor'' then s\<lparr>Visitor := True\<rparr> else s);
          s = (if contains_str (evAIType ev) ''other'' then s\<lparr>MotionDetected := True\<rparr> else s);
          s = s\<lparr>AITypes := appendNew (AITypes s) (parseAITypes (evAIType ev))\<rparr>
      in foldl add_smart s (evSmart ev))"

record alarm_parse =
  apState :: alarm_state
  matched :: bool
  hasEvent :: bool
  channels :: "byte list"

definition empty_parse :: alarm_parse where
  "empty_parse = \<lparr>apState = no_alarm, matched = False, hasEvent = False, channels = []\<rparr>"

definition alarm_step :: "byte \<Rightarrow> bool \<Rightarrow> alarm_parse \<Rightarrow> alarm_event \<Rightarrow> alarm_parse" where
  "alarm_step channel anyChannel res ev =
     (let res = res\<lparr>hasEvent := True, channels := appendNew (channels res) [evChannel ev]\<rparr> in
      if \<not> anyChannel \<and> evChannel ev \<noteq> channel then res
      else res\<lparr>matched := True, apState := add_event (apState res) ev\<rparr>)"

text \<open>\<open>None\<close> is a document that does not decode; its result is the empty one.\<close>

definition parseAlarm :: "xml_parser \<Rightarrow> string \<Rightarrow> byte \<Rightarrow> bool \<Rightarrow> alarm_parse option" where
  "parseAlarm parser xmlText channel anyChannel =
     (if xmlText = [] then Some empty_parse
      else do { doc \<leftarrow> parser xmlText; events \<leftarrow> decode_alarm doc;
                Some (foldl (alarm_step channel anyChannel) empty_parse events) })"

definition parseAlarmState :: "xml_parser \<Rightarrow> string \<Rightarrow> byte \<Rightarrow> bool \<Rightarrow> (alarm_state \<times> bool) option" where
  "parseAlarmState parser xmlText channel anyChannel =
     map_option (\<lambda>res. (apState res, matched res)) (parseAlarm parser xmlText channel anyChannel)"

definition yolo_step ::
  "byte \<Rightarrow> bool \<Rightarrow> string list \<times> bool \<Rightarrow> byte option \<times> string list \<Rightarrow> string list \<times> bool" where
  "yolo_step channel anyChannel acc ev =
     (case (acc, ev) of ((types, m), (chan, raws)) \<Rightarrow>
        (case chan of
           None \<Rightarrow> (types, m)
         | Some c \<Rightarrow>
             if \<not> anyChannel \<and> c \<noteq> channel then (types, m)
             else (foldl (\<lambda>ts raw. if yoloAIType raw \<noteq> [] then appendNew ts [yoloAIType raw] else ts) types raws,
                   True)))"

definition parseYolo :: "xml_parser \<Rightarrow> string \<Rightarrow> byte \<Rightarrow> bool \<Rightarrow> (string list \<times> bool) option" where
  "parseYolo parser xmlText channel anyChannel =
     (if xmlText = [] then Some ([], False)
      else do { doc \<leftarrow> parser xmlText; events \<leftarrow> decode_yolo doc;
                Some (foldl (yolo_step channel anyChannel) ([], False) events) })"

definition withAITypes :: "alarm_state \<Rightarrow> string list list \<Rightarrow> alarm_state" where
  "withAITypes s extras = s\<lparr>AITypes := foldl appendNew (AITypes s) extras\<rparr>"

section \<open>The merger\<close>

record alarm_merger =
  mAlarm :: alarm_state
  mYolo :: "string list"
  mYoloDetail :: "string list"

definition fresh_merger :: alarm_merger where
  "fresh_merger = \<lparr>mAlarm = no_alarm, mYolo = [], mYoloDetail = []\<rparr>"

definition merger_state :: "alarm_merger \<Rightarrow> alarm_state" where
  "merger_state m = withAITypes (mAlarm m) [mYolo m, mYoloDetail m]"

definition merger_Alarm :: "alarm_state \<Rightarrow> alarm_merger \<Rightarrow> alarm_state \<times> alarm_merger" where
  "merger_Alarm s m = (let m' = m\<lparr>mAlarm := s\<rparr> in (merger_state m', m'))"

definition msgIDYoloAlarm :: int where "msgIDYoloAlarm = 600"
definition msgIDYoloAlarmDetail :: int where "msgIDYoloAlarmDetail = 696"

text \<open>\<open>None\<close> is the error; otherwise the merged state and whether the push changed it.\<close>

definition merger_Yolo ::
  "xml_parser \<Rightarrow> int \<Rightarrow> string \<Rightarrow> byte \<Rightarrow> bool \<Rightarrow> alarm_merger \<Rightarrow> (alarm_state \<times> bool) option \<times> alarm_merger" where
  "merger_Yolo parser cmd xmlText channel anyChannel m =
     (case parseYolo parser xmlText channel anyChannel of
        None \<Rightarrow> (None, m)
      | Some (types, hit) \<Rightarrow>
          if cmd = msgIDYoloAlarmDetail then
            if \<not> hit then (Some (merger_state m, False), m)
            else if mYoloDetail m = types then (Some (merger_state m, False), m)
            else let m' = m\<lparr>mYoloDetail := types\<rparr> in (Some (merger_state m', True), m')
          else if mYolo m = types then (Some (merger_state m, False), m)
          else let m' = m\<lparr>mYolo := types\<rparr> in (Some (merger_state m', True), m'))"

definition merger_Reset :: "alarm_merger \<Rightarrow> alarm_merger" where
  "merger_Reset m = fresh_merger"

section \<open>The listener\<close>

datatype alarm_push = MotionPush string | YoloPush int string

text \<open>\<open>alReports\<close> are the callback's arguments, newest first; \<open>foreignWarned\<close> is \<^verbatim>\<open>foreignAlarmOnce\<close>.\<close>

record alarm_listener =
  alMerger :: alarm_merger
  alarmPushed :: bool
  foreignWarned :: bool
  alReports :: "alarm_state list"

definition report_alarm :: "alarm_state \<Rightarrow> alarm_listener \<Rightarrow> alarm_listener" where
  "report_alarm s l = l\<lparr>alReports := s # alReports l\<rparr>"

text \<open>One message in the listener's loop; \<open>isNVR\<close> is the device kind the login reported.\<close>

definition alarm_listener_step ::
  "xml_parser \<Rightarrow> byte \<Rightarrow> bool \<Rightarrow> bool \<Rightarrow> alarm_push \<Rightarrow> alarm_listener \<Rightarrow> alarm_listener" where
  "alarm_listener_step parser channel dualLens isNVR push l =
     (case push of
        MotionPush xmlText \<Rightarrow>
          (case parseAlarm parser xmlText channel dualLens of
             None \<Rightarrow> l
           | Some res \<Rightarrow>
               let l = (if hasEvent res then l\<lparr>alarmPushed := True\<rparr> else l) in
               if matched res then
                 let (s, m) = merger_Alarm (apState res) (alMerger l) in report_alarm s (l\<lparr>alMerger := m\<rparr>)
               else if hasEvent res \<and> \<not> isNVR then l\<lparr>foreignWarned := True\<rparr>
               else l)
      | YoloPush cmd xmlText \<Rightarrow>
          let l = l\<lparr>alarmPushed := True\<rparr> in
          (case merger_Yolo parser cmd xmlText channel dualLens (alMerger l) of
             (None, m) \<Rightarrow> l\<lparr>alMerger := m\<rparr>
           | (Some (s, changed), m) \<Rightarrow>
               let l = l\<lparr>alMerger := m\<rparr> in if changed then report_alarm s l else l))"

definition alarm_listener_run ::
  "xml_parser \<Rightarrow> byte \<Rightarrow> bool \<Rightarrow> bool \<Rightarrow> alarm_push list \<Rightarrow> alarm_listener \<Rightarrow> alarm_listener" where
  "alarm_listener_run parser channel dualLens isNVR pushes l =
     fold (alarm_listener_step parser channel dualLens isNVR) pushes l"

definition fresh_listener :: alarm_listener where
  "fresh_listener = \<lparr>alMerger = fresh_merger, alarmPushed = False, foreignWarned = False, alReports = []\<rparr>"

datatype alarm_error = AlarmClient client_error | AlarmAbility ability_error | MissingAbility abilityAccess

definition msgIDMotion :: u32 where "msgIDMotion = 33"

text \<open>
  \<^verbatim>\<open>ListenForAlarms\<close> up to its loop: a camera that refuses the event subscription is listened to all
  the same. The result is the dual-lens flag and the three subscriptions.
\<close>

definition ListenForAlarms ::
  "(client \<Rightarrow> (client_error option \<times> client) option) \<Rightarrow> xml_parser \<Rightarrow> (nat \<Rightarrow> env) \<Rightarrow> (nat \<Rightarrow> wait_end) \<Rightarrow>
   byte \<Rightarrow> client \<Rightarrow> ((alarm_error + bool \<times> nat \<times> nat \<times> nat) \<times> client) option" where
  "ListenForAlarms login parser env wait channel c =
     do { (err, c1) \<leftarrow> login c;
          (case err of
             Some e \<Rightarrow> Some (Inl (AlarmClient e), c1)
           | None \<Rightarrow>
               do { (abil, c2) \<leftarrow> AbilityInfoXML login (env 0) c1;
                    Some (case abil of
                      Inl e \<Rightarrow> (Inl (AlarmClient e), c2)
                    | Inr xmlText \<Rightarrow>
                        (case parseAbilityInfo parser xmlText channel of
                           Inl e \<Rightarrow> (Inl (AlarmAbility e), c2)
                         | Inr abilities \<Rightarrow>
                             (case requireAbilityRW abilities ''motion'' of
                                Some acc \<Rightarrow> (Inl (MissingAbility acc), c2)
                              | None \<Rightarrow>
                                  (case RefreshAlarmSubscription env wait c2 of (refused, c3) \<Rightarrow>
                                    let go = (let (m, c4) = subscribe msgIDMotion c3;
                                                  (y, c5) = subscribe 600 c4;
                                                  (d, c6) = subscribe 696 c5
                                              in (Inr (channel = 0 \<and> IsDualLens (loginInfo c3), m, y, d), c6))
                                    in (case refused of
                                          None \<Rightarrow> go
                                        | Some (StatusError i code) \<Rightarrow> go
                                        | Some e \<Rightarrow> (Inl (AlarmClient e), c3)))))) }) }"

text \<open>What the callback last said; before the first report the channel is idle.\<close>

definition last_report :: "alarm_listener \<Rightarrow> alarm_state" where
  "last_report l = (case alReports l of [] \<Rightarrow> no_alarm | s # rest \<Rightarrow> s)"

section \<open>What a push says\<close>

definition for_channel :: "byte \<Rightarrow> bool \<Rightarrow> alarm_event \<Rightarrow> bool" where
  "for_channel channel anyChannel ev = (anyChannel \<or> evChannel ev = channel)"

lemma foldl_add_zone:
  "foldl add_zone s raws =
     s\<lparr>MotionDetected := MotionDetected s \<or> (\<exists>raw \<in> set raws. parseAITypes raw = []),
       AITypes := foldl appendNew (AITypes s) (map parseAITypes raws)\<rparr>"
  by (induction raws arbitrary: s) (auto simp: add_zone_def Let_def)

lemma foldl_step:
  "foldl (alarm_step channel anyChannel) res events =
     \<lparr>apState = foldl add_event (apState res) (filter (for_channel channel anyChannel) events),
      matched = (matched res \<or> (\<exists>ev \<in> set events. for_channel channel anyChannel ev)),
      hasEvent = (hasEvent res \<or> events \<noteq> []),
      channels = appendNew (channels res) (map evChannel events)\<rparr>"
  by (induction events arbitrary: res) (auto simp: alarm_step_def for_channel_def Let_def)

text \<open>A single event's contribution.\<close>

definition ev_motion :: "alarm_event \<Rightarrow> bool" where
  "ev_motion ev = (contains_str (evStatus ev) ''MD'' \<or> contains_str (evAIType ev) ''other''
     \<or> (\<exists>smart \<in> set (evSmart ev). 0 < smIndex smart \<or> (\<exists>raw \<in> set (smTypes smart). parseAITypes raw = [])))"

definition ev_types :: "alarm_event \<Rightarrow> string set" where
  "ev_types ev = set (parseAITypes (evAIType ev))
     \<union> (\<Union>smart \<in> set (evSmart ev). \<Union>raw \<in> set (smTypes smart). set (parseAITypes raw))"

lemma set_foldl_appendNew [simp]: "set (foldl appendNew xs yss) = set xs \<union> \<Union> (set ` set yss)"
  by (induction yss arbitrary: xs) auto

lemma distinct_foldl_appendNew [simp]: "distinct (foldl appendNew xs yss) \<longleftrightarrow> distinct xs"
  by (induction yss arbitrary: xs) auto

lemma add_smart_effect:
  "Visitor (add_smart s smart) = Visitor s"
  "MotionDetected (add_smart s smart) \<longleftrightarrow> MotionDetected s \<or> 0 < smIndex smart
     \<or> (\<exists>raw \<in> set (smTypes smart). parseAITypes raw = [])"
  "set (AITypes (add_smart s smart)) = set (AITypes s) \<union> (\<Union>raw \<in> set (smTypes smart). set (parseAITypes raw))"
  "distinct (AITypes (add_smart s smart)) \<longleftrightarrow> distinct (AITypes s)"
  by (auto simp: add_smart_def foldl_add_zone)

lemma foldl_add_smart_effect:
  "Visitor (foldl add_smart s sms) = Visitor s
   \<and> (MotionDetected (foldl add_smart s sms) \<longleftrightarrow> MotionDetected s
        \<or> (\<exists>smart \<in> set sms. 0 < smIndex smart \<or> (\<exists>raw \<in> set (smTypes smart). parseAITypes raw = [])))
   \<and> set (AITypes (foldl add_smart s sms)) =
        set (AITypes s) \<union> (\<Union>smart \<in> set sms. \<Union>raw \<in> set (smTypes smart). set (parseAITypes raw))
   \<and> (distinct (AITypes (foldl add_smart s sms)) \<longleftrightarrow> distinct (AITypes s))"
  by (induction sms arbitrary: s) (auto simp: add_smart_effect)

lemma add_event_effect:
  "Visitor (add_event s ev) \<longleftrightarrow> Visitor s \<or> contains_str (evStatus ev) ''visitor''"
  "MotionDetected (add_event s ev) \<longleftrightarrow> MotionDetected s \<or> ev_motion ev"
  "set (AITypes (add_event s ev)) = set (AITypes s) \<union> ev_types ev"
  "distinct (AITypes (add_event s ev)) \<longleftrightarrow> distinct (AITypes s)"
  by (auto simp: add_event_def Let_def foldl_add_smart_effect ev_motion_def ev_types_def)

lemma foldl_add_event_effect:
  "(Visitor (foldl add_event s evs) \<longleftrightarrow> Visitor s \<or> (\<exists>ev \<in> set evs. contains_str (evStatus ev) ''visitor''))
   \<and> (MotionDetected (foldl add_event s evs) \<longleftrightarrow> MotionDetected s \<or> (\<exists>ev \<in> set evs. ev_motion ev))
   \<and> set (AITypes (foldl add_event s evs)) = set (AITypes s) \<union> \<Union> (ev_types ` set evs)
   \<and> (distinct (AITypes (foldl add_event s evs)) \<longleftrightarrow> distinct (AITypes s))"
  by (induction evs arbitrary: s) (auto simp: add_event_effect)

text \<open>What an alarm push means for a channel: it is the union of its events for that channel (of all
  of them for a dual-lens camera) and no other channel's event shows; motion is an MD status, an
  unclassified detection or a zone detection, and each AI type is listed once.\<close>

theorem alarm_push_meaning:
  assumes "xmlText \<noteq> []" "parser xmlText = Some doc" "decode_alarm doc = Some events"
  shows "\<exists>res. parseAlarm parser xmlText channel anyChannel = Some res
    \<and> (let mine = {ev \<in> set events. anyChannel \<or> evChannel ev = channel} in
         (matched res \<longleftrightarrow> mine \<noteq> {}) \<and> (hasEvent res \<longleftrightarrow> events \<noteq> [])
         \<and> set (channels res) = evChannel ` set events
         \<and> (Visitor (apState res) \<longleftrightarrow> (\<exists>ev \<in> mine. contains_str (evStatus ev) ''visitor''))
         \<and> (MotionDetected (apState res) \<longleftrightarrow> (\<exists>ev \<in> mine. ev_motion ev))
         \<and> set (AITypes (apState res)) = \<Union> (ev_types ` mine)
         \<and> distinct (AITypes (apState res)))"
proof -
  have "parseAlarm parser xmlText channel anyChannel =
      Some (foldl (alarm_step channel anyChannel) empty_parse events)"
    using assms by (simp add: parseAlarm_def)
  then show ?thesis
    by (auto simp: foldl_step empty_parse_def no_alarm_def foldl_add_event_effect for_channel_def Let_def)
qed

definition demo_alarm_doc :: xml where
  "demo_alarm_doc = Elem ''body'' [] [Elem ''AlarmEventList'' [] [
     Elem ''AlarmEvent'' [] [Elem ''channelId'' [] [Text ''0''], Elem ''status'' [] [Text ''MD''],
       Elem ''AItype'' [] [Text ''people'']],
     Elem ''AlarmEvent'' [] [Elem ''channelId'' [] [Text ''1''], Elem ''status'' [] [Text ''visitor'']]]]"

theorem alarm_push_meaning_witness:
  "\<exists>res. parseAlarm (\<lambda>s. Some demo_alarm_doc) ''x'' 0 False = Some res
     \<and> MotionDetected (apState res) \<and> \<not> Visitor (apState res) \<and> matched res"
proof -
  let ?evs = "[\<lparr>evChannel = 0, evStatus = ''MD'', evAIType = ''people'', evSmart = []\<rparr>,
    \<lparr>evChannel = 1, evStatus = ''visitor'', evAIType = [], evSmart = []\<rparr>]"
  have dec: "decode_alarm demo_alarm_doc = Some ?evs" by code_simp
  have hits: "contains_str ''MD'' ''MD''" "\<not> contains_str ''MD'' ''visitor''" by code_simp+
  have mine: "{ev \<in> set ?evs. False \<or> evChannel ev = 0} = {hd ?evs}" by auto
  have "''x'' \<noteq> []" by simp
  from alarm_push_meaning [of "''x''" "\<lambda>s. Some demo_alarm_doc", OF this refl dec, of 0 False]
  show ?thesis
    unfolding Let_def mine
  proof (elim exE conjE)
    fix res
    assume "parseAlarm (\<lambda>s. Some demo_alarm_doc) ''x'' 0 False = Some res"
      "matched res \<longleftrightarrow> {hd ?evs} \<noteq> {}"
      "Visitor (apState res) \<longleftrightarrow> (\<exists>ev \<in> {hd ?evs}. contains_str (evStatus ev) ''visitor'')"
      "MotionDetected (apState res) \<longleftrightarrow> (\<exists>ev \<in> {hd ?evs}. ev_motion ev)"
    then show ?thesis using hits by (intro exI [of _ res]) (simp add: ev_motion_def)
  qed
qed

section \<open>What the listener reports\<close>

lemma merger_state_fresh [simp]: "merger_state fresh_merger = no_alarm"
  by (simp add: merger_state_def fresh_merger_def withAITypes_def no_alarm_def)

lemma merger_Yolo_unchanged:
  assumes "merger_Yolo parser cmd xmlText channel anyChannel m = (out, m')"
  shows "(case out of None \<Rightarrow> m' = m | Some (s, changed) \<Rightarrow> s = merger_state m' \<and> (\<not> changed \<longrightarrow> m' = m))"
  using assms by (auto simp: merger_Yolo_def Let_def split: option.splits prod.splits if_splits)

lemma step_reports:
  assumes "last_report l = merger_state (alMerger l)"
  shows "last_report (alarm_listener_step parser channel dualLens isNVR push l) =
    merger_state (alMerger (alarm_listener_step parser channel dualLens isNVR push l))"
proof (cases push)
  case (YoloPush cmd xmlText)
  obtain out m' where st: "merger_Yolo parser cmd xmlText channel dualLens (alMerger l) = (out, m')" by fastforce
  with merger_Yolo_unchanged [OF st] assms YoloPush show ?thesis
    by (auto simp: alarm_listener_step_def report_alarm_def last_report_def Let_def split: option.splits)
qed (use assms in \<open>auto simp: alarm_listener_step_def report_alarm_def last_report_def merger_Alarm_def Let_def
      split: option.splits\<close>)

lemma parseAlarm_distinct:
  "parseAlarm parser xmlText channel dualLens = Some res \<Longrightarrow> distinct (AITypes (apState res))"
  by (auto simp: parseAlarm_def empty_parse_def no_alarm_def foldl_step foldl_add_event_effect
    split: if_splits bind_splits)

lemma step_alarm_part:
  "mAlarm (alMerger (alarm_listener_step parser channel dualLens isNVR push l)) = mAlarm (alMerger l)
   \<or> (\<exists>xmlText res. parseAlarm parser xmlText channel dualLens = Some res
        \<and> mAlarm (alMerger (alarm_listener_step parser channel dualLens isNVR push l)) = apState res)"
proof (cases push)
  case (MotionPush xmlText)
  then show ?thesis
    by (cases "parseAlarm parser xmlText channel dualLens")
      (auto simp: alarm_listener_step_def report_alarm_def merger_Alarm_def Let_def)
next
  case (YoloPush cmd xmlText)
  then show ?thesis
    by (auto simp: alarm_listener_step_def report_alarm_def merger_Yolo_def Let_def
      split: option.splits prod.splits)
qed

lemma step_distinct:
  "distinct (AITypes (mAlarm (alMerger l))) \<Longrightarrow>
   distinct (AITypes (mAlarm (alMerger (alarm_listener_step parser channel dualLens isNVR push l))))"
  using step_alarm_part [of parser channel dualLens isNVR push l] parseAlarm_distinct by fastforce

text \<open>The callback is never behind the camera: after any sequence of alarm and YOLO pushes, readable or
  not, the state it was last given is the merged state of the pushes so far (an update that is not
  reported changes nothing), and each AI type is in it once.\<close>

theorem alarm_reports_current:
  "last_report (alarm_listener_run parser channel dualLens isNVR pushes fresh_listener) =
     merger_state (alMerger (alarm_listener_run parser channel dualLens isNVR pushes fresh_listener))
   \<and> distinct (AITypes (last_report (alarm_listener_run parser channel dualLens isNVR pushes fresh_listener)))"
proof -
  have current: "last_report l = merger_state (alMerger l) \<Longrightarrow>
      last_report (fold (alarm_listener_step parser channel dualLens isNVR) pushes l) =
      merger_state (alMerger (fold (alarm_listener_step parser channel dualLens isNVR) pushes l))" for l
    by (induction pushes arbitrary: l) (simp_all add: step_reports)
  have ok: "distinct (AITypes (mAlarm (alMerger l))) \<Longrightarrow>
      distinct (AITypes (mAlarm (alMerger (fold (alarm_listener_step parser channel dualLens isNVR) pushes l))))" for l
    by (induction pushes arbitrary: l) (simp_all add: step_distinct)
  show ?thesis
    using current [of fresh_listener] ok [of fresh_listener]
    by (auto simp: alarm_listener_run_def fresh_listener_def last_report_def fresh_merger_def no_alarm_def
      merger_state_def withAITypes_def)
qed

end
