(* ===== verification/TalkPipeline.thy ===== *)
theory TalkPipeline
  imports Talk "HOL-Library.Signed_Division"
begin

text \<open>
  The talkback pipeline, \<^verbatim>\<open>pkg/bridge/talk_pipeline.go\<close>: choosing the input of a client's session,
  decoding its packets, resampling to the camera's rate, cutting into ADPCM blocks and writing them,
  with the queue in front of it. The session written to is a parameter (\<open>write\<close>).
\<close>

section \<open>Interface: transducers that do not see packet boundaries\<close>

locale chunked_transducer =
  fixes step :: "'a list \<Rightarrow> 's \<Rightarrow> 'b list \<times> 's"
    and ok :: "'s \<Rightarrow> bool"
  assumes step_nil: "ok s \<Longrightarrow> step [] s = ([], s)"
    and step_ok: "ok s \<Longrightarrow> ok (snd (step a s))"
    and step_append: "ok s \<Longrightarrow>
      step (a @ b) s = (case step a s of (x, s1) \<Rightarrow> case step b s1 of (y, s2) \<Rightarrow> (x @ y, s2))"
begin

primrec run :: "'a list list \<Rightarrow> 's \<Rightarrow> 'b list \<times> 's" where
  "run [] s = ([], s)"
| "run (c # cs) s = (case step c s of (x, s1) \<Rightarrow> case run cs s1 of (y, s2) \<Rightarrow> (x @ y, s2))"

lemma run_concat: "ok s \<Longrightarrow> run cs s = step (concat cs) s"
proof (induction cs arbitrary: s)
  case (Cons c cs)
  obtain x s1 where st: "step c s = (x, s1)" by fastforce
  have "run cs s1 = step (concat cs) s1" using Cons.IH [of s1] step_ok [OF Cons.prems, of c] st by simp
  then show ?case using st by (simp add: step_append [OF Cons.prems])
qed (simp add: step_nil)

end

text \<open>Two of them in a row are one.\<close>

locale transducer_pair = first: chunked_transducer f ok1 + second: chunked_transducer g ok2
  for f :: "'a list \<Rightarrow> 's \<Rightarrow> 'b list \<times> 's" and ok1
    and g :: "'b list \<Rightarrow> 't \<Rightarrow> 'c list \<times> 't" and ok2
begin

definition both :: "'a list \<Rightarrow> 's \<times> 't \<Rightarrow> 'c list \<times> 's \<times> 't" where
  "both xs st = (case f xs (fst st) of (ys, s) \<Rightarrow> case g ys (snd st) of (zs, t) \<Rightarrow> (zs, s, t))"

definition ok_both :: "'s \<times> 't \<Rightarrow> bool" where
  "ok_both st = (ok1 (fst st) \<and> ok2 (snd st))"

lemma both_laws:
  assumes "ok_both st"
  shows "both [] st = ([], st)" and "ok_both (snd (both a st))"
    and "both (a @ b) st = (case both a st of (x, s1) \<Rightarrow> case both b s1 of (y, s2) \<Rightarrow> (x @ y, s2))"
proof -
  obtain s t where st: "st = (s, t)" "ok1 s" "ok2 t" using assms by (cases st) (auto simp: ok_both_def)
  obtain ys s1 where f: "f a s = (ys, s1)" by fastforce
  obtain zs t1 where g: "g ys t = (zs, t1)" by fastforce
  obtain ys2 s2 where f2: "f b s1 = (ys2, s2)" by fastforce
  show "both [] st = ([], st)" using st by (simp add: both_def first.step_nil second.step_nil)
  have "ok1 s1" "ok2 t1"
    using first.step_ok [OF st(2), of a] second.step_ok [OF st(3), of ys] f g by simp_all
  then show "ok_both (snd (both a st))" using st f g by (simp add: both_def ok_both_def)
  have "f (a @ b) s = (ys @ ys2, s2)" using first.step_append [OF st(2), of a b] f f2 by simp
  then show "both (a @ b) st = (case both a st of (x, s1) \<Rightarrow> case both b s1 of (y, s2) \<Rightarrow> (x @ y, s2))"
    using st f f2 g second.step_append [OF st(3), of ys ys2] by (simp add: both_def split: prod.split)
qed

end

sublocale transducer_pair \<subseteq> chunked_transducer both ok_both
  by unfold_locales (fact both_laws)+

section \<open>The input\<close>

datatype audio_format = G711 bool nat nat | LPCM nat nat nat | OtherFormat

record sdp_media =
  isAudio :: bool
  isBackChannel :: bool
  Formats :: "audio_format list"

record talk_input =
  inMedia :: sdp_media
  inFormat :: audio_format
  codecName :: string
  inRate :: nat

datatype input_error = NoDescription | G711Channels nat | LpcmDepth nat | LpcmChannels nat | NoTalkAudio | NoBackChannel

text \<open>The formats of one audio media: the first that decides; \<open>G711 muLaw channels rate\<close>, \<open>LPCM depth channels rate\<close>.\<close>

fun pick_format :: "sdp_media \<Rightarrow> audio_format list \<Rightarrow> (input_error + talk_input) option" where
  "pick_format m [] = None"
| "pick_format m (G711 muLaw chans rate # fs) =
     Some (if chans \<noteq> 1 then Inl (G711Channels chans)
           else Inr \<lparr>inMedia = m, inFormat = G711 muLaw chans rate,
                     codecName = (if muLaw then ''PCMU'' else ''PCMA''), inRate = rate\<rparr>)"
| "pick_format m (LPCM depth chans rate # fs) =
     Some (if depth \<noteq> 16 then Inl (LpcmDepth depth)
           else if chans \<noteq> 1 then Inl (LpcmChannels chans)
           else Inr \<lparr>inMedia = m, inFormat = LPCM depth chans rate, codecName = ''L16'', inRate = rate\<rparr>)"
| "pick_format m (OtherFormat # fs) = pick_format m fs"

fun pick_media :: "sdp_media list \<Rightarrow> input_error + talk_input" where
  "pick_media [] = Inl NoTalkAudio"
| "pick_media (m # ms) =
     (if \<not> isAudio m then pick_media ms
      else case pick_format m (Formats m) of None \<Rightarrow> pick_media ms | Some r \<Rightarrow> r)"

definition selectTalkInput :: "sdp_media list option \<Rightarrow> input_error + talk_input" where
  "selectTalkInput desc = (case desc of None \<Rightarrow> Inl NoDescription | Some medias \<Rightarrow> pick_media medias)"

fun g711_inputs :: "sdp_media \<Rightarrow> audio_format list \<Rightarrow> input_error + talk_input list" where
  "g711_inputs m [] = Inr []"
| "g711_inputs m (G711 muLaw chans rate # fs) =
     (if chans \<noteq> 1 then Inl (G711Channels chans)
      else case g711_inputs m fs of
        Inl e \<Rightarrow> Inl e
      | Inr ins \<Rightarrow> Inr (\<lparr>inMedia = m, inFormat = G711 muLaw chans rate,
                         codecName = (if muLaw then ''PCMU'' else ''PCMA''), inRate = rate\<rparr> # ins))"
| "g711_inputs m (f # fs) = g711_inputs m fs"

fun back_channel_inputs :: "sdp_media list \<Rightarrow> input_error + talk_input list" where
  "back_channel_inputs [] = Inr []"
| "back_channel_inputs (m # ms) =
     (if \<not> isAudio m \<or> \<not> isBackChannel m then back_channel_inputs ms
      else case g711_inputs m (Formats m) of
        Inl e \<Rightarrow> Inl e
      | Inr ins \<Rightarrow> (case back_channel_inputs ms of Inl e \<Rightarrow> Inl e | Inr ins' \<Rightarrow> Inr (ins @ ins')))"

definition selectBackChannelInputs :: "sdp_media list \<Rightarrow> input_error + talk_input list" where
  "selectBackChannelInputs medias =
     (case back_channel_inputs medias of
        Inl e \<Rightarrow> Inl e
      | Inr ins \<Rightarrow> if length ins = 0 then Inl NoBackChannel else Inr ins)"

fun be_samples :: "bytes \<Rightarrow> i16 list" where
  "be_samples (hi # lo # rest) = (push_bit 8 (ucast hi) OR ucast lo) # be_samples rest"
| "be_samples _ = []"

text \<open>\<^verbatim>\<open>decode\<close> of a packet's payload; \<open>Inl\<close> is the odd size.\<close>

definition decode_input :: "talk_input \<Rightarrow> bytes \<Rightarrow> nat + i16 list" where
  "decode_input i payload =
     (case inFormat i of
        G711 muLaw chans rate \<Rightarrow> Inr (if muLaw then decode_pcmu payload else decode_pcma payload)
      | _ \<Rightarrow> if length payload mod 2 \<noteq> 0 then Inl (length payload) else Inr (be_samples payload))"

definition applyTalkVolume :: "int \<Rightarrow> i16 list \<Rightarrow> i16 list" where
  "applyTalkVolume percent pcm =
     (if percent = 100 then pcm
      else let p = (if percent < 0 then 0 else percent)
           in map (\<lambda>s. word_of_int (max (min (sint s * p sdiv 100) 32767) (- 32768))) pcm)"

definition isSilence :: "i16 list \<Rightarrow> bool" where
  "isSilence pcm = (\<forall>s \<in> set pcm. \<not> (sint s > 25 \<or> sint s < - 25))"

section \<open>The queue\<close>

definition rtspTalkPCMQueueSize :: nat where "rtspTalkPCMQueueSize = 8"

definition enqueueTalkPCM :: "bool \<Rightarrow> i16 list \<Rightarrow> i16 list list \<Rightarrow> i16 list list" where
  "enqueueTalkPCM ended pcm q =
     (if ended then q
      else if length q < rtspTalkPCMQueueSize then q @ [pcm]
      else tl q @ [pcm])"

lemma enqueue_newest:
  "fold (enqueueTalkPCM False) pcms [] = drop (length pcms - rtspTalkPCMQueueSize) pcms"
proof (induction pcms rule: rev_induct)
  case (snoc x xs)
  have q: "fold (enqueueTalkPCM False) xs [] = drop (length xs - rtspTalkPCMQueueSize) xs"
    using snoc by simp
  show ?case
  proof (cases "length xs < rtspTalkPCMQueueSize")
    case True
    then show ?thesis by (simp add: q enqueueTalkPCM_def [of False x xs])
  next
    case False
    then have "length (xs @ [x]) - rtspTalkPCMQueueSize = Suc (length xs - rtspTalkPCMQueueSize)" by simp
    then show ?thesis
      using False
      by (simp add: q enqueueTalkPCM_def [of False x "drop n xs" for n] tl_drop drop_Suc rtspTalkPCMQueueSize_def)
  qed
qed simp

section \<open>Resampling\<close>

record resampler =
  rsPos :: nat
  rsPrev :: i16
  primed :: bool

definition fresh_resampler :: resampler where
  "fresh_resampler = \<lparr>rsPos = 0, rsPrev = 0, primed = False\<rparr>"

text \<open>\<open>a + (b - a) * frac / rate\<close> in 64-bit arithmetic, cut to 16 bits.\<close>

definition interpolate :: "nat \<Rightarrow> i16 \<Rightarrow> i16 \<Rightarrow> nat \<Rightarrow> i16" where
  "interpolate rate a b frac = word_of_int (sint a + (sint b - sint a) * int frac sdiv int rate)"

text \<open>The loop of \<^verbatim>\<open>resample\<close>; the rates are not zero there.\<close>

function resample_loop :: "nat \<Rightarrow> nat \<Rightarrow> i16 \<Rightarrow> i16 list \<Rightarrow> nat \<Rightarrow> i16 list \<times> nat" where
  "resample_loop rin rout prev pcm pos =
     (if pos < length pcm * rout \<and> rin \<noteq> 0 then
        let base = pos div rout;
            a = (if base > 0 then pcm ! (base - 1) else prev);
            b = pcm ! base;
            (out, pos') = resample_loop rin rout prev pcm (pos + rin)
        in (interpolate rout a b (pos mod rout) # out, pos')
      else ([], pos))"
  by pat_completeness auto
termination by (relation "measure (\<lambda>(rin, rout, prev, pcm, pos). length pcm * rout - pos)") auto

declare resample_loop.simps [simp del]

text \<open>\<^verbatim>\<open>resample\<close>; an input rate of zero panics in the division that sizes the output.\<close>

definition resample :: "nat \<Rightarrow> nat \<Rightarrow> i16 list \<Rightarrow> resampler \<Rightarrow> (i16 list \<times> resampler) option" where
  "resample rin rout pcm r =
     (if \<not> primed r \<and> length pcm = 0 then Some ([], r)
      else let (pcm, r) = (if primed r then (pcm, r) else (tl pcm, r\<lparr>rsPrev := hd pcm, primed := True\<rparr>))
           in if rin = 0 then None
              else let (out, pos) = resample_loop rin rout (rsPrev r) pcm (rsPos r)
                   in Some (out, r\<lparr>rsPos := pos - length pcm * rout,
                                   rsPrev := (if length pcm > 0 then last pcm else rsPrev r)\<rparr>))"

text \<open>With rates that are not zero it is total.\<close>

definition resample_step :: "nat \<Rightarrow> nat \<Rightarrow> i16 list \<Rightarrow> resampler \<Rightarrow> i16 list \<times> resampler" where
  "resample_step rin rout pcm r = the (resample rin rout pcm r)"

text \<open>The reference: the sample at every \<open>rin / rout\<close> of the whole signal, linearly interpolated.\<close>

definition signal_at :: "nat \<Rightarrow> i16 list \<Rightarrow> nat \<Rightarrow> i16" where
  "signal_at rout s p = interpolate rout (s ! (p div rout)) (s ! (p div rout + 1)) (p mod rout)"

definition reference_resample :: "nat \<Rightarrow> nat \<Rightarrow> i16 list \<Rightarrow> i16 list" where
  "reference_resample rin rout s =
     map (\<lambda>k. signal_at rout s (k * rin)) [0..<((length s - 1) * rout + rin - 1) div rin]"

lemma resample_loop_closed:
  assumes "0 < rin"
  shows "resample_loop rin rout prev pcm pos =
    (let n = (length pcm * rout - pos + rin - 1) div rin
     in (map (\<lambda>k. signal_at rout (prev # pcm) (pos + k * rin)) [0..<n], pos + n * rin))"
proof (induction "length pcm * rout - pos" arbitrary: pos rule: less_induct)
  case less
  show ?case
  proof (cases "pos < length pcm * rout")
    case True
    define m where "m = (length pcm * rout - (pos + rin) + rin - 1) div rin"
    have n: "(length pcm * rout - pos + rin - 1) div rin = Suc m"
    proof (cases "length pcm * rout - pos \<le> rin")
      case small: True
      then have "m = 0" using assms by (simp add: m_def)
      moreover have "(length pcm * rout - pos + rin - 1) div rin = 1"
        using small True assms by (intro div_nat_eqI) auto
      ultimately show ?thesis by simp
    next
      case False
      then have eq: "length pcm * rout - pos + rin - 1 = (length pcm * rout - (pos + rin) + rin - 1) + rin"
        using True assms by simp
      show ?thesis unfolding eq m_def using assms by (metis div_add_self2 Suc_eq_plus1 not_gr_zero)
    qed
    have ih: "resample_loop rin rout prev pcm (pos + rin) =
        (map (\<lambda>k. signal_at rout (prev # pcm) (pos + rin + k * rin)) [0..<m], pos + rin + m * rin)"
      using less [of "pos + rin"] True assms by (simp add: m_def Let_def)
    have "resample_loop rin rout prev pcm pos =
        (signal_at rout (prev # pcm) pos # map (\<lambda>k. signal_at rout (prev # pcm) (pos + rin + k * rin)) [0..<m],
         pos + rin + m * rin)"
      using True assms ih
      by (subst resample_loop.simps) (simp add: signal_at_def Let_def nth_Cons')
    then show ?thesis by (simp only: n Let_def) (simp add: map_upt_Suc_shift add.assoc del: upt_Suc)
  next
    case False
    then show ?thesis using assms by (subst resample_loop.simps) (simp add: Let_def)
  qed
qed

lemma resample_loop_unfold:
  "resample_loop rin rout prev pcm pos =
     (if pos < length pcm * rout \<and> rin \<noteq> 0
      then apfst (Cons (signal_at rout (prev # pcm) pos)) (resample_loop rin rout prev pcm (pos + rin))
      else ([], pos))"
  by (subst resample_loop.simps) (simp add: Let_def signal_at_def nth_Cons' split: prod.split)

lemma signal_at_prefix:
  assumes "pos < length a * rout"
  shows "signal_at rout (prev # a @ b) pos = signal_at rout (prev # a) pos"
proof -
  have "pos div rout < length a" using assms by (simp add: less_mult_imp_div_less)
  then show ?thesis by (auto simp: signal_at_def nth_append nth_Cons')
qed

lemma signal_at_shift:
  assumes "0 < rout"
  shows "signal_at rout (prev # a @ b) (length a * rout + pos) = signal_at rout (last (prev # a) # b) pos"
proof -
  have "(prev # a @ b) ! (length a + i) = (last (prev # a) # b) ! i" for i
    by (cases i) (auto simp: nth_append nth_Cons' last_conv_nth)
  from this [of "pos div rout"] this [of "pos div rout + 1"] show ?thesis
    using assms by (simp add: signal_at_def add.assoc)
qed

text \<open>The loop over a signal in two parts: the second starts at its own beginning.\<close>

lemma resample_loop_shift:
  assumes "0 < rin"
  shows "resample_loop rin rout prev (a @ b) (length a * rout + pos) =
    apsnd ((+) (length a * rout)) (resample_loop rin rout (last (prev # a)) b pos)"
proof (induction "length b * rout - pos" arbitrary: pos rule: less_induct)
  case less
  show ?case
  proof (cases "pos < length b * rout")
    case True
    then have rout: "0 < rout" by (cases rout) auto
    have ih: "resample_loop rin rout prev (a @ b) (length a * rout + (pos + rin)) =
        apsnd ((+) (length a * rout)) (resample_loop rin rout (last (prev # a)) b (pos + rin))"
      using True assms by (intro less) simp
    show ?thesis
      using True assms ih signal_at_shift [OF rout, of prev a b pos]
      by (simp only: resample_loop_unfold [of rin rout prev "a @ b" "length a * rout + pos"]
        resample_loop_unfold [of rin rout "last (prev # a)" b pos])
        (simp add: distrib_right add.assoc apfst_def apsnd_def map_prod_def split: prod.split)
  next
    case False
    then have "\<not> length a * rout + pos < length (a @ b) * rout" by (simp add: distrib_right)
    with False show ?thesis
      by (simp only: resample_loop_unfold [of rin rout prev "a @ b" "length a * rout + pos"]
        resample_loop_unfold [of rin rout "last (prev # a)" b pos]) simp
  qed
qed

lemma resample_loop_bounds: "0 < rin \<Longrightarrow> length pcm * rout \<le> snd (resample_loop rin rout prev pcm pos)"
proof (induction "length pcm * rout - pos" arbitrary: pos rule: less_induct)
  case less
  then show ?case
    by (cases "pos < length pcm * rout") (simp_all add: resample_loop_unfold [of rin rout prev pcm pos])
qed

lemma resample_loop_append:
  assumes "0 < rin"
  shows "resample_loop rin rout prev (a @ b) pos =
    (case resample_loop rin rout prev a pos of (x, p) \<Rightarrow>
      case resample_loop rin rout (last (prev # a)) b (p - length a * rout) of
        (y, p') \<Rightarrow> (x @ y, length a * rout + p'))"
proof (induction "length a * rout - pos" arbitrary: pos rule: less_induct)
  case less
  show ?case
  proof (cases "pos < length a * rout")
    case True
    have "resample_loop rin rout prev (a @ b) (pos + rin) =
      (case resample_loop rin rout prev a (pos + rin) of (x, p) \<Rightarrow>
        case resample_loop rin rout (last (prev # a)) b (p - length a * rout) of
          (y, p') \<Rightarrow> (x @ y, length a * rout + p'))"
      using True assms by (intro less) simp
    moreover have "pos < length (a @ b) * rout" using True by (simp add: distrib_right)
    ultimately show ?thesis
      using True assms signal_at_prefix [OF True, of prev b]
      by (simp add: resample_loop_unfold [of rin rout prev "a @ b" pos] resample_loop_unfold [of rin rout prev a pos]
        split: prod.splits)
  next
    case False
    then obtain q where q: "pos = length a * rout + q" by (metis le_add_diff_inverse not_less)
    have "resample_loop rin rout prev a pos = ([], pos)"
      using False by (simp add: resample_loop_unfold [of rin rout prev a pos])
    then show ?thesis
      using resample_loop_shift [OF assms, of rout prev a b q]
      by (simp add: q apsnd_def map_prod_def split: prod.splits)
  qed
qed

lemma resample_step_eq:
  assumes "0 < rin"
  shows "resample_step rin rout pcm r =
     (if \<not> primed r \<and> pcm = [] then ([], r)
      else let (pcm, r) = (if primed r then (pcm, r) else (tl pcm, r\<lparr>rsPrev := hd pcm, primed := True\<rparr>));
               (out, pos) = resample_loop rin rout (rsPrev r) pcm (rsPos r)
           in (out, r\<lparr>rsPos := pos - length pcm * rout, rsPrev := last (rsPrev r # pcm)\<rparr>))"
  using assms by (auto simp: resample_step_def resample_def Let_def split: prod.splits)

lemma resample_step_nil: "0 < rin \<Longrightarrow> resample_step rin rout [] r = ([], r)"
  by (simp add: resample_step_eq resample_loop_unfold [of rin rout "rsPrev r" "[]"])

lemma resample_step_append:
  assumes "0 < rin"
  shows "resample_step rin rout (a @ b) r =
    (case resample_step rin rout a r of (x, s1) \<Rightarrow> case resample_step rin rout b s1 of (y, s2) \<Rightarrow> (x @ y, s2))"
proof -
  have one: "resample_step rin rout c r =
      (case resample_loop rin rout (rsPrev r) c (rsPos r) of
         (out, p) \<Rightarrow> (out, r\<lparr>rsPos := p - length c * rout, rsPrev := last (rsPrev r # c)\<rparr>))" if "primed r" for c r
    using that by (simp only: resample_step_eq [OF assms] Let_def) simp
  have go: "resample_step rin rout (a @ b) r =
    (case resample_step rin rout a r of (x, s1) \<Rightarrow> case resample_step rin rout b s1 of (y, s2) \<Rightarrow> (x @ y, s2))"
    if p: "primed r" for a b r
  proof -
    obtain x p1 where a: "resample_loop rin rout (rsPrev r) a (rsPos r) = (x, p1)" by fastforce
    define r1 where "r1 = r\<lparr>rsPos := p1 - length a * rout, rsPrev := last (rsPrev r # a)\<rparr>"
    obtain y p2 where b: "resample_loop rin rout (last (rsPrev r # a)) b (p1 - length a * rout) = (y, p2)" by fastforce
    have "resample_step rin rout a r = (x, r1)" by (simp only: one [OF p] a r1_def prod.case)
    moreover have "resample_step rin rout b r1 =
        (y, r1\<lparr>rsPos := p2 - length b * rout, rsPrev := last (rsPrev r1 # b)\<rparr>)"
      using b p by (subst one) (simp_all add: r1_def del: last.simps)
    moreover have "resample_step rin rout (a @ b) r =
        (x @ y, r\<lparr>rsPos := length a * rout + p2 - length (a @ b) * rout, rsPrev := last (rsPrev r # a @ b)\<rparr>)"
      by (simp only: one [OF p] resample_loop_append [OF assms] a b prod.case)
    moreover have "last (rsPrev r # a @ b) = last (last (rsPrev r # a) # b)" by simp
    ultimately show ?thesis by (simp add: r1_def distrib_right)
  qed
  show ?thesis
  proof (cases "primed r \<or> a = []")
    case True
    then show ?thesis
    proof
      assume "a = []"
      then show ?thesis by (simp add: resample_step_nil [OF assms])
    qed (rule go)
  next
    case False
    then obtain s a' where a: "a = s # a'" "\<not> primed r" by (cases a) auto
    let ?r = "r\<lparr>rsPrev := s, primed := True\<rparr>"
    have "resample_step rin rout (s # c) r = resample_step rin rout c ?r" for c
      using a(2) by (simp add: resample_step_eq [OF assms])
    then show ?thesis using go [of ?r a' b] a(1) by simp
  qed
qed

section \<open>The bridge between the queue and the session\<close>

text \<open>Cutting samples into blocks: the complete ones and what is left.\<close>

fun frames :: "nat \<Rightarrow> i16 list \<Rightarrow> i16 list list \<times> i16 list" where
  "frames n pcm =
     (if n = 0 \<or> length pcm < n then ([], pcm)
      else apfst (Cons (take n pcm)) (frames n (drop n pcm)))"

declare frames.simps [simp del]

definition frame_step :: "nat \<Rightarrow> i16 list \<Rightarrow> i16 list \<Rightarrow> i16 list list \<times> i16 list" where
  "frame_step n pcm buf = frames n (buf @ pcm)"

lemma frames_rest: "0 < n \<Longrightarrow> length (snd (frames n pcm)) < n"
  by (induction n pcm rule: frames.induct) (subst frames.simps, auto)

lemma frames_append:
  assumes "0 < n"
  shows "frames n (a @ b) = (case frames n a of (x, r) \<Rightarrow> apfst ((@) x) (frames n (r @ b)))"
  using assms
proof (induction n a rule: frames.induct)
  case (1 n a)
  show ?case
  proof (cases "length a < n")
    case True
    then show ?thesis by (simp add: frames.simps [of n a] apfst_def map_prod_def split: prod.split)
  next
    case False
    then have "frames n (drop n a @ b) = (case frames n (drop n a) of (x, r) \<Rightarrow> apfst ((@) x) (frames n (r @ b)))"
      using 1 by simp
    then show ?thesis
      using False 1(2)
      by (simp add: frames.simps [of n a] frames.simps [of n "a @ b"] apfst_def map_prod_def split: prod.splits)
  qed
qed

lemma frame_step_append:
  "0 < n \<Longrightarrow> frame_step n (a @ b) buf =
    (case frame_step n a buf of (x, s1) \<Rightarrow> case frame_step n b s1 of (y, s2) \<Rightarrow> (x @ y, s2))"
  using frames_append [of n "buf @ a" b] by (simp add: frame_step_def apfst_def map_prod_def split: prod.splits)

text \<open>Encoding the blocks one by one, the encoder carried along.\<close>

fun encode_frames :: "i16 list list \<Rightarrow> adpcm \<Rightarrow> bytes list \<times> adpcm" where
  "encode_frames [] e = ([], e)"
| "encode_frames (b # bs) e =
     (case encode_block e b of
        (e', Inl err) \<Rightarrow> ([], e')
      | (e', Inr block) \<Rightarrow> apfst (Cons block) (encode_frames bs e'))"

datatype bridge_error = EncodeError adpcm_error | WriteError write_block_error

text \<open>
  \<^verbatim>\<open>writeBlocks\<close>: the error if any, the encoder, the samples left and the state of the session.
  With blocks of no samples the loop only ends when a write fails; \<open>None\<close> is a loop without end.
\<close>

partial_function (option) writeBlocks ::
  "(bytes \<Rightarrow> 's \<Rightarrow> write_block_error option \<times> 's) \<Rightarrow> nat \<Rightarrow> adpcm \<Rightarrow> i16 list \<Rightarrow> 's \<Rightarrow>
   (bridge_error option \<times> adpcm \<times> i16 list \<times> 's) option" where
  "writeBlocks write n enc buf sink =
     (if length buf < n then Some (None, enc, buf, sink)
      else case encode_block enc (take n buf) of
        (enc', Inl e) \<Rightarrow> Some (Some (EncodeError e), enc', buf, sink)
      | (enc', Inr block) \<Rightarrow>
          (case write block sink of
             (Some e, sink') \<Rightarrow> Some (Some (WriteError e), enc', buf, sink')
           | (None, sink') \<Rightarrow> writeBlocks write n enc' (drop n buf) sink'))"

record 's bridge =
  brEncoder :: adpcm
  pcmBuffer :: "i16 list"
  brResampler :: resampler
  brSink :: 's

text \<open>\<^verbatim>\<open>processPCM\<close>; the input and target rate, the samples of a block.\<close>

definition processPCM ::
  "(bytes \<Rightarrow> 's \<Rightarrow> write_block_error option \<times> 's) \<Rightarrow> nat \<Rightarrow> nat \<Rightarrow> nat \<Rightarrow> i16 list \<Rightarrow> 's bridge \<Rightarrow>
   (bridge_error option \<times> 's bridge) option" where
  "processPCM write rin rout n pcm b =
     do { (pcm', rs) \<leftarrow> (if rin \<noteq> rout then resample rin rout pcm (brResampler b) else Some (pcm, brResampler b));
          (err, enc, buf, sink) \<leftarrow> writeBlocks write n (brEncoder b) (pcmBuffer b @ pcm') (brSink b);
          Some (err, \<lparr>brEncoder = enc, pcmBuffer = buf, brResampler = rs, brSink = sink\<rparr>) }"

fun process_queue ::
  "(bytes \<Rightarrow> 's \<Rightarrow> write_block_error option \<times> 's) \<Rightarrow> nat \<Rightarrow> nat \<Rightarrow> nat \<Rightarrow> i16 list list \<Rightarrow> 's bridge \<Rightarrow>
   (bridge_error option \<times> 's bridge) option" where
  "process_queue write rin rout n [] b = Some (None, b)"
| "process_queue write rin rout n (pcm # q) b =
     do { (err, b') \<leftarrow> processPCM write rin rout n pcm b;
          (case err of Some e \<Rightarrow> Some (Some e, b') | None \<Rightarrow> process_queue write rin rout n q b') }"

text \<open>\<^verbatim>\<open>flush\<close>: the queue, then the last block filled up with silence.\<close>

definition flush ::
  "(bytes \<Rightarrow> 's \<Rightarrow> write_block_error option \<times> 's) \<Rightarrow> nat \<Rightarrow> nat \<Rightarrow> nat \<Rightarrow> i16 list list \<Rightarrow> 's bridge \<Rightarrow> 's bridge option" where
  "flush write rin rout n q b =
     do { (err, b') \<leftarrow> process_queue write rin rout n q b;
          (case err of
             Some e \<Rightarrow> Some b'
           | None \<Rightarrow>
               if length (pcmBuffer b') = 0 then Some b'
               else do { (err, enc, buf, sink) \<leftarrow> writeBlocks write n (brEncoder b')
                           (pcmBuffer b' @ replicate (n - length (pcmBuffer b')) 0) (brSink b');
                         Some (b'\<lparr>brEncoder := enc, pcmBuffer := buf, brSink := sink\<rparr>) }) }"

text \<open>What wakes the bridge; the queue is what lies in it when it ends.\<close>

datatype talk_event = PcmArrived "i16 list" | IdleTimeout "i16 list list" | ClientGone "i16 list list"

text \<open>The first component of the result: \<open>None\<close> while it runs, then its error if any.\<close>

fun bridge_loop ::
  "(bytes \<Rightarrow> 's \<Rightarrow> write_block_error option \<times> 's) \<Rightarrow> nat \<Rightarrow> nat \<Rightarrow> nat \<Rightarrow> talk_event list \<Rightarrow> 's bridge \<Rightarrow>
   (bridge_error option option \<times> 's bridge) option" where
  "bridge_loop write rin rout n [] b = Some (None, b)"
| "bridge_loop write rin rout n (PcmArrived pcm # es) b =
     do { (err, b') \<leftarrow> processPCM write rin rout n pcm b;
          (case err of Some e \<Rightarrow> Some (Some (Some e), b') | None \<Rightarrow> bridge_loop write rin rout n es b') }"
| "bridge_loop write rin rout n (IdleTimeout q # es) b = map_option (Pair (Some None)) (flush write rin rout n q b)"
| "bridge_loop write rin rout n (ClientGone q # es) b = map_option (Pair (Some None)) (flush write rin rout n q b)"

text \<open>
  \<^verbatim>\<open>runBridgeInternal\<close>: of what queued up while the session opened only the newest packet is kept.
\<close>

definition runBridgeInternal ::
  "(bytes \<Rightarrow> 's \<Rightarrow> write_block_error option \<times> 's) \<Rightarrow> nat \<Rightarrow> nat \<Rightarrow> nat \<Rightarrow> i16 list \<Rightarrow> i16 list list \<Rightarrow>
   talk_event list \<Rightarrow> 's \<Rightarrow> (bridge_error option option \<times> 's bridge) option" where
  "runBridgeInternal write rin rout n firstPcm queued es sink =
     bridge_loop write rin rout n (PcmArrived (last (firstPcm # queued)) # es)
       \<lparr>brEncoder = \<lparr>predicted = 0, index = 0\<rparr>, pcmBuffer = [], brResampler = fresh_resampler, brSink = sink\<rparr>"

text \<open>\<^verbatim>\<open>run\<close>: whether a packet opens a session; \<open>retryAt\<close> is set after a failed start.\<close>

definition talkRetryPause :: int where "talkRetryPause = 3 * 10 ^ 9"

definition opens_session :: "int \<Rightarrow> int \<Rightarrow> i16 list \<Rightarrow> bool" where
  "opens_session now retryAt firstPcm = (\<not> (length firstPcm = 0 \<or> isSilence firstPcm \<or> now < retryAt))"

section \<open>Packet boundaries do not matter\<close>

text \<open>What \<^verbatim>\<open>processPCM\<close> does to the samples before they are cut into blocks.\<close>

definition rate_step :: "nat \<Rightarrow> nat \<Rightarrow> i16 list \<Rightarrow> resampler \<Rightarrow> i16 list \<times> resampler" where
  "rate_step rin rout pcm r = (if rin \<noteq> rout then resample_step rin rout pcm r else (pcm, r))"

interpretation rate: chunked_transducer "rate_step (Suc rin) rout" "\<lambda>r. True" for rin rout
  by unfold_locales (simp_all add: rate_step_def resample_step_nil resample_step_append)

lemma frame_step_nil: "length buf < n \<Longrightarrow> frame_step n [] buf = ([], buf)"
  by (simp add: frame_step_def frames.simps [of n buf])

lemma frame_step_ok: "0 < n \<Longrightarrow> length (snd (frame_step n pcm buf)) < n"
  by (simp add: frame_step_def frames_rest)

interpretation framing: chunked_transducer "frame_step (Suc n)" "\<lambda>buf. length buf < Suc n" for n
proof
  fix s :: "i16 list" and a b
  show "length s < Suc n \<Longrightarrow> frame_step (Suc n) [] s = ([], s)" by (rule frame_step_nil)
  show "length (snd (frame_step (Suc n) a s)) < Suc n" by (rule frame_step_ok) simp
  show "frame_step (Suc n) (a @ b) s =
      (case frame_step (Suc n) a s of (x, s1) \<Rightarrow> case frame_step (Suc n) b s1 of (y, s2) \<Rightarrow> (x @ y, s2))"
    by (rule frame_step_append) simp
qed

interpretation blocks: transducer_pair "rate_step (Suc rin) rout" "\<lambda>r. True"
  "frame_step (Suc n)" "\<lambda>buf. length buf < Suc n" for rin rout n ..

text \<open>A session that takes every block.\<close>

definition log_write :: "bytes \<Rightarrow> bytes list \<Rightarrow> write_block_error option \<times> bytes list" where
  "log_write block sink = (None, sink @ [block])"

lemma frames_lengths: "0 < n \<Longrightarrow> b \<in> set (fst (frames n pcm)) \<Longrightarrow> length b = n"
proof (induction n pcm rule: frames.induct)
  case (1 n pcm)
  then show ?case by (cases "length pcm < n") (auto simp: frames.simps [of n pcm])
qed

definition encodable :: "i16 list \<Rightarrow> bool" where
  "encodable b = (b \<noteq> [] \<and> even (length b))"

lemma encode_block_ok: "encodable b \<Longrightarrow> \<exists>e' block. encode_block e b = (e', Inr block)"
proof -
  assume "encodable b"
  moreover obtain e' out where "encode_samples e b = (e', out)" by fastforce
  ultimately show ?thesis using encode_block_layout by (auto simp: encodable_def)
qed

lemma encode_frames_append:
  "\<forall>b \<in> set bs. encodable b \<Longrightarrow>
   encode_frames (bs @ cs) e = (case encode_frames bs e of (x, e1) \<Rightarrow> apfst ((@) x) (encode_frames cs e1))"
proof (induction bs arbitrary: e)
  case (Cons b bs)
  obtain e' block where "encode_block e b = (e', Inr block)" using encode_block_ok [of b e] Cons.prems by auto
  with Cons show ?case by (simp add: apfst_def map_prod_def split: prod.splits)
qed (simp add: apfst_def map_prod_def split: prod.split)

lemma writeBlocks_log:
  assumes "0 < n" "even n"
  shows "writeBlocks log_write n enc buf sink =
    (case encode_frames (fst (frames n buf)) enc of
       (out, enc') \<Rightarrow> Some (None, enc', snd (frames n buf), sink @ out))"
  using assms
proof (induction n buf arbitrary: enc sink rule: frames.induct)
  case (1 n buf)
  show ?case
  proof (cases "length buf < n")
    case True
    then show ?thesis by (simp add: writeBlocks.simps [of _ n enc buf] frames.simps [of n buf])
  next
    case False
    have "encodable (take n buf)" using False 1(2,3) by (auto simp: encodable_def)
    then obtain enc' block where e: "encode_block enc (take n buf) = (enc', Inr block)"
      using encode_block_ok by blast
    have "writeBlocks log_write n enc buf sink = writeBlocks log_write n enc' (drop n buf) (sink @ [block])"
      using False e by (simp add: writeBlocks.simps [of _ n enc buf] log_write_def)
    also have "\<dots> = (case encode_frames (fst (frames n (drop n buf))) enc' of
        (out, enc'') \<Rightarrow> Some (None, enc'', snd (frames n (drop n buf)), (sink @ [block]) @ out))"
      using 1 False by simp
    finally show ?thesis
      using False e 1(2) by (simp add: frames.simps [of n buf] split: prod.split)
  qed
qed

text \<open>Processing samples on that session: the two transducers, then the encoder.\<close>

definition feed :: "nat \<Rightarrow> nat \<Rightarrow> nat \<Rightarrow> i16 list \<Rightarrow> bytes list bridge \<Rightarrow> bytes list bridge" where
  "feed rin rout n pcm b =
     (case blocks.both rin rout n pcm (brResampler b, pcmBuffer b) of
        (fs, rs, buf) \<Rightarrow> case encode_frames fs (brEncoder b) of
          (out, enc) \<Rightarrow> \<lparr>brEncoder = enc, pcmBuffer = buf, brResampler = rs, brSink = brSink b @ out\<rparr>)"

definition small_buffer :: "nat \<Rightarrow> 's bridge \<Rightarrow> bool" where
  "small_buffer n b = (length (pcmBuffer b) < Suc n)"

lemma both_frames_ok:
  assumes "even (Suc n)" "b \<in> set (fst (blocks.both rin rout n pcm st))"
  shows "encodable b"
proof -
  have "fst (blocks.both rin rout n pcm st) =
      fst (frames (Suc n) (snd st @ fst (rate_step (Suc rin) rout pcm (fst st))))"
    by (simp add: blocks.both_def frame_step_def split: prod.split)
  then have "length b = Suc n" using assms(2) frames_lengths [of "Suc n" b] by auto
  then show ?thesis using assms(1) by (auto simp: encodable_def)
qed

lemma feed_append:
  assumes "small_buffer n b" "even (Suc n)"
  shows "feed rin rout n (xs @ ys) b = feed rin rout n ys (feed rin rout n xs b)"
proof -
  let ?st = "(brResampler b, pcmBuffer b)"
  have ok: "blocks.ok_both n ?st" using assms(1) by (simp add: blocks.ok_both_def small_buffer_def)
  obtain fs rs buf where x: "blocks.both rin rout n xs ?st = (fs, rs, buf)" by (metis prod_cases3)
  obtain gs rs' buf' where y: "blocks.both rin rout n ys (rs, buf) = (gs, rs', buf')" by (metis prod_cases3)
  have "blocks.both rin rout n (xs @ ys) ?st = (fs @ gs, rs', buf')"
    using blocks.step_append [OF ok, of rin rout xs ys] x y by simp
  moreover have "\<forall>f \<in> set fs. encodable f"
    using both_frames_ok [OF assms(2), of _ rin rout xs ?st] x by simp
  ultimately show ?thesis
    using x y by (simp add: feed_def encode_frames_append apfst_def map_prod_def split: prod.split)
qed

lemma feed_small:
  assumes "small_buffer n b"
  shows "small_buffer n (feed rin rout n xs b)"
proof -
  have "blocks.ok_both n (brResampler b, pcmBuffer b)" using assms by (simp add: blocks.ok_both_def small_buffer_def)
  from blocks.step_ok [OF this, of rin rout xs] show ?thesis
    by (auto simp: feed_def small_buffer_def blocks.ok_both_def split: prod.splits)
qed

lemma feed_nil:
  assumes "small_buffer n b"
  shows "feed rin rout n [] b = b"
proof -
  have "blocks.ok_both n (brResampler b, pcmBuffer b)" using assms by (simp add: blocks.ok_both_def small_buffer_def)
  from blocks.step_nil [OF this, of rin rout] show ?thesis by (simp add: feed_def)
qed

lemma processPCM_feed:
  assumes "even (Suc n)"
  shows "processPCM log_write (Suc rin) rout (Suc n) pcm b = Some (None, feed rin rout n pcm b)"
proof -
  have "(if Suc rin \<noteq> rout then resample (Suc rin) rout pcm (brResampler b) else Some (pcm, brResampler b)) =
      Some (rate_step (Suc rin) rout pcm (brResampler b))"
    by (simp add: rate_step_def resample_step_def resample_def Let_def split: prod.split)
  moreover obtain pcm' rs where "rate_step (Suc rin) rout pcm (brResampler b) = (pcm', rs)" by fastforce
  moreover obtain fs buf where "frames (Suc n) (pcmBuffer b @ pcm') = (fs, buf)" by fastforce
  ultimately show ?thesis
    using assms
    by (simp add: processPCM_def writeBlocks_log feed_def blocks.both_def frame_step_def split: prod.split)
qed

lemma process_queue_feed:
  "even (Suc n) \<Longrightarrow> small_buffer n b \<Longrightarrow>
   process_queue log_write (Suc rin) rout (Suc n) q b = Some (None, feed rin rout n (concat q) b)"
  by (induction q arbitrary: b) (simp_all add: feed_nil processPCM_feed feed_small feed_append)

lemma bridge_loop_feed:
  "even (Suc n) \<Longrightarrow> small_buffer n b \<Longrightarrow>
   bridge_loop log_write (Suc rin) rout (Suc n) (map PcmArrived pcms @ es) b =
     bridge_loop log_write (Suc rin) rout (Suc n) es (feed rin rout n (concat pcms) b)"
  by (induction pcms arbitrary: b) (simp_all add: feed_nil processPCM_feed feed_small feed_append)

text \<open>The reference of a whole phrase: resampled in one piece, filled up, cut and encoded.\<close>

definition convert_rate :: "nat \<Rightarrow> nat \<Rightarrow> i16 list \<Rightarrow> i16 list" where
  "convert_rate rin rout s = (if rin = rout then s else reference_resample rin rout s)"

definition fill_up :: "nat \<Rightarrow> i16 list \<Rightarrow> i16 list" where
  "fill_up n s = s @ replicate ((n - length s mod n) mod n) 0"

lemma resample_step_reference:
  "0 < rin \<Longrightarrow> fst (resample_step rin rout s fresh_resampler) = reference_resample rin rout s"
  by (cases s) (simp_all add: resample_step_eq fresh_resampler_def resample_loop_closed reference_resample_def Let_def)

lemma frames_modulus: "0 < n \<Longrightarrow> length (snd (frames n s)) = length s mod n"
proof (induction n s rule: frames.induct)
  case (1 n s)
  then show ?case by (cases "length s < n") (simp_all add: frames.simps [of n s] le_mod_geq)
qed

lemma frames_fill_up:
  assumes "0 < n" "frames n s = (fs, buf)"
  shows "fst (frames n (fill_up n s)) = (if buf = [] then fs else fs @ [buf @ replicate (n - length buf) 0])"
proof -
  have len: "length buf = length s mod n" using frames_modulus [OF assms(1), of s] assms(2) by simp
  show ?thesis
  proof (cases "buf = []")
    case True
    then show ?thesis using assms len by (simp add: fill_up_def)
  next
    case False
    let ?z = "replicate (n - length buf) (0 :: i16)"
    have "(n - length s mod n) mod n = n - length buf"
      using False len by (metis diff_less length_greater_0_conv assms(1) mod_less)
    then have "fill_up n s = s @ ?z" by (simp add: fill_up_def)
    moreover have "length buf < n" using frames_rest [OF assms(1), of s] assms(2) by simp
    then have "frames n (buf @ ?z) = ([buf @ ?z], [])"
      using assms(1) by (simp add: frames.simps [of n "buf @ ?z"] frames.simps [of n "[]"])
    ultimately show ?thesis
      using frames_append [OF assms(1), of s ?z] assms(2) False by simp
  qed
qed

text \<open>What the bridge has when its last event comes, and what the flush then writes.\<close>

lemma bridge_runs_to_flush:
  assumes "even (Suc m)" "small_buffer m b0" "ending = IdleTimeout q \<or> ending = ClientGone q"
    and b0: "b0 = \<lparr>brEncoder = \<lparr>predicted = 0, index = 0\<rparr>, pcmBuffer = [], brResampler = fresh_resampler, brSink = []\<rparr>"
  shows "runBridgeInternal log_write (Suc r) rout (Suc m) firstPcm queued (map PcmArrived pcms @ [ending]) [] =
    map_option (Pair (Some None)) (flush log_write (Suc r) rout (Suc m) q (feed r rout m (last (firstPcm # queued) @ concat pcms) b0))"
proof -
  let ?p = "last (firstPcm # queued)"
  have "runBridgeInternal log_write (Suc r) rout (Suc m) firstPcm queued (map PcmArrived pcms @ [ending]) [] =
      bridge_loop log_write (Suc r) rout (Suc m) (map PcmArrived (?p # pcms) @ [ending]) b0"
    by (simp add: runBridgeInternal_def b0)
  also have "\<dots> = bridge_loop log_write (Suc r) rout (Suc m) [ending] (feed r rout m (?p @ concat pcms) b0)"
    using bridge_loop_feed [OF assms(1,2), of r rout "?p # pcms" "[ending]"] by simp
  also have "\<dots> = map_option (Pair (Some None)) (flush log_write (Suc r) rout (Suc m) q (feed r rout m (?p @ concat pcms) b0))"
    using assms(3) by auto
  finally show ?thesis .
qed

lemma flush_writes_rest:
  assumes "0 < n" "even n" "frames n sig = (fs, buf)" "encode_frames fs e0 = (out, enc)"
    and queue: "process_queue log_write rin rout n q b = Some (None, \<lparr>brEncoder = enc, pcmBuffer = buf, brResampler = rs, brSink = out\<rparr>)"
  shows "\<exists>b'. flush log_write rin rout n q b = Some b' \<and> brSink b' = fst (encode_frames (fst (frames n (fill_up n sig))) e0)"
proof (cases "buf = []")
  case True
  then show ?thesis using frames_fill_up [OF assms(1,3)] assms(4) queue by (simp add: flush_def)
next
  case False
  let ?z = "buf @ replicate (n - length buf) 0"
  have "length buf < n" using frames_rest [OF assms(1), of sig] assms(3) by simp
  then have one: "fst (frames n ?z) = [?z]"
    using assms(1) by (simp add: frames.simps [of n ?z] frames.simps [of n "[]"])
  have "\<forall>f \<in> set fs. encodable f"
    using frames_lengths [OF assms(1), of _ sig] assms(1-3) by (fastforce simp: encodable_def)
  then show ?thesis
    using False assms(4) queue frames_fill_up [OF assms(1,3)] one writeBlocks_log [OF assms(1,2)]
    by (simp add: flush_def encode_frames_append apfst_def map_prod_def split: prod.split)
qed

text \<open>C3: Talkback loses and repeats nothing: however the client's audio is cut into packets and wherever it
  lies when the client falls silent or hangs up (handed over or still in the queue), what has been
  written to the camera when the bridge ends is the whole phrase resampled in one piece, filled up
  with silence to full blocks and encoded with one encoder; of the packets that piled up while the
  session opened only the newest counts.\<close>

theorem talk_bridge_whole_phrase:
  assumes "0 < rin" "0 < n" "even n" "ending = IdleTimeout q \<or> ending = ClientGone q"
  shows "\<exists>b. runBridgeInternal log_write rin rout n firstPcm queued (map PcmArrived pcms @ [ending]) [] = Some (Some None, b)
    \<and> brSink b = fst (encode_frames (fst (frames n (fill_up n
         (convert_rate rin rout (last (firstPcm # queued) @ concat pcms @ concat q))))) \<lparr>predicted = 0, index = 0\<rparr>)"
proof -
  obtain r m where r: "rin = Suc r" "n = Suc m" using assms(1,2) by (cases rin; cases n) auto
  have even: "even (Suc m)" using assms(3) r by simp
  define b0 :: "bytes list bridge" where
    "b0 = \<lparr>brEncoder = \<lparr>predicted = 0, index = 0\<rparr>, pcmBuffer = [], brResampler = fresh_resampler, brSink = []\<rparr>"
  have small: "small_buffer m b0" by (simp add: small_buffer_def b0_def)
  define p where "p = last (firstPcm # queued) @ concat pcms"
  obtain sig rs where sig: "rate_step rin rout (p @ concat q) fresh_resampler = (sig, rs)" by fastforce
  then have conv: "sig = convert_rate rin rout (p @ concat q)"
    using resample_step_reference [OF assms(1), of rout "p @ concat q"]
    by (auto simp: rate_step_def convert_rate_def split: if_splits)
  obtain fs buf where fr: "frames n sig = (fs, buf)" by fastforce
  obtain out enc where enc: "encode_frames fs \<lparr>predicted = 0, index = 0\<rparr> = (out, enc)" by fastforce
  have "process_queue log_write rin rout n q (feed r rout m p b0) = Some (None, feed r rout m (p @ concat q) b0)"
    using process_queue_feed [OF even feed_small [OF small], of r rout q r rout p]
      feed_append [OF small even, of r rout p "concat q"] by (simp add: r)
  also have "feed r rout m (p @ concat q) b0 = \<lparr>brEncoder = enc, pcmBuffer = buf, brResampler = rs, brSink = out\<rparr>"
    using sig fr enc r by (simp add: b0_def feed_def blocks.both_def frame_step_def)
  finally obtain b' where "flush log_write rin rout n q (feed r rout m p b0) = Some b'"
      "brSink b' = fst (encode_frames (fst (frames n (fill_up n sig))) \<lparr>predicted = 0, index = 0\<rparr>)"
    using flush_writes_rest [OF assms(2,3) fr enc] by blast
  then show ?thesis
    using bridge_runs_to_flush [OF even small assms(4) b0_def, of r rout firstPcm queued pcms]
    by (simp add: r p_def conv)
qed

text \<open>The witness: four samples at the camera's rate in two packets, blocks of two samples, the second
  packet still queued when the client hangs up.\<close>

theorem talk_bridge_whole_phrase_witness:
  "\<exists>b. runBridgeInternal log_write 8000 8000 2 [10, 20] [] [ClientGone [[30]]] [] = Some (Some None, b)
    \<and> brSink b = fst (encode_frames [[10, 20], [30, 0]] \<lparr>predicted = 0, index = 0\<rparr>)"
proof -
  have "fill_up 2 (convert_rate 8000 8000 (last [[10, 20]] @ concat [] @ concat [[30]])) = [10, 20, 30, 0]"
    by (simp add: fill_up_def convert_rate_def)
  moreover have "fst (frames 2 [10, 20, 30, 0 :: i16]) = [[10, 20], [30, 0]]"
    by (simp add: frames.simps [of 2 "[10, 20, 30, 0]"] frames.simps [of 2 "[30, 0]"] frames.simps [of 2 "[]"])
  ultimately show ?thesis
    using talk_bridge_whole_phrase [of 8000 2 "ClientGone [[30]]" "[[30]]" 8000 "[10, 20]" "[]" "[]"] by simp
qed

definition resample_packets :: "nat \<Rightarrow> nat \<Rightarrow> i16 list list \<Rightarrow> i16 list" where
  "resample_packets rin rout packets =
     fst (foldl (\<lambda>(out, r) pcm. case resample_step rin rout pcm r of (o1, r') \<Rightarrow> (out @ o1, r'))
       ([], fresh_resampler) packets)"

text \<open>The resampler is linear interpolation, whatever the packets: over any cutting of a signal into
  packets its outputs together are the values of the piecewise linear signal at every multiple of
  \<open>rin / rout\<close> up to its last sample, and with equal rates they are the samples themselves but the
  last.\<close>

theorem resample_interpolates:
  assumes "0 < rin"
  shows "resample_packets rin rout packets = reference_resample rin rout (concat packets)
    \<and> (rin = rout \<longrightarrow> resample_packets rin rout packets = butlast (concat packets))"
proof -
  have fold: "foldl (\<lambda>(out, r) pcm. case resample_step rin rout pcm r of (o1, r') \<Rightarrow> (out @ o1, r')) (out, r) packets =
      (out @ fst (resample_step rin rout (concat packets) r), snd (resample_step rin rout (concat packets) r))" for out r
    by (induction packets arbitrary: out r)
      (simp_all add: resample_step_nil [OF assms] resample_step_append [OF assms] split: prod.split)
  have ref: "resample_packets rin rout packets = reference_resample rin rout (concat packets)"
    unfolding resample_packets_def fold using resample_step_reference [OF assms] by simp
  have "reference_resample rin rin s = butlast s" for s
  proof -
    have "((length s - 1) * rin + rin - 1) div rin = length s - 1"
      using assms(1) by (intro div_nat_eqI) (auto simp: algebra_simps)
    moreover have "signal_at rin s (k * rin) = s ! k" for k
      using assms(1) by (simp add: signal_at_def interpolate_def signed_divide_int_def)
    ultimately show ?thesis
      by (intro nth_equalityI) (simp_all add: reference_resample_def nth_butlast)
  qed
  with ref show ?thesis by auto
qed

theorem resample_interpolates_witness:
  "resample_packets 1 2 [[100], [200, 300]] = [100, 150, 200, 250]"
proof -
  have "reference_resample 1 2 [100, 200, 300] = [100, 150, 200, 250]" by code_simp
  then show ?thesis using resample_interpolates [of 1 2 "[[100], [200, 300]]"] by simp
qed

end
