(* ===== verification/Events.thy ===== *)
theory Events
  imports Alarm Registry
begin

text \<open>
  A bridged camera as its user sees it: the configuration (\<^verbatim>\<open>pkg/bridge/config.go\<close>), pausing on
  motion (\<^verbatim>\<open>pause.go\<close>), the callbacks and their deduplication (\<^verbatim>\<open>events.go\<close>) and the webhook a
  battery camera pushes to (\<^verbatim>\<open>webhook.go\<close>). Callbacks are a trace, newest first; the clock is an
  input.
\<close>

section \<open>Configuration\<close>

record audio_hint =
  hintCodec :: string
  hintSampleRate :: int
  hintChannels :: int

definition no_hint :: audio_hint where
  "no_hint = \<lparr>hintCodec = [], hintSampleRate = 0, hintChannels = 0\<rparr>"

definition hint_known :: "audio_hint \<Rightarrow> bool" where
  "hint_known h = (hintCodec h \<noteq> [] \<and> hintSampleRate h > 0 \<and> hintChannels h > 0)"

text \<open>The logger of the camera is left out.\<close>

record camera_config =
  camName :: string
  camHost :: string
  camPort :: int
  camUID :: string
  camUsername :: string
  camPassword :: string
  camTimeout :: int
  camStreams :: "string list"
  camChannel :: int
  camRTSPPath :: string
  TalkProfile :: string
  TalkVolume :: int
  PauseOnMotion :: bool
  PauseOnClient :: bool
  PauseTimeout :: int
  LiveCatchUp :: "int option"
  IdleDisconnect :: bool
  IdleTimeout :: int
  BatteryCamera :: bool
  MainsPowered :: bool
  AudioHints :: "string \<rightharpoonup> audio_hint"

definition normalizeProfileName :: "string \<Rightarrow> string" where
  "normalizeProfileName raw = to_lower (trim_space raw)"

definition sec :: int where "sec = 10 ^ 9"
definition defaultLiveCatchUp :: int where "defaultLiveCatchUp = 3 * sec"

definition ApplyDefaults :: "camera_config \<Rightarrow> camera_config" where
  "ApplyDefaults c =
     c\<lparr>camPort := (if camPort c = 0 then 9000 else camPort c),
       camStreams := filter (\<lambda>n. n \<noteq> [])
         (map normalizeProfileName (if length (camStreams c) = 0 then [''main''] else camStreams c)),
       camRTSPPath := (if camRTSPPath c = [] then camName c @ ''/stream'' else camRTSPPath c),
       camTimeout := (if camTimeout c = 0 then 10 * sec else camTimeout c),
       TalkProfile := normalizeProfileName (TalkProfile c),
       TalkVolume := (if TalkVolume c = 0 then 100 else TalkVolume c),
       LiveCatchUp := (case LiveCatchUp c of None \<Rightarrow> Some defaultLiveCatchUp | Some d \<Rightarrow> Some d),
       PauseTimeout := (if PauseTimeout c = 0 then sec else PauseTimeout c),
       IdleTimeout := (if IdleTimeout c = 0 then 30 * sec else IdleTimeout c)\<rparr>"

definition hasStream :: "string \<Rightarrow> camera_config \<Rightarrow> bool" where
  "hasStream name c = (normalizeProfileName name \<in> set (camStreams c))"

datatype config_error = NameRequired | HostOrUidRequired | TalkProfileUnknown string

definition Validate :: "camera_config \<Rightarrow> config_error option" where
  "Validate c =
     (if camName c = [] then Some NameRequired
      else if camHost c = [] \<and> camUID c = [] then Some HostOrUidRequired
      else if TalkProfile c \<noteq> [] \<and> \<not> hasStream (TalkProfile c) c then Some (TalkProfileUnknown (TalkProfile c))
      else None)"

definition preferredTalkProfile :: "camera_config \<Rightarrow> string" where
  "preferredTalkProfile c = (if hasStream (TalkProfile c) c then TalkProfile c else [])"

section \<open>Pausing on motion\<close>

record motion_snapshot =
  snapKnown :: bool
  snapActive :: bool
  Unsupported :: bool
  ChangedAt :: int

definition newCameraMotionState :: "int \<Rightarrow> motion_snapshot" where
  "newCameraMotionState now = \<lparr>snapKnown = False, snapActive = False, Unsupported = False, ChangedAt = now\<rparr>"

definition setActive :: "int \<Rightarrow> bool \<Rightarrow> motion_snapshot \<Rightarrow> motion_snapshot" where
  "setActive now active s =
     (if snapKnown s \<and> snapActive s = active then s
      else s\<lparr>snapKnown := True, snapActive := active, ChangedAt := now\<rparr>)"

definition markUnsupported :: "motion_snapshot \<Rightarrow> motion_snapshot" where
  "markUnsupported s = s\<lparr>Unsupported := True\<rparr>"

record pause_config =
  OnMotion :: bool
  OnClient :: bool
  Timeout :: int
  Motion :: "motion_snapshot option"

definition streamPauseConfig :: "motion_snapshot option \<Rightarrow> camera_config \<Rightarrow> pause_config" where
  "streamPauseConfig motion c =
     \<lparr>OnMotion = PauseOnMotion c, OnClient = PauseOnClient c, Timeout = PauseTimeout c, Motion = motion\<rparr>"

text \<open>\<open>hasClients\<close> is the handler's answer, \<open>None\<close> a nil handler; the result is the reason to pause.\<close>

definition shouldPause :: "int \<Rightarrow> bool option \<Rightarrow> pause_config \<Rightarrow> string option" where
  "shouldPause now hasClients p =
     (if OnClient p \<and> hasClients = Some False then Some ''no rtsp client''
      else if \<not> OnMotion p then None
      else case Motion p of
        None \<Rightarrow> None
      | Some s \<Rightarrow>
          if Unsupported s \<or> \<not> snapKnown s \<or> snapActive s then None
          else let timeout = (if Timeout p \<le> 0 then sec else Timeout p)
               in if now - ChangedAt s \<ge> timeout then Some ''no motion'' else None)"

section \<open>Interface: a value whose changes are reported\<close>

text \<open>\<open>calls\<close> is newest first, so is what a run adds to it; \<open>key\<close> is the value an input stands for.\<close>

locale change_dispatcher =
  fixes handle :: "'i \<Rightarrow> 's \<Rightarrow> 's"
    and key :: "'i \<Rightarrow> 'v"
    and last_value :: "'s \<Rightarrow> 'v option"
    and calls :: "'s \<Rightarrow> 'v list"
    and listening :: "'s \<Rightarrow> bool"
  assumes handle_last: "last_value (handle i s) = Some (key i)"
    and handle_calls: "listening s \<Longrightarrow>
      calls (handle i s) = (if last_value s = Some (key i) then calls s else key i # calls s)"
    and handle_silent: "\<not> listening s \<Longrightarrow> calls (handle i s) = calls s"
    and handle_listening: "listening (handle i s) = listening s"
begin

lemma run_listening [simp]: "listening (fold handle is s) = listening s"
  by (induction "is" arbitrary: s) (simp_all add: handle_listening)

lemma run_last: "last_value (fold handle is s) = (if is = [] then last_value s else Some (key (last is)))"
  by (induction "is" arbitrary: s) (simp_all add: handle_last)

lemma run_silent: "\<not> listening s \<Longrightarrow> calls (fold handle is s) = calls s"
  by (induction "is" arbitrary: s) (simp_all add: handle_silent handle_listening)

lemma run_calls:
  assumes "listening s" "calls s = []" "last_value s = None"
  shows "calls (fold handle is s) = remdups_adj (rev (map key is))"
proof (induction "is" rule: rev_induct)
  case (snoc i "is")
  have "remdups_adj (key i # rev (map key is)) =
    (if is \<noteq> [] \<and> key (last is) = key i then remdups_adj (rev (map key is))
     else key i # remdups_adj (rev (map key is)))"
    by (cases "is" rule: rev_cases) auto
  then show ?case
    using assms snoc by (auto simp: handle_calls run_last)
qed (simp add: assms)

text \<open>Every call reports a change, and the last call is the current value.\<close>

lemma run_calls_change:
  assumes "listening s" "calls s = []" "last_value s = None"
  shows "Suc n < length (calls (fold handle is s)) \<Longrightarrow>
    calls (fold handle is s) ! n \<noteq> calls (fold handle is s) ! Suc n"
  using distinct_adj_remdups_adj [of "rev (map key is)"]
  by (simp add: run_calls [OF assms] distinct_adj_conv_nth)

end

section \<open>The events of a camera\<close>

record motion_event =
  meActive :: bool
  meAITypes :: "string list"

record battery_state =
  Percent :: int
  Charging :: bool
  Full :: bool
  bsChargeStatus :: string
  bsLowPower :: bool
  bsTemperature :: int
  bsVoltage :: int

datatype callback =
    MotionCall motion_event
  | DoorbellCall
  | BatteryCall battery_state
  | ConnectionCall bool
  | SleepCall bool
  | FloodlightCall bool
  | AudioHintCall string audio_hint

text \<open>A handler is installed or nil.\<close>

record camera_events =
  onMotion :: bool
  onDoorbell :: bool
  onBattery :: bool
  onConnection :: bool
  onSleep :: bool
  onFloodlight :: bool
  onAudioHint :: bool
  lastVisitor :: bool
  lastMotion :: "motion_event option"
  lastSleep :: "bool option"
  lastFloodlight :: "bool option"
  lastAudioHint :: "string \<rightharpoonup> audio_hint"
  lastConnection :: "bool option"
  callTrace :: "callback list"

definition no_events :: camera_events where
  "no_events = \<lparr>onMotion = False, onDoorbell = False, onBattery = False, onConnection = False, onSleep = False,
     onFloodlight = False, onAudioHint = False, lastVisitor = False, lastMotion = None, lastSleep = None,
     lastFloodlight = None, lastAudioHint = Map.empty, lastConnection = None, callTrace = []\<rparr>"

definition call :: "bool \<Rightarrow> callback \<Rightarrow> camera_events \<Rightarrow> camera_events" where
  "call due cb e = (if due then e\<lparr>callTrace := cb # callTrace e\<rparr> else e)"

definition OnMotion_set :: "bool \<Rightarrow> camera_events \<Rightarrow> camera_events" where
  "OnMotion_set fn e = e\<lparr>onMotion := fn\<rparr>"
definition OnDoorbell_set :: "bool \<Rightarrow> camera_events \<Rightarrow> camera_events" where
  "OnDoorbell_set fn e = e\<lparr>onDoorbell := fn\<rparr>"
definition OnBattery_set :: "bool \<Rightarrow> camera_events \<Rightarrow> camera_events" where
  "OnBattery_set fn e = e\<lparr>onBattery := fn\<rparr>"
definition OnSleep_set :: "bool \<Rightarrow> camera_events \<Rightarrow> camera_events" where
  "OnSleep_set fn e = e\<lparr>onSleep := fn\<rparr>"
definition OnFloodlight_set :: "bool \<Rightarrow> camera_events \<Rightarrow> camera_events" where
  "OnFloodlight_set fn e = e\<lparr>onFloodlight := fn\<rparr>"
definition OnAudioHint_set :: "bool \<Rightarrow> camera_events \<Rightarrow> camera_events" where
  "OnAudioHint_set fn e = e\<lparr>onAudioHint := fn\<rparr>"

definition OnConnection_set :: "bool \<Rightarrow> camera_events \<Rightarrow> camera_events" where
  "OnConnection_set fn e =
     (let e = e\<lparr>onConnection := fn\<rparr>
      in case lastConnection e of None \<Rightarrow> e | Some l \<Rightarrow> call fn (ConnectionCall l) e)"

definition reportAudioHint :: "string \<Rightarrow> audio_hint \<Rightarrow> camera_events \<Rightarrow> camera_events" where
  "reportAudioHint profile hint e =
     (let changed = (lastAudioHint e profile \<noteq> Some hint);
          e = (if changed then e\<lparr>lastAudioHint := (lastAudioHint e)(profile \<mapsto> hint)\<rparr> else e)
      in call (changed \<and> onAudioHint e) (AudioHintCall profile hint) e)"

definition handleFloodlight :: "bool \<Rightarrow> camera_events \<Rightarrow> camera_events" where
  "handleFloodlight on e =
     (let changed = (lastFloodlight e \<noteq> Some on);
          e = e\<lparr>lastFloodlight := Some on\<rparr>
      in call (changed \<and> onFloodlight e) (FloodlightCall on) e)"

definition handleSleep :: "bool \<Rightarrow> camera_events \<Rightarrow> camera_events" where
  "handleSleep sleeping e =
     (let changed = (lastSleep e \<noteq> Some sleeping);
          e = e\<lparr>lastSleep := Some sleeping\<rparr>
      in call (changed \<and> onSleep e) (SleepCall sleeping) e)"

definition motion_event_of :: "alarm_state \<Rightarrow> motion_event" where
  "motion_event_of s = \<lparr>meActive = Active s, meAITypes = AITypes s\<rparr>"

text \<open>The motion state of the pause logic is nil for a camera that does not pause on motion.\<close>

definition handleAlarm ::
  "int \<Rightarrow> alarm_state \<Rightarrow> camera_events \<times> motion_snapshot option \<Rightarrow> camera_events \<times> motion_snapshot option" where
  "handleAlarm now s em =
     (case em of (e, motion) \<Rightarrow>
        let event = motion_event_of s;
            fireDoorbell = (Visitor s \<and> \<not> lastVisitor e);
            fireMotion = (lastMotion e \<noteq> Some event);
            e = e\<lparr>lastVisitor := Visitor s, lastMotion := Some event\<rparr>;
            motion = map_option (setActive now (meActive event)) motion;
            e = call (fireDoorbell \<and> onDoorbell e) DoorbellCall e;
            e = call (fireMotion \<and> onMotion e) (MotionCall event) e
        in (e, motion))"

definition batteryStateFromInfo :: "battery_info \<Rightarrow> battery_state" where
  "batteryStateFromInfo info =
     (let status = to_lower (ChargeStatus info)
      in \<lparr>Percent = BatteryPercent info, Charging = (status = ''charging''), Full = (status = ''chargecomplete''),
          bsChargeStatus = ChargeStatus info, bsLowPower = (LowPower info \<noteq> 0),
          bsTemperature = Temperature info, bsVoltage = Voltage info\<rparr>)"

definition handleBattery :: "battery_info \<Rightarrow> camera_events \<Rightarrow> camera_events" where
  "handleBattery info e = call (onBattery e) (BatteryCall (batteryStateFromInfo info)) e"

definition handleConnection :: "bool \<Rightarrow> camera_events \<Rightarrow> camera_events" where
  "handleConnection connected e =
     (let e = e\<lparr>lastConnection := Some connected\<rparr> in call (onConnection e) (ConnectionCall connected) e)"

section \<open>The calls a handler has seen\<close>

definition motion_calls :: "camera_events \<Rightarrow> motion_event list" where
  "motion_calls e = List.map_filter (\<lambda>cb. case cb of MotionCall m \<Rightarrow> Some m | _ \<Rightarrow> None) (callTrace e)"

definition sleep_calls :: "camera_events \<Rightarrow> bool list" where
  "sleep_calls e = List.map_filter (\<lambda>cb. case cb of SleepCall b \<Rightarrow> Some b | _ \<Rightarrow> None) (callTrace e)"

definition floodlight_calls :: "camera_events \<Rightarrow> bool list" where
  "floodlight_calls e = List.map_filter (\<lambda>cb. case cb of FloodlightCall b \<Rightarrow> Some b | _ \<Rightarrow> None) (callTrace e)"

definition doorbell_calls :: "camera_events \<Rightarrow> nat" where
  "doorbell_calls e = length (filter (\<lambda>cb. cb = DoorbellCall) (callTrace e))"

definition connection_calls :: "camera_events \<Rightarrow> bool list" where
  "connection_calls e = List.map_filter (\<lambda>cb. case cb of ConnectionCall b \<Rightarrow> Some b | _ \<Rightarrow> None) (callTrace e)"

lemmas call_defs = motion_calls_def sleep_calls_def floodlight_calls_def doorbell_calls_def
  connection_calls_def call_def List.map_filter_simps

interpretation floodlight: change_dispatcher handleFloodlight "\<lambda>b. b" lastFloodlight floodlight_calls onFloodlight
  by unfold_locales (auto simp: handleFloodlight_def call_defs Let_def)

interpretation sleep: change_dispatcher handleSleep "\<lambda>b. b" lastSleep sleep_calls onSleep
  by unfold_locales (auto simp: handleSleep_def call_defs Let_def)

interpretation motion: change_dispatcher "\<lambda>i em. case i of (now, s) \<Rightarrow> handleAlarm now s em"
  "\<lambda>i. motion_event_of (snd i)" "\<lambda>em. lastMotion (fst em)" "\<lambda>em. motion_calls (fst em)" "\<lambda>em. onMotion (fst em)"
  by unfold_locales (auto simp: handleAlarm_def call_defs Let_def split: prod.splits)

section \<open>The webhook\<close>

text \<open>\<^verbatim>\<open>strings.Trim(s, "/")\<close> and \<^verbatim>\<open>strings.TrimPrefix(s, "/")\<close>.\<close>

definition trim_slash :: "string \<Rightarrow> string" where
  "trim_slash s = rev (dropWhile (\<lambda>c. c = CHR ''/'') (rev (dropWhile (\<lambda>c. c = CHR ''/'') s)))"

definition trim_prefix_slash :: "string \<Rightarrow> string" where
  "trim_prefix_slash s = (case s of c # r \<Rightarrow> if c = CHR ''/'' then r else s | [] \<Rightarrow> [])"

text \<open>The JSON document a camera posts; \<^verbatim>\<open>encoding/json\<close> decodes it (\<open>None\<close> its error).\<close>

record webhook_push =
  pushUID :: string
  pushCmd :: int
  pushXML :: string
  pushData :: "string \<rightharpoonup> string"

type_synonym json_parser = "bytes \<Rightarrow> webhook_push option"

definition data_of :: "webhook_push \<Rightarrow> string \<Rightarrow> string" where
  "data_of push k = (case pushData push k of None \<Rightarrow> [] | Some v \<Rightarrow> v)"

record bridged =
  bEvents :: camera_events
  bMotion :: "motion_snapshot option"
  webhookAlarms :: alarm_merger
  pushSeen :: bool

definition dispatch_alarm :: "int \<Rightarrow> alarm_state \<Rightarrow> bridged \<Rightarrow> bridged" where
  "dispatch_alarm now s b =
     (case handleAlarm now s (bEvents b, bMotion b) of (e, m) \<Rightarrow> b\<lparr>bEvents := e, bMotion := m\<rparr>)"

definition webhook_alarm :: "int \<Rightarrow> alarm_state \<Rightarrow> bridged \<Rightarrow> bridged" where
  "webhook_alarm now s b =
     (case merger_Alarm s (webhookAlarms b) of (s', m) \<Rightarrow> dispatch_alarm now s' (b\<lparr>webhookAlarms := m\<rparr>))"

definition webhook_xml :: "xml_parser \<Rightarrow> int \<Rightarrow> byte \<Rightarrow> bool \<Rightarrow> webhook_push \<Rightarrow> bridged \<Rightarrow> bridged" where
  "webhook_xml parser now channel dualLens push b =
     (let cmd = pushCmd push in
      if cmd = 33 then
        (case parseAlarmState parser (pushXML push) channel dualLens of
           Some (s, True) \<Rightarrow> webhook_alarm now s b
         | _ \<Rightarrow> b)
      else if cmd = 600 \<or> cmd = 696 then
        (case merger_Yolo parser cmd (pushXML push) channel dualLens (webhookAlarms b) of
           (None, m) \<Rightarrow> b\<lparr>webhookAlarms := m\<rparr>
         | (Some (s, changed), m) \<Rightarrow>
             let b = b\<lparr>webhookAlarms := m\<rparr> in if changed then dispatch_alarm now s b else b)
      else if cmd = 252 \<or> cmd = 253 then
        b\<lparr>bEvents := fold handleBattery (battery_callbacks parser channel (pushXML push)) (bEvents b)\<rparr>
      else if cmd = 145 then
        (case ParseSleepStates parser (pushXML push) (uint channel) of
           None \<Rightarrow> b | Some sleeping \<Rightarrow> b\<lparr>bEvents := handleSleep sleeping (bEvents b)\<rparr>)
      else if cmd = 291 then
        (case ParseFloodlightStates parser (pushXML push) (uint channel) of
           None \<Rightarrow> b | Some on \<Rightarrow> b\<lparr>bEvents := handleFloodlight on (bEvents b)\<rparr>)
      else b)"

definition webhook_event :: "int \<Rightarrow> webhook_push \<Rightarrow> bridged \<Rightarrow> bridged" where
  "webhook_event now push b =
     (let event = data_of push ''event''; reason = data_of push ''reason'' in
      if event = ''sleep'' then
        (let b = b\<lparr>bEvents := handleSleep True (bEvents b)\<rparr>;
             b = b\<lparr>webhookAlarms := merger_Reset (webhookAlarms b)\<rparr>
         in dispatch_alarm now no_alarm b)
      else if event = ''wake'' then
        (let b = b\<lparr>bEvents := handleSleep False (bEvents b)\<rparr> in
         if reason = ''doorbell'' then webhook_alarm now (no_alarm\<lparr>Visitor := True\<rparr>) b
         else if reason = ''pir'' then webhook_alarm now (no_alarm\<lparr>MotionDetected := True\<rparr>) b
         else b)
      else b)"

text \<open>\<open>dual\<close> is the dual-lens flag of the last login.\<close>

definition handleWebhookPush ::
  "json_parser \<Rightarrow> xml_parser \<Rightarrow> int \<Rightarrow> camera_config \<Rightarrow> bool \<Rightarrow> bytes \<Rightarrow> bridged \<Rightarrow> bridged" where
  "handleWebhookPush json parser now cc dual body b =
     (case json body of
        None \<Rightarrow> b
      | Some push \<Rightarrow>
          let b = b\<lparr>pushSeen := True\<rparr>;
              channel = word_of_int (camChannel cc);
              dualLens = (channel = 0 \<and> dual)
          in if pushXML push \<noteq> [] then webhook_xml parser now channel dualLens push b
             else webhook_event now push b)"

text \<open>
  The server: the cameras registered under their names, as keys of a store. \<open>bind_err\<close> is what
  \<^verbatim>\<open>ListenAndServe\<close> reports within 200 ms.
\<close>

record 'cam webhook_server =
  wsCameras :: "string \<rightharpoonup> 'cam"
  wsStarted :: bool

definition newWebhookServer :: "'cam webhook_server" where
  "newWebhookServer = \<lparr>wsCameras = Map.empty, wsStarted = False\<rparr>"

definition ensureStarted :: "string option \<Rightarrow> 'cam webhook_server \<Rightarrow> string option \<times> 'cam webhook_server" where
  "ensureStarted bind_err ws =
     (if wsStarted ws then (None, ws)
      else case bind_err of Some err \<Rightarrow> (Some err, ws) | None \<Rightarrow> (None, ws\<lparr>wsStarted := True\<rparr>))"

definition ws_close :: "'cam webhook_server \<Rightarrow> bool \<times> 'cam webhook_server" where
  "ws_close ws = (wsStarted ws, ws\<lparr>wsStarted := False\<rparr>)"

definition register :: "string \<Rightarrow> 'cam \<Rightarrow> 'cam webhook_server \<Rightarrow> 'cam webhook_server" where
  "register name cam ws = ws\<lparr>wsCameras := (wsCameras ws)(name \<mapsto> cam)\<rparr>"

definition unregister :: "string \<Rightarrow> 'cam webhook_server \<Rightarrow> 'cam webhook_server" where
  "unregister name ws = ws\<lparr>wsCameras := (wsCameras ws)(name := None)\<rparr>"

datatype http_status = StatusOK | StatusMethodNotAllowed | StatusNotFound | StatusBadRequest

text \<open>\<open>deliver\<close> is \<^verbatim>\<open>cam.handleWebhookPush\<close>; \<open>body\<close> what the request body reads as, \<open>None\<close> a read error.\<close>

definition ws_handle ::
  "('cam \<Rightarrow> bytes \<Rightarrow> 's \<Rightarrow> 's) \<Rightarrow> 'cam webhook_server \<Rightarrow> string \<Rightarrow> string \<Rightarrow> bytes option \<Rightarrow> 's \<Rightarrow> http_status \<times> 's" where
  "ws_handle deliver ws meth path body s =
     (if meth \<noteq> ''POST'' then (StatusMethodNotAllowed, s)
      else case wsCameras ws (trim_slash path) of
        None \<Rightarrow> (StatusNotFound, s)
      | Some cam \<Rightarrow>
          (case body of
             None \<Rightarrow> (StatusBadRequest, s)
           | Some b \<Rightarrow> (StatusOK, deliver cam (take (2 ^ 20) b) s)))"

interpretation webhook_cameras: keyed_registry wsCameras register unregister
  by unfold_locales (simp_all add: register_def unregister_def)

section \<open>Configuration: defaults\<close>

lemma dropWhile_idem: "dropWhile P (dropWhile P s) = dropWhile P s"
  by (induction s) auto

lemma is_space_lower [simp]: "is_space (lower_char c) = is_space c"
  by (auto simp: is_space_def lower_char_def Let_def)

lemma lower_lower [simp]: "lower_char (lower_char c) = lower_char c"
  by (auto simp: lower_char_def Let_def)

lemma trim_to_lower: "trim_space (to_lower s) = to_lower (trim_space s)"
  by (simp add: trim_space_def to_lower_def dropWhile_map comp_def rev_map)

lemma to_lower_idem [simp]: "to_lower (to_lower s) = to_lower s"
  by (simp add: to_lower_def)

lemma dropWhile_rev_keeps:
  "dropWhile P s = s \<Longrightarrow> dropWhile P (rev (dropWhile P (rev s))) = rev (dropWhile P (rev s))"
proof -
  assume keep: "dropWhile P s = s"
  define r where "r = dropWhile P (rev s)"
  have s: "s = rev r @ rev (takeWhile P (rev s))"
    by (metis r_def rev_append rev_rev_ident takeWhile_dropWhile_id)
  show ?thesis
  proof (cases "rev r")
    case (Cons c cs)
    then have "\<not> P c" using keep s by (metis append_Cons dropWhile.simps(2) hd_dropWhile list.sel(1) list.discI)
    then show ?thesis using Cons by (simp flip: r_def)
  qed (simp flip: r_def)
qed

lemma trim_space_idem [simp]: "trim_space (trim_space s) = trim_space s"
  by (simp add: trim_space_def dropWhile_rev_keeps dropWhile_idem)

lemma normalize_idem [simp]: "normalizeProfileName (normalizeProfileName s) = normalizeProfileName s"
  by (simp add: normalizeProfileName_def trim_to_lower)

lemma normalize_main [simp]: "normalizeProfileName ''main'' = ''main''"
  by code_simp

text \<open>Applying the defaults a second time changes nothing, except for the one configuration they
  leave without a stream: the list they fill in is then the documented default.\<close>

theorem defaults_idempotent:
  "ApplyDefaults (ApplyDefaults c) = ApplyDefaults c \<longleftrightarrow> camStreams (ApplyDefaults c) \<noteq> []"
proof -
  have names: "camStreams (ApplyDefaults c) = ns \<Longrightarrow> map normalizeProfileName ns = ns \<and> [] \<notin> set ns" for ns
    by (auto simp: ApplyDefaults_def intro!: map_idI)
  define d where "d = ApplyDefaults c"
  have d: "map normalizeProfileName (camStreams d) = camStreams d" "[] \<notin> set (camStreams d)"
    using names [of "camStreams d"] by (simp_all add: d_def)
  have "filter (\<lambda>n. n \<noteq> []) (camStreams d) = camStreams d"
    using d(2) by (auto simp: filter_id_conv)
  moreover have "camPort d \<noteq> 0" "camRTSPPath d \<noteq> []" "camTimeout d \<noteq> 0" "TalkVolume d \<noteq> 0"
    "LiveCatchUp d \<noteq> None" "PauseTimeout d \<noteq> 0" "IdleTimeout d \<noteq> 0"
    "normalizeProfileName (TalkProfile d) = TalkProfile d"
    by (auto simp: d_def ApplyDefaults_def sec_def split: option.splits)
  ultimately have "ApplyDefaults d = d\<lparr>camStreams := if camStreams d = [] then [''main''] else camStreams d\<rparr>"
    using d(1) by (simp add: ApplyDefaults_def split: option.splits)
  then have "ApplyDefaults d = d \<longleftrightarrow> camStreams d \<noteq> []"
    by (cases d) auto
  then show ?thesis by (simp add: d_def)
qed

lemma blank_streams_serve_nothing:
  assumes "camStreams c \<noteq> []" "\<forall>n \<in> set (camStreams c). trim_space n = []"
  shows "camStreams (ApplyDefaults c) = []"
  using assms by (auto simp: ApplyDefaults_def normalizeProfileName_def to_lower_def filter_empty_conv)

section \<open>What the callbacks say\<close>

text \<open>The times the visitor flag rises, from a state in which it was \<open>b\<close>.\<close>

fun rises :: "bool \<Rightarrow> bool list \<Rightarrow> nat" where
  "rises b [] = 0"
| "rises b (v # vs) = (if v \<and> \<not> b then 1 else 0) + rises v vs"

definition alarms :: "(int \<times> alarm_state) list \<Rightarrow> camera_events \<times> motion_snapshot option \<Rightarrow>
    camera_events \<times> motion_snapshot option" where
  "alarms ss em = fold (\<lambda>i em. case i of (now, s) \<Rightarrow> handleAlarm now s em) ss em"

lemma handleAlarm_events:
  assumes "handleAlarm now s (e, m) = (e', m')"
  shows "onDoorbell e' = onDoorbell e" "lastVisitor e' = Visitor s"
    "onDoorbell e \<Longrightarrow> doorbell_calls e' = doorbell_calls e + (if Visitor s \<and> \<not> lastVisitor e then 1 else 0)"
    "m' = map_option (setActive now (Active s)) m"
  using assms by (auto simp: handleAlarm_def call_defs motion_event_of_def Let_def split: if_split_asm)

lemma alarms_doorbell:
  "onDoorbell (fst em) \<Longrightarrow>
   doorbell_calls (fst (alarms ss em)) =
     doorbell_calls (fst em) + rises (lastVisitor (fst em)) (map (\<lambda>i. Visitor (snd i)) ss)"
proof (induction ss arbitrary: em)
  case (Cons i ss)
  obtain now s where i: "i = (now, s)" by fastforce
  obtain e m where em: "em = (e, m)" by fastforce
  obtain e' m' where step: "handleAlarm now s (e, m) = (e', m')" by fastforce
  then show ?case
    using Cons handleAlarm_events [OF step] by (simp add: i em alarms_def)
qed (simp add: alarms_def)

text \<open>C9: Whatever sequence of alarm states a camera's listener and webhook hand to handleAlarm, a
  consumer that installed its handlers first hears of motion exactly once per run of equal motion
  states, in order and with the last one current, and of the doorbell exactly once per rising edge of
  the visitor flag.\<close>

theorem alarms_reported_once:
  assumes "onMotion e" "onDoorbell e" "callTrace e = []" "lastMotion e = None" "\<not> lastVisitor e"
  shows "rev (motion_calls (fst (alarms ss (e, m)))) = remdups_adj (map (\<lambda>i. motion_event_of (snd i)) ss)
    \<and> (ss \<noteq> [] \<longrightarrow> lastMotion (fst (alarms ss (e, m))) = Some (motion_event_of (snd (last ss))))
    \<and> doorbell_calls (fst (alarms ss (e, m))) = rises False (map (\<lambda>i. Visitor (snd i)) ss)"
proof (intro conjI)
  have silent: "motion_calls e = []" "doorbell_calls e = 0" using assms(3) by (simp_all add: call_defs)
  show "rev (motion_calls (fst (alarms ss (e, m)))) = remdups_adj (map (\<lambda>i. motion_event_of (snd i)) ss)"
    using motion.run_calls [of "(e, m)" ss] assms(1,4) silent by (simp add: alarms_def flip: rev_map)
  show "ss \<noteq> [] \<longrightarrow> lastMotion (fst (alarms ss (e, m))) = Some (motion_event_of (snd (last ss)))"
    by (simp add: alarms_def motion.run_last)
  show "doorbell_calls (fst (alarms ss (e, m))) = rises False (map (\<lambda>i. Visitor (snd i)) ss)"
    using alarms_doorbell [of "(e, m)" ss] assms(2,5) silent by simp
qed

definition listening_events :: camera_events where
  "listening_events = no_events\<lparr>onMotion := True, onDoorbell := True\<rparr>"

lemma alarms_reported_once_witness:
  "rev (motion_calls (fst (alarms [(1, no_alarm\<lparr>Visitor := True\<rparr>), (2, no_alarm\<lparr>Visitor := True\<rparr>), (3, no_alarm)]
      (listening_events, None)))) = [motion_event_of no_alarm]
   \<and> doorbell_calls (fst (alarms [(1, no_alarm\<lparr>Visitor := True\<rparr>), (2, no_alarm\<lparr>Visitor := True\<rparr>), (3, no_alarm)]
      (listening_events, None))) = 1"
  using alarms_reported_once [of listening_events "[(1, no_alarm\<lparr>Visitor := True\<rparr>), (2, no_alarm\<lparr>Visitor := True\<rparr>), (3, no_alarm)]" None]
  by (simp add: listening_events_def no_events_def no_alarm_def motion_event_of_def Active_def)

text \<open>The pause logic's motion state after a history of timed reports.\<close>

definition motion_history :: "int \<Rightarrow> (int \<times> bool) list \<Rightarrow> motion_snapshot" where
  "motion_history start reports = fold (\<lambda>(t, active). setActive t active) reports (newCameraMotionState start)"

lemma motion_history_snoc:
  "motion_history start (reports @ [(t, a)]) = setActive t a (motion_history start reports)"
  by (simp add: motion_history_def)

text \<open>The state a history leaves: the value of its last report, dated by the first of the trailing run.\<close>

lemma motion_history_state:
  "motion_history start reports =
     (case rev reports of [] \<Rightarrow> newCameraMotionState start
      | (t, a) # _ \<Rightarrow> \<lparr>snapKnown = True, snapActive = a, Unsupported = False,
          ChangedAt = fst (last (takeWhile (\<lambda>r. snd r = a) (rev reports)))\<rparr>)"
proof (induction reports rule: rev_induct)
  case (snoc r reports)
  obtain t a where r: "r = (t, a)" by fastforce
  show ?case
    unfolding r motion_history_snoc snoc.IH
    by (cases "rev reports") (auto simp: setActive_def newCameraMotionState_def split: prod.splits)
qed (simp add: motion_history_def)

lemma last_takeWhile_le:
  assumes "sorted_wrt (\<lambda>x y. fst y \<le> (fst x :: int)) rs" "rs \<noteq> []" "snd (hd rs) = a"
  shows "fst (last (takeWhile (\<lambda>r. snd r = a) rs)) \<le> u \<longleftrightarrow>
    (\<exists>post t pre. rs = post @ (t, a) # pre \<and> t \<le> u \<and> (\<forall>r \<in> set post. snd r = a))"
proof
  let ?tw = "takeWhile (\<lambda>r. snd r = a) rs"
  have ne: "?tw \<noteq> []" using assms(2,3) by (cases rs) auto
  assume le: "fst (last ?tw) \<le> u"
  have last_tw: "snd (last ?tw) = a" "\<forall>r \<in> set (butlast ?tw). snd r = a"
    using ne by (auto dest: set_takeWhileD [OF last_in_set] set_takeWhileD in_set_butlastD)
  then obtain t where t: "last ?tw = (t, a)" by (cases "last ?tw") auto
  have "rs = butlast ?tw @ (t, a) # dropWhile (\<lambda>r. snd r = a) rs"
    using ne t by (metis append_Cons append_butlast_last_id append_assoc append_self_conv2 takeWhile_dropWhile_id)
  moreover have "t \<le> u" using le t by simp
  ultimately show "\<exists>post t pre. rs = post @ (t, a) # pre \<and> t \<le> u \<and> (\<forall>r \<in> set post. snd r = a)"
    using last_tw(2) by - (rule exI, rule exI, rule exI, rule conjI, assumption, rule conjI, assumption, assumption)
next
  let ?tw = "takeWhile (\<lambda>r. snd r = a) rs"
  assume "\<exists>post t pre. rs = post @ (t, a) # pre \<and> t \<le> u \<and> (\<forall>r \<in> set post. snd r = a)"
  then obtain post t pre where rs: "rs = post @ (t, a) # pre" "t \<le> u" "\<forall>r \<in> set post. snd r = a"
    by blast
  have tw: "?tw = post @ (t, a) # takeWhile (\<lambda>r. snd r = a) pre"
    using rs(3) by (simp add: rs(1))
  have "last ?tw \<in> set ((t, a) # takeWhile (\<lambda>r. snd r = a) pre)"
    unfolding tw by (metis last_appendR last_in_set list.distinct(1))
  then have "last ?tw = (t, a) \<or> last ?tw \<in> set pre" by (auto dest: set_takeWhileD)
  then have "fst (last ?tw) \<le> t" using assms(1) by (auto simp: rs(1) sorted_wrt_append)
  then show "fst (last ?tw) \<le> u" using rs(2) by simp
qed

text \<open>A stream that pauses on motion pauses for it exactly when the camera has been quiet for the
  timeout: at some report at least that long ago the camera was quiet, and every later report says so
  too. A camera that never reported is never paused, and a stream somebody watches only for lack of
  motion.\<close>

theorem pauses_exactly_when_quiet:
  assumes times: "sorted_wrt (\<lambda>x y. fst x \<le> fst y) reports"
    and p: "Motion p = Some (motion_history start reports)" "OnMotion p" "Timeout p > 0"
    and watched: "\<not> (OnClient p \<and> hasClients = Some False)"
  shows "shouldPause now hasClients p = Some ''no motion'' \<longleftrightarrow>
    (\<exists>pre t post. reports = pre @ (t, False) # post \<and> t \<le> now - Timeout p \<and> (\<forall>r \<in> set post. \<not> snd r))"
proof (cases reports rule: rev_cases)
  case Nil
  then show ?thesis using assms by (simp add: shouldPause_def motion_history_def newCameraMotionState_def)
next
  case (snoc pre r)
  obtain t a where r: "r = (t, a)" by fastforce
  have rev_times: "sorted_wrt (\<lambda>x y. fst y \<le> fst x) (rev reports)"
    using times by (simp add: sorted_wrt_rev)
  have mirror: "(\<exists>post t pre. rev reports = post @ (t, False) # pre \<and> t \<le> u \<and> (\<forall>r \<in> set post. \<not> snd r)) \<longleftrightarrow>
    (\<exists>pre t post. reports = pre @ (t, False) # post \<and> t \<le> u \<and> (\<forall>r \<in> set post. \<not> snd r))" for u
  proof -
    have "rev reports = post @ (t, False) # pre \<longleftrightarrow> reports = rev pre @ (t, False) # rev post" for post t pre
      by (metis append.assoc append_Cons append_Nil rev.simps(2) rev_append rev_rev_ident)
    then show ?thesis by (metis rev_rev_ident set_rev)
  qed
  show ?thesis
  proof (cases a)
    case True
    have "\<not> (\<exists>pre t post. reports = pre @ (t, False) # post \<and> t \<le> now - Timeout p \<and> (\<forall>r \<in> set post. \<not> snd r))"
    proof (intro notI, elim exE conjE)
      fix pre' u post
      assume "reports = pre' @ (u, False) # post" "\<forall>r \<in> set post. \<not> snd r"
      then have "\<not> snd (last reports)" by (cases post rule: rev_cases) auto
      then show False by (simp add: snoc r True)
    qed
    then show ?thesis using assms by (simp add: shouldPause_def motion_history_state snoc r True)
  next
    case False
    have "shouldPause now hasClients p = Some ''no motion'' \<longleftrightarrow>
      fst (last (takeWhile (\<lambda>r. snd r = False) (rev reports))) \<le> now - Timeout p"
      using assms False by (auto simp: shouldPause_def motion_history_state snoc r Let_def)
    then show ?thesis
      using last_takeWhile_le [OF rev_times, of False "now - Timeout p"] mirror by (simp add: snoc r False)
  qed
qed

lemma pauses_exactly_when_quiet_witness:
  "shouldPause 20 (Some True) \<lparr>OnMotion = True, OnClient = True, Timeout = 5,
     Motion = Some (motion_history 0 [(1, True), (10, False), (12, False)])\<rparr> = Some ''no motion''"
proof -
  have "\<exists>pre t post. [(1, True), (10, False), (12, False)] = pre @ (t, False) # post \<and> t \<le> (20 - 5 :: int)
    \<and> (\<forall>r \<in> set post. \<not> snd r)"
    by (rule exI [of _ "[(1, True)]"], rule exI [of _ 10], rule exI [of _ "[(12, False)]"]) simp
  then show ?thesis
    using pauses_exactly_when_quiet [of "[(1, True), (10, False), (12, False)]"
      "\<lparr>OnMotion = True, OnClient = True, Timeout = 5, Motion = Some (motion_history 0 [(1, True), (10, False), (12, False)])\<rparr>"
      0 "Some True" 20]
    by simp
qed

section \<open>Sleeping doorbells and late consumers\<close>

lemma handleSleep_doorbell [simp]:
  "doorbell_calls (handleSleep b e) = doorbell_calls e" "lastVisitor (handleSleep b e) = lastVisitor e"
  "onDoorbell (handleSleep b e) = onDoorbell e"
  by (simp_all add: handleSleep_def call_defs Let_def)

lemma dispatch_alarm_doorbell:
  assumes "onDoorbell (bEvents b)"
  shows "doorbell_calls (bEvents (dispatch_alarm now s b)) =
      doorbell_calls (bEvents b) + (if Visitor s \<and> \<not> lastVisitor (bEvents b) then 1 else 0)
    \<and> lastVisitor (bEvents (dispatch_alarm now s b)) = Visitor s \<and> onDoorbell (bEvents (dispatch_alarm now s b))"
proof -
  obtain e m where h: "handleAlarm now s (bEvents b, bMotion b) = (e, m)" by fastforce
  show ?thesis using handleAlarm_events [OF h] assms by (simp add: dispatch_alarm_def h)
qed

lemma Visitor_withAITypes [simp]: "Visitor (withAITypes s extras) = Visitor s"
  by (simp add: withAITypes_def)

text \<open>The pushes of a battery doorbell: it wakes for a press, or falls asleep.\<close>

definition event_push :: "webhook_push \<Rightarrow> bool \<Rightarrow> bool" where
  "event_push push wake =
     (pushXML push = [] \<and>
      (if wake then data_of push ''event'' = ''wake'' \<and> data_of push ''reason'' = ''doorbell''
       else data_of push ''event'' = ''sleep''))"

lemma event_push_step:
  assumes "event_push push wake" "json body = Some push" "onDoorbell (bEvents b)"
  shows "doorbell_calls (bEvents (handleWebhookPush json parser now cc dual body b)) =
      doorbell_calls (bEvents b) + (if wake \<and> \<not> lastVisitor (bEvents b) then 1 else 0)
    \<and> lastVisitor (bEvents (handleWebhookPush json parser now cc dual body b)) = wake
    \<and> onDoorbell (bEvents (handleWebhookPush json parser now cc dual body b))"
  using assms
  by (cases wake) (simp_all add: event_push_def handleWebhookPush_def webhook_event_def webhook_alarm_def
    merger_Alarm_def merger_state_def dispatch_alarm_doorbell no_alarm_def Let_def)

text \<open>A battery camera pushes no end of its events; its falling asleep is taken for one. So over any
  sequence of wake-up and sleep pushes the consumer hears the doorbell once for each wake-up by a press
  that follows a sleep, and a press repeated before the camera slept is not announced twice.\<close>

theorem webhook_doorbell_per_wake:
  assumes "\<forall>(now, body, wake) \<in> set pushes. \<exists>push. json body = Some push \<and> event_push push wake"
    and "onDoorbell (bEvents b)"
  shows "doorbell_calls (bEvents (fold (\<lambda>(now, body, wake). handleWebhookPush json parser now cc dual body) pushes b))
    = doorbell_calls (bEvents b) + rises (lastVisitor (bEvents b)) (map (snd \<circ> snd) pushes)"
  using assms
proof (induction pushes arbitrary: b)
  case (Cons p pushes)
  obtain now body wake where p: "p = (now, body, wake)" by (metis prod_cases3)
  then obtain push where "json body = Some push" "event_push push wake" using Cons.prems(1) by auto
  note step = event_push_step [where json = json and body = body and b = b and push = push, OF this(2,1) Cons.prems(2),
    of parser now cc dual]
  show ?case using Cons.IH [of "handleWebhookPush json parser now cc dual body b"] Cons.prems step by (simp add: p)
qed simp

definition demo_json :: json_parser where
  "demo_json body = Some \<lparr>pushUID = [], pushCmd = 0, pushXML = [],
     pushData = (if body = [] then [''event'' \<mapsto> ''sleep'']
       else [''event'' \<mapsto> ''wake'', ''reason'' \<mapsto> ''doorbell''])\<rparr>"

definition demo_bridged :: bridged where
  "demo_bridged = \<lparr>bEvents = listening_events, bMotion = None, webhookAlarms = fresh_merger, pushSeen = False\<rparr>"

definition demo_config :: camera_config where
  "demo_config = \<lparr>camName = ''door'', camHost = ''10.0.0.2'', camPort = 0, camUID = [], camUsername = ''admin'',
     camPassword = [], camTimeout = 0, camStreams = [], camChannel = 0, camRTSPPath = [], TalkProfile = [],
     TalkVolume = 0, PauseOnMotion = False, PauseOnClient = False, PauseTimeout = 0, LiveCatchUp = None,
     IdleDisconnect = False, IdleTimeout = 0, BatteryCamera = True, MainsPowered = False, AudioHints = Map.empty\<rparr>"

lemma webhook_doorbell_per_wake_witness:
  "doorbell_calls (bEvents (fold (\<lambda>(now, body, wake). handleWebhookPush demo_json Map.empty now demo_config False body)
     [(1, [1], True), (2, [1], True), (3, [], False), (4, [1], True)] demo_bridged)) = 2"
  using webhook_doorbell_per_wake [of "[(1, [1], True), (2, [1], True), (3, [], False), (4, [1], True)]" demo_json
    demo_bridged Map.empty demo_config False]
  by (simp add: demo_json_def event_push_def data_of_def demo_bridged_def listening_events_def no_events_def
    call_defs)

lemma handleConnection_fold:
  "connection_calls (fold handleConnection cs e) = (if onConnection e then rev cs else []) @ connection_calls e
   \<and> onConnection (fold handleConnection cs e) = onConnection e
   \<and> lastConnection (fold handleConnection cs e) = (if cs = [] then lastConnection e else Some (last cs))"
  by (induction cs arbitrary: e) (auto simp: handleConnection_def call_defs)

lemma OnConnection_set_calls:
  "connection_calls (OnConnection_set True e) =
     (case lastConnection e of None \<Rightarrow> [] | Some l \<Rightarrow> [l]) @ connection_calls e
   \<and> onConnection (OnConnection_set True e)"
  by (auto simp: OnConnection_set_def call_defs split: option.splits)

text \<open>AddCamera starts connecting before the consumer can install its connection handler; wherever in
  the sequence of connection states the handler arrives, it is told the state in force and then every
  later one, in order.\<close>

theorem connection_state_replayed:
  assumes "\<not> onConnection e" "connection_calls e = []" "lastConnection e = None"
  shows "rev (connection_calls (fold handleConnection post (OnConnection_set True (fold handleConnection pre e)))) =
    (if pre = [] then [] else [last pre]) @ post"
  using assms handleConnection_fold [of pre e]
  by (auto simp: handleConnection_fold OnConnection_set_calls)

lemma connection_state_replayed_witness:
  "rev (connection_calls (fold handleConnection [False] (OnConnection_set True
     (fold handleConnection [True, False, True] no_events)))) = [True, False]"
  using connection_state_replayed [of no_events "[False]" "[True, False, True]"]
  by (simp add: no_events_def call_defs)

end
