(* ===== verification/Rtsp.thy ===== *)
theory Rtsp
  imports TalkPipeline Events Registry "HOL-Library.AList"
begin

text \<open>
  The RTSP side of the bridge: paths and URLs, the tables of streams and talkback paths, the stream
  handlers with their mirrors, the sessions of the clients and the talk bridges they share
  (\<^verbatim>\<open>pkg/bridge/rtsp.go\<close>, \<^verbatim>\<open>talk_rtsp.go\<close>, the session state of \<^verbatim>\<open>pause.go\<close>). Objects the code
  reaches through pointers live in stores, under natural numbers; a Go map that is searched is an
  association list, so that the order of the search is any. The RTSP library is outside: what it says
  of a session is an argument.
\<close>

section \<open>Paths and URLs\<close>

definition samePath :: "string \<Rightarrow> string \<Rightarrow> bool" where
  "samePath got want = (trim_slash (trim_space got) = trim_slash (trim_space want))"

definition has_suffix :: "'a list \<Rightarrow> 'a list \<Rightarrow> bool" where
  "has_suffix s p = has_prefix (rev s) (rev p)"

definition isTwoWayPath :: "string \<Rightarrow> bool" where
  "isTwoWayPath path = has_suffix (to_lower path) ''_twoway''"

definition buildURL :: "string \<Rightarrow> string \<Rightarrow> string \<Rightarrow> string" where
  "buildURL scheme authority path = scheme @ ''://'' @ authority @ ''/'' @ trim_prefix_slash path"

definition talkPathForCamera :: "string \<Rightarrow> string" where
  "talkPathForCamera rtspPath =
     (let p = trim_slash (trim_space rtspPath) in if p = [] then ''talk'' else p @ ''_talk'')"

definition twoWayPathForStream :: "string \<Rightarrow> string" where
  "twoWayPathForStream rtspPath =
     (let p = trim_slash (trim_space rtspPath) in if p = [] then ''twoway'' else p @ ''_twoway'')"

text \<open>\<^verbatim>\<open>net.SplitHostPort\<close> and \<^verbatim>\<open>net.JoinHostPort\<close>; \<open>None\<close> is an error.\<close>

definition index_of :: "char \<Rightarrow> string \<Rightarrow> nat option" where
  "index_of c s = (if c \<in> set s then Some (length (takeWhile (\<lambda>d. d \<noteq> c) s)) else None)"

definition SplitHostPort :: "string \<Rightarrow> (string \<times> string) option" where
  "SplitHostPort s =
     (case last_index (CHR '':'') s of
        None \<Rightarrow> None
      | Some i \<Rightarrow>
          if take 1 s = ''['' then
            (case index_of (CHR '']'') s of
               None \<Rightarrow> None
             | Some e \<Rightarrow>
                 if e + 1 = length s \<or> e + 1 \<noteq> i then None
                 else if CHR ''['' \<in> set (drop 1 s) \<or> CHR '']'' \<in> set (drop (e + 1) s) then None
                 else Some (take (e - 1) (drop 1 s), drop (i + 1) s))
          else if CHR '':'' \<in> set (take i s) then None
          else if CHR ''['' \<in> set s \<or> CHR '']'' \<in> set s then None
          else Some (take i s, drop (i + 1) s))"

definition JoinHostPort :: "string \<Rightarrow> string \<Rightarrow> string" where
  "JoinHostPort host port =
     (if CHR '':'' \<in> set host then ''['' @ host @ '']:'' @ port else host @ '':'' @ port)"

text \<open>\<open>outbound\<close> is the answer of \<^verbatim>\<open>getOutboundIP\<close>.\<close>

definition advertisedAuthority :: "string \<Rightarrow> string \<Rightarrow> string \<Rightarrow> string" where
  "advertisedAuthority outbound address overrideHost =
     (let (host, port) =
            (case SplitHostPort address of
               Some hp \<Rightarrow> hp
             | None \<Rightarrow> if take 1 address = '':'' then ([], drop 1 address) else (address, []));
          host = (if overrideHost \<noteq> [] then overrideHost else host);
          host = (if host = [] \<or> host = ''0.0.0.0'' \<or> host = ''::''
                  then (if outbound \<noteq> [] then outbound else ''127.0.0.1'') else host)
      in if port = [] then host else JoinHostPort host port)"

section \<open>The objects\<close>

text \<open>A media is a pointer of the media store; a packet what is written for it.\<close>

record rtp_packet =
  rtpTimestamp :: u32
  rtpPayload :: bytes

record stream_handler =
  shPath :: string
  attached :: bool
  shStream :: "nat list option"
  clients :: "nat set"
  extras :: "nat list"
  mirrors :: "nat list"
  lastInterest :: "int option"
  shSent :: "(nat \<times> rtp_packet) list"

record talk_publisher =
  tpPath :: string
  tpActive :: "nat option"
  tpStream :: bool

record talk_bridge =
  tbPublisher :: nat
  tbPath :: string
  cancelled :: bool
  refs :: int
  pcmQueue :: "i16 list list"

record session_state =
  ssStream :: "nat option"
  playing :: bool
  ssTalk :: "nat option"
  ssInputs :: "(talk_input \<times> nat) list"

record rtsp =
  rsStreams :: "(string \<times> nat) list"
  rsTalks :: "(string \<times> nat) list"
  rsTalkSDP :: "(string \<times> nat) list"
  handlers :: "nat \<Rightarrow> stream_handler"
  publishers :: "nat \<Rightarrow> talk_publisher"
  bridges :: "nat \<Rightarrow> talk_bridge"
  nextBridge :: nat
  pipelines :: "nat list"
  sessions :: "nat \<rightharpoonup> session_state"
  lastWriteErrLog :: "int option"

definition newRTSPStreamHandler :: "string \<Rightarrow> stream_handler" where
  "newRTSPStreamHandler path = \<lparr>shPath = trim_prefix_slash path, attached = False, shStream = None, clients = {},
     extras = [], mirrors = [], lastInterest = None, shSent = []\<rparr>"

definition newRTSPTalkPublisher :: "string \<Rightarrow> talk_publisher" where
  "newRTSPTalkPublisher path = \<lparr>tpPath = trim_prefix_slash path, tpActive = None, tpStream = False\<rparr>"

definition newRTSPServerHandler :: rtsp where
  "newRTSPServerHandler = \<lparr>rsStreams = [], rsTalks = [], rsTalkSDP = [], handlers = (\<lambda>_. newRTSPStreamHandler []),
     publishers = (\<lambda>_. newRTSPTalkPublisher []),
     bridges = (\<lambda>_. \<lparr>tbPublisher = 0, tbPath = [], cancelled = True, refs = 0, pcmQueue = []\<rparr>),
     nextBridge = 0, pipelines = [], sessions = Map.empty, lastWriteErrLog = None\<rparr>"

section \<open>The tables\<close>

definition addStream :: "string \<Rightarrow> nat \<Rightarrow> rtsp \<Rightarrow> rtsp" where
  "addStream path h w = w\<lparr>rsStreams := AList.update (trim_prefix_slash path) h (rsStreams w)\<rparr>"

definition addTalk :: "string \<Rightarrow> nat \<Rightarrow> rtsp \<Rightarrow> rtsp" where
  "addTalk path p w =
     (let path = trim_prefix_slash path
      in w\<lparr>rsTalks := AList.update path p (rsTalks w), rsTalkSDP := AList.update path p (rsTalkSDP w)\<rparr>)"

definition addTalkAlias :: "string \<Rightarrow> nat \<Rightarrow> rtsp \<Rightarrow> rtsp" where
  "addTalkAlias path p w = w\<lparr>rsTalks := AList.update (trim_prefix_slash path) p (rsTalks w)\<rparr>"

definition removePaths :: "string list \<Rightarrow> rtsp \<Rightarrow> rtsp" where
  "removePaths paths w =
     fold (\<lambda>path w. let path = trim_prefix_slash path in
       w\<lparr>rsStreams := AList.delete path (rsStreams w), rsTalks := AList.delete path (rsTalks w),
         rsTalkSDP := AList.delete path (rsTalkSDP w)\<rparr>) paths w"

definition search :: "string \<Rightarrow> (string \<times> nat) list \<Rightarrow> nat option" where
  "search path table = map_option snd (find (\<lambda>(p, x). samePath path p) table)"

definition getStream :: "string \<Rightarrow> rtsp \<Rightarrow> nat option" where
  "getStream path w = search path (rsStreams w)"

definition getTalk :: "string \<Rightarrow> rtsp \<Rightarrow> nat option" where
  "getTalk path w = search path (rsTalks w)"

definition getTalkSDP :: "string \<Rightarrow> rtsp \<Rightarrow> nat option" where
  "getTalkSDP path w = search path (rsTalkSDP w)"

interpretation stream_table: keyed_registry "\<lambda>w. map_of (rsStreams w)"
  "\<lambda>k v w. w\<lparr>rsStreams := AList.update k v (rsStreams w)\<rparr>" "\<lambda>k w. w\<lparr>rsStreams := AList.delete k (rsStreams w)\<rparr>"
  by unfold_locales (auto simp: update_conv' delete_conv')

section \<open>The stream handlers\<close>

abbreviation upd_handler :: "nat \<Rightarrow> (stream_handler \<Rightarrow> stream_handler) \<Rightarrow> rtsp \<Rightarrow> rtsp" where
  "upd_handler h f w \<equiv> w\<lparr>handlers := (handlers w)(h := f (handlers w h))\<rparr>"

definition attachServer :: "nat \<Rightarrow> rtsp \<Rightarrow> rtsp" where
  "attachServer h = upd_handler h (\<lambda>s. s\<lparr>attached := True\<rparr>)"

definition somes :: "'a option list \<Rightarrow> 'a list" where
  "somes ms = List.map_filter (\<lambda>m. m) ms"

definition setExtraMedias :: "nat option list \<Rightarrow> nat \<Rightarrow> rtsp \<Rightarrow> rtsp" where
  "setExtraMedias ms h = upd_handler h (\<lambda>s. s\<lparr>extras := somes ms\<rparr>)"

definition addMirror :: "nat option \<Rightarrow> nat \<Rightarrow> rtsp \<Rightarrow> rtsp" where
  "addMirror m h w = (case m of None \<Rightarrow> w | Some m \<Rightarrow> upd_handler h (\<lambda>s. s\<lparr>mirrors := mirrors s @ [m]\<rparr>) w)"

definition handler_ready :: "nat \<Rightarrow> rtsp \<Rightarrow> bool" where
  "handler_ready h w = (shStream (handlers w h) \<noteq> None)"

definition addClient :: "nat \<Rightarrow> nat \<Rightarrow> rtsp \<Rightarrow> rtsp" where
  "addClient s h = upd_handler h (\<lambda>sh. sh\<lparr>clients := insert s (clients sh)\<rparr>)"

definition removeClient :: "nat \<Rightarrow> nat \<Rightarrow> rtsp \<Rightarrow> rtsp" where
  "removeClient s h = upd_handler h (\<lambda>sh. sh\<lparr>clients := clients sh - {s}\<rparr>)"

definition touchInterest :: "int \<Rightarrow> nat \<Rightarrow> rtsp \<Rightarrow> rtsp" where
  "touchInterest now h = upd_handler h (\<lambda>sh. sh\<lparr>lastInterest := Some now\<rparr>)"

text \<open>
  The recursions over the mirrors: the handlers still to visit are a work list, first the handler's
  own mirrors. A cycle of mirrors would not return.
\<close>

partial_function (option) any_handler :: "(stream_handler \<Rightarrow> bool) \<Rightarrow> rtsp \<Rightarrow> nat list \<Rightarrow> bool option" where
  "any_handler P w todo =
     (case todo of
        [] \<Rightarrow> Some False
      | h # hs \<Rightarrow> if P (handlers w h) then Some True else any_handler P w (mirrors (handlers w h) @ hs))"

definition hasClients :: "nat \<Rightarrow> rtsp \<Rightarrow> bool option" where
  "hasClients h w = any_handler (\<lambda>sh. clients sh \<noteq> {}) w [h]"

definition interestedSince :: "int \<Rightarrow> nat \<Rightarrow> rtsp \<Rightarrow> bool option" where
  "interestedSince t h w =
     any_handler (\<lambda>sh. case lastInterest sh of None \<Rightarrow> False | Some i \<Rightarrow> t < i) w [h]"

datatype ready_error = NotAttached | NoMedia | InitFailed

text \<open>\<open>init h\<close> is whether the library's \<^verbatim>\<open>Initialize\<close> succeeds for handler \<open>h\<close>.\<close>

definition ready_own :: "(nat \<Rightarrow> bool) \<Rightarrow> nat option list \<Rightarrow> nat \<Rightarrow> rtsp \<Rightarrow> ready_error + rtsp" where
  "ready_own init ms h w =
     (let sh = handlers w h in
      if \<not> attached sh then Inl NotAttached
      else if shStream sh = None then
        (let filtered = somes ms @ extras sh in
         if filtered = [] then Inl NoMedia
         else if \<not> init h then Inl InitFailed
         else Inr (upd_handler h (\<lambda>sh. sh\<lparr>shStream := Some filtered\<rparr>) w))
      else Inr w)"

partial_function (option) setReady_list ::
  "(nat \<Rightarrow> bool) \<Rightarrow> nat option list \<Rightarrow> nat list \<Rightarrow> rtsp \<Rightarrow> (ready_error option \<times> rtsp) option" where
  "setReady_list init ms todo w =
     (case todo of
        [] \<Rightarrow> Some (None, w)
      | h # hs \<Rightarrow>
          (case ready_own init ms h w of
             Inl e \<Rightarrow> Some (Some e, w)
           | Inr w' \<Rightarrow> setReady_list init ms (mirrors (handlers w h) @ hs) w'))"

definition setReady :: "(nat \<Rightarrow> bool) \<Rightarrow> nat option list \<Rightarrow> nat \<Rightarrow> rtsp \<Rightarrow> (ready_error option \<times> rtsp) option" where
  "setReady init ms h w = setReady_list init ms [h] w"

partial_function (option) reset_list :: "nat list \<Rightarrow> rtsp \<Rightarrow> rtsp option" where
  "reset_list todo w =
     (case todo of
        [] \<Rightarrow> Some w
      | h # hs \<Rightarrow> reset_list (mirrors (handlers w h) @ hs) (upd_handler h (\<lambda>sh. sh\<lparr>shStream := None\<rparr>) w))"

definition reset :: "nat \<Rightarrow> rtsp \<Rightarrow> rtsp option" where
  "reset h w = reset_list [h] w"

definition write_own :: "nat \<Rightarrow> rtp_packet \<Rightarrow> nat \<Rightarrow> rtsp \<Rightarrow> rtsp" where
  "write_own m pkt h w =
     (case shStream (handlers w h) of
        Some ms \<Rightarrow> if m \<in> set ms then upd_handler h (\<lambda>sh. sh\<lparr>shSent := (m, pkt) # shSent sh\<rparr>) w else w
      | None \<Rightarrow> w)"

partial_function (option) write_list :: "nat \<Rightarrow> rtp_packet \<Rightarrow> nat list \<Rightarrow> rtsp \<Rightarrow> rtsp option" where
  "write_list m pkt todo w =
     (case todo of
        [] \<Rightarrow> Some w
      | h # hs \<Rightarrow> write_list m pkt (mirrors (handlers w h) @ hs) (write_own m pkt h w))"

definition writePacket :: "nat \<Rightarrow> rtp_packet \<Rightarrow> nat \<Rightarrow> rtsp \<Rightarrow> rtsp option" where
  "writePacket m pkt h w = write_list m pkt [h] w"

section \<open>The talk bridge of a camera\<close>

text \<open>What the RTSP library says of a session.\<close>

record session_info =
  siAnnounced :: "sdp_media list option"
  siRecording :: bool
  siMedias :: "sdp_media list"

definition newDedicatedTalkMedia :: sdp_media where
  "newDedicatedTalkMedia = \<lparr>isAudio = True, isBackChannel = False, Formats = [G711 True 1 8000, G711 False 1 8000]\<rparr>"

definition newBackChannelMedia :: sdp_media where
  "newBackChannelMedia = newDedicatedTalkMedia\<lparr>isBackChannel := True\<rparr>"

definition fresh_session :: session_state where
  "fresh_session = \<lparr>ssStream = None, playing = False, ssTalk = None, ssInputs = []\<rparr>"

definition attachSessionState :: "nat \<Rightarrow> rtsp \<Rightarrow> session_state \<times> rtsp" where
  "attachSessionState s w =
     (case sessions w s of
        Some st \<Rightarrow> (st, w)
      | None \<Rightarrow> (fresh_session, w\<lparr>sessions := (sessions w)(s \<mapsto> fresh_session)\<rparr>))"

abbreviation put_session :: "nat \<Rightarrow> session_state \<Rightarrow> rtsp \<Rightarrow> rtsp" where
  "put_session s st w \<equiv> w\<lparr>sessions := (sessions w)(s \<mapsto> st)\<rparr>"

abbreviation upd_bridge :: "nat \<Rightarrow> (talk_bridge \<Rightarrow> talk_bridge) \<Rightarrow> rtsp \<Rightarrow> rtsp" where
  "upd_bridge b f w \<equiv> w\<lparr>bridges := (bridges w)(b := f (bridges w b))\<rparr>"

abbreviation upd_publisher :: "nat \<Rightarrow> (talk_publisher \<Rightarrow> talk_publisher) \<Rightarrow> rtsp \<Rightarrow> rtsp" where
  "upd_publisher p f w \<equiv> w\<lparr>publishers := (publishers w)(p := f (publishers w p))\<rparr>"

definition attachSessionToStream :: "nat \<Rightarrow> nat \<Rightarrow> rtsp \<Rightarrow> session_state \<times> rtsp" where
  "attachSessionToStream s h w =
     (case attachSessionState s w of (st, w) \<Rightarrow> let st = st\<lparr>ssStream := Some h\<rparr> in (st, put_session s st w))"

definition finish :: "nat \<Rightarrow> rtsp \<Rightarrow> rtsp" where
  "finish b w =
     (let p = tbPublisher (bridges w b)
      in if tpActive (publishers w p) = Some b then upd_publisher p (\<lambda>pub. pub\<lparr>tpActive := None\<rparr>) w else w)"

text \<open>\<^verbatim>\<open>rtspTalkSessionState.close\<close>, which acts once.\<close>

definition bridge_close :: "nat \<Rightarrow> rtsp \<Rightarrow> rtsp" where
  "bridge_close b w =
     (if cancelled (bridges w b) then w else upd_bridge b (\<lambda>tb. tb\<lparr>cancelled := True\<rparr>) (finish b w))"

definition talk_describe :: "bool \<Rightarrow> nat \<Rightarrow> rtsp \<Rightarrow> bool \<times> rtsp" where
  "talk_describe init p w =
     (if tpStream (publishers w p) then (True, w)
      else if init then (True, upd_publisher p (\<lambda>pub. pub\<lparr>tpStream := True\<rparr>) w)
      else (False, w))"

text \<open>\<open>p.active\<close> with a fresh bridge when there is none that lives; whether this call made it.\<close>

definition live_bridge :: "nat \<Rightarrow> rtsp \<Rightarrow> nat \<times> bool \<times> rtsp" where
  "live_bridge p w =
     (let w = (case tpActive (publishers w p) of
                 Some b \<Rightarrow> if cancelled (bridges w b) then upd_publisher p (\<lambda>pub. pub\<lparr>tpActive := None\<rparr>) w else w
               | None \<Rightarrow> w)
      in case tpActive (publishers w p) of
           Some b \<Rightarrow> (b, False, w)
         | None \<Rightarrow>
             let b = nextBridge w
             in (b, True, (upd_publisher p (\<lambda>pub. pub\<lparr>tpActive := Some b\<rparr>)
                  (upd_bridge b (\<lambda>_. \<lparr>tbPublisher = p, tbPath = [], cancelled = False, refs = 0, pcmQueue = []\<rparr>) w))
                    \<lparr>nextBridge := b + 1\<rparr>))"

definition has_talk :: "session_state \<Rightarrow> nat \<Rightarrow> rtsp \<Rightarrow> bool" where
  "has_talk st p w = (case ssTalk st of Some b \<Rightarrow> tbPublisher (bridges w b) = p | None \<Rightarrow> False)"

text \<open>The bridge the session is attached to, and whether this call made it.\<close>

definition ensureSessionState :: "nat \<Rightarrow> nat \<Rightarrow> rtsp \<Rightarrow> nat \<times> bool \<times> rtsp" where
  "ensureSessionState s p w =
     (case attachSessionState s w of (st, w) \<Rightarrow>
        if has_talk st p w then (the (ssTalk st), False, w)
        else case live_bridge p w of (b, created, w) \<Rightarrow>
          (b, created, put_session s (st\<lparr>ssTalk := Some b\<rparr>) (upd_bridge b (\<lambda>tb. tb\<lparr>refs := refs tb + 1\<rparr>) w)))"

text \<open>\<^verbatim>\<open>release\<close> has two parts, between which other sessions may run: the count, and the close. Here the
  two are composed as they are without such an interruption; \<^theory_text>\<open>TalkRelease\<close> takes them apart.\<close>

definition release_count :: "nat \<Rightarrow> rtsp \<Rightarrow> bool \<times> rtsp" where
  "release_count b w =
     (let w = upd_bridge b (\<lambda>tb. tb\<lparr>refs := refs tb - 1\<rparr>) w in (refs (bridges w b) \<le> 0, w))"

definition release :: "nat \<Rightarrow> rtsp \<Rightarrow> rtsp" where
  "release b w = (case release_count b w of (lst, w) \<Rightarrow> if lst then bridge_close b w else w)"

definition bindInputs :: "nat \<Rightarrow> talk_input list \<Rightarrow> nat \<Rightarrow> rtsp \<Rightarrow> talk_input option \<times> rtsp" where
  "bindInputs s inputs b w =
     (let st = the (sessions w s)
      in (case inputs of [] \<Rightarrow> None | i # is \<Rightarrow> Some i,
          put_session s (st\<lparr>ssInputs := fold (\<lambda>i. AList.update i b) inputs (ssInputs st)\<rparr>) w))"

text \<open>
  The callback bound to an input: a packet is decoded, scaled and queued for the bridge. What cannot
  be decoded, or decodes to nothing, is dropped.
\<close>

definition talk_packet :: "int \<Rightarrow> talk_input \<Rightarrow> bytes \<Rightarrow> nat \<Rightarrow> rtsp \<Rightarrow> rtsp" where
  "talk_packet volume input payload b w =
     (case decode_input input payload of
        Inl e \<Rightarrow> w
      | Inr pcm \<Rightarrow>
          if length pcm = 0 then w
          else let pcm = (if volume \<noteq> 100 then applyTalkVolume volume pcm else pcm)
               in upd_bridge b (\<lambda>tb. tb\<lparr>pcmQueue := enqueueTalkPCM (cancelled tb) pcm (pcmQueue tb)\<rparr>) w)"

datatype talk_error = NoTalkInput | TalkInput input_error

text \<open>A bridge that is made gets its pipeline; \<open>pipelines\<close> are those running.\<close>

definition startBridge :: "nat \<Rightarrow> string \<Rightarrow> talk_input list \<Rightarrow> nat \<Rightarrow> rtsp \<Rightarrow> talk_error option \<times> rtsp" where
  "startBridge s path inputs p w =
     (case attachSessionState s w of (st, w) \<Rightarrow>
        if has_talk st p w then (None, w)
        else case ensureSessionState s p w of (b, created, w) \<Rightarrow>
          (case bindInputs s inputs b w of (primary, w) \<Rightarrow>
             if primary = None then (Some NoTalkInput, w)
             else if \<not> created then (None, w)
             else (None, (upd_bridge b (\<lambda>tb. tb\<lparr>tbPath := trim_prefix_slash path\<rparr>) w)
                     \<lparr>pipelines := b # pipelines w\<rparr>)))"

text \<open>The end of the pipeline's goroutine, its deferred calls in their order.\<close>

definition pipeline_end :: "nat \<Rightarrow> rtsp \<Rightarrow> rtsp" where
  "pipeline_end b w = finish b (bridge_close b (w\<lparr>pipelines := remove1 b (pipelines w)\<rparr>))"

definition startBackChannel :: "nat \<Rightarrow> string \<Rightarrow> session_info \<Rightarrow> nat \<Rightarrow> rtsp \<Rightarrow> talk_error option \<times> rtsp" where
  "startBackChannel s path si p w =
     (case selectBackChannelInputs (siMedias si) of
        Inl e \<Rightarrow> (Some (TalkInput e), w)
      | Inr inputs \<Rightarrow> startBridge s path inputs p w)"

section \<open>The handlers\<close>

datatype rtsp_status = RtspOK | RtspNotFound | RtspBadRequest | RtspUnavailable

datatype served = NoServed | ServedStream "nat list" | ServedTalk nat

record rtsp_response =
  rrStatus :: rtsp_status
  rrRequire :: bool
  rrServed :: served
  rrError :: bool

abbreviation "plain_response st err \<equiv> \<lparr>rrStatus = st, rrRequire = False, rrServed = NoServed, rrError = err\<rparr>"

definition shouldUseTalkSetup :: "session_info \<Rightarrow> bool" where
  "shouldUseTalkSetup si = (siAnnounced si \<noteq> None \<or> siRecording si)"

definition sessionHasBackChannel :: "session_info \<Rightarrow> bool" where
  "sessionHasBackChannel si = list_ex (\<lambda>m. isAudio m \<and> isBackChannel m) (siMedias si)"

definition talk_announce :: "sdp_media list option \<Rightarrow> rtsp_response" where
  "talk_announce desc = (case selectTalkInput desc of
     Inl e \<Rightarrow> plain_response RtspBadRequest True | Inr i \<Rightarrow> plain_response RtspOK False)"

definition talk_record :: "nat \<Rightarrow> session_info \<Rightarrow> string \<Rightarrow> nat \<Rightarrow> rtsp \<Rightarrow> rtsp_response \<times> rtsp" where
  "talk_record s si path p w =
     (let desc = (if siAnnounced si = None \<and> tpStream (publishers w p) then Some [newDedicatedTalkMedia]
                  else siAnnounced si)
      in case selectTalkInput desc of
           Inl e \<Rightarrow> (plain_response RtspBadRequest True, w)
         | Inr input \<Rightarrow>
             (case startBridge s path [input] p w of
                (Some e, w) \<Rightarrow> (plain_response RtspBadRequest True, w)
              | (None, w) \<Rightarrow> (plain_response RtspOK False, w)))"

definition OnAnnounce :: "string \<Rightarrow> sdp_media list option \<Rightarrow> rtsp \<Rightarrow> rtsp_response" where
  "OnAnnounce path desc w =
     (case getTalk path w of None \<Rightarrow> plain_response RtspNotFound True | Some p \<Rightarrow> talk_announce desc)"

definition OnRecord :: "nat \<Rightarrow> session_info \<Rightarrow> string \<Rightarrow> rtsp \<Rightarrow> rtsp_response \<times> rtsp" where
  "OnRecord s si path w =
     (case getTalk path w of
        None \<Rightarrow> (plain_response RtspNotFound True, w)
      | Some p \<Rightarrow> talk_record s si path p w)"

text \<open>
  The wait for a stream: poll \<open>n\<close> happens at \<open>clock n\<close>, after \<open>others n\<close>, what the rest of the
  program did in the meantime. The polls are 100 ms apart, so 101 of them reach the deadline.
\<close>

fun wait_ready ::
  "nat \<Rightarrow> (nat \<Rightarrow> int) \<Rightarrow> (nat \<Rightarrow> rtsp \<Rightarrow> rtsp) \<Rightarrow> int \<Rightarrow> nat \<Rightarrow> nat \<Rightarrow> rtsp \<Rightarrow> nat list option \<times> rtsp" where
  "wait_ready 0 clock others deadline n h w = (None, w)"
| "wait_ready (Suc k) clock others deadline n h w =
     (let w = others n w in
      if clock n < deadline then
        (let w = touchInterest (clock n) h w in
         case shStream (handlers w h) of
           Some ms \<Rightarrow> (Some ms, w)
         | None \<Rightarrow> wait_ready k clock others deadline (Suc n) h w)
      else (None, w))"

definition readyTimeout :: int where "readyTimeout = 10 * sec"
definition maxPolls :: nat where "maxPolls = 101"

definition stream_response :: "string \<Rightarrow> nat list \<Rightarrow> rtsp_response" where
  "stream_response path ms =
     \<lparr>rrStatus = RtspOK, rrRequire = isTwoWayPath path, rrServed = ServedStream ms, rrError = False\<rparr>"

definition talk_response :: "bool \<Rightarrow> nat \<Rightarrow> rtsp \<Rightarrow> rtsp_response \<times> rtsp" where
  "talk_response init p w =
     (case talk_describe init p w of (ok, w) \<Rightarrow>
        (if ok then \<lparr>rrStatus = RtspOK, rrRequire = False, rrServed = ServedTalk p, rrError = False\<rparr>
         else plain_response RtspBadRequest True, w))"

definition OnDescribe ::
  "bool \<Rightarrow> (nat \<Rightarrow> int) \<Rightarrow> (nat \<Rightarrow> rtsp \<Rightarrow> rtsp) \<Rightarrow> int \<Rightarrow> string \<Rightarrow> rtsp \<Rightarrow> rtsp_response \<times> rtsp" where
  "OnDescribe init clock others now path w =
     (case getStream path w of
        Some h \<Rightarrow>
          (case wait_ready maxPolls clock others (now + readyTimeout) 0 h (touchInterest now h w) of
             (Some ms, w) \<Rightarrow> (stream_response path ms, w)
           | (None, w) \<Rightarrow> (plain_response RtspUnavailable True, w))
      | None \<Rightarrow>
          (case getTalkSDP path w of
             Some p \<Rightarrow> talk_response init p w
           | None \<Rightarrow> (plain_response RtspNotFound False, w)))"

definition setup_talk :: "bool \<Rightarrow> string \<Rightarrow> rtsp \<Rightarrow> rtsp_response \<times> rtsp" where
  "setup_talk init path w =
     (case getTalk path w of
        Some p \<Rightarrow> talk_response init p w
      | None \<Rightarrow> (plain_response RtspNotFound False, w))"

definition OnSetup ::
  "bool \<Rightarrow> (nat \<Rightarrow> int) \<Rightarrow> (nat \<Rightarrow> rtsp \<Rightarrow> rtsp) \<Rightarrow> int \<Rightarrow> nat \<Rightarrow> session_info \<Rightarrow> string \<Rightarrow> rtsp \<Rightarrow>
   rtsp_response \<times> rtsp" where
  "OnSetup init clock others now s si path w =
     (if shouldUseTalkSetup si \<and> getTalk path w \<noteq> None then (plain_response RtspOK False, w)
      else case getStream path w of
        Some h \<Rightarrow>
          (case attachSessionToStream s h w of (_, w) \<Rightarrow>
             (case wait_ready maxPolls clock others (now + readyTimeout) 0 h (touchInterest now h w) of
                (Some ms, w) \<Rightarrow> (stream_response path ms, w)
              | (None, w) \<Rightarrow>
                  if getTalk path w = None then (plain_response RtspUnavailable True, w)
                  else setup_talk init path w))
      | None \<Rightarrow> setup_talk init path w)"

definition OnPlay :: "nat \<Rightarrow> session_info \<Rightarrow> string \<Rightarrow> rtsp \<Rightarrow> rtsp_response \<times> rtsp" where
  "OnPlay s si path w =
     (case getStream path w of
        None \<Rightarrow> (plain_response (if getTalk path w \<noteq> None then RtspBadRequest else RtspNotFound) True, w)
      | Some h \<Rightarrow>
          (case attachSessionToStream s h w of (st, w) \<Rightarrow>
             let w = (if playing st then w else put_session s (st\<lparr>playing := True\<rparr>) (addClient s h w));
                 w = (case getTalk path w of
                        Some p \<Rightarrow> if sessionHasBackChannel si then snd (startBackChannel s path si p w) else w
                      | None \<Rightarrow> w)
             in (plain_response RtspOK False, w)))"

text \<open>Letting go of a bridge, as \<^verbatim>\<open>OnPause\<close> and \<^verbatim>\<open>OnSessionClose\<close> do, and of a stream.\<close>

definition drop_talk :: "nat \<Rightarrow> session_state \<Rightarrow> rtsp \<Rightarrow> session_state \<times> rtsp" where
  "drop_talk s st w =
     (case ssTalk st of
        None \<Rightarrow> (st, w)
      | Some b \<Rightarrow> let st = st\<lparr>ssTalk := None\<rparr> in (st, put_session s st (release b w)))"

definition drop_stream :: "nat \<Rightarrow> session_state \<Rightarrow> rtsp \<Rightarrow> session_state \<times> rtsp" where
  "drop_stream s st w =
     (case ssStream st of
        Some h \<Rightarrow> if playing st then let st = st\<lparr>playing := False\<rparr> in (st, put_session s st (removeClient s h w))
                  else (st, w)
      | None \<Rightarrow> (st, w))"

definition OnPause :: "nat \<Rightarrow> rtsp \<Rightarrow> rtsp_response \<times> rtsp" where
  "OnPause s w =
     (case sessions w s of
        None \<Rightarrow> (plain_response RtspNotFound True, w)
      | Some st \<Rightarrow>
          let hadTalk = (ssTalk st \<noteq> None) in
          (case drop_talk s st w of (st, w) \<Rightarrow>
             if hadTalk \<and> ssStream st = None then (plain_response RtspOK False, w)
             else if ssStream st = None then (plain_response RtspNotFound True, w)
             else (plain_response RtspOK False, snd (drop_stream s st w))))"

definition OnSessionClose :: "nat \<Rightarrow> rtsp \<Rightarrow> rtsp" where
  "OnSessionClose s w =
     (case sessions w s of
        None \<Rightarrow> w
      | Some st \<Rightarrow> (case drop_stream s st w of (st, w) \<Rightarrow> snd (drop_talk s st w)))"

definition OnStreamWriteError :: "int \<Rightarrow> rtsp \<Rightarrow> bool \<times> rtsp" where
  "OnStreamWriteError now w =
     (case lastWriteErrLog w of
        Some t \<Rightarrow> if now - t < 60 * sec then (False, w) else (True, w\<lparr>lastWriteErrLog := Some now\<rparr>)
      | None \<Rightarrow> (True, w\<lparr>lastWriteErrLog := Some now\<rparr>))"

section \<open>Runs of the server\<close>

text \<open>
  What the RTSP library promises (a session is set up again only while it does not play, and keeps to
  its path) and what the bridge does to objects no session has reached yet. The handlers' waits are
  sequences of such steps. A handler is one step here; how the handlers of several talking sessions interleave,
  between the count and the close of a \<^verbatim>\<open>release\<close> too, is the matter of \<^theory_text>\<open>TalkRelease\<close>.
\<close>

definition session_of :: "nat \<Rightarrow> rtsp \<Rightarrow> session_state" where
  "session_of s w = (case sessions w s of Some st \<Rightarrow> st | None \<Rightarrow> fresh_session)"

definition same_camera :: "nat \<Rightarrow> string \<Rightarrow> rtsp \<Rightarrow> bool" where
  "same_camera s path w =
     (case (ssTalk (session_of s w), getTalk path w) of
        (Some b, Some p) \<Rightarrow> tbPublisher (bridges w b) = p
      | _ \<Rightarrow> True)"

definition same_stream :: "nat \<Rightarrow> string \<Rightarrow> rtsp \<Rightarrow> bool" where
  "same_stream s path w = (playing (session_of s w) \<longrightarrow> getStream path w = ssStream (session_of s w))"

inductive rtsp_step :: "rtsp \<Rightarrow> rtsp \<Rightarrow> bool" where
  step_attach: "\<not> playing (session_of s w) \<Longrightarrow> rtsp_step w (snd (attachSessionToStream s h w))"
| step_touch: "rtsp_step w (touchInterest now h w)"
| step_describe: "rtsp_step w (snd (talk_describe init p w))"
| step_play: "same_stream s path w \<Longrightarrow> same_camera s path w \<Longrightarrow> rtsp_step w (snd (OnPlay s si path w))"
| step_record: "same_camera s path w \<Longrightarrow> rtsp_step w (snd (OnRecord s si path w))"
| step_pause: "rtsp_step w (snd (OnPause s w))"
| step_close: "rtsp_step w (OnSessionClose s w)"
| step_pipeline_end: "b \<in> set (pipelines w) \<Longrightarrow> rtsp_step w (pipeline_end b w)"
| step_talk_packet: "rtsp_step w (talk_packet volume input payload b w)"
| step_ready: "setReady init ms h w = Some (e, w') \<Longrightarrow> rtsp_step w w'"
| step_reset: "reset h w = Some w' \<Longrightarrow> rtsp_step w w'"
| step_write: "writePacket m pkt h w = Some w' \<Longrightarrow> rtsp_step w w'"
| step_stream_path: "rtsp_step w (addStream path h w)"
| step_talk_path: "rtsp_step w (addTalk path p w)"
| step_talk_alias: "rtsp_step w (addTalkAlias path p w)"
| step_remove: "rtsp_step w (removePaths paths w)"
| step_server: "rtsp_step w (attachServer h w)"
| step_extras: "rtsp_step w (setExtraMedias xs h w)"
| step_mirror: "rtsp_step w (addMirror m h w)"

definition rtsp_reachable :: "rtsp \<Rightarrow> rtsp \<Rightarrow> bool" where
  "rtsp_reachable = rtsp_step\<^sup>*\<^sup>*"

text \<open>Who plays a stream and who feeds a bridge, read off the sessions.\<close>

definition who :: "(session_state \<Rightarrow> bool) \<Rightarrow> (nat \<rightharpoonup> session_state) \<Rightarrow> nat set" where
  "who P S = {s. \<exists>st. S s = Some st \<and> P st}"

abbreviation viewers :: "rtsp \<Rightarrow> nat \<Rightarrow> nat set" where
  "viewers w h \<equiv> who (\<lambda>st. ssStream st = Some h \<and> playing st) (sessions w)"

abbreviation talkers :: "rtsp \<Rightarrow> nat \<Rightarrow> nat set" where
  "talkers w b \<equiv> who (\<lambda>st. ssTalk st = Some b) (sessions w)"

definition clients_inv :: "rtsp \<Rightarrow> bool" where
  "clients_inv w = (\<forall>h. clients (handlers w h) = viewers w h)"

definition talk_inv :: "rtsp \<Rightarrow> bool" where
  "talk_inv w = (finite (dom (sessions w)) \<and>
     (\<forall>b. refs (bridges w b) = int (card (talkers w b))) \<and>
     (\<forall>b. talkers w b \<noteq> {} \<longrightarrow> b < nextBridge w) \<and>
     (\<forall>b. \<not> cancelled (bridges w b) \<longrightarrow>
        talkers w b \<noteq> {} \<and> b \<in> set (pipelines w) \<and> tpActive (publishers w (tbPublisher (bridges w b))) = Some b) \<and>
     (\<forall>p b. tpActive (publishers w p) = Some b \<longrightarrow> tbPublisher (bridges w b) = p \<and> \<not> cancelled (bridges w b)) \<and>
     distinct (pipelines w) \<and> (\<forall>b \<in> set (pipelines w). b < nextBridge w))"

lemma who_upd [simp]: "who P (S(s \<mapsto> st)) = (if P st then insert s (who P S) else who P S - {s})"
  by (auto simp: who_def)

text \<open>Steps that touch none of what the invariants speak of.\<close>

definition same_core :: "rtsp \<Rightarrow> rtsp \<Rightarrow> bool" where
  "same_core w w' = ((\<forall>h. clients (handlers w' h) = clients (handlers w h)) \<and> sessions w' = sessions w
     \<and> bridges w' = bridges w \<and> (\<forall>p. tpActive (publishers w' p) = tpActive (publishers w p))
     \<and> nextBridge w' = nextBridge w \<and> pipelines w' = pipelines w)"

lemma same_core_refl [simp]: "same_core w w"
  by (simp add: same_core_def)

lemma same_core_trans: "same_core u v \<Longrightarrow> same_core v w \<Longrightarrow> same_core u w"
  by (simp add: same_core_def)

lemma same_core_inv: "same_core w w' \<Longrightarrow> clients_inv w' = clients_inv w \<and> talk_inv w' = talk_inv w"
  by (simp add: same_core_def clients_inv_def talk_inv_def)

lemma same_core_handler: "(\<And>sh. clients (f sh) = clients sh) \<Longrightarrow> same_core w (upd_handler h f w)"
  by (simp add: same_core_def)

lemma ready_own_core: "ready_own init ms h w = Inr w' \<Longrightarrow> same_core w w'"
  by (auto simp: ready_own_def Let_def same_core_def split: if_splits)

lemma setReady_core:
  assumes "setReady_list init ms todo w = Some r"
  shows "same_core w (snd r)"
proof (rule setReady_list.raw_induct [where P = "\<lambda>init ms todo w r. same_core w (snd r)", OF _ assms])
  fix rec init ms todo w r
  assume IH: "\<And>init ms todo w r. rec init ms todo w = Some r \<Longrightarrow> same_core w (snd r)"
    and body: "(case todo of [] \<Rightarrow> Some (None, w)
      | h # hs \<Rightarrow> (case ready_own init ms h w of Inl e \<Rightarrow> Some (Some e, w)
          | Inr w' \<Rightarrow> rec init ms (mirrors (handlers w h) @ hs) w')) = Some r"
  show "same_core w (snd r)"
    using body by (auto split: list.splits sum.splits dest!: IH ready_own_core intro: same_core_trans)
qed

lemma reset_core:
  assumes "reset_list todo w = Some w'"
  shows "same_core w w'"
proof (rule reset_list.raw_induct [where P = "\<lambda>todo w w'. same_core w w'", OF _ assms])
  fix rec todo w w'
  assume IH: "\<And>todo w w'. rec todo w = Some w' \<Longrightarrow> same_core w w'"
    and body: "(case todo of [] \<Rightarrow> Some w
      | h # hs \<Rightarrow> rec (mirrors (handlers w h) @ hs) (upd_handler h (\<lambda>sh. sh\<lparr>shStream := None\<rparr>) w)) = Some w'"
  have own: "same_core w (upd_handler h (\<lambda>sh. sh\<lparr>shStream := None\<rparr>) w)" for h
    by (rule same_core_handler) simp
  show "same_core w w'"
    using body by (cases todo) (auto dest!: IH intro: same_core_trans [OF own])
qed

lemma write_core:
  assumes "write_list m pkt todo w = Some w'"
  shows "same_core w w'"
proof (rule write_list.raw_induct [where P = "\<lambda>m pkt todo w w'. same_core w w'", OF _ assms])
  fix rec m pkt todo w w'
  assume IH: "\<And>m pkt todo w w'. rec m pkt todo w = Some w' \<Longrightarrow> same_core w w'"
    and body: "(case todo of [] \<Rightarrow> Some w
      | h # hs \<Rightarrow> rec m pkt (mirrors (handlers w h) @ hs) (write_own m pkt h w)) = Some w'"
  have own: "same_core w (write_own m pkt h w)" for h
    by (auto simp: write_own_def same_core_def split: option.splits)
  show "same_core w w'"
    using body by (cases todo) (auto dest!: IH intro: same_core_trans [OF own])
qed

lemma removePaths_core: "same_core w (removePaths paths w)"
  unfolding removePaths_def
  by (induction paths arbitrary: w) (auto simp: Let_def intro: same_core_trans simp: same_core_def)

section \<open>What the handlers do to the invariants\<close>

lemma attachSessionState_eq:
  "attachSessionState s w = (session_of s w, put_session s (session_of s w) w)"
  by (auto simp: attachSessionState_def session_of_def fun_upd_idem split: option.splits)

lemma viewers_session: "s \<in> viewers w h \<longleftrightarrow> ssStream (session_of s w) = Some h \<and> playing (session_of s w)"
  by (auto simp: who_def session_of_def fresh_session_def split: option.splits)

lemma talkers_session: "s \<in> talkers w b \<longleftrightarrow> ssTalk (session_of s w) = Some b"
  by (auto simp: who_def session_of_def fresh_session_def split: option.splits)

lemma clients_inv_put:
  assumes "clients_inv w"
    and "playing st = playing (session_of s w)" "playing st \<Longrightarrow> ssStream st = ssStream (session_of s w)"
  shows "clients_inv (put_session s st w)"
proof -
  have "(ssStream st = Some h \<and> playing st) = (s \<in> viewers w h)" for h
    using assms(2,3) by (auto simp: viewers_session)
  then have "viewers (put_session s st w) h = viewers w h" for h by (auto simp: insert_absorb)
  then show ?thesis using assms(1) by (simp add: clients_inv_def del: who_upd)
qed

lemma talk_inv_put:
  assumes "talk_inv w" "ssTalk st = ssTalk (session_of s w)"
  shows "talk_inv (put_session s st w)"
proof -
  have "talkers (put_session s st w) b = talkers w b" for b
    using assms(2) talkers_session [where s = s and w = w] by auto
  then show ?thesis using assms(1) by (simp add: talk_inv_def del: who_upd)
qed

lemma clients_inv_cong:
  "(\<And>h. clients (handlers w' h) = clients (handlers w h)) \<Longrightarrow> (\<And>h. viewers w' h = viewers w h) \<Longrightarrow>
   clients_inv w' = clients_inv w"
  by (simp add: clients_inv_def)

text \<open>What starting the talkback of a session comes to.\<close>

definition bound :: "session_state \<Rightarrow> talk_input list \<Rightarrow> nat \<Rightarrow> session_state" where
  "bound st inputs b = st\<lparr>ssTalk := Some b, ssInputs := fold (\<lambda>i. AList.update i b) inputs (ssInputs st)\<rparr>"

lemma startBridge_eq:
  assumes live: "\<And>b. tpActive (publishers w p) = Some b \<Longrightarrow> \<not> cancelled (bridges w b)"
    and ne: "inputs \<noteq> []" and "\<not> has_talk (session_of s w) p w"
  shows "startBridge s path inputs p w = (None,
    case tpActive (publishers w p) of
      Some b \<Rightarrow> put_session s (bound (session_of s w) inputs b) (upd_bridge b (\<lambda>tb. tb\<lparr>refs := refs tb + 1\<rparr>) w)
    | None \<Rightarrow>
        put_session s (bound (session_of s w) inputs (nextBridge w))
          (w\<lparr>publishers := (publishers w)(p := (publishers w p)\<lparr>tpActive := Some (nextBridge w)\<rparr>),
             bridges := (bridges w)(nextBridge w :=
               \<lparr>tbPublisher = p, tbPath = trim_prefix_slash path, cancelled = False, refs = 1, pcmQueue = []\<rparr>),
             nextBridge := nextBridge w + 1, pipelines := nextBridge w # pipelines w\<rparr>))"
proof -
  have ensure: "session_of s (put_session s (session_of s w) w) = session_of s w"
    by (simp add: session_of_def)
  obtain i rest where "inputs = i # rest" using ne by (cases inputs) auto
  then show ?thesis
    using assms(3) live
    by (auto simp: startBridge_def attachSessionState_eq ensure ensureSessionState_def live_bridge_def Let_def
      bindInputs_def bound_def has_talk_def split: option.splits if_splits)
qed

lemma talk_inv_live: "talk_inv w \<Longrightarrow> tpActive (publishers w p) = Some b \<Longrightarrow> \<not> cancelled (bridges w b)"
  by (auto simp: talk_inv_def)

lemma startBridge_has_talk:
  "has_talk (session_of s w) p w \<Longrightarrow> startBridge s path inputs p w = (None, put_session s (session_of s w) w)"
  by (auto simp: startBridge_def attachSessionState_eq has_talk_def split: option.splits)

lemma selectBackChannelInputs_nonempty: "selectBackChannelInputs ms = Inr inputs \<Longrightarrow> inputs \<noteq> []"
  by (auto simp: selectBackChannelInputs_def split: sum.splits if_splits list.splits)

lemma startBridge_clients:
  assumes "talk_inv w" "clients_inv w" "inputs \<noteq> []"
  shows "clients_inv (snd (startBridge s path inputs p w))"
proof (cases "has_talk (session_of s w) p w")
  case True
  then show ?thesis by (simp add: startBridge_has_talk clients_inv_put assms)
next
  case False
  have "viewers (put_session s (bound (session_of s w) inputs b) u) h = viewers u h"
    if "sessions u = sessions w" for b u h
  proof -
    have "session_of s u = session_of s w" using that by (simp add: session_of_def)
    then show ?thesis using viewers_session [where s = s and w = u] by (auto simp: bound_def)
  qed
  then show ?thesis
    using assms(2) by (simp add: startBridge_eq [OF talk_inv_live [OF assms(1)] assms(3) False] clients_inv_def del: who_upd split: option.split)
qed

lemma startBridge_talk:
  assumes inv: "talk_inv w" and "inputs \<noteq> []"
    and one: "case ssTalk (session_of s w) of Some b \<Rightarrow> tbPublisher (bridges w b) = p | None \<Rightarrow> True"
  shows "talk_inv (snd (startBridge s path inputs p w))"
proof (cases "has_talk (session_of s w) p w")
  case True
  then show ?thesis by (simp add: startBridge_has_talk talk_inv_put assms)
next
  case False
  then have none: "ssTalk (session_of s w) = None" using one by (auto simp: has_talk_def split: option.splits)
  have out: "s \<notin> talkers w b" for b by (simp add: talkers_session none)
  have fin: "finite (talkers w b)" for b
    using inv finite_subset [of "talkers w b" "dom (sessions w)"] by (auto simp: talk_inv_def who_def)
  have unused: "talkers w (nextBridge w) = {}" "nextBridge w \<notin> set (pipelines w)"
    using inv by (auto simp: talk_inv_def)
  have above: "tpActive (publishers w q) \<noteq> Some (nextBridge w)" for q
    using inv unused by (auto simp: talk_inv_def)
  show ?thesis
  proof (cases "tpActive (publishers w p)")
    case None
    let ?n = "nextBridge w" and ?w = "snd (startBridge s path inputs p w)"
    have t: "talkers ?w b = (if b = ?n then {s} else talkers w b)" for b
      using unused out by (simp add: startBridge_eq [OF talk_inv_live [OF inv] assms(2) False] None bound_def)
    have br: "bridges ?w = (bridges w)(?n := \<lparr>tbPublisher = p, tbPath = trim_prefix_slash path, cancelled = False, refs = 1, pcmQueue = []\<rparr>)"
      and act: "tpActive (publishers ?w q) = (if q = p then Some ?n else tpActive (publishers w q))"
      and next_b: "nextBridge ?w = Suc ?n" "pipelines ?w = ?n # pipelines w"
      and dom: "finite (dom (sessions ?w)) = finite (dom (sessions w))" for q
      by (simp_all add: startBridge_eq [OF talk_inv_live [OF inv] assms(2) False] None)
    show ?thesis
      unfolding talk_inv_def t br act next_b dom
      using inv unused above None by (auto simp: talk_inv_def less_Suc_eq)
  next
    case (Some b)
    let ?w = "snd (startBridge s path inputs p w)"
    have t: "talkers ?w b' = (if b' = b then insert s (talkers w b) else talkers w b')" for b'
      using out by (simp add: startBridge_eq [OF talk_inv_live [OF inv] assms(2) False] Some bound_def)
    have br: "bridges ?w = (bridges w)(b := (bridges w b)\<lparr>refs := refs (bridges w b) + 1\<rparr>)"
      and act: "publishers ?w = publishers w"
      and next_b: "nextBridge ?w = nextBridge w" "pipelines ?w = pipelines w"
      and dom: "finite (dom (sessions ?w)) = finite (dom (sessions w))"
      by (simp_all add: startBridge_eq [OF talk_inv_live [OF inv] assms(2) False] Some)
    have "b < nextBridge w" using inv Some by (auto simp: talk_inv_def)
    then show ?thesis
      unfolding talk_inv_def t br act next_b dom
      using inv out fin by (auto simp: talk_inv_def card_insert_if)
  qed
qed

lemma release_talk:
  assumes inv: "talk_inv w" and b: "ssTalk (session_of s w) = Some b" and st: "ssTalk st = None"
  shows "talk_inv (put_session s st (release b w))"
proof -
  have s: "s \<in> talkers w b" "\<And>b'. b' \<noteq> b \<Longrightarrow> s \<notin> talkers w b'" using b by (auto simp: talkers_session)
  have fin: "finite (talkers w b)"
    using inv finite_subset [of "talkers w b" "dom (sessions w)"] by (auto simp: talk_inv_def who_def)
  have refs: "refs (bridges w b) = int (card (talkers w b))" using inv by (simp add: talk_inv_def)
  have left: "refs (bridges w b) - 1 \<le> 0 \<longleftrightarrow> talkers w b - {s} = {}"
    using s fin refs card_gt_0_iff [of "talkers w b - {s}"] by (auto simp: card_Diff_singleton)
  have drop: "card (talkers w b - {s}) = card (talkers w b) - 1" "card (talkers w b) > 0"
    using s(1) fin by (auto simp: card_gt_0_iff)
  let ?w = "put_session s st (release b w)"
  have others: "talkers w b' - {s} = talkers w b'" if "b' \<noteq> b" for b' using s(2) that by blast
  have t: "talkers ?w b' = (if b' = b then talkers w b - {s} else talkers w b')" for b'
    using st others by (simp add: release_def release_count_def bridge_close_def finish_def Let_def)
  have same: "nextBridge ?w = nextBridge w" "pipelines ?w = pipelines w" "finite (dom (sessions ?w)) = finite (dom (sessions w))"
    by (simp_all add: release_def release_count_def bridge_close_def finish_def Let_def)
  show ?thesis
  proof (cases "talkers w b - {s} = {}")
    case False
    then have br: "bridges ?w = (bridges w)(b := (bridges w b)\<lparr>refs := refs (bridges w b) - 1\<rparr>)"
      and act: "publishers ?w = publishers w"
      using left by (simp_all add: release_def release_count_def)
    show ?thesis
      unfolding talk_inv_def t br act same using inv False drop refs by (auto simp: talk_inv_def)
  next
    case True
    then have br: "bridges ?w = (bridges w)(b := (bridges w b)\<lparr>refs := refs (bridges w b) - 1, cancelled := True\<rparr>)"
      and act: "tpActive (publishers ?w q) = (if tpActive (publishers w q) = Some b then None else tpActive (publishers w q))"
      for q
      using left inv by (auto simp: release_def release_count_def bridge_close_def finish_def Let_def talk_inv_def)
    show ?thesis
      unfolding talk_inv_def t br act same using inv True drop refs by (auto simp: talk_inv_def split: if_splits)
  qed
qed

definition rtsp_inv :: "rtsp \<Rightarrow> bool" where
  "rtsp_inv w = (clients_inv w \<and> talk_inv w)"

lemma release_simps [simp]:
  "handlers (release b w) = handlers w" "sessions (release b w) = sessions w"
  by (simp_all add: release_def release_count_def bridge_close_def finish_def Let_def)

lemma session_of_Some: "sessions w s = Some st \<Longrightarrow> session_of s w = st"
  by (simp add: session_of_def)

lemma drop_talk_inv:
  assumes "rtsp_inv w" "sessions w s = Some st" "drop_talk s st w = (st', w')"
  shows "rtsp_inv w' \<and> sessions w' s = Some st' \<and> ssStream st' = ssStream st \<and> playing st' = playing st"
proof (cases "ssTalk st")
  case None
  then show ?thesis using assms by (simp add: drop_talk_def)
next
  case (Some b)
  have st: "session_of s w = st" by (rule session_of_Some) (rule assms(2))
  have eq: "st' = st\<lparr>ssTalk := None\<rparr>" "w' = put_session s st' (release b w)"
    using assms(3) Some by (auto simp: drop_talk_def Let_def)
  have "talk_inv w'"
    unfolding eq(2) by (rule release_talk) (use assms(1) st Some eq(1) in \<open>simp_all add: rtsp_inv_def\<close>)
  moreover have "clients_inv w' = clients_inv (put_session s st' w)"
    by (simp add: eq(2) clients_inv_def del: who_upd)
  moreover have "clients_inv (put_session s st' w)"
    by (rule clients_inv_put) (use assms(1) st eq(1) in \<open>simp_all add: rtsp_inv_def\<close>)
  ultimately show ?thesis by (simp add: rtsp_inv_def eq)
qed

lemma drop_stream_inv:
  assumes "rtsp_inv w" "sessions w s = Some st" "drop_stream s st w = (st', w')"
  shows "rtsp_inv w' \<and> sessions w' s = Some st' \<and> ssTalk st' = ssTalk st"
proof (cases "ssStream st = None \<or> \<not> playing st")
  case True
  then show ?thesis using assms by (auto simp: drop_stream_def split: option.splits)
next
  case False
  then obtain h where h: "ssStream st = Some h" "playing st" by auto
  have st: "session_of s w = st" by (rule session_of_Some) (rule assms(2))
  have eq: "st' = st\<lparr>playing := False\<rparr>" "w' = put_session s st' (removeClient s h w)"
    using assms(3) h by (auto simp: drop_stream_def Let_def)
  have "talk_inv w' = talk_inv (put_session s st' w)"
    by (simp add: eq(2) removeClient_def talk_inv_def del: who_upd)
  moreover have "talk_inv (put_session s st' w)"
    by (rule talk_inv_put) (use assms(1) st eq(1) in \<open>simp_all add: rtsp_inv_def\<close>)
  moreover have "s \<notin> viewers w h'" if "h' \<noteq> h" for h'
    using viewers_session [where s = s and w = w] h st that by auto
  then have "clients_inv w'"
    using assms(1) by (auto simp: eq rtsp_inv_def clients_inv_def removeClient_def)
  ultimately show ?thesis by (simp add: rtsp_inv_def eq)
qed

lemma OnSessionClose_inv:
  assumes "rtsp_inv w"
  shows "rtsp_inv (OnSessionClose s w)"
proof (cases "sessions w s")
  case (Some st)
  obtain st' w' where u: "drop_stream s st w = (st', w')" by fastforce
  obtain st'' w'' where t: "drop_talk s st' w' = (st'', w'')" by fastforce
  have "rtsp_inv w'" "sessions w' s = Some st'" using drop_stream_inv [OF assms Some u] by auto
  then show ?thesis using drop_talk_inv [OF _ _ t] by (simp add: OnSessionClose_def Some t u)
qed (simp add: OnSessionClose_def assms)

lemma OnPause_inv:
  assumes "rtsp_inv w"
  shows "rtsp_inv (snd (OnPause s w))"
proof (cases "sessions w s")
  case (Some st)
  obtain st' w' where t: "drop_talk s st w = (st', w')" by fastforce
  obtain st'' w'' where u: "drop_stream s st' w' = (st'', w'')" by fastforce
  have "rtsp_inv w'" "sessions w' s = Some st'" using drop_talk_inv [OF assms Some t] by auto
  then show ?thesis using drop_stream_inv [OF _ _ u] by (auto simp: OnPause_def Some t u Let_def)
qed (simp add: OnPause_def assms)

lemma attach_inv:
  assumes "rtsp_inv w" "\<not> playing (session_of s w) \<or> ssStream (session_of s w) = Some h"
  shows "rtsp_inv (snd (attachSessionToStream s h w))"
proof -
  have eq: "snd (attachSessionToStream s h w) = put_session s ((session_of s w)\<lparr>ssStream := Some h\<rparr>) w"
    by (simp add: attachSessionToStream_def attachSessionState_eq Let_def)
  show ?thesis
    unfolding eq rtsp_inv_def
    by (intro conjI clients_inv_put talk_inv_put) (use assms in \<open>auto simp: rtsp_inv_def\<close>)
qed

lemma startBackChannel_inv:
  assumes "rtsp_inv w" "case ssTalk (session_of s w) of Some b \<Rightarrow> tbPublisher (bridges w b) = p | None \<Rightarrow> True"
  shows "rtsp_inv (snd (startBackChannel s path si p w))"
proof (cases "selectBackChannelInputs (siMedias si)")
  case (Inr inputs)
  then have "inputs \<noteq> []" by (rule selectBackChannelInputs_nonempty)
  then show ?thesis
    using assms startBridge_clients startBridge_talk by (simp add: startBackChannel_def Inr rtsp_inv_def)
qed (simp add: startBackChannel_def assms)

lemma OnPlay_inv:
  assumes inv: "rtsp_inv w" and ok: "same_stream s path w" "same_camera s path w"
  shows "rtsp_inv (snd (OnPlay s si path w))"
proof (cases "getStream path w")
  case (Some h)
  define st where "st = (session_of s w)\<lparr>ssStream := Some h\<rparr>"
  have attach: "attachSessionToStream s h w = (st, put_session s st w)"
    by (simp add: attachSessionToStream_def attachSessionState_eq Let_def st_def)
  define w2 where "w2 = (if playing st then put_session s st w
    else put_session s (st\<lparr>playing := True\<rparr>) (addClient s h w))"
  have play: "snd (OnPlay s si path w) = (case getTalk path w of
      Some p \<Rightarrow> if sessionHasBackChannel si then snd (startBackChannel s path si p w2) else w2 | None \<Rightarrow> w2)"
  proof -
    have w2: "(if playing st then put_session s st w
        else put_session s (st\<lparr>playing := True\<rparr>) (addClient s h (put_session s st w))) = w2"
      by (simp add: w2_def addClient_def)
    have "getTalk path w2 = getTalk path w" by (simp add: getTalk_def w2_def addClient_def)
    then show ?thesis by (simp only: OnPlay_def Some attach Let_def option.case prod.case snd_conv w2)
  qed
  have inv2: "rtsp_inv w2"
  proof (cases "playing st")
    case True
    then have "rtsp_inv (snd (attachSessionToStream s h w))"
      by (intro attach_inv inv) (use ok(1) Some in \<open>simp add: same_stream_def st_def\<close>)
    then show ?thesis using True by (simp add: attach w2_def)
  next
    case False
    let ?st = "st\<lparr>playing := True\<rparr>"
    have "talk_inv w2 = talk_inv (put_session s ?st w)"
      using False by (simp add: w2_def addClient_def talk_inv_def del: who_upd)
    moreover have "talk_inv (put_session s ?st w)"
      by (rule talk_inv_put) (use inv in \<open>simp_all add: rtsp_inv_def st_def\<close>)
    moreover have "s \<notin> viewers w h'" for h'
      using viewers_session [where s = s and w = w] False by (auto simp: st_def)
    then have "clients_inv w2"
      using False inv by (auto simp: w2_def st_def addClient_def rtsp_inv_def clients_inv_def)
    ultimately show ?thesis by (simp add: rtsp_inv_def)
  qed
  have "ssTalk (session_of s w2) = ssTalk (session_of s w)" "bridges w2 = bridges w"
    by (simp_all add: w2_def st_def session_of_def addClient_def)
  then have "case ssTalk (session_of s w2) of Some b \<Rightarrow> tbPublisher (bridges w2 b) = p | None \<Rightarrow> True"
    if "getTalk path w = Some p" for p
    using ok(2) that by (auto simp: same_camera_def split: option.splits)
  then show ?thesis
    using inv2 startBackChannel_inv [OF inv2] by (simp add: play split: option.split)
qed (simp add: OnPlay_def inv)

lemma OnRecord_inv:
  assumes inv: "rtsp_inv w" and ok: "same_camera s path w"
  shows "rtsp_inv (snd (OnRecord s si path w))"
proof (cases "getTalk path w")
  case (Some p)
  then have "case ssTalk (session_of s w) of Some b \<Rightarrow> tbPublisher (bridges w b) = p | None \<Rightarrow> True"
    using ok by (auto simp: same_camera_def split: option.splits)
  then have "rtsp_inv (snd (startBridge s path [i] p w))" for i
    using inv startBridge_clients startBridge_talk by (simp add: rtsp_inv_def)
  then show ?thesis
    using inv by (auto simp: OnRecord_def Some talk_record_def Let_def split: sum.splits prod.split option.split)
      (metis snd_conv)+
qed (simp add: OnRecord_def inv)

lemma finish_active:
  "tpActive (publishers (finish b w) p) =
     (if p = tbPublisher (bridges w b) \<and> tpActive (publishers w p) = Some b then None else tpActive (publishers w p))"
  "bridges (finish b w) = bridges w"
  by (auto simp: finish_def Let_def)

lemma close_active:
  "tpActive (publishers (bridge_close b w) p) =
     (if cancelled (bridges w b) then tpActive (publishers w p) else tpActive (publishers (finish b w) p))"
  "tbPublisher (bridges (bridge_close b w) b') = tbPublisher (bridges w b')"
  by (simp_all add: bridge_close_def finish_active)

lemma pipeline_end_inv:
  assumes "rtsp_inv w"
  shows "rtsp_inv (pipeline_end b w)"
proof -
  let ?w = "pipeline_end b w"
  have inv: "talk_inv w" "clients_inv w" using assms by (simp_all add: rtsp_inv_def)
  have s: "sessions ?w = sessions w" "handlers ?w = handlers w" "nextBridge ?w = nextBridge w"
    "pipelines ?w = remove1 b (pipelines w)"
    by (simp_all add: pipeline_end_def bridge_close_def finish_def Let_def)
  have "cancelled (bridges w b) \<Longrightarrow> (bridges w b)\<lparr>cancelled := True\<rparr> = bridges w b"
    by (cases "bridges w b") simp
  then have "cancelled (bridges w b) \<Longrightarrow> (bridges w)(b := (bridges w b)\<lparr>cancelled := True\<rparr>) = bridges w"
    by (metis fun_upd_triv)
  then have br: "bridges ?w = (bridges w)(b := (bridges w b)\<lparr>cancelled := True\<rparr>)"
    by (simp add: pipeline_end_def bridge_close_def finish_def Let_def)
  have owner: "tpActive (publishers w p) = Some b \<Longrightarrow> tbPublisher (bridges w b) = p \<and> \<not> cancelled (bridges w b)" for p
    using inv(1) by (simp add: talk_inv_def)
  have act: "tpActive (publishers ?w p) = (if tpActive (publishers w p) = Some b then None else tpActive (publishers w p))"
    for p
  proof (cases "tpActive (publishers w p) = Some b")
    case True
    then have "tbPublisher (bridges w b) = p" "\<not> cancelled (bridges w b)" using owner by simp_all
    then show ?thesis by (simp add: True pipeline_end_def close_active finish_active)
  next
    case False
    then show ?thesis by (simp add: pipeline_end_def close_active finish_active)
  qed
  have "talk_inv ?w"
    unfolding talk_inv_def br act s using inv(1) by (auto simp: talk_inv_def in_set_remove1)
  then show ?thesis using inv(2) by (simp add: rtsp_inv_def clients_inv_def s)
qed

lemma handler_core:
  "same_core w (touchInterest now h w)" "same_core w (attachServer h w)"
  "same_core w (setExtraMedias xs h w)" "same_core w (addMirror m h w)"
  unfolding touchInterest_def attachServer_def setExtraMedias_def
  by (simp_all add: same_core_handler addMirror_def split: option.split)

lemma table_core:
  "same_core w (addStream path h w)" "same_core w (addTalk path p w)" "same_core w (addTalkAlias path p w)"
  by (simp_all add: same_core_def addStream_def addTalk_def addTalkAlias_def Let_def)

lemma describe_core: "same_core w (snd (talk_describe init p w))"
  by (simp add: same_core_def talk_describe_def)

lemmas step_core = handler_core table_core describe_core

lemma talk_packet_inv: "rtsp_inv w \<Longrightarrow> rtsp_inv (talk_packet volume input payload b w)"
  by (simp add: talk_packet_def rtsp_inv_def clients_inv_def talk_inv_def Let_def split: sum.split)

lemma rtsp_step_inv:
  assumes "rtsp_step w w'" "rtsp_inv w"
  shows "rtsp_inv w'"
proof -
  have core: "same_core w w' \<Longrightarrow> rtsp_inv w'" using same_core_inv assms(2) by (simp add: rtsp_inv_def)
  show ?thesis
    using assms(1)
  proof cases
    case (step_ready init ms h e)
    then show ?thesis using setReady_core core by (fastforce simp: setReady_def)
  next
    case (step_reset h)
    then show ?thesis using reset_core core by (simp add: reset_def)
  next
    case (step_write m pkt h)
    then show ?thesis using write_core core by (simp add: writePacket_def)
  qed (use assms(2) core step_core removePaths_core attach_inv OnPlay_inv OnRecord_inv OnPause_inv
    OnSessionClose_inv pipeline_end_inv talk_packet_inv in simp_all)
qed

section \<open>Sessions, viewers and talk bridges\<close>

lemma rtsp_inv_new: "rtsp_inv newRTSPServerHandler"
  by (simp add: rtsp_inv_def clients_inv_def talk_inv_def newRTSPServerHandler_def newRTSPStreamHandler_def
    newRTSPTalkPublisher_def who_def)

lemma rtsp_reachable_inv: "rtsp_reachable newRTSPServerHandler w \<Longrightarrow> rtsp_inv w"
  unfolding rtsp_reachable_def
  by (induction rule: rtranclp_induct) (auto intro: rtsp_inv_new rtsp_step_inv)

text \<open>Mirrors are one level deep: the two-way handlers have none of their own.\<close>

definition flat :: "nat list \<Rightarrow> rtsp \<Rightarrow> bool" where
  "flat hs w = (\<forall>h \<in> set hs. mirrors (handlers w h) = [])"

lemma any_handler_flat: "flat hs w \<Longrightarrow> any_handler P w hs = Some (\<exists>h \<in> set hs. P (handlers w h))"
  by (induction hs) (simp_all add: flat_def any_handler.simps [of P w "[]"] any_handler.simps [of P w "_ # _"])

lemma any_handler_mirrors:
  assumes "flat (mirrors (handlers w h)) w"
  shows "any_handler P w [h] = Some (P (handlers w h) \<or> (\<exists>m \<in> set (mirrors (handlers w h)). P (handlers w m)))"
  using any_handler_flat [OF assms, of P] by (simp add: any_handler.simps [of P w "[h]"])

text \<open>The viewers of a stream are counted right: after any run of requests, disconnections and
  stream events, a handler's clients are exactly the sessions playing it, and the question that decides
  whether an idle camera is left alone is answered by whether some session plays the stream or one of
  its mirrors.\<close>

theorem viewers_counted:
  assumes "rtsp_reachable newRTSPServerHandler w" "flat (mirrors (handlers w h)) w"
  shows "hasClients h w = Some (\<exists>s st h'. sessions w s = Some st \<and> playing st \<and> ssStream st = Some h'
    \<and> (h' = h \<or> h' \<in> set (mirrors (handlers w h))))
    \<and> clients (handlers w h) = {s. \<exists>st. sessions w s = Some st \<and> ssStream st = Some h \<and> playing st}"
proof -
  have "clients_inv w" using rtsp_reachable_inv [OF assms(1)] by (simp add: rtsp_inv_def)
  then have c: "clients (handlers w h') = {s. \<exists>st. sessions w s = Some st \<and> ssStream st = Some h' \<and> playing st}" for h'
    by (simp add: clients_inv_def who_def)
  have "hasClients h w = Some (\<exists>s st h'. sessions w s = Some st \<and> playing st \<and> ssStream st = Some h'
    \<and> (h' = h \<or> h' \<in> set (mirrors (handlers w h))))"
    unfolding hasClients_def any_handler_mirrors [OF assms(2)] c by auto
  then show ?thesis using c [of h] by blast
qed

text \<open>The sessions that talk to a camera share its one bridge, as long as each handler of the server runs in one piece;
  \<^theory_text>\<open>TalkRelease\<close> treats the schedules in which the handlers interleave.\<close>

lemma talk_bridge_atomic:
  assumes "rtsp_reachable newRTSPServerHandler w"
  shows "refs (bridges w b) = int (card {s. \<exists>st. sessions w s = Some st \<and> ssTalk st = Some b})
    \<and> (\<not> cancelled (bridges w b) \<longrightarrow>
        (\<exists>s st. sessions w s = Some st \<and> ssTalk st = Some b) \<and> b \<in> set (pipelines w)
        \<and> tpActive (publishers w (tbPublisher (bridges w b))) = Some b
        \<and> (\<forall>b'. \<not> cancelled (bridges w b') \<and> tbPublisher (bridges w b') = tbPublisher (bridges w b) \<longrightarrow> b' = b))"
proof -
  have inv: "talk_inv w" using rtsp_reachable_inv [OF assms] by (simp add: rtsp_inv_def)
  then have live: "\<not> cancelled (bridges w b) \<Longrightarrow> talkers w b \<noteq> {} \<and> b \<in> set (pipelines w)
      \<and> tpActive (publishers w (tbPublisher (bridges w b))) = Some b" for b
    by (simp add: talk_inv_def)
  moreover have "refs (bridges w b) = int (card (talkers w b))" using inv by (simp add: talk_inv_def)
  moreover have "b' = b" if "\<not> cancelled (bridges w b)" "\<not> cancelled (bridges w b')"
    "tbPublisher (bridges w b') = tbPublisher (bridges w b)" for b'
    using live [OF that(1)] live [OF that(2)] that(3) by simp
  ultimately show ?thesis by (auto simp: who_def)
qed

text \<open>The count and the close of release are not one step: when the last session lets go of the bridge
  and another one starts to talk in between, that session is told its talkback has started, but it is
  attached to the bridge that is then cancelled, and starting again does nothing, so its speech is lost
  until it pauses or reconnects.\<close>

theorem release_race:
  assumes "tpActive (publishers w p) = Some b" "\<not> cancelled (bridges w b)" "tbPublisher (bridges w b) = p"
    and "refs (bridges w b) = 1" "ssTalk (session_of s2 w) = None" "inputs \<noteq> []"
  shows "case release_count b w of (lst, w1) \<Rightarrow> case startBridge s2 path inputs p w1 of (err, w2) \<Rightarrow>
    let w3 = bridge_close b w2
    in lst \<and> err = None \<and> ssTalk (session_of s2 w3) = Some b \<and> cancelled (bridges w3 b)
       \<and> startBridge s2 path' inputs' p w3 = (None, w3)"
proof -
  let ?w1 = "upd_bridge b (\<lambda>tb. tb\<lparr>refs := 0\<rparr>) w"
  have count: "release_count b w = (True, ?w1)" by (simp add: release_count_def Let_def assms(4))
  have s2: "session_of s2 ?w1 = session_of s2 w" by (simp add: session_of_def)
  let ?st = "bound (session_of s2 w) inputs b"
  define w2 where "w2 = put_session s2 ?st (upd_bridge b (\<lambda>tb. tb\<lparr>refs := 1\<rparr>) w)"
  have start: "startBridge s2 path inputs p ?w1 = (None, w2)"
    by (subst startBridge_eq)
      (use assms(1,2,5,6) in \<open>auto simp: s2 has_talk_def w2_def split: if_splits\<close>)
  have w3: "sessions (bridge_close b w2) s2 = Some ?st" "cancelled (bridges (bridge_close b w2) b)"
    "tbPublisher (bridges (bridge_close b w2) b) = p"
    using assms(2,3) by (simp_all add: w2_def bridge_close_def finish_def Let_def)
  have st: "session_of s2 (bridge_close b w2) = ?st" "put_session s2 ?st (bridge_close b w2) = bridge_close b w2"
    using w3(1) by (auto simp: session_of_def fun_upd_idem)
  have "has_talk ?st p (bridge_close b w2)" using w3(3) by (simp add: has_talk_def bound_def)
  then have "startBridge s2 path' inputs' p (bridge_close b w2) = (None, bridge_close b w2)"
    using startBridge_has_talk [of s2 "bridge_close b w2" p path' inputs'] st by simp
  then show ?thesis using w3(2) st(1) by (simp add: count start Let_def bound_def)
qed

definition talk_session :: session_info where
  "talk_session = \<lparr>siAnnounced = Some [newDedicatedTalkMedia], siRecording = False, siMedias = []\<rparr>"

definition one_talker :: rtsp where
  "one_talker = snd (OnRecord 1 talk_session ''/cam_talk'' (addTalk ''cam_talk'' 0 newRTSPServerHandler))"

lemma one_talker_state:
  "tpActive (publishers one_talker 0) = Some 0" "\<not> cancelled (bridges one_talker 0)"
  "tbPublisher (bridges one_talker 0) = 0" "refs (bridges one_talker 0) = 1"
  "sessions one_talker 2 = None"
  by (simp_all add: one_talker_def OnRecord_def getTalk_def search_def addTalk_def newRTSPServerHandler_def
    samePath_def trim_space_def trim_slash_def trim_prefix_slash_def is_space_def talk_record_def talk_session_def
    selectTalkInput_def newDedicatedTalkMedia_def startBridge_def attachSessionState_def fresh_session_def
    has_talk_def ensureSessionState_def live_bridge_def newRTSPTalkPublisher_def bindInputs_def Let_def)

lemma release_race_witness:
  "case release_count 0 one_talker of (lst, w1) \<Rightarrow>
   case startBridge 2 ''/cam_talk'' [\<lparr>inMedia = newDedicatedTalkMedia, inFormat = G711 True 1 8000,
     codecName = ''PCMU'', inRate = 8000\<rparr>] 0 w1 of (err, w2) \<Rightarrow>
    let w3 = bridge_close 0 w2
    in lst \<and> err = None \<and> ssTalk (session_of 2 w3) = Some 0 \<and> cancelled (bridges w3 0)
       \<and> startBridge 2 ''/cam_talk'' [] 0 w3 = (None, w3)"
  by (rule release_race) (simp_all add: one_talker_state session_of_def fresh_session_def)

lemma one_talker_reachable: "rtsp_reachable newRTSPServerHandler one_talker"
proof -
  let ?w = "addTalk ''cam_talk'' 0 newRTSPServerHandler"
  have "rtsp_step newRTSPServerHandler ?w" by (rule step_talk_path)
  moreover have "rtsp_step ?w one_talker"
    unfolding one_talker_def
    by (rule step_record) (simp add: same_camera_def session_of_def fresh_session_def addTalk_def newRTSPServerHandler_def
      Let_def)
  ultimately show ?thesis by (simp add: rtsp_reachable_def)
qed

definition one_viewer :: rtsp where
  "one_viewer = snd (OnPlay 1 talk_session ''/cam'' (addMirror (Some 4) 3 (addStream ''cam'' 3 newRTSPServerHandler)))"

lemma one_viewer_reachable: "rtsp_reachable newRTSPServerHandler one_viewer"
proof -
  let ?w1 = "addStream ''cam'' 3 newRTSPServerHandler" and ?w2 = "addMirror (Some 4) 3 (addStream ''cam'' 3 newRTSPServerHandler)"
  have "rtsp_step newRTSPServerHandler ?w1" by (rule step_stream_path)
  moreover have "rtsp_step ?w1 ?w2" by (rule step_mirror)
  moreover have "rtsp_step ?w2 one_viewer"
    unfolding one_viewer_def
    by (rule step_play) (simp_all add: same_camera_def same_stream_def session_of_def fresh_session_def addStream_def
      addMirror_def newRTSPServerHandler_def)
  ultimately show ?thesis by (simp add: rtsp_reachable_def)
qed

lemma viewers_counted_witness:
  "hasClients 3 one_viewer = Some (\<exists>s st h'. sessions one_viewer s = Some st \<and> playing st \<and> ssStream st = Some h'
    \<and> (h' = 3 \<or> h' \<in> set (mirrors (handlers one_viewer 3))))"
proof -
  have "mirrors (handlers one_viewer 3) = [4]" "mirrors (handlers one_viewer 4) = []"
    by (simp_all add: one_viewer_def OnPlay_def getStream_def getTalk_def search_def addStream_def addMirror_def
      newRTSPServerHandler_def newRTSPStreamHandler_def samePath_def trim_space_def trim_slash_def
      trim_prefix_slash_def is_space_def attachSessionToStream_def attachSessionState_def fresh_session_def
      addClient_def Let_def)
  then show ?thesis using viewers_counted [OF one_viewer_reachable, of 3] by (simp add: flat_def)
qed

section \<open>Waiting for a stream\<close>

text \<open>Polls that are at least 100 ms apart.\<close>

definition poll_ms :: int where "poll_ms = 10 ^ 8"

text \<open>The state at the \<open>j\<close>-th poll, when the first is poll \<open>m\<close>.\<close>

primrec polled :: "(nat \<Rightarrow> int) \<Rightarrow> (nat \<Rightarrow> rtsp \<Rightarrow> rtsp) \<Rightarrow> nat \<Rightarrow> nat \<Rightarrow> rtsp \<Rightarrow> nat \<Rightarrow> rtsp" where
  "polled clock others h m w 0 = touchInterest (clock m) h (others m w)"
| "polled clock others h m w (Suc j) =
     touchInterest (clock (m + Suc j)) h (others (m + Suc j) (polled clock others h m w j))"

lemma polled_shift: "polled clock others h m w (Suc j) = polled clock others h (Suc m) (polled clock others h m w 0) j"
  by (induction j) simp_all

abbreviation ready_at :: "(nat \<Rightarrow> int) \<Rightarrow> (nat \<Rightarrow> rtsp \<Rightarrow> rtsp) \<Rightarrow> nat \<Rightarrow> nat \<Rightarrow> rtsp \<Rightarrow> nat \<Rightarrow> nat list option" where
  "ready_at clock others h m w j \<equiv> shStream (handlers (polled clock others h m w j) h)"

lemma wait_ready_iff:
  "fst (wait_ready k clock others deadline m h w) = Some ms \<longleftrightarrow>
     (\<exists>j<k. (\<forall>i<Suc j. clock (m + i) < deadline) \<and> (\<forall>i<j. ready_at clock others h m w i = None)
       \<and> ready_at clock others h m w j = Some ms)"
proof (induction k arbitrary: m w)
  case (Suc k)
  show ?case
    using Suc.IH [of "Suc m" "polled clock others h m w 0"]
    by (simp add: Ex_less_Suc2 All_less_Suc2 polled_shift Let_def del: polled.simps(2) split: option.split)
qed simp

text \<open>A DESCRIBE or SETUP is always answered. With polls at least 100 ms apart the wait ends within 101
  polls, however many more one allows, and whatever the rest of the program does between them: it hands
  out the medias of the first poll that finds the stream ready before the deadline, and gives up exactly
  when there is none.\<close>

theorem wait_ready_ends:
  assumes "\<forall>n. now + int n * poll_ms \<le> clock n"
  shows "fst (wait_ready (maxPolls + k) clock others (now + readyTimeout) 0 h w) = Some ms \<longleftrightarrow>
    (\<exists>j. (\<forall>i \<le> j. clock i < now + readyTimeout) \<and> (\<forall>i < j. ready_at clock others h 0 w i = None)
      \<and> ready_at clock others h 0 w j = Some ms)"
proof -
  have "j < maxPolls + k" if "\<forall>i<Suc j. clock i < now + readyTimeout" for j
  proof -
    have "now + int j * poll_ms < now + readyTimeout"
      using assms [rule_format, of j] that by (meson le_less_trans lessI)
    then show ?thesis by (simp add: readyTimeout_def sec_def poll_ms_def maxPolls_def)
  qed
  then show ?thesis by (auto simp: wait_ready_iff less_Suc_eq_le)
qed

lemma wait_ready_ends_witness:
  "fst (wait_ready (maxPolls + 7) (\<lambda>n. 5 + int n * poll_ms) (\<lambda>n w. w) (5 + readyTimeout) 0 3 newRTSPServerHandler) = Some []
   \<longleftrightarrow> (\<exists>j. (\<forall>i \<le> j. 5 + int i * poll_ms < 5 + readyTimeout)
      \<and> (\<forall>i < j. ready_at (\<lambda>n. 5 + int n * poll_ms) (\<lambda>n w. w) 3 0 newRTSPServerHandler i = None)
      \<and> ready_at (\<lambda>n. 5 + int n * poll_ms) (\<lambda>n w. w) 3 0 newRTSPServerHandler j = Some [])"
  by (rule wait_ready_ends) simp

text \<open>A whole SETUP is a sequence of steps when what happens meanwhile is.\<close>

lemma wait_ready_steps:
  assumes "\<And>n w. rtsp_step\<^sup>*\<^sup>* w (others n w)"
  shows "rtsp_step\<^sup>*\<^sup>* w (snd (wait_ready k clock others deadline n h w))"
proof (induction k arbitrary: n w)
  case (Suc k)
  let ?w = "touchInterest (clock n) h (others n w)"
  have "rtsp_step\<^sup>*\<^sup>* w ?w"
    using assms [of w n] step_touch [of "others n w" "clock n" h] by (rule rtranclp.rtrancl_into_rtrancl)
  then show ?case using assms [of w n] Suc.IH [of ?w "Suc n"] by (auto simp: Let_def split: option.split)
qed simp

lemma talk_response_steps: "rtsp_step\<^sup>*\<^sup>* w (snd (talk_response init p w))"
  using step_describe [of w init p] by (auto simp: talk_response_def split: prod.split)

lemma OnDescribe_steps:
  assumes "\<And>n w. rtsp_step\<^sup>*\<^sup>* w (others n w)"
  shows "rtsp_step\<^sup>*\<^sup>* w (snd (OnDescribe init clock others now path w))"
proof (cases "getStream path w")
  case None
  then show ?thesis using talk_response_steps by (auto simp: OnDescribe_def split: option.split)
next
  case (Some h)
  have "rtsp_step\<^sup>*\<^sup>* w (snd (wait_ready maxPolls clock others (now + readyTimeout) 0 h (touchInterest now h w)))"
    using wait_ready_steps [OF assms] step_touch [of w now h] by (meson converse_rtranclp_into_rtranclp)
  then show ?thesis by (auto simp: OnDescribe_def Some split: prod.split option.split)
qed

lemma OnSetup_steps:
  assumes "\<And>n w. rtsp_step\<^sup>*\<^sup>* w (others n w)" and "\<not> playing (session_of s w)"
  shows "rtsp_step\<^sup>*\<^sup>* w (snd (OnSetup init clock others now s si path w))"
proof -
  have talk: "rtsp_step\<^sup>*\<^sup>* u (snd (setup_talk init path u))" for u
    using talk_response_steps by (auto simp: setup_talk_def split: option.split)
  show ?thesis
  proof (cases "getStream path w")
    case None
    then show ?thesis using talk by (simp add: OnSetup_def)
  next
    case (Some h)
    obtain st w1 where a: "attachSessionToStream s h w = (st, w1)" by fastforce
    have "rtsp_step w w1" using step_attach [OF assms(2), of h] a by simp
    moreover obtain r w2 where r: "wait_ready maxPolls clock others (now + readyTimeout) 0 h (touchInterest now h w1) = (r, w2)"
      by fastforce
    moreover have "rtsp_step\<^sup>*\<^sup>* u (snd (wait_ready maxPolls clock others (now + readyTimeout) 0 h u))" for u
      by (rule wait_ready_steps) (rule assms(1))
    ultimately have "rtsp_step\<^sup>*\<^sup>* w w2"
      using step_touch [of w1 now h] by (metis converse_rtranclp_into_rtranclp snd_conv)
    then show ?thesis
      using talk [of w2] by (auto simp: OnSetup_def Some a r split: option.split intro: rtranclp_trans)
  qed
qed

section \<open>Mirrors\<close>

lemma setReady_Nil: "setReady_list init ms [] w = Some (None, w)"
  by (simp add: setReady_list.simps [of init ms "[]" w])

lemma write_Nil: "write_list m pkt [] w = Some w"
  by (simp add: write_list.simps [of m pkt "[]" w])

lemma ready_own_other: "ready_own init ms h w = Inr w' \<Longrightarrow> h' \<noteq> h \<Longrightarrow> handlers w' h' = handlers w h'"
  by (auto simp: ready_own_def Let_def split: if_splits)

lemma ready_own_mirrors: "ready_own init ms h w = Inr w' \<Longrightarrow> mirrors (handlers w' h') = mirrors (handlers w h')"
  by (auto simp: ready_own_def Let_def split: if_splits)

lemma ready_own_medias:
  "ready_own init ms h w = Inr w' \<Longrightarrow> shStream (handlers w h) = None \<Longrightarrow>
   handlers w' h = (handlers w h)\<lparr>shStream := Some (somes ms @ extras (handlers w h))\<rparr>"
  by (auto simp: ready_own_def Let_def split: if_splits)

text \<open>Preparing a list of handlers without mirrors: all of them, or up to the first that fails.\<close>

lemma setReady_flat:
  "flat hs w \<Longrightarrow> distinct hs \<Longrightarrow> (\<forall>h \<in> set hs. shStream (handlers w h) = None) \<Longrightarrow>
   setReady_list init ms hs w = Some (None, w') \<Longrightarrow>
   (\<forall>h. handlers w' h = (if h \<in> set hs
     then (handlers w h)\<lparr>shStream := Some (somes ms @ extras (handlers w h))\<rparr> else handlers w h))"
proof (induction hs arbitrary: w)
  case (Cons h hs)
  obtain w1 where w1: "ready_own init ms h w = Inr w1"
    using Cons.prems(4) by (auto simp: setReady_list.simps [of init ms "h # hs"] split: sum.splits)
  have rest: "setReady_list init ms hs w1 = Some (None, w')"
    using Cons.prems(1,4) w1 by (simp add: setReady_list.simps [of init ms "h # hs"] flat_def)
  have other: "handlers w1 h' = handlers w h'" if "h' \<noteq> h" for h' using ready_own_other [OF w1 that] .
  have "flat hs w1" using Cons.prems(1) by (simp add: flat_def ready_own_mirrors [OF w1])
  moreover have "\<forall>h' \<in> set hs. shStream (handlers w1 h') = None"
    using Cons.prems(2,3) other by (metis distinct.simps(2) list.set_intros(2))
  ultimately have "\<forall>h'. handlers w' h' = (if h' \<in> set hs
     then (handlers w1 h')\<lparr>shStream := Some (somes ms @ extras (handlers w1 h'))\<rparr> else handlers w1 h')"
    using Cons.IH rest Cons.prems(2) by simp
  moreover have "handlers w1 h' = (if h' = h then (handlers w h)\<lparr>shStream := Some (somes ms @ extras (handlers w h))\<rparr>
      else handlers w h')" for h'
    using other [of h'] ready_own_medias [OF w1] Cons.prems(3) by simp
  ultimately show ?case using Cons.prems(2) by auto
qed (simp add: setReady_Nil)

lemma write_own_handler:
  "handlers (write_own m pkt h w) h' =
     (if h' = h \<and> (\<exists>ms. shStream (handlers w h) = Some ms \<and> m \<in> set ms)
      then (handlers w h)\<lparr>shSent := (m, pkt) # shSent (handlers w h)\<rparr> else handlers w h')"
  by (auto simp: write_own_def split: option.splits)

lemma write_flat:
  "flat hs w \<Longrightarrow> distinct hs \<Longrightarrow> \<exists>w'. write_list m pkt hs w = Some w'
   \<and> (\<forall>h. handlers w' h = (if h \<in> set hs \<and> (\<exists>ms. shStream (handlers w h) = Some ms \<and> m \<in> set ms)
        then (handlers w h)\<lparr>shSent := (m, pkt) # shSent (handlers w h)\<rparr> else handlers w h))"
proof (induction hs arbitrary: w)
  case (Cons h hs)
  have "flat hs (write_own m pkt h w)" using Cons.prems(1) by (auto simp: flat_def write_own_handler)
  then obtain w' where w': "write_list m pkt hs (write_own m pkt h w) = Some w'"
    and h: "\<forall>h'. handlers w' h' = (if h' \<in> set hs
        \<and> (\<exists>ms. shStream (handlers (write_own m pkt h w) h') = Some ms \<and> m \<in> set ms)
      then (handlers (write_own m pkt h w) h')\<lparr>shSent := (m, pkt) # shSent (handlers (write_own m pkt h w) h')\<rparr>
      else handlers (write_own m pkt h w) h')"
    using Cons.IH Cons.prems(2) by fastforce
  have "write_list m pkt (h # hs) w = Some w'"
    using Cons.prems(1) w' by (simp add: write_list.simps [of m pkt "h # hs"] flat_def)
  then show ?case using h Cons.prems(2) by (intro exI [of _ w']) (auto simp: write_own_handler)
qed (simp add: write_Nil)

text \<open>Exposing a stream exposes its mirrors, and what is written to it reaches all of them: after a
  setReady that succeeds, the stream's session describes exactly the medias that are there, a mirror's
  session those and its own (the talk channel of the two-way path), and a packet for one of the medias is
  sent to the stream and to every mirror once, and to nobody else.\<close>

theorem mirrors_follow_stream:
  assumes "flat (mirrors (handlers w h)) w" "distinct (h # mirrors (handlers w h))"
    and "\<forall>h' \<in> set (h # mirrors (handlers w h)). shStream (handlers w h') = None"
    and ready: "setReady init ms h w = Some (None, w1)" and m: "Some m \<in> set ms"
  shows "(\<forall>h' \<in> set (h # mirrors (handlers w h)). shStream (handlers w1 h') = Some (somes ms @ extras (handlers w h')))
    \<and> (\<exists>w2. writePacket m pkt h w1 = Some w2 \<and>
        (\<forall>h'. shSent (handlers w2 h') =
          (if h' \<in> set (h # mirrors (handlers w h)) then [(m, pkt)] else []) @ shSent (handlers w h')))"
proof -
  define hs where "hs = h # mirrors (handlers w h)"
  note flat = assms(1) and dist = assms(2) [folded hs_def] and fresh = assms(3) [folded hs_def]
  let ?mi = "mirrors (handlers w h)"
  obtain w0 where w0: "ready_own init ms h w = Inr w0"
    using ready by (auto simp: setReady_def setReady_list.simps [of init ms "[h]"] split: sum.splits)
  have rest: "setReady_list init ms ?mi w0 = Some (None, w1)"
    using ready w0 by (simp add: setReady_def setReady_list.simps [of init ms "[h]"])
  have other: "handlers w0 h' = handlers w h'" if "h' \<noteq> h" for h' using ready_own_other [OF w0 that] .
  have "flat ?mi w0" using flat by (simp add: flat_def ready_own_mirrors [OF w0])
  moreover have "\<forall>h' \<in> set ?mi. shStream (handlers w0 h') = None"
    using dist fresh other by (metis distinct.simps(2) list.set_intros(2) hs_def)
  ultimately have "\<forall>h'. handlers w1 h' = (if h' \<in> set ?mi
     then (handlers w0 h')\<lparr>shStream := Some (somes ms @ extras (handlers w0 h'))\<rparr> else handlers w0 h')"
    using setReady_flat [OF _ _ _ rest] dist by (simp add: hs_def)
  moreover have "handlers w0 h' = (if h' = h then (handlers w h)\<lparr>shStream := Some (somes ms @ extras (handlers w h))\<rparr>
      else handlers w h')" for h'
    using other [of h'] ready_own_medias [OF w0] fresh by (simp add: hs_def)
  ultimately have w1: "handlers w1 h' = (if h' \<in> set hs
     then (handlers w h')\<lparr>shStream := Some (somes ms @ extras (handlers w h'))\<rparr> else handlers w h')" for h'
    using dist by (auto simp: hs_def)
  have "Some m \<in> set ms \<Longrightarrow> m \<in> set (somes ms)" by (induction ms) (auto simp: somes_def List.map_filter_def)
  then have in_medias: "m \<in> set (somes ms)" using m by simp
  have flat1: "flat ?mi (write_own m pkt h w1)"
    using flat dist by (auto simp: flat_def write_own_handler w1 hs_def)
  obtain w2 where w2: "write_list m pkt ?mi (write_own m pkt h w1) = Some w2"
    and sent: "\<forall>h'. handlers w2 h' = (if h' \<in> set ?mi
        \<and> (\<exists>ms. shStream (handlers (write_own m pkt h w1) h') = Some ms \<and> m \<in> set ms)
      then (handlers (write_own m pkt h w1) h')\<lparr>shSent := (m, pkt) # shSent (handlers (write_own m pkt h w1) h')\<rparr>
      else handlers (write_own m pkt h w1) h')"
    using write_flat [OF flat1, of m pkt] dist by (auto simp: hs_def)
  have "writePacket m pkt h w1 = Some w2"
    using w2 by (simp add: writePacket_def write_list.simps [of m pkt "[h]"] w1 hs_def)
  moreover have "shSent (handlers w2 h') = (if h' \<in> set hs then [(m, pkt)] else []) @ shSent (handlers w h')" for h'
    using sent dist in_medias by (auto simp: write_own_handler w1 hs_def)
  ultimately show ?thesis unfolding hs_def [symmetric] by (auto simp: w1)
qed

definition mirrored :: rtsp where
  "mirrored = setExtraMedias [Some 9] 4 (addMirror (Some 4) 3 (attachServer 4 (attachServer 3 newRTSPServerHandler)))"

definition mirrored_ready :: rtsp where
  "mirrored_ready = upd_handler 4 (\<lambda>sh. sh\<lparr>shStream := Some [5, 9]\<rparr>) (upd_handler 3 (\<lambda>sh. sh\<lparr>shStream := Some [5]\<rparr>) mirrored)"

lemma mirrored_is_ready: "setReady (\<lambda>_. True) [Some 5, None] 3 mirrored = Some (None, mirrored_ready)"
  by (simp add: setReady_def setReady_list.simps [of _ _ "_ # _"] setReady_Nil ready_own_def mirrored_def
    mirrored_ready_def setExtraMedias_def addMirror_def attachServer_def newRTSPServerHandler_def
    newRTSPStreamHandler_def somes_def List.map_filter_simps Let_def)

lemma mirrors_follow_stream_witness:
  "\<exists>w2. writePacket 5 \<lparr>rtpTimestamp = 90, rtpPayload = [1]\<rparr> 3 mirrored_ready = Some w2
    \<and> shSent (handlers w2 4) = [(5, \<lparr>rtpTimestamp = 90, rtpPayload = [1]\<rparr>)]"
proof -
  have "handlers mirrored 3 = (newRTSPStreamHandler [])\<lparr>attached := True, mirrors := [4]\<rparr>"
    "handlers mirrored 4 = (newRTSPStreamHandler [])\<lparr>attached := True, extras := [9]\<rparr>"
    by (simp_all add: mirrored_def setExtraMedias_def addMirror_def attachServer_def newRTSPServerHandler_def
      newRTSPStreamHandler_def somes_def List.map_filter_simps)
  then show ?thesis
    using mirrors_follow_stream [of mirrored 3 "\<lambda>_. True" "[Some 5, None]" mirrored_ready 5 "\<lparr>rtpTimestamp = 90, rtpPayload = [1]\<rparr>"]
    by (fastforce simp: flat_def newRTSPStreamHandler_def mirrored_is_ready)
qed

section \<open>Paths\<close>

lemma trim_space_slash:
  assumes "q = [] \<or> \<not> is_space (hd q)"
  shows "trim_space (CHR ''/'' # q) = CHR ''/'' # trim_space q"
proof -
  have slash: "\<not> is_space CHR ''/''" by (simp add: is_space_def)
  have "dropWhile is_space q = q" using assms by (cases q) auto
  then show ?thesis
    using slash by (simp add: trim_space_def dropWhile_append)
qed

text \<open>A path is found under the URL that was built for it.\<close>

lemma url_path_same:
  assumes "q = [] \<or> \<not> is_space (hd q)"
  shows "samePath (CHR ''/'' # q) q"
  using trim_space_slash [OF assms] by (simp add: samePath_def trim_slash_def)

lemma search_update:
  assumes "samePath got key" "\<forall>k \<in> fst ` set table. samePath got k \<longrightarrow> k = key"
  shows "search got (AList.update key x table) = Some x"
proof -
  have "find (\<lambda>(k, y). samePath got k) (AList.update key x table) = Some (key, x)"
    using assms(2)
  proof (induction table)
    case (Cons p table)
    obtain k y where p: "p = (k, y)" by fastforce
    show ?case
    proof (cases "k = key")
      case False
      then have "\<not> samePath got k" using Cons.prems by (simp add: p)
      moreover have "find (\<lambda>(k, y). samePath got k) (AList.update key x table) = Some (key, x)"
        by (rule Cons.IH) (use Cons.prems in simp)
      ultimately show ?thesis by (simp add: p False)
    qed (simp add: p assms(1))
  qed (simp add: assms(1))
  then show ?thesis by (simp add: search_def)
qed

text \<open>The host and port a listen address was joined from are split out of it again.\<close>

lemma last_index_append: "last_index c (a @ c # b) = Some (length a)" if "c \<notin> set b"
proof -
  have none: "last_index c b = None" using that by (induction b) auto
  show ?thesis by (induction a) (simp_all add: none)
qed

lemma split_join_host_port:
  assumes "CHR ''['' \<notin> set host" "CHR '']'' \<notin> set host" "CHR '':'' \<notin> set port" "CHR ''['' \<notin> set port" "CHR '']'' \<notin> set port"
  shows "SplitHostPort (JoinHostPort host port) = Some (host, port)"
proof (cases "CHR '':'' \<in> set host")
  case False
  then show ?thesis
    using assms last_index_append [OF assms(3), of host]
    by (cases host) (auto simp: SplitHostPort_def JoinHostPort_def)
next
  case True
  have "takeWhile (\<lambda>d. d \<noteq> CHR '']'') (''['' @ host @ '']:'' @ port) = ''['' @ host"
    using assms(2) by (simp add: takeWhile_append)
  then have "index_of (CHR '']'') (''['' @ host @ '']:'' @ port) = Some (Suc (length host))"
    by (simp add: index_of_def)
  moreover have "last_index (CHR '':'') (''['' @ host @ '']:'' @ port) = Some (Suc (Suc (length host)))"
    using last_index_append [OF assms(3), of "''['' @ host @ '']''"] by simp
  ultimately show ?thesis using True assms by (simp add: SplitHostPort_def JoinHostPort_def)
qed

text \<open>An address with a host of its own is advertised as it is; a wildcard or bare port by the outbound address.\<close>

lemma advertised_own_host:
  assumes "CHR ''['' \<notin> set host" "CHR '']'' \<notin> set host" "CHR '':'' \<notin> set port" "CHR ''['' \<notin> set port" "CHR '']'' \<notin> set port"
    and "host \<noteq> []" "host \<noteq> ''0.0.0.0''" "host \<noteq> ''::''" "port \<noteq> []"
  shows "advertisedAuthority outbound (JoinHostPort host port) [] = JoinHostPort host port"
  using split_join_host_port [OF assms(1-5)] assms(6-) by (simp add: advertisedAuthority_def)

end
