(* ===== verification/TalkRelease.thy ===== *)
theory TalkRelease
  imports Rtsp
begin

text \<open>
  The talk bridges of \<^verbatim>\<open>pkg/bridge/talk_rtsp.go\<close> under every schedule: a session that starts to talk and one that
  lets go of its bridge pass through several regions, each of which the publisher's mutex or \<^verbatim>\<open>stopOnce\<close> makes one
  step, and any other session may act between them. The regions are the functions of \<^theory_text>\<open>Rtsp\<close>; what is added here is
  where each session is.
\<close>

section \<open>The regions\<close>

text \<open>
  A session is between its \<^verbatim>\<open>ensureSessionState\<close> and the end of \<^verbatim>\<open>startBridge\<close>, with whether it made the bridge, or
  between the count of its \<^verbatim>\<open>release\<close> and \<^verbatim>\<open>state.talk = nil\<close>, with whether it was the last. A bridge is closing
  between the two calls of its \<^verbatim>\<open>close\<close>, \<^verbatim>\<open>finish\<close> and \<^verbatim>\<open>cancel\<close>; a second caller of \<^verbatim>\<open>close\<close> waits for the first.
\<close>

datatype talk_pc = Starting bool | Letting bool

type_synonym talk_sched = "rtsp \<times> nat set \<times> (nat \<rightharpoonup> talk_pc)"

abbreviation talk_of :: "rtsp \<Rightarrow> nat \<Rightarrow> nat option" where
  "talk_of w s \<equiv> ssTalk (session_of s w)"

definition cancel_bridge :: "nat \<Rightarrow> rtsp \<Rightarrow> rtsp" where
  "cancel_bridge b w = upd_bridge b (\<lambda>tb. tb\<lparr>cancelled := True\<rparr>) w"

definition clear_talk :: "nat \<Rightarrow> rtsp \<Rightarrow> rtsp" where
  "clear_talk s w = put_session s ((session_of s w)\<lparr>ssTalk := None\<rparr>) w"

text \<open>The end of \<^verbatim>\<open>startBridge\<close>: the inputs are bound, and who made the bridge starts its pipeline.\<close>

definition start_rest :: "nat \<Rightarrow> string \<Rightarrow> talk_input list \<Rightarrow> bool \<Rightarrow> nat \<Rightarrow> rtsp \<Rightarrow> rtsp" where
  "start_rest s path inputs created b w =
     (let w = snd (bindInputs s inputs b w)
      in if created then (upd_bridge b (\<lambda>tb. tb\<lparr>tbPath := trim_prefix_slash path\<rparr>) w)\<lparr>pipelines := b # pipelines w\<rparr>
         else w)"

text \<open>What the rest of the server may do meanwhile: anything that leaves alone who talks where.\<close>

definition same_talk :: "rtsp \<Rightarrow> rtsp \<Rightarrow> bool" where
  "same_talk w w' \<longleftrightarrow> (\<forall>s. talk_of w' s = talk_of w s) \<and> nextBridge w' = nextBridge w \<and> pipelines w' = pipelines w
     \<and> (\<forall>b. refs (bridges w' b) = refs (bridges w b) \<and> cancelled (bridges w' b) = cancelled (bridges w b)
          \<and> tbPublisher (bridges w' b) = tbPublisher (bridges w b))
     \<and> (\<forall>p. tpActive (publishers w' p) = tpActive (publishers w p))"

inductive talk_step :: "talk_sched \<Rightarrow> talk_sched \<Rightarrow> bool" where
  talk_attach: "P s = None \<Longrightarrow> talk_of w s = None \<Longrightarrow> ensureSessionState s p w = (b, created, w') \<Longrightarrow>
     talk_step (w, K, P) (w', K, P(s \<mapsto> Starting created))"
| talk_start: "P s = Some (Starting created) \<Longrightarrow> talk_of w s = Some b \<Longrightarrow> inputs \<noteq> [] \<Longrightarrow>
     talk_step (w, K, P) (start_rest s path inputs created b w, K, P(s := None))"
| talk_count: "P s = None \<Longrightarrow> talk_of w s = Some b \<Longrightarrow> release_count b w = (lst, w') \<Longrightarrow>
     talk_step (w, K, P) (w', K, P(s \<mapsto> Letting lst))"
| talk_finish: "P s = Some (Letting True) \<Longrightarrow> talk_of w s = Some b \<Longrightarrow> \<not> cancelled (bridges w b) \<Longrightarrow> b \<notin> K \<Longrightarrow>
     talk_step (w, K, P) (finish b w, insert b K, P)"
| talk_cancel: "b \<in> K \<Longrightarrow> talk_step (w, K, P) (cancel_bridge b w, K - {b}, P)"
| talk_clear: "P s = Some (Letting lst) \<Longrightarrow> talk_of w s = Some b \<Longrightarrow> lst \<longrightarrow> cancelled (bridges w b) \<Longrightarrow>
     talk_step (w, K, P) (clear_talk s w, K, P(s := None))"
| talk_ended: "b \<in> set (pipelines w) \<Longrightarrow> cancelled (bridges w b) \<Longrightarrow>
     talk_step (w, K, P) (w\<lparr>pipelines := remove1 b (pipelines w)\<rparr>, K, P)"
| talk_ended_finish: "cancelled (bridges w b) \<Longrightarrow> talk_step (w, K, P) (finish b w, K, P)"
| talk_other: "same_talk w w' \<Longrightarrow> talk_step (w, K, P) (w', K, P)"

text \<open>The handlers that do not talk are such: what changes only the streams and paths, and a session that keeps its bridge.\<close>

lemma same_talk_core: "same_core w w' \<Longrightarrow> same_talk w w'"
  by (auto simp: same_core_def same_talk_def session_of_def)

lemma same_talk_session:
  "ssTalk st = talk_of w s \<Longrightarrow> same_talk w (put_session s st w)"
  "same_talk w (addClient s h w)" "same_talk w (removeClient s h w)"
  "same_talk w (snd (attachSessionToStream s h w))" "same_talk w (snd (talk_describe init p w))"
  "same_talk w (talk_packet volume input payload b w)"
  by (auto simp: same_talk_def session_of_def addClient_def removeClient_def attachSessionToStream_def attachSessionState_eq
      talk_describe_def talk_packet_def fresh_session_def Let_def split: option.split sum.split)

text \<open>Run without a break, the regions are the functions of the code.\<close>

lemma release_regions:
  "release b w = (case release_count b w of (lst, w) \<Rightarrow>
     if lst \<and> \<not> cancelled (bridges w b) then cancel_bridge b (finish b w) else w)"
  by (simp add: release_def bridge_close_def cancel_bridge_def split: prod.split)

lemma startBridge_regions:
  assumes "talk_of w s = None" "inputs \<noteq> []"
  shows "startBridge s path inputs p w = (case ensureSessionState s p w of (b, created, w) \<Rightarrow>
     (None, start_rest s path inputs created b w))"
proof -
  have "ensureSessionState s p (put_session s (session_of s w) w) = ensureSessionState s p w"
    by (cases "sessions w s") (simp_all add: ensureSessionState_def attachSessionState_def session_of_def fun_upd_idem)
  then show ?thesis
    using assms
    by (auto simp: startBridge_def attachSessionState_eq has_talk_def start_rest_def bindInputs_def Let_def
        split: prod.split list.split)
qed

section \<open>The invariant\<close>

text \<open>Who holds a bridge: the sessions attached to it that have not given up their count.\<close>

definition holders :: "rtsp \<Rightarrow> (nat \<rightharpoonup> talk_pc) \<Rightarrow> nat \<Rightarrow> nat set" where
  "holders w P b = {s. talk_of w s = Some b \<and> (\<forall>l. P s \<noteq> Some (Letting l))}"

definition live_ok :: "talk_sched \<Rightarrow> nat \<Rightarrow> bool" where
  "live_ok = (\<lambda>(w, K, P) b.
     (holders w P b \<noteq> {} \<or> b \<in> K \<or> (\<exists>s. talk_of w s = Some b \<and> P s = Some (Letting True)))
     \<and> (b \<in> set (pipelines w) \<or> (\<exists>s. talk_of w s = Some b \<and> P s = Some (Starting True)))
     \<and> (tpActive (publishers w (tbPublisher (bridges w b))) = Some b \<or> b \<in> K))"

definition sched_inv :: "talk_sched \<Rightarrow> bool" where
  "sched_inv = (\<lambda>(w, K, P). finite {s. talk_of w s \<noteq> None}
     \<and> (\<forall>b. refs (bridges w b) = int (card (holders w P b)))
     \<and> (\<forall>s b. talk_of w s = Some b \<longrightarrow> b < nextBridge w)
     \<and> (\<forall>b. \<not> cancelled (bridges w b) \<longrightarrow> live_ok (w, K, P) b)
     \<and> (\<forall>p b. tpActive (publishers w p) = Some b \<longrightarrow>
          tbPublisher (bridges w b) = p \<and> \<not> cancelled (bridges w b) \<and> b \<notin> K \<and> b < nextBridge w)
     \<and> (\<forall>b \<in> K. \<not> cancelled (bridges w b) \<and> b < nextBridge w)
     \<and> (\<forall>b. nextBridge w \<le> b \<longrightarrow> cancelled (bridges w b)))"

lemma sched_invI:
  assumes "finite {s. talk_of w s \<noteq> None}" "\<And>b. refs (bridges w b) = int (card (holders w P b))"
    and "\<And>s b. talk_of w s = Some b \<Longrightarrow> b < nextBridge w"
    and "\<And>b. \<not> cancelled (bridges w b) \<Longrightarrow> live_ok (w, K, P) b"
    and "\<And>p b. tpActive (publishers w p) = Some b \<Longrightarrow>
          tbPublisher (bridges w b) = p \<and> \<not> cancelled (bridges w b) \<and> b \<notin> K \<and> b < nextBridge w"
    and "\<And>b. b \<in> K \<Longrightarrow> \<not> cancelled (bridges w b) \<and> b < nextBridge w"
    and "\<And>b. nextBridge w \<le> b \<Longrightarrow> cancelled (bridges w b)"
  shows "sched_inv (w, K, P)"
  using assms by (simp add: sched_inv_def)

lemma sched_invD:
  assumes "sched_inv (w, K, P)"
  shows "finite {s. talk_of w s \<noteq> None}" "refs (bridges w b) = int (card (holders w P b))"
    and "talk_of w s = Some b \<Longrightarrow> b < nextBridge w"
    and "\<not> cancelled (bridges w b) \<Longrightarrow> live_ok (w, K, P) b"
    and "tpActive (publishers w p) = Some b \<Longrightarrow>
          tbPublisher (bridges w b) = p \<and> \<not> cancelled (bridges w b) \<and> b \<notin> K \<and> b < nextBridge w"
    and "b \<in> K \<Longrightarrow> \<not> cancelled (bridges w b) \<and> b < nextBridge w"
    and "nextBridge w \<le> b \<Longrightarrow> cancelled (bridges w b)"
  using assms by (auto simp: sched_inv_def)

lemma talk_of_put [simp]: "talk_of (put_session s st w) s' = (if s' = s then ssTalk st else talk_of w s')"
  by (simp add: session_of_def)

lemma talk_of_sessions: "sessions w' = sessions w \<Longrightarrow> talk_of w' s = talk_of w s"
  by (simp add: session_of_def)

lemma holders_finite: "sched_inv (w, K, P) \<Longrightarrow> finite (holders w P b)"
  using sched_invD(1) [of w K P] by (rule finite_subset [rotated]) (auto simp: holders_def)

text \<open>What \<^verbatim>\<open>ensureSessionState\<close> does to a session that does not talk.\<close>

lemma ensure_new:
  assumes "talk_of w s = None" "\<And>b. tpActive (publishers w p) = Some b \<Longrightarrow> \<not> cancelled (bridges w b)"
  shows "ensureSessionState s p w = (case tpActive (publishers w p) of
      Some b \<Rightarrow> (b, False, put_session s ((session_of s w)\<lparr>ssTalk := Some b\<rparr>) (upd_bridge b (\<lambda>tb. tb\<lparr>refs := refs tb + 1\<rparr>) w))
    | None \<Rightarrow> (nextBridge w, True, put_session s ((session_of s w)\<lparr>ssTalk := Some (nextBridge w)\<rparr>)
        (w\<lparr>publishers := (publishers w)(p := (publishers w p)\<lparr>tpActive := Some (nextBridge w)\<rparr>),
           bridges := (bridges w)(nextBridge w :=
             \<lparr>tbPublisher = p, tbPath = [], cancelled = False, refs = 1, pcmQueue = []\<rparr>),
           nextBridge := nextBridge w + 1\<rparr>)))"
  using assms
  by (auto simp: ensureSessionState_def attachSessionState_eq has_talk_def live_bridge_def Let_def
      split: option.splits if_splits)

text \<open>A bridge stays as it should be when its sessions and its pipeline stay where they are.\<close>

lemma live_mono:
  assumes "live_ok (w, K, P) b" "b \<in> K \<longrightarrow> b \<in> K'" "b \<in> set (pipelines w) \<longrightarrow> b \<in> set (pipelines w')"
    and "\<And>s. talk_of w s = Some b \<Longrightarrow> P s \<noteq> Some (Letting False) \<Longrightarrow> talk_of w' s = Some b \<and> P' s = P s"
    and "tpActive (publishers w (tbPublisher (bridges w b))) = Some b \<longrightarrow>
      tpActive (publishers w' (tbPublisher (bridges w' b))) = Some b \<or> b \<in> K'"
  shows "live_ok (w', K', P') b"
proof -
  have "holders w P b \<subseteq> holders w' P' b" using assms(4) by (auto simp: holders_def)
  moreover have "\<exists>s. talk_of w' s = Some b \<and> P' s = Some y"
    if "\<exists>s. talk_of w s = Some b \<and> P s = Some y" "y \<noteq> Letting False" for y
    using that assms(4) by (metis option.inject)
  then have "(\<exists>s. talk_of w s = Some b \<and> P s = Some (Letting True)) \<Longrightarrow> \<exists>s. talk_of w' s = Some b \<and> P' s = Some (Letting True)"
    and "(\<exists>s. talk_of w s = Some b \<and> P s = Some (Starting True)) \<Longrightarrow> \<exists>s. talk_of w' s = Some b \<and> P' s = Some (Starting True)"
    by blast+
  ultimately show ?thesis using assms(1,2,3,5) unfolding live_ok_def prod.case by blast
qed

lemma attach_keeps:
  assumes inv: "sched_inv (w, K, P)" and "P s = None" "talk_of w s = None" "ensureSessionState s p w = (b, created, w')"
  shows "sched_inv (w', K, P(s \<mapsto> Starting created))"
proof (cases "tpActive (publishers w p)")
  case (Some a)
  note new = ensure_new [OF assms(3), of p] and act = sched_invD(5) [OF inv Some]
  have w': "w' = put_session s ((session_of s w)\<lparr>ssTalk := Some a\<rparr>) (upd_bridge a (\<lambda>tb. tb\<lparr>refs := refs tb + 1\<rparr>) w)"
    using new act Some assms(4) by auto
  have t: "talk_of w' x = (if x = s then Some a else talk_of w x)" for x
    unfolding w' by (simp add: session_of_def)
  have e: "refs (bridges w' x) = refs (bridges w x) + (if x = a then 1 else 0)" "cancelled (bridges w' x) = cancelled (bridges w x)"
    "tbPublisher (bridges w' x) = tbPublisher (bridges w x)" "publishers w' = publishers w" "pipelines w' = pipelines w"
    "nextBridge w' = nextBridge w" for x
    by (simp_all add: w')
  have h: "holders w' (P(s \<mapsto> Starting created)) x = (if x = a then insert s (holders w P a) else holders w P x)" for x
    using assms(2,3) t by (auto simp: holders_def)
  have out: "s \<notin> holders w P a" using assms(3) by (simp add: holders_def)
  have live: "live_ok (w', K, P(s \<mapsto> Starting created)) x" if "\<not> cancelled (bridges w x)" for x
    using sched_invD(4) [OF inv that] by (rule live_mono) (use assms(3) in \<open>auto simp: t e\<close>)
  show ?thesis
  proof (rule sched_invI)
    have "{x. talk_of w' x \<noteq> None} = insert s {x. talk_of w x \<noteq> None}" using t by auto
    then show "finite {x. talk_of w' x \<noteq> None}" using sched_invD(1) [OF inv] by simp
    show "refs (bridges w' x) = int (card (holders w' (P(s \<mapsto> Starting created)) x))" for x
      unfolding h e(1) using out holders_finite [OF inv] sched_invD(2) [OF inv] by simp
    show "x < nextBridge w'" if "talk_of w' y = Some x" for y x
      using that act sched_invD(3) [OF inv] by (auto simp: t e split: if_splits)
  qed (use live sched_invD(5-7) [OF inv] in \<open>simp_all add: e\<close>)
next
  case None
  let ?n = "nextBridge w"
  have w': "w' = put_session s ((session_of s w)\<lparr>ssTalk := Some ?n\<rparr>)
        (w\<lparr>publishers := (publishers w)(p := (publishers w p)\<lparr>tpActive := Some ?n\<rparr>),
           bridges := (bridges w)(?n := \<lparr>tbPublisher = p, tbPath = [], cancelled = False, refs = 1, pcmQueue = []\<rparr>),
           nextBridge := ?n + 1\<rparr>)" "created"
    using ensure_new [OF assms(3), of p] None assms(4) by auto
  have t: "talk_of w' x = (if x = s then Some ?n else talk_of w x)" for x
    unfolding w' by (simp add: session_of_def)
  have e: "bridges w' x = (if x = ?n then \<lparr>tbPublisher = p, tbPath = [], cancelled = False, refs = 1, pcmQueue = []\<rparr> else bridges w x)"
    "tpActive (publishers w' q) = (if q = p then Some ?n else tpActive (publishers w q))" "pipelines w' = pipelines w"
    "nextBridge w' = Suc ?n" for x q
    by (simp_all add: w')
  have unused: "talk_of w x \<noteq> Some ?n" for x using sched_invD(3) [OF inv, of x ?n] by auto
  have h: "holders w' (P(s \<mapsto> Starting created)) x = (if x = ?n then {s} else holders w P x)" for x
    using assms(2,3) t unused by (auto simp: holders_def)
  have small: "\<not> cancelled (bridges w x) \<Longrightarrow> x < ?n" for x using sched_invD(7) [OF inv, of x] by (meson not_le)
  have other: "live_ok (w', K, P(s \<mapsto> Starting created)) x" if "\<not> cancelled (bridges w x)" for x
  proof -
    have ne: "x \<noteq> ?n" using small [OF that] by simp
    show ?thesis
      using sched_invD(4) [OF inv that] by (rule live_mono) (use ne assms(3) None in \<open>auto simp: t e\<close>)
  qed
  have "live_ok (w', K, P(s \<mapsto> Starting created)) ?n"
    using h [of ?n] t w'(2) by (auto simp: live_ok_def e intro!: exI [of _ s])
  then have live: "live_ok (w', K, P(s \<mapsto> Starting created)) x" if "\<not> cancelled (bridges w' x)" for x
    using that other by (cases "x = ?n") (simp_all add: e)
  have k: "?n \<notin> K" using sched_invD(6) [OF inv, of ?n] by auto
  show ?thesis
  proof (rule sched_invI)
    have "{x. talk_of w' x \<noteq> None} = insert s {x. talk_of w x \<noteq> None}" using t by auto
    then show "finite {x. talk_of w' x \<noteq> None}" using sched_invD(1) [OF inv] by simp
    show "refs (bridges w' x) = int (card (holders w' (P(s \<mapsto> Starting created)) x))" for x
      unfolding h using sched_invD(2) [OF inv] by (simp add: e)
    show "x < nextBridge w'" if "talk_of w' y = Some x" for y x
      using that sched_invD(3) [OF inv, of y x] by (simp add: t e split: if_splits)
    show "tbPublisher (bridges w' x) = q \<and> \<not> cancelled (bridges w' x) \<and> x \<notin> K \<and> x < nextBridge w'"
      if "tpActive (publishers w' q) = Some x" for q x
      using that sched_invD(5) [OF inv, of q x] k by (auto simp: e split: if_splits)
    show "\<not> cancelled (bridges w' x) \<and> x < nextBridge w'" if "x \<in> K" for x
      using sched_invD(6) [OF inv that] by (simp add: e)
    show "cancelled (bridges w' x)" if "nextBridge w' \<le> x" for x
      using that sched_invD(7) [OF inv, of x] by (simp add: e)
  qed (fact live)
qed

lemma start_keeps:
  assumes inv: "sched_inv (w, K, P)" and "P s = Some (Starting created)" "talk_of w s = Some b"
  shows "sched_inv (start_rest s path inputs created b w, K, P(s := None))"
proof -
  let ?w = "start_rest s path inputs created b w"
  have "sessions w s = Some (session_of s w)" using assms(3) by (auto simp: session_of_def fresh_session_def split: option.splits)
  then have "the (sessions w s) = session_of s w" by simp
  then have t: "talk_of ?w x = talk_of w x" for x
    by (simp add: start_rest_def bindInputs_def Let_def) (simp add: session_of_def)
  have e: "refs (bridges ?w x) = refs (bridges w x)" "cancelled (bridges ?w x) = cancelled (bridges w x)"
    "tbPublisher (bridges ?w x) = tbPublisher (bridges w x)" "publishers ?w = publishers w"
    "pipelines ?w = (if created then b # pipelines w else pipelines w)" "nextBridge ?w = nextBridge w" for x
    by (simp_all add: start_rest_def bindInputs_def Let_def)
  have h: "holders ?w (P(s := None)) x = holders w P x" for x
    using assms(2) by (auto simp: holders_def t)
  have live: "live_ok (?w, K, P(s := None)) x" if "\<not> cancelled (bridges w x)" for x
  proof -
    have ok: "live_ok (w, K, P) x" using sched_invD(4) [OF inv that] .
    have "(\<exists>z. talk_of w z = Some x \<and> P z = Some (Letting True)) \<longrightarrow>
        (\<exists>z. talk_of w z = Some x \<and> (P(s := None)) z = Some (Letting True))"
      using assms(2) by (metis (no_types, lifting) fun_upd_other option.inject talk_pc.distinct(1))
    moreover have "x \<in> set (pipelines ?w) \<or> (\<exists>z. talk_of w z = Some x \<and> (P(s := None)) z = Some (Starting True))"
      using ok assms(2,3) e(5) unfolding live_ok_def prod.case
      by (metis (no_types, lifting) fun_upd_other list.set_intros option.inject talk_pc.inject(1))
    ultimately show ?thesis using ok h [of x] by (simp only: live_ok_def prod.case t e(3,4)) blast
  qed
  show ?thesis
  proof (rule sched_invI)
    show "refs (bridges ?w x) = int (card (holders ?w (P(s := None)) x))" for x
      unfolding h e(1) by (rule sched_invD(2) [OF inv])
  qed (use live sched_invD(1,3,5-7) [OF inv] in \<open>simp_all add: e t\<close>)
qed

lemma count_keeps:
  assumes inv: "sched_inv (w, K, P)" and "P s = None" "talk_of w s = Some b" "release_count b w = (lst, w')"
  shows "sched_inv (w', K, P(s \<mapsto> Letting lst))"
proof -
  have w': "w' = upd_bridge b (\<lambda>tb. tb\<lparr>refs := refs tb - 1\<rparr>) w" "lst = (refs (bridges w b) \<le> 1)"
    using assms(4) by (auto simp: release_count_def Let_def)
  have t: "talk_of w' x = talk_of w x" for x by (simp add: w' session_of_def)
  have e: "refs (bridges w' x) = (if x = b then refs (bridges w b) - 1 else refs (bridges w x))"
    "cancelled (bridges w' x) = cancelled (bridges w x)" "tbPublisher (bridges w' x) = tbPublisher (bridges w x)"
    "publishers w' = publishers w" "pipelines w' = pipelines w" "nextBridge w' = nextBridge w" for x
    by (simp_all add: w')
  let ?P = "P(s \<mapsto> Letting lst)"
  have h: "holders w' ?P x = holders w P x - {s}" for x by (auto simp: holders_def t)
  have s: "s \<in> holders w P b" "\<And>x. x \<noteq> b \<Longrightarrow> s \<notin> holders w P x" using assms(2,3) by (simp_all add: holders_def)
  have card: "card (holders w P b - {s}) = card (holders w P b) - 1" "0 < card (holders w P b)"
    using s(1) holders_finite [OF inv, of b] by (auto simp: card_gt_0_iff)
  have last: lst if "holders w P b - {s} = {}"
  proof -
    have "card (holders w P b) \<le> 1" using card that by (metis card.empty diff_is_0_eq)
    then show ?thesis using w'(2) sched_invD(2) [OF inv, of b] by simp
  qed
  have live: "live_ok (w', K, ?P) x" if "\<not> cancelled (bridges w x)" for x
  proof (cases "x = b")
    case True
    have ok: "live_ok (w, K, P) b" using sched_invD(4) [OF inv] that True by simp
    have "holders w' ?P b \<noteq> {} \<or> talk_of w' s = Some b \<and> ?P s = Some (Letting True)"
      using last assms(3) by (auto simp: h t)
    moreover have "(\<exists>z. talk_of w z = Some b \<and> P z = Some (Starting True)) \<longrightarrow>
        (\<exists>z. talk_of w' z = Some b \<and> ?P z = Some (Starting True))"
      using assms(2) t by (metis fun_upd_other option.distinct(1))
    ultimately show ?thesis using ok by (simp only: live_ok_def prod.case e True) blast
  next
    case False
    show ?thesis
      using sched_invD(4) [OF inv that] by (rule live_mono) (use False assms(3) in \<open>auto simp: t e\<close>)
  qed
  show ?thesis
  proof (rule sched_invI)
    show "refs (bridges w' x) = int (card (holders w' ?P x))" for x
      unfolding h e(1) using card s(2) [of x] sched_invD(2) [OF inv, of x] by auto
  qed (use live sched_invD(1,3,5-7) [OF inv] in \<open>simp_all add: e t\<close>)
qed

lemma finish_view:
  "talk_of (finish b w) x = talk_of w x" "bridges (finish b w) = bridges w" "pipelines (finish b w) = pipelines w"
  "nextBridge (finish b w) = nextBridge w"
  by (simp_all add: finish_def session_of_def Let_def)

lemma finish_keeps:
  assumes inv: "sched_inv (w, K, P)" and "talk_of w s = Some b" "\<not> cancelled (bridges w b)"
  shows "sched_inv (finish b w, insert b K, P)"
proof -
  have h: "holders (finish b w) P x = holders w P x" for x by (simp add: holders_def finish_view)
  have act: "tpActive (publishers (finish b w) q) = (if tpActive (publishers w q) = Some b then None else tpActive (publishers w q))" for q
    using sched_invD(5) [OF inv, of q b] by (auto simp: finish_active)
  have live: "live_ok (finish b w, insert b K, P) x" if "\<not> cancelled (bridges w x)" for x
    using sched_invD(4) [OF inv that] by (rule live_mono) (auto simp: finish_view act)
  show ?thesis
  proof (rule sched_invI)
    show "refs (bridges (finish b w) x) = int (card (holders (finish b w) P x))" for x
      unfolding h finish_view by (rule sched_invD(2) [OF inv])
    show "tbPublisher (bridges (finish b w) x) = q \<and> \<not> cancelled (bridges (finish b w) x) \<and> x \<notin> insert b K
        \<and> x < nextBridge (finish b w)" if "tpActive (publishers (finish b w) q) = Some x" for q x
      using that sched_invD(5) [OF inv, of q x] by (simp add: act finish_view split: if_splits)
    show "\<not> cancelled (bridges (finish b w) x) \<and> x < nextBridge (finish b w)" if "x \<in> insert b K" for x
      using that sched_invD(6) [OF inv, of x] sched_invD(3) [OF inv assms(2)] assms(3) by (auto simp: finish_view)
  qed (use live sched_invD(1,3,7) [OF inv] in \<open>simp_all add: finish_view\<close>)
qed

lemma cancel_keeps:
  assumes inv: "sched_inv (w, K, P)" and "b \<in> K"
  shows "sched_inv (cancel_bridge b w, K - {b}, P)"
proof -
  let ?w = "cancel_bridge b w"
  have t: "talk_of ?w x = talk_of w x" for x by (simp add: cancel_bridge_def session_of_def)
  have e: "refs (bridges ?w x) = refs (bridges w x)" "cancelled (bridges ?w x) = (x = b \<or> cancelled (bridges w x))"
    "tbPublisher (bridges ?w x) = tbPublisher (bridges w x)" "publishers ?w = publishers w" "pipelines ?w = pipelines w"
    "nextBridge ?w = nextBridge w" for x
    by (simp_all add: cancel_bridge_def)
  have h: "holders ?w P x = holders w P x" for x by (simp add: holders_def t)
  have live: "live_ok (?w, K - {b}, P) x" if "x \<noteq> b" "\<not> cancelled (bridges w x)" for x
    using sched_invD(4) [OF inv that(2)] by (rule live_mono) (use that(1) in \<open>auto simp: t e\<close>)
  show ?thesis
  proof (rule sched_invI)
    show "refs (bridges ?w x) = int (card (holders ?w P x))" for x unfolding h e by (rule sched_invD(2) [OF inv])
    show "tbPublisher (bridges ?w x) = q \<and> \<not> cancelled (bridges ?w x) \<and> x \<notin> K - {b} \<and> x < nextBridge ?w"
      if "tpActive (publishers ?w q) = Some x" for q x
      using that sched_invD(5) [OF inv, of q x] assms(2) by (auto simp: e)
  qed (use live sched_invD(1,3,6,7) [OF inv] in \<open>auto simp: e t\<close>)
qed

lemma clear_keeps:
  assumes inv: "sched_inv (w, K, P)" and "P s = Some (Letting lst)" "talk_of w s = Some b" "lst \<longrightarrow> cancelled (bridges w b)"
  shows "sched_inv (clear_talk s w, K, P(s := None))"
proof -
  let ?w = "clear_talk s w"
  have t: "talk_of ?w x = (if x = s then None else talk_of w x)" for x by (simp add: clear_talk_def)
  have e: "bridges ?w = bridges w" "publishers ?w = publishers w" "pipelines ?w = pipelines w" "nextBridge ?w = nextBridge w"
    by (simp_all add: clear_talk_def)
  have h: "holders ?w (P(s := None)) x = holders w P x" for x using assms(2) by (auto simp: holders_def t)
  have live: "live_ok (?w, K, P(s := None)) x" if "\<not> cancelled (bridges w x)" for x
  proof -
    have "talk_of w s = Some x \<Longrightarrow> P s = Some (Letting False)" using that assms(2-4) by auto
    then show ?thesis
      by (intro live_mono [OF sched_invD(4) [OF inv that]]) (auto simp: t e)
  qed
  show ?thesis
  proof (rule sched_invI)
    have "{x. talk_of ?w x \<noteq> None} \<subseteq> {x. talk_of w x \<noteq> None}" by (auto simp: t)
    then show "finite {x. talk_of ?w x \<noteq> None}" using sched_invD(1) [OF inv] by (rule finite_subset)
    show "refs (bridges ?w x) = int (card (holders ?w (P(s := None)) x))" for x unfolding h e by (rule sched_invD(2) [OF inv])
  qed (use live sched_invD(3,5-7) [OF inv] in \<open>simp_all add: e t split: if_splits\<close>)
qed

lemma ended_keeps:
  assumes inv: "sched_inv (w, K, P)" and "cancelled (bridges w b)"
  shows "sched_inv (w\<lparr>pipelines := remove1 b (pipelines w)\<rparr>, K, P)"
proof -
  let ?w = "w\<lparr>pipelines := remove1 b (pipelines w)\<rparr>"
  have t: "talk_of ?w x = talk_of w x" for x by (simp add: session_of_def)
  have h: "holders ?w P x = holders w P x" for x by (simp add: holders_def t)
  have live: "live_ok (?w, K, P) x" if "\<not> cancelled (bridges w x)" for x
    using sched_invD(4) [OF inv that] by (rule live_mono) (use that assms(2) in \<open>auto simp: t intro!: in_set_remove1 [THEN iffD2]\<close>)
  show ?thesis
  proof (rule sched_invI)
    show "refs (bridges ?w x) = int (card (holders ?w P x))" for x unfolding h using sched_invD(2) [OF inv, of x] by simp
  qed (use live sched_invD(1,3,5-7) [OF inv] in \<open>simp_all add: t\<close>)
qed

lemma same_talk_keeps:
  assumes inv: "sched_inv (w, K, P)" and same: "same_talk w w'"
  shows "sched_inv (w', K, P)"
proof -
  note e = same [unfolded same_talk_def]
  have h: "holders w' P x = holders w P x" for x using e by (simp add: holders_def)
  have live: "live_ok (w', K, P) x" if "\<not> cancelled (bridges w x)" for x
    using sched_invD(4) [OF inv that] by (rule live_mono) (use e in auto)
  show ?thesis
  proof (rule sched_invI)
    show "refs (bridges w' x) = int (card (holders w' P x))" for x unfolding h using sched_invD(2) [OF inv, of x] e by simp
  qed (use live sched_invD(1,3,5-7) [OF inv] e in simp_all)
qed

lemma talk_step_inv: "talk_step x y \<Longrightarrow> sched_inv x \<Longrightarrow> sched_inv y"
proof (induction rule: talk_step.induct)
  case (talk_ended_finish w b K P)
  then have "tpActive (publishers w (tbPublisher (bridges w b))) \<noteq> Some b" using sched_invD(5) by blast
  then have "finish b w = w" by (simp add: finish_def Let_def)
  then show ?case using talk_ended_finish by simp
qed (auto intro: attach_keeps start_keeps count_keeps finish_keeps cancel_keeps clear_keeps ended_keeps same_talk_keeps)

abbreviation no_talk :: talk_sched where
  "no_talk \<equiv> (newRTSPServerHandler, {}, Map.empty)"

lemma sched_inv_new: "sched_inv no_talk"
  by (rule sched_invI)
    (auto simp: newRTSPServerHandler_def newRTSPTalkPublisher_def session_of_def fresh_session_def holders_def)

lemma talk_steps_inv: "talk_step\<^sup>*\<^sup>* no_talk x \<Longrightarrow> sched_inv x"
  by (induction rule: rtranclp_induct) (auto intro: sched_inv_new talk_step_inv)

section \<open>One bridge per camera\<close>

text \<open>C8: A camera has one talk bridge at a time, shared by the sessions that talk to it, in every schedule: however the
  calls of any number of sessions interleave, the count of each bridge is the number of sessions that hold it; a
  live bridge has a holder, or the last one has let go and closes it; its pipeline runs, or the session that made
  it is about to start it; of two live bridges of a camera one is being closed; the bridge that the next session
  of a camera would join is a live one of that camera which nobody has begun to close. So whenever no call is
  under way, a live bridge has a session attached, its pipeline running, and is the one the next session
  joins.\<close>

theorem talk_bridge_shared:
  assumes "talk_step\<^sup>*\<^sup>* no_talk (w, K, P)"
  shows "refs (bridges w b) = int (card {s. talk_of w s = Some b \<and> (\<forall>l. P s \<noteq> Some (Letting l))})
    \<and> (\<not> cancelled (bridges w b) \<longrightarrow>
        ((\<exists>s. talk_of w s = Some b \<and> (\<forall>l. P s \<noteq> Some (Letting l)))
          \<or> b \<in> K \<or> (\<exists>s. talk_of w s = Some b \<and> P s = Some (Letting True)))
        \<and> (b \<in> set (pipelines w) \<or> (\<exists>s. talk_of w s = Some b \<and> P s = Some (Starting True)))
        \<and> (\<forall>b'. \<not> cancelled (bridges w b') \<and> tbPublisher (bridges w b') = tbPublisher (bridges w b) \<longrightarrow>
              b' = b \<or> b \<in> K \<or> b' \<in> K))
    \<and> (\<forall>p. tpActive (publishers w p) = Some b \<longrightarrow>
        tbPublisher (bridges w b) = p \<and> \<not> cancelled (bridges w b) \<and> b \<notin> K)
    \<and> (K = {} \<and> P = Map.empty \<and> \<not> cancelled (bridges w b) \<longrightarrow>
        (\<exists>s. talk_of w s = Some b) \<and> b \<in> set (pipelines w)
        \<and> tpActive (publishers w (tbPublisher (bridges w b))) = Some b)"
proof -
  have inv: "sched_inv (w, K, P)" using talk_steps_inv [OF assms] .
  have live: "live_ok (w, K, P) x" if "\<not> cancelled (bridges w x)" for x using sched_invD(4) [OF inv that] .
  have one: "b' = b \<or> b \<in> K \<or> b' \<in> K" if "\<not> cancelled (bridges w b)" "\<not> cancelled (bridges w b')"
    "tbPublisher (bridges w b') = tbPublisher (bridges w b)" for b'
    using live [OF that(1)] live [OF that(2)] that(3) unfolding live_ok_def prod.case by force
  show ?thesis
    using sched_invD(2) [OF inv, of b] sched_invD(5) [OF inv, of _ b] live [of b] one
    unfolding live_ok_def prod.case holders_def by auto
qed

text \<open>One session talks: it makes the bridge, starts its pipeline, and is its one holder.\<close>

lemma one_talk:
  "\<exists>w. talk_step\<^sup>*\<^sup>* no_talk (w, {}, Map.empty) \<and> talk_of w 1 = Some 0 \<and> (\<forall>s. s \<noteq> 1 \<longrightarrow> talk_of w s = None)
     \<and> \<not> cancelled (bridges w 0) \<and> tbPublisher (bridges w 0) = 7"
proof -
  have none: "talk_of newRTSPServerHandler s = None" for s
    by (simp add: session_of_def newRTSPServerHandler_def fresh_session_def)
  let ?w0 = newRTSPServerHandler
  have idle: "tpActive (publishers ?w0 7) = None" "nextBridge ?w0 = 0"
    by (simp_all add: newRTSPServerHandler_def newRTSPTalkPublisher_def)
  define w1 where "w1 = put_session 1 ((session_of 1 ?w0)\<lparr>ssTalk := Some (nextBridge ?w0)\<rparr>)
    (?w0\<lparr>publishers := (publishers ?w0)(7 := (publishers ?w0 7)\<lparr>tpActive := Some (nextBridge ?w0)\<rparr>),
       bridges := (bridges ?w0)(nextBridge ?w0 := \<lparr>tbPublisher = 7, tbPath = [], cancelled = False, refs = 1, pcmQueue = []\<rparr>),
       nextBridge := nextBridge ?w0 + 1\<rparr>)"
  have ens: "ensureSessionState 1 7 ?w0 = (0, True, w1)"
    by (subst ensure_new [OF none]) (simp_all only: idle w1_def option.case option.distinct)
  have w1: "talk_of w1 1 = Some 0" "\<not> cancelled (bridges w1 0)" "tbPublisher (bridges w1 0) = 7"
    by (simp_all add: w1_def idle session_of_def)
  have w1': "talk_of w1 s = None" if "s \<noteq> 1" for s
    using that none [of s] by (simp add: w1_def session_of_def)
  let ?w2 = "start_rest 1 ''cam_talk'' [undefined] True 0 w1"
  have a: "talk_step no_talk (w1, {}, [1 \<mapsto> Starting True])" using talk_attach [of Map.empty 1, OF _ none ens] by simp
  have b: "talk_step (w1, {}, [1 \<mapsto> Starting True]) (?w2, {}, [1 \<mapsto> Starting True](1 := None))"
    using w1(1) by (intro talk_start) simp_all
  have run: "talk_step\<^sup>*\<^sup>* no_talk (?w2, {}, Map.empty)"
    by (rule rtranclp.rtrancl_into_rtrancl [where b = "(w1, {}, [1 \<mapsto> Starting True])"]) (use a b in auto)
  have "sessions w1 1 = Some (session_of 1 w1)" using w1(1) by (auto simp: session_of_def fresh_session_def split: option.splits)
  then have t: "talk_of ?w2 s = talk_of w1 s" for s
    by (simp add: start_rest_def bindInputs_def Let_def) (simp add: session_of_def)
  have "\<not> cancelled (bridges ?w2 0)" "tbPublisher (bridges ?w2 0) = 7"
    using w1 by (simp_all add: start_rest_def bindInputs_def Let_def)
  then show ?thesis using run t w1(1) w1' by (intro exI [of _ ?w2]) simp
qed

theorem talk_bridge_shared_witness:
  "\<exists>w. talk_step\<^sup>*\<^sup>* no_talk (w, {}, Map.empty) \<and> \<not> cancelled (bridges w 0) \<and> refs (bridges w 0) = 1
     \<and> 0 \<in> set (pipelines w) \<and> tpActive (publishers w 7) = Some 0"
proof -
  obtain w where w: "talk_step\<^sup>*\<^sup>* no_talk (w, {}, Map.empty)" "talk_of w 1 = Some 0" "\<forall>s. s \<noteq> 1 \<longrightarrow> talk_of w s = None"
      "\<not> cancelled (bridges w 0)" "tbPublisher (bridges w 0) = 7"
    using one_talk by blast
  have "{s. talk_of w s = Some 0} = {1}" using w(2,3) by (auto; metis option.distinct(1))
  then have "refs (bridges w 0) = 1 \<and> 0 \<in> set (pipelines w) \<and> tpActive (publishers w 7) = Some 0"
    using w(4,5) talk_bridge_shared [OF w(1), of 0] by simp
  with w show ?thesis by blast
qed

text \<open>
  What the code does not guarantee: a session that comes between the count of a release and its close joins a bridge
  that is then cancelled under it, and stays attached to it (lemma \<open>release_race\<close> of \<^theory_text>\<open>Rtsp\<close> gives the run).
\<close>

end
