(* ===== verification/Bridge.thy ===== *)
theory Bridge
  imports Rtsp Timeline
begin

text \<open>
  The bridge, \<^verbatim>\<open>pkg/bridge/bridge.go\<close>: its life, adding and removing cameras, the paths a camera is
  given and the URLs it answers with, and the gate that lets an unwatched camera go. Cameras, stream
  metadata, stream handlers and talk publishers live in stores; the goroutines a camera starts are
  recorded with the arguments they get.
\<close>

section \<open>Data\<close>

text \<open>The logger of the options is left out.\<close>

record options =
  RTSPAddress :: string
  RTPAddress :: string
  RTCPAddress :: string
  EnableRTCPSenderReports :: bool
  WebhookAddress :: string
  LogPackets :: bool

definition options_applyDefaults :: "options \<Rightarrow> options" where
  "options_applyDefaults o' = (if RTSPAddress o' = [] then o'\<lparr>RTSPAddress := ''127.0.0.1:8554''\<rparr> else o')"

record stream_meta =
  mdCamera :: string
  mdName :: string
  mdPath :: string
  mdWidth :: u32
  mdHeight :: u32
  mdFPS :: byte
  mdAudioCodec :: string
  mdAudioRate :: int
  mdAudioChannels :: int
  mdVideoCodec :: string

definition new_meta :: "string \<Rightarrow> string \<Rightarrow> string \<Rightarrow> stream_meta" where
  "new_meta cam name path = \<lparr>mdCamera = cam, mdName = name, mdPath = path, mdWidth = 0, mdHeight = 0, mdFPS = 0,
     mdAudioCodec = [], mdAudioRate = 0, mdAudioChannels = 0, mdVideoCodec = []\<rparr>"

definition setVideoInfo :: "u32 \<Rightarrow> u32 \<Rightarrow> byte \<Rightarrow> string \<Rightarrow> stream_meta \<Rightarrow> stream_meta" where
  "setVideoInfo w h fps codec m =
     (let m = m\<lparr>mdWidth := w, mdHeight := h, mdFPS := fps\<rparr>
      in if codec \<noteq> [] then m\<lparr>mdVideoCodec := codec\<rparr> else m)"

definition setVideoCodec :: "string \<Rightarrow> stream_meta \<Rightarrow> stream_meta" where
  "setVideoCodec codec m = m\<lparr>mdVideoCodec := codec\<rparr>"

definition setAudioAAC :: "int \<Rightarrow> int \<Rightarrow> stream_meta \<Rightarrow> stream_meta" where
  "setAudioAAC rate chans m = m\<lparr>mdAudioCodec := ''AAC'', mdAudioRate := rate, mdAudioChannels := chans\<rparr>"

definition setAudioG711 :: "int \<Rightarrow> int \<Rightarrow> stream_meta \<Rightarrow> stream_meta" where
  "setAudioG711 rate chans m = m\<lparr>mdAudioCodec := ''PCMA'', mdAudioRate := rate, mdAudioChannels := chans\<rparr>"

text \<open>The arguments of \<^verbatim>\<open>WatchEvents\<close>, of the device, and of one \<^verbatim>\<open>runStream\<close>; \<open>plGate\<close> is the idle timeout.\<close>

record watch_args =
  waPollBattery :: bool
  waLetSleep :: bool
  waWebhookURL :: string
  waLowPower :: bool
  waBackoff :: int

record pipeline_args =
  plStream :: string
  plProfile :: string
  plHandler :: nat
  plMeta :: nat
  plPause :: pause_config
  plGate :: "int option"
  plHint :: "audio_hint option"

record camera =
  caConfig :: camera_config
  caPaths :: "string list"
  caStreams :: "nat list"
  caLive :: int
  caState :: bridged
  caWatch :: watch_args
  caPipelines :: "pipeline_args list"
  caCancelled :: bool
  caDeviceClosed :: bool

record bridge_state =
  opts :: options
  rtspOf :: rtsp
  serverSet :: bool
  webhook :: "nat webhook_server option"
  camerasOf :: "string \<rightharpoonup> nat"
  startedB :: bool
  closedB :: bool
  camStore :: "nat \<Rightarrow> camera"
  nextCam :: nat
  metaStore :: "nat \<Rightarrow> stream_meta"
  nextMeta :: nat
  nextHandler :: nat

definition no_camera :: camera where
  "no_camera = \<lparr>caConfig = demo_config, caPaths = [], caStreams = [], caLive = 0, caState = demo_bridged,
     caWatch = \<lparr>waPollBattery = False, waLetSleep = False, waWebhookURL = [], waLowPower = False, waBackoff = 0\<rparr>,
     caPipelines = [], caCancelled = True, caDeviceClosed = True\<rparr>"

section \<open>The life of the bridge\<close>

definition new_bridge :: "options \<Rightarrow> bridge_state" where
  "new_bridge o' =
     (let o' = options_applyDefaults o'
      in \<lparr>opts = o', rtspOf = newRTSPServerHandler, serverSet = False,
          webhook = (if WebhookAddress o' \<noteq> [] then Some newWebhookServer else None),
          camerasOf = Map.empty, startedB = False, closedB = False, camStore = (\<lambda>_. no_camera), nextCam = 0,
          metaStore = (\<lambda>_. new_meta [] [] []), nextMeta = 0, nextHandler = 0\<rparr>)"

datatype bridge_fault = BridgeClosed | ServerFailed | NotStarted | CameraExists string | CameraNotFound string
  | BadConfig config_error

text \<open>\<open>listens\<close>: the RTSP library's server could start.\<close>

definition bridge_Start :: "bool \<Rightarrow> bridge_state \<Rightarrow> bridge_fault option \<times> bridge_state" where
  "bridge_Start listens b =
     (if closedB b then (Some BridgeClosed, b)
      else if startedB b then (None, b)
      else let b = b\<lparr>serverSet := True\<rparr>
           in if \<not> listens then (Some ServerFailed, b) else (None, b\<lparr>startedB := True\<rparr>))"

definition upd_rtsp :: "(rtsp \<Rightarrow> rtsp) \<Rightarrow> bridge_state \<Rightarrow> bridge_state" where
  "upd_rtsp f b = b\<lparr>rtspOf := f (rtspOf b)\<rparr>"

definition upd_camera :: "nat \<Rightarrow> (camera \<Rightarrow> camera) \<Rightarrow> bridge_state \<Rightarrow> bridge_state" where
  "upd_camera c f b = b\<lparr>camStore := (camStore b)(c := f (camStore b c))\<rparr>"

definition camera_stop :: "nat \<Rightarrow> bridge_state \<Rightarrow> bridge_state" where
  "camera_stop c b =
     (let b = upd_camera c (\<lambda>ca. ca\<lparr>caCancelled := True, caDeviceClosed := True\<rparr>) b;
          b = upd_rtsp (removePaths (caPaths (camStore b c))) b
      in case webhook b of
           None \<Rightarrow> b
         | Some ws \<Rightarrow> b\<lparr>webhook := Some (unregister (camName (caConfig (camStore b c))) ws)\<rparr>)"

text \<open>\<open>order\<close> is the order in which the map of cameras is walked.\<close>

definition bridge_Close :: "string list \<Rightarrow> bridge_state \<Rightarrow> bridge_state" where
  "bridge_Close order b =
     (if closedB b then b
      else let cams = List.map_filter (camerasOf b) order;
               b = b\<lparr>closedB := True, camerasOf := Map.empty\<rparr>;
               b = fold camera_stop cams b
           in case webhook b of None \<Rightarrow> b | Some ws \<Rightarrow> b\<lparr>webhook := Some (snd (ws_close ws))\<rparr>)"

definition RemoveCamera :: "string \<Rightarrow> bridge_state \<Rightarrow> bridge_fault option \<times> bridge_state" where
  "RemoveCamera name b =
     (case camerasOf b name of
        None \<Rightarrow> (Some (CameraNotFound name), b)
      | Some c \<Rightarrow> (None, camera_stop c (b\<lparr>camerasOf := (camerasOf b)(name := None)\<rparr>)))"

definition Camera :: "string \<Rightarrow> bridge_state \<Rightarrow> nat option" where
  "Camera name b = camerasOf b name"

section \<open>URLs\<close>

text \<open>\<open>outbound\<close> is the address of this host towards the network.\<close>

definition rtspURL :: "string \<Rightarrow> bridge_state \<Rightarrow> string \<Rightarrow> string" where
  "rtspURL outbound b path = buildURL ''rtsp'' (advertisedAuthority outbound (RTSPAddress (opts b)) []) path"

definition webhookURL :: "string \<Rightarrow> bridge_state \<Rightarrow> string \<Rightarrow> string" where
  "webhookURL outbound b name =
     ''http://'' @ advertisedAuthority outbound (WebhookAddress (opts b)) [] @ ''/'' @ name"

definition pathForProfile :: "camera_config \<Rightarrow> string \<Rightarrow> string" where
  "pathForProfile c profile =
     (let basePath = trim_prefix_slash (camRTSPPath c); profile = normalizeProfileName profile
      in if profile = [] \<or> length (camStreams c) = 1 then basePath else basePath @ ''_'' @ profile)"

definition StreamURL :: "string \<Rightarrow> bridge_state \<Rightarrow> camera \<Rightarrow> string \<Rightarrow> string" where
  "StreamURL outbound b ca profile = rtspURL outbound b (pathForProfile (caConfig ca) profile)"

definition TwoWayURL :: "string \<Rightarrow> bridge_state \<Rightarrow> camera \<Rightarrow> string \<Rightarrow> string" where
  "TwoWayURL outbound b ca profile = rtspURL outbound b (twoWayPathForStream (pathForProfile (caConfig ca) profile))"

definition TalkURL :: "string \<Rightarrow> bridge_state \<Rightarrow> camera \<Rightarrow> string" where
  "TalkURL outbound b ca = rtspURL outbound b (talkPathForCamera (camRTSPPath (caConfig ca)))"

definition Streams :: "string \<Rightarrow> bridge_state \<Rightarrow> camera \<Rightarrow> (stream_meta \<times> string) list" where
  "Streams outbound b ca =
     map (\<lambda>m. (metaStore b m, rtspURL outbound b (mdPath (metaStore b m)))) (caStreams ca)"

definition SetLiveCatchUp :: "int \<Rightarrow> camera \<Rightarrow> camera" where
  "SetLiveCatchUp d ca = ca\<lparr>caLive := (if d < 0 then 0 else d)\<rparr>"

section \<open>The streams of a camera\<close>

record stream_setup =
  suBridge :: bridge_state
  suMetas :: "nat list"
  suPaths :: "string list"
  suPreferredMeta :: "nat option"
  suPreferred :: "(nat \<times> nat) option"
  suPipelines :: "pipeline_args list"

text \<open>A fresh handler for a path, with the server attached.\<close>

definition make_handler :: "string \<Rightarrow> bridge_state \<Rightarrow> nat \<times> bridge_state" where
  "make_handler path b =
     (let h = nextHandler b;
          b = upd_rtsp (\<lambda>w. w\<lparr>handlers := (handlers w)(h := newRTSPStreamHandler path)\<rparr>) b;
          b = (if serverSet b then upd_rtsp (attachServer h) b else b)
      in (h, b\<lparr>nextHandler := h + 1\<rparr>))"

definition backChannelMedia :: nat where "backChannelMedia = 2"

text \<open>One turn of the loop over the profiles; \<open>p\<close> is the talk publisher.\<close>

definition setup_stream :: "camera_config \<Rightarrow> nat \<Rightarrow> motion_snapshot option \<Rightarrow> string \<Rightarrow> stream_setup \<Rightarrow> stream_setup" where
  "setup_stream c p motion s su =
     (let preferred = preferredTalkProfile c;
          basePath = trim_prefix_slash (camRTSPPath c);
          multi = (length (camStreams c) > 1);
          path = (if multi then basePath @ ''_'' @ s else basePath);
          isPreferred = (multi \<and> preferred \<noteq> [] \<and> s = preferred);
          metaPath = (if isPreferred then basePath else path);
          b = suBridge su;
          m = nextMeta b;
          b = b\<lparr>metaStore := (metaStore b)(m := new_meta (camName c) s metaPath), nextMeta := m + 1\<rparr>;
          su = (if isPreferred then su\<lparr>suPreferredMeta := Some m\<rparr> else su\<lparr>suMetas := suMetas su @ [m]\<rparr>);
          (h, b) = make_handler path b;
          b = upd_rtsp (addStream path h) b;
          twoWayPath = twoWayPathForStream path;
          (tw, b) = make_handler twoWayPath b;
          b = upd_rtsp (setExtraMedias [Some backChannelMedia] tw) b;
          b = upd_rtsp (addMirror (Some tw) h) b;
          b = upd_rtsp (addStream twoWayPath tw) b;
          b = upd_rtsp (addTalkAlias twoWayPath p) b;
          pl = \<lparr>plStream = parseStream s, plProfile = s, plHandler = h, plMeta = m,
                plPause = streamPauseConfig motion c,
                plGate = (if IdleDisconnect c then Some (IdleTimeout c) else None),
                plHint = AudioHints c s\<rparr>
      in su\<lparr>suBridge := b, suPaths := suPaths su @ [path, twoWayPath],
            suPreferred := (if isPreferred then Some (h, tw) else suPreferred su),
            suPipelines := suPipelines su @ [pl]\<rparr>)"

definition setupCameraStreams ::
  "camera_config \<Rightarrow> nat \<Rightarrow> motion_snapshot option \<Rightarrow> bridge_state \<Rightarrow>
   nat list \<times> string list \<times> pipeline_args list \<times> bridge_state" where
  "setupCameraStreams c p motion b =
     (let su = fold (setup_stream c p motion) (camStreams c)
                 \<lparr>suBridge = b, suMetas = [], suPaths = [], suPreferredMeta = None, suPreferred = None, suPipelines = []\<rparr>;
          basePath = trim_prefix_slash (camRTSPPath c);
          metas = (case suPreferredMeta su of Some m \<Rightarrow> m # suMetas su | None \<Rightarrow> suMetas su);
          (paths, b) =
            (case suPreferred su of
               Some (h, tw) \<Rightarrow>
                 if length (camStreams c) > 1 then
                   (let twoWayBasePath = twoWayPathForStream basePath
                    in (suPaths su @ [basePath, twoWayBasePath],
                        upd_rtsp (\<lambda>w. addTalkAlias twoWayBasePath p (addStream twoWayBasePath tw (addStream basePath h w)))
                          (suBridge su)))
                 else (suPaths su, suBridge su)
             | None \<Rightarrow> (suPaths su, suBridge su))
      in (metas, paths, suPipelines su, b))"

text \<open>A camera that is let to sleep gets a push address, unless the listener cannot be bound.\<close>

definition camera_webhook ::
  "string \<Rightarrow> string option \<Rightarrow> camera_config \<Rightarrow> nat \<Rightarrow> bridge_state \<Rightarrow> string \<times> bridge_state" where
  "camera_webhook outbound bind_err c cam b =
     (case webhook b of
        Some ws \<Rightarrow>
          if BatteryCamera c \<and> \<not> MainsPowered c then
            (case ensureStarted bind_err ws of
               (Some err, ws) \<Rightarrow> ([], b\<lparr>webhook := Some ws\<rparr>)
             | (None, ws) \<Rightarrow> (webhookURL outbound b (camName c), b\<lparr>webhook := Some (register (camName c) cam ws)\<rparr>))
          else ([], b)
      | None \<Rightarrow> ([], b))"

text \<open>
  Adding a camera. \<open>now\<close> dates the motion state, \<open>bind_err\<close> is the webhook listener's; the publisher and
  the camera share their number, and the device belongs to the camera.
\<close>

definition AddCamera ::
  "string \<Rightarrow> int \<Rightarrow> string option \<Rightarrow> camera_config \<Rightarrow> bridge_state \<Rightarrow> (bridge_fault + nat) \<times> bridge_state" where
  "AddCamera outbound now bind_err cfg0 b =
     (let c = ApplyDefaults cfg0 in
      case Validate c of
        Some e \<Rightarrow> (Inl (BadConfig e), b)
      | None \<Rightarrow>
          if closedB b then (Inl BridgeClosed, b)
          else if \<not> startedB b then (Inl NotStarted, b)
          else if camerasOf b (camName c) \<noteq> None then (Inl (CameraExists (camName c)), b)
          else
            let letSleep = (BatteryCamera c \<and> \<not> MainsPowered c);
                reconnectBackoff = (if letSleep then 30 * sec else 2 * sec);
                cam = nextCam b;
                talkPath = talkPathForCamera (camRTSPPath c);
                b = upd_rtsp (\<lambda>w. addTalk talkPath cam
                      (w\<lparr>publishers := (publishers w)(cam := newRTSPTalkPublisher talkPath)\<rparr>)) b;
                motion = (if PauseOnMotion c then Some (newCameraMotionState now) else None);
                (url, b) = camera_webhook outbound bind_err c cam b;
                watch = \<lparr>waPollBattery = BatteryCamera c, waLetSleep = letSleep, waWebhookURL = url,
                         waLowPower = (letSleep \<and> url \<noteq> []), waBackoff = reconnectBackoff\<rparr>;
                (metas, streamPaths, pls, b) = setupCameraStreams c cam motion b;
                ca = \<lparr>caConfig = c, caPaths = talkPath # streamPaths, caStreams = metas,
                      caLive = (case LiveCatchUp c of Some d \<Rightarrow> d | None \<Rightarrow> 0),
                      caState = \<lparr>bEvents = no_events, bMotion = motion, webhookAlarms = fresh_merger, pushSeen = False\<rparr>,
                      caWatch = watch, caPipelines = pls, caCancelled = False, caDeviceClosed = False\<rparr>
            in (Inr cam, b\<lparr>camStore := (camStore b)(cam := ca), nextCam := cam + 1,
                           camerasOf := (camerasOf b)(camName c \<mapsto> cam)\<rparr>))"

section \<open>The idle gate\<close>

text \<open>One question of the stream's goroutine; the state is \<^verbatim>\<open>idleSince\<close>.\<close>

definition idleGate :: "int \<Rightarrow> int \<Rightarrow> nat \<Rightarrow> rtsp \<Rightarrow> int option \<Rightarrow> (bool \<times> int option) option" where
  "idleGate now timeout h w idleSince =
     do { c \<leftarrow> hasClients h w;
          i \<leftarrow> (if c then Some True else interestedSince (now - timeout) h w);
          Some (if i then (True, None)
                else case idleSince of
                  None \<Rightarrow> (True, Some now)
                | Some t \<Rightarrow> (now - t < timeout, idleSince)) }"

section \<open>What adding a camera does to the tables\<close>

abbreviation streams_map :: "bridge_state \<Rightarrow> string \<rightharpoonup> nat" where
  "streams_map b \<equiv> map_of (rsStreams (rtspOf b))"
abbreviation talks_map :: "bridge_state \<Rightarrow> string \<rightharpoonup> nat" where
  "talks_map b \<equiv> map_of (rsTalks (rtspOf b))"
abbreviation sdp_map :: "bridge_state \<Rightarrow> string \<rightharpoonup> nat" where
  "sdp_map b \<equiv> map_of (rsTalkSDP (rtspOf b))"

definition keys_of :: "string list \<Rightarrow> string set" where
  "keys_of paths = trim_prefix_slash ` set paths"

lemma keys_of_simps [simp]:
  "keys_of [] = {}" "keys_of (p # ps) = insert (trim_prefix_slash p) (keys_of ps)"
  "keys_of (ps @ qs) = keys_of ps \<union> keys_of qs"
  by (auto simp: keys_of_def)

text \<open>The tables of two bridges agree but for some keys.\<close>

definition tables_agree :: "string set \<Rightarrow> bridge_state \<Rightarrow> bridge_state \<Rightarrow> bool" where
  "tables_agree K b b' = (\<forall>k. k \<notin> K \<longrightarrow>
     streams_map b' k = streams_map b k \<and> talks_map b' k = talks_map b k \<and> sdp_map b' k = sdp_map b k)"

lemma tables_agree_refl [simp]: "tables_agree K b b"
  by (simp add: tables_agree_def)

lemma tables_agree_trans: "tables_agree K b c \<Longrightarrow> tables_agree L c d \<Longrightarrow> tables_agree (K \<union> L) b d"
  by (simp add: tables_agree_def)

lemma make_handler_simps [simp]:
  "rsStreams (rtspOf (snd (make_handler path b))) = rsStreams (rtspOf b)"
  "rsTalks (rtspOf (snd (make_handler path b))) = rsTalks (rtspOf b)"
  "rsTalkSDP (rtspOf (snd (make_handler path b))) = rsTalkSDP (rtspOf b)"
  "fst (make_handler path b) = nextHandler b" "nextHandler (snd (make_handler path b)) = nextHandler b + 1"
  by (simp_all add: make_handler_def upd_rtsp_def attachServer_def Let_def)

lemma handler_rs_simps [simp]:
  "rsStreams (setExtraMedias ms h w) = rsStreams w" "rsTalks (setExtraMedias ms h w) = rsTalks w"
  "rsTalkSDP (setExtraMedias ms h w) = rsTalkSDP w"
  "rsStreams (addMirror m h w) = rsStreams w" "rsTalks (addMirror m h w) = rsTalks w"
  "rsTalkSDP (addMirror m h w) = rsTalkSDP w"
  by (simp_all add: setExtraMedias_def addMirror_def split: option.split)

lemma table_rs_simps [simp]:
  "map_of (rsStreams (addStream path h w)) = (map_of (rsStreams w))(trim_prefix_slash path \<mapsto> h)"
  "rsTalks (addStream path h w) = rsTalks w" "rsTalkSDP (addStream path h w) = rsTalkSDP w"
  "rsStreams (addTalkAlias path p w) = rsStreams w" "rsTalkSDP (addTalkAlias path p w) = rsTalkSDP w"
  "map_of (rsTalks (addTalkAlias path p w)) = (map_of (rsTalks w))(trim_prefix_slash path \<mapsto> p)"
  "rsStreams (addTalk path p w) = rsStreams w"
  "map_of (rsTalks (addTalk path p w)) = (map_of (rsTalks w))(trim_prefix_slash path \<mapsto> p)"
  "map_of (rsTalkSDP (addTalk path p w)) = (map_of (rsTalkSDP w))(trim_prefix_slash path \<mapsto> p)"
  by (simp_all add: addStream_def addTalk_def addTalkAlias_def update_conv' Let_def fun_eq_iff)

lemma upd_rtsp_simps [simp]:
  "rtspOf (upd_rtsp f b) = f (rtspOf b)" "nextHandler (upd_rtsp f b) = nextHandler b"
  "camerasOf (upd_rtsp f b) = camerasOf b" "webhook (upd_rtsp f b) = webhook b" "camStore (upd_rtsp f b) = camStore b"
  "nextCam (upd_rtsp f b) = nextCam b" "opts (upd_rtsp f b) = opts b" "closedB (upd_rtsp f b) = closedB b"
  "startedB (upd_rtsp f b) = startedB b"
  by (simp_all add: upd_rtsp_def)

text \<open>The path of a profile, and what one turn of the loop registers.\<close>

definition streamPath :: "camera_config \<Rightarrow> string \<Rightarrow> string" where
  "streamPath c s = (let basePath = trim_prefix_slash (camRTSPPath c)
     in if length (camStreams c) > 1 then basePath @ ''_'' @ s else basePath)"

lemma setup_stream_tables:
  fixes c s su
  defines "k \<equiv> trim_prefix_slash (streamPath c s)" and "tw \<equiv> trim_prefix_slash (twoWayPathForStream (streamPath c s))"
    and "h \<equiv> nextHandler (suBridge su)"
  shows "streams_map (suBridge (setup_stream c p motion s su)) = (streams_map (suBridge su))(k \<mapsto> h, tw \<mapsto> h + 1)"
    and "talks_map (suBridge (setup_stream c p motion s su)) = (talks_map (suBridge su))(tw \<mapsto> p)"
    and "rsTalkSDP (rtspOf (suBridge (setup_stream c p motion s su))) = rsTalkSDP (rtspOf (suBridge su))"
    and "suPaths (setup_stream c p motion s su) = suPaths su @ [streamPath c s, twoWayPathForStream (streamPath c s)]"
    and "nextHandler (suBridge (setup_stream c p motion s su)) = h + 2"
    and "map plProfile (suPipelines (setup_stream c p motion s su)) = map plProfile (suPipelines su) @ [s]"
    and "map plHandler (suPipelines (setup_stream c p motion s su)) = map plHandler (suPipelines su) @ [h]"
  by (simp_all add: setup_stream_def Let_def assms streamPath_def case_prod_beta)

definition profile_paths :: "camera_config \<Rightarrow> string \<Rightarrow> string list" where
  "profile_paths c s = [streamPath c s, twoWayPathForStream (streamPath c s)]"

text \<open>What the streams of a camera leave alone.\<close>

definition same_rest :: "bridge_state \<Rightarrow> bridge_state \<Rightarrow> bool" where
  "same_rest b b' = (camerasOf b' = camerasOf b \<and> webhook b' = webhook b \<and> camStore b' = camStore b
     \<and> nextCam b' = nextCam b \<and> opts b' = opts b \<and> closedB b' = closedB b \<and> startedB b' = startedB b)"

lemma same_rest_trans: "same_rest a b \<Longrightarrow> same_rest b c \<Longrightarrow> same_rest a c"
  by (simp add: same_rest_def)

lemma setup_stream_rest: "same_rest (suBridge su) (suBridge (setup_stream c p motion s su))"
  by (simp add: same_rest_def setup_stream_def make_handler_def Let_def)

lemma fold_setup:
  "tables_agree (keys_of (concat (map (profile_paths c) ss))) (suBridge su) (suBridge (fold (setup_stream c p motion) ss su))
   \<and> suPaths (fold (setup_stream c p motion) ss su) = suPaths su @ concat (map (profile_paths c) ss)
   \<and> map plProfile (suPipelines (fold (setup_stream c p motion) ss su)) = map plProfile (suPipelines su) @ ss
   \<and> same_rest (suBridge su) (suBridge (fold (setup_stream c p motion) ss su))"
proof (induction ss arbitrary: su)
  case (Cons s ss)
  let ?su = "setup_stream c p motion s su"
  have "tables_agree (keys_of (profile_paths c s)) (suBridge su) (suBridge ?su)"
    by (auto simp: tables_agree_def setup_stream_tables profile_paths_def)
  then show ?case
    using Cons.IH [of ?su] setup_stream_rest [of su c p motion s]
    by (auto simp: setup_stream_tables profile_paths_def intro: tables_agree_trans same_rest_trans
      dest: tables_agree_trans)
qed (simp add: same_rest_def)

lemma setupCameraStreams_effect:
  assumes "setupCameraStreams c p motion b = (metas, paths, pls, b')"
  shows "tables_agree (keys_of paths) b b'" "same_rest b b'" "map plProfile pls = camStreams c"
    "set (concat (map (profile_paths c) (camStreams c))) \<subseteq> set paths"
proof -
  define su where "su = fold (setup_stream c p motion) (camStreams c)
    \<lparr>suBridge = b, suMetas = [], suPaths = [], suPreferredMeta = None, suPreferred = None, suPipelines = []\<rparr>"
  note fs = fold_setup [of c "camStreams c" "\<lparr>suBridge = b, suMetas = [], suPaths = [], suPreferredMeta = None,
    suPreferred = None, suPipelines = []\<rparr>" p motion, folded su_def, simplified]
  obtain x where x: "(paths, b') = (suPaths su @ fst x, snd x)" "tables_agree (keys_of (fst x)) (suBridge su) (snd x)"
    "same_rest (suBridge su) (snd x)" "pls = suPipelines su"
  proof (cases "suPreferred su")
    case None
    then show ?thesis
      using assms that [of "([], suBridge su)"] by (simp add: setupCameraStreams_def su_def [symmetric] same_rest_def Let_def)
  next
    case (Some ht)
    obtain h tw where "ht = (h, tw)" by fastforce
    then show ?thesis
      using assms Some that [of "([], suBridge su)"]
        that [of "([trim_prefix_slash (camRTSPPath c), twoWayPathForStream (trim_prefix_slash (camRTSPPath c))], b')"]
      by (auto simp: setupCameraStreams_def su_def [symmetric] same_rest_def tables_agree_def Let_def split: if_splits)
  qed
  have paths: "paths = suPaths su @ fst x" "b' = snd x" using x(1) by simp_all
  show "tables_agree (keys_of paths) b b'"
    using tables_agree_trans [OF conjunct1 [OF fs] x(2)] fs by (simp add: paths)
  show "same_rest b b'" using same_rest_trans [OF _ x(3)] fs by (simp add: paths)
  show "map plProfile pls = camStreams c" using fs x(4) by simp
  show "set (concat (map (profile_paths c) (camStreams c))) \<subseteq> set paths" using fs by (simp add: paths)
qed

section \<open>Adding and removing\<close>

lemma AddCamera_effect:
  assumes "AddCamera outbound now bind_err cfg0 b = (Inr cam, b')"
  shows "tables_agree (keys_of (caPaths (camStore b' cam))) b b'"
    "camerasOf b' = (camerasOf b)(camName (ApplyDefaults cfg0) \<mapsto> cam)" "cam = nextCam b" "nextCam b' = cam + 1"
    "caConfig (camStore b' cam) = ApplyDefaults cfg0" "\<not> caCancelled (camStore b' cam)"
    "camerasOf b (camName (ApplyDefaults cfg0)) = None"
    "\<forall>c'. c' \<noteq> cam \<longrightarrow> camStore b' c' = camStore b c'"
    "\<forall>ws. webhook b' = Some ws \<longrightarrow> (\<exists>ws0. webhook b = Some ws0
        \<and> (\<forall>n. n \<noteq> camName (ApplyDefaults cfg0) \<longrightarrow> wsCameras ws n = wsCameras ws0 n))"
    "talkPathForCamera (camRTSPPath (ApplyDefaults cfg0)) \<in> set (caPaths (camStore b' cam))"
    "set (concat (map (profile_paths (ApplyDefaults cfg0)) (camStreams (ApplyDefaults cfg0)))) \<subseteq> set (caPaths (camStore b' cam))"
    "\<exists>motion metas b2 b3. setupCameraStreams (ApplyDefaults cfg0) cam motion b2
        = (metas, tl (caPaths (camStore b' cam)), caPipelines (camStore b' cam), b3) \<and> rtspOf b' = rtspOf b3"
    "hd (caPaths (camStore b' cam)) = talkPathForCamera (camRTSPPath (ApplyDefaults cfg0))"
    "closedB b' = closedB b" "startedB b' = startedB b" "\<not> closedB b"
    "\<not> caDeviceClosed (camStore b' cam)" "map plProfile (caPipelines (camStore b' cam)) = camStreams (ApplyDefaults cfg0)"
proof -
  define c where "c = ApplyDefaults cfg0"
  define b1 where "b1 = upd_rtsp (\<lambda>w. addTalk (talkPathForCamera (camRTSPPath c)) (nextCam b)
    (w\<lparr>publishers := (publishers w)(nextCam b := newRTSPTalkPublisher (talkPathForCamera (camRTSPPath c)))\<rparr>)) b"
  have ok: "Validate c = None" "\<not> closedB b" "startedB b" "camerasOf b (camName c) = None"
    using assms by (auto simp: AddCamera_def c_def [symmetric] Let_def split: option.splits if_splits)
  obtain url b2 where ub: "camera_webhook outbound bind_err c (nextCam b) b1 = (url, b2)" by fastforce
  have b2: "rtspOf b2 = rtspOf b1" "camerasOf b2 = camerasOf b1" "camStore b2 = camStore b1" "nextCam b2 = nextCam b1"
    "closedB b2 = closedB b1" "startedB b2 = startedB b1"
    "\<forall>ws. webhook b2 = Some ws \<longrightarrow> (\<exists>ws0. webhook b = Some ws0 \<and> (\<forall>n. n \<noteq> camName c \<longrightarrow> wsCameras ws n = wsCameras ws0 n))"
    using ub by (auto simp: camera_webhook_def b1_def register_def ensureStarted_def split: option.splits if_splits)
  obtain metas paths pls b3 where su: "setupCameraStreams c (nextCam b)
      (if PauseOnMotion c then Some (newCameraMotionState now) else None) b2 = (metas, paths, pls, b3)"
    by (metis prod_cases4)
  note eff = setupCameraStreams_effect [OF su]
  have "\<exists>ca. (Inr cam, b') = (Inr (nextCam b), b3\<lparr>camStore := (camStore b3)(nextCam b := ca), nextCam := nextCam b + 1,
      camerasOf := (camerasOf b3)(camName c \<mapsto> nextCam b)\<rparr>)
    \<and> caPaths ca = talkPathForCamera (camRTSPPath c) # paths \<and> caConfig ca = c \<and> \<not> caCancelled ca \<and> caPipelines ca = pls
    \<and> \<not> caDeviceClosed ca"
    using assms ok by (clarsimp simp: AddCamera_def c_def [symmetric] b1_def [symmetric] Let_def ub su split del: if_split)
      (rule exI, rule conjI, rule refl, simp)
  then obtain ca where res: "cam = nextCam b" "b' = b3\<lparr>camStore := (camStore b3)(nextCam b := ca), nextCam := nextCam b + 1,
      camerasOf := (camerasOf b3)(camName c \<mapsto> nextCam b)\<rparr>"
    "caPaths ca = talkPathForCamera (camRTSPPath c) # paths" "caConfig ca = c" "\<not> caCancelled ca" "caPipelines ca = pls"
    "\<not> caDeviceClosed ca"
    by auto
  have talk: "tables_agree {trim_prefix_slash (talkPathForCamera (camRTSPPath c))} b b2"
    by (simp add: tables_agree_def b2(1) b1_def)
  show "tables_agree (keys_of (caPaths (camStore b' cam))) b b'"
    using tables_agree_trans [OF talk eff(1)] by (simp add: res tables_agree_def)
  show "camerasOf b' = (camerasOf b)(camName (ApplyDefaults cfg0) \<mapsto> cam)" "cam = nextCam b" "nextCam b' = cam + 1"
    "caConfig (camStore b' cam) = ApplyDefaults cfg0" "\<not> caCancelled (camStore b' cam)"
    "camerasOf b (camName (ApplyDefaults cfg0)) = None" "\<forall>c'. c' \<noteq> cam \<longrightarrow> camStore b' c' = camStore b c'"
    using res eff(2) b2 ok by (simp_all add: same_rest_def b1_def c_def)
  show "\<forall>ws. webhook b' = Some ws \<longrightarrow> (\<exists>ws0. webhook b = Some ws0
      \<and> (\<forall>n. n \<noteq> camName (ApplyDefaults cfg0) \<longrightarrow> wsCameras ws n = wsCameras ws0 n))"
    using res eff(2) b2(7) by (simp add: same_rest_def c_def)
  show "talkPathForCamera (camRTSPPath (ApplyDefaults cfg0)) \<in> set (caPaths (camStore b' cam))"
    "set (concat (map (profile_paths (ApplyDefaults cfg0)) (camStreams (ApplyDefaults cfg0)))) \<subseteq> set (caPaths (camStore b' cam))"
    using res eff(4) by (auto simp: c_def)
  show "\<exists>motion metas b2 b3. setupCameraStreams (ApplyDefaults cfg0) cam motion b2
      = (metas, tl (caPaths (camStore b' cam)), caPipelines (camStore b' cam), b3) \<and> rtspOf b' = rtspOf b3"
    by (intro exI conjI) (use su res in \<open>simp_all add: c_def [symmetric]\<close>)
  show "hd (caPaths (camStore b' cam)) = talkPathForCamera (camRTSPPath (ApplyDefaults cfg0))"
    using res by (simp add: c_def)
  show "closedB b' = closedB b" "startedB b' = startedB b"
    using res eff(2) b2 by (simp_all add: same_rest_def b1_def)
  show "\<not> closedB b" by (rule ok)
  show "\<not> caDeviceClosed (camStore b' cam)" "map plProfile (caPipelines (camStore b' cam)) = camStreams (ApplyDefaults cfg0)"
    using res eff(3) by (simp_all add: c_def)
qed

lemma removePaths_tables:
  "map_of (rsStreams (removePaths ps w)) k = (if k \<in> keys_of ps then None else map_of (rsStreams w) k)
   \<and> map_of (rsTalks (removePaths ps w)) k = (if k \<in> keys_of ps then None else map_of (rsTalks w) k)
   \<and> map_of (rsTalkSDP (removePaths ps w)) k = (if k \<in> keys_of ps then None else map_of (rsTalkSDP w) k)"
  unfolding removePaths_def
  by (induction ps arbitrary: w) (auto simp: Let_def delete_conv')

lemma RemoveCamera_effect:
  assumes "camerasOf b name = Some c"
  shows "\<exists>b'. RemoveCamera name b = (None, b') \<and> camerasOf b' = (camerasOf b)(name := None)
    \<and> (\<forall>k. streams_map b' k = (if k \<in> keys_of (caPaths (camStore b c)) then None else streams_map b k)
        \<and> talks_map b' k = (if k \<in> keys_of (caPaths (camStore b c)) then None else talks_map b k)
        \<and> sdp_map b' k = (if k \<in> keys_of (caPaths (camStore b c)) then None else sdp_map b k))
    \<and> caCancelled (camStore b' c) \<and> caDeviceClosed (camStore b' c)
    \<and> (\<forall>ws. webhook b' = Some ws \<longrightarrow> (\<exists>ws0. webhook b = Some ws0
        \<and> (\<forall>n. wsCameras ws n = (if n = camName (caConfig (camStore b c)) then None else wsCameras ws0 n))))
    \<and> (\<forall>c'. c' \<noteq> c \<longrightarrow> camStore b' c' = camStore b c')"
  using assms removePaths_tables [of "caPaths (camStore b c)"]
  by (auto simp: RemoveCamera_def camera_stop_def upd_camera_def upd_rtsp_def Let_def unregister_def split: option.split)

text \<open>Adding a camera and removing it again leaves the tables of the server as they were: when none of
  its paths was taken before, every path resolves as it did (in particular none of the camera's own), the
  name is free again, and the camera's streams are cancelled and its device closed.\<close>

theorem add_remove_camera:
  assumes "AddCamera outbound now bind_err cfg0 b = (Inr cam, b1)"
    and "\<forall>k \<in> keys_of (caPaths (camStore b1 cam)). streams_map b k = None \<and> talks_map b k = None \<and> sdp_map b k = None"
  shows "\<exists>b2. RemoveCamera (camName (ApplyDefaults cfg0)) b1 = (None, b2) \<and> camerasOf b2 = camerasOf b
    \<and> streams_map b2 = streams_map b \<and> talks_map b2 = talks_map b \<and> sdp_map b2 = sdp_map b
    \<and> caCancelled (camStore b2 cam) \<and> caDeviceClosed (camStore b2 cam)"
proof -
  note add = AddCamera_effect [OF assms(1)]
  have "camerasOf b1 (camName (ApplyDefaults cfg0)) = Some cam" by (simp add: add(2))
  then obtain b2 where b2: "RemoveCamera (camName (ApplyDefaults cfg0)) b1 = (None, b2)"
    "camerasOf b2 = (camerasOf b1)(camName (ApplyDefaults cfg0) := None)"
    "\<forall>k. streams_map b2 k = (if k \<in> keys_of (caPaths (camStore b1 cam)) then None else streams_map b1 k)
        \<and> talks_map b2 k = (if k \<in> keys_of (caPaths (camStore b1 cam)) then None else talks_map b1 k)
        \<and> sdp_map b2 k = (if k \<in> keys_of (caPaths (camStore b1 cam)) then None else sdp_map b1 k)"
    "caCancelled (camStore b2 cam)" "caDeviceClosed (camStore b2 cam)"
    using RemoveCamera_effect by blast
  have "streams_map b2 = streams_map b \<and> talks_map b2 = talks_map b \<and> sdp_map b2 = sdp_map b"
    using b2(3) add(1) assms(2) by (simp add: tables_agree_def fun_eq_iff)
  moreover have "camerasOf b2 = camerasOf b" using add(2,7) by (auto simp: b2(2))
  ultimately show ?thesis using b2(1,4,5) by blast
qed

text \<open>C36: Cameras are kept apart by their names only. When a second camera is configured with the RTSP path of
  the first, it takes over the shared paths; removing the first camera then deletes them, so the second
  one is still registered while its talk path, and every path the two share, is answered by nobody.\<close>

theorem remove_takes_shared_paths:
  assumes "AddCamera out1 now1 err1 cfgA b = (Inr a, b1)" "AddCamera out2 now2 err2 cfgB b1 = (Inr a', b2)"
    and "camRTSPPath (ApplyDefaults cfgA) = camRTSPPath (ApplyDefaults cfgB)"
  shows "\<exists>b3. RemoveCamera (camName (ApplyDefaults cfgA)) b2 = (None, b3)
    \<and> Camera (camName (ApplyDefaults cfgB)) b3 = Some a' \<and> \<not> caCancelled (camStore b3 a')
    \<and> talks_map b3 (trim_prefix_slash (talkPathForCamera (camRTSPPath (caConfig (camStore b3 a'))))) = None
    \<and> (\<forall>path \<in> set (caPaths (camStore b2 a)) \<inter> set (caPaths (camStore b2 a')). streams_map b3 (trim_prefix_slash path) = None)"
proof -
  note A = AddCamera_effect [OF assms(1)] and B = AddCamera_effect [OF assms(2)]
  have diff: "a' \<noteq> a" "camName (ApplyDefaults cfgB) \<noteq> camName (ApplyDefaults cfgA)"
    using A(2,3,4) B(3,7) by auto
  have "camerasOf b2 (camName (ApplyDefaults cfgA)) = Some a" using A(2) B(2) diff by simp
  then obtain b3 where b3: "RemoveCamera (camName (ApplyDefaults cfgA)) b2 = (None, b3)"
    "camerasOf b3 = (camerasOf b2)(camName (ApplyDefaults cfgA) := None)"
    "\<forall>k. streams_map b3 k = (if k \<in> keys_of (caPaths (camStore b2 a)) then None else streams_map b2 k)
        \<and> talks_map b3 k = (if k \<in> keys_of (caPaths (camStore b2 a)) then None else talks_map b2 k)
        \<and> sdp_map b3 k = (if k \<in> keys_of (caPaths (camStore b2 a)) then None else sdp_map b2 k)"
    "\<forall>c'. c' \<noteq> a \<longrightarrow> camStore b3 c' = camStore b2 c'"
    using RemoveCamera_effect by blast
  have "camStore b2 a = camStore b1 a" using B(8) diff by simp
  then have "trim_prefix_slash (talkPathForCamera (camRTSPPath (ApplyDefaults cfgB))) \<in> keys_of (caPaths (camStore b2 a))"
    using A(10) assms(3) by (simp add: keys_of_def)
  then show ?thesis
    using b3 B(2,5,6) diff by (auto simp: Camera_def keys_of_def)
qed

section \<open>Finding the streams\<close>

lemma search_unique:
  assumes "map_of table key = Some x" "samePath got key" "\<forall>k \<in> dom (map_of table). samePath got k \<longrightarrow> k = key"
  shows "search got table = Some x"
proof -
  have "find (\<lambda>(k, y). samePath got k) table = Some (key, x)"
    using assms(1,3)
  proof (induction table)
    case (Cons p table)
    obtain k y where p: "p = (k, y)" by fastforce
    show ?case
    proof (cases "k = key")
      case True
      then show ?thesis using Cons.prems(1) assms(2) by (simp add: p)
    next
      case False
      then have "\<not> samePath got k" using Cons.prems(2) by (auto simp: p)
      moreover have "find (\<lambda>(k, y). samePath got k) table = Some (key, x)"
        by (rule Cons.IH) (use Cons.prems False p in \<open>auto split: if_splits\<close>)
      ultimately show ?thesis by (simp add: p)
    qed
  qed simp
  then show ?thesis by (simp add: search_def)
qed

lemma samePath_via: "samePath got a \<Longrightarrow> samePath got b \<Longrightarrow> samePath a b"
  by (simp add: samePath_def)

text \<open>Each profile's pipeline writes to the handler registered under its path.\<close>

lemma fold_setup_handlers:
  assumes "distinct (map trim_prefix_slash (concat (map (profile_paths c) ss)))"
  shows "\<exists>new. suPipelines (fold (setup_stream c p motion) ss su) = suPipelines su @ new
    \<and> (\<forall>pl \<in> set new. streams_map (suBridge (fold (setup_stream c p motion) ss su))
          (trim_prefix_slash (streamPath c (plProfile pl))) = Some (plHandler pl))"
  using assms
proof (induction ss arbitrary: su)
  case (Cons s ss)
  let ?su = "setup_stream c p motion s su" and ?su' = "fold (setup_stream c p motion) ss (setup_stream c p motion s su)"
  obtain new where new: "suPipelines ?su' = suPipelines ?su @ new"
    "\<forall>pl \<in> set new. streams_map (suBridge ?su') (trim_prefix_slash (streamPath c (plProfile pl))) = Some (plHandler pl)"
    using Cons.IH [of ?su] Cons.prems by auto
  obtain pl where pl: "suPipelines ?su = suPipelines su @ [pl]" "plProfile pl = s" "plHandler pl = nextHandler (suBridge su)"
    by (simp add: setup_stream_def Let_def case_prod_beta)
  have k: "trim_prefix_slash (streamPath c s) \<notin> keys_of (concat (map (profile_paths c) ss))"
    "trim_prefix_slash (streamPath c s) \<noteq> trim_prefix_slash (twoWayPathForStream (streamPath c s))"
    using Cons.prems by (auto simp: profile_paths_def keys_of_def image_iff)
  have "streams_map (suBridge ?su') (trim_prefix_slash (streamPath c s)) = Some (plHandler pl)"
    using fold_setup [of c ss ?su p motion] k pl by (simp add: tables_agree_def setup_stream_tables)
  then show ?case using new pl by (intro exI [of _ "pl # new"]) auto
qed simp

text \<open>What the setup of the profiles leaves, and what the alias of the preferred talk profile adds.\<close>

lemma setupCameraStreams_result:
  fixes c defines "base \<equiv> trim_prefix_slash (camRTSPPath c)"
  assumes "setupCameraStreams c p motion b = (metas, paths, pls, b')"
    and su_def: "su = fold (setup_stream c p motion) (camStreams c)
      \<lparr>suBridge = b, suMetas = [], suPaths = [], suPreferredMeta = None, suPreferred = None, suPipelines = []\<rparr>"
  shows "pls = suPipelines su"
    and "(paths = suPaths su \<and> b' = suBridge su) \<or> (\<exists>h tw. paths = suPaths su @ [base, twoWayPathForStream base]
      \<and> streams_map b' = (streams_map (suBridge su))(trim_prefix_slash base \<mapsto> h,
          trim_prefix_slash (twoWayPathForStream base) \<mapsto> tw))"
proof -
  have split: "pls = suPipelines su \<and> (case suPreferred su of
      Some (h, tw) \<Rightarrow> if length (camStreams c) > 1 then (suPaths su @ [base, twoWayPathForStream base],
        upd_rtsp (\<lambda>w. addTalkAlias (twoWayPathForStream base) p
          (addStream (twoWayPathForStream base) tw (addStream base h w))) (suBridge su)) else (suPaths su, suBridge su)
      | None \<Rightarrow> (suPaths su, suBridge su)) = (paths, b')"
    using assms(2) unfolding setupCameraStreams_def Let_def su_def [symmetric] base_def by (auto split: prod.splits)
  show "pls = suPipelines su" using split by simp
  show "(paths = suPaths su \<and> b' = suBridge su) \<or> (\<exists>h tw. paths = suPaths su @ [base, twoWayPathForStream base]
    \<and> streams_map b' = (streams_map (suBridge su))(trim_prefix_slash base \<mapsto> h,
        trim_prefix_slash (twoWayPathForStream base) \<mapsto> tw))"
  proof (cases "suPreferred su")
    case (Some ht)
    obtain h tw where "ht = (h, tw)" by fastforce
    show ?thesis
    proof (cases "length (camStreams c) > 1")
      case True
      show ?thesis
        by (intro disjI2 exI [of _ h] exI [of _ tw]) (use split Some True \<open>ht = (h, tw)\<close> in auto)
    qed (use split Some \<open>ht = (h, tw)\<close> in simp)
  qed (use split in simp)
qed

text \<open>The handler a profile's pipeline writes to, and the alias of the preferred talk profile.\<close>

lemma setupCameraStreams_handlers:
  assumes "setupCameraStreams c p motion b = (metas, paths, pls, b')" "distinct (map trim_prefix_slash paths)"
  shows "\<forall>pl \<in> set pls. streams_map b' (trim_prefix_slash (streamPath c (plProfile pl))) = Some (plHandler pl)"
proof -
  define su where "su = fold (setup_stream c p motion) (camStreams c)
    \<lparr>suBridge = b, suMetas = [], suPaths = [], suPreferredMeta = None, suPreferred = None, suPipelines = []\<rparr>"
  let ?base = "trim_prefix_slash (camRTSPPath c)"
  have paths: "suPaths su = concat (map (profile_paths c) (camStreams c))"
    and prof: "map plProfile (suPipelines su) = camStreams c"
    using fold_setup [of c "camStreams c" "\<lparr>suBridge = b, suMetas = [], suPaths = [], suPreferredMeta = None,
      suPreferred = None, suPipelines = []\<rparr>" p motion] by (simp_all add: su_def)
  note res = setupCameraStreams_result [OF assms(1) su_def]
  have "distinct (map trim_prefix_slash (suPaths su))" using assms(2) res(2) by auto
  then have "distinct (map trim_prefix_slash (concat (map (profile_paths c) (camStreams c))))" by (simp only: paths)
  then have own: "\<forall>pl \<in> set (suPipelines su). streams_map (suBridge su) (trim_prefix_slash (streamPath c (plProfile pl))) = Some (plHandler pl)"
    using fold_setup_handlers [of c "camStreams c" p motion "\<lparr>suBridge = b, suMetas = [], suPaths = [],
      suPreferredMeta = None, suPreferred = None, suPipelines = []\<rparr>", folded su_def] by simp
  have "streamPath c (plProfile pl) \<in> set (suPaths su)" if "pl \<in> set (suPipelines su)" for pl
  proof -
    have "plProfile pl \<in> set (camStreams c)" using that by (simp flip: prof)
    then show ?thesis by (auto simp: paths profile_paths_def)
  qed
  then have known: "trim_prefix_slash (streamPath c (plProfile pl)) \<in> set (map trim_prefix_slash (suPaths su))"
    if "pl \<in> set (suPipelines su)" for pl
    using that by simp
  show ?thesis
  proof
    fix pl
    assume "pl \<in> set pls"
    then have pl: "pl \<in> set (suPipelines su)" using res(1) by simp
    show "streams_map b' (trim_prefix_slash (streamPath c (plProfile pl))) = Some (plHandler pl)"
      using res(2)
    proof (elim disjE exE conjE)
      fix h tw
      assume with_alias: "paths = suPaths su @ [?base, twoWayPathForStream ?base]"
        and tab: "streams_map b' = (streams_map (suBridge su))(trim_prefix_slash ?base \<mapsto> h,
          trim_prefix_slash (twoWayPathForStream ?base) \<mapsto> tw)"
      have "trim_prefix_slash ?base \<notin> set (map trim_prefix_slash (suPaths su))"
        "trim_prefix_slash (twoWayPathForStream ?base) \<notin> set (map trim_prefix_slash (suPaths su))"
        using assms(2) by (simp_all add: with_alias)
      then have "trim_prefix_slash (streamPath c (plProfile pl)) \<noteq> trim_prefix_slash ?base"
        "trim_prefix_slash (streamPath c (plProfile pl)) \<noteq> trim_prefix_slash (twoWayPathForStream ?base)"
        using known [OF pl] by metis+
      then show ?thesis using own pl by (simp add: tab)
    qed (use own pl in simp)
  qed
qed

lemma pathForProfile_stream:
  assumes "s \<in> set (camStreams (ApplyDefaults c))"
  shows "pathForProfile (ApplyDefaults c) s = streamPath (ApplyDefaults c) s"
proof -
  have "s \<noteq> []" "normalizeProfileName s = s" using assms by (auto simp: ApplyDefaults_def)
  moreover have "length (camStreams (ApplyDefaults c)) = 1 \<or> length (camStreams (ApplyDefaults c)) > 1"
    using assms by (cases "camStreams (ApplyDefaults c)") auto
  ultimately show ?thesis by (auto simp: pathForProfile_def streamPath_def Let_def)
qed

text \<open>The URLs of a camera work: with its paths distinct and no two registered paths meaning the same,
  the URL StreamURL builds for a profile is made of the advertised address and a path under which the
  server finds the very handler the pipeline of that profile writes to.\<close>

theorem stream_urls_reach_pipelines:
  assumes "AddCamera outbound now bind_err cfg0 b = (Inr cam, b1)"
    and "distinct (map trim_prefix_slash (caPaths (camStore b1 cam)))"
    and "\<forall>k \<in> dom (streams_map b1). \<forall>k' \<in> dom (streams_map b1). samePath k k' \<longrightarrow> k = k'"
    and "pl \<in> set (caPipelines (camStore b1 cam))"
    and "\<not> is_space (hd (trim_prefix_slash (pathForProfile (ApplyDefaults cfg0) (plProfile pl)) @ ''/''))"
  shows "\<exists>path. StreamURL out' b1 (camStore b1 cam) (plProfile pl)
      = ''rtsp://'' @ advertisedAuthority out' (RTSPAddress (opts b1)) [] @ path
    \<and> getStream path (rtspOf b1) = Some (plHandler pl)"
proof -
  note add = AddCamera_effect [OF assms(1)]
  define c where "c = ApplyDefaults cfg0"
  obtain motion metas b2 b3 where su: "setupCameraStreams c cam motion b2
      = (metas, tl (caPaths (camStore b1 cam)), caPipelines (camStore b1 cam), b3)" "rtspOf b1 = rtspOf b3"
    using add(12) by (auto simp: c_def)
  have "distinct (map trim_prefix_slash (tl (caPaths (camStore b1 cam))))" using assms(2) by (simp add: distinct_tl map_tl)
  then have h: "streams_map b1 (trim_prefix_slash (streamPath c (plProfile pl))) = Some (plHandler pl)"
    using setupCameraStreams_handlers [OF su(1)] assms(4) su(2) by simp
  have "plProfile pl \<in> set (camStreams c)" using setupCameraStreams_effect(3) [OF su(1)] assms(4) by (metis image_eqI list.set_map)
  then have path: "pathForProfile c (plProfile pl) = streamPath c (plProfile pl)"
    using pathForProfile_stream by (simp add: c_def)
  let ?q = "trim_prefix_slash (streamPath c (plProfile pl))"
  have "samePath (CHR ''/'' # ?q) ?q"
    by (rule url_path_same) (use assms(5) path in \<open>cases ?q; simp add: c_def\<close>)
  then have "getStream (CHR ''/'' # ?q) (rtspOf b1) = Some (plHandler pl)"
    unfolding getStream_def using h assms(3) by (intro search_unique) (auto dest: samePath_via)
  then show ?thesis
    by (intro exI [of _ "CHR ''/'' # ?q"]) (simp add: StreamURL_def rtspURL_def buildURL_def add(5) path c_def [symmetric])
qed

section \<open>The base path\<close>

text \<open>Trimming blanks and slashes keeps the underscores.\<close>

abbreviation underscores :: "string \<Rightarrow> nat" where
  "underscores s \<equiv> count_list s (CHR ''_'')"

lemma underscores_dropWhile: "\<not> P (CHR ''_'') \<Longrightarrow> underscores (dropWhile P s) = underscores s"
  by (induction s) auto

lemma underscores_trim [simp]:
  "underscores (trim_space s) = underscores s" "underscores (trim_slash s) = underscores s"
  "underscores (trim_prefix_slash s) = underscores s"
  by (simp_all add: trim_space_def trim_slash_def trim_prefix_slash_def underscores_dropWhile is_space_def
    split: list.split)

lemma samePath_underscores: "samePath a b \<Longrightarrow> underscores a = underscores b"
  by (metis samePath_def underscores_trim(1,2))

lemma underscores_twoWay:
  "underscores p > 0 \<Longrightarrow> underscores (twoWayPathForStream p) = underscores p + 1"
  by (auto simp: twoWayPathForStream_def Let_def) (metis underscores_trim(1,2) count_list.simps(1) less_irrefl)

lemma fold_setup_plain:
  "preferredTalkProfile c = [] \<Longrightarrow> suPreferred (fold (setup_stream c p motion) ss su) = suPreferred su"
  by (induction ss arbitrary: su) (simp_all add: setup_stream_def Let_def case_prod_beta)

lemma AddCamera_plain_paths:
  assumes "AddCamera outbound now bind_err cfg0 b = (Inr cam, b1)" "preferredTalkProfile (ApplyDefaults cfg0) = []"
  shows "tl (caPaths (camStore b1 cam))
    = concat (map (profile_paths (ApplyDefaults cfg0)) (camStreams (ApplyDefaults cfg0)))"
proof -
  let ?c = "ApplyDefaults cfg0"
  obtain motion metas b2 b3 where su: "setupCameraStreams ?c cam motion b2
      = (metas, tl (caPaths (camStore b1 cam)), caPipelines (camStore b1 cam), b3)"
    using AddCamera_effect(12) [OF assms(1)] by auto
  define su where "su = fold (setup_stream ?c cam motion) (camStreams ?c)
    \<lparr>suBridge = b2, suMetas = [], suPaths = [], suPreferredMeta = None, suPreferred = None, suPipelines = []\<rparr>"
  have "suPreferred su = None" by (simp add: su_def fold_setup_plain assms(2))
  then have "tl (caPaths (camStore b1 cam)) = suPaths su"
    using su unfolding setupCameraStreams_def Let_def su_def [symmetric] by simp
  then show ?thesis
    using fold_setup [of ?c "camStreams ?c" "\<lparr>suBridge = b2, suMetas = [], suPaths = [], suPreferredMeta = None,
      suPreferred = None, suPipelines = []\<rparr>" cam motion] by (simp add: su_def)
qed

text \<open>StreamURL documents that without a profile it gives the base path, the alias of the talk profile or
  the single stream. A camera with several streams and no talk profile has neither: the URL is handed out
  all the same, but nothing is registered under its path and the server answers it with Not Found.\<close>

theorem base_url_unserved:
  assumes "AddCamera outbound now bind_err cfg0 b = (Inr cam, b1)"
    and "length (camStreams (ApplyDefaults cfg0)) > 1" "preferredTalkProfile (ApplyDefaults cfg0) = []"
    and "trim_slash (trim_space (camRTSPPath (ApplyDefaults cfg0))) \<noteq> []"
    and "\<forall>k \<in> dom (streams_map b). \<not> samePath (CHR ''/'' # trim_prefix_slash (trim_prefix_slash (camRTSPPath (ApplyDefaults cfg0)))) k"
  shows "\<exists>path. StreamURL out' b1 (camStore b1 cam) [] = ''rtsp://'' @ advertisedAuthority out' (RTSPAddress (opts b1)) [] @ path
    \<and> getStream path (rtspOf b1) = None"
proof -
  note add = AddCamera_effect [OF assms(1)]
  let ?c = "ApplyDefaults cfg0"
  let ?got = "CHR ''/'' # trim_prefix_slash (trim_prefix_slash (camRTSPPath ?c))"
  have us: "underscores ?got = underscores (camRTSPPath ?c)" by simp
  have "underscores (camRTSPPath ?c) < underscores q" if "q \<in> set (caPaths (camStore b1 cam))" for q
  proof -
    have "caPaths (camStore b1 cam) \<noteq> []" using that by auto
    then have "hd (caPaths (camStore b1 cam)) = talkPathForCamera (camRTSPPath ?c) \<Longrightarrow>
      q = talkPathForCamera (camRTSPPath ?c) \<or> q \<in> set (concat (map (profile_paths ?c) (camStreams ?c)))"
      using that AddCamera_plain_paths [OF assms(1,3)] by (cases "caPaths (camStore b1 cam)") auto
    moreover have "underscores (talkPathForCamera (camRTSPPath ?c)) = underscores (camRTSPPath ?c) + 1"
      using assms(4) by (simp add: talkPathForCamera_def Let_def)
    moreover have "underscores (camRTSPPath ?c) < underscores (streamPath ?c s)" for s
      using assms(2) by (simp add: streamPath_def Let_def)
    moreover have "underscores (camRTSPPath ?c) < underscores (twoWayPathForStream (streamPath ?c s))" for s
      using assms(2) underscores_twoWay [of "streamPath ?c s"] by (simp add: streamPath_def Let_def)
    ultimately show ?thesis using add(13) by (auto simp: profile_paths_def)
  qed
  then have "underscores ?got < underscores k" if "k \<in> keys_of (caPaths (camStore b1 cam))" for k
    using that us by (auto simp: keys_of_def)
  then have new: "\<not> samePath ?got k" if "k \<in> keys_of (caPaths (camStore b1 cam))" for k
    using that samePath_underscores by fastforce
  have "\<not> samePath ?got k" if "k \<in> dom (streams_map b1)" for k
    using that new [of k] add(1) assms(5) by (cases "k \<in> keys_of (caPaths (camStore b1 cam))") (auto simp: tables_agree_def dom_def)
  then have "\<not> samePath ?got k" if "(k, x) \<in> set (rsStreams (rtspOf b1))" for k x
    using that by (metis dom_map_of_conv_image_fst fst_conv image_eqI)
  then have "getStream ?got (rtspOf b1) = None"
    by (auto simp: getStream_def search_def find_None_iff)
  moreover have "pathForProfile ?c [] = trim_prefix_slash (camRTSPPath ?c)"
    by (simp add: pathForProfile_def normalizeProfileName_def trim_space_def to_lower_def Let_def)
  ultimately show ?thesis
    by (intro exI [of _ ?got]) (simp add: StreamURL_def rtspURL_def buildURL_def add(5))
qed

section \<open>Concrete cameras\<close>

definition demo_options :: options where
  "demo_options = \<lparr>RTSPAddress = [], RTPAddress = [], RTCPAddress = [], EnableRTCPSenderReports = False,
     WebhookAddress = [], LogPackets = False\<rparr>"

definition demo_bridge :: bridge_state where
  "demo_bridge = snd (bridge_Start True (new_bridge demo_options))"

definition two_streams :: camera_config where
  "two_streams = demo_config\<lparr>camStreams := [''Main'', ''sub'']\<rparr>"

definition demo_added :: bridge_state where
  "demo_added = snd (AddCamera [] 0 None two_streams demo_bridge)"

lemma demo_strings:
  "normalizeProfileName ''Main'' = ''main''" "normalizeProfileName ''sub'' = ''sub''" "normalizeProfileName [] = []"
  "twoWayPathForStream ''door/stream_main'' = ''door/stream_main_twoway''"
  "twoWayPathForStream ''door/stream_sub'' = ''door/stream_sub_twoway''"
  "talkPathForCamera ''door/stream'' = ''door/stream_talk''"
  by code_simp+

lemma demo_fields:
  "camName (ApplyDefaults two_streams) = ''door''" "camHost (ApplyDefaults two_streams) = ''10.0.0.2''"
  "camStreams (ApplyDefaults two_streams) = [''main'', ''sub'']" "camRTSPPath (ApplyDefaults two_streams) = ''door/stream''"
  "TalkProfile (ApplyDefaults two_streams) = []" "PauseOnMotion (ApplyDefaults two_streams) = False"
  by (simp_all add: ApplyDefaults_def two_streams_def demo_config_def demo_strings)

lemma demo_bridge_open: "\<not> closedB demo_bridge" "startedB demo_bridge" "camerasOf demo_bridge = Map.empty"
  "webhook demo_bridge = None" "nextCam demo_bridge = 0" "nextHandler demo_bridge = 0" "serverSet demo_bridge"
  "rtspOf demo_bridge = newRTSPServerHandler"
  by (simp_all add: demo_bridge_def bridge_Start_def new_bridge_def demo_options_def options_applyDefaults_def)

lemma demo_valid: "Validate (ApplyDefaults two_streams) = None" "preferredTalkProfile (ApplyDefaults two_streams) = []"
  by (simp_all add: Validate_def preferredTalkProfile_def hasStream_def demo_fields demo_strings)

lemma demo_added: "AddCamera [] 0 None two_streams demo_bridge = (Inr 0, demo_added)"
proof -
  have "fst (AddCamera [] 0 None two_streams demo_bridge) = Inr 0"
    by (simp add: AddCamera_def demo_fields demo_valid demo_bridge_open Let_def case_prod_beta)
  then show ?thesis by (simp add: demo_added_def prod_eq_iff)
qed

lemma demo_paths:
  "caPaths (camStore demo_added 0) = [''door/stream_talk'', ''door/stream_main'', ''door/stream_main_twoway'',
     ''door/stream_sub'', ''door/stream_sub_twoway'']"
proof -
  have "tl (caPaths (camStore demo_added 0)) = [''door/stream_main'', ''door/stream_main_twoway'',
     ''door/stream_sub'', ''door/stream_sub_twoway'']"
    using AddCamera_plain_paths [OF demo_added demo_valid(2)]
    by (simp add: profile_paths_def streamPath_def demo_fields demo_strings trim_prefix_slash_def)
  moreover have "hd (caPaths (camStore demo_added 0)) = ''door/stream_talk''"
    using AddCamera_effect(13) [OF demo_added] by (simp add: demo_fields demo_strings)
  moreover have "caPaths (camStore demo_added 0) \<noteq> []" using AddCamera_effect(10) [OF demo_added] by auto
  ultimately show ?thesis by (metis list.collapse)
qed

lemma demo_keys: "k \<in> dom (streams_map demo_added) \<Longrightarrow> k \<in> set (caPaths (camStore demo_added 0))"
proof -
  assume "k \<in> dom (streams_map demo_added)"
  moreover have "streams_map demo_bridge = Map.empty" by (simp add: demo_bridge_open newRTSPServerHandler_def)
  ultimately have "k \<in> keys_of (caPaths (camStore demo_added 0))"
    using AddCamera_effect(1) [OF demo_added] by (auto simp: tables_agree_def)
  then show ?thesis by (auto simp: demo_paths trim_prefix_slash_def)
qed

lemma stream_urls_reach_pipelines_witness:
  "\<exists>pl \<in> set (caPipelines (camStore demo_added 0)). plProfile pl = ''main'' \<and>
    (\<exists>path. StreamURL [] demo_added (camStore demo_added 0) (plProfile pl)
      = ''rtsp://'' @ advertisedAuthority [] (RTSPAddress (opts demo_added)) [] @ path
    \<and> getStream path (rtspOf demo_added) = Some (plHandler pl))"
proof -
  obtain motion metas b2 b3 where "setupCameraStreams (ApplyDefaults two_streams) 0 motion b2
      = (metas, tl (caPaths (camStore demo_added 0)), caPipelines (camStore demo_added 0), b3)"
    using AddCamera_effect(12) [OF demo_added] by auto
  then have "map plProfile (caPipelines (camStore demo_added 0)) = [''main'', ''sub'']"
    using setupCameraStreams_effect(3) by (simp add: demo_fields)
  then have "''main'' \<in> plProfile ` set (caPipelines (camStore demo_added 0))" by (metis list.set_intros(1) list.set_map)
  then obtain pl where pl: "pl \<in> set (caPipelines (camStore demo_added 0))" "plProfile pl = ''main''" by auto
  have "list_all (\<lambda>k. list_all (\<lambda>k'. samePath k k' \<longrightarrow> k = k') [''door/stream_talk'', ''door/stream_main'',
      ''door/stream_main_twoway'', ''door/stream_sub'', ''door/stream_sub_twoway'']) [''door/stream_talk'',
      ''door/stream_main'', ''door/stream_main_twoway'', ''door/stream_sub'', ''door/stream_sub_twoway'']"
    by code_simp
  then have unique: "\<forall>k \<in> dom (streams_map demo_added). \<forall>k' \<in> dom (streams_map demo_added). samePath k k' \<longrightarrow> k = k'"
    using demo_keys unfolding list_all_iff demo_paths [symmetric] by blast
  have "\<exists>path. StreamURL [] demo_added (camStore demo_added 0) (plProfile pl)
      = ''rtsp://'' @ advertisedAuthority [] (RTSPAddress (opts demo_added)) [] @ path
    \<and> getStream path (rtspOf demo_added) = Some (plHandler pl)"
    by (rule stream_urls_reach_pipelines [OF demo_added _ unique pl(1)])
      (simp_all add: demo_paths pl(2) demo_fields pathForProfile_def normalizeProfileName_def to_lower_def
        lower_char_def trim_space_def is_space_def trim_prefix_slash_def Let_def)
  then show ?thesis using pl by blast
qed

lemma base_url_unserved_witness:
  "\<exists>path. StreamURL [] demo_added (camStore demo_added 0) [] = ''rtsp://'' @ advertisedAuthority [] (RTSPAddress (opts demo_added)) [] @ path
    \<and> getStream path (rtspOf demo_added) = None"
  by (rule base_url_unserved [OF demo_added])
    (simp_all add: demo_fields demo_valid demo_bridge_open newRTSPServerHandler_def trim_slash_def trim_space_def is_space_def)

lemma add_remove_camera_witness:
  "\<exists>b2. RemoveCamera ''door'' demo_added = (None, b2) \<and> camerasOf b2 = Map.empty \<and> streams_map b2 = Map.empty"
proof -
  have "\<exists>b2. RemoveCamera (camName (ApplyDefaults two_streams)) demo_added = (None, b2) \<and> camerasOf b2 = camerasOf demo_bridge
    \<and> streams_map b2 = streams_map demo_bridge \<and> talks_map b2 = talks_map demo_bridge \<and> sdp_map b2 = sdp_map demo_bridge
    \<and> caCancelled (camStore b2 0) \<and> caDeviceClosed (camStore b2 0)"
    by (rule add_remove_camera [OF demo_added]) (simp add: demo_bridge_open newRTSPServerHandler_def)
  then show ?thesis by (auto simp: demo_fields demo_bridge_open newRTSPServerHandler_def)
qed

definition second_camera :: camera_config where
  "second_camera = demo_config\<lparr>camName := ''gate'', camRTSPPath := ''door/stream''\<rparr>"

definition demo_both :: bridge_state where
  "demo_both = snd (AddCamera [] 0 None second_camera demo_added)"

lemma second_fields:
  "camName (ApplyDefaults second_camera) = ''gate''" "camHost (ApplyDefaults second_camera) = ''10.0.0.2''"
  "camRTSPPath (ApplyDefaults second_camera) = ''door/stream''" "TalkProfile (ApplyDefaults second_camera) = []"
  by (simp_all add: ApplyDefaults_def second_camera_def demo_config_def demo_strings)

lemma demo_both: "AddCamera [] 0 None second_camera demo_added = (Inr 1, demo_both)"
proof -
  have "closedB demo_added = closedB demo_bridge \<and> startedB demo_added = startedB demo_bridge"
    using AddCamera_effect(14,15) [OF demo_added] by simp
  moreover have "camerasOf demo_added = [''door'' \<mapsto> 0]" "nextCam demo_added = 1"
    using AddCamera_effect(2,4) [OF demo_added] by (simp_all add: demo_fields demo_bridge_open)
  moreover have "Validate (ApplyDefaults second_camera) = None" by (simp add: Validate_def second_fields)
  ultimately have "fst (AddCamera [] 0 None second_camera demo_added) = Inr 1"
    by (simp add: AddCamera_def second_fields demo_bridge_open Let_def case_prod_beta)
  then show ?thesis by (simp add: demo_both_def prod_eq_iff)
qed

lemma remove_takes_shared_paths_witness:
  "\<exists>b3. RemoveCamera ''door'' demo_both = (None, b3) \<and> Camera ''gate'' b3 = Some 1
    \<and> talks_map b3 (trim_prefix_slash (talkPathForCamera (camRTSPPath (caConfig (camStore b3 1))))) = None"
  using remove_takes_shared_paths [OF demo_added demo_both] by (auto simp: demo_fields second_fields)

section \<open>No camera is lost\<close>

inductive bridge_step :: "bridge_state \<Rightarrow> bridge_state \<Rightarrow> bool" where
  bs_start: "bridge_step b (snd (bridge_Start listens b))"
| bs_add: "bridge_step b (snd (AddCamera outbound now bind_err c b))"
| bs_remove: "bridge_step b (snd (RemoveCamera name b))"
| bs_close: "set order = dom (camerasOf b) \<Longrightarrow> bridge_step b (bridge_Close order b)"
| bs_rtsp: "bridge_step b (upd_rtsp f b)"
| bs_live: "bridge_step b (upd_camera c (SetLiveCatchUp d) b)"

text \<open>A camera that serves: its streams are not cancelled, its device is open, every stream of its configuration has a
  pipeline; and one that was taken down.\<close>

definition camera_up :: "camera \<Rightarrow> bool" where
  "camera_up ca \<longleftrightarrow> \<not> caCancelled ca \<and> \<not> caDeviceClosed ca \<and> map plProfile (caPipelines ca) = camStreams (caConfig ca)"

definition camera_down :: "camera \<Rightarrow> bool" where
  "camera_down ca \<longleftrightarrow> caCancelled ca \<and> caDeviceClosed ca"

definition cameras_inv :: "bridge_state \<Rightarrow> bool" where
  "cameras_inv b =
     ((\<forall>n c. camerasOf b n = Some c \<longrightarrow> c < nextCam b \<and> camName (caConfig (camStore b c)) = n \<and> camera_up (camStore b c)) \<and>
      (\<forall>c < nextCam b. camerasOf b (camName (caConfig (camStore b c))) = Some c \<or> camera_down (camStore b c)) \<and>
      (closedB b \<longrightarrow> camerasOf b = Map.empty))"

lemma cameras_invD:
  assumes "cameras_inv b"
  shows "camerasOf b n = Some c \<Longrightarrow> c < nextCam b \<and> camName (caConfig (camStore b c)) = n \<and> camera_up (camStore b c)"
    and "c < nextCam b \<Longrightarrow> camerasOf b (camName (caConfig (camStore b c))) = Some c \<or> camera_down (camStore b c)"
    and "closedB b \<Longrightarrow> camerasOf b = Map.empty"
  using assms unfolding cameras_inv_def by blast+

lemma cameras_invI:
  assumes "\<And>n c. camerasOf b n = Some c \<Longrightarrow> c < nextCam b \<and> camName (caConfig (camStore b c)) = n \<and> camera_up (camStore b c)"
    and "\<And>c. c < nextCam b \<Longrightarrow> camerasOf b (camName (caConfig (camStore b c))) = Some c \<or> camera_down (camStore b c)"
    and "closedB b \<Longrightarrow> camerasOf b = Map.empty"
  shows "cameras_inv b"
  using assms unfolding cameras_inv_def by blast

lemma camera_stop_simps:
  "camerasOf (camera_stop c b) = camerasOf b" "nextCam (camera_stop c b) = nextCam b" "closedB (camera_stop c b) = closedB b"
  "camStore (camera_stop c b) = (camStore b)(c := (camStore b c)\<lparr>caCancelled := True, caDeviceClosed := True\<rparr>)"
  by (simp_all add: camera_stop_def upd_camera_def upd_rtsp_def Let_def split: option.split)

lemma fold_camera_stop:
  "camerasOf (fold camera_stop cs b) = camerasOf b \<and> nextCam (fold camera_stop cs b) = nextCam b
   \<and> (\<forall>c. camStore (fold camera_stop cs b) c = (if c \<in> set cs
         then (camStore b c)\<lparr>caCancelled := True, caDeviceClosed := True\<rparr> else camStore b c))"
  by (induction cs arbitrary: b) (auto simp: camera_stop_simps)

lemma RemoveCamera_inv:
  assumes "cameras_inv b"
  shows "cameras_inv (snd (RemoveCamera name b))"
proof (cases "camerasOf b name")
  case (Some c)
  let ?b = "snd (RemoveCamera name b)"
  have b: "camerasOf ?b = (camerasOf b)(name := None)" "nextCam ?b = nextCam b"
    "camStore ?b = (camStore b)(c := (camStore b c)\<lparr>caCancelled := True, caDeviceClosed := True\<rparr>)" "closedB ?b = closedB b"
    by (simp_all add: RemoveCamera_def Some camera_stop_simps)
  have c: "camName (caConfig (camStore b c)) = name" using cameras_invD(1) [OF assms Some] by simp
  show ?thesis
  proof (rule cameras_invI)
    fix n c'
    assume "camerasOf ?b n = Some c'"
    then have n: "n \<noteq> name" "camerasOf b n = Some c'" by (auto simp: b split: if_splits)
    note inv = cameras_invD(1) [OF assms n(2)]
    have "c' \<noteq> c" using inv c n(1) by metis
    then show "c' < nextCam ?b \<and> camName (caConfig (camStore ?b c')) = n \<and> camera_up (camStore ?b c')"
      using inv by (simp add: b)
  next
    fix c'
    assume "c' < nextCam ?b"
    then have inv: "camerasOf b (camName (caConfig (camStore b c'))) = Some c' \<or> camera_down (camStore b c')"
      using cameras_invD(2) [OF assms] by (simp add: b)
    show "camerasOf ?b (camName (caConfig (camStore ?b c'))) = Some c' \<or> camera_down (camStore ?b c')"
    proof (cases "c' = c")
      case False
      then have "camName (caConfig (camStore b c')) = name \<Longrightarrow> camerasOf b (camName (caConfig (camStore b c'))) \<noteq> Some c'"
        using Some by simp
      then show ?thesis using inv False by (auto simp: b)
    qed (simp add: b camera_down_def)
  next
    assume "closedB ?b"
    then show "camerasOf ?b = Map.empty" using cameras_invD(3) [OF assms] by (simp add: b)
  qed
qed (simp add: RemoveCamera_def assms)

lemma AddCamera_inv:
  assumes "cameras_inv b"
  shows "cameras_inv (snd (AddCamera outbound now bind_err c b))"
proof (cases "AddCamera outbound now bind_err c b")
  case (Pair r b')
  show ?thesis
  proof (cases r)
    case (Inl e)
    then have "b' = b"
      using Pair by (auto simp: AddCamera_def Let_def split: option.splits if_splits prod.splits)
    then show ?thesis using assms Pair by simp
  next
    case (Inr cam)
    note add = AddCamera_effect [OF Pair [unfolded Inr]]
    let ?n = "camName (ApplyDefaults c)"
    have reg: "c' < nextCam b' \<and> camName (caConfig (camStore b' c')) = n \<and> camera_up (camStore b' c')"
      if "camerasOf b' n = Some c'" for n c'
    proof (cases "n = ?n")
      case True
      then show ?thesis using that add(2,4,5,6,17,18) by (simp add: camera_up_def)
    next
      case False
      then have "camerasOf b n = Some c'" using that add(2) by simp
      then have "c' < nextCam b" "camName (caConfig (camStore b c')) = n" "camera_up (camStore b c')"
        using cameras_invD(1) [OF assms] by blast+
      then show ?thesis using add(3,4,8) by simp
    qed
    have kept: "camerasOf b' (camName (caConfig (camStore b' c'))) = Some c' \<or> camera_down (camStore b' c')"
      if "c' < nextCam b'" for c'
    proof (cases "c' = cam")
      case True
      then show ?thesis using add(2,5) by simp
    next
      case False
      then have same: "camStore b' c' = camStore b c'" and "c' < nextCam b" using that add(3,4,8) by simp_all
      then have inv: "camerasOf b (camName (caConfig (camStore b c'))) = Some c' \<or> camera_down (camStore b c')"
        using cameras_invD(2) [OF assms] by blast
      have "camName (caConfig (camStore b c')) = ?n \<Longrightarrow> camerasOf b (camName (caConfig (camStore b c'))) \<noteq> Some c'"
        using add(7) by simp
      then show ?thesis using inv unfolding same add(2) by (simp only: fun_upd_def) metis
    qed
    show ?thesis unfolding Pair snd_conv 
      by (rule cameras_invI) (fact reg, fact kept, use add(14,16) in simp)
  qed
qed

lemma bridge_Close_inv:
  assumes "cameras_inv b" "set order = dom (camerasOf b)"
  shows "cameras_inv (bridge_Close order b)"
proof (cases "closedB b")
  case False
  let ?cs = "List.map_filter (camerasOf b) order"
  let ?b = "fold camera_stop ?cs (b\<lparr>closedB := True, camerasOf := Map.empty\<rparr>)"
  have all: "set ?cs = ran (camerasOf b)"
    using assms(2) by (force simp: List.map_filter_def ran_def dom_def image_iff)
  have stopped: "camStore ?b c = (if c \<in> ran (camerasOf b) then (camStore b c)\<lparr>caCancelled := True, caDeviceClosed := True\<rparr>
      else camStore b c)" "camerasOf ?b = Map.empty" "nextCam ?b = nextCam b" for c
    using fold_camera_stop [of ?cs "b\<lparr>closedB := True, camerasOf := Map.empty\<rparr>"] all by simp_all
  have "camera_down (camStore ?b c)" if "c < nextCam b" for c
  proof (cases "c \<in> ran (camerasOf b)")
    case False
    then have "camerasOf b (camName (caConfig (camStore b c))) \<noteq> Some c" by (auto simp: ran_def)
    then show ?thesis using assms(1) that stopped(1) False by (auto simp: cameras_inv_def)
  qed (simp add: stopped(1) camera_down_def)
  then have "cameras_inv ?b" by (simp add: cameras_inv_def stopped(2,3))
  then show ?thesis using False by (simp add: bridge_Close_def Let_def cameras_inv_def split: option.split)
qed (simp add: bridge_Close_def assms)

lemma bridge_step_inv:
  assumes "cameras_inv b" "bridge_step b b'"
  shows "cameras_inv b'"
  using assms(2)
proof cases
  case (bs_start listens)
  then show ?thesis using assms(1) by (auto simp: bridge_Start_def cameras_inv_def Let_def)
next
  case (bs_rtsp f)
  then show ?thesis using assms(1) by (simp add: cameras_inv_def)
next
  case (bs_live c d)
  then show ?thesis using assms(1) by (simp add: upd_camera_def SetLiveCatchUp_def cameras_inv_def camera_up_def camera_down_def)
qed (use assms(1) AddCamera_inv RemoveCamera_inv bridge_Close_inv in simp_all)

text \<open>C4: No camera is lost and none is kept by mistake: after any sequence of starts, additions, removals and closes
  of the bridge, whatever the table of cameras holds under a name is a camera that was added under that name and
  serves (its streams are not cancelled, every stream of its configuration has its pipeline, its device is open);
  every camera ever added is in the table under its name, or it is under no name at all and its streams are
  cancelled and its device is closed; and a closed bridge has no camera.\<close>

theorem no_camera_lost:
  assumes "bridge_step\<^sup>*\<^sup>* (new_bridge o') b"
  shows "(\<forall>n c. Camera n b = Some c \<longrightarrow> c < nextCam b \<and> camName (caConfig (camStore b c)) = n
        \<and> \<not> caCancelled (camStore b c) \<and> \<not> caDeviceClosed (camStore b c)
        \<and> map plProfile (caPipelines (camStore b c)) = camStreams (caConfig (camStore b c)))
    \<and> (\<forall>c < nextCam b. Camera (camName (caConfig (camStore b c))) b = Some c
        \<or> (\<forall>n. Camera n b \<noteq> Some c) \<and> caCancelled (camStore b c) \<and> caDeviceClosed (camStore b c))
    \<and> (closedB b \<longrightarrow> (\<forall>n. Camera n b = None))"
proof -
  have "cameras_inv (new_bridge o')" by (simp add: cameras_inv_def new_bridge_def Let_def)
  with assms(1) have "cameras_inv b" by (induction rule: rtranclp_induct) (auto intro: bridge_step_inv)
  then show ?thesis by (auto simp: cameras_inv_def Camera_def camera_up_def camera_down_def)
qed

theorem no_camera_lost_witness:
  "Camera ''door'' demo_added = Some 0 \<and> \<not> caCancelled (camStore demo_added 0) \<and> \<not> caDeviceClosed (camStore demo_added 0)
   \<and> caPipelines (camStore demo_added 0) \<noteq> []
   \<and> Camera ''door'' (snd (RemoveCamera ''door'' demo_added)) = None
   \<and> caCancelled (camStore (snd (RemoveCamera ''door'' demo_added)) 0)
   \<and> caDeviceClosed (camStore (snd (RemoveCamera ''door'' demo_added)) 0)"
proof -
  have "bridge_step (new_bridge demo_options) demo_bridge" unfolding demo_bridge_def by (rule bs_start)
  moreover have "bridge_step demo_bridge demo_added" unfolding demo_added_def by (rule bs_add)
  ultimately have run: "bridge_step\<^sup>*\<^sup>* (new_bridge demo_options) demo_added" by simp
  then have run2: "bridge_step\<^sup>*\<^sup>* (new_bridge demo_options) (snd (RemoveCamera ''door'' demo_added))"
    using bs_remove [of demo_added "''door''"] by (rule rtranclp.rtrancl_into_rtrancl)
  have reg: "Camera ''door'' demo_added = Some 0" "camStreams (caConfig (camStore demo_added 0)) \<noteq> []" "nextCam demo_added = 1"
    using AddCamera_effect(2,4,5) [OF demo_added] by (simp_all add: Camera_def demo_fields)
  have gone: "Camera ''door'' (snd (RemoveCamera ''door'' demo_added)) = None"
    "nextCam (snd (RemoveCamera ''door'' demo_added)) = 1"
    "\<forall>n. Camera n (snd (RemoveCamera ''door'' demo_added)) \<noteq> Some 0"
    using reg AddCamera_effect(2) [OF demo_added]
    by (auto simp: Camera_def RemoveCamera_def camera_stop_simps demo_fields demo_bridge_open split: option.split)
  have up: "\<not> caCancelled (camStore demo_added 0) \<and> \<not> caDeviceClosed (camStore demo_added 0)
      \<and> map plProfile (caPipelines (camStore demo_added 0)) = camStreams (caConfig (camStore demo_added 0))"
    using no_camera_lost [OF run] reg(1) by blast
  then have "caPipelines (camStore demo_added 0) \<noteq> []" using reg(2) by auto
  moreover have "caCancelled (camStore (snd (RemoveCamera ''door'' demo_added)) 0)
      \<and> caDeviceClosed (camStore (snd (RemoveCamera ''door'' demo_added)) 0)"
    using no_camera_lost [OF run2] gone by (metis zero_less_one)
  ultimately show ?thesis using up reg(1) gone(1) by simp
qed

section \<open>The gate closes when nobody watches\<close>

text \<open>A run of the gate: the polls with their times, the last answer and the state.\<close>

fun gate_run :: "int \<Rightarrow> nat \<Rightarrow> (int \<times> rtsp) list \<Rightarrow> int option \<Rightarrow> (bool \<times> int option) option" where
  "gate_run timeout h [] since = Some (True, since)"
| "gate_run timeout h ((now, w) # ps) since =
     do { (ans, since) \<leftarrow> idleGate now timeout h w since;
          if ps = [] then Some (ans, since) else gate_run timeout h ps since }"

definition watched :: "int \<Rightarrow> nat \<Rightarrow> int \<times> rtsp \<Rightarrow> bool" where
  "watched timeout h p = (case p of (now, w) \<Rightarrow>
     hasClients h w = Some True \<or> interestedSince (now - timeout) h w = Some True)"

lemma idleGate_flat:
  assumes "flat (mirrors (handlers w h)) w"
  shows "idleGate now timeout h w since = Some (if watched timeout h (now, w) then (True, None)
    else case since of None \<Rightarrow> (True, Some now) | Some t \<Rightarrow> (now - t < timeout, since))"
  using any_handler_mirrors [OF assms]
  by (auto simp: idleGate_def watched_def hasClients_def interestedSince_def)

lemma gate_run_snoc:
  "gate_run timeout h (ps @ [(now, w)]) since =
     do { (ans, since) \<leftarrow> gate_run timeout h ps since; idleGate now timeout h w since }"
  by (induction timeout h ps since rule: gate_run.induct) (auto split: Option.bind_splits)

definition flat_polls :: "nat \<Rightarrow> (int \<times> rtsp) list \<Rightarrow> bool" where
  "flat_polls h ps = (\<forall>(t, w) \<in> set ps. flat (mirrors (handlers w h)) w)"

text \<open>The state dates the first poll of the unwatched run at the end.\<close>

lemma gate_run_state:
  assumes "flat_polls h ps" "0 < timeout" "ps \<noteq> []"
  shows "\<exists>ans. gate_run timeout h ps None = Some (ans,
      (let tw = takeWhile (\<lambda>r. snd r = False) (rev (map (\<lambda>p. (fst p, watched timeout h p)) ps))
       in if tw = [] then None else Some (fst (last tw))))
    \<and> (ans \<longleftrightarrow> watched timeout h (last ps) \<or> fst (last ps) - timeout <
        fst (last (takeWhile (\<lambda>r. snd r = False) (rev (map (\<lambda>p. (fst p, watched timeout h p)) ps)))))"
  using assms
proof (induction ps rule: rev_induct)
  case (snoc p ps)
  obtain now w where p: "p = (now, w)" by fastforce
  have flat: "flat (mirrors (handlers w h)) w" and ps: "flat_polls h ps" using snoc.prems(1) by (auto simp: flat_polls_def p)
  show ?case
  proof (cases "ps = []")
    case True
    then show ?thesis using snoc.prems(2) by (simp add: p idleGate_flat [OF flat])
  next
    case False
    then show ?thesis
      using snoc.IH [OF ps snoc.prems(2)] snoc.prems(2)
      by (auto simp: p gate_run_snoc idleGate_flat [OF flat] Let_def split: if_splits)
  qed
qed simp

text \<open>C7: A stream that may disconnect when idle is let go exactly when nobody wants it: over any sequence
  of polls the gate answers no precisely if, for the whole timeout up to now, every poll found neither a
  session playing the stream or a mirror nor a client that asked for it within the timeout.\<close>

theorem gate_closes_when_unwatched:
  assumes "flat_polls h polls" "0 < timeout" "polls \<noteq> []" "sorted_wrt (\<lambda>p q. fst p \<le> fst q) polls"
  shows "(\<exists>since. gate_run timeout h polls None = Some (False, since)) \<longleftrightarrow>
    (\<exists>pre p post. polls = pre @ p # post \<and> fst p \<le> fst (last polls) - timeout
      \<and> (\<forall>q \<in> set (p # post). \<not> watched timeout h q))"
proof -
  let ?f = "\<lambda>p. (fst p, watched timeout h p)"
  let ?rs = "rev (map ?f polls)" and ?u = "fst (last polls) - timeout"
  have "(\<exists>since. gate_run timeout h polls None = Some (False, since)) \<longleftrightarrow>
      \<not> watched timeout h (last polls) \<and> fst (last (takeWhile (\<lambda>r. snd r = False) ?rs)) \<le> ?u"
    using gate_run_state [OF assms(1-3)] by (auto simp: Let_def not_less)
  also have "\<dots> \<longleftrightarrow> (\<exists>post t pre. ?rs = post @ (t, False) # pre \<and> t \<le> ?u \<and> (\<forall>r \<in> set post. snd r = False))"
  proof (cases "watched timeout h (last polls)")
    case False
    have sorted: "sorted_wrt (\<lambda>x y. fst y \<le> fst x) ?rs" using assms(4) by (simp add: sorted_wrt_rev sorted_wrt_map)
    have hd: "snd (hd ?rs) = False" using assms(3) False by (simp add: hd_rev last_map)
    show ?thesis using last_takeWhile_le [OF sorted _ hd, of ?u] assms(3) False by simp
  next
    case True
    have "False" if "?rs = post @ (t, False) # pre" "\<forall>r \<in> set post. snd r = False" for post t pre
    proof -
      have "snd (hd ?rs) = False" using that by (cases post) auto
      then show False using True assms(3) by (simp add: hd_rev last_map)
    qed
    then show ?thesis using True by blast
  qed
  also have "\<dots> \<longleftrightarrow> (\<exists>pre p post. polls = pre @ p # post \<and> fst p \<le> ?u \<and> (\<forall>q \<in> set (p # post). \<not> watched timeout h q))"
  proof
    assume "\<exists>post t pre. ?rs = post @ (t, False) # pre \<and> t \<le> ?u \<and> (\<forall>r \<in> set post. snd r = False)"
    then obtain post t pre where rs: "?rs = post @ (t, False) # pre" "t \<le> ?u" "\<forall>r \<in> set post. snd r = False" by blast
    have "map ?f polls = rev pre @ (t, False) # rev post" using rs(1) by (simp add: rev_swap)
    then obtain as p bs where "polls = as @ p # bs" "?f p = (t, False)" "map ?f bs = rev post"
      by (auto simp: map_eq_append_conv map_eq_Cons_conv)
    moreover from this have "\<forall>q \<in> set bs. \<not> watched timeout h q"
      using rs(3) by (metis (no_types, lifting) image_eqI set_map set_rev snd_conv)
    ultimately show "\<exists>pre p post. polls = pre @ p # post \<and> fst p \<le> ?u \<and> (\<forall>q \<in> set (p # post). \<not> watched timeout h q)"
      using rs(2) by (intro exI [of _ as] exI [of _ p] exI [of _ bs]) auto
  next
    assume "\<exists>pre p post. polls = pre @ p # post \<and> fst p \<le> ?u \<and> (\<forall>q \<in> set (p # post). \<not> watched timeout h q)"
    then obtain pre p post where "polls = pre @ p # post" "fst p \<le> ?u" "\<forall>q \<in> set (p # post). \<not> watched timeout h q" by blast
    then show "\<exists>post t pre. ?rs = post @ (t, False) # pre \<and> t \<le> ?u \<and> (\<forall>r \<in> set post. snd r = False)"
      by (intro exI [of _ "rev (map ?f post)"] exI [of _ "fst p"] exI [of _ "rev (map ?f pre)"]) auto
  qed
  finally show ?thesis .
qed

lemma gate_closes_when_unwatched_witness:
  "\<exists>since. gate_run 5 3 [(1, newRTSPServerHandler), (6, newRTSPServerHandler)] None = Some (False, since)"
proof -
  let ?w = newRTSPServerHandler
  have flat: "flat (mirrors (handlers ?w 3)) ?w" by (simp add: flat_def newRTSPServerHandler_def newRTSPStreamHandler_def)
  have "\<not> watched 5 3 (t, ?w)" for t
    using any_handler_mirrors [OF flat]
    by (simp add: watched_def hasClients_def interestedSince_def newRTSPServerHandler_def newRTSPStreamHandler_def)
  then have "\<exists>pre p post. [(1, ?w), (6, ?w)] = pre @ p # post \<and> fst p \<le> fst (last [(1, ?w), (6, ?w)]) - (5 :: int)
      \<and> (\<forall>q \<in> set (p # post). \<not> watched 5 3 q)"
    by (intro exI [of _ "[]"] exI [of _ "(1, ?w)"] exI [of _ "[(6, ?w)]"]) simp
  then show ?thesis
    using gate_closes_when_unwatched [of 3 "[(1, ?w), (6, ?w)]" 5] flat by (simp add: flat_polls_def)
qed

end
