(* ===== verification/Commands.thy ===== *)
theory Commands
  imports Alarm
begin

text \<open>
  The commands a camera is driven with: the documents of \<^verbatim>\<open>pkg/baichuan/xml_commands.go\<close>, the
  operations of \<^verbatim>\<open>api_control.go\<close> and the webhook registration of \<^verbatim>\<open>webhook.go\<close>, all over \<open>exec\<close>
  of theory \<open>Queries\<close>, and the snapshot of \<^verbatim>\<open>snap.go\<close>, which collects a picture from the messages
  the camera sends after its reply. What a command is run with is the record \<open>link\<close>: the login,
  the camera's answer to each attempt and the end of each wait between attempts.
\<close>

section \<open>Running a command\<close>

record link =
  loginOf :: "client \<Rightarrow> (client_error option \<times> client) option"
  answers :: "nat \<Rightarrow> env"
  waits :: "nat \<Rightarrow> wait_end"

abbreviation channel_command ::
  "link \<Rightarrow> u32 \<Rightarrow> byte \<Rightarrow> xml option \<Rightarrow> client \<Rightarrow> ((client_error + message) \<times> client) option" where
  "channel_command l \<equiv> execCommand (loginOf l) (answers l) (waits l)"

abbreviation host_command ::
  "link \<Rightarrow> u32 \<Rightarrow> xml option \<Rightarrow> client \<Rightarrow> ((client_error + message) \<times> client) option" where
  "host_command l \<equiv> execHostCommand (loginOf l) (answers l) (waits l)"

text \<open>A command whose reply only says whether it was taken.\<close>

fun fault_of :: "'e + 'a \<Rightarrow> 'e option" where
  "fault_of (Inl e) = Some e"
| "fault_of (Inr x) = None"

definition taken :: "(('e + 'a) \<times> 'c) option \<Rightarrow> ('e option \<times> 'c) option" where
  "taken r = map_option (\<lambda>(res, c). (fault_of res, c)) r"

section \<open>The documents\<close>

definition command_body :: "string \<Rightarrow> xml list \<Rightarrow> xml" where
  "command_body name ks = Elem ''body'' [] [Elem name [(''version'', ''1.1'')] ks]"

text \<open>A field that is left out when it is zero.\<close>

definition omit_zero :: "string \<Rightarrow> int \<Rightarrow> xml list" where
  "omit_zero name n = (if n = 0 then [] else [num_field name n])"

definition xmlAudioPlayInfo :: "byte \<Rightarrow> int \<Rightarrow> int \<Rightarrow> int \<Rightarrow> int \<Rightarrow> xml" where
  "xmlAudioPlayInfo channel playMode duration rounds onOff =
     command_body ''audioPlayInfo''
       (omit_zero ''channelId'' (uint channel) @
        [num_field ''playMode'' playMode, num_field ''playDuration'' duration,
         num_field ''playTimes'' rounds, num_field ''onOff'' onOff])"

definition xmlFloodlightManual :: "byte \<Rightarrow> int \<Rightarrow> int \<Rightarrow> xml" where
  "xmlFloodlightManual channel status duration =
     command_body ''FloodlightManual''
       [num_field ''channelId'' (uint channel), num_field ''status'' status, num_field ''duration'' duration]"

definition xmlSleepState :: "int \<Rightarrow> int \<Rightarrow> xml" where
  "xmlSleepState operate sleep =
     command_body ''sleepState'' [num_field ''operate'' operate, num_field ''sleep'' sleep]"

definition xmlAutoFocus :: "byte \<Rightarrow> int \<Rightarrow> xml" where
  "xmlAutoFocus channel disable =
     command_body ''AutoFocus'' [num_field ''channelId'' (uint channel), num_field ''disable'' disable]"

definition xmlDingDongOpt :: "string \<Rightarrow> int \<Rightarrow> int \<Rightarrow> int \<Rightarrow> string \<Rightarrow> int \<Rightarrow> xml" where
  "xmlDingDongOpt opt chime vol led name music =
     command_body ''dingdongDeviceOpt''
       ([field ''opt'' opt, num_field ''id'' chime] @ omit_zero ''volLevel'' vol @ omit_zero ''ledState'' led
        @ (if name = [] then [] else [field ''name'' name]) @ omit_zero ''musicId'' music)"

definition xmlDingDongSilentMode :: "int \<Rightarrow> int \<Rightarrow> int \<Rightarrow> xml" where
  "xmlDingDongSilentMode chime time kind =
     command_body ''dingdongSilentMode''
       ([num_field ''id'' chime] @ omit_zero ''time'' time @ omit_zero ''type'' kind)"

definition xmlAudioFileInfo :: "byte \<Rightarrow> int \<Rightarrow> int \<Rightarrow> xml" where
  "xmlAudioFileInfo channel file timeout =
     command_body ''audioFileInfo''
       [num_field ''channelId'' (uint channel), num_field ''id'' file, num_field ''timeout'' timeout]"

definition xmlPtzControl :: "byte \<Rightarrow> string \<Rightarrow> int \<Rightarrow> xml" where
  "xmlPtzControl channel command speed =
     command_body ''PtzControl''
       [num_field ''channelId'' (uint channel), field ''command'' command, num_field ''speed'' speed]"

definition xmlPtzPreset :: "byte \<Rightarrow> int \<Rightarrow> string \<Rightarrow> xml" where
  "xmlPtzPreset channel preset command =
     command_body ''PtzPreset''
       [num_field ''channelId'' (uint channel),
        Elem ''presetList'' [] [Elem ''preset'' [] [num_field ''id'' preset, field ''command'' command]]]"

definition xmlPtzGuard :: "byte \<Rightarrow> int \<Rightarrow> string \<Rightarrow> int \<Rightarrow> int \<Rightarrow> string \<Rightarrow> xml" where
  "xmlPtzGuard channel benable command timeout needSetPos imageName =
     command_body ''PtzGuard''
       [num_field ''channelId'' (uint channel), num_field ''benable'' benable, field ''command'' command,
        num_field ''timeout'' timeout, num_field ''needSetPos'' needSetPos, field ''imageName'' imageName]"

definition xmlPtz3DLocation :: "byte \<Rightarrow> int \<Rightarrow> int \<Rightarrow> int \<Rightarrow> int \<Rightarrow> int \<Rightarrow> int \<Rightarrow> int \<Rightarrow> xml" where
  "xmlPtz3DLocation channel x y w h speed width height =
     command_body ''Ptz3DLocation''
       [num_field ''channelId'' (uint channel), num_field ''posX'' x, num_field ''posY'' y,
        num_field ''posWidth'' w, num_field ''posHeight'' h, num_field ''speed'' speed,
        num_field ''width'' width, num_field ''height'' height]"

definition xmlReboot :: "byte \<Rightarrow> xml" where
  "xmlReboot channel = Elem ''body'' [] [Elem ''Reboot'' [] [num_field ''channel'' (uint channel)]]"

definition xmlHaCfg :: "int \<Rightarrow> string \<Rightarrow> int \<Rightarrow> xml" where
  "xmlHaCfg enable url verify =
     command_body ''HaCfg'' [num_field ''enable'' enable, field ''url'' url, num_field ''verify_cert'' verify]"

section \<open>The commands\<close>

definition msgIDPTZControl :: u32 where "msgIDPTZControl = 18"
definition msgIDPTZControlPreset :: u32 where "msgIDPTZControlPreset = 19"
definition msgIDPTZPresetGet :: u32 where "msgIDPTZPresetGet = 190"
definition msgIDReboot :: u32 where "msgIDReboot = 23"
definition msgIDSnap :: u32 where "msgIDSnap = 109"
definition msgIDBatteryInfo :: u32 where "msgIDBatteryInfo = 253"
definition msgIDGetDevInfo :: u32 where "msgIDGetDevInfo = 80"
definition msgIDGetChannelDevInfo :: u32 where "msgIDGetChannelDevInfo = 318"
definition msgIDWebhookGet :: u32 where "msgIDWebhookGet = 806"
definition msgIDWebhookSet :: u32 where "msgIDWebhookSet = 807"
definition msgIDAutoFocusGet :: u32 where "msgIDAutoFocusGet = 224"
definition msgIDAutoFocusSet :: u32 where "msgIDAutoFocusSet = 225"
definition msgIDPlayAudio :: u32 where "msgIDPlayAudio = 263"
definition msgIDFloodlightManual :: u32 where "msgIDFloodlightManual = 288"
definition msgIDWhiteLedGet :: u32 where "msgIDWhiteLedGet = 289"
definition msgIDQuickReplyPlay :: u32 where "msgIDQuickReplyPlay = 349"
definition msgIDDingDongOpt2 :: u32 where "msgIDDingDongOpt2 = 485"
definition msgIDDingDongGet :: u32 where "msgIDDingDongGet = 486"
definition msgIDDingDongSilentSet :: u32 where "msgIDDingDongSilentSet = 610"
definition msgIDPrivacyModeGet :: u32 where "msgIDPrivacyModeGet = 574"
definition msgIDPrivacyModeSet :: u32 where "msgIDPrivacyModeSet = 575"
definition msgIDPtzGuardSet :: u32 where "msgIDPtzGuardSet = 331"
definition msgIDPtz3DLocation :: u32 where "msgIDPtz3DLocation = 445"

definition Siren :: "link \<Rightarrow> byte \<Rightarrow> int \<Rightarrow> client \<Rightarrow> (client_error option \<times> client) option" where
  "Siren l channel enable c =
     taken (channel_command l msgIDPlayAudio channel (Some (xmlAudioPlayInfo channel 2 10 1 enable)) c)"

definition SirenTimes :: "link \<Rightarrow> byte \<Rightarrow> int \<Rightarrow> client \<Rightarrow> (client_error option \<times> client) option" where
  "SirenTimes l channel rounds c =
     taken (channel_command l msgIDPlayAudio channel (Some (xmlAudioPlayInfo channel 0 10 rounds 1)) c)"

definition SirenHub :: "link \<Rightarrow> int \<Rightarrow> client \<Rightarrow> (client_error option \<times> client) option" where
  "SirenHub l enable c = taken (channel_command l msgIDPlayAudio 0 (Some (xmlAudioPlayInfo 0 2 10 1 enable)) c)"

definition SirenHubTimes :: "link \<Rightarrow> int \<Rightarrow> client \<Rightarrow> (client_error option \<times> client) option" where
  "SirenHubTimes l rounds c = taken (channel_command l msgIDPlayAudio 0 (Some (xmlAudioPlayInfo 0 0 10 rounds 1)) c)"

definition SetWhiteLed :: "link \<Rightarrow> byte \<Rightarrow> int \<Rightarrow> client \<Rightarrow> (client_error option \<times> client) option" where
  "SetWhiteLed l channel status c =
     taken (channel_command l msgIDFloodlightManual channel (Some (xmlFloodlightManual channel status 180)) c)"

definition GetWhiteLed :: "link \<Rightarrow> byte \<Rightarrow> client \<Rightarrow> ((client_error + message) \<times> client) option" where
  "GetWhiteLed l channel c = channel_command l msgIDWhiteLedGet channel None c"

definition SetPrivacyMode :: "link \<Rightarrow> byte \<Rightarrow> int \<Rightarrow> client \<Rightarrow> (client_error option \<times> client) option" where
  "SetPrivacyMode l channel enable c =
     taken (channel_command l msgIDPrivacyModeSet channel (Some (xmlSleepState 2 enable)) c)"

definition GetPrivacyMode :: "link \<Rightarrow> byte \<Rightarrow> client \<Rightarrow> ((client_error + message) \<times> client) option" where
  "GetPrivacyMode l channel c = channel_command l msgIDPrivacyModeGet channel None c"

definition SetAutoFocus :: "link \<Rightarrow> byte \<Rightarrow> int \<Rightarrow> client \<Rightarrow> (client_error option \<times> client) option" where
  "SetAutoFocus l channel disable c =
     taken (channel_command l msgIDAutoFocusSet channel (Some (xmlAutoFocus channel disable)) c)"

definition GetAutoFocus :: "link \<Rightarrow> byte \<Rightarrow> client \<Rightarrow> ((client_error + message) \<times> client) option" where
  "GetAutoFocus l channel c = channel_command l msgIDAutoFocusGet channel None c"

definition RingChimeWithTone ::
  "link \<Rightarrow> byte \<Rightarrow> int \<Rightarrow> int \<Rightarrow> client \<Rightarrow> (client_error option \<times> client) option" where
  "RingChimeWithTone l channel chime tone c =
     taken (channel_command l msgIDDingDongOpt2 channel
       (Some (xmlDingDongOpt ''ringWithMusic'' chime 0 0 [] tone)) c)"

definition GetChimeConfig :: "link \<Rightarrow> byte \<Rightarrow> client \<Rightarrow> ((client_error + message) \<times> client) option" where
  "GetChimeConfig l channel c = channel_command l msgIDDingDongGet channel None c"

definition SetChimeSilentMode ::
  "link \<Rightarrow> byte \<Rightarrow> int \<Rightarrow> int \<Rightarrow> client \<Rightarrow> (client_error option \<times> client) option" where
  "SetChimeSilentMode l channel chime time c =
     taken (channel_command l msgIDDingDongSilentSet channel (Some (xmlDingDongSilentMode chime time 63)) c)"

definition PlayQuickReply :: "link \<Rightarrow> byte \<Rightarrow> int \<Rightarrow> client \<Rightarrow> (client_error option \<times> client) option" where
  "PlayQuickReply l channel file c =
     taken (channel_command l msgIDQuickReplyPlay channel (Some (xmlAudioFileInfo channel file 0)) c)"

definition PTZControl :: "link \<Rightarrow> byte \<Rightarrow> string \<Rightarrow> int \<Rightarrow> client \<Rightarrow> (client_error option \<times> client) option" where
  "PTZControl l channel command speed c =
     (let speed = (if speed = 0 then 32 else speed)
      in taken (channel_command l msgIDPTZControl channel (Some (xmlPtzControl channel command speed)) c))"

definition PTZPreset :: "link \<Rightarrow> byte \<Rightarrow> int \<Rightarrow> client \<Rightarrow> (client_error option \<times> client) option" where
  "PTZPreset l channel preset c =
     taken (channel_command l msgIDPTZControlPreset channel (Some (xmlPtzPreset channel preset ''toPos'')) c)"

definition PtzGuard ::
  "link \<Rightarrow> byte \<Rightarrow> int \<Rightarrow> string \<Rightarrow> int \<Rightarrow> int \<Rightarrow> client \<Rightarrow> (client_error option \<times> client) option" where
  "PtzGuard l channel enable cmd timeout setPos c =
     taken (channel_command l msgIDPtzGuardSet channel (Some (xmlPtzGuard channel enable cmd timeout setPos [])) c)"

definition Ptz3DLocation ::
  "link \<Rightarrow> byte \<Rightarrow> int \<Rightarrow> int \<Rightarrow> int \<Rightarrow> int \<Rightarrow> int \<Rightarrow> int \<Rightarrow> int \<Rightarrow> client \<Rightarrow> (client_error option \<times> client) option" where
  "Ptz3DLocation l channel x y w h speed width height c =
     taken (channel_command l msgIDPtz3DLocation channel (Some (xmlPtz3DLocation channel x y w h speed width height)) c)"

definition Reboot :: "link \<Rightarrow> byte \<Rightarrow> client \<Rightarrow> (client_error option \<times> client) option" where
  "Reboot l channel c = taken (channel_command l msgIDReboot channel (Some (xmlReboot channel)) c)"

text \<open>\<^verbatim>\<open>RawCommand\<close> goes to the camera once, busy or not.\<close>

definition RawCommand ::
  "link \<Rightarrow> u32 \<Rightarrow> byte \<Rightarrow> string \<Rightarrow> bool \<Rightarrow> client \<Rightarrow> ((client_error + string) \<times> client) option" where
  "RawCommand l msgID channel body host c =
     do { (err, c) \<leftarrow> loginOf l c;
          Some (case err of
            Some e \<Rightarrow> (Inl e, c)
          | None \<Rightarrow>
              let bodyBytes = (if body = [] then [] else bytes_of (xml_header @ body));
                  (headerChannel, extn) = (if host then (channelIDHost, []) else (headerChannelID channel, channelExtension channel));
                  req = (base_request msgID headerChannel)\<lparr>rExtension := extn, rBody := bodyBytes\<rparr>
              in case sendRequest (answers l 1) req c of
                   (Inl e, c) \<Rightarrow> (Inl e, c)
                 | (Inr m, c) \<Rightarrow> (Inr (XML m), c)) }"

definition SetWebhook :: "link \<Rightarrow> bool \<Rightarrow> string \<Rightarrow> client \<Rightarrow> (client_error option \<times> client) option" where
  "SetWebhook l enable url c =
     taken (host_command l msgIDWebhookSet (Some (xmlHaCfg (if enable then 1 else 0) url 0)) c)"

section \<open>Commands that read their reply\<close>

datatype report_fault = ReportClient client_error | ReportUnreadable | ReportEmpty

definition read_reply ::
  "(string \<Rightarrow> report_fault + 'a) \<Rightarrow> ((client_error + message) \<times> client) option \<Rightarrow> ((report_fault + 'a) \<times> client) option" where
  "read_reply decode r =
     map_option (\<lambda>(res, c). (case res of Inl e \<Rightarrow> Inl (ReportClient e) | Inr m \<Rightarrow> decode (XML m), c)) r"

definition decode_webhook :: "xml_parser \<Rightarrow> string \<Rightarrow> report_fault + (bool \<times> string)" where
  "decode_webhook parser xmlText =
     (case do { doc \<leftarrow> parser xmlText; body \<leftarrow> any_root_kids doc;
                case struct_field ''HaCfg'' body of
                  None \<Rightarrow> Some None
                | Some ks \<Rightarrow> do { enable \<leftarrow> int_field 64 ''enable'' ks; Some (Some (enable, str_field ''url'' ks)) } } of
        None \<Rightarrow> Inl ReportUnreadable
      | Some None \<Rightarrow> Inl ReportEmpty
      | Some (Some (enable, url)) \<Rightarrow> Inr (enable = 1, url))"

definition GetWebhook ::
  "xml_parser \<Rightarrow> link \<Rightarrow> client \<Rightarrow> ((report_fault + bool \<times> string) \<times> client) option" where
  "GetWebhook parser l c = read_reply (decode_webhook parser) (host_command l msgIDWebhookGet None c)"

definition decode_presets :: "xml_parser \<Rightarrow> string \<Rightarrow> report_fault + (int \<times> string) list" where
  "decode_presets parser xmlText =
     (case do { doc \<leftarrow> parser xmlText; body \<leftarrow> root_kids ''body'' doc;
                case struct_field ''PtzPreset'' body of
                  None \<Rightarrow> Some []
                | Some ks \<Rightarrow>
                    do { _ \<leftarrow> uint_field 8 ''channelId'' ks; _ \<leftarrow> int_field 64 ''maxPresetNum'' ks;
                         traverse (\<lambda>item. map_option (\<lambda>n. (n, str_field ''name'' item)) (int_field 64 ''id'' item))
                           (path_field ''presetList'' ''preset'' ks) } } of
        None \<Rightarrow> Inl ReportUnreadable
      | Some items \<Rightarrow> Inr (filter (\<lambda>(n, name). name \<noteq> []) items))"

definition GetPTZPresets ::
  "xml_parser \<Rightarrow> link \<Rightarrow> byte \<Rightarrow> client \<Rightarrow> ((report_fault + (int \<times> string) list) \<times> client) option" where
  "GetPTZPresets parser l channel c =
     read_reply (decode_presets parser) (channel_command l msgIDPTZPresetGet channel None c)"

definition decode_battery_reply :: "xml_parser \<Rightarrow> string \<Rightarrow> report_fault + battery_info" where
  "decode_battery_reply parser xmlText =
     (case do { doc \<leftarrow> parser xmlText; body \<leftarrow> any_root_kids doc;
                case struct_field ''BatteryInfo'' body of
                  None \<Rightarrow> Some None
                | Some ks \<Rightarrow> map_option Some (decode_battery ks) } of
        None \<Rightarrow> Inl ReportUnreadable
      | Some None \<Rightarrow> Inl ReportEmpty
      | Some (Some info) \<Rightarrow> Inr info)"

definition GetBattery ::
  "xml_parser \<Rightarrow> link \<Rightarrow> byte \<Rightarrow> client \<Rightarrow> ((report_fault + battery_info) \<times> client) option" where
  "GetBattery parser l channel c =
     read_reply (decode_battery_reply parser) (channel_command l msgIDBatteryInfo channel None c)"

record dev_info =
  devName :: string
  devType :: string
  SerialNumber :: string
  HardwareVersion :: string
  FirmwareVersion :: string
  ItemNo :: string
  Detail :: string

definition dev_info_of :: "(string \<Rightarrow> string) \<Rightarrow> dev_info" where
  "dev_info_of text =
     \<lparr>devName = text ''name'', devType = text ''type'', SerialNumber = text ''serialNumber'',
      HardwareVersion = text ''hardwareVersion'', FirmwareVersion = text ''firmwareVersion'',
      ItemNo = text ''itemNo'', Detail = text ''detail''\<rparr>"

definition decode_dev_info :: "xml_parser \<Rightarrow> string \<Rightarrow> report_fault + dev_info" where
  "decode_dev_info parser xmlText =
     (case Option.bind (parser xmlText) any_root_kids of
        None \<Rightarrow> Inl ReportUnreadable
      | Some body \<Rightarrow>
          (case struct_field ''DevInfo'' body of
             Some ks \<Rightarrow> Inr (dev_info_of (\<lambda>name. str_field name ks))
           | None \<Rightarrow>
               (case struct_field ''VersionInfo'' body of
                  Some ks \<Rightarrow> Inr (dev_info_of (\<lambda>name. str_field name ks))
                | None \<Rightarrow> Inl ReportEmpty)))"

definition GetDevInfo :: "xml_parser \<Rightarrow> link \<Rightarrow> client \<Rightarrow> ((report_fault + dev_info) \<times> client) option" where
  "GetDevInfo parser l c = read_reply (decode_dev_info parser) (host_command l msgIDGetDevInfo None c)"

definition decode_channel_info :: "xml_tokens \<Rightarrow> string \<Rightarrow> report_fault + dev_info" where
  "decode_channel_info tokens xmlText =
     (let info = (dev_info_of (xmlElementText tokens xmlText))\<lparr>Detail := []\<rparr>
      in if devType info = [] \<and> SerialNumber info = [] then Inl ReportEmpty else Inr info)"

definition GetChannelDevInfo ::
  "xml_tokens \<Rightarrow> link \<Rightarrow> byte \<Rightarrow> client \<Rightarrow> ((report_fault + dev_info) \<times> client) option" where
  "GetChannelDevInfo tokens l channel c =
     read_reply (decode_channel_info tokens) (channel_command l msgIDGetChannelDevInfo channel None c)"

definition msgIDGetSupport :: u32 where "msgIDGetSupport = 199"

definition GetSupport ::
  "xml_parser \<Rightarrow> link \<Rightarrow> client \<Rightarrow> ((report_fault + support) \<times> client) option" where
  "GetSupport parser l c =
     map_option
       (\<lambda>(res, c). (case res of
          Inl e \<Rightarrow> Inl (ReportClient e)
        | Inr m \<Rightarrow>
            (case decode_support parser (IsNVR (loginInfo c)) (XML m) of
               Inl ReportSyntax \<Rightarrow> Inl ReportUnreadable
             | Inl ReportMissing \<Rightarrow> Inl ReportEmpty
             | Inr support \<Rightarrow> Inr support), c))
       (host_command l msgIDGetSupport None c)"

section \<open>The privacy mode\<close>

text \<open>The text up to the end of the element that was opened, with what follows it.\<close>

fun element_rest :: "nat \<Rightarrow> xml_token list \<Rightarrow> (string \<times> xml_token list) option" where
  "element_rest depth [] = None"
| "element_rest depth (StartTok n # ts) = element_rest (Suc depth) ts"
| "element_rest depth (EndTok # ts) =
     (case depth of 0 \<Rightarrow> Some ([], ts) | Suc d \<Rightarrow> element_rest d ts)"
| "element_rest depth (CharTok s # ts) =
     map_option (\<lambda>(t, rest). (if depth = 0 then s @ t else t, rest)) (element_rest depth ts)"

lemma element_rest_shorter:
  "element_rest depth ts = Some (s, rest) \<Longrightarrow> length rest < length ts"
  by (induction depth ts arbitrary: s rest rule: element_rest.induct)
     (auto split: nat.splits dest: less_SucI)

text \<open>
  \<^verbatim>\<open>DecodeElement\<close> of one \<^verbatim>\<open>status\<close> element: the channel and the flag, or nothing when a number does
  not parse, and the tokens the decoder has not consumed then.
\<close>

function decode_status :: "int \<Rightarrow> int \<Rightarrow> xml_token list \<Rightarrow> (int \<times> int) option \<times> xml_token list" where
  "decode_status chan sleep [] = (None, [])"
| "decode_status chan sleep (EndTok # ts) = (Some (chan, sleep), ts)"
| "decode_status chan sleep (CharTok s # ts) = decode_status chan sleep ts"
| "decode_status chan sleep (StartTok n # ts) =
     (case element_rest 0 ts of
        None \<Rightarrow> (None, [])
      | Some (s, rest) \<Rightarrow>
          if n = ''channelId'' then
            (case int_text 64 s of None \<Rightarrow> (None, rest) | Some v \<Rightarrow> decode_status v sleep rest)
          else if n = ''sleep'' then
            (case int_text 64 s of None \<Rightarrow> (None, rest) | Some v \<Rightarrow> decode_status chan v rest)
          else decode_status chan sleep rest)"
  by pat_completeness auto

termination
  by (relation "measure (\<lambda>(chan, sleep, ts). length ts)") (auto dest: element_rest_shorter)

lemma decode_status_shorter: "length (snd (decode_status chan sleep ts)) \<le> length ts"
proof (induction chan sleep ts rule: decode_status.induct)
  case (4 chan sleep n ts)
  then show ?case
    using element_rest_shorter [of 0 ts] by (fastforce split: option.splits)
qed auto

lemma decode_status_rest: "decode_status chan sleep ts = (r, rest) \<Longrightarrow> length rest < Suc (length ts)"
  using decode_status_shorter [of chan sleep ts] by simp

function status_states :: "xml_token list \<Rightarrow> (int \<rightharpoonup> bool) \<Rightarrow> int \<rightharpoonup> bool" where
  "status_states [] states = states"
| "status_states (StartTok n # ts) states =
     (if n = ''status'' then
        (case decode_status 0 0 ts of
           (None, rest) \<Rightarrow> status_states rest states
         | (Some (chan, sleep), rest) \<Rightarrow> status_states rest (states(chan \<mapsto> sleep = 1)))
      else status_states ts states)"
| "status_states (EndTok # ts) states = status_states ts states"
| "status_states (CharTok s # ts) states = status_states ts states"
  by pat_completeness auto

termination
  by (relation "measure (\<lambda>(ts, states). length ts)") (auto dest!: sym [of _ "decode_status 0 0 _"] decode_status_rest)

definition parsePrivacyStates :: "xml_tokens \<Rightarrow> string \<Rightarrow> int \<rightharpoonup> bool" where
  "parsePrivacyStates tokens xmlText =
     (let states = status_states (tokens xmlText) Map.empty;
          sleep = xmlElementText tokens xmlText ''sleep''
      in if states = Map.empty \<and> sleep \<noteq> [] then states(0 \<mapsto> sleep = ''1'') else states)"

text \<open>\<^verbatim>\<open>ListenForPrivacy\<close>: the callbacks one message causes.\<close>

definition privacy_callbacks :: "xml_tokens \<Rightarrow> byte \<Rightarrow> message \<Rightarrow> bool list" where
  "privacy_callbacks tokens channel msg = state_callback (parsePrivacyStates tokens) channel msg"

section \<open>Snapshots\<close>

definition xmlSnap :: "byte \<Rightarrow> byte \<Rightarrow> int \<Rightarrow> int \<Rightarrow> string \<Rightarrow> xml" where
  "xmlSnap channel logic time fullFrame streamType =
     command_body ''Snap''
       [num_field ''channelId'' (uint channel), num_field ''logicChannel'' (uint logic), num_field ''time'' time,
        num_field ''fullFrame'' fullFrame, field ''streamType'' streamType]"

definition jpegEOI :: bytes where "jpegEOI = [0xff, 0xd9]"

definition has_suffix :: "'a list \<Rightarrow> 'a list \<Rightarrow> bool" where
  "has_suffix xs ys = (length ys \<le> length xs \<and> drop (length xs - length ys) xs = ys)"

definition parseSnapPictureSize :: "xml_parser \<Rightarrow> string \<Rightarrow> nat" where
  "parseSnapPictureSize parser xmlText =
     (if xmlText = [] then 0
      else case do { doc \<leftarrow> parser xmlText; body \<leftarrow> any_root_kids doc; ks \<leftarrow> struct_field ''Snap'' body;
                     _ \<leftarrow> int_field 64 ''channelId'' ks; int_field 64 ''pictureSize'' ks } of
        None \<Rightarrow> 0
      | Some picture \<Rightarrow> nat picture)"

definition snapComplete :: "bytes \<Rightarrow> nat \<Rightarrow> bool \<Rightarrow> bytes option" where
  "snapComplete data expected final =
     (if 0 < expected then (if expected \<le> length data then Some (take expected data) else None)
      else if final \<or> has_suffix data jpegEOI then Some data
      else None)"

datatype snap_fault = SnapClient client_error | ChunkLost | SnapIncomplete nat nat

text \<open>
  What the collecting loop sees: the end of the context, the end of the client with its error, or a
  message with the number of messages its subscription has dropped so far.
\<close>

datatype snap_event = SnapCtx client_error | SnapClosed "client_error option" | SnapMessage nat message

fun snap_step :: "nat \<Rightarrow> bytes \<Rightarrow> snap_event \<Rightarrow> bytes \<times> (snap_fault + bytes) option" where
  "snap_step expected buf (SnapCtx e) = (buf, Some (Inl (SnapClient e)))"
| "snap_step expected buf (SnapClosed err) =
     (buf, Some (Inl (SnapClient (case err of None \<Rightarrow> Canceled | Some e \<Rightarrow> e))))"
| "snap_step expected buf (SnapMessage lost msg) =
     (if \<not> Binary msg \<or> Payload msg = [] then (buf, None)
      else if 0 < lost then (buf, Some (Inl ChunkLost))
      else let buf = buf @ Payload msg; final = (ResponseCode (Header msg) = 201)
           in (buf, case snapComplete buf expected final of
                      Some img \<Rightarrow> Some (Inr img)
                    | None \<Rightarrow> if final then Some (Inl (SnapIncomplete (length buf) expected)) else None))"

text \<open>The loop; \<open>None\<close> when the events run out and it still waits.\<close>

fun snap_collect :: "nat \<Rightarrow> bytes \<Rightarrow> snap_event list \<Rightarrow> (snap_fault + bytes) option" where
  "snap_collect expected buf [] = None"
| "snap_collect expected buf (ev # evs) =
     (case snap_step expected buf ev of
        (buf', Some res) \<Rightarrow> Some res
      | (buf', None) \<Rightarrow> snap_collect expected buf' evs)"

text \<open>\<^verbatim>\<open>Snap\<close>, with the events its loop sees; while it waits its subscription stays.\<close>

definition Snap ::
  "xml_parser \<Rightarrow> link \<Rightarrow> byte \<Rightarrow> snap_event list \<Rightarrow> client \<Rightarrow> ((snap_fault + bytes) option \<times> client) option" where
  "Snap parser l channel events c =
     do { (err, c) \<leftarrow> loginOf l c;
          Some (case err of
            Some e \<Rightarrow> (Some (Inl (SnapClient e)), c)
          | None \<Rightarrow>
              let (sub, c) = subscribe msgIDSnap c;
                  req = (base_request msgIDSnap (headerChannelID channel))
                          \<lparr>rExtension := channelExtension channel,
                           rBody := marshalXMLDocument (xmlSnap channel channel 0 0 ''main'')\<rparr>
              in case sendRequest (answers l 1) req c of
                   (Inl e, c) \<Rightarrow> (Some (Inl (SnapClient e)), unsubscribe msgIDSnap sub c)
                 | (Inr resp, c) \<Rightarrow>
                     (case snap_collect (parseSnapPictureSize parser (XML resp)) [] events of
                        None \<Rightarrow> (None, c)
                      | Some res \<Rightarrow> (Some res, unsubscribe msgIDSnap sub c))) }"

section \<open>Reading back what was written\<close>

lemma elems_num_field [simp]:
  "elems name (num_field n i # ks) =
     (if n = name then ([], [Text (show_int i)]) # elems name ks else elems name ks)"
  by (simp add: num_field_def)

lemma elems_field [simp]:
  "elems name (field n v # ks) =
     (if n = name then ([], if v = [] then [] else [Text v]) # elems name ks else elems name ks)"
  by (simp add: field_def)

lemma int_field_single:
  assumes "elems name ks = [([], [Text (show_int i)])]" "- (2 ^ (bits - 1)) \<le> i" "i < 2 ^ (bits - 1)"
  shows "int_field bits name ks = Some i"
  using assms by (simp add: int_field_def opt_int_field_def int_text_show)

lemma str_field_single:
  "elems name ks = [([], if v = [] then [] else [Text v])] \<Longrightarrow> str_field name ks = v"
  by (simp add: str_field_def)

lemma uint_text_show: "0 \<le> i \<Longrightarrow> i < 2 ^ bits \<Longrightarrow> parse_uint bits (show_int i) = Some (nat i)"
  by (simp add: parse_uint_def show_int_def nat_less_iff)

lemma uint_field_single:
  assumes "elems name ks = [([], [Text (show_int i)])]" "0 \<le> i" "i < 2 ^ bits"
  shows "uint_field bits name ks = Some (nat i)"
  using assms by (simp add: uint_field_def uint_text_show)

lemma traverse_map: "(\<And>x. x \<in> set xs \<Longrightarrow> f (g x) = Some x) \<Longrightarrow> traverse f (map g xs) = Some xs"
  by (induction xs) auto

lemma elems_same: "elems name (map (\<lambda>x. Elem name [] (g x)) xs) = map (\<lambda>x. ([], g x)) xs"
  by (induction xs) auto

lemma decode_webhook_written:
  assumes "parses_rendered parser (xmlHaCfg enable url verify)" "\<bar>enable\<bar> < 2 ^ 63"
  shows "decode_webhook parser (xml_header @ render (xmlHaCfg enable url verify)) = Inr (enable = 1, url)"
  using assms
  by (simp add: decode_webhook_def parses_rendered_def xmlHaCfg_def command_body_def any_root_kids_def
        struct_field_def int_field_single [where i = enable] str_field_single [where v = url])

text \<open>The document a camera lists its positions in, an unnamed one for a slot that is not used.\<close>

definition preset_doc :: "byte \<Rightarrow> (int \<times> string) list \<Rightarrow> xml" where
  "preset_doc channel ps =
     Elem ''body'' [] [Elem ''PtzPreset'' []
       [num_field ''channelId'' (uint channel), num_field ''maxPresetNum'' (int (length ps)),
        Elem ''presetList'' []
          (map (\<lambda>(n, name). Elem ''preset'' [] [num_field ''id'' n, field ''name'' name]) ps)]]"

lemma decode_presets_doc:
  assumes "parses_rendered parser (preset_doc channel ps)" "length ps < 2 ^ 63"
    and "\<And>n name. (n, name) \<in> set ps \<Longrightarrow> \<bar>n\<bar> < 2 ^ 63"
  shows "decode_presets parser (xml_header @ render (preset_doc channel ps)) =
    Inr (filter (\<lambda>(n, name). name \<noteq> []) ps)"
proof -
  let ?item = "\<lambda>p. [num_field ''id'' (fst p), field ''name'' (snd p)]"
  let ?kids = "[num_field ''channelId'' (uint channel), num_field ''maxPresetNum'' (int (length ps)),
        Elem ''presetList'' [] (map (\<lambda>p. Elem ''preset'' [] (?item p)) ps)]"
  have kids: "struct_field ''PtzPreset'' [Elem ''PtzPreset'' [] ?kids] = Some ?kids"
    by (simp add: struct_field_def)
  have numbers: "uint_field 8 ''channelId'' ?kids = Some (unat channel)"
      "int_field 64 ''maxPresetNum'' ?kids = Some (int (length ps))"
    using assms(2) uint_lt2p [of channel]
    by (simp_all add: uint_field_single [where i = "uint channel"] int_field_single [where i = "int (length ps)"])
  have slots: "path_field ''presetList'' ''preset'' ?kids = map ?item ps"
    by (simp add: path_field_def slice_field_def elems_same comp_def)
  have items: "traverse (\<lambda>item. map_option (\<lambda>n. (n, str_field ''name'' item)) (int_field 64 ''id'' item))
      (map ?item ps) = Some ps"
  proof (rule traverse_map)
    fix p assume "p \<in> set ps"
    then have "\<bar>fst p\<bar> < 2 ^ 63" using assms(3) [of "fst p" "snd p"] by simp
    then show "map_option (\<lambda>n. (n, str_field ''name'' (?item p))) (int_field 64 ''id'' (?item p)) = Some p"
      by (simp add: int_field_single [where i = "fst p"] str_field_single [where v = "snd p"])
  qed
  have doc: "preset_doc channel ps = Elem ''body'' [] [Elem ''PtzPreset'' [] ?kids]"
    by (simp add: preset_doc_def case_prod_beta)
  show ?thesis
    using assms(1) by (simp add: decode_presets_def parses_rendered_def doc root_kids_def kids numbers slots items)
qed

text \<open>The positions of a PTZ camera reach the caller as the camera lists them: whatever names and
  numbers it keeps, and wherever the unused slots lie, the answer read from its document is the list
  of the named positions in its order.\<close>

theorem ptz_presets_read:
  assumes "channel_command l msgIDPTZPresetGet channel None c = Some (Inr m, c')"
    and "XML m = xml_header @ render (preset_doc channel ps)" "parses_rendered parser (preset_doc channel ps)"
    and "length ps < 2 ^ 63" "\<And>n name. (n, name) \<in> set ps \<Longrightarrow> \<bar>n\<bar> < 2 ^ 63"
  shows "GetPTZPresets parser l channel c = Some (Inr (filter (\<lambda>(n, name). name \<noteq> []) ps), c')"
  using decode_presets_doc [OF assms(3-5)] assms(1,2)
  by (simp add: GetPTZPresets_def read_reply_def)

text \<open>A link to a camera that takes every command and answers with one document.\<close>

definition demo_link :: "string \<Rightarrow> link" where
  "demo_link reply =
     \<lparr>loginOf = (\<lambda>c. Some (None, c)),
      answers = (\<lambda>n req c. (Inr ((demo_message (rMsgID req) (rMsgNum req))\<lparr>XML := reply\<rparr>), c)),
      waits = (\<lambda>n. Elapsed)\<rparr>"

lemma demo_link_channel:
  "\<exists>m c'. channel_command (demo_link reply) msgID channel body c = Some (Inr m, c') \<and> XML m = reply"
  by (simp add: demo_link_def execCommand_def exec_def retryWhileBusy_def retry_from.simps sendRequest_def
      roundTripRequest_def reserveMessageNumber_def message_success_def demo_message_def Let_def)

lemma demo_link_host:
  "\<exists>m c'. host_command (demo_link reply) msgID body c = Some (Inr m, c') \<and> XML m = reply"
  by (simp add: demo_link_def execHostCommand_def exec_def retryWhileBusy_def retry_from.simps sendRequest_def
      roundTripRequest_def reserveMessageNumber_def message_success_def demo_message_def Let_def)

theorem ptz_presets_read_witness:
  "\<exists>c'. GetPTZPresets (\<lambda>s. Some (preset_doc 0 [(0, ''door''), (1, []), (2, ''yard'')]))
      (demo_link (xml_header @ render (preset_doc 0 [(0, ''door''), (1, []), (2, ''yard'')]))) 0
      (new_client demo_config False) = Some (Inr [(0, ''door''), (2, ''yard'')], c')"
proof -
  let ?ps = "[(0, ''door''), (1, []), (2, ''yard'')] :: (int \<times> string) list"
  let ?link = "demo_link (xml_header @ render (preset_doc 0 ?ps))"
  obtain m c' where reply: "channel_command ?link msgIDPTZPresetGet 0 None (new_client demo_config False) = Some (Inr m, c')"
      "XML m = xml_header @ render (preset_doc 0 ?ps)"
    using demo_link_channel by blast
  from ptz_presets_read [OF reply, of "\<lambda>s. Some (preset_doc 0 ?ps)"] show ?thesis
    by (force simp: parses_rendered_def)
qed

section \<open>A snapshot is the picture\<close>

text \<open>What a message of the picture carries, and what it adds to the picture.\<close>

definition chunk :: "snap_event \<Rightarrow> bytes" where
  "chunk ev = (case ev of SnapMessage lost msg \<Rightarrow> if Binary msg then Payload msg else [] | _ \<Rightarrow> [])"

definition picture_of :: "snap_event list \<Rightarrow> bytes" where
  "picture_of evs = concat (map chunk evs)"

lemma picture_of_simps [simp]: "picture_of [] = []" "picture_of (ev # evs) = chunk ev @ picture_of evs"
  by (simp_all add: picture_of_def)

lemma snap_step_sound:
  "snap_step expected buf ev = (buf', res) \<Longrightarrow>
     (case res of
        None \<Rightarrow> buf' = buf @ chunk ev
      | Some (Inr img) \<Rightarrow>
          chunk ev \<noteq> [] \<and> snapComplete (buf @ chunk ev) expected
            (case ev of SnapMessage lost msg \<Rightarrow> ResponseCode (Header msg) = 201 | _ \<Rightarrow> False) = Some img
      | Some (Inl e) \<Rightarrow> True)"
  by (cases ev) (auto simp: chunk_def Let_def split: if_splits option.splits)

text \<open>What the subscription has dropped when the event comes.\<close>

fun lost_before :: "snap_event \<Rightarrow> nat" where
  "lost_before (SnapMessage lost msg) = lost"
| "lost_before _ = 0"

lemma snap_step_whole:
  "snap_step expected buf ev = (buf', res) \<Longrightarrow> res = None \<or> res = Some (Inr img) \<Longrightarrow>
   chunk ev \<noteq> [] \<Longrightarrow> lost_before ev = 0"
  by (cases ev) (auto simp: chunk_def split: if_splits)

lemma snap_step_last:
  "snap_step expected buf ev = (buf', Some (Inr img)) \<Longrightarrow>
   \<exists>fin. ev = SnapMessage 0 fin \<and> Binary fin \<and> Payload fin \<noteq> []
     \<and> snapComplete (buf @ chunk ev) expected (ResponseCode (Header fin) = 201) = Some img"
  by (cases ev) (auto simp: chunk_def Let_def split: if_splits option.splits)

lemma snap_collect_sound:
  "snap_collect expected buf evs = Some (Inr img) \<Longrightarrow>
     \<exists>seen fin rest. evs = seen @ SnapMessage 0 fin # rest \<and> Binary fin \<and> Payload fin \<noteq> []
       \<and> (\<forall>ev \<in> set seen. chunk ev \<noteq> [] \<longrightarrow> lost_before ev = 0)
       \<and> snapComplete (buf @ picture_of (seen @ [SnapMessage 0 fin])) expected (ResponseCode (Header fin) = 201) = Some img"
proof (induction evs arbitrary: buf)
  case (Cons ev evs)
  obtain buf' res where step: "snap_step expected buf ev = (buf', res)" by fastforce
  show ?case
  proof (cases res)
    case None
    then have "snap_collect expected (buf @ chunk ev) evs = Some (Inr img)"
      using Cons.prems step snap_step_sound [OF step] by simp
    from Cons.IH [OF this] obtain seen fin rest where
      "evs = seen @ SnapMessage 0 fin # rest" "Binary fin" "Payload fin \<noteq> []"
      "\<forall>ev \<in> set seen. chunk ev \<noteq> [] \<longrightarrow> lost_before ev = 0"
      "snapComplete (buf @ chunk ev @ picture_of (seen @ [SnapMessage 0 fin])) expected
         (ResponseCode (Header fin) = 201) = Some img"
      by auto
    then show ?thesis
      using snap_step_whole [OF step] None by (intro exI [of _ "ev # seen"] exI [of _ fin] exI [of _ rest]) simp
  next
    case (Some r)
    then have "r = Inr img" using Cons.prems step by simp
    then obtain fin where "ev = SnapMessage 0 fin" "Binary fin" "Payload fin \<noteq> []"
      "snapComplete (buf @ chunk ev) expected (ResponseCode (Header fin) = 201) = Some img"
      using snap_step_last step Some by blast
    then show ?thesis by (intro exI [of _ "[]"] exI [of _ fin] exI [of _ evs]) simp
  qed
qed simp

text \<open>C35: A snapshot is never a torn picture. It ends with a message that carries a part of it, and when that one was
  taken, and each part before it, no message had been dropped: a lost message never yields a shorter picture. When
  the camera announced a size, the picture handed out has exactly that size and is the beginning of what the camera
  sent, in its order; without an announced size it is everything that was sent, and the last message was marked as
  the end or brought the end marker of a JPEG.\<close>

theorem snapshot_never_torn:
  assumes "snap_collect expected [] evs = Some (Inr img)"
  shows "\<exists>seen fin rest. evs = seen @ SnapMessage 0 fin # rest \<and> Binary fin \<and> Payload fin \<noteq> []
    \<and> (\<forall>ev \<in> set seen. chunk ev \<noteq> [] \<longrightarrow> lost_before ev = 0)
    \<and> (if 0 < expected then length img = expected \<and> img = take expected (picture_of (seen @ [SnapMessage 0 fin]))
       else img = picture_of (seen @ [SnapMessage 0 fin])
         \<and> (has_suffix img jpegEOI \<or> ResponseCode (Header fin) = 201))"
proof -
  from snap_collect_sound [OF assms] obtain seen fin rest where
    seen: "evs = seen @ SnapMessage 0 fin # rest" "Binary fin" "Payload fin \<noteq> []"
      "\<forall>ev \<in> set seen. chunk ev \<noteq> [] \<longrightarrow> lost_before ev = 0"
    and complete: "snapComplete (picture_of (seen @ [SnapMessage 0 fin])) expected (ResponseCode (Header fin) = 201) = Some img"
    by auto
  then show ?thesis
    by (intro exI [of _ seen] exI [of _ fin] exI [of _ rest]) (auto simp: snapComplete_def simp del: picture_of_simps split: if_splits)
qed

lemma snap_collect_chunks:
  assumes "\<forall>ev \<in> set evs. \<exists>msg. ev = SnapMessage 0 msg \<and> ResponseCode (Header msg) \<noteq> 201"
    and "length (buf @ picture_of evs) < expected"
  shows "snap_collect expected buf (evs @ others) = snap_collect expected (buf @ picture_of evs) others"
  using assms
proof (induction evs arbitrary: buf)
  case (Cons ev evs)
  then obtain msg where "ev = SnapMessage 0 msg" "ResponseCode (Header msg) \<noteq> 201" by auto
  then show ?case
    using Cons by (auto simp: chunk_def snapComplete_def Let_def split: if_splits)
qed simp

text \<open>However the camera cuts a picture into messages, and whatever other messages of the same id
  come between them, the snapshot is the picture: with the announced size, no message dropped and
  the last one marked as the end, the collected bytes are the picture that was sent.\<close>

theorem snapshot_assembled:
  assumes "\<forall>ev \<in> set evs. \<exists>msg. ev = SnapMessage 0 msg \<and> ResponseCode (Header msg) \<noteq> 201"
    and "Binary fin" "ResponseCode (Header fin) = 201" "Payload fin \<noteq> []"
    and "picture_of evs @ Payload fin = picture"
  shows "snap_collect (length picture) [] (evs @ SnapMessage 0 fin # others) = Some (Inr picture)"
proof -
  have "length (picture_of evs) < length picture"
    using assms(4,5) by (auto simp: length_greater_0_conv [symmetric] simp del: length_greater_0_conv)
  then have "snap_collect (length picture) [] (evs @ SnapMessage 0 fin # others)
      = snap_collect (length picture) (picture_of evs) (SnapMessage 0 fin # others)"
    using snap_collect_chunks [OF assms(1), of "[]"] by simp
  then show ?thesis using assms(2-5) by (auto simp: snapComplete_def Let_def)
qed

definition demo_chunk :: "bytes \<Rightarrow> u16 \<Rightarrow> message" where
  "demo_chunk body code =
     (let m = demo_message msgIDSnap 7
      in m\<lparr>Payload := body, Binary := True, Header := (Header m)\<lparr>ResponseCode := code\<rparr>\<rparr>)"

text \<open>Two parts that arrive whole, and a picture that lost a part before its last one.\<close>

theorem snapshot_never_torn_witness:
  "(\<exists>img. snap_collect 3 [] [SnapMessage 0 (demo_chunk [1, 2] 200), SnapMessage 0 (demo_chunk [3, 4] 200)] = Some (Inr img)
      \<and> length img = 3)
   \<and> (\<nexists>img. snap_collect 0 [] [SnapMessage 0 (demo_chunk [1, 2] 200), SnapMessage 1 (demo_chunk [5, 6] 201)] = Some (Inr img))"
proof
  let ?evs = "[SnapMessage 0 (demo_chunk [1, 2] 200), SnapMessage 0 (demo_chunk [3, 4] 200)]"
  obtain img where img: "snap_collect 3 [] ?evs = Some (Inr img)"
    by (simp add: demo_chunk_def demo_message_def Let_def snapComplete_def)
  from snapshot_never_torn [OF img] img
  show "\<exists>img. snap_collect 3 [] ?evs = Some (Inr img) \<and> length img = 3" by auto
next
  let ?evs = "[SnapMessage 0 (demo_chunk [1, 2] 200), SnapMessage 1 (demo_chunk [5, 6] 201)]"
  show "\<nexists>img. snap_collect 0 [] ?evs = Some (Inr img)"
  proof
    assume "\<exists>img. snap_collect 0 [] ?evs = Some (Inr img)"
    then obtain img where "snap_collect 0 [] ?evs = Some (Inr img)" by blast
    from snapshot_never_torn [OF this] obtain seen fin rest where
      evs: "?evs = seen @ SnapMessage 0 fin # rest" and img: "img = picture_of (seen @ [SnapMessage 0 fin])"
        "has_suffix img jpegEOI \<or> ResponseCode (Header fin) = 201" by auto
    have "seen = [] \<and> fin = demo_chunk [1, 2] 200" using evs by (auto simp: Cons_eq_append_conv)
    then show False using img
      by (simp add: chunk_def demo_chunk_def demo_message_def Let_def has_suffix_def jpegEOI_def)
  qed
qed

theorem snapshot_assembled_witness:
  "snap_collect 4 [] [SnapMessage 0 (demo_chunk [1, 2] 200), SnapMessage 0 (demo_message 109 0),
      SnapMessage 0 (demo_chunk [3, 4] 201)] = Some (Inr [1, 2, 3, 4])"
  using snapshot_assembled [of "[SnapMessage 0 (demo_chunk [1, 2] 200), SnapMessage 0 (demo_message 109 0)]"
      "demo_chunk [3, 4] 201" "[1, 2, 3, 4]" "[]"]
  by (simp add: demo_chunk_def demo_message_def Let_def chunk_def snapComplete_def)

end
