(* ===== verification/Device.thy ===== *)
theory Device
  imports Bridge Commands
begin

text \<open>
  The camera device of the bridge, \<^verbatim>\<open>pkg/bridge/device.go\<close>: one shared connection that is dialled
  when it is needed and dropped when it breaks, the queue that hands its state to the callback in
  order, the preview streams, the event watchers, the webhook subscription and talkback that
  survives a reconnect. The clients a device ever made are kept in a list, a client is its
  position there (its pointer in the code); \<open>dvClient\<close> is the current one. What the network does
  in one attempt to connect is the record \<open>network\<close>, with the times the attempt starts and ends.
\<close>

section \<open>State\<close>

definition uidReprobeInterval :: int where "uidReprobeInterval = 5 * minute"
definition uidLoginTimeout :: int where "uidLoginTimeout = 30 * sec"
definition previewRejectedPauseMin :: int where "previewRejectedPauseMin = 2 * sec"
definition previewRejectedPauseMax :: int where "previewRejectedPauseMax = minute"
definition lowPowerIdle :: int where "lowPowerIdle = 5 * sec"
definition webhookConfirmWait :: int where "webhookConfirmWait = 30 * sec"

text \<open>The callbacks of \<^verbatim>\<open>eventHandlers\<close> count by whether they are set.\<close>

record event_handlers =
  hAlarm :: bool
  hBattery :: bool
  hSleep :: bool
  hFloodlight :: bool
  hPollBattery :: bool
  hLetSleep :: bool
  hWebhookURL :: string
  hLowPower :: bool

text \<open>
  \<open>dvDrainer\<close> is the goroutine of \<^verbatim>\<open>notifyState\<close>: none, at the head of its loop, or inside the callback
  with a state; \<open>dvCalls\<close> are the states the callback was given, and \<open>dvJobs\<close> the clients whose
  preparation \<^verbatim>\<open>Ensure\<close> started, \<open>dvPolls\<close> those asked for their battery. \<open>dvPrivacy\<close> is the channel \<^verbatim>\<open>privacyEnded\<close> by a number, \<open>dvEnded\<close> the
  channels closed so far. \<open>dvIdle\<close> holds the clients told to close when they sit idle. \<open>dvUsed\<close> is a record
  the code does not keep: the clients the device logged in on and took for its own, in their order.
\<close>

record device =
  dvCfg :: config
  dvBackoff :: int
  dvNotify :: bool
  dvPending :: "bool list"
  dvDrainer :: "bool option option"
  dvCalls :: "bool list"
  dvWebhookFailed :: bool
  dvForeignWarned :: bool
  dvPrivacy :: "nat option"
  dvEnded :: "nat list"
  dvNextEnd :: nat
  dvOnConnect :: "(byte \<times> event_handlers) option"
  dvJobs :: "nat list"
  dvPolls :: "nat list"
  dvPushSeen :: bool
  dvClient :: "nat option"
  dvConns :: "client list"
  dvIdle :: "nat list"
  dvUsed :: "nat list"
  dvSince :: "int option"
  dvDual :: bool
  dvAudioSeen :: "string \<rightharpoonup> bool"

definition newCameraDevice :: "config \<Rightarrow> int \<Rightarrow> bool \<Rightarrow> device" where
  "newCameraDevice c backoff onState =
     \<lparr>dvCfg = c, dvBackoff = (if backoff \<le> 0 then 2 * sec else backoff), dvNotify = onState,
      dvPending = [], dvDrainer = None, dvCalls = [], dvWebhookFailed = False, dvForeignWarned = False,
      dvPrivacy = None, dvEnded = [], dvNextEnd = 0, dvOnConnect = None, dvJobs = [], dvPolls = [], dvPushSeen = False,
      dvClient = None, dvConns = [], dvIdle = [], dvUsed = [], dvSince = None, dvDual = False, dvAudioSeen = Map.empty\<rparr>"

abbreviation conn :: "device \<Rightarrow> nat \<Rightarrow> client" where
  "conn m i \<equiv> dvConns m ! i"

definition set_conn :: "nat \<Rightarrow> client \<Rightarrow> device \<Rightarrow> device" where
  "set_conn i c m = m\<lparr>dvConns := (dvConns m)[i := c]\<rparr>"

definition audioKnown :: "string \<Rightarrow> device \<Rightarrow> bool option" where
  "audioKnown stream m = dvAudioSeen m stream"

definition setAudioKnown :: "string \<Rightarrow> bool \<Rightarrow> device \<Rightarrow> device" where
  "setAudioKnown stream seen m = m\<lparr>dvAudioSeen := (dvAudioSeen m)(stream \<mapsto> seen)\<rparr>"

definition setPrivacy :: "bool \<Rightarrow> device \<Rightarrow> device" where
  "setPrivacy on m =
     (case dvPrivacy m of
        None \<Rightarrow> if on then m\<lparr>dvPrivacy := Some (dvNextEnd m), dvNextEnd := dvNextEnd m + 1\<rparr> else m
      | Some k \<Rightarrow> if on then m else m\<lparr>dvEnded := k # dvEnded m, dvPrivacy := None\<rparr>)"

definition privacyEnd :: "device \<Rightarrow> nat option" where
  "privacyEnd m = dvPrivacy m"

definition notePush :: "device \<Rightarrow> device" where
  "notePush m = m\<lparr>dvPushSeen := True\<rparr>"

text \<open>How the wait of \<^verbatim>\<open>awaitPush\<close> ends, the channel among the reasons only once it is closed.\<close>

datatype push_ready = PushSeen | PushTimeout | PushCtx

fun awaitPush :: "push_ready \<Rightarrow> bool" where
  "awaitPush PushSeen = True"
| "awaitPush PushTimeout = False"
| "awaitPush PushCtx = False"

definition setOnConnect :: "byte \<times> event_handlers \<Rightarrow> device \<Rightarrow> device" where
  "setOnConnect fn m = m\<lparr>dvOnConnect := Some fn\<rparr>"

definition DualLens :: "device \<Rightarrow> bool" where
  "DualLens m = dvDual m"

section \<open>Handing out the connection state\<close>

definition notifyState :: "bool \<Rightarrow> device \<Rightarrow> device" where
  "notifyState up m =
     (if \<not> dvNotify m then m
      else let m = m\<lparr>dvPending := dvPending m @ [up]\<rparr>
           in if dvDrainer m \<noteq> None then m else m\<lparr>dvDrainer := Some None\<rparr>)"

text \<open>
  One step of the goroutine: it takes the oldest state, or ends when there is none, or the callback
  it is in returns.
\<close>

definition drain_step :: "device \<Rightarrow> device" where
  "drain_step m =
     (case dvDrainer m of
        None \<Rightarrow> m
      | Some None \<Rightarrow>
          (case dvPending m of
             [] \<Rightarrow> m\<lparr>dvDrainer := None\<rparr>
           | b # bs \<Rightarrow> m\<lparr>dvPending := bs, dvDrainer := Some (Some b)\<rparr>)
      | Some (Some b) \<Rightarrow> m\<lparr>dvCalls := dvCalls m @ [b], dvDrainer := Some None\<rparr>)"

text \<open>
  The contract of a queue that one worker empties: what is handed in reaches the callback once and
  in the order it was handed in, and the worker comes to rest with nothing left. \<open>waiting\<close> is what
  was handed in and has not left the callback yet.
\<close>

locale ordered_delivery =
  fixes notify :: "'b \<Rightarrow> 's \<Rightarrow> 's"
    and work :: "'s \<Rightarrow> 's"
    and waiting calls :: "'s \<Rightarrow> 'b list"
    and busy ok :: "'s \<Rightarrow> bool"
    and effort :: "'s \<Rightarrow> nat"
  assumes notify_ok: "ok s \<Longrightarrow> ok (notify b s)"
    and work_ok: "ok s \<Longrightarrow> ok (work s)"
    and notify_waiting: "ok s \<Longrightarrow> waiting (notify b s) = waiting s @ [b]"
    and notify_calls: "calls (notify b s) = calls s"
    and work_log: "ok s \<Longrightarrow> calls (work s) @ waiting (work s) = calls s @ waiting s"
    and work_effort: "ok s \<Longrightarrow> busy s \<Longrightarrow> effort (work s) < effort s"
    and work_rest: "\<not> busy s \<Longrightarrow> work s = s"
    and rest_empty: "ok s \<Longrightarrow> \<not> busy s \<Longrightarrow> waiting s = []"
begin

definition log :: "'s \<Rightarrow> 'b list" where
  "log s = calls s @ waiting s"

text \<open>A run: a state handed in, or one step of the worker.\<close>

fun run :: "'b option list \<Rightarrow> 's \<Rightarrow> 's" where
  "run [] s = s"
| "run (Some b # es) s = run es (notify b s)"
| "run (None # es) s = run es (work s)"

lemma run_ok: "ok s \<Longrightarrow> ok (run es s)"
  by (induction es s rule: run.induct) (simp_all add: notify_ok work_ok)

lemma run_log: "ok s \<Longrightarrow> log (run es s) = log s @ map the (filter (\<lambda>e. e \<noteq> None) es)"
  by (induction es s rule: run.induct)
     (simp_all add: log_def notify_ok work_ok notify_waiting notify_calls work_log)

lemma work_pow_log: "ok s \<Longrightarrow> ok ((work ^^ n) s) \<and> log ((work ^^ n) s) = log s"
  by (induction n) (simp_all add: log_def work_ok work_log)

lemma worker_rests:
  assumes "ok s" "effort s \<le> n"
  shows "\<not> busy ((work ^^ n) s) \<and> calls ((work ^^ n) s) = log s"
proof -
  have "\<not> busy ((work ^^ n) s)"
    using assms
  proof (induction n arbitrary: s)
    case 0
    then show ?case using work_effort by fastforce
  next
    case (Suc n)
    show ?case
    proof (cases "busy s")
      case True
      then have "\<not> busy ((work ^^ n) (work s))"
        using Suc.prems work_effort [OF Suc.prems(1)] by (intro Suc.IH) (auto simp: work_ok)
      then show ?thesis by (simp add: funpow_swap1)
    next
      case False
      then have "(work ^^ k) s = s" for k by (induction k) (simp_all add: work_rest)
      then show ?thesis using False by metis
    qed
  qed
  moreover from this have "waiting ((work ^^ n) s) = []"
    using rest_empty work_pow_log [OF assms(1)] by blast
  moreover have "log ((work ^^ n) s) = log s" using work_pow_log [OF assms(1)] by blast
  ultimately show ?thesis by (simp add: log_def)
qed

end

text \<open>The device provides it, when the callback is set.\<close>

definition in_callback :: "device \<Rightarrow> bool list" where
  "in_callback m = (case dvDrainer m of Some (Some b) \<Rightarrow> [b] | _ \<Rightarrow> [])"

definition drain_effort :: "device \<Rightarrow> nat" where
  "drain_effort m =
     2 * length (dvPending m) + (case dvDrainer m of None \<Rightarrow> 0 | Some None \<Rightarrow> 1 | Some (Some b) \<Rightarrow> 2)"

definition queue_ok :: "device \<Rightarrow> bool" where
  "queue_ok m \<longleftrightarrow> dvNotify m \<and> (dvPending m \<noteq> [] \<longrightarrow> dvDrainer m \<noteq> None)"

interpretation states: ordered_delivery notifyState drain_step
    "\<lambda>m. in_callback m @ dvPending m" dvCalls "\<lambda>m. dvDrainer m \<noteq> None" queue_ok drain_effort
  by unfold_locales
     (auto simp: queue_ok_def notifyState_def drain_step_def in_callback_def drain_effort_def Let_def
       split: option.splits list.splits)

section \<open>The connection\<close>

text \<open>\<^verbatim>\<open>errors.Is(err, ErrIdle)\<close> and \<^verbatim>\<open>errors.As(err, *StatusError)\<close> look through what an error wraps.\<close>

fun is_idle :: "client_error \<Rightarrow> bool" where
  "is_idle ErrIdle = True"
| "is_idle (RequestNonce e) = is_idle e"
| "is_idle (LocalLoginDenied e) = is_idle e"
| "is_idle (LoginFailed e) = is_idle e"
| "is_idle (PingFailed e) = is_idle e"
| "is_idle (DialError e e') = is_idle e"
| "is_idle _ = False"

fun status_of :: "client_error \<Rightarrow> u16 option" where
  "status_of (StatusError i code) = Some code"
| "status_of (RequestNonce e) = status_of e"
| "status_of (LocalLoginDenied e) = status_of e"
| "status_of (LoginFailed e) = status_of e"
| "status_of (PingFailed e) = status_of e"
| "status_of (DialError e e') = status_of e"
| "status_of _ = None"

definition closeLocked :: "device \<Rightarrow> device" where
  "closeLocked m =
     (case dvClient m of
        None \<Rightarrow> m
      | Some i \<Rightarrow>
          let idle = (case closeErr (conn m i) of None \<Rightarrow> False | Some e \<Rightarrow> is_idle e);
              m = (set_conn i (client_close (conn m i)) m)\<lparr>dvClient := None\<rparr>
          in if idle then m else notifyState False m)"

definition Close_device :: "device \<Rightarrow> device" where
  "Close_device m = closeLocked m"

definition ResetIfCurrent :: "nat option \<Rightarrow> device \<Rightarrow> device" where
  "ResetIfCurrent c m =
     (if c = None then m else if dvClient m \<noteq> c then m else closeLocked m)"

definition shouldReprobeTCPLocked :: "int \<Rightarrow> device \<Rightarrow> bool" where
  "shouldReprobeTCPLocked now m =
     (Host (dvCfg m) \<noteq> [] \<and> PreferUID (dvCfg m) \<and>
      (case dvSince m of None \<Rightarrow> True | Some t \<Rightarrow> uidReprobeInterval \<le> now - t))"

definition noteTransportLocked :: "int \<Rightarrow> bool \<Rightarrow> device \<Rightarrow> device" where
  "noteTransportLocked now usedUID m =
     (if usedUID = PreferUID (dvCfg m) then m
      else let m = m\<lparr>dvCfg := (dvCfg m)\<lparr>PreferUID := usedUID\<rparr>\<rparr>
           in if usedUID then m\<lparr>dvSince := Some now\<rparr> else m)"

text \<open>
  One attempt to connect: what either transport would do, the login of a fresh client within a
  timeout (\<open>None\<close> is its panic), and the times before the dial and after the login.
\<close>

record network =
  tcpDial :: "client_error option"
  uidDial :: "client_error option"
  loginRun :: "int \<Rightarrow> client \<Rightarrow> (client_error option \<times> client) option"
  dialAt :: int
  loggedAt :: int

definition dial_config :: "network \<Rightarrow> device \<Rightarrow> config \<times> device" where
  "dial_config net m =
     (if shouldReprobeTCPLocked (dialAt net) m
      then ((dvCfg m)\<lparr>PreferUID := False\<rparr>, m\<lparr>dvSince := Some (dialAt net)\<rparr>)
      else (dvCfg m, m))"

definition loginTimeout :: "device \<Rightarrow> client \<Rightarrow> int" where
  "loginTimeout m c =
     (if isUDP c then max (config.Timeout (dvCfg m)) uidLoginTimeout else config.Timeout (dvCfg m))"

definition adopt :: "network \<Rightarrow> client \<Rightarrow> device \<Rightarrow> nat \<times> device" where
  "adopt net c m =
     (let i = length (dvConns m);
          m = m\<lparr>dvConns := dvConns m @ [c], dvClient := Some i, dvUsed := dvUsed m @ [i]\<rparr>;
          m = noteTransportLocked (loggedAt net) (isUDP c) m;
          m = m\<lparr>dvDual := IsDualLens (loginInfo c)\<rparr>;
          m = notifyState True m
      in (i, if dvOnConnect m \<noteq> None then m\<lparr>dvJobs := dvJobs m @ [i]\<rparr> else m))"

definition connect_device :: "network \<Rightarrow> device \<Rightarrow> ((client_error + nat) \<times> device) option" where
  "connect_device net m =
     (case dial_config net m of
        (dialCfg, m) \<Rightarrow>
          (case dial (tcpDial net) (uidDial net) dialCfg of
             Inl e \<Rightarrow> Some (Inl e, m)
           | Inr udp \<Rightarrow>
               do { let fresh = new_client dialCfg udp;
                    (err, c) \<leftarrow> loginRun net (loginTimeout m fresh) fresh;
                    Some (case err of
                      Some e \<Rightarrow> (Inl e, m\<lparr>dvConns := dvConns m @ [client_close c]\<rparr>)
                    | None \<Rightarrow> (case adopt net c m of (i, m) \<Rightarrow> (Inr i, m))) }))"

definition Ensure :: "network \<Rightarrow> device \<Rightarrow> ((client_error + nat) \<times> device) option" where
  "Ensure net m =
     (case dvClient m of
        None \<Rightarrow> connect_device net m
      | Some i \<Rightarrow>
          if closeErr (conn m i) = None then Some (Inr i, m) else connect_device net (closeLocked m))"

datatype 'e device_fault = ConnectFault client_error | CommandFault 'e

definition WithClient ::
  "network \<Rightarrow> (client \<Rightarrow> (('e + 'a) \<times> client) option) \<Rightarrow> device \<Rightarrow> (('e device_fault + 'a) \<times> device) option" where
  "WithClient net fn m =
     do { (r, m) \<leftarrow> Ensure net m;
          (case r of
             Inl e \<Rightarrow> Some (Inl (ConnectFault e), m)
           | Inr i \<Rightarrow>
               do { (res, c) \<leftarrow> fn (conn m i);
                    let m = set_conn i c m;
                    Some (case res of
                      Inr x \<Rightarrow> (Inr x, m)
                    | Inl e \<Rightarrow> (Inl (CommandFault e), if closeErr c \<noteq> None then ResetIfCurrent (Some i) m else m)) }) }"

section \<open>What every step keeps\<close>

definition state_log :: "device \<Rightarrow> bool list" where
  "state_log m = dvCalls m @ in_callback m @ dvPending m"

text \<open>The connection went down only when it was up before.\<close>

fun proper_log :: "bool \<Rightarrow> bool list \<Rightarrow> bool" where
  "proper_log up [] = True"
| "proper_log up (b # bs) = ((b \<or> up) \<and> proper_log b bs)"

lemma proper_log_append [simp]:
  "proper_log up (bs @ [b]) \<longleftrightarrow> proper_log up bs \<and> (b \<or> (if bs = [] then up else last bs))"
  by (induction bs arbitrary: up) auto

definition ended_idle :: "client \<Rightarrow> bool" where
  "ended_idle c = (case closeErr c of None \<Rightarrow> False | Some e \<Rightarrow> is_idle e)"

definition conns_ok :: "device \<Rightarrow> bool" where
  "conns_ok m \<longleftrightarrow> (\<forall>i. dvClient m = Some i \<longrightarrow> i < length (dvConns m)) \<and>
     (\<forall>j < length (dvConns m). dvClient m \<noteq> Some j \<longrightarrow> closeErr (conn m j) \<noteq> None)"

definition log_ok :: "device \<Rightarrow> bool" where
  "log_ok m \<longleftrightarrow> (dvPending m \<noteq> [] \<longrightarrow> dvDrainer m \<noteq> None) \<and>
     (if dvNotify m
      then proper_log False (state_log m) \<and> (dvClient m \<noteq> None \<longrightarrow> state_log m \<noteq> [] \<and> last (state_log m))
      else state_log m = [])"

definition privacy_ok :: "device \<Rightarrow> bool" where
  "privacy_ok m \<longleftrightarrow> distinct (dvEnded m) \<and>
     set (dvEnded m) \<union> set_option (dvPrivacy m) = {..<dvNextEnd m} \<and> set (dvEnded m) \<inter> set_option (dvPrivacy m) = {}"

definition idle_ok :: "device \<Rightarrow> bool" where
  "idle_ok m \<longleftrightarrow> (\<forall>i \<in> set (dvIdle m). i < length (dvConns m))"

definition dev_inv :: "device \<Rightarrow> bool" where
  "dev_inv m \<longleftrightarrow> conns_ok m \<and> log_ok m \<and> privacy_ok m \<and> idle_ok m"

lemmas dev_inv_defs = dev_inv_def conns_ok_def log_ok_def privacy_ok_def idle_ok_def

lemma dev_inv_new: "dev_inv (newCameraDevice c backoff onState)"
  by (simp add: dev_inv_defs newCameraDevice_def state_log_def in_callback_def)

lemma notifyState_keeps [simp]:
  "dvClient (notifyState b m) = dvClient m" "dvConns (notifyState b m) = dvConns m"
  "dvCfg (notifyState b m) = dvCfg m" "dvNotify (notifyState b m) = dvNotify m"
  "dvPrivacy (notifyState b m) = dvPrivacy m" "dvEnded (notifyState b m) = dvEnded m"
  "dvNextEnd (notifyState b m) = dvNextEnd m" "dvIdle (notifyState b m) = dvIdle m"
  "dvUsed (notifyState b m) = dvUsed m"
  "dvPushSeen (notifyState b m) = dvPushSeen m" "dvSince (notifyState b m) = dvSince m"
  "dvCalls (notifyState b m) = dvCalls m" "dvOnConnect (notifyState b m) = dvOnConnect m"
  "dvBackoff (notifyState b m) = dvBackoff m" "dvWebhookFailed (notifyState b m) = dvWebhookFailed m"
  by (simp_all add: notifyState_def Let_def)

lemma notifyState_log [simp]:
  "state_log (notifyState b m) = (if dvNotify m then state_log m @ [b] else state_log m)"
  by (auto simp: state_log_def in_callback_def notifyState_def Let_def split: option.splits)

lemma notifyState_busy:
  "dvPending (notifyState b m) \<noteq> [] \<longrightarrow> dvDrainer (notifyState b m) \<noteq> None"
  if "dvPending m \<noteq> [] \<longrightarrow> dvDrainer m \<noteq> None"
  using that by (simp add: notifyState_def Let_def)

lemma state_log_update [simp]:
  "state_log (m\<lparr>dvConns := cs\<rparr>) = state_log m" "state_log (m\<lparr>dvClient := i\<rparr>) = state_log m"
  "state_log (m\<lparr>dvCfg := g\<rparr>) = state_log m" "state_log (m\<lparr>dvSince := t\<rparr>) = state_log m"
  "state_log (m\<lparr>dvDual := d\<rparr>) = state_log m" "state_log (m\<lparr>dvJobs := js\<rparr>) = state_log m"
  "state_log (m\<lparr>dvPrivacy := pv\<rparr>) = state_log m" "state_log (m\<lparr>dvEnded := es\<rparr>) = state_log m"
  "state_log (m\<lparr>dvNextEnd := n\<rparr>) = state_log m" "state_log (m\<lparr>dvPushSeen := b\<rparr>) = state_log m"
  "state_log (m\<lparr>dvIdle := is\<rparr>) = state_log m" "state_log (m\<lparr>dvUsed := is\<rparr>) = state_log m"
  by (simp_all add: state_log_def in_callback_def)

lemma set_conn_simps [simp]:
  "dvClient (set_conn i c m) = dvClient m" "dvNotify (set_conn i c m) = dvNotify m"
  "dvCfg (set_conn i c m) = dvCfg m" "dvConns (set_conn i c m) = (dvConns m)[i := c]"
  "dvPending (set_conn i c m) = dvPending m" "dvDrainer (set_conn i c m) = dvDrainer m"
  "dvPrivacy (set_conn i c m) = dvPrivacy m" "dvEnded (set_conn i c m) = dvEnded m"
  "dvNextEnd (set_conn i c m) = dvNextEnd m" "dvIdle (set_conn i c m) = dvIdle m"
  "dvPushSeen (set_conn i c m) = dvPushSeen m" "dvBackoff (set_conn i c m) = dvBackoff m"
  "dvSince (set_conn i c m) = dvSince m" "dvWebhookFailed (set_conn i c m) = dvWebhookFailed m"
  "dvOnConnect (set_conn i c m) = dvOnConnect m" "dvUsed (set_conn i c m) = dvUsed m"
  "state_log (set_conn i c m) = state_log m"
  by (simp_all add: set_conn_def)

text \<open>A client that ended stays ended for the same reason.\<close>

definition latch :: "client \<Rightarrow> client \<Rightarrow> bool" where
  "latch c c' \<longleftrightarrow> (closeErr c \<noteq> None \<longrightarrow> closeErr c' = closeErr c)"

lemma latch_refl [simp]: "latch c c" by (simp add: latch_def)

lemma latch_trans: "latch a b \<Longrightarrow> latch b c \<Longrightarrow> latch a c" by (auto simp: latch_def)

lemma client_close_closed [simp]: "closeErr (client_close c) \<noteq> None"
  by (simp add: client_close_def client_end.get_set)

lemma client_close_latch: "latch c (client_close c)"
  by (auto simp: latch_def client_close_def client_end.get_set)

lemma ended_idle_latch: "ended_idle c \<Longrightarrow> latch c c' \<Longrightarrow> ended_idle c'"
  by (auto simp: ended_idle_def latch_def split: option.splits)

lemma set_conn_inv:
  assumes "dev_inv m" "i < length (dvConns m)" "latch (conn m i) c"
  shows "dev_inv (set_conn i c m)"
proof -
  have "closeErr ((dvConns m)[i := c] ! j) \<noteq> None" if "j < length (dvConns m)" "dvClient m \<noteq> Some j" for j
    using that assms by (cases "j = i") (auto simp: dev_inv_defs latch_def)
  then show ?thesis
    using assms by (simp add: dev_inv_defs)
qed

lemma closeLocked_inv:
  assumes "dev_inv m"
  shows "dev_inv (closeLocked m)"
proof (cases "dvClient m")
  case None
  then show ?thesis using assms by (simp add: closeLocked_def)
next
  case (Some i)
  let ?c = "client_close (conn m i)"
  let ?m = "(set_conn i ?c m)\<lparr>dvClient := None\<rparr>"
  have i: "i < length (dvConns m)" using assms Some by (simp add: dev_inv_defs)
  have closed: "closeErr ((dvConns m)[i := ?c] ! j) \<noteq> None" if "j < length (dvConns m)" for j
    using that assms Some by (cases "j = i") (auto simp: dev_inv_defs)
  have form: "closeLocked m = (if ended_idle (conn m i) then ?m else notifyState False ?m)"
    by (simp add: closeLocked_def Some Let_def ended_idle_def split: option.splits)
  have busy: "dvPending ?m \<noteq> [] \<longrightarrow> dvDrainer ?m \<noteq> None" using assms by (simp add: dev_inv_defs)
  show ?thesis
  proof (cases "ended_idle (conn m i)")
    case True
    then show ?thesis using assms Some closed busy by (simp add: form dev_inv_defs)
  next
    case False
    then show ?thesis
      using assms Some closed notifyState_busy [OF busy] by (auto simp: form dev_inv_defs)
  qed
qed

lemma closeLocked_keeps [simp]:
  "dvNotify (closeLocked m) = dvNotify m" "dvCfg (closeLocked m) = dvCfg m" "dvSince (closeLocked m) = dvSince m"
  "length (dvConns (closeLocked m)) = length (dvConns m)" "dvClient (closeLocked m) = None"
  "dvPrivacy (closeLocked m) = dvPrivacy m" "dvBackoff (closeLocked m) = dvBackoff m"
  "dvPushSeen (closeLocked m) = dvPushSeen m" "dvIdle (closeLocked m) = dvIdle m"
  by (simp_all add: closeLocked_def Let_def split: option.splits)

lemma ResetIfCurrent_inv: "dev_inv m \<Longrightarrow> dev_inv (ResetIfCurrent c m)"
  by (simp add: ResetIfCurrent_def closeLocked_inv)

lemma dial_config_keeps:
  "dial_config net m = (g, m') \<Longrightarrow> \<exists>t. m' = m\<lparr>dvSince := t\<rparr>"
  by (auto simp: dial_config_def split: if_splits intro: exI [of _ "dvSince m"])

lemma noteTransport_keeps: "\<exists>g t. noteTransportLocked now usedUID m = m\<lparr>dvCfg := g, dvSince := t\<rparr>"
proof (cases "usedUID = PreferUID (dvCfg m)")
  case True
  then show ?thesis
    by (intro exI [of _ "dvCfg m"] exI [of _ "dvSince m"]) (simp add: noteTransportLocked_def)
next
  case False
  let ?g = "(dvCfg m)\<lparr>PreferUID := usedUID\<rparr>"
  have "usedUID \<Longrightarrow> noteTransportLocked now usedUID m = m\<lparr>dvCfg := ?g, dvSince := Some now\<rparr>"
      "\<not> usedUID \<Longrightarrow> noteTransportLocked now usedUID m = m\<lparr>dvCfg := ?g, dvSince := dvSince m\<rparr>"
    using False by (simp_all add: noteTransportLocked_def Let_def)
  then show ?thesis by (cases usedUID) blast+
qed

lemma adopt_form:
  "\<exists>g t js. adopt net c m = (length (dvConns m),
     (notifyState True (m\<lparr>dvConns := dvConns m @ [c], dvClient := Some (length (dvConns m)),
        dvUsed := dvUsed m @ [length (dvConns m)], dvCfg := g, dvSince := t, dvDual := IsDualLens (loginInfo c)\<rparr>))\<lparr>dvJobs := js\<rparr>)"
proof -
  let ?m = "m\<lparr>dvConns := dvConns m @ [c], dvClient := Some (length (dvConns m)), dvUsed := dvUsed m @ [length (dvConns m)]\<rparr>"
  obtain g t where moved: "noteTransportLocked (loggedAt net) (isUDP c) ?m = ?m\<lparr>dvCfg := g, dvSince := t\<rparr>"
    using noteTransport_keeps by blast
  let ?n = "notifyState True (?m\<lparr>dvCfg := g, dvSince := t, dvDual := IsDualLens (loginInfo c)\<rparr>)"
  have "dvOnConnect ?n \<noteq> None \<Longrightarrow>
        adopt net c m = (length (dvConns m), ?n\<lparr>dvJobs := dvJobs ?n @ [length (dvConns m)]\<rparr>)"
      "dvOnConnect ?n = None \<Longrightarrow> adopt net c m = (length (dvConns m), ?n\<lparr>dvJobs := dvJobs ?n\<rparr>)"
    by (simp_all add: adopt_def Let_def moved)
  moreover have "?n = notifyState True (m\<lparr>dvConns := dvConns m @ [c], dvClient := Some (length (dvConns m)),
        dvUsed := dvUsed m @ [length (dvConns m)], dvCfg := g, dvSince := t, dvDual := IsDualLens (loginInfo c)\<rparr>)" by simp
  ultimately show ?thesis by (cases "dvOnConnect ?n = None") metis+
qed

lemma adopt_inv:
  assumes "dev_inv m" "dvClient m = None" "adopt net c m = (i, m')"
  shows "dev_inv m' \<and> i = length (dvConns m) \<and> dvClient m' = Some i \<and> dvConns m' = dvConns m @ [c]"
proof -
  obtain g t js where form: "adopt net c m = (length (dvConns m),
     (notifyState True (m\<lparr>dvConns := dvConns m @ [c], dvClient := Some (length (dvConns m)),
        dvUsed := dvUsed m @ [length (dvConns m)], dvCfg := g, dvSince := t, dvDual := IsDualLens (loginInfo c)\<rparr>))\<lparr>dvJobs := js\<rparr>)"
    using adopt_form by blast
  let ?m = "m\<lparr>dvConns := dvConns m @ [c], dvClient := Some (length (dvConns m)),
        dvUsed := dvUsed m @ [length (dvConns m)], dvCfg := g, dvSince := t, dvDual := IsDualLens (loginInfo c)\<rparr>"
  have "dvPending ?m \<noteq> [] \<longrightarrow> dvDrainer ?m \<noteq> None" using assms(1) by (simp add: dev_inv_defs)
  note busy = notifyState_busy [OF this, of True]
  have closed: "closeErr ((dvConns m @ [c]) ! j) \<noteq> None" if "j < Suc (length (dvConns m))" "j \<noteq> length (dvConns m)" for j
    using that assms(1,2) by (auto simp: dev_inv_defs nth_append less_Suc_eq)
  have "dev_inv ((notifyState True ?m)\<lparr>dvJobs := js\<rparr>)"
    using assms(1,2) closed busy by (auto simp: dev_inv_defs)
  then show ?thesis using form assms(3) by auto
qed

lemma connect_inv:
  assumes "dev_inv m" "dvClient m = None" "connect_device net m = Some (r, m')"
  shows "dev_inv m' \<and> (\<forall>i. r = Inr i \<longrightarrow> dvClient m' = Some i \<and> i < length (dvConns m'))"
proof -
  obtain g m1 where dc: "dial_config net m = (g, m1)" by fastforce
  obtain t where m1: "m1 = m\<lparr>dvSince := t\<rparr>" using dial_config_keeps [OF dc] by blast
  have inv1: "dev_inv m1" "dvClient m1 = None" using assms(1,2) by (simp_all add: m1 dev_inv_defs)
  show ?thesis
  proof (cases "dial (tcpDial net) (uidDial net) g")
    case (Inl e)
    then show ?thesis using assms(3) inv1 by (auto simp: connect_device_def dc)
  next
    case (Inr udp)
    then obtain err c where login:
      "loginRun net (loginTimeout m1 (new_client g udp)) (new_client g udp) = Some (err, c)"
      and res: "(case err of Some e \<Rightarrow> (Inl e, m1\<lparr>dvConns := dvConns m1 @ [client_close c]\<rparr>)
        | None \<Rightarrow> (case adopt net c m1 of (i, m) \<Rightarrow> (Inr i, m))) = (r, m')"
      using assms(3) by (auto simp: connect_device_def dc Let_def split: Option.bind_splits)
    show ?thesis
    proof (cases err)
      case None
      obtain i n where ad: "adopt net c m1 = (i, n)" by fastforce
      from adopt_inv [OF inv1 ad] show ?thesis using res None ad by auto
    next
      case (Some e)
      have "closeErr ((dvConns m1 @ [client_close c]) ! j) \<noteq> None" if "j < Suc (length (dvConns m1))" for j
        using that inv1 by (cases "j = length (dvConns m1)") (auto simp: dev_inv_defs nth_append less_Suc_eq)
      then have "conns_ok (m1\<lparr>dvConns := dvConns m1 @ [client_close c]\<rparr>)"
        using inv1 by (simp add: conns_ok_def)
      moreover have "log_ok (m1\<lparr>dvConns := dvConns m1 @ [client_close c]\<rparr>)"
        using inv1 by (auto simp: dev_inv_def log_ok_def)
      ultimately have "dev_inv (m1\<lparr>dvConns := dvConns m1 @ [client_close c]\<rparr>)"
        using inv1(1) by (simp add: dev_inv_def privacy_ok_def idle_ok_def less_SucI)
      then show ?thesis using res Some by auto
    qed
  qed
qed

lemma Ensure_inv:
  assumes "dev_inv m" "Ensure net m = Some (r, m')"
  shows "dev_inv m' \<and> (\<forall>i. r = Inr i \<longrightarrow> dvClient m' = Some i \<and> i < length (dvConns m'))"
proof (cases "dvClient m")
  case None
  then show ?thesis using connect_inv [OF assms(1)] assms(2) by (simp add: Ensure_def)
next
  case (Some i)
  show ?thesis
  proof (cases "closeErr (conn m i) = None")
    case True
    then show ?thesis using assms Some by (auto simp: Ensure_def dev_inv_defs)
  next
    case False
    then have "connect_device net (closeLocked m) = Some (r, m')" using assms(2) Some by (auto simp: Ensure_def)
    then show ?thesis using connect_inv [OF closeLocked_inv [OF assms(1)]] by simp
  qed
qed

lemma setPrivacy_inv: "dev_inv m \<Longrightarrow> dev_inv (setPrivacy b m)"
  by (auto simp: dev_inv_defs setPrivacy_def lessThan_Suc split: option.splits)

lemma drain_step_log [simp]: "state_log (drain_step m) = state_log m"
  by (simp add: state_log_def in_callback_def drain_step_def split: option.splits list.splits)

lemma drain_step_keeps [simp]:
  "dvClient (drain_step m) = dvClient m" "dvConns (drain_step m) = dvConns m"
  "dvNotify (drain_step m) = dvNotify m" "dvPrivacy (drain_step m) = dvPrivacy m"
  "dvEnded (drain_step m) = dvEnded m" "dvNextEnd (drain_step m) = dvNextEnd m"
  "dvIdle (drain_step m) = dvIdle m" "dvUsed (drain_step m) = dvUsed m" "dvPushSeen (drain_step m) = dvPushSeen m"
  by (simp_all add: drain_step_def split: option.splits list.splits)

lemma drain_step_inv: "dev_inv m \<Longrightarrow> dev_inv (drain_step m)"
proof -
  assume inv: "dev_inv m"
  then have "dvPending (drain_step m) \<noteq> [] \<longrightarrow> dvDrainer (drain_step m) \<noteq> None"
    by (auto simp: dev_inv_defs drain_step_def split: option.splits list.splits)
  then show ?thesis using inv by (simp add: dev_inv_defs)
qed

lemma notePush_inv: "dev_inv m \<Longrightarrow> dev_inv (notePush m)"
  by (auto simp: dev_inv_defs notePush_def)

text \<open>The fields no part of the invariant speaks of.\<close>

definition same_device :: "device \<Rightarrow> device \<Rightarrow> bool" where
  "same_device m m' \<longleftrightarrow>
     m' = m\<lparr>dvWebhookFailed := dvWebhookFailed m', dvForeignWarned := dvForeignWarned m', dvOnConnect := dvOnConnect m',
            dvJobs := dvJobs m', dvPolls := dvPolls m', dvAudioSeen := dvAudioSeen m'\<rparr>"

lemma same_device_keeps:
  assumes "same_device m m'"
  shows "dvNotify m' = dvNotify m" "dvPrivacy m' = dvPrivacy m" "dvEnded m' = dvEnded m" "dvClient m' = dvClient m"
    "dvConns m' = dvConns m" "dvCfg m' = dvCfg m" "dvSince m' = dvSince m"
proof -
  obtain w f oc js ps au where "m' = m\<lparr>dvWebhookFailed := w, dvForeignWarned := f, dvOnConnect := oc,
      dvJobs := js, dvPolls := ps, dvAudioSeen := au\<rparr>"
    using assms unfolding same_device_def by blast
  then show "dvNotify m' = dvNotify m" "dvPrivacy m' = dvPrivacy m" "dvEnded m' = dvEnded m" "dvClient m' = dvClient m"
    "dvConns m' = dvConns m" "dvCfg m' = dvCfg m" "dvSince m' = dvSince m" by simp_all
qed

lemma same_device_inv:
  assumes "dev_inv m" "same_device m m'"
  shows "dev_inv m'"
proof -
  obtain w f oc js ps au where m': "m' = m\<lparr>dvWebhookFailed := w, dvForeignWarned := f, dvOnConnect := oc,
      dvJobs := js, dvPolls := ps, dvAudioSeen := au\<rparr>"
    using assms(2) unfolding same_device_def by blast
  have "state_log m' = state_log m" by (simp add: m' state_log_def in_callback_def)
  then show ?thesis using assms(1) by (simp add: m' dev_inv_defs)
qed

section \<open>The life of a device\<close>

text \<open>
  The steps of a device, in any order: its own operations, the camera's pushes, the goroutine of the
  callback, and whatever a call or the read loop does to one of its clients, which ends at most once.
\<close>

inductive device_step :: "device \<Rightarrow> device \<Rightarrow> bool" where
  step_ensure: "Ensure net m = Some (r, m') \<Longrightarrow> device_step m m'"
| step_reset: "device_step m (ResetIfCurrent c m)"
| step_close: "device_step m (Close_device m)"
| step_client: "i < length (dvConns m) \<Longrightarrow> latch (conn m i) c \<Longrightarrow> device_step m (set_conn i c m)"
| step_drain: "device_step m (drain_step m)"
| step_privacy: "device_step m (setPrivacy on m)"
| step_push: "device_step m (notePush m)"
| step_idle: "i < length (dvConns m) \<Longrightarrow> device_step m (m\<lparr>dvIdle := i # dvIdle m\<rparr>)"
| step_core: "same_device m m' \<Longrightarrow> device_step m m'"

lemma device_step_inv: "device_step m m' \<Longrightarrow> dev_inv m \<Longrightarrow> dev_inv m'"
proof (induction rule: device_step.induct)
  case (step_idle i m)
  then show ?case by (simp add: dev_inv_defs)
qed (auto simp: Close_device_def Ensure_inv ResetIfCurrent_inv closeLocked_inv set_conn_inv drain_step_inv
      setPrivacy_inv notePush_inv intro: same_device_inv)

abbreviation device_steps :: "device \<Rightarrow> device \<Rightarrow> bool" where
  "device_steps \<equiv> device_step\<^sup>*\<^sup>*"

lemmas device_steps_then = rtranclp.rtrancl_into_rtrancl [of device_step]

lemma device_steps_inv: "device_steps m m' \<Longrightarrow> dev_inv m \<Longrightarrow> dev_inv m'"
  by (induction rule: rtranclp_induct) (auto intro: device_step_inv)

text \<open>What a connection attempt leaves alone.\<close>

definition untouched :: "device \<Rightarrow> device \<Rightarrow> bool" where
  "untouched m m' \<longleftrightarrow> dvNotify m' = dvNotify m \<and> dvPrivacy m' = dvPrivacy m \<and> dvEnded m' = dvEnded m
     \<and> dvIdle m' = dvIdle m \<and> dvPushSeen m' = dvPushSeen m \<and> dvOnConnect m' = dvOnConnect m"

lemma untouched_refl [simp]: "untouched m m"
  by (simp add: untouched_def)

lemma untouched_trans: "untouched a b \<Longrightarrow> untouched b c \<Longrightarrow> untouched a c"
  by (simp add: untouched_def)

lemma closeLocked_untouched: "untouched m (closeLocked m)"
  by (simp add: untouched_def closeLocked_def Let_def split: option.splits)

lemma adopt_untouched: "adopt net c m = (i, m') \<Longrightarrow> untouched m m'"
  using adopt_form [of net c m] by (auto simp: untouched_def)

lemma connect_untouched:
  assumes "connect_device net m = Some (r, m')"
  shows "untouched m m'"
proof -
  obtain g t where dc: "dial_config net m = (g, m\<lparr>dvSince := t\<rparr>)"
    using dial_config_keeps by (metis surj_pair)
  let ?m = "m\<lparr>dvSince := t\<rparr>"
  have "m' = ?m \<or> (\<exists>c. m' = ?m\<lparr>dvConns := dvConns m @ [c]\<rparr>) \<or> (\<exists>c i. adopt net c ?m = (i, m'))"
    using assms
    by (auto simp: connect_device_def dc Let_def split: sum.splits Option.bind_splits option.splits prod.splits)
  moreover have "untouched m ?m" "untouched m (?m\<lparr>dvConns := cs\<rparr>)" for cs
    by (simp_all add: untouched_def)
  ultimately show ?thesis using adopt_untouched untouched_trans by blast
qed

lemma Ensure_untouched: "Ensure net m = Some (r, m') \<Longrightarrow> untouched m m'"
  using connect_untouched [of net m] connect_untouched [of net "closeLocked m"] closeLocked_untouched [of m]
    untouched_trans [of m "closeLocked m"]
  by (auto simp: Ensure_def split: option.splits if_splits)

lemmas Ensure_keeps = Ensure_untouched [unfolded untouched_def]

lemma closeLocked_ended [simp]: "dvEnded (closeLocked m) = dvEnded m"
  using closeLocked_untouched by (simp add: untouched_def)

lemma device_step_notify: "device_step m m' \<Longrightarrow> dvNotify m' = dvNotify m"
  by (induction rule: device_step.induct)
     (auto simp: ResetIfCurrent_def Close_device_def setPrivacy_def notePush_def same_device_keeps
       dest: Ensure_keeps split: option.splits)

lemma device_steps_notify: "device_steps m m' \<Longrightarrow> dvNotify m' = dvNotify m"
  by (induction rule: rtranclp_induct) (auto dest: device_step_notify)

section \<open>The history of the connections\<close>

text \<open>
  What a listener ought to hear: for each client the device took for its own, in their order, that it is up,
  and, once it is no longer the device's client, that it is down, unless it had closed itself for sitting idle.
\<close>

definition connection_span :: "device \<Rightarrow> nat \<Rightarrow> bool list" where
  "connection_span m i = (if dvClient m = Some i \<or> ended_idle (conn m i) then [True] else [True, False])"

definition connection_history :: "device \<Rightarrow> bool list" where
  "connection_history m = concat (map (connection_span m) (dvUsed m))"

definition history_ok :: "device \<Rightarrow> bool" where
  "history_ok m \<longleftrightarrow> distinct (dvUsed m) \<and> (\<forall>i \<in> set (dvUsed m). i < length (dvConns m))
     \<and> (\<forall>i. dvClient m = Some i \<longrightarrow> dvUsed m \<noteq> [] \<and> last (dvUsed m) = i)
     \<and> (dvNotify m \<longrightarrow> state_log m = connection_history m)"

lemma connection_history_cong:
  assumes "dvUsed m' = dvUsed m" "\<And>i. i \<in> set (dvUsed m) \<Longrightarrow> connection_span m' i = connection_span m i"
  shows "connection_history m' = connection_history m"
  using assms unfolding connection_history_def by (metis (mono_tags, lifting) map_eq_conv)

lemma history_ok_cong:
  assumes "history_ok m" "dvUsed m' = dvUsed m" "dvClient m' = dvClient m" "dvNotify m' = dvNotify m"
    and "state_log m' = state_log m" "length (dvConns m) \<le> length (dvConns m')"
    and "\<And>i. i \<in> set (dvUsed m) \<Longrightarrow> connection_span m' i = connection_span m i"
  shows "history_ok m'"
  using assms(1-6) connection_history_cong [OF assms(2,7)] by (auto simp: history_ok_def)

lemma history_ok_new: "history_ok (newCameraDevice c backoff onState)"
  by (simp add: history_ok_def newCameraDevice_def connection_history_def state_log_def in_callback_def)

lemma client_close_idle: "ended_idle (client_close c) = ended_idle c"
  by (simp add: ended_idle_def client_close_def client_end.get_set split: option.split)

lemma set_conn_history:
  assumes "history_ok m" "dev_inv m" "i < length (dvConns m)" "latch (conn m i) c"
  shows "history_ok (set_conn i c m)"
proof (rule history_ok_cong [OF assms(1)])
  show "connection_span (set_conn i c m) j = connection_span m j" if "j \<in> set (dvUsed m)" for j
    using that assms by (auto simp: connection_span_def latch_def ended_idle_def dev_inv_defs nth_list_update)
qed simp_all

lemma closeLocked_history:
  assumes "history_ok m" "dev_inv m"
  shows "history_ok (closeLocked m)"
proof (cases "dvClient m")
  case None
  then show ?thesis using assms by (simp add: closeLocked_def)
next
  case (Some i)
  define n where "n = (set_conn i (client_close (conn m i)) m)\<lparr>dvClient := None\<rparr>"
  obtain us where us: "dvUsed m = us @ [i]" "i \<notin> set us"
    using assms(1) Some by (cases "dvUsed m" rule: rev_cases) (auto simp: history_ok_def)
  have i: "i < length (dvConns m)" using assms(2) Some by (simp add: dev_inv_defs)
  have old: "connection_span n j = connection_span m j" if "j \<in> set us" for j
  proof -
    have "j \<noteq> i" using that us(2) by blast
    then show ?thesis using Some by (simp add: connection_span_def n_def)
  qed
  then have "concat (map (connection_span n) us) = concat (map (connection_span m) us)" by (simp cong: map_cong)
  moreover have "connection_span n i = (if ended_idle (conn m i) then [True] else [True, False])"
    using i by (simp add: connection_span_def n_def client_close_idle)
  ultimately have hist: "connection_history n = connection_history m @ (if ended_idle (conn m i) then [] else [False])"
    using us(1) Some by (simp add: connection_history_def n_def) (simp add: connection_span_def)
  have form: "closeLocked m = (if ended_idle (conn m i) then n else notifyState False n)"
    by (simp add: closeLocked_def Some Let_def ended_idle_def n_def split: option.splits)
  have "connection_history (closeLocked m) = connection_history n"
    by (rule connection_history_cong) (simp_all add: form connection_span_def)
  moreover have "dvUsed n = dvUsed m" "dvNotify n = dvNotify m" "dvClient n = None" "state_log n = state_log m"
      "length (dvConns n) = length (dvConns m)"
    by (simp_all add: n_def)
  ultimately show ?thesis using assms(1) hist by (auto simp: form history_ok_def)
qed

lemma adopt_history:
  assumes "history_ok m" "dvClient m = None" "adopt net c m = (i, m')"
  shows "history_ok m'"
proof -
  let ?n = "length (dvConns m)"
  obtain g t js where m': "m' = (notifyState True (m\<lparr>dvConns := dvConns m @ [c], dvClient := Some ?n,
        dvUsed := dvUsed m @ [?n], dvCfg := g, dvSince := t, dvDual := IsDualLens (loginInfo c)\<rparr>))\<lparr>dvJobs := js\<rparr>"
    using adopt_form [of net c m] assms(3) by auto
  have old: "\<forall>j \<in> set (dvUsed m). j < ?n" using assms(1) by (simp add: history_ok_def)
  then have "connection_span m' j = connection_span m j" if "j \<in> set (dvUsed m)" for j
    using that assms(2) by (auto simp: connection_span_def m' nth_append)
  then have "concat (map (connection_span m') (dvUsed m)) = concat (map (connection_span m) (dvUsed m))"
    by (simp cong: map_cong)
  moreover have "dvUsed m' = dvUsed m @ [?n]" "dvClient m' = Some ?n" "length (dvConns m') = Suc ?n"
      "dvNotify m' = dvNotify m" "state_log m' = (if dvNotify m then state_log m @ [True] else state_log m)"
    by (simp_all add: m')
  moreover from this have "connection_span m' ?n = [True]" by (simp add: connection_span_def)
  ultimately have "connection_history m' = connection_history m @ [True]" by (simp add: connection_history_def)
  then show ?thesis
    using assms(1) old \<open>dvUsed m' = _\<close> \<open>dvClient m' = _\<close> \<open>length (dvConns m') = _\<close> \<open>dvNotify m' = _\<close> \<open>state_log m' = _\<close>
    by (auto simp: history_ok_def less_Suc_eq)
qed

lemma connect_history:
  assumes "history_ok m" "dvClient m = None" "connect_device net m = Some (r, m')"
  shows "history_ok m'"
proof -
  obtain g t where dc: "dial_config net m = (g, m\<lparr>dvSince := t\<rparr>)"
    using dial_config_keeps by (metis surj_pair)
  let ?m = "m\<lparr>dvSince := t\<rparr>"
  have "history_ok ?m" by (rule history_ok_cong [OF assms(1)]) (simp_all add: connection_span_def)
  moreover have "history_ok (?m\<lparr>dvConns := dvConns m @ [c]\<rparr>)" for c
    using assms(1) by (intro history_ok_cong [OF assms(1)]) (auto simp: connection_span_def history_ok_def nth_append)
  moreover have "m' = ?m \<or> (\<exists>c. m' = ?m\<lparr>dvConns := dvConns m @ [c]\<rparr>) \<or> (\<exists>c i. adopt net c ?m = (i, m'))"
    using assms(3)
    by (auto simp: connect_device_def dc Let_def split: sum.splits Option.bind_splits option.splits prod.splits)
  ultimately show ?thesis using adopt_history [of ?m net _ _ m'] assms(2) by auto
qed

lemma Ensure_history:
  assumes "history_ok m" "dev_inv m" "Ensure net m = Some (r, m')"
  shows "history_ok m'"
  using assms connect_history [of m net r m'] connect_history [OF closeLocked_history [OF assms(1,2)], of net r m']
  by (auto simp: Ensure_def split: option.splits if_splits)

lemma history_ok_other:
  assumes "history_ok m"
  shows "history_ok (drain_step m)" "history_ok (setPrivacy on m)" "history_ok (notePush m)"
    "history_ok (m\<lparr>dvIdle := is\<rparr>)"
  by (rule history_ok_cong [OF assms]; simp add: connection_span_def setPrivacy_def notePush_def split: option.split)+

lemma same_device_history:
  assumes "history_ok m" "same_device m m'"
  shows "history_ok m'"
proof -
  obtain w f oc js ps au where m': "m' = m\<lparr>dvWebhookFailed := w, dvForeignWarned := f, dvOnConnect := oc,
      dvJobs := js, dvPolls := ps, dvAudioSeen := au\<rparr>"
    using assms(2) unfolding same_device_def by blast
  show ?thesis
    by (rule history_ok_cong [OF assms(1)]) (simp_all add: m' connection_span_def state_log_def in_callback_def)
qed

lemma device_step_history: "device_step m m' \<Longrightarrow> dev_inv m \<Longrightarrow> history_ok m \<Longrightarrow> history_ok m'"
  by (induction rule: device_step.induct)
     (auto simp: Close_device_def ResetIfCurrent_def closeLocked_history set_conn_history history_ok_other
       intro: same_device_history Ensure_history)

lemma device_steps_history:
  assumes "device_steps (newCameraDevice c backoff onState) m"
  shows "history_ok m"
  using assms
proof (induction rule: rtranclp_induct)
  case (step m1 m2)
  then show ?case using device_step_history device_steps_inv [OF step.hyps(1) dev_inv_new] by blast
qed (simp add: history_ok_new)

lemma proper_spans: "proper_log up (concat (map (connection_span m) us))"
  by (induction us arbitrary: up) (simp_all add: connection_span_def)

lemma last_span:
  "us \<noteq> [] \<Longrightarrow> concat (map (connection_span m) us) \<noteq> []
     \<and> last (concat (map (connection_span m) us)) = (dvClient m = Some (last us) \<or> ended_idle (conn m (last us)))"
  by (induction us rule: rev_induct) (auto simp: connection_span_def)

section \<open>The callback hears every state, in order\<close>

text \<open>The abstract queue: what was delivered, and what waits.\<close>

definition fifo_put :: "bool \<Rightarrow> bool list \<times> bool list \<Rightarrow> bool list \<times> bool list" where
  "fifo_put b q = (fst q, snd q @ [b])"

definition fifo_take :: "bool list \<times> bool list \<Rightarrow> bool list \<times> bool list" where
  "fifo_take q = (fst q @ take 1 (snd q), drop 1 (snd q))"

fun fifo_run :: "bool option list \<Rightarrow> bool list \<times> bool list \<Rightarrow> bool list \<times> bool list" where
  "fifo_run [] q = q"
| "fifo_run (Some b # es) q = fifo_run es (fifo_put b q)"
| "fifo_run (None # es) q = fifo_run es (fifo_take q)"

definition fifo_of :: "device \<Rightarrow> bool list \<times> bool list" where
  "fifo_of m = (dvCalls m, in_callback m @ dvPending m)"

lemma fifo_of_notify: "queue_ok m \<Longrightarrow> fifo_of (notifyState b m) = fifo_put b (fifo_of m)"
  using states.notify_waiting [of m b] by (simp add: fifo_of_def fifo_put_def)

lemma fifo_of_drain:
  "fifo_of (drain_step m) = (if in_callback m = [] then fifo_of m else fifo_take (fifo_of m))"
  by (auto simp: fifo_of_def fifo_take_def in_callback_def drain_step_def split: option.splits list.splits)

text \<open>C12: The queue of connection states refines a plain first-in-first-out queue: any interleaving of
  states handed in and steps of the draining goroutine is a run of the abstract queue with the same
  states put in the same order, in which every step of the goroutine is one take or nothing. So the
  callback hears the states in their order, each once.\<close>

theorem states_refine_fifo:
  assumes "queue_ok m"
  shows "\<exists>as. fifo_of (states.run es m) = fifo_run as (fifo_of m)
    \<and> filter (\<lambda>e. e \<noteq> None) as = filter (\<lambda>e. e \<noteq> None) es \<and> length as \<le> length es"
  using assms
proof (induction es arbitrary: m)
  case Nil
  show ?case by (intro exI [of _ "[]"]) simp
next
  case (Cons e es)
  show ?case
  proof (cases e)
    case (Some b)
    with Cons.IH [of "notifyState b m"] Cons.prems obtain as where
      "fifo_of (states.run es (notifyState b m)) = fifo_run as (fifo_put b (fifo_of m))"
      "filter (\<lambda>e. e \<noteq> None) as = filter (\<lambda>e. e \<noteq> None) es" "length as \<le> length es"
      by (auto simp: states.notify_ok fifo_of_notify)
    then show ?thesis by (intro exI [of _ "Some b # as"]) (simp add: Some)
  next
    case None
    with Cons.IH [of "drain_step m"] Cons.prems obtain as where
      "fifo_of (states.run es (drain_step m)) = fifo_run as (fifo_of (drain_step m))"
      "filter (\<lambda>e. e \<noteq> None) as = filter (\<lambda>e. e \<noteq> None) es" "length as \<le> length es"
      by (auto simp: states.work_ok)
    then show ?thesis
      by (intro exI [of _ "if in_callback m = [] then as else None # as"]) (simp add: None fifo_of_drain)
  qed
qed

definition demo_device :: device where
  "demo_device = newCameraDevice Client.demo_config 0 True"

theorem states_refine_fifo_witness:
  "\<exists>as. fifo_of (states.run [Some True, None, Some False, None, None] demo_device) = fifo_run as (fifo_of demo_device)"
  using states_refine_fifo [of demo_device "[Some True, None, Some False, None, None]"]
  by (auto simp: demo_device_def newCameraDevice_def queue_ok_def)

lemma dev_inv_queue: "dev_inv m \<Longrightarrow> dvNotify m \<Longrightarrow> queue_ok m"
  by (simp add: dev_inv_defs queue_ok_def)

lemma drain_effort_bound: "drain_effort m \<le> 2 * length (dvPending m) + 2"
  by (simp add: drain_effort_def split: option.split)

lemma states_log: "states.log m = state_log m"
  by (simp add: states.log_def state_log_def)

lemma drain_history: "connection_history ((drain_step ^^ n) m) = connection_history m"
proof (induction n)
  case (Suc n)
  have "connection_history (drain_step k) = connection_history k" for k
    by (rule connection_history_cong) (simp_all add: connection_span_def)
  then show ?case using Suc by simp
qed simp

text \<open>C37: Every state is delivered: in any state of a device with a callback, as soon as the goroutine is
  left to run, twice as many steps as states wait and two more leave it ended, and the callback has then
  heard the whole history of the device's connections: up for every client the device logged in on, and
  down for every one it has given up since, but for those that had closed themselves for sitting idle, in
  the order of the clients.\<close>

theorem states_all_delivered:
  assumes "device_steps (newCameraDevice c backoff True) m"
  shows "dvDrainer ((drain_step ^^ (2 * length (dvPending m) + 2)) m) = None
    \<and> dvCalls ((drain_step ^^ (2 * length (dvPending m) + 2)) m) = connection_history m"
proof -
  have "dvNotify m" using device_steps_notify [OF assms] by (simp add: newCameraDevice_def)
  with device_steps_inv [OF assms dev_inv_new] have "queue_ok m" by (rule dev_inv_queue)
  moreover have "state_log m = connection_history m"
    using device_steps_history [OF assms] \<open>dvNotify m\<close> by (simp add: history_ok_def)
  ultimately show ?thesis using states.worker_rests [OF _ drain_effort_bound] by (metis states_log)
qed

text \<open>C2: A device tells the truth about its connection: once the goroutine has come to rest, the callback has
  heard the history of its connections and nothing else, each client up once and then down once, never down
  without up before. So a device with a connection reported up last; and one without reported up last
  exactly when the connection it had last, of all it ever logged in on, had closed itself for sitting idle
  to let the camera sleep; every other loss is reported.\<close>

theorem device_state_truthful:
  assumes "device_steps (newCameraDevice c backoff True) m" "dvDrainer m = None"
  shows "dvCalls m = connection_history m \<and> proper_log False (dvCalls m)
    \<and> (dvClient m \<noteq> None \<longrightarrow> dvCalls m \<noteq> [] \<and> last (dvCalls m))
    \<and> (dvClient m = None \<and> dvCalls m \<noteq> [] \<longrightarrow> last (dvCalls m) = ended_idle (conn m (last (dvUsed m))))
    \<and> (dvCalls m = [] \<longleftrightarrow> dvUsed m = [])"
proof -
  have "dvNotify m" using device_steps_notify [OF assms(1)] by (simp add: newCameraDevice_def)
  moreover have hist: "history_ok m" using device_steps_history [OF assms(1)] .
  moreover have "state_log m = dvCalls m"
    using device_steps_inv [OF assms(1) dev_inv_new] assms(2) by (simp add: dev_inv_defs state_log_def in_callback_def)
  ultimately have calls: "dvCalls m = connection_history m" by (simp add: history_ok_def)
  show ?thesis
  proof (cases "dvUsed m = []")
    case True
    then show ?thesis using hist calls by (simp add: history_ok_def connection_history_def)
  next
    case False
    then show ?thesis
      using calls hist last_span [OF False, of m] proper_spans [of False m "dvUsed m"]
      by (auto simp: history_ok_def connection_history_def)
  qed
qed

text \<open>C6: No connection leaks: whatever happens to a device, every client it ever dialled, in a failed login
  too, and no longer uses has been closed, and the one it uses is one it dialled.\<close>

theorem no_connection_leaks:
  assumes "device_steps (newCameraDevice c backoff onState) m"
  shows "(\<forall>i. dvClient m = Some i \<longrightarrow> i < length (dvConns m))
    \<and> (\<forall>j < length (dvConns m). dvClient m \<noteq> Some j \<longrightarrow> closeErr (conn m j) \<noteq> None)"
  using device_steps_inv [OF assms dev_inv_new] by (simp add: dev_inv_def conns_ok_def)

text \<open>C38: The channels of the privacy mode are used as their type asks: each is closed at most once (closing
  one twice would panic), a channel that waits is open, and no other is left open.\<close>

theorem privacy_channels_typed:
  assumes "device_steps (newCameraDevice c backoff onState) m"
  shows "distinct (dvEnded m) \<and> (\<forall>k. privacyEnd m = Some k \<longrightarrow> k \<notin> set (dvEnded m))
    \<and> (\<forall>k < dvNextEnd m. k \<in> set (dvEnded m) \<or> privacyEnd m = Some k)"
  using device_steps_inv [OF assms dev_inv_new]
  by (auto simp: dev_inv_def privacy_ok_def privacyEnd_def set_eq_iff)

lemma step_privacy_kept:
  assumes "device_step m m'"
  shows "set (dvEnded m) \<subseteq> set (dvEnded m') \<and> (\<forall>k. privacyEnd m = Some k \<longrightarrow> privacyEnd m' = Some k \<or> k \<in> set (dvEnded m'))"
  using assms
proof (induction rule: device_step.induct)
  case (step_privacy m on)
  then show ?case by (auto simp: setPrivacy_def privacyEnd_def split: option.splits)
qed (auto simp: ResetIfCurrent_def Close_device_def notePush_def privacyEnd_def same_device_keeps dest!: Ensure_keeps)

text \<open>A stream that waits for the privacy mode to end is always let go: the channel it waits on is closed
  in every later state in which the mode is off or has begun anew, however often it is switched in
  between.\<close>

theorem privacy_waiters_released:
  assumes "privacyEnd m = Some k" "device_steps m m'"
  shows "k \<in> set (dvEnded m') \<or> privacyEnd m' = Some k"
  using assms(2,1)
proof (induction rule: rtranclp_induct)
  case (step m1 m2)
  then show ?case using step_privacy_kept [OF step.hyps(2)] by blast
qed simp

section \<open>Retrying TCP\<close>

text \<open>Whether \<^verbatim>\<open>Ensure\<close> dials at all, and whether it tries TCP again although the UID is preferred.\<close>

definition dials :: "device \<Rightarrow> bool" where
  "dials m = (case dvClient m of None \<Rightarrow> True | Some i \<Rightarrow> closeErr (conn m i) \<noteq> None)"

definition reprobes :: "network \<Rightarrow> device \<Rightarrow> bool" where
  "reprobes net m = (dials m \<and> shouldReprobeTCPLocked (dialAt net) m)"

text \<open>The times of the retries along a life of the device, the latest first.\<close>

inductive retries :: "device \<Rightarrow> int list \<Rightarrow> int \<Rightarrow> device \<Rightarrow> bool" where
  retries_start: "retries (newCameraDevice c backoff onState) [] t (newCameraDevice c backoff onState)"
| retries_ensure:
    "retries m0 ps t m \<Longrightarrow> t \<le> dialAt net \<Longrightarrow> dialAt net \<le> loggedAt net \<Longrightarrow> Ensure net m = Some (r, m') \<Longrightarrow>
     retries m0 (if reprobes net m then dialAt net # ps else ps) (loggedAt net) m'"
| retries_other:
    "retries m0 ps t m \<Longrightarrow> device_step m m' \<Longrightarrow> dvSince m' = dvSince m \<Longrightarrow> dvCfg m' = dvCfg m \<Longrightarrow> retries m0 ps t m'"

lemma adopt_since:
  "adopt net c m = (i, m') \<Longrightarrow> dvSince m' = dvSince m \<or> dvSince m' = Some (loggedAt net)"
  by (auto simp: adopt_def noteTransportLocked_def Let_def split: if_splits)

lemma connect_since:
  assumes "connect_device net m = Some (r, m')"
  shows "dvSince m' = (if shouldReprobeTCPLocked (dialAt net) m then Some (dialAt net) else dvSince m)
    \<or> dvSince m' = Some (loggedAt net)"
proof -
  obtain g m1 where dc: "dial_config net m = (g, m1)" by fastforce
  then have "dvSince m1 = (if shouldReprobeTCPLocked (dialAt net) m then Some (dialAt net) else dvSince m)"
    by (auto simp: dial_config_def split: if_splits)
  moreover have "dvSince m' = dvSince m1 \<or> dvSince m' = Some (loggedAt net)"
    using assms
    by (auto simp: connect_device_def dc Let_def split: sum.splits Option.bind_splits option.splits prod.splits
        dest: adopt_since)
  ultimately show ?thesis by metis
qed

lemma shouldReprobe_closeLocked [simp]:
  "shouldReprobeTCPLocked now (closeLocked m) = shouldReprobeTCPLocked now m"
  by (simp add: shouldReprobeTCPLocked_def)

lemma Ensure_since:
  assumes "Ensure net m = Some (r, m')"
  shows "dvSince m' = (if reprobes net m then Some (dialAt net) else dvSince m) \<or> dvSince m' = Some (loggedAt net)"
  using assms connect_since [of net m] connect_since [of net "closeLocked m"]
  by (auto simp: Ensure_def reprobes_def dials_def split: option.splits if_splits)

definition spaced :: "int \<Rightarrow> int list \<Rightarrow> bool" where
  "spaced gap ts \<longleftrightarrow> sorted_wrt (\<lambda>later earlier. earlier + gap \<le> later) ts"

lemma spaced_Cons:
  assumes "spaced gap (t # ts)" "t + gap \<le> t'" "0 \<le> gap"
  shows "spaced gap (t' # t # ts)"
  using assms by (fastforce simp: spaced_def)

lemma retries_since:
  assumes "retries m0 ps t m"
  shows "spaced uidReprobeInterval ps \<and> (\<forall>p. ps \<noteq> [] \<and> p = hd ps \<longrightarrow> p \<le> t \<and> (\<exists>s. dvSince m = Some s \<and> p \<le> s))"
  using assms
proof (induction rule: retries.induct)
  case (retries_ensure m0 ps t m net r m')
  note since = Ensure_since [OF retries_ensure.hyps(4)]
  show ?case
  proof (cases "reprobes net m")
    case True
    have gap: "hd ps + uidReprobeInterval \<le> dialAt net" if "ps \<noteq> []"
      using that retries_ensure.IH True by (auto simp: reprobes_def shouldReprobeTCPLocked_def)
    have "spaced uidReprobeInterval (dialAt net # ps)"
    proof (cases ps)
      case (Cons p ps')
      then show ?thesis
        using gap retries_ensure.IH spaced_Cons [of uidReprobeInterval p ps' "dialAt net"]
        by (simp add: uidReprobeInterval_def minute_def)
    qed (simp add: spaced_def)
    then show ?thesis using True since retries_ensure.hyps(3) by auto
  next
    case False
    then show ?thesis using retries_ensure since by fastforce
  qed
qed (auto simp: spaced_def)

text \<open>A camera that answers only over its UID is not dialled over TCP at every reconnect: any two times
  at which a reconnect tries TCP although the UID is preferred are at least five minutes apart,
  whether those tries succeed, fail or change the preference.\<close>

theorem tcp_retries_spaced:
  assumes "retries m0 ps t m"
  shows "sorted_wrt (\<lambda>later earlier. earlier + 5 * minute \<le> later) ps"
  using retries_since [OF assms] by (simp add: spaced_def uidReprobeInterval_def)

section \<open>Instances\<close>

definition demo_network :: "int \<Rightarrow> network" where
  "demo_network t =
     \<lparr>tcpDial = None, uidDial = None, loginRun = (\<lambda>timeout c. Some (None, c)), dialAt = t, loggedAt = t + 1\<rparr>"

lemma demo_connects:
  "\<exists>m. Ensure (demo_network t) demo_device = Some (Inr 0, m) \<and> dvDrainer m = Some None \<and> dvPending m = [True]
     \<and> dvCalls m = [] \<and> dvClient m = Some 0 \<and> dvPrivacy m = None
     \<and> dvUsed m = [0] \<and> length (dvConns m) = 1 \<and> closeErr (conn m 0) = None \<and> dvNotify m"
  by (simp add: Ensure_def connect_device_def demo_device_def demo_network_def newCameraDevice_def dial_config_def
      shouldReprobeTCPLocked_def Client.demo_config_def dial_def normalized_def adopt_def noteTransportLocked_def
      notifyState_def new_client_def Let_def)

lemma demo_rest:
  "\<exists>m. device_steps demo_device m \<and> dvDrainer m = None \<and> dvCalls m = [True] \<and> dvClient m = Some 0"
proof -
  obtain m where m: "Ensure (demo_network 0) demo_device = Some (Inr 0, m)" "dvDrainer m = Some None"
      "dvPending m = [True]" "dvCalls m = []" "dvClient m = Some 0"
    using demo_connects by blast
  let ?m = "drain_step (drain_step (drain_step m))"
  have "device_steps demo_device ?m"
    by (intro device_steps_then [OF _ step_drain] device_steps_then [OF rtranclp.rtrancl_refl step_ensure [OF m(1)]])
  moreover have "dvDrainer ?m = None \<and> dvCalls ?m = [True] \<and> dvClient ?m = Some 0"
    by (simp add: drain_step_def m)
  ultimately show ?thesis by blast
qed

text \<open>A client that is lost is reported down, and one that sat idle is not.\<close>

definition lost_demo :: "client_error \<Rightarrow> device \<Rightarrow> device" where
  "lost_demo e m = ResetIfCurrent (Some 0) (set_conn 0 ((conn m 0)\<lparr>closeErr := Some e\<rparr>) m)"

lemma demo_lost:
  assumes "e = TransportError \<or> e = ErrIdle"
  shows "\<exists>m. device_steps demo_device m \<and> dvClient m = None \<and> dvUsed m = [0]
    \<and> ended_idle (conn m 0) = (e = ErrIdle) \<and> dvPending m = (if e = ErrIdle then [True] else [True, False])"
proof -
  obtain m where m: "Ensure (demo_network 0) demo_device = Some (Inr 0, m)" "dvDrainer m = Some None"
      "dvPending m = [True]" "dvCalls m = []" "dvClient m = Some 0" "dvPrivacy m = None"
      "dvUsed m = [0]" "length (dvConns m) = 1" "closeErr (conn m 0) = None" "dvNotify m"
    using demo_connects by blast
  have "device_steps demo_device (lost_demo e m)"
    unfolding lost_demo_def using m(8,9)
    by (intro device_steps_then [OF _ step_reset] device_steps_then [OF _ step_client]
        device_steps_then [OF rtranclp.rtrancl_refl step_ensure [OF m(1)]]) (simp_all add: latch_def)
  moreover have "ended_idle (conn (lost_demo e m) 0) = (e = ErrIdle)"
    using assms m by (auto simp: lost_demo_def ResetIfCurrent_def closeLocked_def Let_def ended_idle_def client_close_def client_end.get_set closeState_set_def)
  moreover have "dvClient (lost_demo e m) = None \<and> dvUsed (lost_demo e m) = [0]
      \<and> dvPending (lost_demo e m) = (if e = ErrIdle then [True] else [True, False])"
    using assms m by (auto simp: lost_demo_def ResetIfCurrent_def closeLocked_def Let_def notifyState_def)
  ultimately show ?thesis by blast
qed

theorem states_all_delivered_witness:
  "\<exists>m. device_steps demo_device m \<and> dvPending m = [True, False]
    \<and> dvCalls ((drain_step ^^ (2 * length (dvPending m) + 2)) m) = [True, False]"
proof -
  obtain m where m: "device_steps demo_device m" "dvClient m = None" "dvUsed m = [0]" "\<not> ended_idle (conn m 0)"
      "dvPending m = [True, False]"
    using demo_lost [of TransportError] by auto
  from states_all_delivered [OF m(1) [unfolded demo_device_def]] m show ?thesis
    by (intro exI [of _ m]) (simp add: connection_history_def connection_span_def)
qed

theorem device_state_truthful_witness:
  "\<exists>m. device_steps demo_device m \<and> dvClient m = None \<and> dvCalls m = [True, False]"
proof -
  obtain m where m: "device_steps demo_device m" "dvClient m = None" "dvUsed m = [0]" "\<not> ended_idle (conn m 0)"
    using demo_lost [of TransportError] by auto
  obtain n where n: "n = (drain_step ^^ drain_effort m) m" by blast
  have run: "device_steps demo_device ((drain_step ^^ k) m)" for k
    by (induction k) (auto intro: m(1) device_steps_then [OF _ step_drain])
  have "dev_inv demo_device" by (simp only: demo_device_def dev_inv_new)
  moreover have "dvNotify m" using device_steps_notify [OF m(1)] by (simp add: demo_device_def newCameraDevice_def)
  ultimately have "queue_ok m" using device_steps_inv [OF m(1)] dev_inv_queue by blast
  then have rest: "dvDrainer n = None" using states.worker_rests [of m] by (simp add: n)
  have keep: "dvClient ((drain_step ^^ k) m) = None \<and> dvUsed ((drain_step ^^ k) m) = [0]
      \<and> dvConns ((drain_step ^^ k) m) = dvConns m" for k
    using m(2,3) by (induction k) simp_all
  from device_state_truthful [OF run [of "drain_effort m", unfolded demo_device_def]] rest keep [of "drain_effort m"] m(4) run
  show ?thesis by (intro exI [of _ n]) (auto simp: n connection_history_def connection_span_def)
qed

theorem no_connection_leaks_witness:
  "\<exists>m. device_steps demo_device m \<and> dvClient m = Some 0 \<and> 0 < length (dvConns m)"
proof -
  obtain m where "device_steps demo_device m" "dvClient m = Some 0" using demo_rest by blast
  with no_connection_leaks [of Client.demo_config 0 True m] show ?thesis by (auto simp: demo_device_def)
qed

theorem privacy_channels_typed_witness:
  "\<exists>m. device_steps demo_device m \<and> privacyEnd m = Some 1 \<and> 1 \<notin> set (dvEnded m) \<and> 0 \<in> set (dvEnded m)"
proof -
  let ?m = "setPrivacy True (setPrivacy False (setPrivacy True demo_device))"
  have "device_steps demo_device ?m" by (intro device_steps_then [OF _ step_privacy] rtranclp.rtrancl_refl)
  moreover have "privacyEnd ?m = Some 1 \<and> 0 \<in> set (dvEnded ?m)"
    by (simp add: setPrivacy_def demo_device_def newCameraDevice_def privacyEnd_def)
  ultimately show ?thesis
    using privacy_channels_typed [of Client.demo_config 0 True ?m] by (auto simp: demo_device_def)
qed

theorem privacy_waiters_released_witness:
  "0 \<in> set (dvEnded (setPrivacy False (setPrivacy True demo_device)))"
  using privacy_waiters_released [of "setPrivacy True demo_device" 0 "setPrivacy False (setPrivacy True demo_device)"]
  by (auto simp: setPrivacy_def demo_device_def newCameraDevice_def privacyEnd_def
      intro: step_privacy [of "setPrivacy True demo_device" False, unfolded setPrivacy_def demo_device_def newCameraDevice_def])

definition uid_device :: device where
  "uid_device = newCameraDevice (Client.demo_config\<lparr>UID := ''uid'', PreferUID := True\<rparr>) 0 True"

theorem tcp_retries_spaced_witness:
  "\<exists>m. retries uid_device [7] 8 m \<and> dvClient m = Some 0
    \<and> sorted_wrt (\<lambda>later earlier. earlier + 5 * minute \<le> later) [7 :: int]"
proof -
  obtain m where m: "Ensure (demo_network 7) uid_device = Some (Inr 0, m)" "dvClient m = Some 0"
    by (simp add: Ensure_def connect_device_def uid_device_def demo_network_def newCameraDevice_def dial_config_def
      shouldReprobeTCPLocked_def Client.demo_config_def dial_def normalized_def adopt_def noteTransportLocked_def
      notifyState_def new_client_def Let_def)
  have "retries uid_device (if reprobes (demo_network 7) uid_device then dialAt (demo_network 7) # [] else [])
      (loggedAt (demo_network 7)) m"
    using retries_start [of _ 0 True 7]
    by (intro retries_ensure [OF _ _ _ m(1), of _ _ 7]) (simp_all add: uid_device_def demo_network_def)
  then have "retries uid_device [7] 8 m"
    by (simp add: reprobes_def dials_def shouldReprobeTCPLocked_def uid_device_def newCameraDevice_def
        Client.demo_config_def demo_network_def)
  with tcp_retries_spaced [OF this] m(2) show ?thesis by blast
qed

end
