(* ===== verification/DeviceOps.thy ===== *)
theory DeviceOps
  imports Device
begin

text \<open>
  What runs on a camera device (\<^verbatim>\<open>pkg/bridge/device.go\<close>): the preview streams, the webhook
  subscription, the event watchers of mains and battery cameras, and talkback across reconnects.
  Every loop of the code is the function of one of its turns, with the wait the turn ends in; the
  theorems say what any sequence of turns does.
\<close>

section \<open>Preview streams\<close>

text \<open>
  One turn of the loop of \<^verbatim>\<open>StreamPackets\<close>: \<open>want\<close> says whether a viewer is there, \<open>pause\<close> is the pause after
  the last rejection. The turn ends with a wait for a time, with a wait for the privacy mode to end,
  or with a running preview: the client and the number of its subscription.
\<close>

datatype stream_next = StreamPause int | StreamAwaitPrivacy nat | StreamPump nat nat

definition StreamPackets_turn ::
  "bool \<Rightarrow> network \<Rightarrow> link \<Rightarrow> byte \<Rightarrow> string \<Rightarrow> int \<Rightarrow> device \<Rightarrow> (stream_next \<times> int \<times> device) option" where
  "StreamPackets_turn want net l channel stream pause m =
     (if \<not> want then Some (StreamPause sec, pause, m)
      else do { (r, m) \<leftarrow> Ensure net m;
                (case r of
                   Inl e \<Rightarrow> Some (StreamPause (dvBackoff m), pause, m)
                 | Inr i \<Rightarrow>
                     do { (res, c) \<leftarrow> StartPreview (loginOf l) (answers l 1) channel stream (conn m i);
                          let m = set_conn i c m;
                          Some (case res of
                            Inr sub \<Rightarrow> (StreamPump i sub, 0, m)
                          | Inl e \<Rightarrow>
                              if status_of e \<noteq> None then
                                (case privacyEnd m of
                                   Some k \<Rightarrow> (StreamAwaitPrivacy k, 0, m)
                                 | None \<Rightarrow>
                                     let pause = min (max (2 * pause) previewRejectedPauseMin) previewRejectedPauseMax
                                     in (StreamPause pause, pause, m))
                              else (StreamPause (dvBackoff m), pause, ResetIfCurrent (Some i) m)) }) })"

datatype previewOutcome = previewContextDone | previewRestart | previewResetClient

text \<open>What the loop does when a preview ended; whether it goes on, 100 ms later.\<close>

definition StreamPackets_after :: "previewOutcome \<Rightarrow> bool \<Rightarrow> nat \<Rightarrow> device \<Rightarrow> bool \<times> device" where
  "StreamPackets_after outcome want i m =
     (case outcome of
        previewContextDone \<Rightarrow> (False, m)
      | previewResetClient \<Rightarrow> (True, if want then ResetIfCurrent (Some i) m else m)
      | previewRestart \<Rightarrow> (True, m))"

text \<open>
  What \<^verbatim>\<open>pumpPreview\<close> sees: the end of the context (also while it hands a packet over), a packet, the end
  of the reader with its error, the stall timer, a tick of the idle ticker with whether a viewer is
  there.
\<close>

datatype pump_event =
  PumpCtx | PumpPacket media_packet | PumpBlocked media_packet | PumpEnd "reader_error option" | PumpStall | PumpTick bool

record pump =
  stallAt :: int
  pumped :: "media_packet list"

definition stallAfter :: int where "stallAfter = 15 * sec"

definition new_pump :: "int \<Rightarrow> pump" where
  "new_pump now = \<lparr>stallAt = now + stallAfter, pumped = []\<rparr>"

definition stop_preview ::
  "link \<Rightarrow> byte \<Rightarrow> string \<Rightarrow> nat \<Rightarrow> device \<Rightarrow> (client_error option \<times> device) option" where
  "stop_preview l channel stream i m =
     map_option (\<lambda>(err, c). (err, set_conn i c m)) (StopPreview (loginOf l) (answers l 1) channel stream (conn m i))"

fun pump_step ::
  "link \<Rightarrow> byte \<Rightarrow> string \<Rightarrow> nat \<Rightarrow> int \<Rightarrow> pump_event \<Rightarrow> pump \<Rightarrow> device \<Rightarrow> (previewOutcome option \<times> pump \<times> device) option"
where
  "pump_step l channel stream i now PumpCtx p m = Some (Some previewContextDone, p, m)"
| "pump_step l channel stream i now (PumpBlocked packet) p m = Some (Some previewContextDone, p, m)"
| "pump_step l channel stream i now (PumpPacket packet) p m =
     Some (None, p\<lparr>pumped := packet # pumped p, stallAt := now + stallAfter\<rparr>, m)"
| "pump_step l channel stream i now (PumpEnd err) p m =
     (if err = None then Some (Some previewResetClient, p, m)
      else do { (e, m) \<leftarrow> stop_preview l channel stream i m; Some (Some previewRestart, p, m) })"
| "pump_step l channel stream i now PumpStall p m =
     (if privacyEnd m \<noteq> None then Some (None, p\<lparr>stallAt := now + stallAfter\<rparr>, m)
      else do { (e, m) \<leftarrow> stop_preview l channel stream i m; Some (Some previewRestart, p, m) })"
| "pump_step l channel stream i now (PumpTick want) p m =
     (if want then Some (None, p, m)
      else do { (e, m) \<leftarrow> stop_preview l channel stream i m;
                Some (Some previewRestart, p, if e = None then m else ResetIfCurrent (Some i) m) })"

section \<open>The webhook\<close>

datatype webhook_fault = WebhookUnread report_fault | WebhookUnset client_error | WebhookUnverified bool string

fun rejected :: "webhook_fault \<Rightarrow> bool" where
  "rejected (WebhookUnread (ReportClient e)) = (status_of e \<noteq> None)"
| "rejected (WebhookUnread f) = False"
| "rejected (WebhookUnset e) = (status_of e \<noteq> None)"
| "rejected (WebhookUnverified enabled url) = False"

text \<open>A command on one of the device's clients.\<close>

definition on_conn :: "(client \<Rightarrow> ('r \<times> client) option) \<Rightarrow> nat \<Rightarrow> device \<Rightarrow> ('r \<times> device) option" where
  "on_conn fn i m = map_option (\<lambda>(r, c). (r, set_conn i c m)) (fn (conn m i))"

definition subscribeWebhook ::
  "xml_parser \<Rightarrow> (nat \<Rightarrow> link) \<Rightarrow> string \<Rightarrow> nat \<Rightarrow> device \<Rightarrow> (webhook_fault option \<times> device) option" where
  "subscribeWebhook parser ls url i m =
     do { (r, m) \<leftarrow> on_conn (GetWebhook parser (ls 0)) i m;
          (case r of
             Inl f \<Rightarrow> Some (Some (WebhookUnread f), m)
           | Inr (enabled, current) \<Rightarrow>
               if enabled \<and> current = url then Some (None, m)
               else do {
                 let m = (if enabled \<and> current \<noteq> [] then m\<lparr>dvForeignWarned := True\<rparr> else m);
                 (e, m) \<leftarrow> on_conn (SetWebhook (ls 1) True url) i m;
                 (case e of
                    Some e \<Rightarrow> Some (Some (WebhookUnset e), m)
                  | None \<Rightarrow>
                      do { (r, m) \<leftarrow> on_conn (GetWebhook parser (ls 2)) i m;
                           Some (case r of
                             Inl f \<Rightarrow> (Some (WebhookUnread f), m)
                           | Inr (enabled, got) \<Rightarrow>
                               (if \<not> enabled \<or> got \<noteq> url then Some (WebhookUnverified enabled got) else None, m)) }) }) }"

definition setupWebhookAndBatteryPoll ::
  "xml_parser \<Rightarrow> (nat \<Rightarrow> link) \<Rightarrow> event_handlers \<Rightarrow> nat \<Rightarrow> device \<Rightarrow> (webhook_fault option \<times> device) option" where
  "setupWebhookAndBatteryPoll parser ls h i m =
     do { (err, m) \<leftarrow> (if hWebhookURL h \<noteq> [] \<and> \<not> dvWebhookFailed m
                       then subscribeWebhook parser ls (hWebhookURL h) i m else Some (None, m));
          let m = (case err of None \<Rightarrow> m | Some f \<Rightarrow> if rejected f then m\<lparr>dvWebhookFailed := True\<rparr> else m);
          let m = (if hPollBattery h \<and> hBattery h then m\<lparr>dvPolls := dvPolls m @ [i]\<rparr> else m);
          Some (err, m) }"

section \<open>Watching for events\<close>

definition listen :: "u32 \<Rightarrow> nat \<Rightarrow> device \<Rightarrow> (u32 \<times> nat) \<times> device" where
  "listen msgID i m = (case subscribe msgID (conn m i) of (n, c) \<Rightarrow> ((msgID, n), set_conn i c m))"

definition unlisten :: "nat \<Rightarrow> (u32 \<times> nat) list \<Rightarrow> device \<Rightarrow> device" where
  "unlisten i ks m = set_conn i (fold (\<lambda>(msgID, n). unsubscribe msgID n) ks (conn m i)) m"

definition listen_if :: "bool \<Rightarrow> u32 list \<Rightarrow> nat \<Rightarrow> (u32 \<times> nat) list \<Rightarrow> device \<Rightarrow> (u32 \<times> nat) list \<times> device" where
  "listen_if b msgIDs i ks m =
     (if b then fold (\<lambda>msgID (ks, m). case listen msgID i m of (k, m) \<Rightarrow> (k # ks, m)) msgIDs (ks, m) else (ks, m))"

definition msgIDPrivacyModePush :: u32 where "msgIDPrivacyModePush = 623"
definition msgIDBatteryInfoList :: u32 where "msgIDBatteryInfoList = 252"
definition msgIDChannelInfoList :: u32 where "msgIDChannelInfoList = 145"
definition msgIDFloodlightStatus :: u32 where "msgIDFloodlightStatus = 291"

text \<open>
  \<^verbatim>\<open>setupAlarmListener\<close>: whether the session may go on, the listeners it got, and whether the camera
  turned out to lack the motion ability.
\<close>

definition setupAlarmListener ::
  "link \<Rightarrow> xml_parser \<Rightarrow> byte \<Rightarrow> event_handlers \<Rightarrow> bool \<Rightarrow> nat \<Rightarrow> device \<Rightarrow>
   ((bool \<times> (u32 \<times> nat) list \<times> bool) \<times> device) option" where
  "setupAlarmListener l parser channel h motionUnsupported i m =
     (if \<not> hAlarm h \<or> motionUnsupported then Some ((True, [], motionUnsupported), m)
      else do { (r, m) \<leftarrow> on_conn (ListenForAlarms (loginOf l) parser (answers l) (waits l) channel) i m;
                Some (case r of
                  Inr (dual, a, y, d) \<Rightarrow> ((True, [(msgIDMotion, a), (600, y), (696, d)], False), m)
                | Inl (MissingAbility acc) \<Rightarrow> ((True, [], True), m)
                | Inl e \<Rightarrow> ((False, [], False), ResetIfCurrent (Some i) m)) })"

text \<open>
  One turn of \<^verbatim>\<open>watchEventsLoop\<close> up to its event session. The loop's own copy of the handlers and its
  flag go from turn to turn.
\<close>

datatype watch_next = WatchPause int | WatchReturn | WatchSession nat "(u32 \<times> nat) list"

text \<open>A Hub or NVR stays awake, and its one push address is not accepted.\<close>

definition host_handlers :: "client \<Rightarrow> event_handlers \<Rightarrow> event_handlers" where
  "host_handlers c h = (if IsNVR (loginInfo c) then h\<lparr>hLetSleep := False, hWebhookURL := []\<rparr> else h)"

definition session_listeners ::
  "event_handlers \<Rightarrow> nat \<Rightarrow> (u32 \<times> nat) list \<Rightarrow> device \<Rightarrow> (u32 \<times> nat) list \<times> device" where
  "session_listeners h i ks m =
     (case listen_if (hBattery h) [msgIDBatteryInfo, msgIDBatteryInfoList] i ks m of (ks, m) \<Rightarrow>
       (case listen_if (hSleep h) [msgIDChannelInfoList] i ks m of (ks, m) \<Rightarrow>
         listen_if (hFloodlight h) [msgIDFloodlightStatus] i ks m))"

definition watch_connected ::
  "(nat \<Rightarrow> link) \<Rightarrow> xml_parser \<Rightarrow> byte \<Rightarrow> event_handlers \<Rightarrow> bool \<Rightarrow> nat \<Rightarrow> device \<Rightarrow>
   (watch_next \<times> event_handlers \<times> bool \<times> device) option" where
  "watch_connected ls parser channel h motionUnsupported i m =
     (case listen msgIDPrivacyModePush i m of (privacy, m) \<Rightarrow>
       do { ((ok, alarms, motionUnsupported), m) \<leftarrow> setupAlarmListener (ls 3) parser channel h motionUnsupported i m;
            (if \<not> ok then Some (WatchPause (dvBackoff m), h, motionUnsupported, unlisten i [privacy] m)
             else (case session_listeners h i (privacy # alarms) m of (ks, m) \<Rightarrow>
               do { (err, m) \<leftarrow> setupWebhookAndBatteryPoll parser ls h i m;
                    Some (if motionUnsupported \<and> \<not> hBattery h then WatchReturn else WatchSession i ks,
                          h, motionUnsupported, m) })) })"

definition watchEventsLoop_turn ::
  "network \<Rightarrow> (nat \<Rightarrow> link) \<Rightarrow> xml_parser \<Rightarrow> byte \<Rightarrow> event_handlers \<Rightarrow> bool \<Rightarrow> device \<Rightarrow>
   (watch_next \<times> event_handlers \<times> bool \<times> device) option" where
  "watchEventsLoop_turn net ls parser channel h motionUnsupported m =
     do { (r, m) \<leftarrow> Ensure net m;
          (case r of
             Inl e \<Rightarrow> Some (WatchPause (dvBackoff m), h, motionUnsupported, m)
           | Inr i \<Rightarrow>
               let m = set_conn i (StartKeepAlive (conn m i)) m
               in watch_connected ls parser channel (host_handlers (conn m i) h) motionUnsupported i m) }"

text \<open>
  \<^verbatim>\<open>runEventSession\<close>: whether a tick of its ticker asks the camera again, and what the end of the
  client does. There is a ticker unless the camera may sleep or has no alarms.
\<close>

definition alarmFastRetryWindow :: int where "alarmFastRetryWindow = 5 * minute"
definition alarmRenewInterval :: int where "alarmRenewInterval = 5 * minute"

definition renews :: "event_handlers \<Rightarrow> bool \<Rightarrow> bool" where
  "renews h motionUnsupported = (hAlarm h \<and> \<not> motionUnsupported \<and> \<not> hLetSleep h)"

definition renew_tick :: "int \<Rightarrow> bool \<Rightarrow> int \<Rightarrow> int \<Rightarrow> bool \<times> int" where
  "renew_tick sessionStart pushed now lastRenew =
     (let fastRetry = (\<not> pushed \<and> now - sessionStart < alarmFastRetryWindow)
      in if \<not> fastRetry \<and> now - lastRenew < alarmRenewInterval then (False, lastRenew) else (True, now))"

datatype session_event = SessionCtx | SessionClosed bool | SessionTick int

text \<open>One event of the session: whether it goes on, and the time of the last renewal.\<close>

definition runEventSession_step ::
  "link \<Rightarrow> event_handlers \<Rightarrow> bool \<Rightarrow> int \<Rightarrow> bool \<Rightarrow> nat \<Rightarrow> session_event \<Rightarrow> int \<Rightarrow> device \<Rightarrow> bool \<times> int \<times> device" where
  "runEventSession_step l h motionUnsupported sessionStart pushed i ev lastRenew m =
     (case ev of
        SessionCtx \<Rightarrow> (False, lastRenew, m)
      | SessionClosed ctxDone \<Rightarrow>
          (False, lastRenew, if closeErr (conn m i) \<noteq> None \<and> \<not> ctxDone then ResetIfCurrent (Some i) m else m)
      | SessionTick now \<Rightarrow>
          if \<not> renews h motionUnsupported then (True, lastRenew, m)
          else (case renew_tick sessionStart pushed now lastRenew of
                  (ask, last') \<Rightarrow>
                    (True, last',
                     if ask then set_conn i (snd (RefreshAlarmSubscription (answers l) (waits l) (conn m i))) m else m)))"

section \<open>Battery cameras\<close>

definition CloseWhenIdle :: "nat \<Rightarrow> device \<Rightarrow> device" where
  "CloseWhenIdle i m = m\<lparr>dvIdle := i # dvIdle m\<rparr>"

text \<open>
  \<^verbatim>\<open>watchLowPower\<close> as a machine: trying to connect and subscribe, waiting for the camera's test push,
  in a session that lasts until a push arrives, in a session that is kept for good, or finished.
\<close>

datatype low_power = LpTry bool | LpConfirm bool nat | LpSession bool | LpForever | LpDone

definition watchLowPower_turn ::
  "network \<Rightarrow> (nat \<Rightarrow> link) \<Rightarrow> xml_parser \<Rightarrow> event_handlers \<Rightarrow> bool \<Rightarrow> device \<Rightarrow> (low_power \<times> int option \<times> device) option"
where
  "watchLowPower_turn net ls parser h warned m =
     do { (r, m) \<leftarrow> Ensure net m;
          (case r of
             Inl e \<Rightarrow> Some (LpTry True, Some (dvBackoff m), m)
           | Inr i \<Rightarrow>
               if IsNVR (loginInfo (conn m i)) then Some (LpForever, None, m)
               else do { (err, m) \<leftarrow> setupWebhookAndBatteryPoll parser ls h i m;
                         Some (if dvWebhookFailed m then (LpForever, None, m)
                               else if err \<noteq> None then (LpTry warned, Some (dvBackoff m), m)
                               else (LpConfirm warned i, None, m)) }) }"

definition watchLowPower_confirm ::
  "push_ready \<Rightarrow> byte \<Rightarrow> event_handlers \<Rightarrow> bool \<Rightarrow> nat \<Rightarrow> device \<Rightarrow> low_power \<times> device" where
  "watchLowPower_confirm r channel h warned i m =
     (if awaitPush r then (LpDone, CloseWhenIdle i (setOnConnect (channel, h) m))
      else if r = PushCtx then (LpDone, m)
      else (LpSession warned, m))"

text \<open>The session of a camera that has not reached the webhook ends with its context or the first push.\<close>

definition endSessionWhenReachable :: "bool \<Rightarrow> bool \<Rightarrow> device \<Rightarrow> low_power" where
  "endSessionWhenReachable ctxDone warned m =
     (if ctxDone then LpDone else if dvPushSeen m then LpTry warned else LpSession warned)"

text \<open>The preparation of a later connection: the job of the client \<open>i\<close>.\<close>

definition run_job :: "xml_parser \<Rightarrow> (nat \<Rightarrow> link) \<Rightarrow> nat \<Rightarrow> device \<Rightarrow> device option" where
  "run_job parser ls i m =
     (case dvOnConnect m of
        None \<Rightarrow> Some m
      | Some (channel, h) \<Rightarrow> map_option snd (setupWebhookAndBatteryPoll parser ls h i (CloseWhenIdle i m)))"

datatype watcher = WatchingLowPower | WatchingLoop

definition WatchEvents :: "event_handlers \<Rightarrow> watcher" where
  "WatchEvents h = (if hLowPower h then WatchingLowPower else WatchingLoop)"

section \<open>Talkback that survives a reconnect\<close>

text \<open>\<open>rtSession\<close> is the session on the client it was started on; \<open>rtRetryAt\<close> is \<open>None\<close> before the first restart.\<close>

record resilient_talk =
  rtChannel :: byte
  rtSession :: "(nat \<times> talk_session) option"
  rtSampleRate :: nat
  rtSamplesPB :: nat
  rtBytesPB :: nat
  rtClosed :: bool
  rtRetryAt :: "int option"

fun talkRefused :: "Talk.talk_error \<Rightarrow> bool" where
  "talkRefused (TalkClient e) = (status_of e \<noteq> None)"
| "talkRefused AbilityParse = False"
| "talkRefused _ = True"

definition StartTalk_device ::
  "network \<Rightarrow> link \<Rightarrow> xml_parser \<Rightarrow> byte \<Rightarrow> device \<Rightarrow> ((Talk.talk_error device_fault + resilient_talk) \<times> device) option"
where
  "StartTalk_device net l parser channel m =
     do { (r, m) \<leftarrow> Ensure net m;
          (case r of
             Inl e \<Rightarrow> Some (Inl (ConnectFault e), m)
           | Inr i \<Rightarrow>
               do { (res, m) \<leftarrow> on_conn (Talk.StartTalk (loginOf l) parser (answers l 1) channel) i m;
                    Some (case res of
                      Inl e \<Rightarrow> (Inl (CommandFault e), if talkRefused e then m else ResetIfCurrent (Some i) m)
                    | Inr ts \<Rightarrow>
                        (Inr \<lparr>rtChannel = channel, rtSession = Some (i, ts), rtSampleRate = sampleRate ts,
                              rtSamplesPB = samplesPerBlock ts, rtBytesPB = bytesPerBlock ts, rtClosed = False,
                              rtRetryAt = None\<rparr>, m)) }) }"

text \<open>The second half of \<^verbatim>\<open>WriteADPCMBlock\<close>: a new session, at most one attempt per pause.\<close>

definition talk_restart ::
  "bool \<Rightarrow> network \<Rightarrow> link \<Rightarrow> xml_parser \<Rightarrow> int \<Rightarrow> bytes \<Rightarrow> resilient_talk \<Rightarrow> device \<Rightarrow> (resilient_talk \<times> device) option"
where
  "talk_restart ok net l parser now block s m =
     (if (case rtRetryAt s of None \<Rightarrow> False | Some t \<Rightarrow> now < t) then Some (s, m)
      else do {
        let s = s\<lparr>rtRetryAt := Some (now + talkRetryPause)\<rparr>;
        (r, m) \<leftarrow> Ensure net m;
        (case r of
           Inl e \<Rightarrow> Some (s, m)
         | Inr i \<Rightarrow>
             do { (res, m) \<leftarrow> on_conn (Talk.StartTalk (loginOf l) parser (answers l 1) (rtChannel s)) i m;
                  Some (case res of
                    Inl e \<Rightarrow> (s, if talkRefused e then m else ResetIfCurrent (Some i) m)
                  | Inr ts \<Rightarrow>
                      (case WriteADPCMBlock ok now block ts (conn m i) of
                         (err, ts, c, req) \<Rightarrow> (s\<lparr>rtSession := Some (i, ts)\<rparr>, set_conn i c m))) }) })"

definition WriteADPCMBlock_resilient ::
  "bool \<Rightarrow> bool \<Rightarrow> network \<Rightarrow> network \<Rightarrow> link \<Rightarrow> xml_parser \<Rightarrow> int \<Rightarrow> bytes \<Rightarrow> resilient_talk \<Rightarrow> device \<Rightarrow>
   (bool \<times> resilient_talk \<times> device) option" where
  "WriteADPCMBlock_resilient ok ok' net net' l parser now block s m =
     (if rtClosed s then Some (False, s, m)
      else case rtSession s of
        None \<Rightarrow> map_option (\<lambda>r. (True, r)) (talk_restart ok' net' l parser now block s m)
      | Some (i, ts) \<Rightarrow>
          (case WriteADPCMBlock ok now block ts (conn m i) of
             (None, ts, c, req) \<Rightarrow> Some (True, s\<lparr>rtSession := Some (i, ts)\<rparr>, set_conn i c m)
           | (Some e, ts, c, req) \<Rightarrow>
               do { (r, m) \<leftarrow> Ensure net (set_conn i c m);
                    let m = ResetIfCurrent (case r of Inl e \<Rightarrow> None | Inr j \<Rightarrow> Some j) m;
                    map_option (\<lambda>r. (True, r)) (talk_restart ok' net' l parser now block (s\<lparr>rtSession := None\<rparr>) m) }))"

definition Close_resilient ::
  "env \<Rightarrow> resilient_talk \<Rightarrow> device \<Rightarrow> client_error option \<times> resilient_talk \<times> device" where
  "Close_resilient env s m =
     (if rtClosed s then (None, s, m)
      else let s = s\<lparr>rtClosed := True\<rparr>
           in case rtSession s of
                None \<Rightarrow> (None, s, m)
              | Some (i, ts) \<Rightarrow>
                  (case CloseTalk env ts (conn m i) of
                     (err, ts, c) \<Rightarrow> (err, s\<lparr>rtSession := Some (i, ts)\<rparr>, set_conn i c m)))"

section \<open>Every turn is a run of device steps\<close>

text \<open>A link keeps a client that ended as it is; the code's read loop and calls do.\<close>

definition env_latches :: "env \<Rightarrow> bool" where
  "env_latches env \<longleftrightarrow> (\<forall>req c. latch c (snd (env req c)))"

definition link_latches :: "link \<Rightarrow> bool" where
  "link_latches l \<longleftrightarrow> (\<forall>c e c'. loginOf l c = Some (e, c') \<longrightarrow> latch c c') \<and> (\<forall>n. env_latches (answers l n))"

definition fn_latches :: "(client \<Rightarrow> ('r \<times> client) option) \<Rightarrow> bool" where
  "fn_latches fn \<longleftrightarrow> (\<forall>c r c'. fn c = Some (r, c') \<longrightarrow> latch c c')"

lemma latch_fields [simp]:
  "latch c (c'\<lparr>msgNum := n\<rparr>) = latch c c'" "latch c (c'\<lparr>pending := p\<rparr>) = latch c c'"
  "latch c (c'\<lparr>subs := s, nextSub := k\<rparr>) = latch c c'" "latch c (c'\<lparr>subs := s\<rparr>) = latch c c'"
  "latch c (c'\<lparr>keepAliveStarted := b\<rparr>) = latch c c'"
  by (simp_all add: latch_def)

lemma latch_from_fields [simp]:
  "latch (c\<lparr>msgNum := n\<rparr>) c' = latch c c'" "latch (c\<lparr>pending := p\<rparr>) c' = latch c c'"
  "latch (c\<lparr>subs := s, nextSub := k\<rparr>) c' = latch c c'"
  by (simp_all add: latch_def)

lemma env_latchesD: "env_latches env \<Longrightarrow> env req c = (r, c') \<Longrightarrow> latch c c'"
  unfolding env_latches_def by (metis snd_conv)

lemma roundTrip_latch: "env_latches env \<Longrightarrow> roundTripRequest env req c = (r, c') \<Longrightarrow> latch c c'"
  by (auto simp: roundTripRequest_def reserveMessageNumber_def dest: env_latchesD)

lemma sendRequest_latch: "env_latches env \<Longrightarrow> sendRequest env req c = (r, c') \<Longrightarrow> latch c c'"
  by (auto simp: sendRequest_def dest: roundTrip_latch split: prod.splits sum.splits option.splits)

lemma subscribe_closeErr: "subscribe msgID c = (i, c') \<Longrightarrow> closeErr c' = closeErr c"
  by (auto simp: subscribe_def Let_def)

lemma unsubscribe_closeErr [simp]: "closeErr (unsubscribe msgID i c) = closeErr c"
  by (simp add: unsubscribe_def Let_def split: option.splits)

lemma unsubscribe_all_closeErr [simp]: "closeErr (fold (\<lambda>(msgID, n). unsubscribe msgID n) ks c) = closeErr c"
  by (induction ks arbitrary: c) auto

lemma retry_latch:
  assumes "\<And>n c r c'. send n c = (r, c') \<Longrightarrow> latch c c'" "retry_from k n send wait c = (r, c')"
  shows "latch c c'"
  using assms(2)
proof (induction k arbitrary: n c)
  case 0
  then show ?case
    by (auto simp: retry_from.simps [of 0] dest: assms(1) split: prod.splits sum.splits)
next
  case (Suc k)
  obtain r1 c1 where first: "send n c = (r1, c1)" by fastforce
  have "latch c c1" using first by (rule assms(1))
  moreover have "c' = c1 \<or> retry_from k (Suc n) send wait c1 = (r, c')"
    using Suc.prems first
    by (auto simp: retry_from.simps [of "Suc k"] split: sum.splits if_splits wait_end.splits)
  ultimately show ?case using Suc.IH latch_trans by blast
qed

lemma login_latch: "link_latches l \<Longrightarrow> loginOf l c = Some (e, c') \<Longrightarrow> latch c c'"
  by (simp add: link_latches_def)

lemma link_send: "link_latches l \<Longrightarrow> sendRequest (answers l n) req c = (r, c') \<Longrightarrow> latch c c'"
  unfolding link_latches_def by (blast intro: sendRequest_latch)

lemma exec_latch:
  assumes l: "link_latches l" and run: "exec (loginOf l) (answers l) wait msgID hc extn body c = Some (r, c')"
  shows "latch c c'"
proof -
  obtain err c1 where login: "loginOf l c = Some (err, c1)"
    using run by (auto simp: exec_def split: Option.bind_splits)
  have "c' = c1 \<or> (\<exists>req. retryWhileBusy (\<lambda>n. sendRequest (answers l n) req) wait c1 = (r, c'))"
    using run login by (auto simp: exec_def Let_def split: option.splits)
  then have "latch c1 c'"
    by (auto simp: retryWhileBusy_def dest: retry_latch [rotated] intro: link_send [OF l])
  then show ?thesis using login_latch [OF l login] latch_trans by blast
qed

lemma host_latch: "link_latches l \<Longrightarrow> host_command l msgID body c = Some (r, c') \<Longrightarrow> latch c c'"
  using exec_latch by (simp add: execHostCommand_def)

lemma GetWebhook_latches: "link_latches l \<Longrightarrow> fn_latches (GetWebhook parser l)"
  by (auto simp: fn_latches_def GetWebhook_def read_reply_def dest: host_latch)

lemma SetWebhook_latches: "link_latches l \<Longrightarrow> fn_latches (SetWebhook l b url)"
  by (auto simp: fn_latches_def SetWebhook_def taken_def dest: host_latch)

text \<open>A login, then a call that keeps the latch: the shape of every operation of a client.\<close>

lemma after_login_latches:
  assumes "link_latches l"
    and "\<And>c r c'. f c = (r, c') \<Longrightarrow> latch c c'"
  shows "fn_latches (\<lambda>c. do { (err, c1) \<leftarrow> loginOf l c; Some (case err of Some e \<Rightarrow> (g e, c1) | None \<Rightarrow> f c1) })"
  using assms latch_trans login_latch [OF assms(1)]
  by (fastforce simp: fn_latches_def split: Option.bind_splits option.splits)

lemma StartPreview_latches:
  assumes "link_latches l"
  shows "fn_latches (StartPreview (loginOf l) (answers l n) channel stream)"
  unfolding StartPreview_def
  by (rule after_login_latches [OF assms])
     (auto simp: Let_def latch_def split: prod.splits sum.splits dest!: link_send [OF assms] subscribe_closeErr)

lemma StopPreview_latches:
  assumes "link_latches l"
  shows "fn_latches (StopPreview (loginOf l) (answers l n) channel stream)"
  unfolding StopPreview_def
  by (rule after_login_latches [OF assms])
     (auto simp: Let_def split: prod.splits sum.splits client_error.splits dest!: link_send [OF assms])

lemma Refresh_latch:
  assumes "link_latches l" "RefreshAlarmSubscription (answers l) wait c = (r, c')"
  shows "latch c c'"
proof -
  obtain r1 where "retryWhileBusy (\<lambda>n. sendRequest (answers l n) (base_request msgIDMotionRequest channelIDPush)) wait c = (r1, c')"
    using assms(2) by (auto simp: RefreshAlarmSubscription_def split: prod.splits sum.splits)
  then show ?thesis
    unfolding retryWhileBusy_def by (rule retry_latch [rotated]) (rule link_send [OF assms(1)])
qed

lemma connect_length: "connect_device net m = Some (r, m') \<Longrightarrow> length (dvConns m) \<le> length (dvConns m')"
proof -
  assume run: "connect_device net m = Some (r, m')"
  obtain g t where dc: "dial_config net m = (g, m\<lparr>dvSince := t\<rparr>)"
    using dial_config_keeps by (metis surj_pair)
  have "adopt net c m1 = (i, m2) \<Longrightarrow> length (dvConns m1) \<le> length (dvConns m2)" for c m1 i m2
    using adopt_form [of net c m1] by auto
  then show ?thesis
    using run by (fastforce simp: connect_device_def dc Let_def split: sum.splits Option.bind_splits option.splits prod.splits)
qed

lemma Ensure_length: "Ensure net m = Some (r, m') \<Longrightarrow> length (dvConns m) \<le> length (dvConns m')"
  using connect_length [of net m] connect_length [of net "closeLocked m"]
  by (auto simp: Ensure_def split: option.splits if_splits)

lemma device_step_length: "device_step m m' \<Longrightarrow> length (dvConns m) \<le> length (dvConns m')"
  by (induction rule: device_step.induct)
     (auto simp: ResetIfCurrent_def Close_device_def setPrivacy_def notePush_def same_device_keeps
       dest: Ensure_length split: option.splits)

lemma device_steps_length: "device_steps m m' \<Longrightarrow> length (dvConns m) \<le> length (dvConns m')"
  by (induction rule: rtranclp_induct) (auto dest: device_step_length)

text \<open>\<open>goes i m m'\<close>: steps of a device that has a client \<open>i\<close>.\<close>

definition goes :: "nat \<Rightarrow> device \<Rightarrow> device \<Rightarrow> bool" where
  "goes i m m' \<longleftrightarrow> i < length (dvConns m) \<longrightarrow> device_steps m m'"

lemma goes_refl [simp]: "goes i m m" by (simp add: goes_def)

lemma goes_trans: "goes i a b \<Longrightarrow> goes i b c \<Longrightarrow> goes i a c"
  unfolding goes_def using device_steps_length by (meson less_le_trans rtranclp_trans)

lemma goes_step: "device_step m m' \<Longrightarrow> goes i m m'"
  unfolding goes_def by blast

lemma goes_conn: "latch (conn m i) c \<Longrightarrow> goes i m (set_conn i c m)"
  unfolding goes_def by (blast intro: step_client)

lemma goes_core: "same_device m m' \<Longrightarrow> goes i m m'"
  by (simp add: goes_step step_core)

lemma same_device_updates:
  "same_device m (m\<lparr>dvWebhookFailed := b\<rparr>)" "same_device m (m\<lparr>dvForeignWarned := b\<rparr>)"
  "same_device m (m\<lparr>dvPolls := ps\<rparr>)" "same_device m (m\<lparr>dvOnConnect := oc\<rparr>)" "same_device m (m\<lparr>dvAudioSeen := au\<rparr>)"
  by (simp_all add: same_device_def)

lemma on_conn_goes: "fn_latches fn \<Longrightarrow> on_conn fn i m = Some (r, m') \<Longrightarrow> goes i m m'"
  by (auto simp: on_conn_def fn_latches_def intro: goes_conn)

definition links_latch :: "(nat \<Rightarrow> link) \<Rightarrow> bool" where
  "links_latch ls \<longleftrightarrow> (\<forall>n. link_latches (ls n))"

lemma subscribeWebhook_goes:
  assumes ls: "links_latch ls" and run: "subscribeWebhook parser ls url i m = Some (r, m')"
  shows "goes i m m'"
proof -
  have get: "fn_latches (GetWebhook parser (ls n))" and put: "fn_latches (SetWebhook (ls n) True url)" for n
    using ls by (simp_all add: links_latch_def GetWebhook_latches SetWebhook_latches)
  obtain r1 m1 where first: "on_conn (GetWebhook parser (ls 0)) i m = Some (r1, m1)"
    using run by (auto simp: subscribeWebhook_def split: Option.bind_splits)
  note go1 = on_conn_goes [OF get first]
  define m2 where "m2 = (case r1 of Inl f \<Rightarrow> m1 | Inr (enabled, current) \<Rightarrow>
      if enabled \<and> current \<noteq> [] then m1\<lparr>dvForeignWarned := True\<rparr> else m1)"
  have go2: "goes i m1 m2" by (auto simp: m2_def intro: goes_core same_device_updates split: sum.split)
  have "m' = m1 \<or> (\<exists>e m3. on_conn (SetWebhook (ls 1) True url) i m2 = Some (e, m3) \<and>
      (m' = m3 \<or> (\<exists>r4. on_conn (GetWebhook parser (ls 2)) i m3 = Some (r4, m'))))"
    using run first
    by (auto simp: subscribeWebhook_def m2_def split: Option.bind_splits sum.splits option.splits if_splits)
  then show ?thesis
    using go1 goes_trans [OF go1 go2] on_conn_goes [OF get [of 2]] on_conn_goes [OF put [of 1]] goes_trans by metis
qed

lemma setupWebhook_goes:
  assumes "links_latch ls" "setupWebhookAndBatteryPoll parser ls h i m = Some (r, m')"
  shows "goes i m m'"
proof -
  obtain m1 where sub: "subscribeWebhook parser ls (hWebhookURL h) i m = Some (r, m1) \<or> (r = None \<and> m1 = m)"
    and m': "m' = (let m = (case r of None \<Rightarrow> m1 | Some f \<Rightarrow> if rejected f then m1\<lparr>dvWebhookFailed := True\<rparr> else m1)
                   in if hPollBattery h \<and> hBattery h then m\<lparr>dvPolls := dvPolls m @ [i]\<rparr> else m)"
    using assms(2) by (auto simp: setupWebhookAndBatteryPoll_def Let_def split: Option.bind_splits if_splits)
  have "goes i m m1" using sub subscribeWebhook_goes [OF assms(1)] by auto
  moreover have "goes i m1 m'"
    unfolding m' Let_def
    by (auto intro: goes_core same_device_updates goes_trans [OF goes_core [OF same_device_updates(1)]] split: option.split)
  ultimately show ?thesis by (rule goes_trans)
qed

lemma stop_preview_goes:
  "link_latches l \<Longrightarrow> stop_preview l channel stream i m = Some (e, m') \<Longrightarrow> goes i m m'"
  using StopPreview_latches [of l 1 channel stream]
  by (auto simp: stop_preview_def fn_latches_def intro: goes_conn)

lemma goes_reset: "goes i m (ResetIfCurrent c m)"
  by (simp add: goes_step step_reset)

lemma pump_step_goes:
  "link_latches l \<Longrightarrow> pump_step l channel stream i now ev p m = Some (r, p', m') \<Longrightarrow> goes i m m'"
  by (cases ev)
     (auto split: if_splits Option.bind_splits
       dest!: stop_preview_goes intro: goes_trans [OF _ goes_reset])

text \<open>After \<^verbatim>\<open>Ensure\<close> gave a client, what goes on with it is a run of the device.\<close>

lemma Ensure_goes:
  assumes "Ensure net m = Some (Inr i, m1)" "goes i m1 m2" "dev_inv m"
  shows "device_steps m m2"
  using Ensure_inv [OF assms(3,1)] assms(2) step_ensure [OF assms(1)]
  by (auto simp: goes_def intro: converse_rtranclp_into_rtranclp)

lemma StreamPackets_turn_steps:
  assumes "dev_inv m" "link_latches l" "StreamPackets_turn want net l channel stream pause m = Some (nx, pause', m')"
  shows "device_steps m m'"
proof (cases want)
  case False
  then show ?thesis using assms(3) by (simp add: StreamPackets_turn_def)
next
  case True
  then obtain r m1 where en: "Ensure net m = Some (r, m1)"
    using assms(3) by (auto simp: StreamPackets_turn_def split: Option.bind_splits)
  show ?thesis
  proof (cases r)
    case (Inl e)
    then show ?thesis using assms(3) True en step_ensure [OF en] by (auto simp: StreamPackets_turn_def)
  next
    case (Inr i)
    then obtain res c where sp: "StartPreview (loginOf l) (answers l 1) channel stream (conn m1 i) = Some (res, c)"
      and m': "m' = set_conn i c m1 \<or> m' = ResetIfCurrent (Some i) (set_conn i c m1)"
      using assms(3) True en
      by (auto simp: StreamPackets_turn_def Let_def split: Option.bind_splits sum.splits if_splits option.splits)
    have "goes i m1 (set_conn i c m1)"
      using StartPreview_latches [OF assms(2)] sp by (auto simp: fn_latches_def intro: goes_conn)
    then have "goes i m1 m'" using m' goes_trans [OF _ goes_reset] by blast
    then show ?thesis using Ensure_goes en assms(1) Inr by blast
  qed
qed

lemma AbilityInfo_latches: "link_latches l \<Longrightarrow> fn_latches (AbilityInfoXML (loginOf l) (answers l n))"
  unfolding AbilityInfoXML_def
  by (rule after_login_latches, assumption) (auto split: prod.splits sum.splits dest!: link_send)

lemma ListenForAlarms_latches:
  assumes l: "link_latches l"
  shows "fn_latches (ListenForAlarms (loginOf l) parser (answers l) wait channel)"
  unfolding fn_latches_def
proof (intro allI impI)
  fix c r c'
  assume run: "ListenForAlarms (loginOf l) parser (answers l) wait channel c = Some (r, c')"
  then obtain err c1 where login: "loginOf l c = Some (err, c1)"
    by (auto simp: ListenForAlarms_def split: Option.bind_splits)
  note go1 = login_latch [OF l login]
  show "latch c c'"
  proof (cases err)
    case (Some e)
    then show ?thesis using run login go1 by (auto simp: ListenForAlarms_def)
  next
    case None
    then obtain abil c2 where ability: "AbilityInfoXML (loginOf l) (answers l 0) c1 = Some (abil, c2)"
      using run login by (auto simp: ListenForAlarms_def split: Option.bind_splits)
    then have go2: "latch c1 c2" using AbilityInfo_latches [OF l] by (auto simp: fn_latches_def)
    obtain refused c3 where refresh: "RefreshAlarmSubscription (answers l) wait c2 = (refused, c3)" by fastforce
    note go3 = Refresh_latch [OF l refresh]
    obtain k4 c4 k5 c5 k6 c6 where sub: "subscribe msgIDMotion c3 = (k4, c4)" "subscribe 600 c4 = (k5, c5)"
      "subscribe 696 c5 = (k6, c6)" by (metis surj_pair)
    have "c' = c2 \<or> c' = c3 \<or> c' = c6"
      using run login None ability refresh sub
      by (auto simp: ListenForAlarms_def Let_def split: sum.splits option.splits client_error.splits)
    moreover have "closeErr c6 = closeErr c3" using sub [THEN subscribe_closeErr] by simp
    ultimately show ?thesis using go1 go2 go3 by (auto simp: latch_def)
  qed
qed

lemma listen_goes: "listen msgID i m = (k, m') \<Longrightarrow> goes i m m'"
  by (auto simp: listen_def latch_def intro!: goes_conn dest!: subscribe_closeErr split: prod.splits)

lemma unlisten_goes: "goes i m (unlisten i ks m)"
  by (auto simp: unlisten_def latch_def intro!: goes_conn)

lemma listen_if_goes: "listen_if b msgIDs i ks m = (ks', m') \<Longrightarrow> goes i m m'"
proof (induction msgIDs arbitrary: ks m)
  case (Cons msgID msgIDs)
  obtain k m1 where k: "listen msgID i m = (k, m1)" by fastforce
  show ?case
  proof (cases b)
    case True
    then have "listen_if b msgIDs i (k # ks) m1 = (ks', m')" using Cons.prems k by (simp add: listen_if_def)
    from Cons.IH [OF this] show ?thesis using listen_goes [OF k] goes_trans by blast
  qed (use Cons.prems in \<open>simp add: listen_if_def\<close>)
qed (simp add: listen_if_def split: if_splits)

lemma setupAlarmListener_goes:
  assumes "link_latches l" "setupAlarmListener l parser channel h mu i m = Some (r, m')"
  shows "goes i m m'"
proof (cases "\<not> hAlarm h \<or> mu")
  case False
  then obtain res m1 where "on_conn (ListenForAlarms (loginOf l) parser (answers l) (waits l) channel) i m = Some (res, m1)"
    and m': "m' = m1 \<or> m' = ResetIfCurrent (Some i) m1"
    using assms(2) by (auto simp: setupAlarmListener_def split: Option.bind_splits sum.splits alarm_error.splits)
  then have "goes i m m1" using on_conn_goes [OF ListenForAlarms_latches [OF assms(1)]] by blast
  then show ?thesis using m' goes_trans [OF _ goes_reset] by blast
qed (use assms(2) in \<open>auto simp: setupAlarmListener_def\<close>)

lemma session_listeners_goes:
  assumes "session_listeners h i ks m = (ks', m')"
  shows "goes i m m'"
proof -
  obtain ks1 m1 ks2 m2 where "listen_if (hBattery h) [msgIDBatteryInfo, msgIDBatteryInfoList] i ks m = (ks1, m1)"
    "listen_if (hSleep h) [msgIDChannelInfoList] i ks1 m1 = (ks2, m2)" by (metis surj_pair)
  with assms show ?thesis
    using listen_if_goes goes_trans unfolding session_listeners_def by (metis case_prod_conv)
qed

lemma watch_connected_goes:
  assumes ls: "links_latch ls" and run: "watch_connected ls parser channel h mu i m = Some (nx, h', mu', m')"
  shows "goes i m m'"
proof -
  obtain privacy m1 where li: "listen msgIDPrivacyModePush i m = (privacy, m1)" by fastforce
  then obtain ok alarms mu2 m2 where sa: "setupAlarmListener (ls 3) parser channel h mu i m1 = Some ((ok, alarms, mu2), m2)"
    using run by (auto simp: watch_connected_def split: Option.bind_splits)
  have go2: "goes i m m2"
    using listen_goes [OF li] setupAlarmListener_goes [OF _ sa] ls goes_trans by (metis links_latch_def)
  obtain ks m3 where se: "session_listeners h i (privacy # alarms) m2 = (ks, m3)" by fastforce
  have "goes i m2 m'"
  proof (cases ok)
    case False
    then show ?thesis using run li sa by (auto simp: watch_connected_def unlisten_goes)
  next
    case True
    then obtain err where "setupWebhookAndBatteryPoll parser ls h i m3 = Some (err, m')"
      using run li sa se by (auto simp: watch_connected_def split: Option.bind_splits)
    from setupWebhook_goes [OF ls this] session_listeners_goes [OF se] show ?thesis using goes_trans by blast
  qed
  with go2 show ?thesis using goes_trans by blast
qed

lemma watchEventsLoop_turn_steps:
  assumes inv: "dev_inv m" and ls: "links_latch ls"
    and run: "watchEventsLoop_turn net ls parser channel h mu m = Some (nx, h', mu', m')"
  shows "device_steps m m'"
proof -
  obtain r m1 where en: "Ensure net m = Some (r, m1)"
    using run by (auto simp: watchEventsLoop_turn_def split: Option.bind_splits)
  show ?thesis
  proof (cases r)
    case (Inl e)
    then show ?thesis using run en step_ensure [OF en] by (auto simp: watchEventsLoop_turn_def)
  next
    case (Inr i)
    let ?m = "set_conn i (StartKeepAlive (conn m1 i)) m1"
    have "goes i m1 ?m" by (simp add: StartKeepAlive_def latch_def goes_conn)
    moreover have "goes i ?m m'"
      using run en Inr watch_connected_goes [OF ls] by (auto simp: watchEventsLoop_turn_def Let_def)
    ultimately have "goes i m1 m'" by (rule goes_trans)
    then show ?thesis using Ensure_goes en inv Inr by blast
  qed
qed

lemma watchLowPower_turn_steps:
  assumes inv: "dev_inv m" and ls: "links_latch ls"
    and run: "watchLowPower_turn net ls parser h warned m = Some (nx, wait, m')"
  shows "device_steps m m' \<and> (\<forall>w i. nx = LpConfirm w i \<longrightarrow> i < length (dvConns m'))"
proof -
  obtain r m1 where en: "Ensure net m = Some (r, m1)"
    using run by (auto simp: watchLowPower_turn_def split: Option.bind_splits)
  show ?thesis
  proof (cases r)
    case (Inl e)
    then show ?thesis using run en step_ensure [OF en] by (auto simp: watchLowPower_turn_def)
  next
    case (Inr i)
    then have "(m' = m1 \<and> nx = LpForever) \<or> (\<exists>err. setupWebhookAndBatteryPoll parser ls h i m1 = Some (err, m') \<and>
        (\<forall>w j. nx = LpConfirm w j \<longrightarrow> j = i))"
      using run en by (auto simp: watchLowPower_turn_def split: Option.bind_splits if_splits)
    then have go: "goes i m1 m' \<and> (\<forall>w j. nx = LpConfirm w j \<longrightarrow> j = i)" using setupWebhook_goes [OF ls] by auto
    then have "device_steps m1 m'" using Ensure_inv [OF inv en] Inr by (auto simp: goes_def)
    moreover have "i < length (dvConns m1)" using Ensure_inv [OF inv en] Inr by blast
    ultimately have "i < length (dvConns m')" using device_steps_length less_le_trans by blast
    then show ?thesis using go Ensure_goes en inv Inr by blast
  qed
qed

section \<open>A refused stream\<close>

text \<open>Turns of one stream in a row, with a viewer there.\<close>

fun stream_turns ::
  "nat \<Rightarrow> network \<Rightarrow> link \<Rightarrow> byte \<Rightarrow> string \<Rightarrow> int \<Rightarrow> device \<Rightarrow> (stream_next list \<times> int \<times> device) option" where
  "stream_turns 0 net l channel stream pause m = Some ([], pause, m)"
| "stream_turns (Suc n) net l channel stream pause m =
     do { (nx, pause, m) \<leftarrow> StreamPackets_turn True net l channel stream pause m;
          (nxs, pause, m) \<leftarrow> stream_turns n net l channel stream pause m;
          Some (nx # nxs, pause, m) }"

definition next_pause :: "int \<Rightarrow> int" where
  "next_pause pause = min (max (2 * pause) previewRejectedPauseMin) previewRejectedPauseMax"

lemma next_pause_double: "1 \<le> x \<Longrightarrow> next_pause (min (x * sec) minute) = min (2 * x * sec) minute"
  by (simp add: next_pause_def previewRejectedPauseMin_def previewRejectedPauseMax_def sec_def minute_def)

lemma next_pause_doubles: "(next_pause ^^ Suc n) 0 = min (2 ^ Suc n * sec) minute"
proof (induction n)
  case 0
  show ?case
    by (simp add: next_pause_def previewRejectedPauseMin_def previewRejectedPauseMax_def sec_def minute_def)
next
  case (Suc n)
  have "(next_pause ^^ Suc (Suc n)) 0 = next_pause (min (2 ^ Suc n * sec) minute)"
    using Suc by simp
  also have "\<dots> = min (2 * 2 ^ Suc n * sec) minute" by (rule next_pause_double) (rule one_le_power, simp)
  finally show ?case by simp
qed

text \<open>A camera that answers every start of the stream with a status and keeps the connection.\<close>

definition refuses :: "link \<Rightarrow> byte \<Rightarrow> string \<Rightarrow> bool" where
  "refuses l channel stream \<longleftrightarrow>
     (\<forall>c. closeErr c = None \<longrightarrow> (\<exists>e c'. StartPreview (loginOf l) (answers l 1) channel stream c = Some (Inl e, c')
        \<and> status_of e \<noteq> None \<and> closeErr c' = None))"

definition up :: "nat \<Rightarrow> device \<Rightarrow> bool" where
  "up i m \<longleftrightarrow> dvClient m = Some i \<and> i < length (dvConns m) \<and> closeErr (conn m i) = None"

lemma up_Ensure: "up i m \<Longrightarrow> Ensure net m = Some (Inr i, m)"
  by (simp add: up_def Ensure_def)

lemma refused_turn:
  assumes "refuses l channel stream" "up i m" "dvPrivacy m = None"
  shows "\<exists>c. StreamPackets_turn True net l channel stream pause m =
      Some (StreamPause (next_pause pause), next_pause pause, set_conn i c m) \<and> closeErr c = None"
proof -
  have "closeErr (conn m i) = None" using assms(2) by (simp add: up_def)
  then obtain e c where "StartPreview (loginOf l) (answers l 1) channel stream (conn m i) = Some (Inl e, c)"
      "status_of e \<noteq> None" "closeErr c = None"
    using assms(1) unfolding refuses_def by blast
  then show ?thesis
    by (auto simp: StreamPackets_turn_def up_Ensure [OF assms(2)] privacyEnd_def assms(3) next_pause_def Let_def)
qed

text \<open>C14: A stream the camera refuses, busy after connecting or without that profile, is asked for ever more
  rarely, after 2, 4, 8, 16, 32 and then every 60 seconds, and harms nothing: the connection it
  shares with the other streams and the event listener stays, and no state change is reported.\<close>

theorem refused_stream_backs_off:
  assumes "refuses l channel stream" "up i m" "dvPrivacy m = None"
  shows "\<exists>m'. stream_turns n net l channel stream 0 m =
      Some (map (\<lambda>k. StreamPause (min (2 ^ Suc k * sec) minute)) [0..<n], (next_pause ^^ n) 0, m')
    \<and> up i m' \<and> state_log m' = state_log m"
proof -
  have "\<exists>m'. stream_turns n net l channel stream ((next_pause ^^ k) 0) m =
      Some (map (\<lambda>k. StreamPause (min (2 ^ Suc k * sec) minute)) [k..<k + n], (next_pause ^^ (k + n)) 0, m')
    \<and> up i m' \<and> state_log m' = state_log m" for k
    using assms(2,3)
  proof (induction n arbitrary: k m)
    case (Suc n)
    from refused_turn [OF assms(1) Suc.prems] obtain c where
      turn: "StreamPackets_turn True net l channel stream ((next_pause ^^ k) 0) m =
        Some (StreamPause ((next_pause ^^ Suc k) 0), (next_pause ^^ Suc k) 0, set_conn i c m)" and c: "closeErr c = None"
      by auto
    have "up i (set_conn i c m)" "dvPrivacy (set_conn i c m) = None"
      using Suc.prems c by (simp_all add: up_def)
    from Suc.IH [OF this, of "Suc k"] obtain m' where rest:
      "stream_turns n net l channel stream ((next_pause ^^ Suc k) 0) (set_conn i c m) =
        Some (map (\<lambda>k. StreamPause (min (2 ^ Suc k * sec) minute)) [Suc k..<Suc k + n], (next_pause ^^ (Suc k + n)) 0, m')"
      "up i m'" "state_log m' = state_log m"
      by auto
    have "[k..<k + Suc n] = k # [Suc k..<Suc k + n]" by (simp add: upt_conv_Cons)
    then show ?case using turn rest next_pause_doubles [of k] by simp
  qed simp
  from this [of 0] show ?thesis by simp
qed

section \<open>A stalled stream\<close>

text \<open>
  The life of a preview: the time it started, the time of its last event, and the times of its
  packets, the latest first. The stall timer fires no earlier than it was set for.
\<close>

inductive preview_life :: "link \<Rightarrow> byte \<Rightarrow> string \<Rightarrow> nat \<Rightarrow> int \<Rightarrow> int \<Rightarrow> int list \<Rightarrow> pump \<Rightarrow> device \<Rightarrow> bool"
  for l channel stream i
where
  preview_start: "preview_life l channel stream i t t [] (new_pump t) m"
| preview_event:
    "preview_life l channel stream i t0 t ps p m \<Longrightarrow> t \<le> now \<Longrightarrow> (ev = PumpStall \<longrightarrow> stallAt p \<le> now) \<Longrightarrow>
     pump_step l channel stream i now ev p m = Some (None, p', m') \<Longrightarrow>
     preview_life l channel stream i t0 now (case ev of PumpPacket packet \<Rightarrow> now # ps | _ \<Rightarrow> ps) p' m'"
| preview_device: "preview_life l channel stream i t0 t ps p m \<Longrightarrow> preview_life l channel stream i t0 t ps p m'"

lemma preview_life_silent:
  assumes "preview_life l channel stream i t0 t ps p m"
  shows "(\<forall>s \<in> set ps. s + stallAfter \<le> stallAt p) \<and> t0 + stallAfter \<le> stallAt p \<and> t0 \<le> t \<and> (\<forall>s \<in> set ps. s \<le> t)"
  using assms
proof (induction rule: preview_life.induct)
  case (preview_event t0 t ps p m now ev p' m')
  have "stallAt p' = (if p' = p then stallAt p else now + stallAfter)"
    using preview_event.hyps(4) by (cases ev) (auto split: if_splits Option.bind_splits)
  moreover have "p' = p \<Longrightarrow> (case ev of PumpPacket packet \<Rightarrow> False | _ \<Rightarrow> True)"
    using preview_event.hyps(4) by (cases ev) (auto dest!: arg_cong [of _ _ pumped])
  ultimately show ?case
    using preview_event.IH preview_event.hyps(2) by (cases ev; cases "p' = p") fastforce+
qed (auto simp: new_pump_def)

text \<open>A stream is restarted as stalled only when it has been silent for 15 seconds, neither started nor
  sent a packet in that time, and never while the camera is in privacy mode, when the camera holds
  the preview and sends nothing.\<close>

theorem healthy_preview_kept:
  assumes "preview_life l channel stream i t0 t ps p m" "stallAt p \<le> now"
    and "pump_step l channel stream i now PumpStall p m = Some (Some outcome, p', m')"
  shows "t0 + 15 * sec \<le> now \<and> (\<forall>s \<in> set ps. s + 15 * sec \<le> now) \<and> privacyEnd m = None \<and> outcome = previewRestart"
  using preview_life_silent [OF assms(1)] assms(2,3)
  by (fastforce simp: stallAfter_def split: if_splits Option.bind_splits)

section \<open>Battery cameras are let go only when they can push\<close>

text \<open>
  The life of the device of a battery camera: the turns of \<^verbatim>\<open>watchLowPower\<close>, the ends of its waits (the
  push channel only once it is closed), the preparation of later connections, and anything else that
  happens to the device.
\<close>

inductive battery_life :: "byte \<Rightarrow> event_handlers \<Rightarrow> low_power \<Rightarrow> device \<Rightarrow> bool"
  for channel h
where
  battery_start: "battery_life channel h (LpTry False) (newCameraDevice c backoff onState)"
| battery_turn:
    "battery_life channel h (LpTry warned) m \<Longrightarrow>
     watchLowPower_turn net ls parser h warned m = Some (nx, wait, m') \<Longrightarrow> battery_life channel h nx m'"
| battery_confirm:
    "battery_life channel h (LpConfirm warned i) m \<Longrightarrow> (r = PushSeen \<longrightarrow> dvPushSeen m) \<Longrightarrow>
     watchLowPower_confirm r channel h warned i m = (nx, m') \<Longrightarrow> battery_life channel h nx m'"
| battery_session:
    "battery_life channel h (LpSession warned) m \<Longrightarrow>
     battery_life channel h (endSessionWhenReachable ctxDone warned m) m"
| battery_job:
    "battery_life channel h st m \<Longrightarrow> i \<in> set (dvJobs m) \<Longrightarrow> run_job parser ls i m = Some m' \<Longrightarrow>
     battery_life channel h st m'"
| battery_other:
    "battery_life channel h st m \<Longrightarrow> device_step m m' \<Longrightarrow> dvIdle m' = dvIdle m \<Longrightarrow>
     dvOnConnect m' = dvOnConnect m \<Longrightarrow> battery_life channel h st m'"

definition quiet :: "device \<Rightarrow> device \<Rightarrow> bool" where
  "quiet m m' \<longleftrightarrow> dvIdle m' = dvIdle m \<and> dvOnConnect m' = dvOnConnect m \<and> dvPushSeen m' = dvPushSeen m"

lemma quiet_trans: "quiet a b \<Longrightarrow> quiet b c \<Longrightarrow> quiet a c" by (simp add: quiet_def)

lemma on_conn_quiet: "on_conn fn i m = Some (r, m') \<Longrightarrow> quiet m m'"
  by (auto simp: on_conn_def quiet_def)

lemma subscribeWebhook_quiet:
  assumes "subscribeWebhook parser ls url i m = Some (r, m')"
  shows "quiet m m'"
proof -
  have flag: "quiet m (if b then m\<lparr>dvForeignWarned := True\<rparr> else m)" for b m by (simp add: quiet_def)
  show ?thesis
    using assms unfolding subscribeWebhook_def Let_def
    by (auto split: Option.bind_splits sum.splits option.splits if_splits
        dest!: on_conn_quiet simp: quiet_def)
qed

lemma setupWebhook_quiet:
  assumes "setupWebhookAndBatteryPoll parser ls h i m = Some (r, m')"
  shows "quiet m m'"
proof -
  obtain m1 where "quiet m m1"
    and m': "m' = (let m = (case r of None \<Rightarrow> m1 | Some f \<Rightarrow> if rejected f then m1\<lparr>dvWebhookFailed := True\<rparr> else m1)
                   in if hPollBattery h \<and> hBattery h then m\<lparr>dvPolls := dvPolls m @ [i]\<rparr> else m)"
    using assms subscribeWebhook_quiet
    by (fastforce simp: setupWebhookAndBatteryPoll_def Let_def quiet_def split: Option.bind_splits if_splits)
  then show ?thesis by (auto simp: quiet_def Let_def split: option.splits)
qed

lemma watchLowPower_quiet: "watchLowPower_turn net ls parser h warned m = Some (nx, wait, m') \<Longrightarrow> quiet m m'"
  by (auto simp: watchLowPower_turn_def quiet_def
      split: Option.bind_splits sum.splits if_splits dest!: Ensure_keeps setupWebhook_quiet)

lemma device_step_push: "device_step m m' \<Longrightarrow> dvPushSeen m \<Longrightarrow> dvPushSeen m'"
proof (induction rule: device_step.induct)
  case (step_core m m')
  then obtain w f oc js ps au where "m' = m\<lparr>dvWebhookFailed := w, dvForeignWarned := f, dvOnConnect := oc,
      dvJobs := js, dvPolls := ps, dvAudioSeen := au\<rparr>"
    unfolding same_device_def by blast
  then show ?case using step_core by simp
next
  case (step_drain m)
  then show ?case by (simp add: drain_step_def split: option.splits list.splits)
qed (auto simp: ResetIfCurrent_def Close_device_def setPrivacy_def notePush_def dest: Ensure_keeps split: option.splits)

text \<open>C13: The connection of a battery camera is never told to close when idle, and no later connection is
  prepared that way, before the camera has reached the push address once: a camera that cannot push
  its events would otherwise fall asleep with no way to report them.\<close>

theorem battery_camera_not_silenced:
  assumes "battery_life channel h st m"
  shows "dvIdle m \<noteq> [] \<or> dvOnConnect m \<noteq> None \<longrightarrow> dvPushSeen m"
  using assms
proof (induction rule: battery_life.induct)
  case (battery_turn warned m net ls parser nx wait m')
  then show ?case using watchLowPower_quiet by (fastforce simp: quiet_def)
next
  case (battery_confirm warned i m r nx m')
  then show ?case
    by (cases r) (auto simp: watchLowPower_confirm_def CloseWhenIdle_def setOnConnect_def)
next
  case (battery_job st m i parser ls m')
  then show ?case
    using setupWebhook_quiet
    by (fastforce simp: run_job_def quiet_def CloseWhenIdle_def split: option.splits)
next
  case (battery_other st m m')
  then show ?case using device_step_push by auto
qed (auto simp: newCameraDevice_def)

section \<open>Renewing the subscription\<close>

text \<open>The ticks of one event session, each with whether the camera has pushed by then: when it is asked again.\<close>

fun asks :: "int \<Rightarrow> (int \<times> bool) list \<Rightarrow> int \<Rightarrow> int list" where
  "asks start [] lastRenew = []"
| "asks start ((now, pushed) # ticks) lastRenew =
     (case renew_tick start pushed now lastRenew of
        (ask, lastRenew) \<Rightarrow> (if ask then [now] else []) @ asks start ticks lastRenew)"

fun spaced_from :: "int \<Rightarrow> int \<Rightarrow> (int \<Rightarrow> bool) \<Rightarrow> int list \<Rightarrow> bool" where
  "spaced_from gap prev early [] = True"
| "spaced_from gap prev early (t # ts) = ((early t \<or> prev + gap \<le> t) \<and> spaced_from gap t early ts)"

lemma asks_spaced:
  assumes "\<forall>(now, pushed) \<in> set ticks. pushed \<or> start + 5 * minute \<le> now \<longrightarrow> \<not> early now"
    and "\<forall>(now, pushed) \<in> set ticks. \<not> pushed \<and> now < start + 5 * minute \<longrightarrow> early now"
  shows "spaced_from (5 * minute) lastRenew early (asks start ticks lastRenew)"
  using assms
proof (induction ticks arbitrary: lastRenew)
  case (Cons tick ticks)
  obtain now pushed where tick: "tick = (now, pushed)" by (cases tick)
  then show ?case
    using Cons by (auto simp: renew_tick_def Let_def alarmFastRetryWindow_def alarmRenewInterval_def)
qed simp

text \<open>The subscription of a camera is renewed without pestering it: as soon as the camera has pushed, or
  five minutes into the session, every renewal comes at least five minutes after the one before (or
  after the start); only a camera that has not pushed yet is asked at every tick before that.\<close>

theorem renewals_spaced:
  assumes "\<And>now pushed. (now, pushed) \<in> set ticks \<Longrightarrow> early now \<longleftrightarrow> \<not> pushed \<and> now < start + 5 * minute"
  shows "spaced_from (5 * minute) start early (asks start ticks start)
    \<and> (\<forall>(now, pushed) \<in> set ticks. early now \<longrightarrow> now \<in> set (asks start ticks start))"
proof -
  have "early now \<longrightarrow> now \<in> set (asks start tk lr)" if "(now, pushed) \<in> set tk" "set tk \<subseteq> set ticks" for now pushed tk lr
    using that
  proof (induction tk arbitrary: lr)
    case (Cons tick tk)
    then show ?case
      using assms by (cases tick) (auto simp: renew_tick_def Let_def alarmFastRetryWindow_def)
  qed simp
  moreover have "spaced_from (5 * minute) start early (asks start ticks start)"
    using assms by (intro asks_spaced) auto
  ultimately show ?thesis by blast
qed

section \<open>Talkback after a failure\<close>

text \<open>
  The life of a talkback session: the times at which a write tried to start it again, the latest
  first (such a write, and only it, sets \<open>rtRetryAt\<close>), and the time of the last write.
\<close>

inductive talk_life :: "int list \<Rightarrow> int \<Rightarrow> resilient_talk \<Rightarrow> bool" where
  talk_begin: "rtRetryAt s = None \<Longrightarrow> talk_life [] t s"
| talk_write:
    "talk_life ps t s \<Longrightarrow> t \<le> now \<Longrightarrow>
     WriteADPCMBlock_resilient ok ok' net net' l parser now block s m = Some (accepted, s', m') \<Longrightarrow>
     talk_life (if rtRetryAt s' = rtRetryAt s then ps else now # ps) now s'"

lemma talk_restart_retry:
  assumes "talk_restart ok net l parser now block s m = Some (s', m')"
  shows "rtRetryAt s' = rtRetryAt s \<or>
    (rtRetryAt s' = Some (now + talkRetryPause) \<and> (\<forall>t. rtRetryAt s = Some t \<longrightarrow> t \<le> now))"
  using assms
  by (auto simp: talk_restart_def Let_def split: if_splits Option.bind_splits sum.splits option.splits prod.splits)

lemma talk_write_retry:
  assumes "WriteADPCMBlock_resilient ok ok' net net' l parser now block s m = Some (accepted, s', m')"
  shows "rtRetryAt s' = rtRetryAt s \<or>
    (rtRetryAt s' = Some (now + talkRetryPause) \<and> (\<forall>t. rtRetryAt s = Some t \<longrightarrow> t \<le> now))"
  using assms
  by (auto simp: WriteADPCMBlock_resilient_def Let_def
      split: if_splits option.splits prod.splits Option.bind_splits dest!: talk_restart_retry)

lemma talk_life_spaced:
  assumes "talk_life ps t s"
  shows "spaced talkRetryPause ps \<and> (ps \<noteq> [] \<longrightarrow> rtRetryAt s = Some (hd ps + talkRetryPause))
    \<and> (ps = [] \<longrightarrow> rtRetryAt s = None)"
  using assms
proof (induction rule: talk_life.induct)
  case (talk_write ps t s now ok ok' net net' l parser block m accepted s' m')
  show ?case
  proof (cases "rtRetryAt s' = rtRetryAt s")
    case False
    then have retry: "rtRetryAt s' = Some (now + talkRetryPause)" "\<And>t. rtRetryAt s = Some t \<Longrightarrow> t \<le> now"
      using talk_write_retry [OF talk_write.hyps(3)] by auto
    have "spaced talkRetryPause (now # ps)"
    proof (cases ps)
      case (Cons p ps')
      then show ?thesis
        using talk_write.IH retry(2) spaced_Cons [of talkRetryPause p ps' now]
        by (simp add: talkRetryPause_def)
    qed (simp add: spaced_def)
    then show ?thesis using False retry(1) by simp
  qed (use talk_write.IH in simp)
qed (simp add: spaced_def)

text \<open>A camera's one talk slot is not kept busy by restarts: however fast the audio blocks come, two
  attempts to start a lost talkback session again are at least three seconds apart.\<close>

theorem talk_restarts_spaced:
  assumes "talk_life ps t s"
  shows "sorted_wrt (\<lambda>later earlier. earlier + 3 * sec \<le> later) ps"
  using talk_life_spaced [OF assms] by (simp add: spaced_def talkRetryPause_def sec_def)

text \<open>A network on which a dial and a login succeed and leave the client alive.\<close>

definition reaches :: "network \<Rightarrow> device \<Rightarrow> bool" where
  "reaches net m \<longleftrightarrow> (\<exists>c m'. connect_device net m = Some (Inr (length (dvConns m)), m')
     \<and> dvConns m' = dvConns m @ [c] \<and> closeErr c = None \<and> dvClient m' = Some (length (dvConns m))
     \<and> dvNotify m' = dvNotify m \<and> state_log m' = (if dvNotify m then state_log m @ [True] else state_log m))"

lemma reachesI:
  assumes "dial_config net m = (g, m)" "dial (tcpDial net) (uidDial net) g = Inr udp"
    and "loginRun net (loginTimeout m (new_client g udp)) (new_client g udp) = Some (None, c)" "closeErr c = None"
  shows "reaches net m"
proof -
  obtain g' t js where ad: "adopt net c m = (length (dvConns m),
     (notifyState True (m\<lparr>dvConns := dvConns m @ [c], dvClient := Some (length (dvConns m)),
        dvUsed := dvUsed m @ [length (dvConns m)], dvCfg := g', dvSince := t, dvDual := IsDualLens (loginInfo c)\<rparr>))\<lparr>dvJobs := js\<rparr>)"
    using adopt_form by blast
  show ?thesis using assms by (simp add: reaches_def connect_device_def ad Let_def)
qed

lemma talk_restart_waits: "now < t \<Longrightarrow> rtRetryAt s = Some t \<Longrightarrow> talk_restart ok net l parser now block s m = Some (s, m)"
  by (simp add: talk_restart_def)

text \<open>C39: A failed talkback write drops a connection that was just made: when the write fails because the
  shared connection is dead, the device dials and logs in anew, and that fresh, working connection is
  closed at once for the error of the old one (its streams and listeners with it); the callback hears
  down, up and down again. Within the pause after an attempt the device is then left without a
  connection although the camera answers.\<close>

theorem talk_write_drops_fresh_connection:
  assumes "dev_inv m" "dvNotify m" "\<not> rtClosed s" "rtSession s = Some (i, ts)" "dvClient m = Some i"
    and "closeErr (conn m i) = Some e" "\<not> is_idle e"
    and "\<not> talkClosed ts" "length block = bytesPerBlock ts"
    and "rtRetryAt s = Some t" "now < t"
    and "\<And>c. reaches net (closeLocked (set_conn i c m))"
  shows "\<exists>s' m'. WriteADPCMBlock_resilient False ok net net' l parser now block s m = Some (True, s', m')
    \<and> dvClient m' = None \<and> length (dvConns m') = Suc (length (dvConns m)) \<and> rtSession s' = None
    \<and> closeErr (conn m' (length (dvConns m))) = Some Canceled
    \<and> state_log m' = state_log m @ [False, True, False]"
proof -
  define c where "c = snd (reserveMessageNumber (conn m i))"
  have i: "i < length (dvConns m)" using assms(1,5) by (simp add: dev_inv_defs)
  have wrote: "\<exists>ts' req. WriteADPCMBlock False now block ts (conn m i) = (Some BlockTransport, ts', c, req)"
    using assms(8,9) by (simp add: WriteADPCMBlock_def reserveMessageNumber_def Let_def c_def)
  let ?m1 = "set_conn i c m"
  have dead: "closeErr (conn ?m1 i) = Some e"
    using i assms(6) by (simp add: c_def reserveMessageNumber_def)
  let ?m2 = "closeLocked ?m1"
  have m2: "state_log ?m2 = state_log m @ [False]" "length (dvConns ?m2) = length (dvConns m)" "dvNotify ?m2"
    using assms(2,5,7) dead by (simp_all add: closeLocked_def Let_def)
  obtain c3 m3 where fresh: "connect_device net ?m2 = Some (Inr (length (dvConns m)), m3)"
      "dvConns m3 = dvConns ?m2 @ [c3]" "closeErr c3 = None" "dvClient m3 = Some (length (dvConns m))" "dvNotify m3"
      "state_log m3 = state_log m @ [False, True]"
    using assms(12) [of c] m2 by (auto simp: reaches_def)
  have en: "Ensure net ?m1 = Some (Inr (length (dvConns m)), m3)"
    using assms(5) dead fresh(1) by (simp add: Ensure_def)
  let ?m4 = "ResetIfCurrent (Some (length (dvConns m))) m3"
  have m4: "dvClient ?m4 = None" "state_log ?m4 = state_log m @ [False, True, False]"
      "length (dvConns ?m4) = Suc (length (dvConns m))" "closeErr (conn ?m4 (length (dvConns m))) = Some Canceled"
    using fresh m2(2)
    by (simp_all add: ResetIfCurrent_def closeLocked_def Let_def client_close_def client_end.get_set nth_append)
  have "talk_restart ok net' l parser now block (s\<lparr>rtSession := None\<rparr>) ?m4 = Some (s\<lparr>rtSession := None\<rparr>, ?m4)"
    using assms(10,11) by (intro talk_restart_waits) simp_all
  then have "WriteADPCMBlock_resilient False ok net net' l parser now block s m = Some (True, s\<lparr>rtSession := None\<rparr>, ?m4)"
    using wrote assms(3,4) en by (auto simp: WriteADPCMBlock_resilient_def Let_def)
  then show ?thesis using m4 by auto
qed

section \<open>Instances\<close>

definition demo_up :: device where
  "demo_up = demo_device\<lparr>dvConns := [new_client Client.demo_config False], dvClient := Some 0\<rparr>"

definition refusing_link :: link where
  "refusing_link = \<lparr>loginOf = (\<lambda>c. Some (None, c)), answers = (\<lambda>n req c. (Inl (StatusError (rMsgID req) 400), c)),
     waits = (\<lambda>n. Elapsed)\<rparr>"

lemma refusing_link_refuses: "refuses refusing_link channel stream"
  unfolding refuses_def
proof (intro allI impI)
  fix c :: client
  assume "closeErr c = None"
  obtain st handle where params: "streamParams stream = (st, handle)" by fastforce
  obtain k c1 where sub: "subscribe msgIDVideo c = (k, c1)" by fastforce
  have "StartPreview (loginOf refusing_link) (answers refusing_link 1) channel stream c =
      Some (Inl (StatusError msgIDVideo 400), unsubscribe msgIDVideo k (c1\<lparr>msgNum := msgNum c1 + 1\<rparr>))"
    by (simp add: StartPreview_def refusing_link_def params sub sendRequest_def roundTripRequest_def
        reserveMessageNumber_def base_request_def)
  then show "\<exists>e c'. StartPreview (loginOf refusing_link) (answers refusing_link 1) channel stream c = Some (Inl e, c')
      \<and> status_of e \<noteq> None \<and> closeErr c' = None"
    using subscribe_closeErr [OF sub] \<open>closeErr c = None\<close> by auto
qed

theorem refused_stream_backs_off_witness:
  "\<exists>m'. stream_turns 7 (demo_network 0) refusing_link 0 ''mainStream'' 0 demo_up =
     Some (map (\<lambda>k. StreamPause (min (2 ^ Suc k * sec) minute)) [0..<7], (next_pause ^^ 7) 0, m') \<and> up 0 m'"
  using refused_stream_backs_off [OF refusing_link_refuses, of 0 demo_up 7 "demo_network 0" 0 "''mainStream''"]
  by (auto simp: demo_up_def demo_device_def newCameraDevice_def up_def new_client_def)

theorem healthy_preview_kept_witness:
  "\<exists>p m'. preview_life refusing_link 0 ''mainStream'' 0 0 (3 * sec) [3 * sec] p demo_up
    \<and> pump_step refusing_link 0 ''mainStream'' 0 (18 * sec) PumpStall p demo_up = Some (Some previewRestart, p, m')
    \<and> 3 * sec + 15 * sec \<le> 18 * sec"
proof -
  let ?packet = "empty_packet IFrame"
  let ?p = "\<lparr>stallAt = 18 * sec, pumped = [?packet]\<rparr>"
  let ?l = refusing_link
  have step: "pump_step ?l 0 ''mainStream'' 0 (3 * sec) (PumpPacket ?packet) (new_pump 0) demo_up = Some (None, ?p, demo_up)"
    by (simp add: new_pump_def stallAfter_def)
  have life: "preview_life ?l 0 ''mainStream'' 0 0 (3 * sec) [3 * sec] ?p demo_up"
    using preview_event [OF preview_start [of ?l 0 "''mainStream''" 0 0 demo_up] _ _ step] by (simp add: sec_def)
  have "\<exists>err c. StopPreview (loginOf ?l) (answers ?l 1) 0 ''mainStream'' (conn demo_up 0) = Some (err, c)"
    by (auto simp: StopPreview_def refusing_link_def streamParams_def sendRequest_def roundTripRequest_def
        reserveMessageNumber_def)
  then obtain m' where "pump_step ?l 0 ''mainStream'' 0 (18 * sec) PumpStall ?p demo_up = Some (Some previewRestart, ?p, m')"
    by (auto simp: stop_preview_def demo_up_def demo_device_def newCameraDevice_def privacyEnd_def)
  with healthy_preview_kept [OF life _ this] life show ?thesis by auto
qed

definition push_handlers :: event_handlers where
  "push_handlers = \<lparr>hAlarm = True, hBattery = True, hSleep = True, hFloodlight = False, hPollBattery = True,
     hLetSleep = True, hWebhookURL = ''u'', hLowPower = True\<rparr>"

definition push_link :: "nat \<Rightarrow> link" where
  "push_link n = demo_link (xml_header @ render (xmlHaCfg 1 ''u'' 0))"

definition push_parser :: xml_parser where
  "push_parser s = Some (xmlHaCfg 1 ''u'' 0)"

lemma push_confirmed: "\<exists>m'. setupWebhookAndBatteryPoll push_parser push_link push_handlers i m = Some (None, m')"
  if "\<not> dvWebhookFailed m"
proof -
  obtain r c' where reply: "host_command (push_link 0) msgIDWebhookGet None (conn m i) = Some (Inr r, c')"
      "XML r = xml_header @ render (xmlHaCfg 1 ''u'' 0)"
    using demo_link_host unfolding push_link_def by blast
  then have "GetWebhook push_parser (push_link 0) (conn m i) = Some (Inr (True, ''u''), c')"
    using decode_webhook_written [of push_parser 1 "''u''" 0]
    by (simp add: GetWebhook_def read_reply_def parses_rendered_def push_parser_def)
  then show ?thesis
    using that by (simp add: setupWebhookAndBatteryPoll_def subscribeWebhook_def on_conn_def push_handlers_def Let_def)
qed

theorem battery_camera_not_silenced_witness:
  "\<exists>m. battery_life 0 push_handlers LpDone m \<and> dvIdle m \<noteq> [] \<and> dvPushSeen m"
proof -
  let ?h = push_handlers
  obtain m1 where en: "Ensure (demo_network 0) demo_device = Some (Inr 0, m1)" by (metis demo_connects)
  have nvr: "\<not> IsNVR (loginInfo (conn m1 0))" "\<not> dvWebhookFailed m1"
    using en
    by (auto simp: Ensure_def connect_device_def demo_device_def demo_network_def newCameraDevice_def dial_config_def
      shouldReprobeTCPLocked_def Client.demo_config_def dial_def normalized_def adopt_def noteTransportLocked_def
      notifyState_def new_client_def Let_def IsNVR_def no_device_info_def)
  obtain m2 where prep: "setupWebhookAndBatteryPoll push_parser push_link ?h 0 m1 = Some (None, m2)"
    using push_confirmed nvr(2) by blast
  have failed: "\<not> dvWebhookFailed m2"
    using prep nvr(2)
    by (auto simp: setupWebhookAndBatteryPoll_def subscribeWebhook_def on_conn_def Let_def
        split: Option.bind_splits sum.splits if_splits option.splits)
  have turn: "watchLowPower_turn (demo_network 0) push_link push_parser ?h False demo_device =
      Some (LpConfirm False 0, None, m2)"
    using en nvr(1) prep failed by (simp add: watchLowPower_turn_def)
  have "battery_life 0 ?h (LpTry False) demo_device" unfolding demo_device_def by (rule battery_start)
  from battery_turn [OF this turn] have "battery_life 0 ?h (LpConfirm False 0) m2" .
  from battery_other [OF this step_push] have "battery_life 0 ?h (LpConfirm False 0) (notePush m2)"
    by (simp add: notePush_def)
  from battery_confirm [OF this, where r = PushSeen] have
    "battery_life 0 ?h LpDone (CloseWhenIdle 0 (setOnConnect (0, ?h) (notePush m2)))"
    by (simp add: watchLowPower_confirm_def notePush_def)
  with battery_camera_not_silenced [OF this] show ?thesis by (auto simp: CloseWhenIdle_def)
qed

theorem renewals_spaced_witness:
  "spaced_from (5 * minute) 0 (\<lambda>t. t = 30 * sec) (asks 0 [(30 * sec, False), (60 * sec, True), (330 * sec, True)] 0)
     \<and> 30 * sec \<in> set (asks 0 [(30 * sec, False), (60 * sec, True), (330 * sec, True)] 0)"
proof -
  let ?ticks = "[(30 * sec, False), (60 * sec, True), (330 * sec, True)]"
  have "(now = 30 * sec) = (\<not> pushed \<and> now < 0 + 5 * minute)" if "(now, pushed) \<in> set ?ticks" for now pushed
    using that by (auto simp: sec_def minute_def)
  from renewals_spaced [of ?ticks, OF this] show ?thesis by simp
qed

definition demo_session :: resilient_talk where
  "demo_session = \<lparr>rtChannel = 0, rtSession = None, rtSampleRate = 8000, rtSamplesPB = 8, rtBytesPB = 8,
     rtClosed = False, rtRetryAt = None\<rparr>"

definition dark_network :: network where
  "dark_network = (demo_network 0)\<lparr>tcpDial := Some TransportError, uidDial := Some TransportError\<rparr>"

theorem talk_restarts_spaced_witness:
  "\<exists>s. talk_life [5] 5 s \<and> rtRetryAt s = Some (5 + talkRetryPause)
    \<and> sorted_wrt (\<lambda>later earlier. earlier + 3 * sec \<le> later) [5 :: int]"
proof -
  have "\<exists>m'. Ensure dark_network demo_device = Some (Inl (DialError TransportError TransportError), m')"
    by (simp add: Ensure_def connect_device_def demo_device_def dark_network_def demo_network_def newCameraDevice_def
        dial_config_def shouldReprobeTCPLocked_def Client.demo_config_def dial_def normalized_def Let_def)
  then obtain m' where "Ensure dark_network demo_device = Some (Inl (DialError TransportError TransportError), m')" by blast
  then have "WriteADPCMBlock_resilient True True dark_network dark_network refusing_link demo_parser 5 [] demo_session demo_device
      = Some (True, demo_session\<lparr>rtRetryAt := Some (5 + talkRetryPause)\<rparr>, m')"
    by (simp add: WriteADPCMBlock_resilient_def talk_restart_def demo_session_def Let_def)
  from talk_write [OF talk_begin [of demo_session 5] _ this] have
    "talk_life [5] 5 (demo_session\<lparr>rtRetryAt := Some (5 + talkRetryPause)\<rparr>)"
    by (simp add: demo_session_def)
  with talk_restarts_spaced [OF this] show ?thesis by auto
qed

definition dead_device :: device where
  "dead_device = demo_up\<lparr>dvConns := [(new_client Client.demo_config False)\<lparr>closeErr := Some TransportError\<rparr>],
     dvCalls := [True]\<rparr>"

definition running_session :: resilient_talk where
  "running_session = demo_session\<lparr>rtSession := Some (0, demo_talk), rtRetryAt := Some 10\<rparr>"

theorem talk_write_drops_fresh_connection_witness:
  "\<exists>s' m'. WriteADPCMBlock_resilient False True (demo_network 0) (demo_network 0) refusing_link demo_parser 5
      (zeros (bytesPerBlock demo_talk)) running_session dead_device = Some (True, s', m')
    \<and> dvClient m' = None \<and> state_log m' = [True, False, True, False]"
proof -
  have "dev_inv dead_device"
    by (simp add: dead_device_def demo_up_def demo_device_def newCameraDevice_def dev_inv_defs state_log_def
        in_callback_def)
  moreover have "reaches (demo_network 0) (closeLocked (set_conn 0 c dead_device))" for c
    by (rule reachesI [where g = Client.demo_config and udp = False and c = "new_client Client.demo_config False"])
       (simp_all add: dead_device_def demo_up_def demo_device_def newCameraDevice_def dial_config_def
         shouldReprobeTCPLocked_def dial_def normalized_def demo_network_def Client.demo_config_def new_client_def)
  ultimately show ?thesis
    using talk_write_drops_fresh_connection [of dead_device running_session 0 demo_talk TransportError
        "zeros (bytesPerBlock demo_talk)" 10 5 "demo_network 0" True "demo_network 0" refusing_link demo_parser]
    by (auto simp: dead_device_def demo_up_def demo_device_def newCameraDevice_def running_session_def demo_session_def
        demo_talk_def state_log_def in_callback_def)
qed

end
