(* ===== verification/Controls.thy ===== *)
theory Controls
  imports DeviceOps
begin

text \<open>
  What the bridge offers to control a camera, \<^verbatim>\<open>pkg/bridge/controls.go\<close>: every control runs one
  command (or two) of the camera's client through the device's \<^verbatim>\<open>WithClient\<close>.
\<close>

section \<open>The controls\<close>

definition camera_channel :: "camera_config \<Rightarrow> byte" where
  "camera_channel cam = word_of_int (camChannel cam)"

definition boolToInt :: "bool \<Rightarrow> int" where
  "boolToInt v = (if v then 1 else 0)"

definition done_or :: "('e option \<times> 'c) option \<Rightarrow> (('e + unit) \<times> 'c) option" where
  "done_or r = map_option (\<lambda>(err, c). (case err of None \<Rightarrow> Inr () | Some e \<Rightarrow> Inl e, c)) r"

type_synonym 'a control = "((client_error device_fault + 'a) \<times> device) option"
type_synonym 'a report_control = "((report_fault device_fault + 'a) \<times> device) option"

definition Battery_control ::
  "network \<Rightarrow> xml_parser \<Rightarrow> link \<Rightarrow> byte \<Rightarrow> device \<Rightarrow> battery_state report_control" where
  "Battery_control net parser l channel m =
     map_option (\<lambda>(r, m). (map_sum id batteryStateFromInfo r, m)) (WithClient net (GetBattery parser l channel) m)"

text \<open>The events are what the collecting loop sees; a snapshot that still waits is not a result yet.\<close>

definition snap_result ::
  "xml_parser \<Rightarrow> link \<Rightarrow> byte \<Rightarrow> snap_event list \<Rightarrow> client \<Rightarrow> ((snap_fault + bytes) \<times> client) option" where
  "snap_result parser l channel events c =
     (case Snap parser l channel events c of Some (Some res, c) \<Rightarrow> Some (res, c) | _ \<Rightarrow> None)"

definition Snapshot ::
  "network \<Rightarrow> xml_parser \<Rightarrow> link \<Rightarrow> byte \<Rightarrow> snap_event list \<Rightarrow> device \<Rightarrow> ((snap_fault device_fault + bytes) \<times> device) option" where
  "Snapshot net parser l channel events m = WithClient net (snap_result parser l channel events) m"

definition siren_command :: "(nat \<Rightarrow> link) \<Rightarrow> byte \<Rightarrow> bool \<Rightarrow> client \<Rightarrow> ((client_error + unit) \<times> client) option" where
  "siren_command ls channel on c =
     do { (err, c) \<leftarrow> Siren (ls 0) channel (boolToInt on) c;
          (case err of
             None \<Rightarrow> Some (Inr (), c)
           | Some e \<Rightarrow>
               if on \<and> status_of e \<noteq> None then done_or (SirenTimes (ls 1) channel 2 c) else Some (Inl e, c)) }"

definition SetSiren :: "network \<Rightarrow> (nat \<Rightarrow> link) \<Rightarrow> byte \<Rightarrow> bool \<Rightarrow> device \<Rightarrow> unit control" where
  "SetSiren net ls channel on m = WithClient net (siren_command ls channel on) m"

definition SetWhiteLed_control :: "network \<Rightarrow> link \<Rightarrow> byte \<Rightarrow> bool \<Rightarrow> device \<Rightarrow> unit control" where
  "SetWhiteLed_control net l channel on m = WithClient net (\<lambda>c. done_or (SetWhiteLed l channel (boolToInt on) c)) m"

definition PTZ :: "network \<Rightarrow> link \<Rightarrow> byte \<Rightarrow> string \<Rightarrow> int \<Rightarrow> device \<Rightarrow> unit control" where
  "PTZ net l channel command speed m = WithClient net (\<lambda>c. done_or (PTZControl l channel command speed c)) m"

definition PTZPreset_control :: "network \<Rightarrow> link \<Rightarrow> byte \<Rightarrow> int \<Rightarrow> device \<Rightarrow> unit control" where
  "PTZPreset_control net l channel preset m = WithClient net (\<lambda>c. done_or (PTZPreset l channel preset c)) m"

definition PTZPresets ::
  "network \<Rightarrow> xml_parser \<Rightarrow> link \<Rightarrow> byte \<Rightarrow> device \<Rightarrow> (int \<times> string) list report_control" where
  "PTZPresets net parser l channel m = WithClient net (GetPTZPresets parser l channel) m"

definition PlayQuickReply_control :: "network \<Rightarrow> link \<Rightarrow> byte \<Rightarrow> int \<Rightarrow> device \<Rightarrow> unit control" where
  "PlayQuickReply_control net l channel file m = WithClient net (\<lambda>c. done_or (PlayQuickReply l channel file c)) m"

definition Reboot_control :: "network \<Rightarrow> link \<Rightarrow> byte \<Rightarrow> device \<Rightarrow> unit control" where
  "Reboot_control net l channel m = WithClient net (\<lambda>c. done_or (Reboot l channel c)) m"

datatype capability_fault = CapabilityReport report_fault | NoSuchChannel byte

definition capability_command ::
  "xml_parser \<Rightarrow> link \<Rightarrow> byte \<Rightarrow> client \<Rightarrow> ((capability_fault + capabilities) \<times> client) option" where
  "capability_command parser l channel c =
     map_option
       (\<lambda>(r, c). (case r of
          Inl f \<Rightarrow> Inl (CapabilityReport f)
        | Inr support \<Rightarrow> (case CapabilitiesFor channel support of None \<Rightarrow> Inl (NoSuchChannel channel) | Some caps \<Rightarrow> Inr caps), c))
       (GetSupport parser l c)"

definition Capabilities ::
  "network \<Rightarrow> xml_parser \<Rightarrow> link \<Rightarrow> byte \<Rightarrow> device \<Rightarrow> ((capability_fault device_fault + capabilities) \<times> device) option" where
  "Capabilities net parser l channel m = WithClient net (capability_command parser l channel) m"

section \<open>What a control does to the connection\<close>

lemma WithClient_steps:
  assumes "dev_inv m" "fn_latches fn" "WithClient net fn m = Some (r, m')"
  shows "device_steps m m'"
proof -
  obtain q m1 where en: "Ensure net m = Some (q, m1)"
    using assms(3) by (auto simp: WithClient_def split: Option.bind_splits)
  show ?thesis
  proof (cases q)
    case (Inl e)
    then show ?thesis using assms(3) en step_ensure [OF en] by (auto simp: WithClient_def)
  next
    case (Inr i)
    then obtain res c where fn: "fn (conn m1 i) = Some (res, c)"
      and m': "m' = set_conn i c m1 \<or> m' = ResetIfCurrent (Some i) (set_conn i c m1)"
      using assms(3) en by (auto simp: WithClient_def Let_def split: Option.bind_splits sum.splits if_splits)
    have "goes i m1 (set_conn i c m1)" using assms(2) fn by (auto simp: fn_latches_def intro: goes_conn)
    then have "goes i m1 m'" using m' goes_trans [OF _ goes_reset] by blast
    then show ?thesis using Ensure_goes en assms(1) Inr by blast
  qed
qed

text \<open>A control that fails does not cost the connection: whatever error the command returns, as long as
  the client is alive afterwards the device keeps it and reports no change, so the streams and the
  event listener that share it go on; a client that died during the command is dropped and reported
  once, unless it had gone to sleep.\<close>

theorem failed_control_keeps_connection:
  assumes "up i m" "fn (conn m i) = Some (Inl e, c)"
  shows "\<exists>m'. WithClient net fn m = Some (Inl (CommandFault e), m') \<and>
    (if closeErr c = None then up i m' \<and> state_log m' = state_log m
     else dvClient m' = None \<and>
       state_log m' = (if dvNotify m \<and> \<not> ended_idle c then state_log m @ [False] else state_log m))"
proof -
  have i: "dvClient m = Some i" "i < length (dvConns m)" using assms(1) by (simp_all add: up_def)
  have run: "WithClient net fn m = Some (Inl (CommandFault e),
      if closeErr c \<noteq> None then ResetIfCurrent (Some i) (set_conn i c m) else set_conn i c m)"
    using assms(2) by (simp add: WithClient_def up_Ensure [OF assms(1)])
  show ?thesis
  proof (cases "closeErr c")
    case None
    then show ?thesis using run i by (simp add: up_def)
  next
    case (Some f)
    have "closeLocked (set_conn i c m) = (if ended_idle c
        then (set_conn i (client_close c) (set_conn i c m))\<lparr>dvClient := None\<rparr>
        else notifyState False ((set_conn i (client_close c) (set_conn i c m))\<lparr>dvClient := None\<rparr>))"
      using i Some by (simp add: closeLocked_def ended_idle_def Let_def)
    then show ?thesis using run i Some by (simp add: ResetIfCurrent_def)
  qed
qed

text \<open>A refusal of the continuous siren makes two soundings decide.\<close>

lemma siren_falls_back:
  assumes "Siren (ls 0) channel (boolToInt on) c = Some (err, c1)" "SirenTimes (ls 1) channel 2 c1 = Some (err2, c2)"
  shows "siren_command ls channel on c =
    (if on \<and> (\<exists>e code. err = Some e \<and> status_of e = Some code)
     then Some (case err2 of None \<Rightarrow> Inr () | Some e \<Rightarrow> Inl e, c2)
     else Some (case err of None \<Rightarrow> Inr () | Some e \<Rightarrow> Inl e, c1))"
  using assms by (auto simp: siren_command_def done_or_def split: option.splits)

theorem failed_control_keeps_connection_witness:
  "\<exists>m'. WithClient (demo_network 0) (\<lambda>c. Some (Inl (StatusError 18 400) :: client_error + unit, c)) demo_up =
     Some (Inl (CommandFault (StatusError 18 400)), m') \<and> up 0 m'"
proof -
  have alive: "up 0 demo_up" "closeErr (conn demo_up 0) = None"
    by (simp_all add: up_def demo_up_def demo_device_def newCameraDevice_def new_client_def)
  show ?thesis
    using failed_control_keeps_connection [OF alive(1), of "\<lambda>c. Some (Inl (StatusError 18 400) :: client_error + unit, c)"
        "StatusError 18 400" "conn demo_up 0" "demo_network 0"] alive(2)
    by auto
qed

end
