(* ===== verification/Sessions.thy ===== *)
theory Sessions
  imports Rtsp
begin

text \<open>
  What the calls of a stream's loop, preparing, resetting and writing, do to the session of its handler
  and of the mirrors (\<^verbatim>\<open>pkg/bridge/rtsp.go\<close>): the effect of each on the medias described, and that each
  returns where mirrors are one level deep, as the bridge sets them up.
\<close>

section \<open>The effects\<close>

text \<open>The parts of the handlers that the stream's own calls leave alone.\<close>

definition same_wiring :: "rtsp \<Rightarrow> rtsp \<Rightarrow> bool" where
  "same_wiring w w' = (\<forall>x. mirrors (handlers w' x) = mirrors (handlers w x)
     \<and> attached (handlers w' x) = attached (handlers w x) \<and> extras (handlers w' x) = extras (handlers w x))"

lemma same_wiring_refl [simp]: "same_wiring w w"
  by (simp add: same_wiring_def)

lemma same_wiring_trans: "same_wiring u v \<Longrightarrow> same_wiring v w \<Longrightarrow> same_wiring u w"
  by (simp add: same_wiring_def)

lemma flat_wiring: "same_wiring w w' \<Longrightarrow> flat hs w' = flat hs w"
  by (simp add: flat_def same_wiring_def)

lemma flat_mirrors_wiring:
  "same_wiring w w' \<Longrightarrow> flat (mirrors (handlers w' h)) w' = flat (mirrors (handlers w h)) w"
  using flat_wiring by (simp add: same_wiring_def)

lemma reset_effect:
  assumes "reset_list todo w = Some w'"
  shows "same_wiring w w' \<and> (\<forall>x. shStream (handlers w' x) = None \<or> shStream (handlers w' x) = shStream (handlers w x))
    \<and> (\<forall>x \<in> set todo. shStream (handlers w' x) = None)"
proof (rule reset_list.raw_induct [where P = "\<lambda>todo w w'. same_wiring w w'
    \<and> (\<forall>x. shStream (handlers w' x) = None \<or> shStream (handlers w' x) = shStream (handlers w x))
    \<and> (\<forall>x \<in> set todo. shStream (handlers w' x) = None)", OF _ assms])
  fix rec todo w w'
  assume IH: "\<And>todo w w'. rec todo w = Some w' \<Longrightarrow> same_wiring w w'
      \<and> (\<forall>x. shStream (handlers w' x) = None \<or> shStream (handlers w' x) = shStream (handlers w x))
      \<and> (\<forall>x \<in> set todo. shStream (handlers w' x) = None)"
    and body: "(case todo of [] \<Rightarrow> Some w
      | h # hs \<Rightarrow> rec (mirrors (handlers w h) @ hs) (upd_handler h (\<lambda>sh. sh\<lparr>shStream := None\<rparr>) w)) = Some w'"
  show "same_wiring w w' \<and> (\<forall>x. shStream (handlers w' x) = None \<or> shStream (handlers w' x) = shStream (handlers w x))
    \<and> (\<forall>x \<in> set todo. shStream (handlers w' x) = None)"
  proof (cases todo)
    case (Cons h hs)
    let ?u = "upd_handler h (\<lambda>sh. sh\<lparr>shStream := None\<rparr>) w"
    have "rec (mirrors (handlers w h) @ hs) ?u = Some w'" using body Cons by simp
    note r = IH [OF this]
    have "same_wiring w ?u" by (simp add: same_wiring_def)
    then have "same_wiring w w'" using r same_wiring_trans by blast
    moreover have "shStream (handlers w' x) = None \<or> shStream (handlers w' x) = shStream (handlers w x)" for x
      using r by (auto split: if_splits)
    moreover have "shStream (handlers w' h) = None" using r by auto
    ultimately show ?thesis using r Cons by auto
  qed (use body in simp)
qed

lemma setReady_effect:
  assumes "setReady_list init ms todo w = Some r"
  shows "same_wiring w (snd r)
    \<and> (\<forall>x. shStream (handlers (snd r) x) = shStream (handlers w x)
        \<or> shStream (handlers w x) = None \<and> shStream (handlers (snd r) x) = Some (somes ms @ extras (handlers w x)))
    \<and> (fst r = None \<longrightarrow> (\<forall>x \<in> set todo. shStream (handlers (snd r) x) \<noteq> None))"
proof (rule setReady_list.raw_induct [where P = "\<lambda>init ms todo w r. same_wiring w (snd r)
    \<and> (\<forall>x. shStream (handlers (snd r) x) = shStream (handlers w x)
        \<or> shStream (handlers w x) = None \<and> shStream (handlers (snd r) x) = Some (somes ms @ extras (handlers w x)))
    \<and> (fst r = None \<longrightarrow> (\<forall>x \<in> set todo. shStream (handlers (snd r) x) \<noteq> None))", OF _ assms])
  fix rec init ms todo w r
  assume IH: "\<And>init ms todo w r. rec init ms todo w = Some r \<Longrightarrow> same_wiring w (snd r)
      \<and> (\<forall>x. shStream (handlers (snd r) x) = shStream (handlers w x)
          \<or> shStream (handlers w x) = None \<and> shStream (handlers (snd r) x) = Some (somes ms @ extras (handlers w x)))
      \<and> (fst r = None \<longrightarrow> (\<forall>x \<in> set todo. shStream (handlers (snd r) x) \<noteq> None))"
    and body: "(case todo of [] \<Rightarrow> Some (None, w)
      | h # hs \<Rightarrow> (case ready_own init ms h w of Inl e \<Rightarrow> Some (Some e, w)
          | Inr w' \<Rightarrow> rec init ms (mirrors (handlers w h) @ hs) w')) = Some r"
  show "same_wiring w (snd r)
    \<and> (\<forall>x. shStream (handlers (snd r) x) = shStream (handlers w x)
        \<or> shStream (handlers w x) = None \<and> shStream (handlers (snd r) x) = Some (somes ms @ extras (handlers w x)))
    \<and> (fst r = None \<longrightarrow> (\<forall>x \<in> set todo. shStream (handlers (snd r) x) \<noteq> None))"
  proof (cases todo)
    case (Cons h hs)
    show ?thesis
    proof (cases "ready_own init ms h w")
      case (Inr u)
      have "rec init ms (mirrors (handlers w h) @ hs) u = Some r" using body Cons Inr by simp
      note r = IH [OF this]
      have u: "same_wiring w u" "shStream (handlers u h) \<noteq> None"
        and ux: "shStream (handlers u x) = shStream (handlers w x)
          \<or> shStream (handlers w x) = None \<and> shStream (handlers u x) = Some (somes ms @ extras (handlers w x))" for x
        using Inr by (auto simp: ready_own_def Let_def same_wiring_def split: if_splits)
      have "same_wiring w (snd r)" using r u(1) same_wiring_trans by blast
      moreover have "shStream (handlers (snd r) x) = shStream (handlers w x)
          \<or> shStream (handlers w x) = None \<and> shStream (handlers (snd r) x) = Some (somes ms @ extras (handlers w x))" for x
      proof -
        have "extras (handlers u x) = extras (handlers w x)" using u(1) by (simp add: same_wiring_def)
        moreover have "shStream (handlers (snd r) x) = shStream (handlers u x)
            \<or> shStream (handlers u x) = None \<and> shStream (handlers (snd r) x) = Some (somes ms @ extras (handlers u x))"
          using r by blast
        ultimately show ?thesis using ux [of x] by presburger
      qed
      moreover have "shStream (handlers (snd r) h) \<noteq> None" using r u(2) by (metis option.distinct(1))
      ultimately show ?thesis using r Cons by auto
    qed (use body Cons in auto)
  qed (use body in auto)
qed

lemma write_effect:
  assumes "write_list m pkt todo w = Some w'"
  shows "same_wiring w w' \<and> (\<forall>x. shStream (handlers w' x) = shStream (handlers w x))"
proof (rule write_list.raw_induct [where P = "\<lambda>m pkt todo w w'. same_wiring w w'
    \<and> (\<forall>x. shStream (handlers w' x) = shStream (handlers w x))", OF _ assms])
  fix rec m pkt todo w w'
  assume IH: "\<And>m pkt todo w w'. rec m pkt todo w = Some w' \<Longrightarrow>
      same_wiring w w' \<and> (\<forall>x. shStream (handlers w' x) = shStream (handlers w x))"
    and body: "(case todo of [] \<Rightarrow> Some w
      | h # hs \<Rightarrow> rec m pkt (mirrors (handlers w h) @ hs) (write_own m pkt h w)) = Some w'"
  have own: "same_wiring w (write_own m pkt h w)" "shStream (handlers (write_own m pkt h w) x) = shStream (handlers w x)" for h x
    by (auto simp: write_own_def same_wiring_def split: option.splits)
  show "same_wiring w w' \<and> (\<forall>x. shStream (handlers w' x) = shStream (handlers w x))"
    using body own by (cases todo) (auto dest!: IH intro: same_wiring_trans)
qed

text \<open>Packets written one after the other.\<close>

fun write_packets :: "nat \<Rightarrow> rtp_packet list \<Rightarrow> nat \<Rightarrow> rtsp \<Rightarrow> rtsp option" where
  "write_packets m [] h w = Some w"
| "write_packets m (pkt # pkts) h w = do { w \<leftarrow> writePacket m pkt h w; write_packets m pkts h w }"

lemma write_packets_effect:
  "write_packets m pkts h w = Some w' \<Longrightarrow> same_wiring w w' \<and> shStream (handlers w' x) = shStream (handlers w x)"
proof (induction pkts arbitrary: w)
  case (Cons pkt pkts)
  then obtain u where u: "writePacket m pkt h w = Some u" "write_packets m pkts h u = Some w'"
    by (auto split: Option.bind_splits)
  show ?case using Cons.IH [OF u(2)] write_effect [OF u(1) [unfolded writePacket_def]] by (auto intro: same_wiring_trans)
qed simp

text \<open>Preparing and resetting write nothing.\<close>

lemma reset_sent:
  assumes "reset_list todo w = Some w'"
  shows "shSent (handlers w' x) = shSent (handlers w x)"
proof (rule reset_list.raw_induct [where P = "\<lambda>todo w w'. shSent (handlers w' x) = shSent (handlers w x)", OF _ assms])
  fix rec todo w w'
  assume "\<And>todo w w'. rec todo w = Some w' \<Longrightarrow> shSent (handlers w' x) = shSent (handlers w x)"
    and "(case todo of [] \<Rightarrow> Some w
      | h # hs \<Rightarrow> rec (mirrors (handlers w h) @ hs) (upd_handler h (\<lambda>sh. sh\<lparr>shStream := None\<rparr>) w)) = Some w'"
  then show "shSent (handlers w' x) = shSent (handlers w x)" by (cases todo) auto
qed

lemma setReady_sent:
  assumes "setReady_list init ms todo w = Some r"
  shows "shSent (handlers (snd r) x) = shSent (handlers w x)"
proof (rule setReady_list.raw_induct [where P = "\<lambda>init ms todo w r. shSent (handlers (snd r) x) = shSent (handlers w x)", OF _ assms])
  fix rec init ms todo w r
  assume IH: "\<And>init ms todo w r. rec init ms todo w = Some r \<Longrightarrow> shSent (handlers (snd r) x) = shSent (handlers w x)"
    and body: "(case todo of [] \<Rightarrow> Some (None, w)
      | h # hs \<Rightarrow> (case ready_own init ms h w of Inl e \<Rightarrow> Some (Some e, w)
          | Inr w' \<Rightarrow> rec init ms (mirrors (handlers w h) @ hs) w')) = Some r"
  have "ready_own init ms h w = Inr u \<Longrightarrow> shSent (handlers u x) = shSent (handlers w x)" for h u
    by (auto simp: ready_own_def Let_def split: if_splits)
  then show "shSent (handlers (snd r) x) = shSent (handlers w x)"
    using body IH by (auto split: list.splits sum.splits)
qed

text \<open>With mirrors one level deep every one of these calls returns.\<close>

lemma reset_list_total: "flat hs w \<Longrightarrow> \<exists>w'. reset_list hs w = Some w'"
proof (induction hs arbitrary: w)
  case (Cons h hs)
  have "flat hs (upd_handler h (\<lambda>sh. sh\<lparr>shStream := None\<rparr>) w)" using Cons.prems by (simp add: flat_def)
  then show ?case using Cons by (simp add: reset_list.simps [of "h # hs"] flat_def)
qed (simp add: reset_list.simps)

lemma reset_total:
  assumes "flat (mirrors (handlers w h)) w"
  shows "\<exists>w'. reset h w = Some w'"
proof -
  have "flat (mirrors (handlers w h)) (upd_handler h (\<lambda>sh. sh\<lparr>shStream := None\<rparr>) w)"
    using assms by (simp add: flat_def)
  from reset_list_total [OF this] show ?thesis by (simp add: reset_def reset_list.simps [of "[h]"])
qed

lemma ready_own_wiring: "ready_own init ms h w = Inr u \<Longrightarrow> same_wiring w u"
  by (auto simp: ready_own_def Let_def same_wiring_def split: if_splits)

lemma setReady_list_total: "flat hs w \<Longrightarrow> \<exists>r. setReady_list init ms hs w = Some r"
proof (induction hs arbitrary: w)
  case (Cons h hs)
  have "flat hs u" if "ready_own init ms h w = Inr u" for u
    using Cons.prems flat_wiring [OF ready_own_wiring [OF that]] by (simp add: flat_def)
  then show ?case using Cons by (auto simp: setReady_list.simps [of init ms "h # hs"] flat_def split: sum.split)
qed (simp add: setReady_Nil)

lemma setReady_total:
  assumes "flat (mirrors (handlers w h)) w"
  shows "\<exists>err w'. setReady init ms h w = Some (err, w')"
proof -
  have "\<exists>r. setReady init ms h w = Some r"
    using setReady_list_total assms flat_wiring [OF ready_own_wiring]
    by (auto simp: setReady_def setReady_list.simps [of init ms "[h]"] split: sum.split)
  then show ?thesis by auto
qed

lemma write_own_wiring: "same_wiring w (write_own m pkt h w)"
  by (auto simp: write_own_def same_wiring_def split: option.splits)

lemma write_list_total: "flat hs w \<Longrightarrow> \<exists>w'. write_list m pkt hs w = Some w'"
proof (induction hs arbitrary: w)
  case (Cons h hs)
  have "flat hs (write_own m pkt h w)" using Cons.prems flat_wiring [OF write_own_wiring] by (simp add: flat_def)
  then show ?case using Cons by (simp add: write_list.simps [of m pkt "h # hs"] flat_def)
qed (simp add: write_Nil)

lemma write_packets_total: "flat (mirrors (handlers w h)) w \<Longrightarrow> \<exists>w'. write_packets m pkts h w = Some w'"
proof (induction pkts arbitrary: w)
  case (Cons pkt pkts)
  have "flat (mirrors (handlers w h)) (write_own m pkt h w)" using Cons.prems flat_wiring [OF write_own_wiring] by simp
  then obtain u where "write_list m pkt (mirrors (handlers w h)) (write_own m pkt h w) = Some u"
    using write_list_total by blast
  then have u: "writePacket m pkt h w = Some u"
    by (simp add: writePacket_def write_list.simps [of m pkt "[h]"])
  have "same_wiring w u" using write_effect [OF u [unfolded writePacket_def]] by blast
  then have "flat (mirrors (handlers u h)) u" using Cons.prems flat_mirrors_wiring by simp
  then show ?case using Cons.IH u by simp
qed simp

text \<open>A session is made when every handler concerned is attached and the library agrees.\<close>

lemma ready_own_succeeds:
  "attached (handlers w h) \<Longrightarrow> init h \<Longrightarrow> somes ms \<noteq> [] \<Longrightarrow> \<exists>u. ready_own init ms h w = Inr u"
  by (simp add: ready_own_def Let_def)

lemma setReady_list_succeeds:
  "flat hs w \<Longrightarrow> \<forall>x \<in> set hs. attached (handlers w x) \<and> init x \<Longrightarrow> somes ms \<noteq> [] \<Longrightarrow>
   \<exists>w'. setReady_list init ms hs w = Some (None, w')"
proof (induction hs arbitrary: w)
  case (Cons h hs)
  obtain u where u: "ready_own init ms h w = Inr u"
    using Cons.prems ready_own_succeeds [of w h init ms] by auto
  then have "flat hs u" "\<forall>x \<in> set hs. attached (handlers u x) \<and> init x"
    using Cons.prems ready_own_wiring [OF u] by (simp_all add: flat_def same_wiring_def)
  then show ?case using Cons u by (simp add: setReady_list.simps [of init ms "h # hs"] flat_def)
qed (simp add: setReady_Nil)

lemma setReady_succeeds:
  assumes "flat (mirrors (handlers w h)) w" "somes ms \<noteq> []"
    and "\<forall>x \<in> insert h (set (mirrors (handlers w h))). attached (handlers w x) \<and> init x"
  shows "\<exists>w'. setReady init ms h w = Some (None, w')"
proof -
  obtain u where u: "ready_own init ms h w = Inr u"
    using assms ready_own_succeeds [of w h init ms] by auto
  have "flat (mirrors (handlers w h)) u" "\<forall>x \<in> set (mirrors (handlers w h)). attached (handlers u x) \<and> init x"
    using assms(1,3) flat_wiring [OF ready_own_wiring [OF u]] ready_own_wiring [OF u] by (simp_all add: same_wiring_def)
  then show ?thesis
    using setReady_list_succeeds [OF _ _ assms(2)] u by (simp add: setReady_def setReady_list.simps [of init ms "[h]"])
qed

text \<open>What the handler itself is given when packets of a media it carries are written.\<close>

lemma write_list_other: "flat hs w \<Longrightarrow> h \<notin> set hs \<Longrightarrow> write_list m pkt hs w = Some w' \<Longrightarrow> handlers w' h = handlers w h"
proof (induction hs arbitrary: w)
  case (Cons x hs)
  have "flat hs (write_own m pkt x w)" using Cons.prems(1) flat_wiring [OF write_own_wiring] by (simp add: flat_def)
  moreover have "write_list m pkt hs (write_own m pkt x w) = Some w'"
    using Cons.prems by (simp add: write_list.simps [of m pkt "x # hs"] flat_def)
  ultimately have "handlers w' h = handlers (write_own m pkt x w) h" using Cons by simp
  then show ?case using Cons.prems(2) by (simp add: write_own_handler)
qed (simp add: write_Nil)

lemma write_packets_own:
  "flat (mirrors (handlers w h)) w \<Longrightarrow> shStream (handlers w h) = Some ms \<Longrightarrow> m \<in> set ms \<Longrightarrow>
   write_packets m pkts h w = Some w' \<Longrightarrow> shSent (handlers w' h) = rev (map (Pair m) pkts) @ shSent (handlers w h)"
proof (induction pkts arbitrary: w)
  case (Cons pkt pkts)
  let ?v = "write_own m pkt h w"
  obtain u where u: "writePacket m pkt h w = Some u" "write_packets m pkts h u = Some w'"
    using Cons.prems(4) by (auto split: Option.bind_splits)
  have l: "write_list m pkt (mirrors (handlers w h)) ?v = Some u"
    using u(1) by (simp add: writePacket_def write_list.simps [of m pkt "[h]"])
  have v: "flat (mirrors (handlers w h)) ?v" using Cons.prems(1) flat_wiring [OF write_own_wiring] by simp
  have "h \<notin> set (mirrors (handlers w h))" using Cons.prems(1) by (auto simp: flat_def)
  then have h: "handlers u h = handlers ?v h" using write_list_other [OF v _ l] by simp
  then have "shSent (handlers u h) = (m, pkt) # shSent (handlers w h)"
    "shStream (handlers u h) = Some ms" "mirrors (handlers u h) = mirrors (handlers w h)"
    using Cons.prems(2,3) by (simp_all add: write_own_handler)
  moreover have "flat (mirrors (handlers w h)) u" using v write_effect [OF l] flat_wiring by blast
  ultimately show ?case using Cons.IH [of u] u(2) Cons.prems(3) by simp
qed simp

end
