(* ===== verification/AudioTrack.thy ===== *)
theory AudioTrack
  imports Device Timeline Translator Sessions
begin

text \<open>
  The audio track of a stream: \<^verbatim>\<open>audioPublisher\<close> of \<^verbatim>\<open>pkg/bridge/rtsp.go\<close>, which decides what audio a
  stream carries, declares it, and publishes the packets. The RTP encoders and the ADTS parser are
  library code: a record of functions that every call is given, so that they may answer differently
  each time. A media is the number of its object.
\<close>

section \<open>What the track needs from outside\<close>

record aac_config =
  acType :: nat
  acRate :: int
  acChannels :: byte

datatype audio_format = FormatAAC aac_config | FormatG711 int int

text \<open>
  An encoder's answer: \<open>None\<close> is a panic, \<open>Some None\<close> an error; the flag says whether there is an encoder
  at all or the receiver is nil. \<open>initOk\<close> is \<^verbatim>\<open>Initialize\<close> of the stream of a handler.
\<close>

record rtp_library =
  aacCreate :: "aac_config \<Rightarrow> bool"
  g711Create :: bool
  videoCreate :: "string \<Rightarrow> bool"
  aacEncode :: "bool \<Rightarrow> bytes list \<Rightarrow> rtp_packet list option option"
  g711Encode :: "bool \<Rightarrow> bytes \<Rightarrow> rtp_packet list option option"
  videoEncode :: "string \<Rightarrow> bytes list \<Rightarrow> rtp_packet list option"
  videoClock :: "string \<Rightarrow> int"
  samplesPerAU :: u32
  aacLC :: nat
  adts :: "bytes \<Rightarrow> aac_config adts_packet list option"
  initOk :: "nat \<Rightarrow> bool"

text \<open>
  What a stream shares with the rest of the bridge: its handler, the name of its profile, the server,
  the camera's device, its metadata, the hints handed to the consumer (newest first), the formats of
  the audio medias made so far, and the request to rebuild the session.
\<close>

record scene =
  scHandler :: nat
  scStream :: string
  scRtsp :: rtsp
  scDevice :: device
  scMeta :: stream_meta
  scHints :: "audio_hint list"
  scFormats :: "nat \<rightharpoonup> audio_format"
  scNextMedia :: nat
  scRebuild :: bool

abbreviation exposed :: "scene \<Rightarrow> bool" where
  "exposed sc \<equiv> handler_ready (scHandler sc) (scRtsp sc)"

section \<open>Timestamps\<close>

definition rtpTimestampForClock :: "u64 \<Rightarrow> int \<Rightarrow> u32" where
  "rtpTimestampForClock us clockRate =
     (let seconds = us div 1000000; rem = us mod 1000000
      in ucast (seconds * word_of_int clockRate + rem * word_of_int clockRate div 1000000))"

definition rtpTimestampForMediaTime :: "mediaTimestamp \<Rightarrow> int \<Rightarrow> u32 option" where
  "rtpTimestampForMediaTime ts clockRate =
     (if \<not> Valid ts then None else Some (rtpTimestampForClock (Microseconds ts) clockRate))"

section \<open>The publisher\<close>

record audio_publisher =
  apMedia :: "nat option"
  apAac :: bool
  apG711 :: bool
  apDecoder :: "adpcm option"
  apNext :: u32
  apAnchored :: bool
  apRate :: int
  apChans :: int
  apPublished :: bool
  apGuard :: rtpTimestampGuard
  apUnsupported :: bool
  apRebuildAsked :: bool

definition fresh_guard :: rtpTimestampGuard where
  "fresh_guard = \<lparr>rtpOffset = 0, rtpLast = 0, rtpSet = False\<rparr>"

definition new_publisher :: audio_publisher where
  "new_publisher = \<lparr>apMedia = None, apAac = False, apG711 = False, apDecoder = None, apNext = 0,
     apAnchored = False, apRate = 0, apChans = 0, apPublished = False, apGuard = fresh_guard,
     apUnsupported = False, apRebuildAsked = False\<rparr>"

definition aacChannelConfig :: "int \<Rightarrow> byte" where
  "aacChannelConfig chans =
     (if chans = 8 then 7 else if 1 \<le> chans \<and> chans \<le> 6 then word_of_int chans else 0)"

definition track_ready :: "audio_publisher \<Rightarrow> bool" where
  "track_ready p = (apMedia p \<noteq> None \<and> (apAac p \<or> apG711 p))"

definition mediaDescription :: "audio_publisher \<Rightarrow> nat option" where
  "mediaDescription p = apMedia p"

text \<open>A new media object of a format.\<close>

definition new_media :: "audio_format \<Rightarrow> scene \<Rightarrow> nat \<times> scene" where
  "new_media f sc =
     (scNextMedia sc, sc\<lparr>scFormats := (scFormats sc)(scNextMedia sc \<mapsto> f), scNextMedia := scNextMedia sc + 1\<rparr>)"

definition declareAAC :: "rtp_library \<Rightarrow> int \<Rightarrow> int \<Rightarrow> audio_publisher \<Rightarrow> scene \<Rightarrow> (audio_publisher \<times> scene) option" where
  "declareAAC lib rate chans p sc =
     (let c = \<lparr>acType = aacLC lib, acRate = rate, acChannels = aacChannelConfig chans\<rparr> in
      if \<not> aacCreate lib c then None
      else case new_media (FormatAAC c) sc of
        (m, sc) \<Rightarrow> Some (p\<lparr>apMedia := Some m, apAac := True, apRate := rate, apChans := chans\<rparr>, sc))"

definition mismatchesDeclared :: "int \<Rightarrow> int \<Rightarrow> audio_publisher \<Rightarrow> bool" where
  "mismatchesDeclared rate chans p = (apRate p \<noteq> 0 \<and> (apRate p \<noteq> rate \<or> apChans p \<noteq> chans))"

definition dropDeclaration :: "audio_publisher \<Rightarrow> audio_publisher" where
  "dropDeclaration p = p\<lparr>apMedia := None, apAac := False, apG711 := False, apRate := 0, apChans := 0\<rparr>"

definition track_hint :: "audio_publisher \<Rightarrow> audio_hint" where
  "track_hint p =
     (if \<not> track_ready p then no_hint
      else if apAac p then \<lparr>hintCodec = ''aac'', hintSampleRate = apRate p, hintChannels = apChans p\<rparr>
      else \<lparr>hintCodec = ''pcma'', hintSampleRate = apRate p, hintChannels = apChans p\<rparr>)"

text \<open>The callback \<^verbatim>\<open>onLateAudio\<close> is the one \<^verbatim>\<open>runStream\<close> installs.\<close>

definition onLateAudio :: "scene \<Rightarrow> scene" where
  "onLateAudio sc = sc\<lparr>scDevice := setAudioKnown (scStream sc) True (scDevice sc), scRebuild := True\<rparr>"

definition requestRebuildIfLate :: "audio_publisher \<Rightarrow> scene \<Rightarrow> audio_publisher \<times> scene" where
  "requestRebuildIfLate p sc =
     (if \<not> exposed sc \<or> apRebuildAsked p then (p, sc) else (p\<lparr>apRebuildAsked := True\<rparr>, onLateAudio sc))"

definition awaitingStartupDecision :: "int \<Rightarrow> int \<Rightarrow> audio_publisher \<Rightarrow> bool" where
  "awaitingStartupDecision now deadline p = (\<not> track_ready p \<and> \<not> apUnsupported p \<and> now < deadline)"

definition markUnsupported_audio :: "audio_publisher \<Rightarrow> audio_publisher" where
  "markUnsupported_audio p = (if apUnsupported p then p else p\<lparr>apUnsupported := True\<rparr>)"

text \<open>The first timestamp of a track that is set up: the one expected, or zero.\<close>

definition first_timestamp :: "u32 option \<Rightarrow> u32" where
  "first_timestamp expected = (case expected of None \<Rightarrow> 0 | Some t \<Rightarrow> t)"

section \<open>Publishing\<close>

text \<open>A nil media is in no session, so nothing is written for it.\<close>

definition write_audio :: "nat option \<Rightarrow> rtp_packet list \<Rightarrow> scene \<Rightarrow> scene option" where
  "write_audio media pkts sc =
     (case media of
        None \<Rightarrow> Some sc
      | Some m \<Rightarrow> map_option (\<lambda>w. sc\<lparr>scRtsp := w\<rparr>) (write_packets m pkts (scHandler sc) (scRtsp sc)))"

definition stamped :: "u32 \<Rightarrow> rtp_packet list \<Rightarrow> rtp_packet list" where
  "stamped base pkts = map (\<lambda>pkt. pkt\<lparr>rtpTimestamp := rtpTimestamp pkt + base\<rparr>) pkts"

definition audio_base :: "mediaTimestamp \<Rightarrow> u32 option \<Rightarrow> audio_publisher \<Rightarrow> u32 \<times> audio_publisher" where
  "audio_base ts expected p =
     (case expected of
        None \<Rightarrow> (apNext p, p)
      | Some e \<Rightarrow> if Authoritative ts \<or> \<not> apAnchored p then (e, p\<lparr>apAnchored := True\<rparr>) else (apNext p, p))"

text \<open>The end of both \<^verbatim>\<open>processAAC\<close> and \<^verbatim>\<open>processADPCM\<close>: the packets placed on the track's clock and written.\<close>

definition publish_audio ::
  "rtp_packet list \<Rightarrow> u32 \<Rightarrow> mediaTimestamp \<Rightarrow> u32 option \<Rightarrow> audio_publisher \<Rightarrow> scene \<Rightarrow> (audio_publisher \<times> scene) option" where
  "publish_audio pkts duration ts expected p sc =
     (let (base, p) = audio_base ts expected p;
          (base, g) = applyBaseToPackets (map rtpTimestamp pkts) base duration (apGuard p)
      in map_option (\<lambda>sc. (p\<lparr>apGuard := g, apPublished := True, apNext := base + duration\<rparr>, sc))
           (write_audio (apMedia p) (stamped base pkts) sc))"

datatype audio_error = CreateFailed | EncodeFailed

type_synonym audio_result = "(audio_error option \<times> audio_publisher \<times> scene) option"

text \<open>What happens to the packets of an encoder.\<close>

definition encoded_audio ::
  "rtp_packet list option \<Rightarrow> u32 \<Rightarrow> mediaTimestamp \<Rightarrow> u32 option \<Rightarrow> audio_publisher \<Rightarrow> scene \<Rightarrow> audio_result" where
  "encoded_audio pkts duration ts expected p sc =
     (case pkts of
        None \<Rightarrow> Some (Some EncodeFailed, p, sc)
      | Some pkts \<Rightarrow> map_option (Pair None) (publish_audio pkts duration ts expected p sc))"

definition configureAAC ::
  "rtp_library \<Rightarrow> aac_config \<Rightarrow> u32 option \<Rightarrow> audio_publisher \<Rightarrow> scene \<Rightarrow> audio_error + audio_publisher \<times> scene" where
  "configureAAC lib c expected p sc =
     (if \<not> aacCreate lib c then Inl CreateFailed
      else case new_media (FormatAAC c) sc of
        (m, sc) \<Rightarrow>
          let p = p\<lparr>apMedia := Some m, apAac := True, apRate := acRate c, apChans := uint (acChannels c),
                    apNext := first_timestamp expected\<rparr>;
              sc = sc\<lparr>scMeta := setAudioAAC (acRate c) (uint (acChannels c)) (scMeta sc)\<rparr>
          in Inr (requestRebuildIfLate p sc))"

definition processAAC :: "rtp_library \<Rightarrow> bytes \<Rightarrow> mediaTimestamp \<Rightarrow> bool \<Rightarrow> audio_publisher \<Rightarrow> scene \<Rightarrow> audio_result" where
  "processAAC lib data ts publish p sc =
     (case ParseAACAccessUnits (adts lib) data of
        Inl e \<Rightarrow> Some (None, markUnsupported_audio p, sc)
      | Inr (aus, c) \<Rightarrow>
          let expected = rtpTimestampForMediaTime ts (acRate c);
              p = (if mismatchesDeclared (acRate c) (uint (acChannels c)) p then dropDeclaration p else p)
          in (case (if track_ready p then Inr (p, sc) else configureAAC lib c expected p sc) of
                Inl e \<Rightarrow> Some (Some e, p, sc)
              | Inr (p, sc) \<Rightarrow>
                  if \<not> exposed sc \<or> \<not> publish then Some (None, p, sc)
                  else do { pkts \<leftarrow> aacEncode lib (apAac p) aus;
                            encoded_audio pkts (of_nat (length aus) * samplesPerAU lib) ts expected p sc }))"

definition configureG711 ::
  "rtp_library \<Rightarrow> u32 option \<Rightarrow> audio_publisher \<Rightarrow> scene \<Rightarrow> audio_error + audio_publisher \<times> scene" where
  "configureG711 lib expected p sc =
     (if \<not> g711Create lib then Inl CreateFailed
      else case new_media (FormatG711 8000 1) sc of
        (m, sc) \<Rightarrow>
          let p = p\<lparr>apMedia := Some m, apG711 := True, apRate := 8000, apChans := 1, apNext := first_timestamp expected\<rparr>;
              sc = sc\<lparr>scMeta := setAudioG711 8000 1 (scMeta sc)\<rparr>
          in Inr (requestRebuildIfLate p sc))"

definition processADPCM :: "rtp_library \<Rightarrow> bytes \<Rightarrow> mediaTimestamp \<Rightarrow> bool \<Rightarrow> audio_publisher \<Rightarrow> scene \<Rightarrow> audio_result" where
  "processADPCM lib data ts publish p sc =
     (let d = (case apDecoder p of None \<Rightarrow> \<lparr>predicted = 0, index = 0\<rparr> | Some d \<Rightarrow> d);
          (d, pcm) = adpcm_decode d data;
          p = p\<lparr>apDecoder := Some d\<rparr>;
          expected = rtpTimestampForMediaTime ts 8000
      in do { pcma \<leftarrow> encode_pcma pcm;
              (case (if track_ready p then Inr (p, sc) else configureG711 lib expected p sc) of
                 Inl e \<Rightarrow> Some (Some e, p, sc)
               | Inr (p, sc) \<Rightarrow>
                   if \<not> exposed sc \<or> \<not> publish then Some (None, p, sc)
                   else do { pkts \<leftarrow> g711Encode lib (apG711 p) pcma;
                             encoded_audio pkts (of_nat (length pcm)) ts expected p sc }) })"

section \<open>What the publisher leaves alone\<close>

text \<open>Audio never changes what the session of a stream carries.\<close>

definition same_session :: "scene \<Rightarrow> scene \<Rightarrow> bool" where
  "same_session sc sc' = (scHandler sc' = scHandler sc \<and> scStream sc' = scStream sc
     \<and> same_wiring (scRtsp sc) (scRtsp sc') \<and> (\<forall>x. shStream (handlers (scRtsp sc') x) = shStream (handlers (scRtsp sc) x)))"

lemma same_session_refl [simp]: "same_session sc sc"
  by (simp add: same_session_def)

lemma same_session_trans: "same_session u v \<Longrightarrow> same_session v w \<Longrightarrow> same_session u w"
  by (auto simp: same_session_def intro: same_wiring_trans)

lemma same_session_exposed: "same_session sc sc' \<Longrightarrow> exposed sc' = exposed sc"
  by (simp add: same_session_def handler_ready_def)

lemma requestRebuild_same: "same_session sc (snd (requestRebuildIfLate p sc))"
  by (simp add: requestRebuildIfLate_def onLateAudio_def same_session_def)

lemma configure_same:
  "configureAAC lib c e p sc = Inr (p', sc') \<Longrightarrow> same_session sc sc'"
  "configureG711 lib e p sc = Inr (p', sc') \<Longrightarrow> same_session sc sc'"
  by (auto simp: configureAAC_def configureG711_def new_media_def Let_def requestRebuildIfLate_def onLateAudio_def
      same_session_def split: if_splits)

lemma write_audio_same: "write_audio m pkts sc = Some sc' \<Longrightarrow> same_session sc sc'"
  using write_packets_effect by (auto simp: write_audio_def same_session_def split: option.splits)

lemma encoded_audio_same: "encoded_audio pkts d ts e p sc = Some (err, p', sc') \<Longrightarrow> same_session sc sc'"
  by (auto simp: encoded_audio_def publish_audio_def Let_def split: option.splits prod.splits dest: write_audio_same)

lemma processAAC_same:
  assumes "processAAC lib data ts publish p sc = Some (err, p', sc')"
  shows "same_session sc sc'"
  using assms unfolding processAAC_def Let_def
  by (auto split: sum.splits if_splits Option.bind_splits dest!: encoded_audio_same configure_same)
     (blast intro: same_session_trans)+

lemma processADPCM_same:
  assumes "processADPCM lib data ts publish p sc = Some (err, p', sc')"
  shows "same_session sc sc'"
  using assms unfolding processADPCM_def Let_def
  by (auto split: prod.splits sum.splits if_splits Option.bind_splits dest!: encoded_audio_same configure_same)
     (blast intro: same_session_trans)+

end
