(* ===== verification/StreamRun.thy ===== *)
theory StreamRun
  imports AudioTrack
begin

text \<open>
  The loop that turns a camera's packets into an RTSP stream, \<^verbatim>\<open>runStream\<close> of
  \<^verbatim>\<open>pkg/bridge/stream_run.go\<close>: its local variables are a record, each turn of its select a step. The
  clock is read where the code reads it; \<^verbatim>\<open>firstVideo\<close> and the last size only decide what is logged and
  are left out. \<open>None\<close> is a panic or a call that does not return.
\<close>

section \<open>The state of the loop\<close>

definition audioProbeWindow :: int where "audioProbeWindow = 5 * sec"
definition audioSilentWindow :: int where "audioSilentWindow = 2 * sec"
definition audioConfirmWindow :: int where "audioConfirmWindow = 20 * sec"

text \<open>The format objects with their parameter sets, nil as \<open>None\<close>; H.264 has its SPS and PPS.\<close>

datatype video_format = FormatH265 h265_params | FormatH264 "bytes option" "bytes option"

record stream_run =
  srFormat :: "video_format option"
  srEncoder :: "string option"
  srListed :: bool
  srVideo :: nat
  srPaused :: "string option"
  srTimeline :: mediaTimeline
  srGuard :: rtpTimestampGuard
  srLastUS :: u64
  srHaveUS :: bool
  srLive :: liveEdge
  srWindow :: int
  srStartup :: "int option"
  srConfirm :: "int option"
  srDeclared :: bool
  srOnHint :: bool
  srAudio :: audio_publisher
  srScene :: scene
  srEnded :: bool

text \<open>
  What a turn is given: the library, the rounding of floats, the clock as it is read for the unwrapping (in
  microseconds), for the startup deadline, for the startup decision, when the session was exposed,
  for the confirmation of a declared track, for pausing and catching up, and for the log; whether and when to pause;
  how far the picture may fall behind.
\<close>

record turn =
  tuLib :: rtp_library
  tuRound :: "rat \<Rightarrow> rat"
  tuMicro :: int
  tuStartup :: int
  tuDecision :: int
  tuExposed :: int
  tuConfirm :: int
  tuNow :: int
  tuLog :: int
  tuPause :: pause_config
  tuCatchUp :: "int option"

definition codecMatchesFormat :: "string \<Rightarrow> video_format \<Rightarrow> bool" where
  "codecMatchesFormat codec f =
     (case f of FormatH265 q \<Rightarrow> codec = ''H265'' | FormatH264 s p \<Rightarrow> codec \<noteq> ''H265'')"

definition coalesce :: "bytes option \<Rightarrow> bytes option \<Rightarrow> bytes option" where
  "coalesce next fallback =
     (case next of Some n \<Rightarrow> if 4 \<le> length n then Some n else fallback | None \<Rightarrow> fallback)"

abbreviation upd_scene :: "(scene \<Rightarrow> scene) \<Rightarrow> stream_run \<Rightarrow> stream_run" where
  "upd_scene f r \<equiv> r\<lparr>srScene := f (srScene r)\<rparr>"

abbreviation run_exposed :: "stream_run \<Rightarrow> bool" where
  "run_exposed r \<equiv> exposed (srScene r)"

section \<open>The start\<close>

text \<open>What is declared of the audio at the start: whether a track is, the window to wait, the publisher.\<close>

definition declare_known ::
  "rtp_library \<Rightarrow> audio_hint option \<Rightarrow> int \<Rightarrow> scene \<Rightarrow> bool \<times> int \<times> audio_publisher \<times> scene" where
  "declare_known lib hint window sc =
     (case hint of
        None \<Rightarrow> (False, window, new_publisher, sc)
      | Some h \<Rightarrow>
          if hint_known h \<and> hintCodec h = ''aac'' then
            (case declareAAC lib (hintSampleRate h) (hintChannels h) new_publisher sc of
               None \<Rightarrow> (False, window, new_publisher, sc)
             | Some (p, sc) \<Rightarrow>
                 (True, window, p, sc\<lparr>scMeta := setAudioAAC (hintSampleRate h) (hintChannels h) (scMeta sc)\<rparr>))
          else if hintCodec h = [] then (False, 0, new_publisher, sc)
          else (False, window, new_publisher, sc))"

definition audio_window :: "scene \<Rightarrow> int" where
  "audio_window sc =
     (if audioKnown (scStream sc) (scDevice sc) = Some False then audioSilentWindow else audioProbeWindow)"

definition runStream_start :: "rtp_library \<Rightarrow> audio_hint option \<Rightarrow> bool \<Rightarrow> nat \<Rightarrow> scene \<Rightarrow> stream_run" where
  "runStream_start lib hint onHint video sc =
     (case declare_known lib hint (audio_window sc) sc of
        (declared, window, p, sc) \<Rightarrow>
          \<lparr>srFormat = None, srEncoder = None, srListed = False, srVideo = video, srPaused = None,
           srTimeline = fresh_timeline, srGuard = fresh_guard, srLastUS = 0, srHaveUS = False,
           srLive = fresh_edge, srWindow = window, srStartup = None, srConfirm = None,
           srDeclared = declared, srOnHint = onHint, srAudio = p, srScene = sc, srEnded = False\<rparr>)"

definition updatePauseState :: "turn \<Rightarrow> stream_run \<Rightarrow> (bool \<times> stream_run) option" where
  "updatePauseState tu r =
     (let sc = srScene r; pc = tuPause tu
      in do { c \<leftarrow> (if OnClient pc then map_option Some (hasClients (scHandler sc) (scRtsp sc)) else Some None);
              let reason = shouldPause (tuNow tu) c pc;
              Some (reason \<noteq> None, r\<lparr>srPaused := reason\<rparr>) })"

definition reportAudioHint_run :: "audio_hint \<Rightarrow> stream_run \<Rightarrow> stream_run" where
  "reportAudioHint_run h r =
     (if srOnHint r then upd_scene (\<lambda>sc. sc\<lparr>scHints := h # scHints sc\<rparr>) r else r)"

definition reset_session :: "stream_run \<Rightarrow> stream_run option" where
  "reset_session r =
     map_option (\<lambda>w. upd_scene (\<lambda>sc. sc\<lparr>scRtsp := w\<rparr>) r) (reset (scHandler (srScene r)) (scRtsp (srScene r)))"

section \<open>Video\<close>

definition video_nalus :: "string \<Rightarrow> bytes \<Rightarrow> bytes list" where
  "video_nalus codec data =
     (let nalus = SplitAnnexB data
      in if codec = ''H265'' then ReorderH265NALsForAccessUnit (FilterH265DecodableNALs nalus)
         else ReorderH264NALsForAccessUnit nalus)"

text \<open>The steps of a video packet return whether the packet goes on, as the code's \<^verbatim>\<open>continue\<close> says it does not.\<close>

definition change_codec :: "string \<Rightarrow> bool \<Rightarrow> stream_run \<Rightarrow> (bool \<times> stream_run) option" where
  "change_codec codec keyframe r =
     (case srFormat r of
        None \<Rightarrow> Some (True, r)
      | Some f \<Rightarrow>
          if codecMatchesFormat codec f then Some (True, r)
          else if \<not> keyframe then Some (False, r)
          else map_option (Pair True) (reset_session (r\<lparr>srFormat := None, srEncoder := None, srListed := False\<rparr>)))"

definition ensure_format :: "rtp_library \<Rightarrow> string \<Rightarrow> stream_run \<Rightarrow> bool \<times> stream_run" where
  "ensure_format lib codec r =
     (if srFormat r \<noteq> None then (True, r)
      else let r = upd_scene (\<lambda>sc. sc\<lparr>scMeta := setVideoCodec codec (scMeta sc)\<rparr>) r
           in if \<not> videoCreate lib codec then (False, r)
              else (True, r\<lparr>srFormat := Some (if codec = ''H265'' then FormatH265 \<lparr>vps = None, sps = None, pps = None\<rparr>
                                                else FormatH264 None None),
                            srEncoder := Some codec, srListed := True\<rparr>))"

text \<open>The parameter sets of the packet's units taken over; a format of the other codec fails the type assertion.\<close>

definition format_with :: "string \<Rightarrow> bytes list \<Rightarrow> video_format \<Rightarrow> video_format option" where
  "format_with codec nalus f =
     (if codec = ''H265'' then
        (case f of
           FormatH265 q \<Rightarrow>
             let n = ExtractH265Params \<lparr>vps = None, sps = None, pps = None\<rparr> nalus
             in Some (FormatH265 (if vps n \<noteq> None \<or> sps n \<noteq> None \<or> pps n \<noteq> None
                  then \<lparr>vps = coalesce (vps n) (vps q), sps = coalesce (sps n) (sps q), pps = coalesce (pps n) (pps q)\<rparr>
                  else q))
         | FormatH264 s p \<Rightarrow> None)
      else
        (case f of
           FormatH265 q \<Rightarrow> None
         | FormatH264 s p \<Rightarrow>
             let (ns, np) = ExtractH264Params (None, None) nalus
             in Some (if ns \<noteq> None \<or> np \<noteq> None then FormatH264 (coalesce ns s) (coalesce np p) else FormatH264 s p)))"

fun complete_format :: "video_format \<Rightarrow> bool" where
  "complete_format (FormatH265 q) = (vps q \<noteq> None \<and> sps q \<noteq> None \<and> pps q \<noteq> None)"
| "complete_format (FormatH264 s p) = (s \<noteq> None \<and> p \<noteq> None)"

definition take_params :: "string \<Rightarrow> bytes list \<Rightarrow> stream_run \<Rightarrow> (bool \<times> stream_run) option" where
  "take_params codec nalus r =
     do { f \<leftarrow> srFormat r;
          f \<leftarrow> format_with codec nalus f;
          Some (complete_format f, r\<lparr>srFormat := Some f\<rparr>) }"

definition session_ready :: "turn \<Rightarrow> stream_run \<Rightarrow> stream_run" where
  "session_ready tu r =
     (let r = upd_scene (\<lambda>sc. sc\<lparr>scDevice := setAudioKnown (scStream sc) (track_ready (srAudio r)) (scDevice sc)\<rparr>) r;
          r = (if srDeclared r \<and> srConfirm r = None then r\<lparr>srConfirm := Some (tuExposed tu + audioConfirmWindow)\<rparr> else r)
      in reportAudioHint_run (track_hint (srAudio r)) r)"

text \<open>The session is not there yet: it is made once the parameter sets and the decision on the audio are.\<close>

definition expose_session :: "turn \<Rightarrow> bool \<Rightarrow> stream_run \<Rightarrow> (bool \<times> stream_run) option" where
  "expose_session tu paramsOK r =
     (if \<not> paramsOK then Some (False, r)
      else
        let deadline = (case srStartup r of None \<Rightarrow> tuStartup tu + srWindow r | Some d \<Rightarrow> d);
            r = r\<lparr>srStartup := Some deadline\<rparr>;
            sc = srScene r
        in if awaitingStartupDecision (tuDecision tu) deadline (srAudio r) then Some (False, r)
           else do { (err, w) \<leftarrow> setReady (initOk (tuLib tu)) [Some (srVideo r), mediaDescription (srAudio r)]
                                     (scHandler sc) (scRtsp sc);
                     let r = upd_scene (\<lambda>sc. sc\<lparr>scRtsp := w\<rparr>) r;
                     Some (if err \<noteq> None then (False, r) else (True, session_ready tu r)) })"

definition drop_declared :: "stream_run \<Rightarrow> stream_run option" where
  "drop_declared r =
     reset_session (reportAudioHint_run no_hint
       (r\<lparr>srDeclared := False, srConfirm := None, srAudio := dropDeclaration (srAudio r)\<rparr>))"

definition confirm_expired :: "turn \<Rightarrow> stream_run \<Rightarrow> bool" where
  "confirm_expired tu r = (case srConfirm r of None \<Rightarrow> False | Some d \<Rightarrow> d < tuConfirm tu)"

definition session_turn :: "turn \<Rightarrow> bool \<Rightarrow> bool \<Rightarrow> stream_run \<Rightarrow> (bool \<times> stream_run) option" where
  "session_turn tu keyframe paramsOK r =
     (if \<not> run_exposed r then expose_session tu paramsOK r
      else if srDeclared r \<and> \<not> apPublished (srAudio r) \<and> confirm_expired tu r then
        (if \<not> keyframe then Some (False, r) else map_option (Pair False) (drop_declared r))
      else if srDeclared r \<and> apPublished (srAudio r) \<and> srConfirm r \<noteq> None then Some (True, r\<lparr>srConfirm := None\<rparr>)
      else if scRebuild (srScene r) then
        (if \<not> keyframe then Some (False, r)
         else map_option (Pair False) (reset_session (upd_scene (\<lambda>sc. sc\<lparr>scRebuild := False\<rparr>) r)))
      else Some (True, r))"

definition video_packets :: "rtp_library \<Rightarrow> string \<Rightarrow> bytes list \<Rightarrow> rtp_packet list option" where
  "video_packets lib codec nalus =
     (if codec = ''H265'' then
        map_option (map (\<lambda>pkt. pkt\<lparr>rtpPayload := fix_aggregation (rtpPayload pkt)\<rparr>)) (videoEncode lib codec nalus)
      else videoEncode lib codec nalus)"

definition write_video :: "rtp_library \<Rightarrow> string \<Rightarrow> u64 \<Rightarrow> rtp_packet list \<Rightarrow> stream_run \<Rightarrow> stream_run option" where
  "write_video lib codec us pkts r =
     (case guard_next (rtpTimestampForClock us (videoClock lib codec)) (srGuard r) of
        (ts, g) \<Rightarrow>
          let r = r\<lparr>srGuard := g\<rparr>; sc = srScene r
          in map_option (\<lambda>w. upd_scene (\<lambda>sc. sc\<lparr>scRtsp := w\<rparr>) r)
               (write_packets (srVideo r) (map (\<lambda>pkt. pkt\<lparr>rtpTimestamp := ts\<rparr>) pkts) (scHandler sc) (scRtsp sc)))"

definition send_video ::
  "turn \<Rightarrow> string \<Rightarrow> bool \<Rightarrow> bytes list \<Rightarrow> u64 \<Rightarrow> u64 \<Rightarrow> stream_run \<Rightarrow> stream_run option" where
  "send_video tu codec keyframe nalus us raw r =
     do { (paused, r) \<leftarrow> updatePauseState tu r;
          let (skip, live) = behind (tuCatchUp tu) raw keyframe (tuNow tu) (tuLog tu) (srLive r);
          let r = r\<lparr>srLive := live\<rparr>;
          if skip then Some r
          else if srEncoder r \<noteq> Some codec then None
          else (case video_packets (tuLib tu) codec nalus of
                  None \<Rightarrow> Some r
                | Some pkts \<Rightarrow> if paused then Some r else write_video (tuLib tu) codec us pkts r) }"

text \<open>A packet whose units can be decoded and that has its time, from the timeline on.\<close>

definition timed_video :: "turn \<Rightarrow> string \<Rightarrow> bool \<Rightarrow> bytes list \<Rightarrow> u32 \<Rightarrow> stream_run \<Rightarrow> stream_run option" where
  "timed_video tu codec keyframe nalus ts32 r =
     (case timeline_video (tuRound tu) (tuMicro tu) ts32 (srTimeline r) of
        ((us, raw), clock) \<Rightarrow>
          do { (go, r) \<leftarrow> change_codec codec keyframe (r\<lparr>srTimeline := clock, srLastUS := us, srHaveUS := True\<rparr>);
               if \<not> go then Some r
               else (case ensure_format (tuLib tu) codec r of
                       (False, r) \<Rightarrow> Some r
                     | (True, r) \<Rightarrow>
                         do { (paramsOK, r) \<leftarrow> take_params codec nalus r;
                              (go, r) \<leftarrow> session_turn tu keyframe paramsOK r;
                              if \<not> go then Some r else send_video tu codec keyframe nalus us raw r }) })"

definition on_video :: "turn \<Rightarrow> media_packet \<Rightarrow> stream_run \<Rightarrow> stream_run option" where
  "on_video tu pkt r =
     (if Codec pkt \<noteq> ''H265'' \<and> Codec pkt \<noteq> ''H264'' then Some r
      else let nalus = video_nalus (Codec pkt) (Data pkt)
           in if nalus = [] \<or> \<not> HasTimestamp pkt then Some r
              else timed_video tu (Codec pkt) (Kind pkt = IFrame) nalus (TimestampMicrosecs pkt) r)"

section \<open>Audio and the loop\<close>

text \<open>An error of the audio is only logged.\<close>

definition on_audio ::
  "(rtp_library \<Rightarrow> bytes \<Rightarrow> mediaTimestamp \<Rightarrow> bool \<Rightarrow> audio_publisher \<Rightarrow> scene \<Rightarrow> audio_result) \<Rightarrow>
   turn \<Rightarrow> media_packet \<Rightarrow> stream_run \<Rightarrow> stream_run option" where
  "on_audio process tu pkt r =
     (case audioTimestampForPacket (tuMicro tu) (if HasTimestamp pkt then Some (TimestampMicrosecs pkt) else None)
             (srTimeline r) (srLastUS r) (srHaveUS r) of
        (ts, clock) \<Rightarrow>
          do { (paused, r) \<leftarrow> updatePauseState tu (r\<lparr>srTimeline := clock\<rparr>);
               (err, p, sc) \<leftarrow> process (tuLib tu) (Data pkt) ts (\<not> paused \<and> \<not> catchingUp (srLive r)) (srAudio r) (srScene r);
               Some (r\<lparr>srAudio := p, srScene := sc\<rparr>) })"

definition on_info :: "media_packet \<Rightarrow> stream_run \<Rightarrow> stream_run" where
  "on_info pkt r = upd_scene (\<lambda>sc. sc\<lparr>scMeta := setVideoInfo (Width pkt) (Height pkt) (FPS pkt) [] (scMeta sc)\<rparr>) r"

datatype run_event = RunDone | RunPacket media_packet | RunTick

definition runStream_step :: "turn \<Rightarrow> run_event \<Rightarrow> stream_run \<Rightarrow> stream_run option" where
  "runStream_step tu e r =
     (if srEnded r then Some r
      else case e of
        RunDone \<Rightarrow> Some (r\<lparr>srEnded := True\<rparr>)
      | RunTick \<Rightarrow> map_option snd (updatePauseState tu r)
      | RunPacket pkt \<Rightarrow>
          (case Kind pkt of
             InfoV1 \<Rightarrow> Some (on_info pkt r)
           | InfoV2 \<Rightarrow> Some (on_info pkt r)
           | IFrame \<Rightarrow> on_video tu pkt r
           | PFrame \<Rightarrow> on_video tu pkt r
           | AAC \<Rightarrow> on_audio processAAC tu pkt r
           | ADPCM \<Rightarrow> on_audio processADPCM tu pkt r))"

section \<open>What every turn keeps\<close>

abbreviation session :: "stream_run \<Rightarrow> nat list option" where
  "session r \<equiv> shStream (handlers (scRtsp (srScene r)) (scHandler (srScene r)))"

fun codec_of :: "video_format \<Rightarrow> string" where
  "codec_of (FormatH265 q) = ''H265''"
| "codec_of (FormatH264 s p) = ''H264''"

fun params_of :: "video_format \<Rightarrow> bytes option list" where
  "params_of (FormatH265 q) = [vps q, sps q, pps q]"
| "params_of (FormatH264 s p) = [s, p]"

text \<open>No parameter set is a truncated one.\<close>

definition sound_format :: "video_format \<Rightarrow> bool" where
  "sound_format f = (\<forall>n. Some n \<in> set (params_of f) \<longrightarrow> 4 \<le> length n)"

definition format_inv :: "stream_run \<Rightarrow> bool" where
  "format_inv r = (case srFormat r of
     None \<Rightarrow> session r = None
   | Some f \<Rightarrow> sound_format f \<and> srEncoder r = Some (codec_of f) \<and> srListed r
       \<and> (session r \<noteq> None \<longrightarrow> complete_format f))"

definition run_inv :: "stream_run \<Rightarrow> bool" where
  "run_inv r = (format_inv r \<and> (\<forall>ms. session r = Some ms \<longrightarrow> ms \<noteq> [] \<and> hd ms = srVideo r)
     \<and> srWindow r \<le> audioProbeWindow)"

text \<open>What the other parts of a turn leave alone.\<close>

definition same_video :: "stream_run \<Rightarrow> stream_run \<Rightarrow> bool" where
  "same_video r r' = (srFormat r' = srFormat r \<and> srEncoder r' = srEncoder r \<and> srListed r' = srListed r
     \<and> srVideo r' = srVideo r \<and> srWindow r' = srWindow r \<and> session r' = session r)"

lemma same_video_refl [simp]: "same_video r r"
  by (simp add: same_video_def)

lemma same_video_trans: "same_video u v \<Longrightarrow> same_video v w \<Longrightarrow> same_video u w"
  by (simp add: same_video_def)

lemma same_video_inv: "same_video r r' \<Longrightarrow> run_inv r' = run_inv r"
  by (simp add: same_video_def run_inv_def format_inv_def cong: option.case_cong)

lemma same_video_format: "same_video r r' \<Longrightarrow> srFormat r' = srFormat r"
  by (simp add: same_video_def)

lemma run_exposed_session: "run_exposed r \<longleftrightarrow> session r \<noteq> None"
  by (simp add: handler_ready_def)

lemma updatePause_same: "updatePauseState tu r = Some (b, r') \<Longrightarrow> same_video r r'"
  by (auto simp: updatePauseState_def Let_def same_video_def split: Option.bind_splits)

lemma report_same: "same_video r (reportAudioHint_run h r)"
  by (simp add: reportAudioHint_run_def same_video_def)

lemma session_ready_same: "same_video r (session_ready tu r)"
  by (simp add: session_ready_def reportAudioHint_run_def same_video_def Let_def)

lemma reset_session_gone:
  assumes "reset_session r = Some r'"
  shows "session r' = None \<and> srFormat r' = srFormat r \<and> srEncoder r' = srEncoder r \<and> srListed r' = srListed r
    \<and> srVideo r' = srVideo r \<and> srWindow r' = srWindow r"
  using assms reset_effect by (auto simp: reset_session_def reset_def)

lemma reset_session_inv:
  assumes "run_inv r" "reset_session r = Some r'"
  shows "run_inv r'"
  using assms reset_session_gone [OF assms(2)] by (simp add: run_inv_def format_inv_def split: option.splits)

lemma write_video_same: "write_video lib codec us pkts r = Some r' \<Longrightarrow> same_video r r'"
  using write_packets_effect by (auto simp: write_video_def Let_def same_video_def split: prod.splits)

lemma send_video_same: "send_video tu codec k nalus us raw r = Some r' \<Longrightarrow> same_video r r'"
  by (auto simp: send_video_def Let_def same_video_def split: Option.bind_splits prod.splits if_splits option.splits
      dest!: updatePause_same write_video_same)

lemma on_audio_same:
  assumes "on_audio process tu pkt r = Some r'"
    and "\<And>lib data ts b p sc err p' sc'. process lib data ts b p sc = Some (err, p', sc') \<Longrightarrow> same_session sc sc'"
  shows "same_video r r'"
  using assms(1)
  by (auto simp: on_audio_def same_video_def same_session_def split: prod.splits Option.bind_splits
      dest!: updatePause_same assms(2))

section \<open>The steps of a video packet\<close>

lemma coalesce_long: "coalesce next fallback = Some n \<Longrightarrow> next = Some n \<and> 4 \<le> length n \<or> fallback = Some n"
  by (auto simp: coalesce_def split: option.splits if_splits)

lemma coalesce_keeps: "fallback \<noteq> None \<Longrightarrow> coalesce next fallback \<noteq> None"
  by (auto simp: coalesce_def split: option.splits)

lemma format_with_sound:
  assumes "format_with codec nalus f = Some f'" "sound_format f"
  shows "sound_format f' \<and> codec_of f' = codec_of f \<and> (complete_format f \<longrightarrow> complete_format f')"
proof (cases f)
  case (FormatH265 q)
  then show ?thesis
    using assms coalesce_long coalesce_keeps
    by (auto simp: format_with_def sound_format_def Let_def split: if_splits) (metis coalesce_long)+
next
  case (FormatH264 s p)
  then show ?thesis
    using assms coalesce_long coalesce_keeps
    by (auto simp: format_with_def sound_format_def Let_def split: if_splits prod.splits) (metis coalesce_long)+
qed

lemma change_codec_inv:
  assumes "run_inv r" "change_codec codec k r = Some (go, r')"
  shows "run_inv r' \<and> (go \<longrightarrow> (\<forall>f. srFormat r' = Some f \<longrightarrow> codecMatchesFormat codec f))"
proof (cases "srFormat r")
  case (Some f)
  then show ?thesis
    using assms reset_session_gone
    by (fastforce simp: change_codec_def run_inv_def format_inv_def split: if_splits)
qed (use assms in \<open>auto simp: change_codec_def\<close>)

lemma ensure_format_inv:
  assumes "run_inv r" "ensure_format lib codec r = (go, r')" "codec = ''H265'' \<or> codec = ''H264''"
    and "\<forall>f. srFormat r = Some f \<longrightarrow> codecMatchesFormat codec f"
  shows "run_inv r' \<and> (go \<longrightarrow> (\<exists>f. srFormat r' = Some f \<and> codecMatchesFormat codec f))"
  using assms
  by (auto simp: ensure_format_def run_inv_def format_inv_def sound_format_def codecMatchesFormat_def Let_def
      split: if_splits option.splits)

lemma take_params_inv:
  assumes "run_inv r" "take_params codec nalus r = Some (all, r')"
  shows "run_inv r' \<and> (\<exists>f. srFormat r' = Some f \<and> all = complete_format f) \<and> session r' = session r"
  using assms format_with_sound
  by (fastforce simp: take_params_def run_inv_def format_inv_def split: Option.bind_splits)

lemma expose_inv:
  assumes "run_inv r" "\<not> run_exposed r" "srFormat r = Some f" "all = complete_format f"
    and "expose_session tu all r = Some (go, r')"
  shows "run_inv r' \<and> srFormat r' = srFormat r"
proof (cases "same_video r r'")
  case True
  then show ?thesis using same_video_inv same_video_format assms(1) by metis
next
  case False
  define r1 where "r1 = r\<lparr>srStartup := Some (case srStartup r of None \<Rightarrow> tuStartup tu + srWindow r | Some d \<Rightarrow> d)\<rparr>"
  have "same_video r r1" by (simp add: r1_def same_video_def)
  then have "r' \<noteq> r" "r' \<noteq> r1" using False by auto
  with assms(5) obtain err w where
    ready: "setReady (initOk (tuLib tu)) [Some (srVideo r), mediaDescription (srAudio r)] (scHandler (srScene r))
      (scRtsp (srScene r)) = Some (err, w)"
    and all: "complete_format f"
    and r': "r' = upd_scene (\<lambda>sc. sc\<lparr>scRtsp := w\<rparr>) r1 \<or> r' = session_ready tu (upd_scene (\<lambda>sc. sc\<lparr>scRtsp := w\<rparr>) r1)"
    unfolding expose_session_def assms(4) r1_def
    by (auto simp: Let_def split: if_splits Option.bind_splits)
  have "somes [Some (srVideo r), mediaDescription (srAudio r)] = srVideo r # somes [mediaDescription (srAudio r)]"
    by (simp add: somes_def List.map_filter_def)
  then have "shStream (handlers w (scHandler (srScene r))) = session r
      \<or> (\<exists>ms. shStream (handlers w (scHandler (srScene r))) = Some (srVideo r # ms))"
    using setReady_effect [OF ready [unfolded setReady_def]] by auto
  then have "run_inv (upd_scene (\<lambda>sc. sc\<lparr>scRtsp := w\<rparr>) r1)"
    using assms(1,3) all by (auto simp: run_inv_def format_inv_def r1_def)
  then show ?thesis using r' same_video_inv [OF session_ready_same] same_video_format [OF session_ready_same]
    by (auto simp: r1_def)
qed

lemma session_turn_inv:
  assumes "run_inv r" "srFormat r = Some f" "all = complete_format f" "session_turn tu k all r = Some (go, r')"
  shows "run_inv r' \<and> srFormat r' = srFormat r"
proof (cases "run_exposed r")
  case False
  then show ?thesis using assms expose_inv [OF assms(1) False assms(2,3)] by (simp add: session_turn_def)
next
  case True
  define dropped where "dropped = reportAudioHint_run no_hint
    (r\<lparr>srDeclared := False, srConfirm := None, srAudio := dropDeclaration (srAudio r)\<rparr>)"
  define rebuilt where "rebuilt = upd_scene (\<lambda>sc. sc\<lparr>scRebuild := False\<rparr>) r"
  have d: "same_video r dropped" "same_video r rebuilt" "same_video r (r\<lparr>srConfirm := None\<rparr>)"
    by (simp_all add: dropped_def rebuilt_def reportAudioHint_run_def same_video_def)
  have "r' = r \<or> r' = r\<lparr>srConfirm := None\<rparr> \<or> reset_session dropped = Some r' \<or> reset_session rebuilt = Some r'"
    using assms(4) True by (auto simp: session_turn_def drop_declared_def dropped_def rebuilt_def split: if_splits)
  then show ?thesis
    using d assms(1) reset_session_inv reset_session_gone same_video_inv same_video_format by metis
qed

lemma timed_video_inv:
  assumes "run_inv r" "codec = ''H265'' \<or> codec = ''H264''" "timed_video tu codec k nalus ts r = Some r'"
  shows "run_inv r'"
proof -
  obtain us raw cl where tv: "timeline_video (tuRound tu) (tuMicro tu) ts (srTimeline r) = ((us, raw), cl)"
    by (metis surj_pair)
  define r0 where "r0 = r\<lparr>srTimeline := cl, srLastUS := us, srHaveUS := True\<rparr>"
  have "same_video r r0" by (simp add: r0_def same_video_def)
  then have r0: "run_inv r0" using assms(1) same_video_inv by simp
  obtain go r1 where c: "change_codec codec k r0 = Some (go, r1)"
    using assms(3) tv by (auto simp: timed_video_def r0_def split: Option.bind_splits)
  note r1 = change_codec_inv [OF r0 c]
  show ?thesis
  proof (cases go)
    case False
    then show ?thesis using assms(3) tv c r1 by (simp add: timed_video_def r0_def)
  next
    case True
    obtain go2 r2 where e: "ensure_format (tuLib tu) codec r1 = (go2, r2)" by fastforce
    have r2: "run_inv r2" using ensure_format_inv [OF _ e assms(2)] r1 True by blast
    show ?thesis
    proof (cases go2)
      case False
      then show ?thesis using assms(3) tv c e True r2 by (simp add: timed_video_def r0_def)
    next
      case go2: True
      then obtain all r3 go3 r4 where t: "take_params codec nalus r2 = Some (all, r3)"
        and st: "session_turn tu k all r3 = Some (go3, r4)"
        and last: "(if \<not> go3 then Some r4 else send_video tu codec k nalus us raw r4) = Some r'"
        using assms(3) tv c e True by (auto simp: timed_video_def r0_def split: Option.bind_splits)
      from take_params_inv [OF r2 t] obtain f where "run_inv r3" "srFormat r3 = Some f" "all = complete_format f" by blast
      then have "run_inv r4" using session_turn_inv st by blast
      then show ?thesis using last same_video_inv [OF send_video_same] by (auto split: if_splits)
    qed
  qed
qed

lemma runStream_step_inv:
  assumes "run_inv r" "runStream_step tu e r = Some r'"
  shows "run_inv r'"
proof -
  have video: "run_inv q" if "on_video tu pkt r = Some q" for pkt q
    using that assms(1) timed_video_inv by (auto simp: on_video_def Let_def split: if_splits)
  have audio: "run_inv q" if "on_audio processAAC tu pkt r = Some q \<or> on_audio processADPCM tu pkt r = Some q" for pkt q
    using that assms(1) same_video_inv on_audio_same processAAC_same processADPCM_same by metis
  have "same_video r (on_info pkt r)" "same_video r (r\<lparr>srEnded := True\<rparr>)" for pkt
    by (simp_all add: on_info_def same_video_def)
  then have info: "run_inv (on_info pkt r)" "run_inv (r\<lparr>srEnded := True\<rparr>)" for pkt
    using assms(1) same_video_inv by blast+
  show ?thesis
    using assms info audio video
    by (auto simp: runStream_step_def same_video_inv [OF updatePause_same]
        split: if_splits run_event.splits media_kind.splits)
qed

text \<open>
  The life of a stream: it starts with no session; its own turns, and anything the rest of the bridge
  does in between, except to the session of its handler, which only the stream itself makes and drops.
\<close>

inductive stream_life :: "stream_run \<Rightarrow> bool" where
  life_start: "\<not> exposed sc \<Longrightarrow> stream_life (runStream_start lib hint onHint video sc)"
| life_turn: "stream_life r \<Longrightarrow> runStream_step tu e r = Some r' \<Longrightarrow> stream_life r'"
| life_other: "stream_life r \<Longrightarrow> scHandler sc = scHandler (srScene r) \<Longrightarrow>
    shStream (handlers (scRtsp sc) (scHandler sc)) = session r \<Longrightarrow> stream_life (r\<lparr>srScene := sc\<rparr>)"

lemma declare_known_effect:
  "declare_known lib hint window sc = (declared, window', p, sc') \<Longrightarrow>
   (window' = window \<or> window' = 0) \<and> same_session sc sc' \<and> (declared \<longrightarrow> track_ready p \<and> apAac p \<and> \<not> apG711 p)"
  by (auto simp: declare_known_def declareAAC_def new_media_def new_publisher_def track_ready_def same_session_def Let_def
      split: option.splits if_splits)

lemma run_inv_start:
  assumes "\<not> exposed sc"
  shows "run_inv (runStream_start lib hint onHint video sc)"
proof -
  obtain declared window p sc' where d: "declare_known lib hint (audio_window sc) sc = (declared, window, p, sc')"
    by (metis prod_cases4)
  have w: "window \<le> audioProbeWindow"
    using declare_known_effect [OF d] by (auto simp: audio_window_def audioProbeWindow_def audioSilentWindow_def sec_def)
  have "shStream (handlers (scRtsp sc') (scHandler sc')) = None"
    using declare_known_effect [OF d] assms by (simp add: same_session_def handler_ready_def)
  then show ?thesis using w by (simp add: runStream_start_def d run_inv_def format_inv_def)
qed

lemma stream_life_inv: "stream_life r \<Longrightarrow> run_inv r"
proof (induction rule: stream_life.induct)
  case (life_other r sc)
  then have "same_video r (r\<lparr>srScene := sc\<rparr>)" by (simp add: same_video_def)
  then show ?case using life_other same_video_inv by simp
qed (auto intro: run_inv_start runStream_step_inv)

text \<open>C21: A stream is served only with what a player needs to decode it: in every state of a stream's life,
  whatever packets came, truncated parameter sets and codec changes among them, when its path has a session,
  the session starts with the stream's video media, and the format of that media is the one the frames
  are encoded for and has all its parameter sets, none of them shorter than four bytes.\<close>

theorem served_with_parameters:
  assumes "stream_life r" "session r = Some ms"
  shows "\<exists>f rest. ms = srVideo r # rest \<and> srFormat r = Some f \<and> srListed r \<and> srEncoder r = Some (codec_of f)
    \<and> (\<forall>p \<in> set (params_of f). \<exists>n. p = Some n \<and> 4 \<le> length n)"
proof -
  have inv: "run_inv r" using stream_life_inv [OF assms(1)] .
  then obtain f where f: "srFormat r = Some f" "sound_format f" "complete_format f" "srListed r" "srEncoder r = Some (codec_of f)"
    using assms(2) by (auto simp: run_inv_def format_inv_def split: option.splits)
  have "\<forall>p \<in> set (params_of f). \<exists>n. p = Some n \<and> 4 \<le> length n"
    using f(2,3) by (cases f) (auto simp: sound_format_def)
  moreover have "ms = srVideo r # tl ms" using inv assms(2) by (cases ms) (auto simp: run_inv_def)
  ultimately show ?thesis using f by blast
qed

end
