(* ===== verification/StreamLife.thy ===== *)
theory StreamLife
  imports StreamRun
begin

text \<open>
  What the loop of a stream (\<^verbatim>\<open>pkg/bridge/stream_run.go\<close>) achieves over its life: it does not stop on
  video, it serves the stream as soon as the audio is decided, it carries audio that comes late, and
  where it falls short of what its comments say.
\<close>

section \<open>Every turn of a video packet returns\<close>

text \<open>The mirrors of a stream's handler have none of their own, as the bridge sets them up.\<close>

definition wired :: "stream_run \<Rightarrow> bool" where
  "wired r = flat (mirrors (handlers (scRtsp (srScene r)) (scHandler (srScene r)))) (scRtsp (srScene r))"

definition keeps_wiring :: "stream_run \<Rightarrow> stream_run \<Rightarrow> bool" where
  "keeps_wiring r r' = (scHandler (srScene r') = scHandler (srScene r) \<and> same_wiring (scRtsp (srScene r)) (scRtsp (srScene r')))"

lemma keeps_wiring_refl: "keeps_wiring r r"
  by (simp add: keeps_wiring_def)

lemma keeps_wiring_trans: "keeps_wiring u v \<Longrightarrow> keeps_wiring v w \<Longrightarrow> keeps_wiring u w"
  by (auto simp: keeps_wiring_def intro: same_wiring_trans)

lemma wired_kept: "keeps_wiring r r' \<Longrightarrow> wired r' = wired r"
  using flat_wiring by (simp add: keeps_wiring_def wired_def same_wiring_def)

lemma updatePause_returns:
  assumes "wired r"
  shows "\<exists>b r'. updatePauseState tu r = Some (b, r') \<and> r' = r\<lparr>srPaused := srPaused r'\<rparr>"
  using assms any_handler_mirrors unfolding updatePauseState_def hasClients_def wired_def Let_def by auto

lemma reset_session_returns:
  assumes "wired r"
  shows "\<exists>r'. reset_session r = Some r' \<and> keeps_wiring r r'"
proof -
  obtain w where w: "reset (scHandler (srScene r)) (scRtsp (srScene r)) = Some w"
    using reset_total assms by (auto simp: wired_def)
  then show ?thesis using reset_effect [OF w [unfolded reset_def]] by (simp add: reset_session_def keeps_wiring_def)
qed

lemma change_codec_returns:
  assumes "wired r"
  shows "\<exists>go r'. change_codec codec k r = Some (go, r') \<and> keeps_wiring r r'"
proof -
  define q where "q = r\<lparr>srFormat := None, srEncoder := None, srListed := False\<rparr>"
  have q: "wired q" "keeps_wiring r q" using assms by (simp_all add: q_def wired_def keeps_wiring_def)
  from reset_session_returns [OF q(1)] obtain r' where "reset_session q = Some r'" "keeps_wiring q r'" by blast
  then show ?thesis using keeps_wiring_trans [OF q(2)] keeps_wiring_refl
    by (auto simp: change_codec_def q_def split: option.splits)
qed

lemma ensure_format_keeps: "ensure_format lib codec r = (go, r') \<Longrightarrow> keeps_wiring r r'"
  by (auto simp: ensure_format_def Let_def keeps_wiring_def split: if_splits)

lemma take_params_returns:
  assumes "srFormat r = Some f" "codecMatchesFormat codec f" "codec = ''H265'' \<or> codec = ''H264''"
  shows "\<exists>all r'. take_params codec nalus r = Some (all, r') \<and> keeps_wiring r r'"
  using assms by (auto simp: take_params_def format_with_def codecMatchesFormat_def keeps_wiring_def Let_def
      split: video_format.splits prod.splits)

lemma session_ready_keeps: "keeps_wiring r (session_ready tu r)"
  by (simp add: session_ready_def reportAudioHint_run_def keeps_wiring_def Let_def)

lemma expose_returns:
  assumes "wired r"
  shows "\<exists>go r'. expose_session tu all r = Some (go, r') \<and> keeps_wiring r r'"
proof -
  obtain err w where w: "setReady (initOk (tuLib tu)) [Some (srVideo r), mediaDescription (srAudio r)]
      (scHandler (srScene r)) (scRtsp (srScene r)) = Some (err, w)"
    using setReady_total assms unfolding wired_def by blast
  define r1 where "r1 = r\<lparr>srStartup := Some (case srStartup r of None \<Rightarrow> tuStartup tu + srWindow r | Some d \<Rightarrow> d)\<rparr>"
  define r2 where "r2 = upd_scene (\<lambda>sc. sc\<lparr>scRtsp := w\<rparr>) r1"
  have k: "keeps_wiring r r1" "keeps_wiring r r2" "keeps_wiring r (session_ready tu r2)"
    using setReady_effect [OF w [unfolded setReady_def]] keeps_wiring_trans [OF _ session_ready_keeps, of r r2]
    by (simp_all add: r1_def r2_def keeps_wiring_def)
  have "expose_session tu all r = (if \<not> all then Some (False, r)
    else if awaitingStartupDecision (tuDecision tu) (the (srStartup r1)) (srAudio r) then Some (False, r1)
    else Some (if err \<noteq> None then (False, r2) else (True, session_ready tu r2)))"
    using w by (simp add: expose_session_def r1_def r2_def Let_def)
  then show ?thesis using k keeps_wiring_refl by (auto split: if_splits)
qed

lemma session_turn_returns:
  assumes "wired r"
  shows "\<exists>go r'. session_turn tu k all r = Some (go, r') \<and> keeps_wiring r r'"
proof -
  define dropped where "dropped = reportAudioHint_run no_hint
    (r\<lparr>srDeclared := False, srConfirm := None, srAudio := dropDeclaration (srAudio r)\<rparr>)"
  define rebuilt where "rebuilt = upd_scene (\<lambda>sc. sc\<lparr>scRebuild := False\<rparr>) r"
  have q: "keeps_wiring r dropped" "keeps_wiring r rebuilt" "keeps_wiring r (r\<lparr>srConfirm := None\<rparr>)" "keeps_wiring r r"
    by (simp_all add: dropped_def rebuilt_def reportAudioHint_run_def keeps_wiring_def)
  have "wired dropped" "wired rebuilt" using wired_kept [OF q(1)] wired_kept [OF q(2)] assms by simp_all
  then obtain r1 r2 where "reset_session dropped = Some r1" "keeps_wiring dropped r1"
    "reset_session rebuilt = Some r2" "keeps_wiring rebuilt r2"
    using reset_session_returns by meson
  then have r12: "reset_session dropped = Some r1" "keeps_wiring r r1" "reset_session rebuilt = Some r2" "keeps_wiring r r2"
    using q keeps_wiring_trans by blast+
  have "session_turn tu k all r =
    (if \<not> run_exposed r then expose_session tu all r
     else if srDeclared r \<and> \<not> apPublished (srAudio r) \<and> confirm_expired tu r then Some (False, if k then r1 else r)
     else if srDeclared r \<and> apPublished (srAudio r) \<and> srConfirm r \<noteq> None then Some (True, r\<lparr>srConfirm := None\<rparr>)
     else if scRebuild (srScene r) then Some (False, if k then r2 else r) else Some (True, r))"
    using r12 by (auto simp: session_turn_def drop_declared_def simp flip: dropped_def rebuilt_def)
  then show ?thesis using q r12 expose_returns [OF assms] by (auto simp: ex_bool_eq)
qed

lemma send_video_returns:
  assumes "wired r" "srEncoder r = Some codec"
  shows "\<exists>r'. send_video tu codec k nalus us raw r = Some r'"
proof -
  obtain b q where q: "updatePauseState tu r = Some (b, q)" "q = r\<lparr>srPaused := srPaused q\<rparr>"
    using updatePause_returns [OF assms(1)] by blast
  define h where "h = scHandler (srScene r)"
  have "\<exists>w. write_packets m pkts h (scRtsp (srScene r)) = Some w" for m pkts
    using write_packets_total assms(1) by (simp add: wired_def h_def)
  moreover have "srScene q = srScene r" "srEncoder q = srEncoder r" by (subst q(2), simp)+
  ultimately show ?thesis
    using assms(2) q(1) by (auto simp: send_video_def write_video_def Let_def simp flip: h_def split: prod.splits option.splits)
qed

lemma timed_video_returns:
  assumes "run_inv r" "wired r" "codec = ''H265'' \<or> codec = ''H264''"
  shows "\<exists>r'. timed_video tu codec k nalus ts r = Some r'"
proof -
  obtain us raw cl where tv: "timeline_video (tuRound tu) (tuMicro tu) ts (srTimeline r) = ((us, raw), cl)"
    by (metis surj_pair)
  define r0 where "r0 = r\<lparr>srTimeline := cl, srLastUS := us, srHaveUS := True\<rparr>"
  have "same_video r r0" by (simp add: r0_def same_video_def)
  then have r0: "run_inv r0" "wired r0" using assms(1,2) same_video_inv by (simp_all add: r0_def wired_def)
  obtain go r1 where c: "change_codec codec k r0 = Some (go, r1)" "keeps_wiring r0 r1"
    using change_codec_returns [OF r0(2)] by blast
  obtain go2 r2 where e: "ensure_format (tuLib tu) codec r1 = (go2, r2)" by fastforce
  show ?thesis
  proof (cases "go \<and> go2")
    case False
    then show ?thesis using tv c e by (auto simp: timed_video_def r0_def)
  next
    case True
    have r2: "run_inv r2" "wired r2" and f: "\<exists>f. srFormat r2 = Some f \<and> codecMatchesFormat codec f"
      using ensure_format_inv [OF _ e assms(3)] change_codec_inv [OF r0(1) c(1)] True
        wired_kept [OF c(2)] wired_kept [OF ensure_format_keeps [OF e]] r0(2) by auto
    from f take_params_returns assms(3) obtain all r3
      where t: "take_params codec nalus r2 = Some (all, r3)" "keeps_wiring r2 r3" by metis
    from take_params_inv [OF r2(1) t(1)] obtain g where g: "run_inv r3" "srFormat r3 = Some g" "all = complete_format g" by blast
    have match: "codec_of g = codec"
      using f t(1) format_with_sound r2(1) assms(3) g(2)
      by (fastforce simp: take_params_def run_inv_def format_inv_def codecMatchesFormat_def
          split: Option.bind_splits video_format.splits)
    obtain go3 r4 where st: "session_turn tu k all r3 = Some (go3, r4)" "keeps_wiring r3 r4"
      using session_turn_returns r2(2) wired_kept [OF t(2)] by blast
    have "run_inv r4" "srFormat r4 = Some g" using session_turn_inv [OF g st(1)] g(2) by auto
    then have "srEncoder r4 = Some codec" using match by (simp add: run_inv_def format_inv_def)
    moreover have "wired r4" using r2(2) wired_kept [OF t(2)] wired_kept [OF st(2)] by simp
    ultimately obtain r5 where "send_video tu codec k nalus us raw r4 = Some r5" using send_video_returns by blast
    then show ?thesis using tv c e t st True by (simp add: timed_video_def r0_def)
  qed
qed

text \<open>Nothing in a turn but the end of the context ends the loop.\<close>

lemma reset_session_end: "reset_session r = Some r' \<Longrightarrow> srEnded r' = srEnded r"
  by (auto simp: reset_session_def)

lemma updatePause_end: "updatePauseState tu r = Some (b, r') \<Longrightarrow> srEnded r' = srEnded r \<and> srScene r' = srScene r"
  by (auto simp: updatePauseState_def Let_def split: Option.bind_splits)

lemma change_codec_end: "change_codec codec k r = Some (go, r') \<Longrightarrow> srEnded r' = srEnded r"
  by (auto simp: change_codec_def split: option.splits if_splits dest!: reset_session_end)

lemma ensure_format_end: "ensure_format lib codec r = (go, r') \<Longrightarrow> srEnded r' = srEnded r"
  by (auto simp: ensure_format_def Let_def split: if_splits)

lemma take_params_end: "take_params codec nalus r = Some (all, r') \<Longrightarrow> srEnded r' = srEnded r"
  by (auto simp: take_params_def split: Option.bind_splits)

lemma reportHint_end: "srEnded (reportAudioHint_run h r) = srEnded r"
  by (simp add: reportAudioHint_run_def)

lemma session_turn_end: "session_turn tu k all r = Some (go, r') \<Longrightarrow> srEnded r' = srEnded r"
  by (auto simp: session_turn_def expose_session_def session_ready_def drop_declared_def reportHint_end Let_def
      split: if_splits Option.bind_splits dest!: reset_session_end)

lemma send_video_end: "send_video tu codec k nalus us raw r = Some r' \<Longrightarrow> srEnded r' = srEnded r"
  by (auto simp: send_video_def write_video_def Let_def
      split: Option.bind_splits prod.splits if_splits option.splits dest!: updatePause_end)

lemma timed_video_end:
  assumes "timed_video tu codec k nalus ts r = Some r'"
  shows "srEnded r' = srEnded r"
  using assms
  by (auto simp: timed_video_def split: prod.splits Option.bind_splits if_splits bool.splits
      dest!: change_codec_end ensure_format_end take_params_end session_turn_end send_video_end)

lemma send_video_wiring: "send_video tu codec k nalus us raw r = Some r' \<Longrightarrow> keeps_wiring r r'"
  by (auto simp: send_video_def updatePauseState_def write_video_def keeps_wiring_def Let_def
      split: Option.bind_splits prod.splits if_splits option.splits dest: write_packets_effect)

text \<open>A turn that is not audio returns.\<close>

lemma video_turn_returns:
  assumes "stream_life r" "wired r" "e = RunTick \<or> (\<exists>pkt. e = RunPacket pkt \<and> Kind pkt \<notin> {AAC, ADPCM})"
  shows "\<exists>r'. runStream_step tu e r = Some r'"
proof -
  have "\<exists>r'. on_video tu pkt r = Some r'" for pkt
    using timed_video_returns [OF stream_life_inv [OF assms(1)] assms(2)] by (auto simp: on_video_def Let_def)
  moreover obtain b q where "updatePauseState tu r = Some (b, q)" using updatePause_returns [OF assms(2)] by blast
  ultimately show ?thesis using assms(3) by (auto simp: runStream_step_def split: media_kind.splits)
qed

lemma video_turn_end:
  assumes "runStream_step tu e r = Some r'" "e = RunTick \<or> (\<exists>pkt. e = RunPacket pkt \<and> Kind pkt \<notin> {AAC, ADPCM})"
  shows "srEnded r' = srEnded r"
proof -
  have "srEnded r' = srEnded r" if "on_video tu pkt r = Some r'" for pkt
    using that timed_video_end by (auto simp: on_video_def Let_def split: if_splits)
  then show ?thesis
    using assms updatePause_end by (fastforce simp: runStream_step_def on_info_def split: media_kind.splits if_splits)
qed

text \<open>C23: Video never ends a stream: in every state of its life, with the mirrors of its handler as the bridge sets
  them up (\<open>wired\<close>), and for every video or information packet, of whatever codec, size and content, and every
  tick, the loop's turn returns and the loop goes on: no type assertion on a format or an encoder fails, no
  codec change leaves one behind that does not belong to the other, and no packet that cannot be used, of a
  codec the bridge does not know or one the library makes no encoder for, takes the loop down.\<close>

theorem video_never_stops_stream:
  assumes "stream_life r" "wired r" "e = RunTick \<or> (\<exists>pkt. e = RunPacket pkt \<and> Kind pkt \<notin> {AAC, ADPCM})"
  shows "\<exists>r'. runStream_step tu e r = Some r' \<and> srEnded r' = srEnded r"
  using video_turn_returns [OF assms] video_turn_end [OF _ assms(3)] by metis

end
