(* ===== verification/StreamServe.thy ===== *)
theory StreamServe
  imports StreamLife
begin

text \<open>
  Serving a stream (\<^verbatim>\<open>pkg/bridge/stream_run.go\<close>): when its session is made, how late audio gets
  into it, and two places where the code does not do what its comments say.
\<close>

section \<open>One turn of a video packet\<close>

text \<open>Everything a session needs outside is there: the handlers are attached, the library agrees.\<close>

definition serves :: "turn \<Rightarrow> stream_run \<Rightarrow> bool" where
  "serves tu r = (wired r \<and> (\<forall>x \<in> insert (scHandler (srScene r)) (set (mirrors (handlers (scRtsp (srScene r)) (scHandler (srScene r))))).
     attached (handlers (scRtsp (srScene r)) x) \<and> initOk (tuLib tu) x))"

text \<open>A video packet that has what the loop asks of one: units to decode and a timestamp.\<close>

definition frame :: "string \<Rightarrow> media_packet \<Rightarrow> bool" where
  "frame codec pkt = (Kind pkt \<in> {IFrame, PFrame} \<and> Codec pkt = codec \<and> HasTimestamp pkt
     \<and> video_nalus codec (Data pkt) \<noteq> [])"

definition at_frame :: "turn \<Rightarrow> media_packet \<Rightarrow> video_format \<Rightarrow> stream_run \<Rightarrow> stream_run" where
  "at_frame tu pkt f r =
     (case timeline_video (tuRound tu) (tuMicro tu) (TimestampMicrosecs pkt) (srTimeline r) of
        ((us, raw), clock) \<Rightarrow> r\<lparr>srTimeline := clock, srLastUS := us, srHaveUS := True, srFormat := Some f\<rparr>)"

definition raw_time :: "turn \<Rightarrow> media_packet \<Rightarrow> stream_run \<Rightarrow> u64" where
  "raw_time tu pkt r =
     snd (fst (timeline_video (tuRound tu) (tuMicro tu) (TimestampMicrosecs pkt) (srTimeline r)))"

lemma at_frame_simps [simp]:
  "srFormat (at_frame tu pkt f r) = Some f" "srEncoder (at_frame tu pkt f r) = srEncoder r"
  "srListed (at_frame tu pkt f r) = srListed r" "srVideo (at_frame tu pkt f r) = srVideo r"
  "srGuard (at_frame tu pkt f r) = srGuard r" "srLive (at_frame tu pkt f r) = srLive r"
  "srWindow (at_frame tu pkt f r) = srWindow r" "srStartup (at_frame tu pkt f r) = srStartup r"
  "srConfirm (at_frame tu pkt f r) = srConfirm r" "srDeclared (at_frame tu pkt f r) = srDeclared r"
  "srOnHint (at_frame tu pkt f r) = srOnHint r" "srAudio (at_frame tu pkt f r) = srAudio r"
  "srScene (at_frame tu pkt f r) = srScene r" "srEnded (at_frame tu pkt f r) = srEnded r"
  by (simp_all add: at_frame_def split: prod.split)

lemma codec_of_cases: "codec_of f = ''H265'' \<or> codec_of f = ''H264''"
  by (cases f) simp_all

lemma format_with_total: "\<exists>f'. format_with (codec_of f) nalus f = Some f'"
  by (cases f) (auto simp: format_with_def Let_def split: prod.split)

lemma codecMatches_codec_of: "codecMatchesFormat (codec_of f) f"
  by (cases f) (simp_all add: codecMatchesFormat_def)

lemma video_turn:
  assumes "srFormat r = Some f" "frame (codec_of f) pkt" "\<not> srEnded r"
    and "format_with (codec_of f) (video_nalus (codec_of f) (Data pkt)) f = Some f'"
  shows "runStream_step tu (RunPacket pkt) r =
    do { (go, q) \<leftarrow> session_turn tu (Kind pkt = IFrame) (complete_format f') (at_frame tu pkt f' r);
         if \<not> go then Some q
         else send_video tu (codec_of f) (Kind pkt = IFrame) (video_nalus (codec_of f) (Data pkt))
                (srLastUS (at_frame tu pkt f' r)) (raw_time tu pkt r) q }"
proof -
  obtain us raw cl where tv:
    "timeline_video (tuRound tu) (tuMicro tu) (TimestampMicrosecs pkt) (srTimeline r) = ((us, raw), cl)"
    by (metis surj_pair)
  define r0 where "r0 = r\<lparr>srTimeline := cl, srLastUS := us, srHaveUS := True\<rparr>"
  have r0: "srFormat r0 = Some f" "r0\<lparr>srFormat := Some f'\<rparr> = at_frame tu pkt f' r" "raw_time tu pkt r = raw"
    "srLastUS (at_frame tu pkt f' r) = us"
    using assms(1) by (simp_all add: r0_def at_frame_def raw_time_def tv)
  have "change_codec (codec_of f) k r0 = Some (True, r0)" "ensure_format lib (codec_of f) r0 = (True, r0)" for k lib
    using r0(1) codecMatches_codec_of by (simp_all add: change_codec_def ensure_format_def)
  moreover have "take_params (codec_of f) (video_nalus (codec_of f) (Data pkt)) r0 =
      Some (complete_format f', at_frame tu pkt f' r)"
    using assms(4) r0(1,2) by (simp add: take_params_def)
  moreover have "runStream_step tu (RunPacket pkt) r =
      timed_video tu (codec_of f) (Kind pkt = IFrame) (video_nalus (codec_of f) (Data pkt)) (TimestampMicrosecs pkt) r"
    using assms(2,3) codec_of_cases [of f] by (auto simp: runStream_step_def on_video_def frame_def Let_def)
  ultimately show ?thesis unfolding r0(3,4) by (simp add: timed_video_def tv flip: r0_def)
qed

section \<open>Making the session\<close>

definition deadline_of :: "turn \<Rightarrow> stream_run \<Rightarrow> int" where
  "deadline_of tu r = (case srStartup r of None \<Rightarrow> tuStartup tu + srWindow r | Some d \<Rightarrow> d)"

lemma expose_decided:
  assumes "serves tu r" "session r = None" "\<not> awaitingStartupDecision (tuDecision tu) (deadline_of tu r) (srAudio r)"
  shows "\<exists>w. expose_session tu True r =
      Some (True, session_ready tu (upd_scene (\<lambda>sc. sc\<lparr>scRtsp := w\<rparr>) (r\<lparr>srStartup := Some (deadline_of tu r)\<rparr>)))
    \<and> same_wiring (scRtsp (srScene r)) w
    \<and> (\<forall>x. shSent (handlers w x) = shSent (handlers (scRtsp (srScene r)) x))
    \<and> shStream (handlers w (scHandler (srScene r))) = Some (srVideo r # somes [apMedia (srAudio r)]
        @ extras (handlers (scRtsp (srScene r)) (scHandler (srScene r))))"
proof -
  let ?h = "scHandler (srScene r)" and ?w = "scRtsp (srScene r)" and ?ms = "[Some (srVideo r), mediaDescription (srAudio r)]"
  have ms: "somes ?ms = srVideo r # somes [apMedia (srAudio r)]"
    by (simp add: somes_def List.map_filter_def mediaDescription_def)
  obtain w where w: "setReady (initOk (tuLib tu)) ?ms ?h ?w = Some (None, w)"
    using setReady_succeeds [of ?w ?h ?ms] assms(1) ms by (auto simp: serves_def wired_def)
  have "expose_session tu True r =
      Some (True, session_ready tu (upd_scene (\<lambda>sc. sc\<lparr>scRtsp := w\<rparr>) (r\<lparr>srStartup := Some (deadline_of tu r)\<rparr>)))"
    using w assms(3) by (simp add: expose_session_def deadline_of_def Let_def)
  moreover note eff = setReady_effect [OF w [unfolded setReady_def]]
  have "shStream (handlers w ?h) = Some (srVideo r # somes [apMedia (srAudio r)] @ extras (handlers ?w ?h))"
    using spec [OF conjunct1 [OF conjunct2 [OF eff]], of ?h] conjunct2 [OF conjunct2 [OF eff]] assms(2) ms by auto
  moreover have "same_wiring ?w w" using eff by simp
  ultimately show ?thesis using setReady_sent [OF w [unfolded setReady_def]] by auto
qed

text \<open>C24: A stream is served as soon as it can be: once its parameter sets are known, a frame either makes the
  session, or the decision on the audio is still open and the frame came before the deadline; the
  deadline is fixed by the first such frame and lies at most the five seconds of the probe window after
  it (the ten seconds a DESCRIBE is held leave room for it), so the first frame after that is served
  whether audio came or not.\<close>

theorem served_within_window:
  assumes "stream_life r" "serves tu r" "\<not> srEnded r" "\<not> run_exposed r"
    and "srFormat r = Some f" "complete_format f" "frame (codec_of f) pkt"
  shows "\<exists>r'. runStream_step tu (RunPacket pkt) r = Some r' \<and>
    (run_exposed r' \<or> \<not> track_ready (srAudio r) \<and> srStartup r' = Some (deadline_of tu r)
      \<and> tuDecision tu < deadline_of tu r
      \<and> deadline_of tu r \<le> (case srStartup r of None \<Rightarrow> tuStartup tu + audioProbeWindow | Some d \<Rightarrow> d))"
proof -
  have inv: "run_inv r" using stream_life_inv [OF assms(1)] .
  obtain f' where f': "format_with (codec_of f) (video_nalus (codec_of f) (Data pkt)) f = Some f'"
    using format_with_total by blast
  have all: "complete_format f'" using format_with_sound [OF f'] inv assms(5,6) by (simp add: run_inv_def format_inv_def)
  define q where "q = at_frame tu pkt f' r"
  have q: "serves tu q" "session q = None" "srAudio q = srAudio r" "deadline_of tu q = deadline_of tu r" "\<not> run_exposed q"
    using assms(2,4) by (simp_all add: q_def serves_def wired_def handler_ready_def deadline_of_def cong: option.case_cong)
  note step = video_turn [OF assms(5,7,3) f', of tu, folded q_def]
  show ?thesis
  proof (cases "awaitingStartupDecision (tuDecision tu) (deadline_of tu r) (srAudio r)")
    case True
    then have "runStream_step tu (RunPacket pkt) r = Some (q\<lparr>srStartup := Some (deadline_of tu r)\<rparr>)"
      using step q by (simp add: session_turn_def expose_session_def deadline_of_def all Let_def)
    then show ?thesis using True inv by (auto simp: awaitingStartupDecision_def deadline_of_def run_inv_def split: option.split)
  next
    case False
    then have "\<not> awaitingStartupDecision (tuDecision tu) (deadline_of tu q) (srAudio q)" using q(3,4) by simp
    from expose_decided [OF q(1,2) this] obtain w where
      e: "expose_session tu True q = Some (True,
        session_ready tu (upd_scene (\<lambda>sc. sc\<lparr>scRtsp := w\<rparr>) (q\<lparr>srStartup := Some (deadline_of tu q)\<rparr>)))"
      and w: "shStream (handlers w (scHandler (srScene q))) \<noteq> None" by auto
    define q0 where "q0 = upd_scene (\<lambda>sc. sc\<lparr>scRtsp := w\<rparr>) (q\<lparr>srStartup := Some (deadline_of tu q)\<rparr>)"
    define q1 where "q1 = session_ready tu q0"
    have "session q0 \<noteq> None" using w by (simp add: q0_def)
    then have q1: "expose_session tu True q = Some (True, q1)" "session q1 \<noteq> None"
      using session_ready_same [of q0 tu] e [folded q0_def q1_def] by (simp_all add: q1_def same_video_def)
    obtain r' where "runStream_step tu (RunPacket pkt) r = Some r'"
      using video_turn_returns [OF assms(1), of "RunPacket pkt" tu] assms(2,7) by (auto simp: serves_def frame_def)
    moreover from this have "same_video q1 r'"
      using step q(5) q1(1) all send_video_same by (simp add: session_turn_def)
    ultimately show ?thesis using q1(2) by (auto simp: same_video_def handler_ready_def)
  qed
qed

section \<open>Audio that comes late\<close>

lemma send_video_keeps:
  "send_video tu codec k nalus us raw r = Some r' \<Longrightarrow>
   scFormats (srScene r') = scFormats (srScene r) \<and> srAudio r' = srAudio r \<and> srEnded r' = srEnded r
     \<and> srDeclared r' = srDeclared r \<and> scRebuild (srScene r') = scRebuild (srScene r)
     \<and> scDevice (srScene r') = scDevice (srScene r) \<and> scStream (srScene r') = scStream (srScene r)
     \<and> srLive r' = snd (behind (tuCatchUp tu) raw k (tuNow tu) (tuLog tu) (srLive r))"
  by (auto simp: send_video_def updatePauseState_def write_video_def Let_def
      split: Option.bind_splits prod.splits if_splits option.splits)

lemma encoded_audio_keeps:
  "encoded_audio pkts d ts e p sc = Some (err, p', sc') \<Longrightarrow>
   apMedia p' = apMedia p \<and> apAac p' = apAac p \<and> scFormats sc' = scFormats sc \<and> scRebuild sc' = scRebuild sc
     \<and> scDevice sc' = scDevice sc"
  by (auto simp: encoded_audio_def publish_audio_def audio_base_def write_audio_def Let_def
      split: option.splits prod.splits if_splits)

lemma encoded_audio_returns:
  assumes "flat (mirrors (handlers (scRtsp sc) (scHandler sc))) (scRtsp sc)"
  shows "\<exists>err p' sc'. encoded_audio pkts d ts e p sc = Some (err, p', sc')"
proof -
  have w: "\<exists>w. write_packets m ps (scHandler sc) (scRtsp sc) = Some w" for m ps using write_packets_total [OF assms] .
  then have "\<exists>sc'. write_audio media ps sc = Some sc'" for media ps
    by (cases media) (auto simp: write_audio_def)
  then show ?thesis by (auto simp: encoded_audio_def publish_audio_def Let_def split: option.split prod.split)
qed

lemma late_aac:
  assumes "\<not> track_ready p" "\<not> apRebuildAsked p" "exposed sc"
    and "ParseAACAccessUnits (adts lib) data = Inr (aus, c)" "aacCreate lib c" "aacEncode lib True aus \<noteq> None"
    and "flat (mirrors (handlers (scRtsp sc) (scHandler sc))) (scRtsp sc)"
  shows "\<exists>err p' sc' m. processAAC lib data ts publish p sc = Some (err, p', sc')
    \<and> apMedia p' = Some m \<and> apAac p' \<and> scFormats sc' m = Some (FormatAAC c) \<and> scRebuild sc'
    \<and> scDevice sc' = setAudioKnown (scStream sc) True (scDevice sc)"
proof -
  define e where "e = rtpTimestampForMediaTime ts (acRate c)"
  define q where "q = (if mismatchesDeclared (acRate c) (uint (acChannels c)) p then dropDeclaration p else p)"
  have q: "\<not> track_ready q" "\<not> apRebuildAsked q"
    using assms(1,2) by (auto simp: q_def dropDeclaration_def track_ready_def)
  obtain p1 sc1 where up: "configureAAC lib c e q sc = Inr (p1, sc1)"
    and p1: "apMedia p1 = Some (scNextMedia sc)" "apAac p1" "scFormats sc1 (scNextMedia sc) = Some (FormatAAC c)"
      "scRebuild sc1" "scDevice sc1 = setAudioKnown (scStream sc) True (scDevice sc)"
    using assms(3,5) q(2) by (auto simp: configureAAC_def new_media_def requestRebuildIfLate_def onLateAudio_def Let_def)
  have same: "same_session sc sc1" using configure_same(1) [OF up] .
  then have "flat (mirrors (handlers (scRtsp sc1) (scHandler sc1))) (scRtsp sc1)"
    using assms(7) flat_mirrors_wiring [of "scRtsp sc" "scRtsp sc1"] same by (simp add: same_session_def)
  note enc = encoded_audio_returns [OF this]
  have run: "processAAC lib data ts publish p sc =
      (if \<not> publish then Some (None, p1, sc1)
       else do { pkts \<leftarrow> aacEncode lib True aus;
                 encoded_audio pkts (of_nat (length aus) * samplesPerAU lib) ts e p1 sc1 })"
    using assms(3,4) q(1) up p1(2) same_session_exposed [OF same] by (simp add: processAAC_def q_def e_def Let_def)
  show ?thesis
  proof (cases publish)
    case True
    obtain pkts where pk: "aacEncode lib True aus = Some pkts" using assms(6) by blast
    obtain err p' sc' where r: "encoded_audio pkts (of_nat (length aus) * samplesPerAU lib) ts e p1 sc1 = Some (err, p', sc')"
      using enc by blast
    show ?thesis using run True pk r p1 encoded_audio_keeps [OF r] by auto
  qed (use run p1 in auto)
qed

lemma late_aac_turn:
  assumes "wired r" "\<not> srEnded r" "run_exposed r" "\<not> track_ready (srAudio r)" "\<not> apRebuildAsked (srAudio r)"
    and "Kind a = AAC" "ParseAACAccessUnits (adts (tuLib tu)) (Data a) = Inr (aus, c)"
    and "aacCreate (tuLib tu) c" "aacEncode (tuLib tu) True aus \<noteq> None"
  shows "\<exists>r' m. runStream_step tu (RunPacket a) r = Some r' \<and> same_video r r' \<and> keeps_wiring r r'
    \<and> srDeclared r' = srDeclared r \<and> \<not> srEnded r' \<and> apMedia (srAudio r') = Some m \<and> apAac (srAudio r')
    \<and> scFormats (srScene r') m = Some (FormatAAC c) \<and> scRebuild (srScene r')"
proof -
  obtain ts cl where ts: "audioTimestampForPacket (tuMicro tu) (if HasTimestamp a then Some (TimestampMicrosecs a) else None)
      (srTimeline r) (srLastUS r) (srHaveUS r) = (ts, cl)" by fastforce
  define r0 where "r0 = r\<lparr>srTimeline := cl\<rparr>"
  have "wired r0" using assms(1) by (simp add: r0_def wired_def)
  then obtain b r1 where u: "updatePauseState tu r0 = Some (b, r1)" "r1 = r0\<lparr>srPaused := srPaused r1\<rparr>"
    using updatePause_returns by blast
  have r1: "srAudio r1 = srAudio r" "srScene r1 = srScene r" "srDeclared r1 = srDeclared r" "srEnded r1 = srEnded r"
    by (subst u(2), simp add: r0_def)+
  obtain err p' sc' m where pr: "processAAC (tuLib tu) (Data a) ts (\<not> b \<and> \<not> catchingUp (srLive r1)) (srAudio r1) (srScene r1)
      = Some (err, p', sc')" and p': "apMedia p' = Some m" "apAac p'" "scFormats sc' m = Some (FormatAAC c)" "scRebuild sc'"
    using late_aac [OF assms(4,5,3,7-9)] assms(1) r1 by (fastforce simp: wired_def)
  define r' where "r' = r1\<lparr>srAudio := p', srScene := sc'\<rparr>"
  have audio: "on_audio processAAC tu a r = Some r'"
    using ts u(1) pr by (simp add: on_audio_def r'_def flip: r0_def)
  then have step: "runStream_step tu (RunPacket a) r = Some r'" using assms(2,6) by (simp add: runStream_step_def)
  have "keeps_wiring r r'"
    using processAAC_same [OF pr] r1(2) by (simp add: r'_def keeps_wiring_def same_session_def)
  then show ?thesis
    using step on_audio_same [OF audio processAAC_same] p' r1 assms(2) by (auto simp: r'_def)
qed

section \<open>Rebuilding the session\<close>

definition sent :: "stream_run \<Rightarrow> (nat \<times> rtp_packet) list" where
  "sent r = shSent (handlers (scRtsp (srScene r)) (scHandler (srScene r)))"

lemma rebuild_turn:
  assumes "run_inv r" "wired r" "\<not> srEnded r" "run_exposed r" "scRebuild (srScene r)" "\<not> srDeclared r"
    and "srFormat r = Some f" "frame (codec_of f) pkt" "Kind pkt = IFrame"
  shows "\<exists>r' f'. runStream_step tu (RunPacket pkt) r = Some r' \<and> session r' = None \<and> srFormat r' = Some f'
    \<and> complete_format f' \<and> codec_of f' = codec_of f \<and> keeps_wiring r r' \<and> sent r' = sent r
    \<and> srAudio r' = srAudio r \<and> srVideo r' = srVideo r \<and> \<not> srEnded r' \<and> scFormats (srScene r') = scFormats (srScene r)"
proof -
  obtain f' where f': "format_with (codec_of f) (video_nalus (codec_of f) (Data pkt)) f = Some f'"
    using format_with_total by blast
  have "session r \<noteq> None" using assms(4) by (simp add: handler_ready_def)
  then have all: "complete_format f'" "codec_of f' = codec_of f"
    using format_with_sound [OF f'] assms(1,7) by (simp_all add: run_inv_def format_inv_def)
  define q where "q = upd_scene (\<lambda>sc. sc\<lparr>scRebuild := False\<rparr>) (at_frame tu pkt f' r)"
  have q: "wired q" "keeps_wiring r q" using assms(2) by (simp_all add: q_def wired_def keeps_wiring_def)
  obtain r' where r': "reset_session q = Some r'" "keeps_wiring q r'" using reset_session_returns [OF q(1)] by blast
  have "runStream_step tu (RunPacket pkt) r = Some r'"
    using video_turn [OF assms(7,8,3) f', of tu] r'(1) assms(4-6,9) by (simp add: session_turn_def q_def)
  moreover have "sent r' = sent r"
    using r'(1) reset_sent by (auto simp: reset_session_def reset_def sent_def q_def)
  moreover have "srAudio r' = srAudio r" "\<not> srEnded r'" "scFormats (srScene r') = scFormats (srScene r)"
    using r'(1) assms(3) by (auto simp: reset_session_def q_def)
  ultimately show ?thesis
    using reset_session_gone [OF r'(1)] all keeps_wiring_trans [OF q(2) r'(2)] by (auto simp: q_def)
qed

text \<open>A frame of a stream without a session whose audio is decided.\<close>

lemma serving_turn:
  assumes "run_inv r" "serves tu r" "\<not> srEnded r" "session r = None" "srFormat r = Some f"
    and f': "format_with (codec_of f) (video_nalus (codec_of f) (Data pkt)) f = Some f'" and all: "complete_format f'"
    and "frame (codec_of f) pkt" "\<not> awaitingStartupDecision (tuDecision tu) (deadline_of tu r) (srAudio r)"
  shows "\<exists>q r'. runStream_step tu (RunPacket pkt) r = Some r' \<and> same_video q r'
    \<and> send_video tu (codec_of f) (Kind pkt = IFrame) (video_nalus (codec_of f) (Data pkt))
        (srLastUS (at_frame tu pkt f r)) (raw_time tu pkt r) q = Some r'
    \<and> session q = Some (srVideo r # somes [apMedia (srAudio r)] @ extras (handlers (scRtsp (srScene r)) (scHandler (srScene r))))
    \<and> srFormat q = Some f' \<and> srDeclared q = srDeclared r \<and> keeps_wiring r q
    \<and> wired q \<and> sent q = sent r \<and> srAudio q = srAudio r \<and> srVideo q = srVideo r \<and> srLive q = srLive r
    \<and> srEnded q = srEnded r \<and> scFormats (srScene q) = scFormats (srScene r) \<and> scHandler (srScene q) = scHandler (srScene r)
    \<and> audioKnown (scStream (srScene q)) (scDevice (srScene q)) = Some (track_ready (srAudio r))"
proof -
  have enc: "srEncoder r = Some (codec_of f)" using assms(1,5) by (simp add: run_inv_def format_inv_def)
  define p where "p = at_frame tu pkt f' r"
  have p: "serves tu p" "session p = None" "\<not> run_exposed p" "deadline_of tu p = deadline_of tu r"
    using assms(2,4) by (simp_all add: p_def serves_def wired_def handler_ready_def deadline_of_def cong: option.case_cong)
  then have "\<not> awaitingStartupDecision (tuDecision tu) (deadline_of tu p) (srAudio p)" using assms(9) by (simp add: p_def)
  from expose_decided [OF p(1,2) this] obtain w where
    e: "expose_session tu True p = Some (True,
      session_ready tu (upd_scene (\<lambda>sc. sc\<lparr>scRtsp := w\<rparr>) (p\<lparr>srStartup := Some (deadline_of tu p)\<rparr>)))"
    and w: "same_wiring (scRtsp (srScene p)) w" "\<forall>x. shSent (handlers w x) = shSent (handlers (scRtsp (srScene p)) x)"
      "shStream (handlers w (scHandler (srScene p))) = Some (srVideo p # somes [apMedia (srAudio p)]
        @ extras (handlers (scRtsp (srScene p)) (scHandler (srScene p))))" by blast
  define p0 where "p0 = upd_scene (\<lambda>sc. sc\<lparr>scRtsp := w\<rparr>) (p\<lparr>srStartup := Some (deadline_of tu p)\<rparr>)"
  define q where "q = session_ready tu p0"
  have wq: "wired q"
    using p(1) w(1) flat_wiring [OF w(1)] wired_kept [OF session_ready_keeps [of p0 tu]]
    by (simp add: q_def p0_def serves_def wired_def same_wiring_def)
  have sq: "session q = Some (srVideo r # somes [apMedia (srAudio r)] @ extras (handlers (scRtsp (srScene r)) (scHandler (srScene r))))"
    using w(3) session_ready_same [of p0 tu] by (simp add: q_def p0_def same_video_def p_def)
  have q: "sent q = sent r" "srAudio q = srAudio r" "srVideo q = srVideo r" "srEncoder q = Some (codec_of f)"
    "srLive q = srLive r" "srEnded q = srEnded r" "srFormat q = Some f'" "srDeclared q = srDeclared r" "scFormats (srScene q) = scFormats (srScene r)" "scHandler (srScene q) = scHandler (srScene r)"
    "audioKnown (scStream (srScene q)) (scDevice (srScene q)) = Some (track_ready (srAudio r))"
    using w(2) enc by (simp_all add: q_def p0_def p_def session_ready_def reportAudioHint_run_def sent_def Let_def
        setAudioKnown_def audioKnown_def)
  have kq: "keeps_wiring r q"
    using w(1) by (simp add: q_def p0_def p_def session_ready_def reportAudioHint_run_def keeps_wiring_def Let_def)
  obtain r' where r': "send_video tu (codec_of f) (Kind pkt = IFrame) (video_nalus (codec_of f) (Data pkt))
      (srLastUS p) (raw_time tu pkt r) q = Some r'" using send_video_returns [OF wq q(4)] by blast
  have "srLastUS p = srLastUS (at_frame tu pkt f r)" by (simp add: p_def at_frame_def split: prod.split)
  moreover have "runStream_step tu (RunPacket pkt) r = Some r'"
    using video_turn [OF assms(5,8,3) f', of tu, folded p_def] p(3) e [folded p0_def q_def] r' all by (simp add: session_turn_def)
  ultimately show ?thesis using r' send_video_same [OF r'] wq sq kq q by metis
qed

text \<open>C22: AAC audio that was not declared and starts after the stream was exposed without it is carried within
  three packets, its first one, a keyframe and a frame, when the library accepts them and the handlers are
  attached (\<open>serves\<close>): the audio packet keeps the session as it is and asks for a rebuild, the keyframe drops the
  session, and the frame after it makes one that carries the video and, described by the format that arrived,
  the audio; with it the device is told that the stream has audio, and the loop goes on.\<close>

theorem late_audio_carried:
  assumes "stream_life r" "serves tu3 r" "\<not> srEnded r" "\<not> srDeclared r" "run_exposed r"
    and "\<not> track_ready (srAudio r)" "\<not> apRebuildAsked (srAudio r)"
    and "Kind a = AAC" "ParseAACAccessUnits (adts (tuLib tu1)) (Data a) = Inr (aus, c)"
    and "aacCreate (tuLib tu1) c" "aacEncode (tuLib tu1) True aus \<noteq> None"
    and "srFormat r = Some f" "frame (codec_of f) key" "Kind key = IFrame" "frame (codec_of f) pkt"
  shows "\<exists>r1 r2 r3 m rest. runStream_step tu1 (RunPacket a) r = Some r1 \<and> session r1 = session r
    \<and> runStream_step tu2 (RunPacket key) r1 = Some r2 \<and> session r2 = None
    \<and> runStream_step tu3 (RunPacket pkt) r2 = Some r3 \<and> session r3 = Some (srVideo r # m # rest)
    \<and> scFormats (srScene r3) m = Some (FormatAAC c)
    \<and> audioKnown (scStream (srScene r3)) (scDevice (srScene r3)) = Some True \<and> \<not> srEnded r3"
proof -
  have "wired r" using assms(2) by (simp add: serves_def)
  from late_aac_turn [OF this assms(3,5-11)] obtain r1 m where
    r1: "runStream_step tu1 (RunPacket a) r = Some r1" "same_video r r1" "keeps_wiring r r1" "\<not> srDeclared r1" "\<not> srEnded r1"
    and m: "apMedia (srAudio r1) = Some m" "apAac (srAudio r1)" "scFormats (srScene r1) m = Some (FormatAAC c)"
    and rebuild: "scRebuild (srScene r1)" using assms(4) by auto
  have inv1: "run_inv r1" using runStream_step_inv [OF stream_life_inv [OF assms(1)] r1(1)] .
  have s1: "session r1 = session r" "srFormat r1 = Some f" "srVideo r1 = srVideo r" "run_exposed r1"
    using r1(2) assms(5,12) by (simp_all add: same_video_def handler_ready_def)
  have "wired r1" using wired_kept [OF r1(3)] \<open>wired r\<close> by simp
  from rebuild_turn [OF inv1 this r1(5) s1(4) rebuild r1(4) s1(2) assms(13,14)] obtain r2 f2 where
    r2: "runStream_step tu2 (RunPacket key) r1 = Some r2" "session r2 = None" "srFormat r2 = Some f2" "complete_format f2"
      "codec_of f2 = codec_of f" "keeps_wiring r1 r2" "srAudio r2 = srAudio r1" "srVideo r2 = srVideo r1" "\<not> srEnded r2"
      "scFormats (srScene r2) = scFormats (srScene r1)" by blast
  have inv2: "run_inv r2" using runStream_step_inv [OF inv1 r2(1)] .
  have k: "keeps_wiring r r2" using keeps_wiring_trans [OF r1(3) r2(6)] .
  have serves2: "serves tu3 r2"
    using assms(2) wired_kept [OF k] k by (simp add: serves_def keeps_wiring_def same_wiring_def)
  have dec: "\<not> awaitingStartupDecision (tuDecision tu3) (deadline_of tu3 r2) (srAudio r2)"
    using m r2(7) by (simp add: awaitingStartupDecision_def track_ready_def)
  have "frame (codec_of f2) pkt" using assms(15) r2(5) by simp
  moreover obtain f3 where f3: "format_with (codec_of f2) (video_nalus (codec_of f2) (Data pkt)) f2 = Some f3"
    using format_with_total by blast
  moreover have "complete_format f3" using format_with_sound [OF f3] inv2 r2(3,4) by (simp add: run_inv_def format_inv_def)
  ultimately have frame: "format_with (codec_of f2) (video_nalus (codec_of f2) (Data pkt)) f2 = Some f3" "complete_format f3"
    "frame (codec_of f2) pkt" by blast+
  from serving_turn [OF inv2 serves2 r2(9,2,3) frame dec] obtain q r3 where
    r3: "runStream_step tu3 (RunPacket pkt) r2 = Some r3" "same_video q r3" "scFormats (srScene q) = scFormats (srScene r2)"
      "srEnded q = srEnded r2"
      "audioKnown (scStream (srScene q)) (scDevice (srScene q)) = Some (track_ready (srAudio r2))"
      "session q = Some (srVideo r2 # somes [apMedia (srAudio r2)] @ extras (handlers (scRtsp (srScene r2)) (scHandler (srScene r2))))"
    and send: "send_video tu3 (codec_of f2) (Kind pkt = IFrame) (video_nalus (codec_of f2) (Data pkt))
        (srLastUS (at_frame tu3 pkt f2 r2)) (raw_time tu3 pkt r2) q = Some r3" by blast
  have "session r3 = Some (srVideo r # m # extras (handlers (scRtsp (srScene r2)) (scHandler (srScene r2))))"
    using r3(2,6) r2(7,8) s1(3) m(1) by (simp add: same_video_def somes_def List.map_filter_def)
  moreover have "scFormats (srScene r3) = scFormats (srScene q)" "\<not> srEnded r3"
      "audioKnown (scStream (srScene r3)) (scDevice (srScene r3)) = Some True"
    using send_video_keeps [OF send] r3(4,5) r2(7,9) m(1,2) by (simp_all add: track_ready_def)
  ultimately show ?thesis using r1(1) s1(1) r2(1,2,10) r3(1,3) m(3) by (metis (no_types))
qed

end
