(* ===== verification/StreamFaults.thy ===== *)
theory StreamFaults
  imports StreamServe
begin

text \<open>
  Two places where the loop of a stream (\<^verbatim>\<open>pkg/bridge/stream_run.go\<close>, \<^verbatim>\<open>rtsp.go\<close>) does not do what its
  comments promise, and runs of the loop on concrete packets.
\<close>

section \<open>The keyframe a rebuild waits for\<close>

text \<open>A turn that is not told to pause and not asked to catch up.\<close>

definition steady :: "turn \<Rightarrow> bool" where
  "steady tu = (\<not> OnClient (tuPause tu) \<and> \<not> OnMotion (tuPause tu) \<and> tuCatchUp tu = None)"

lemma steady_pause: "steady tu \<Longrightarrow> updatePauseState tu r = Some (False, r\<lparr>srPaused := None\<rparr>)"
  by (simp add: updatePauseState_def steady_def shouldPause_def Let_def)

lemma steady_send:
  assumes "steady tu" "send_video tu codec k nalus us raw r = Some r'" "wired r"
    and "session r = Some ms" "srVideo r \<in> set ms" "video_packets (tuLib tu) codec nalus = Some pkts"
  shows "\<exists>ts. sent r' = rev (map (\<lambda>p. (srVideo r, p\<lparr>rtpTimestamp := ts\<rparr>)) pkts) @ sent r"
proof -
  have "\<exists>live. write_video (tuLib tu) codec us pkts (r\<lparr>srPaused := None, srLive := live\<rparr>) = Some r'"
    using assms(1,2,6) steady_pause [OF assms(1)]
    by (auto simp: send_video_def behind_def steady_def Let_def split: if_splits)
  moreover obtain ts g where "guard_next (rtpTimestampForClock us (videoClock (tuLib tu) codec)) (srGuard r) = (ts, g)"
    by fastforce
  ultimately obtain w where
    w: "write_packets (srVideo r) (map (\<lambda>p. p\<lparr>rtpTimestamp := ts\<rparr>) pkts) (scHandler (srScene r)) (scRtsp (srScene r)) = Some w"
    and r': "sent r' = shSent (handlers w (scHandler (srScene r)))"
    by (auto simp: write_video_def sent_def Let_def split: prod.splits)
  have "shSent (handlers w (scHandler (srScene r))) = rev (map (Pair (srVideo r)) (map (\<lambda>p. p\<lparr>rtpTimestamp := ts\<rparr>) pkts)) @ sent r"
    using write_packets_own [OF _ assms(4,5) w] assms(3) by (simp add: wired_def sent_def)
  then show ?thesis using r' by (auto simp: comp_def)
qed

text \<open>C40: A rebuild of the session waits for a keyframe so that the rebuilt session starts decodable, but the
  keyframe it waited for is dropped: the turn that gets it only drops the session, and the first packets
  of the new session are those of the next frame, a predicted one, which refers to the keyframe nobody was sent.\<close>

theorem rebuild_drops_keyframe:
  assumes "stream_life r" "serves tu2 r" "\<not> srEnded r" "\<not> srDeclared r" "run_exposed r"
    and "scRebuild (srScene r)" "track_ready (srAudio r)" "srFormat r = Some f"
    and "frame (codec_of f) key" "Kind key = IFrame" "frame (codec_of f) pkt" "Kind pkt = PFrame"
    and "steady tu2" "video_packets (tuLib tu2) (codec_of f) (video_nalus (codec_of f) (Data pkt)) = Some pkts"
  shows "\<exists>r1 r2 ts. runStream_step tu1 (RunPacket key) r = Some r1 \<and> session r1 = None \<and> sent r1 = sent r
    \<and> runStream_step tu2 (RunPacket pkt) r1 = Some r2 \<and> session r2 \<noteq> None
    \<and> sent r2 = rev (map (\<lambda>p. (srVideo r, p\<lparr>rtpTimestamp := ts\<rparr>)) pkts) @ sent r"
proof -
  have inv: "run_inv r" using stream_life_inv [OF assms(1)] .
  have "wired r" using assms(2) by (simp add: serves_def)
  from rebuild_turn [OF inv this assms(3,5,6,4,8,9,10)] obtain r1 f1 where
    r1: "runStream_step tu1 (RunPacket key) r = Some r1" "session r1 = None" "srFormat r1 = Some f1" "complete_format f1"
      "codec_of f1 = codec_of f" "keeps_wiring r r1" "sent r1 = sent r" "srAudio r1 = srAudio r" "srVideo r1 = srVideo r"
      "\<not> srEnded r1" by blast
  have inv1: "run_inv r1" using runStream_step_inv [OF inv r1(1)] .
  have serves1: "serves tu2 r1"
    using assms(2) wired_kept [OF r1(6)] r1(6) by (simp add: serves_def keeps_wiring_def same_wiring_def)
  have dec: "\<not> awaitingStartupDecision (tuDecision tu2) (deadline_of tu2 r1) (srAudio r1)"
    using assms(7) r1(8) by (simp add: awaitingStartupDecision_def)
  obtain f2 where f2: "format_with (codec_of f1) (video_nalus (codec_of f1) (Data pkt)) f1 = Some f2"
    using format_with_total by blast
  have all: "complete_format f2" using format_with_sound [OF f2] inv1 r1(3,4) by (simp add: run_inv_def format_inv_def)
  have fr: "frame (codec_of f1) pkt" using assms(11) r1(5) by simp
  from serving_turn [OF inv1 serves1 r1(10,2,3) f2 all fr dec] obtain q r2 where
    r2: "runStream_step tu2 (RunPacket pkt) r1 = Some r2" "same_video q r2" "wired q" "sent q = sent r1" "srVideo q = srVideo r1"
      "session q = Some (srVideo r1 # somes [apMedia (srAudio r1)] @ extras (handlers (scRtsp (srScene r1)) (scHandler (srScene r1))))"
    and send: "send_video tu2 (codec_of f1) (Kind pkt = IFrame) (video_nalus (codec_of f1) (Data pkt))
        (srLastUS (at_frame tu2 pkt f1 r1)) (raw_time tu2 pkt r1) q = Some r2" by blast
  have "srVideo q \<in> set (srVideo r1 # somes [apMedia (srAudio r1)] @ extras (handlers (scRtsp (srScene r1)) (scHandler (srScene r1))))"
    using r2(5) by simp
  from steady_send [OF assms(13) send r2(3,6) this, of pkts] obtain ts where
    "sent r2 = rev (map (\<lambda>p. (srVideo q, p\<lparr>rtpTimestamp := ts\<rparr>)) pkts) @ sent q"
    using assms(14) r1(5) by auto
  then have "sent r2 = rev (map (\<lambda>p. (srVideo r, p\<lparr>rtpTimestamp := ts\<rparr>)) pkts) @ sent r"
    using r2(4,5) r1(7,9) by simp
  moreover have "session r2 \<noteq> None" using r2(2,6) by (simp add: same_video_def)
  ultimately show ?thesis using r1(1,2,7) r2(1) by blast
qed

section \<open>A declared track and the other codec\<close>

text \<open>The first frame of a stream, which also makes its format.\<close>

lemma first_frame:
  assumes "srFormat r = None" "codec = ''H265'' \<or> codec = ''H264''" "frame codec pkt" "videoCreate (tuLib tu) codec" "\<not> srEnded r"
  shows "runStream_step tu (RunPacket pkt) r = runStream_step tu (RunPacket pkt) (snd (ensure_format (tuLib tu) codec r))"
proof -
  obtain us raw cl where tv: "timeline_video (tuRound tu) (tuMicro tu) (TimestampMicrosecs pkt) (srTimeline r) = ((us, raw), cl)"
    by (metis surj_pair)
  define q where "q = snd (ensure_format (tuLib tu) codec r)"
  define r0 where "r0 = r\<lparr>srTimeline := cl, srLastUS := us, srHaveUS := True\<rparr>"
  define q0 where "q0 = q\<lparr>srTimeline := cl, srLastUS := us, srHaveUS := True\<rparr>"
  have q: "srTimeline q = srTimeline r" "srEnded q = srEnded r"
    using assms(1,4) by (simp_all add: q_def ensure_format_def Let_def)
  have e: "ensure_format (tuLib tu) codec r0 = (True, q0)"
    using assms(1,4) by (simp add: q_def q0_def r0_def ensure_format_def Let_def)
  have f: "srFormat q0 = Some (if codec = ''H265'' then FormatH265 \<lparr>vps = None, sps = None, pps = None\<rparr> else FormatH264 None None)"
    using assms(1,4) by (simp add: q_def q0_def ensure_format_def Let_def)
  then have "change_codec codec k q0 = Some (True, q0)" "ensure_format (tuLib tu) codec q0 = (True, q0)" for k
    using assms(2) by (auto simp: change_codec_def ensure_format_def codecMatchesFormat_def)
  moreover have "change_codec codec k r0 = Some (True, r0)" for k using assms(1) by (simp add: change_codec_def r0_def)
  ultimately have "timed_video tu codec k nalus (TimestampMicrosecs pkt) r = timed_video tu codec k nalus (TimestampMicrosecs pkt) q" for k nalus
    using e by (simp add: timed_video_def tv q(1) flip: r0_def q0_def)
  then show ?thesis
    using assms(2,3,5) q by (auto simp: runStream_step_def on_video_def frame_def Let_def simp flip: q_def)
qed

text \<open>The first complete frame of a stream whose audio is decided makes its session.\<close>

abbreviation fresh_format :: "string \<Rightarrow> video_format" where
  "fresh_format codec \<equiv>
     if codec = ''H265'' then FormatH265 \<lparr>vps = None, sps = None, pps = None\<rparr> else FormatH264 None None"

lemma first_served:
  assumes "run_inv r" "srFormat r = None" "\<not> srEnded r" "srLive r = fresh_edge"
    and "serves tu r" "videoCreate (tuLib tu) codec" "codec = ''H265'' \<or> codec = ''H264''" "frame codec key"
    and "format_with codec (video_nalus codec (Data key)) (fresh_format codec) = Some f" "complete_format f"
    and "\<not> awaitingStartupDecision (tuDecision tu) (deadline_of tu r) (srAudio r)"
  shows "\<exists>r'. runStream_step tu (RunPacket key) r = Some r' \<and> srFormat r' = Some f \<and> keeps_wiring r r'
    \<and> session r' = Some (srVideo r # somes [apMedia (srAudio r)] @ extras (handlers (scRtsp (srScene r)) (scHandler (srScene r))))
    \<and> srAudio r' = srAudio r \<and> \<not> srEnded r' \<and> srDeclared r' = srDeclared r \<and> \<not> catchingUp (srLive r')
    \<and> srVideo r' = srVideo r"
proof -
  obtain q where e: "ensure_format (tuLib tu) codec r = (True, q)"
    using assms(2,6) by (simp add: ensure_format_def Let_def)
  have q: "q = snd (ensure_format (tuLib tu) codec r)" using e by simp
  have fields: "srFormat q = Some (fresh_format codec)" "srAudio q = srAudio r" "srLive q = fresh_edge" "\<not> srEnded q"
    "session q = session r" "srDeclared q = srDeclared r" "srVideo q = srVideo r" "srStartup q = srStartup r" "srWindow q = srWindow r"
    "scRtsp (srScene q) = scRtsp (srScene r)" "scHandler (srScene q) = scHandler (srScene r)"
    using assms(2-4,6) by (simp_all add: q ensure_format_def Let_def)
  have codec: "codec_of (fresh_format codec) = codec" using assms(7) by auto
  have inv: "run_inv q" using ensure_format_inv [OF assms(1) e assms(7)] assms(2) by simp
  have s: "session q = None" using assms(1,2) fields(5) by (simp add: run_inv_def format_inv_def)
  have sv: "serves tu q" using assms(5) fields(10,11) by (simp add: serves_def wired_def)
  have dec: "\<not> awaitingStartupDecision (tuDecision tu) (deadline_of tu q) (srAudio q)"
    using assms(11) fields by (simp add: deadline_of_def cong: option.case_cong)
  have fw: "format_with (codec_of (fresh_format codec)) (video_nalus (codec_of (fresh_format codec)) (Data key)) (fresh_format codec) = Some f"
    "frame (codec_of (fresh_format codec)) key" unfolding codec by (rule assms(9), rule assms(8))
  from serving_turn [OF inv sv fields(4) s fields(1) fw(1) assms(10) fw(2) dec] obtain q1 r' where
    r': "runStream_step tu (RunPacket key) q = Some r'" "same_video q1 r'" "srAudio q1 = srAudio q" "srLive q1 = srLive q"
      "srEnded q1 = srEnded q" "srFormat q1 = Some f" "srDeclared q1 = srDeclared q" "keeps_wiring q q1" "srVideo q1 = srVideo q"
      "session q1 = Some (srVideo q # somes [apMedia (srAudio q)] @ extras (handlers (scRtsp (srScene q)) (scHandler (srScene q))))"
    and send: "send_video tu (codec_of (fresh_format codec)) (Kind key = IFrame) (video_nalus (codec_of (fresh_format codec)) (Data key))
        (srLastUS (at_frame tu key (fresh_format codec) q)) (raw_time tu key q) q1 = Some r'" by blast
  have "keeps_wiring r r'"
    using keeps_wiring_trans [OF ensure_format_keeps [OF e] keeps_wiring_trans [OF r'(8) send_video_wiring [OF send]]] .
  moreover have "\<not> catchingUp (srLive r')"
    using send_video_keeps [OF send] r'(4) fields(3) by (auto simp: behind_def fresh_edge_def set_anchor_def Let_def)
  ultimately show ?thesis
    using first_frame [OF assms(2,7,8,6,3)] r' send_video_keeps [OF send] fields by (simp add: same_video_def flip: q)
qed

text \<open>C25: A track declared from the last run is meant to correct itself when the camera sends something else, and
  for AAC it does. When the camera now sends ADPCM instead, the declared AAC track counts as ready, so no G.711
  encoder is made: the stream is exposed with its first complete keyframe, and the first ADPCM packet after
  it is handed to an encoder that is nil; with a library that needs its encoder, the program panics.\<close>

theorem adpcm_after_declared_aac:
  assumes "\<not> exposed sc" "hint_known h" "hintCodec h = ''aac''"
    and "aacCreate lib \<lparr>acType = aacLC lib, acRate = hintSampleRate h, acChannels = aacChannelConfig (hintChannels h)\<rparr>"
    and "serves tu1 (runStream_start lib (Some h) onHint video sc)" "videoCreate (tuLib tu1) codec"
    and "codec = ''H265'' \<or> codec = ''H264''" "frame codec key"
    and "format_with codec (video_nalus codec (Data key)) (fresh_format codec) = Some f" "complete_format f"
    and "Kind a = ADPCM" "steady tu2"
    and needs_encoder: "\<And>pcma. g711Encode (tuLib tu2) False pcma = None"
  shows "\<exists>r1. runStream_step tu1 (RunPacket key) (runStream_start lib (Some h) onHint video sc) = Some r1
    \<and> run_exposed r1 \<and> runStream_step tu2 (RunPacket a) r1 = None"
proof -
  define r0 where "r0 = runStream_start lib (Some h) onHint video sc"
  have r0: "srFormat r0 = None" "\<not> srEnded r0" "srLive r0 = fresh_edge"
    and p: "track_ready (srAudio r0)" "\<not> apG711 (srAudio r0)"
    using assms(2-4)
    by (auto simp: r0_def runStream_start_def declare_known_def declareAAC_def new_media_def new_publisher_def track_ready_def
        Let_def split: prod.splits)
  have inv0: "run_inv r0" using run_inv_start [OF assms(1)] by (simp add: r0_def)
  have "\<not> awaitingStartupDecision (tuDecision tu1) (deadline_of tu1 r0) (srAudio r0)"
    using p(1) by (simp add: awaitingStartupDecision_def)
  from first_served [OF inv0 r0 assms(5) [folded r0_def] assms(6-10) this] obtain r1 where
    r1: "runStream_step tu1 (RunPacket key) r0 = Some r1" "session r1 \<noteq> None" "srAudio r1 = srAudio r0" "\<not> srEnded r1"
      "\<not> catchingUp (srLive r1)" by auto
  have exp1: "run_exposed r1" using r1(2) by (simp add: handler_ready_def)
  obtain ts cl where ts: "audioTimestampForPacket (tuMicro tu2) (if HasTimestamp a then Some (TimestampMicrosecs a) else None)
      (srTimeline r1) (srLastUS r1) (srHaveUS r1) = (ts, cl)" by fastforce
  have "processADPCM (tuLib tu2) (Data a) ts True (srAudio r0) (srScene r1) = None"
  proof -
    obtain d pcm where d: "adpcm_decode (case apDecoder (srAudio r0) of None \<Rightarrow> \<lparr>predicted = 0, index = 0\<rparr> | Some d \<Rightarrow> d) (Data a)
        = (d, pcm)" by fastforce
    obtain pcma where "encode_pcma pcm = Some pcma" using encode_pcma_total by blast
    then show ?thesis using d p exp1 needs_encoder by (simp add: processADPCM_def track_ready_def)
  qed
  then have "runStream_step tu2 (RunPacket a) r1 = None"
    using assms(11) r1(3-5) ts steady_pause [OF assms(12)] by (simp add: runStream_step_def on_audio_def)
  then show ?thesis using r1(1) exp1 by (auto simp flip: r0_def)
qed

section \<open>Runs on concrete packets\<close>

definition demo_aac :: aac_config where
  "demo_aac = \<lparr>acType = 2, acRate = 16000, acChannels = 1\<rparr>"

text \<open>A library that makes every encoder, one packet per unit, and panics without an encoder.\<close>

definition demo_lib :: rtp_library where
  "demo_lib = \<lparr>aacCreate = (\<lambda>c. True), g711Create = True, videoCreate = (\<lambda>c. True),
     aacEncode = (\<lambda>e aus. if e then Some (Some (map (\<lambda>au. \<lparr>rtpTimestamp = 0, rtpPayload = au\<rparr>) aus)) else None),
     g711Encode = (\<lambda>e b. if e then Some (Some [\<lparr>rtpTimestamp = 0, rtpPayload = b\<rparr>]) else None),
     videoEncode = (\<lambda>c nalus. Some (map (\<lambda>n. \<lparr>rtpTimestamp = 0, rtpPayload = n\<rparr>) nalus)),
     videoClock = (\<lambda>c. 90000), samplesPerAU = 1024, aacLC = 2,
     adts = (\<lambda>data. Some [\<lparr>AudioConfig = demo_aac, AU = data\<rparr>]), initOk = (\<lambda>h. True)\<rparr>"

definition demo_turn :: "int \<Rightarrow> turn" where
  "demo_turn t = \<lparr>tuLib = demo_lib, tuRound = id, tuMicro = t, tuStartup = t, tuDecision = t, tuExposed = t,
     tuConfirm = t, tuNow = t, tuLog = t,
     tuPause = \<lparr>OnMotion = False, OnClient = False, Timeout = 0, Motion = None\<rparr>, tuCatchUp = None\<rparr>"

definition demo_scene :: scene where
  "demo_scene = \<lparr>scHandler = 0, scStream = ''mainStream'', scRtsp = attachServer 0 newRTSPServerHandler,
     scDevice = demo_device, scMeta = new_meta [] [] [], scHints = [], scFormats = Map.empty, scNextMedia = 1,
     scRebuild = False\<rparr>"

definition demo_units :: "(bool \<times> bytes) list" where
  "demo_units = [(True, [0x67, 1, 2, 3]), (True, [0x68, 1, 2, 3]), (False, [0x65, 9])]"

definition demo_frame :: "media_kind \<Rightarrow> u32 \<Rightarrow> media_packet" where
  "demo_frame k t = (empty_packet k)\<lparr>Codec := ''H264'', Data := annexb demo_units, TimestampMicrosecs := t, HasTimestamp := True\<rparr>"

definition demo_start :: "audio_hint option \<Rightarrow> stream_run" where
  "demo_start h = runStream_start demo_lib h True 0 demo_scene"

definition demo_format :: video_format where
  "demo_format = FormatH264 (Some [0x67, 1, 2, 3]) (Some [0x68, 1, 2, 3])"

lemma demo_nalus: "video_nalus ''H264'' (annexb demo_units) = [[0x67, 1, 2, 3], [0x68, 1, 2, 3], [0x65, 9]]"
proof -
  have "SplitAnnexB (annexb demo_units) = map snd demo_units"
    by (rule split_annexb_units) (simp_all add: demo_units_def nal_ok_eval startCodeLen_def upt_rec)
  then show ?thesis
    by (simp add: video_nalus_def ReorderH264NALsForAccessUnit_def demo_units_def h264IsSliceNAL_def h264NALUnitType_def)
qed

lemma demo_frame_ok: "k = IFrame \<or> k = PFrame \<Longrightarrow> frame ''H264'' (demo_frame k t)"
  by (auto simp: frame_def demo_frame_def demo_nalus empty_packet_def)

lemma demo_params:
  "format_with ''H264'' (video_nalus ''H264'' (Data (demo_frame k t))) (FormatH264 s p) = Some demo_format"
  by (simp add: demo_frame_def demo_nalus format_with_def demo_format_def coalesce_def)

lemma demo_format_ok: "complete_format demo_format" "codec_of demo_format = ''H264''"
  by (simp_all add: demo_format_def)

lemma demo_not_exposed: "\<not> exposed demo_scene"
  by (simp add: demo_scene_def handler_ready_def attachServer_def newRTSPServerHandler_def newRTSPStreamHandler_def)

lemma demo_serves: "serves (demo_turn t) (demo_start h)"
proof -
  obtain d w p sc' where k: "declare_known demo_lib h (audio_window demo_scene) demo_scene = (d, w, p, sc')"
    by (metis prod_cases4)
  have sc: "srScene (demo_start h) = sc'" by (simp add: demo_start_def runStream_start_def k)
  have same: "scHandler sc' = 0" "same_wiring (attachServer 0 newRTSPServerHandler) (scRtsp sc')"
    using declare_known_effect [OF k] by (simp_all add: same_session_def demo_scene_def)
  then have "mirrors (handlers (scRtsp sc') 0) = []" "attached (handlers (scRtsp sc') 0)"
    by (simp_all add: same_wiring_def attachServer_def newRTSPServerHandler_def newRTSPStreamHandler_def)
  moreover have "initOk (tuLib (demo_turn t)) 0" by (simp add: demo_turn_def demo_lib_def)
  ultimately show ?thesis using same(1) by (simp add: serves_def wired_def flat_def sc)
qed

lemma demo_lib_simps:
  "tuLib (demo_turn t) = demo_lib" "aacCreate demo_lib c" "videoCreate demo_lib codec" "g711Encode demo_lib False b = None"
  "aacEncode demo_lib True aus = Some (Some (map (\<lambda>au. \<lparr>rtpTimestamp = 0, rtpPayload = au\<rparr>) aus))"
  "ParseAACAccessUnits (adts demo_lib) data = Inr ([data], demo_aac)"
  "video_packets demo_lib ''H264'' nalus = Some (map (\<lambda>n. \<lparr>rtpTimestamp = 0, rtpPayload = n\<rparr>) nalus)"
  by (simp_all add: demo_turn_def demo_lib_def ParseAACAccessUnits_def video_packets_def)

lemma demo_steady: "steady (demo_turn t)"
  by (simp add: steady_def demo_turn_def)

text \<open>The stream of a camera whose profile is known to be silent is served with its first keyframe.\<close>

lemma demo_served:
  "\<exists>r. runStream_step (demo_turn 0) (RunPacket (demo_frame IFrame 0)) (demo_start (Some no_hint)) = Some r
    \<and> stream_life r \<and> session r = Some [0] \<and> srFormat r = Some demo_format \<and> srVideo r = 0 \<and> serves (demo_turn t) r
    \<and> srAudio r = new_publisher \<and> \<not> srDeclared r \<and> \<not> srEnded r"
proof -
  define r0 where "r0 = demo_start (Some no_hint)"
  have r0: "srFormat r0 = None" "\<not> srEnded r0" "srLive r0 = fresh_edge" "srVideo r0 = 0" "\<not> srDeclared r0"
    "srAudio r0 = new_publisher" "deadline_of (demo_turn 0) r0 = 0"
    "extras (handlers (scRtsp (srScene r0)) (scHandler (srScene r0))) = []"
    by (simp_all add: r0_def demo_start_def runStream_start_def declare_known_def no_hint_def hint_known_def deadline_of_def
        demo_turn_def demo_scene_def attachServer_def newRTSPServerHandler_def newRTSPStreamHandler_def)
  have start: "stream_life r0" "run_inv r0"
    unfolding r0_def demo_start_def using life_start run_inv_start demo_not_exposed by blast+
  have sv: "serves (demo_turn 0) r0" and create: "videoCreate (tuLib (demo_turn 0)) ''H264''"
    by (simp_all add: r0_def demo_serves) (simp add: demo_turn_def demo_lib_def)
  have dec: "\<not> awaitingStartupDecision (tuDecision (demo_turn 0)) (deadline_of (demo_turn 0) r0) (srAudio r0)"
    using r0(7) by (simp add: awaitingStartupDecision_def demo_turn_def)
  have fw: "format_with ''H264'' (video_nalus ''H264'' (Data (demo_frame IFrame 0))) (fresh_format ''H264'') = Some demo_format"
    using demo_params by simp
  from first_served [OF start(2) r0(1-3) sv create _ demo_frame_ok fw demo_format_ok(1) dec] obtain r where
    r: "runStream_step (demo_turn 0) (RunPacket (demo_frame IFrame 0)) r0 = Some r" "srFormat r = Some demo_format"
      "keeps_wiring r0 r" "session r = Some [0]" "srAudio r = new_publisher" "\<not> srEnded r" "\<not> srDeclared r" "srVideo r = 0"
    using r0 by (auto simp: new_publisher_def somes_def List.map_filter_def)
  have "serves (demo_turn t) r"
    using demo_serves [of t "Some no_hint"] wired_kept [OF r(3)] r(3)
    by (simp add: serves_def keeps_wiring_def same_wiring_def r0_def)
  moreover have "stream_life r" using life_turn [OF start(1) r(1)] .
  ultimately show ?thesis using r unfolding r0_def by blast
qed

theorem served_with_parameters_witness:
  "\<exists>r. runStream_step (demo_turn 0) (RunPacket (demo_frame IFrame 0)) (demo_start (Some no_hint)) = Some r
    \<and> (\<exists>rest. [0] = srVideo r # rest) \<and> srListed r"
proof -
  obtain r where r: "runStream_step (demo_turn 0) (RunPacket (demo_frame IFrame 0)) (demo_start (Some no_hint)) = Some r"
    "stream_life r" "session r = Some [0]" using demo_served by blast
  then show ?thesis using served_with_parameters [OF r(2,3)] by blast
qed

theorem video_never_stops_stream_witness:
  "\<exists>r'. runStream_step (demo_turn 5) (RunPacket (demo_frame PFrame 3)) (demo_start None) = Some r'
    \<and> srEnded r' = srEnded (demo_start None)"
proof (rule video_never_stops_stream)
  show "stream_life (demo_start None)" unfolding demo_start_def using life_start demo_not_exposed .
  show "wired (demo_start None)" using demo_serves by (simp add: serves_def)
  show "RunPacket (demo_frame PFrame 3) = RunTick \<or>
      (\<exists>pkt. RunPacket (demo_frame PFrame 3) = RunPacket pkt \<and> Kind pkt \<notin> {AAC, ADPCM})"
    by (simp add: demo_frame_def empty_packet_def)
qed

theorem adpcm_after_declared_aac_witness:
  "\<exists>r1. runStream_step (demo_turn 0) (RunPacket (demo_frame IFrame 0))
      (demo_start (Some \<lparr>hintCodec = ''aac'', hintSampleRate = 16000, hintChannels = 1\<rparr>)) = Some r1
    \<and> run_exposed r1 \<and> runStream_step (demo_turn 1) (RunPacket (empty_packet ADPCM)) r1 = None"
  unfolding demo_start_def
  by (rule adpcm_after_declared_aac [where codec = "''H264''" and f = demo_format])
     (use demo_not_exposed demo_serves [unfolded demo_start_def] demo_frame_ok demo_params demo_format_ok demo_steady in
      \<open>simp_all add: hint_known_def demo_lib_simps empty_packet_def\<close>)

theorem late_audio_carried_witness:
  "\<exists>r r1 r2 r3 m rest. session r = Some [0]
    \<and> runStream_step (demo_turn 1) (RunPacket (empty_packet AAC)) r = Some r1 \<and> session r1 = Some [0]
    \<and> runStream_step (demo_turn 2) (RunPacket (demo_frame IFrame 2)) r1 = Some r2 \<and> session r2 = None
    \<and> runStream_step (demo_turn 3) (RunPacket (demo_frame PFrame 3)) r2 = Some r3 \<and> session r3 = Some (0 # m # rest)
    \<and> scFormats (srScene r3) m = Some (FormatAAC demo_aac)
    \<and> audioKnown (scStream (srScene r3)) (scDevice (srScene r3)) = Some True"
proof -
  obtain r where r: "stream_life r" "session r = Some [0]" "srFormat r = Some demo_format" "srVideo r = 0"
    "serves (demo_turn 3) r" "srAudio r = new_publisher" "\<not> srDeclared r" "\<not> srEnded r" using demo_served by blast
  have p: "run_exposed r" "\<not> track_ready (srAudio r)" "\<not> apRebuildAsked (srAudio r)"
    using r(2,6) by (simp_all add: handler_ready_def new_publisher_def track_ready_def)
  have a: "Kind (empty_packet AAC) = AAC"
    "ParseAACAccessUnits (adts (tuLib (demo_turn 1))) (Data (empty_packet AAC)) = Inr ([Data (empty_packet AAC)], demo_aac)"
    "aacCreate (tuLib (demo_turn 1)) demo_aac" "aacEncode (tuLib (demo_turn 1)) True [Data (empty_packet AAC)] \<noteq> None"
    by (simp_all add: demo_lib_simps empty_packet_def)
  have f: "frame (codec_of demo_format) (demo_frame IFrame 2)" "Kind (demo_frame IFrame 2) = IFrame"
    "frame (codec_of demo_format) (demo_frame PFrame 3)"
    using demo_frame_ok demo_format_ok(2) by (simp_all add: demo_frame_def empty_packet_def)
  from late_audio_carried [OF r(1,5,8,7) p a r(3) f, of "demo_turn 2"] show ?thesis using r(2,4) by metis
qed

text \<open>The stream after late audio has asked for a rebuild, and after the keyframe that drops the session.\<close>

lemma demo_rebuild:
  "\<exists>r. stream_life r \<and> run_exposed r \<and> srFormat r = Some demo_format \<and> srVideo r = 0 \<and> serves (demo_turn t) r
    \<and> track_ready (srAudio r) \<and> scRebuild (srScene r) \<and> \<not> srDeclared r \<and> \<not> srEnded r"
proof -
  obtain r where r: "stream_life r" "session r = Some [0]" "srFormat r = Some demo_format" "srVideo r = 0"
    "serves (demo_turn t) r" "srAudio r = new_publisher" "\<not> srDeclared r" "\<not> srEnded r" using demo_served by blast
  have p: "wired r" "run_exposed r" "\<not> track_ready (srAudio r)" "\<not> apRebuildAsked (srAudio r)"
    using r(2,5,6) by (simp_all add: handler_ready_def new_publisher_def track_ready_def serves_def)
  have a: "Kind (empty_packet AAC) = AAC"
    "ParseAACAccessUnits (adts (tuLib (demo_turn 1))) (Data (empty_packet AAC)) = Inr ([Data (empty_packet AAC)], demo_aac)"
    "aacCreate (tuLib (demo_turn 1)) demo_aac" "aacEncode (tuLib (demo_turn 1)) True [Data (empty_packet AAC)] \<noteq> None"
    by (simp_all add: demo_lib_simps empty_packet_def)
  from late_aac_turn [OF p(1) r(8) p(2-4) a] obtain r1 m where
    r1: "runStream_step (demo_turn 1) (RunPacket (empty_packet AAC)) r = Some r1" "same_video r r1" "keeps_wiring r r1"
      "srDeclared r1 = srDeclared r" "\<not> srEnded r1" "apMedia (srAudio r1) = Some m" "apAac (srAudio r1)" "scRebuild (srScene r1)"
    by blast
  have "serves (demo_turn t) r1"
    using r(5) wired_kept [OF r1(3)] r1(3) by (simp add: serves_def keeps_wiring_def same_wiring_def)
  moreover have "run_exposed r1" "srFormat r1 = Some demo_format" "srVideo r1 = 0"
    using r1(2) r(2-4) by (simp_all add: same_video_def handler_ready_def)
  moreover have "track_ready (srAudio r1)" using r1(6,7) by (simp add: track_ready_def)
  ultimately show ?thesis using life_turn [OF r(1) r1(1)] r1(4,5,8) r(7) by auto
qed

theorem rebuild_drops_keyframe_witness:
  "\<exists>r r1 r2. run_exposed r \<and> runStream_step (demo_turn 2) (RunPacket (demo_frame IFrame 2)) r = Some r1 \<and> session r1 = None
    \<and> runStream_step (demo_turn 3) (RunPacket (demo_frame PFrame 3)) r1 = Some r2 \<and> length (sent r2) = length (sent r) + 3"
proof -
  obtain r where r: "stream_life r" "run_exposed r" "srFormat r = Some demo_format" "serves (demo_turn 3) r"
    "track_ready (srAudio r)" "scRebuild (srScene r)" "\<not> srDeclared r" "\<not> srEnded r" using demo_rebuild by blast
  have f: "frame (codec_of demo_format) (demo_frame IFrame 2)" "Kind (demo_frame IFrame 2) = IFrame"
    "frame (codec_of demo_format) (demo_frame PFrame 3)" "Kind (demo_frame PFrame 3) = PFrame"
    using demo_frame_ok demo_format_ok(2) by (simp_all add: demo_frame_def empty_packet_def)
  have v: "video_packets (tuLib (demo_turn 3)) (codec_of demo_format) (video_nalus (codec_of demo_format) (Data (demo_frame PFrame 3)))
      = Some (map (\<lambda>n. \<lparr>rtpTimestamp = 0, rtpPayload = n\<rparr>) [[0x67, 1, 2, 3], [0x68, 1, 2, 3], [0x65, 9]])"
    by (simp add: demo_lib_simps demo_format_ok demo_frame_def demo_nalus)
  from rebuild_drops_keyframe [OF r(1,4,8,7,2,6,5,3) f demo_steady v, of "demo_turn 2"] obtain r1 r2 ts where
    s: "runStream_step (demo_turn 2) (RunPacket (demo_frame IFrame 2)) r = Some r1" "session r1 = None"
      "runStream_step (demo_turn 3) (RunPacket (demo_frame PFrame 3)) r1 = Some r2"
    and "sent r2 = rev (map (\<lambda>p. (srVideo r, p\<lparr>rtpTimestamp := ts\<rparr>))
      (map (\<lambda>n. \<lparr>rtpTimestamp = 0, rtpPayload = n\<rparr>) [[0x67, 1, 2, 3], [0x68, 1, 2, 3], [0x65, 9]])) @ sent r"
    by blast
  then have "length (sent r2) = length (sent r) + 3" by simp
  then show ?thesis using r(2) s by blast
qed

theorem served_within_window_witness:
  "\<exists>r r'. \<not> run_exposed r \<and> runStream_step (demo_turn 9) (RunPacket (demo_frame PFrame 9)) r = Some r' \<and> run_exposed r'"
proof -
  obtain r where r: "stream_life r" "run_exposed r" "srFormat r = Some demo_format" "serves (demo_turn 9) r"
    "track_ready (srAudio r)" "scRebuild (srScene r)" "\<not> srDeclared r" "\<not> srEnded r" using demo_rebuild by blast
  have f: "frame (codec_of demo_format) (demo_frame IFrame 2)" "Kind (demo_frame IFrame 2) = IFrame"
    using demo_frame_ok demo_format_ok(2) by (simp_all add: demo_frame_def empty_packet_def)
  from r(4) have "wired r" by (simp add: serves_def)
  from rebuild_turn [OF stream_life_inv [OF r(1)] this r(8,2,6,7,3) f, of "demo_turn 2"] obtain r1 f1 where
    r1: "runStream_step (demo_turn 2) (RunPacket (demo_frame IFrame 2)) r = Some r1" "session r1 = None" "srFormat r1 = Some f1"
      "complete_format f1" "codec_of f1 = codec_of demo_format" "keeps_wiring r r1" "srAudio r1 = srAudio r" "\<not> srEnded r1" by blast
  have sv: "serves (demo_turn 9) r1"
    using r(4) wired_kept [OF r1(6)] r1(6) by (simp add: serves_def keeps_wiring_def same_wiring_def)
  have ne: "\<not> run_exposed r1" using r1(2) by (simp add: handler_ready_def)
  have "frame (codec_of f1) (demo_frame PFrame 9)" using demo_frame_ok demo_format_ok(2) r1(5) by simp
  from served_within_window [OF life_turn [OF r(1) r1(1)] sv r1(8) ne r1(3,4) this] show ?thesis
    using ne r(5) r1(7) by metis
qed

end
