(* ===== verification/Discovery.thy ===== *)
theory Discovery
  imports UidSession Device
begin

text \<open>
  Finding cameras in the local network: the discovery of \<^verbatim>\<open>pkg/baichuan/discovery.go\<close>, and the loops
  of \<^verbatim>\<open>pkg/baichuan/uid.go\<close> that ask a camera for its UID and open the UDP transport. A turn of a loop
  is given the clock as the code reads it and how its read ended; the sockets and the library's address
  parser are inputs. Times are nanoseconds.
\<close>

section \<open>What every loop is given\<close>

datatype 'd read_end = ReadData 'd | ReadTimeout | ReadFailed

text \<open>
  One turn: whether the context is done, the clock when the deadline is checked, when the next question
  is due and when it was sent, whether the read deadline was set, and how the read ended.
\<close>

record 'd ask_turn =
  atCtx :: bool
  atCheck :: int
  atDue :: int
  atSent :: int
  atSet :: bool
  atRead :: "'d read_end"

record asking =
  askDeadline :: int
  askNext :: "int option"
  askTimes :: "int list"

datatype 'r ask_end = AskCtx | AskTimedOut | AskSocket | AskGot 'r

definition askInterval :: int where "askInterval = sec div 2"

definition ask_due :: "'d ask_turn \<Rightarrow> asking \<Rightarrow> bool" where
  "ask_due t s = (case askNext s of None \<Rightarrow> True | Some n \<Rightarrow> n < atDue t)"

text \<open>The common turn of \<^verbatim>\<open>queryUIDLocal\<close> and \<^verbatim>\<open>dialUIDLocal\<close>; \<open>None\<close> goes on.\<close>

definition ask_turn :: "('d \<Rightarrow> 'r option) \<Rightarrow> 'd ask_turn \<Rightarrow> asking \<Rightarrow> 'r ask_end option \<times> asking" where
  "ask_turn accept t s =
     (if atCtx t then (Some AskCtx, s)
      else if askDeadline s < atCheck t then (Some AskTimedOut, s)
      else
        let s = (if ask_due t s then s\<lparr>askTimes := atDue t # askTimes s, askNext := Some (atSent t + askInterval)\<rparr> else s)
        in if \<not> atSet t then (Some AskSocket, s)
           else (case atRead t of
                   ReadTimeout \<Rightarrow> (None, s)
                 | ReadFailed \<Rightarrow> (Some AskSocket, s)
                 | ReadData d \<Rightarrow> (map_option AskGot (accept d), s)))"

fun ask_run :: "('d \<Rightarrow> 'r option) \<Rightarrow> 'd ask_turn list \<Rightarrow> asking \<Rightarrow> 'r ask_end option \<times> asking" where
  "ask_run accept [] s = (None, s)"
| "ask_run accept (t # ts) s =
     (case ask_turn accept t s of (None, s) \<Rightarrow> ask_run accept ts s | (Some e, s) \<Rightarrow> (Some e, s))"

definition start_asking :: "int \<Rightarrow> asking" where
  "start_asking deadline = \<lparr>askDeadline = deadline, askNext = None, askTimes = []\<rparr>"

section \<open>Opening the UDP transport\<close>

definition uidWakeTimeout :: int where "uidWakeTimeout = 20 * sec"

text \<open>\<open>addr\<close> is the sender of a datagram.\<close>

type_synonym datagram = "bytes \<times> string \<times> int"

definition queryUIDLocal :: "datagram ask_turn list \<Rightarrow> asking \<Rightarrow> string ask_end option \<times> asking" where
  "queryUIDLocal = ask_run (\<lambda>(buf, addr). query_reply buf)"

text \<open>The question of each phase, and the addresses of a datagram: the host first, then every broadcast.\<close>

definition query_packet :: "byte \<Rightarrow> int \<Rightarrow> bytes" where
  "query_packet tid port = control_datagram (ucast tid) (query_xml port)"

definition connect_packet :: "byte \<Rightarrow> string \<Rightarrow> int \<Rightarrow> u32 \<Rightarrow> bytes" where
  "connect_packet tid u port cid = control_datagram (ucast tid) (connect_xml u port cid)"

definition ask_targets :: "'ip option \<Rightarrow> 'ip list \<Rightarrow> ('ip \<times> int) list" where
  "ask_targets hostIP broadcasts =
     concat (map (\<lambda>ip. [(ip, 2015), (ip, 2018)]) ((case hostIP of None \<Rightarrow> [] | Some ip \<Rightarrow> [ip]) @ broadcasts))"

text \<open>
  The environment of a dial: whether the socket could be opened and may broadcast, \<^verbatim>\<open>net.ParseIP\<close>, the
  clock, the random ids, the turns of both phases.
\<close>

record uid_env =
  ueListen :: bool
  ueBroadcast :: bool
  ueParseIP :: "string \<Rightarrow> byte list option"
  ueNow :: int
  ueCid :: u32
  ueQuery :: "datagram ask_turn list"
  ueConnect :: "datagram ask_turn list"

datatype uid_dial_error = UidListen | UidBroadcast | UidNeedsAddress | UidStopped "unit ask_end"

fun stopped :: "'r ask_end \<Rightarrow> unit ask_end" where
  "stopped AskCtx = AskCtx"
| "stopped AskTimedOut = AskTimedOut"
| "stopped AskSocket = AskSocket"
| "stopped (AskGot r) = AskGot ()"

definition host_only :: "string \<Rightarrow> string" where
  "host_only host =
     (if host = [] then host else (case SplitHostPort host of Some (h, p) \<Rightarrow> h | None \<Rightarrow> host))"

definition dial_deadline :: "uid_env \<Rightarrow> int \<Rightarrow> int" where
  "dial_deadline env timeout = ueNow env + (if timeout < uidWakeTimeout then uidWakeTimeout else timeout)"

text \<open>The connecting phase: the session, and whether the socket is still open; \<open>None\<close> is still asking.\<close>

definition connectUIDLocal ::
  "xml_parser \<Rightarrow> uid_env \<Rightarrow> string \<Rightarrow> int \<Rightarrow> ((uid_dial_error + uid_session) \<times> bool) option" where
  "connectUIDLocal parser env u deadline =
     (case ask_run (\<lambda>(buf, addr). dial_reply parser u (ueCid env) addr buf) (ueConnect env) (start_asking deadline) of
        (None, s) \<Rightarrow> None
      | (Some (AskGot session), s) \<Rightarrow> Some (Inr session, True)
      | (Some e, s) \<Rightarrow> Some (Inl (UidStopped (stopped e)), False))"

definition dialUIDLocal ::
  "xml_parser \<Rightarrow> uid_env \<Rightarrow> string \<Rightarrow> string \<Rightarrow> int \<Rightarrow> ((uid_dial_error + uid_session) \<times> bool) option" where
  "dialUIDLocal parser env u host timeout =
     (if \<not> ueListen env then Some (Inl UidListen, False)
      else if \<not> ueBroadcast env then Some (Inl UidBroadcast, False)
      else
        let hostIP = ueParseIP env (host_only host); deadline = dial_deadline env timeout in
        if u \<noteq> [] then connectUIDLocal parser env u deadline
        else if hostIP = None then Some (Inl UidNeedsAddress, False)
        else (case queryUIDLocal (ueQuery env) (start_asking deadline) of
                (None, s) \<Rightarrow> None
              | (Some (AskGot u), s) \<Rightarrow> connectUIDLocal parser env u deadline
              | (Some e, s) \<Rightarrow> Some (Inl (UidStopped (stopped e)), False)))"

section \<open>The addresses to broadcast to\<close>

text \<open>An address of an interface: IPv4 with its mask, or anything else.\<close>

datatype iface_addr = Addr4 "byte list" "byte list" | AddrOther

record iface =
  ifUp :: bool
  ifLoopback :: bool
  ifAddrs :: "iface_addr list option"

fun addr_broadcast :: "iface_addr \<Rightarrow> byte list set" where
  "addr_broadcast (Addr4 ip netmask) = (if length netmask = 4 then {ipv4_broadcast ip netmask} else {})"
| "addr_broadcast AddrOther = {}"

definition iface_broadcasts :: "iface \<Rightarrow> byte list set" where
  "iface_broadcasts i =
     (if \<not> ifUp i \<or> ifLoopback i then {}
      else (case ifAddrs i of None \<Rightarrow> {} | Some as \<Rightarrow> \<Union> (addr_broadcast ` set as)))"

definition ipv4Broadcasts :: "iface list option \<Rightarrow> byte list set" where
  "ipv4Broadcasts ifaces =
     (case ifaces of
        None \<Rightarrow> {[255, 255, 255, 255]}
      | Some is \<Rightarrow> insert [255, 255, 255, 255] (\<Union> (iface_broadcasts ` set is)))"

section \<open>The replies of the discovery\<close>

record discovered =
  ddIP :: string
  ddMAC :: string
  ddName :: string
  ddIdent :: string
  ddUID :: string

definition discoveryReplyLen :: nat where "discoveryReplyLen = 388"
definition discoveryPing :: bytes where "discoveryPing = [0xAA, 0xAA, 0, 0]"

definition nullTermString :: "bytes \<Rightarrow> nat \<Rightarrow> nat \<Rightarrow> string" where
  "nullTermString data offset maxLen =
     string_of (takeWhile (\<lambda>b. b \<noteq> 0) (slice data offset (min (offset + maxLen) (length data))))"

definition lower_hex :: string where
  "lower_hex = ''0123456789abcdef''"

definition hex_byte :: "byte \<Rightarrow> string" where
  "hex_byte b = [lower_hex ! unat (drop_bit 4 b), lower_hex ! unat (b AND 0x0F)]"

fun join_colon :: "string list \<Rightarrow> string" where
  "join_colon [] = []"
| "join_colon [s] = s"
| "join_colon (s # ss) = s @ '':'' @ join_colon ss"

definition formatMAC :: "bytes \<Rightarrow> string" where
  "formatMAC raw = (if raw = replicate (length raw) 0 then [] else join_colon (map hex_byte raw))"

definition parseDiscoveryReply :: "bytes \<Rightarrow> discovered option" where
  "parseDiscoveryReply data =
     (if length data \<noteq> discoveryReplyLen then None
      else if slice data 104 108 \<noteq> discoveryPing then None
      else
        let d = \<lparr>ddIP = nullTermString data 108 20, ddMAC = nullTermString data 164 18,
                 ddName = nullTermString data 132 32, ddIdent = nullTermString data 58 18,
                 ddUID = nullTermString data 228 32\<rparr>;
            d = (if ddMAC d = [] then d\<lparr>ddMAC := formatMAC (slice data 80 86)\<rparr> else d)
        in if ddIP d = [] then None else Some d)"

section \<open>Scanning\<close>

definition discoveryPingInterval :: int where "discoveryPingInterval = sec div 2"

record scan =
  scDeadline :: int
  scNextPing :: int
  scPings :: "int list"
  scSeen :: "string set"
  scDevices :: "discovered list"

datatype scan_end = ScanCtx | ScanDone | ScanFailed

definition discovery_key :: "discovered \<Rightarrow> string" where
  "discovery_key d = (if ddMAC d = [] then ddIP d else ddMAC d)"

definition note_device :: "discovered \<Rightarrow> scan \<Rightarrow> scan" where
  "note_device d s =
     (if discovery_key d \<in> scSeen s then s
      else s\<lparr>scSeen := insert (discovery_key d) (scSeen s), scDevices := scDevices s @ [d]\<rparr>)"

text \<open>The deadline is the earlier of the timeout's, five seconds when none is given, and the context's.\<close>

definition start_scan :: "int \<Rightarrow> int \<Rightarrow> int option \<Rightarrow> int \<Rightarrow> scan" where
  "start_scan now timeout ctxDeadline pinged =
     (let deadline = now + (if timeout \<le> 0 then 5 * sec else timeout);
          deadline = (case ctxDeadline of Some d \<Rightarrow> if d < deadline then d else deadline | None \<Rightarrow> deadline)
      in \<lparr>scDeadline = deadline, scNextPing = pinged + discoveryPingInterval, scPings = [pinged], scSeen = {}, scDevices = []\<rparr>)"

text \<open>Here \<open>atCheck\<close> is the one time a turn reads.\<close>

definition scan_turn :: "bytes ask_turn \<Rightarrow> scan \<Rightarrow> scan_end option \<times> scan" where
  "scan_turn t s =
     (let now = atCheck t in
      if atCtx t then (Some ScanCtx, s)
      else if scDeadline s < now then (Some ScanDone, s)
      else
        let s = (if scNextPing s < now then s\<lparr>scPings := now # scPings s, scNextPing := now + discoveryPingInterval\<rparr> else s)
        in if \<not> atSet t then (Some ScanFailed, s)
           else (case atRead t of
                   ReadTimeout \<Rightarrow> (None, s)
                 | ReadFailed \<Rightarrow> (Some ScanFailed, s)
                 | ReadData buf \<Rightarrow> (None, case parseDiscoveryReply buf of None \<Rightarrow> s | Some d \<Rightarrow> note_device d s)))"

fun Discover :: "bytes ask_turn list \<Rightarrow> scan \<Rightarrow> scan_end option \<times> scan" where
  "Discover [] s = (None, s)"
| "Discover (t # ts) s = (case scan_turn t s of (None, s) \<Rightarrow> Discover ts s | (Some e, s) \<Rightarrow> (Some e, s))"

section \<open>Watching\<close>

definition discoveryWatchInterval :: int where "discoveryWatchInterval = 15 * sec"
definition discoveryBurstPings :: nat where "discoveryBurstPings = 3"
definition discoveryWarmup :: int where "discoveryWarmup = 20 * sec"

text \<open>The queued request of \<^verbatim>\<open>Ping\<close>, the devices reported, the pings sent.\<close>

record discovery_watcher =
  waQueued :: bool
  waReported :: "discovered list"
  waPings :: nat

definition NewWatcher :: discovery_watcher where
  "NewWatcher = \<lparr>waQueued = False, waReported = [], waPings = 0\<rparr>"

definition Ping :: "discovery_watcher \<Rightarrow> discovery_watcher" where
  "Ping w = w\<lparr>waQueued := True\<rparr>"

text \<open>One read of \<^verbatim>\<open>Run\<close>: its end with the error it returns, or the discovery_watcher after it.\<close>

definition Run_turn :: "bool \<Rightarrow> bytes read_end \<Rightarrow> discovery_watcher \<Rightarrow> bool option \<times> discovery_watcher" where
  "Run_turn ctxDone r w =
     (case r of
        ReadData buf \<Rightarrow> (None, case parseDiscoveryReply buf of None \<Rightarrow> w | Some d \<Rightarrow> w\<lparr>waReported := waReported w @ [d]\<rparr>)
      | _ \<Rightarrow> (Some (\<not> ctxDone), w))"

definition sendDiscoveryPing :: "discovery_watcher \<Rightarrow> discovery_watcher" where
  "sendDiscoveryPing w = w\<lparr>waPings := waPings w + 1\<rparr>"

text \<open>\<open>pauses\<close> says of each pause between two pings whether it ended with the context.\<close>

fun burst_from :: "nat \<Rightarrow> bool list \<Rightarrow> discovery_watcher \<Rightarrow> discovery_watcher" where
  "burst_from left pauses w =
     (let w = sendDiscoveryPing w in
      case left of
        0 \<Rightarrow> w
      | Suc n \<Rightarrow> (case pauses of [] \<Rightarrow> w | over # pauses \<Rightarrow> if over then w else burst_from n pauses w))"

definition burst :: "bool list \<Rightarrow> discovery_watcher \<Rightarrow> discovery_watcher" where
  "burst pauses w = burst_from (discoveryBurstPings - 1) pauses w"

datatype tick_end = TickCtx | TickTimer | TickPing

text \<open>The wait takes the queued request when it is what ended it.\<close>

definition waitTick :: "tick_end \<Rightarrow> discovery_watcher \<Rightarrow> bool \<times> discovery_watcher" where
  "waitTick e w = (case e of TickCtx \<Rightarrow> (False, w) | TickTimer \<Rightarrow> (True, w) | TickPing \<Rightarrow> (True, w\<lparr>waQueued := False\<rparr>))"

definition pingLoop_turn :: "int \<Rightarrow> int \<Rightarrow> bool list \<Rightarrow> tick_end \<Rightarrow> discovery_watcher \<Rightarrow> bool \<times> int \<times> discovery_watcher" where
  "pingLoop_turn warmUntil now pauses e w =
     (let (wait, w) = (if now < warmUntil then (discoveryPingInterval, sendDiscoveryPing w)
                       else (discoveryWatchInterval, burst pauses w));
          (go, w) = waitTick e w
      in (go, wait, w))"

section \<open>The sockets\<close>

text \<open>Opening them: the errors of the two binds and of the broadcast option are inputs. The set holds what is open.\<close>

datatype disc_socket = ListenSocket | SendSocket

definition openDiscoverySockets ::
  "string option \<Rightarrow> string option \<Rightarrow> string option \<Rightarrow> disc_socket set \<Rightarrow> (string + unit) \<times> disc_socket set" where
  "openDiscoverySockets listenErr sendErr optErr socks =
     (case listenErr of
        Some e \<Rightarrow> (Inl e, socks)
      | None \<Rightarrow>
          let socks = insert ListenSocket socks in
          (case sendErr of
             Some e \<Rightarrow> (Inl e, socks - {ListenSocket})
           | None \<Rightarrow>
               let socks = insert SendSocket socks in
               (case optErr of
                  Some e \<Rightarrow> (Inl e, socks - {ListenSocket} - {SendSocket})
                | None \<Rightarrow> (Inr (), socks))))"

text \<open>\<^verbatim>\<open>Run\<close> with its sockets and the deferred closes: the reads in order, each with whether the context is over.\<close>

fun Run_reads :: "(bool \<times> bytes read_end) list \<Rightarrow> discovery_watcher \<Rightarrow> bool option \<times> discovery_watcher" where
  "Run_reads [] w = (None, w)"
| "Run_reads ((ctxDone, r) # rs) w =
     (case Run_turn ctxDone r w of (None, w) \<Rightarrow> Run_reads rs w | (Some err, w) \<Rightarrow> (Some err, w))"

definition Watcher_Run ::
  "string option \<Rightarrow> string option \<Rightarrow> string option \<Rightarrow> (bool \<times> bytes read_end) list \<Rightarrow> discovery_watcher \<Rightarrow>
   disc_socket set \<Rightarrow> bool option \<times> discovery_watcher \<times> disc_socket set" where
  "Watcher_Run listenErr sendErr optErr reads w socks =
     (case openDiscoverySockets listenErr sendErr optErr socks of
        (Inl e, socks) \<Rightarrow> (Some True, w, socks)
      | (Inr _, socks) \<Rightarrow>
          (case Run_reads reads w of
             (None, w) \<Rightarrow> (None, w, socks)
           | (Some err, w) \<Rightarrow> (Some err, w, socks - {SendSocket} - {ListenSocket})))"

section \<open>A reply as cameras send it\<close>

text \<open>A field of the reply: the string, zero padded.\<close>

definition padded :: "nat \<Rightarrow> string \<Rightarrow> bytes" where
  "padded n s = bytes_of s @ replicate (n - length s) 0"

text \<open>The bytes between the fields are the camera's own.\<close>

definition discovery_reply :: "bytes \<Rightarrow> bytes \<Rightarrow> bytes \<Rightarrow> bytes \<Rightarrow> bytes \<Rightarrow> bytes \<Rightarrow> bytes \<Rightarrow> discovered \<Rightarrow> bytes \<Rightarrow> bytes" where
  "discovery_reply a b c e f g h d mac =
     a @ padded 18 (ddIdent d) @ b @ mac @ c @ discoveryPing @ padded 20 (ddIP d) @ e @ padded 32 (ddName d)
       @ padded 18 (ddMAC d) @ f @ padded 32 (ddUID d) @ g @ h"

definition fits :: "nat \<Rightarrow> string \<Rightarrow> bool" where
  "fits n s = (length s \<le> n \<and> CHR 0x00 \<notin> set s)"

lemma length_padded: "fits n s \<Longrightarrow> length (padded n s) = n"
  by (simp add: padded_def fits_def)

lemma nullTerm_padded:
  assumes "fits n s"
  shows "string_of (takeWhile (\<lambda>b. b \<noteq> 0) (padded n s)) = s"
proof -
  have "of_char c \<noteq> (0 :: byte)" if "c \<in> set s" for c
  proof
    assume "of_char c = (0 :: byte)"
    then have "c = CHR 0x00" using char_of_byte [of c] by (auto simp: char_of_def)
    then show False using assms that by (simp add: fits_def)
  qed
  then have "\<forall>b \<in> set (bytes_of s). b \<noteq> 0" by (auto simp: bytes_of_def)
  then have "takeWhile (\<lambda>b. b \<noteq> 0) (padded n s) = bytes_of s"
    by (simp add: padded_def takeWhile_append takeWhile_eq_all_conv)
  then show ?thesis by simp
qed

lemma nullTerm_field:
  assumes "data = pre @ padded n s @ rest" "length pre = offset" "fits n s"
  shows "nullTermString data offset n = s"
proof -
  have "slice data offset (min (offset + n) (length data)) = padded n s"
    using assms length_padded [OF assms(3)] by (simp add: slice_def)
  then show ?thesis using nullTerm_padded [OF assms(3)] by (simp add: nullTermString_def)
qed

text \<open>A camera's reply to the discovery is read as the camera means it: whatever lies between its fields,
  address, name, identifier, UID and MAC come out as they were put in, the MAC taken from its six raw
  bytes when its text is empty; a reply without an address is no device.\<close>

theorem discovery_reply_read:
  assumes "length a = 58" "length b = 4" "length mac = 6" "length c = 18" "length e = 4" "length f = 46"
    and "length (g @ h) = 128"
    and "fits 18 (ddIdent d)" "fits 20 (ddIP d)" "fits 32 (ddName d)" "fits 18 (ddMAC d)" "fits 32 (ddUID d)"
  shows "parseDiscoveryReply (discovery_reply a b c e f g h d mac) =
    (if ddIP d = [] then None
     else Some (d\<lparr>ddMAC := if ddMAC d = [] then formatMAC mac else ddMAC d\<rparr>))"
proof -
  let ?data = "discovery_reply a b c e f g h d mac"
  note len = length_padded [OF assms(8)] length_padded [OF assms(9)] length_padded [OF assms(10)]
    length_padded [OF assms(11)] length_padded [OF assms(12)]
  have total: "length ?data = discoveryReplyLen"
    using assms(1-7) len by (simp add: discovery_reply_def discoveryReplyLen_def discoveryPing_def)
  have echo: "slice ?data 104 108 = discoveryPing" and raw: "slice ?data 80 86 = mac"
    using assms(1-4) len by (simp_all add: discovery_reply_def slice_def discoveryPing_def)
  have ident: "nullTermString ?data 58 18 = ddIdent d"
    by (rule nullTerm_field [OF _ _ assms(8), where pre = a]) (use assms(1) in \<open>simp_all add: discovery_reply_def\<close>)
  have ip: "nullTermString ?data 108 20 = ddIP d"
    by (rule nullTerm_field [OF _ _ assms(9), where pre = "a @ padded 18 (ddIdent d) @ b @ mac @ c @ discoveryPing"])
      (use assms(1-5) len in \<open>simp_all add: discovery_reply_def discoveryPing_def\<close>)
  have name: "nullTermString ?data 132 32 = ddName d"
    by (rule nullTerm_field [OF _ _ assms(10), where
          pre = "a @ padded 18 (ddIdent d) @ b @ mac @ c @ discoveryPing @ padded 20 (ddIP d) @ e"])
      (use assms(1-5) len in \<open>simp_all add: discovery_reply_def discoveryPing_def\<close>)
  have mac_text: "nullTermString ?data 164 18 = ddMAC d"
    by (rule nullTerm_field [OF _ _ assms(11), where
          pre = "a @ padded 18 (ddIdent d) @ b @ mac @ c @ discoveryPing @ padded 20 (ddIP d) @ e @ padded 32 (ddName d)"])
      (use assms(1-5) len in \<open>simp_all add: discovery_reply_def discoveryPing_def\<close>)
  have uid: "nullTermString ?data 228 32 = ddUID d"
    by (rule nullTerm_field [OF _ _ assms(12), where
          pre = "a @ padded 18 (ddIdent d) @ b @ mac @ c @ discoveryPing @ padded 20 (ddIP d) @ e @ padded 32 (ddName d)
            @ padded 18 (ddMAC d) @ f"])
      (use assms(1-6) len in \<open>simp_all add: discovery_reply_def discoveryPing_def\<close>)
  show ?thesis
    using total echo raw ident ip name mac_text uid by (auto simp: parseDiscoveryReply_def Let_def)
qed

theorem discovery_reply_read_witness:
  "parseDiscoveryReply (discovery_reply (replicate 58 7) (replicate 4 7) (replicate 18 7) (replicate 4 7) (replicate 46 7)
      (replicate 100 7) (replicate 28 0) \<lparr>ddIP = ''10.0.0.7'', ddMAC = [], ddName = ''door'', ddIdent = ''IPC'', ddUID = ''U1''\<rparr>
      [0xEC, 0x71, 0xDB, 0, 1, 2]) =
    Some \<lparr>ddIP = ''10.0.0.7'', ddMAC = ''ec:71:db:00:01:02'', ddName = ''door'', ddIdent = ''IPC'', ddUID = ''U1''\<rparr>"
  by (subst discovery_reply_read) (simp_all add: fits_def formatMAC_def hex_byte_def lower_hex_def)

section \<open>What a scan finds\<close>

text \<open>The devices of the replies that were read, in the order of their arrival.\<close>

definition heard :: "bytes ask_turn list \<Rightarrow> discovered list" where
  "heard ts = List.map_filter (\<lambda>t. case atRead t of ReadData buf \<Rightarrow> parseDiscoveryReply buf | _ \<Rightarrow> None) ts"

text \<open>The first of the devices of each key.\<close>

fun firsts :: "string set \<Rightarrow> discovered list \<Rightarrow> discovered list" where
  "firsts seen [] = []"
| "firsts seen (d # ds) =
     (if discovery_key d \<in> seen then firsts seen ds else d # firsts (insert (discovery_key d) seen) ds)"

lemma firsts_spec:
  "set (firsts seen ds) \<subseteq> set ds \<and> distinct (map discovery_key (firsts seen ds))
   \<and> discovery_key ` set (firsts seen ds) = discovery_key ` set ds - seen"
  by (induction seen ds rule: firsts.induct) (auto simp: image_iff)

lemma scan_turn_goes:
  assumes "scan_turn t s = (None, s')"
  shows "scSeen s' = scSeen s \<union> discovery_key ` set (heard [t]) \<and> scDevices s' = scDevices s @ firsts (scSeen s) (heard [t])
    \<and> scDeadline s' = scDeadline s"
  using assms
  by (auto simp: scan_turn_def heard_def List.map_filter_def note_device_def Let_def
      split: if_splits read_end.splits option.splits)

lemma heard_Cons: "heard (t # ts) = heard [t] @ heard ts"
  by (simp add: heard_def List.map_filter_def)

lemma firsts_append: "firsts seen (xs @ ys) = firsts seen xs @ firsts (seen \<union> discovery_key ` set xs) ys"
  by (induction seen xs rule: firsts.induct) (auto simp: insert_absorb)

text \<open>The turns before the one that ends the scan, all of them when none does.\<close>

fun live_turns :: "bytes ask_turn list \<Rightarrow> scan \<Rightarrow> bytes ask_turn list" where
  "live_turns [] s = []"
| "live_turns (t # ts) s = (case scan_turn t s of (None, s) \<Rightarrow> t # live_turns ts s | (Some e, s) \<Rightarrow> [])"

lemma Discover_devices:
  "Discover ts s = (e, s') \<Longrightarrow> scDevices s' = scDevices s @ firsts (scSeen s) (heard (live_turns ts s))"
proof (induction ts arbitrary: s)
  case (Cons t ts)
  obtain o' s1 where t: "scan_turn t s = (o', s1)" by fastforce
  show ?case
  proof (cases o')
    case None
    have "scDevices s' = scDevices s1 @ firsts (scSeen s1) (heard (live_turns ts s1))" using Cons t None by simp
    then show ?thesis
      using scan_turn_goes [OF t [unfolded None]] t None by (simp add: heard_Cons [of t "live_turns ts s1"] firsts_append)
  next
    case (Some x)
    then have "scDevices s' = scDevices s" using Cons.prems t
      by (auto simp: scan_turn_def Let_def split: if_splits read_end.splits)
    then show ?thesis using t Some by (simp add: heard_def List.map_filter_def)
  qed
qed (simp add: heard_def List.map_filter_def)

text \<open>A scan of the local network returns each device that answered once, under its MAC or, without one, its
  address, with what it said first, in the order the devices were first heard, however often they repeat
  themselves and whatever else arrives on the port.\<close>

theorem discovered_once:
  assumes "Discover ts (start_scan now timeout ctx pinged) = (e, s)"
  shows "scDevices s = firsts {} (heard (live_turns ts (start_scan now timeout ctx pinged)))
    \<and> distinct (map discovery_key (scDevices s))
    \<and> discovery_key ` set (scDevices s) = discovery_key ` set (heard (live_turns ts (start_scan now timeout ctx pinged)))"
proof -
  have "scDevices s = firsts {} (heard (live_turns ts (start_scan now timeout ctx pinged)))"
    using Discover_devices [OF assms] by (simp add: start_scan_def Let_def)
  then show ?thesis using firsts_spec [of "{}"] by auto
qed

text \<open>A scan that hears one camera twice and something else once.\<close>

definition demo_device :: discovered where
  "demo_device = \<lparr>ddIP = ''10.0.0.7'', ddMAC = ''ec:71:db:00:01:02'', ddName = ''door'', ddIdent = ''IPC'', ddUID = ''U1''\<rparr>"

definition demo_reply :: bytes where
  "demo_reply = discovery_reply (replicate 58 7) (replicate 4 7) (replicate 18 7) (replicate 4 7) (replicate 46 7)
     (replicate 100 7) (replicate 28 0) (demo_device\<lparr>ddMAC := []\<rparr>) [0xEC, 0x71, 0xDB, 0, 1, 2]"

definition demo_scan :: "bytes ask_turn list" where
  "demo_scan = map (\<lambda>d. \<lparr>atCtx = False, atCheck = 0, atDue = 0, atSent = 0, atSet = True, atRead = ReadData d\<rparr>)
     [demo_reply, [1, 2, 3], demo_reply]"

lemma demo_reply_parsed: "parseDiscoveryReply demo_reply = Some demo_device"
  by code_simp

theorem discovered_once_witness:
  "\<exists>s. Discover demo_scan (start_scan 0 0 None 0) = (None, s) \<and> scDevices s = [demo_device]
     \<and> distinct (map discovery_key (scDevices s))"
proof -
  have short: "parseDiscoveryReply [1, 2, 3] = None" by (simp add: parseDiscoveryReply_def discoveryReplyLen_def)
  obtain s where s: "Discover demo_scan (start_scan 0 0 None 0) = (None, s)" "scDevices s = [demo_device]"
    by (simp add: demo_scan_def scan_turn_def start_scan_def demo_reply_parsed short note_device_def
        discovery_key_def demo_device_def discoveryPingInterval_def sec_def)
  show ?thesis using discovered_once [OF s(1)] s by blast
qed

section \<open>How often a camera is asked\<close>

text \<open>A clock that does not run backwards.\<close>

fun clock_ok :: "int \<Rightarrow> 'd ask_turn list \<Rightarrow> bool" where
  "clock_ok now [] = True"
| "clock_ok now (t # ts) = (now \<le> atCheck t \<and> atCheck t \<le> atDue t \<and> atDue t \<le> atSent t \<and> clock_ok (atSent t) ts)"

definition asking_ok :: "asking \<Rightarrow> bool" where
  "asking_ok s = (spaced askInterval (askTimes s)
     \<and> (case askNext s of None \<Rightarrow> askTimes s = [] | Some n \<Rightarrow> (\<forall>a \<in> set (askTimes s). a + askInterval \<le> n)))"

lemma ask_turn_ok:
  assumes "asking_ok s" "atDue t \<le> atSent t" "ask_turn accept t s = (e, s')"
  shows "asking_ok s'"
proof -
  define s1 where "s1 = (if ask_due t s then s\<lparr>askTimes := atDue t # askTimes s, askNext := Some (atSent t + askInterval)\<rparr> else s)"
  have "asking_ok s1"
  proof (cases "ask_due t s")
    case True
    then have "\<forall>a \<in> set (askTimes s). a + askInterval \<le> atDue t"
      using assms(1) by (auto simp: asking_ok_def ask_due_def split: option.splits)
    moreover have "0 \<le> askInterval" by (simp add: askInterval_def sec_def)
    ultimately show ?thesis
      using assms(1,2) True by (auto simp: s1_def asking_ok_def spaced_def)
  qed (use assms(1) in \<open>simp add: s1_def\<close>)
  moreover have "s' = s \<or> s' = s1"
    using assms(3) by (auto simp: ask_turn_def s1_def Let_def split: if_splits read_end.splits)
  ultimately show ?thesis using assms(1) by blast
qed

lemma ask_run_ok:
  "asking_ok s \<Longrightarrow> clock_ok now ts \<Longrightarrow> ask_run accept ts s = (e, s') \<Longrightarrow> asking_ok s'"
proof (induction ts arbitrary: s now)
  case (Cons t ts)
  obtain e1 s1 where t: "ask_turn accept t s = (e1, s1)" by fastforce
  have "asking_ok s1" using ask_turn_ok [OF Cons.prems(1) _ t] Cons.prems(2) by simp
  then show ?case using Cons.IH [of s1 "atSent t"] Cons.prems t by (auto split: option.splits)
qed simp

lemma ask_run_deadline:
  "askDeadline (snd (ask_run accept ts s)) = askDeadline s"
proof (induction ts arbitrary: s)
  case (Cons t ts)
  have "askDeadline (snd (ask_turn accept t s)) = askDeadline s"
    by (simp add: ask_turn_def Let_def split: read_end.split)
  then show ?case using Cons.IH by (auto split: prod.split option.split)
qed simp

lemma ask_run_ends:
  assumes "t \<in> set ts" "askDeadline s < atCheck t"
  shows "fst (ask_run accept ts s) \<noteq> None"
  using assms
proof (induction ts arbitrary: s)
  case (Cons x ts)
  obtain e1 s1 where x: "ask_turn accept x s = (e1, s1)" by fastforce
  then have "askDeadline s1 = askDeadline s"
    by (auto simp: ask_turn_def Let_def split: if_splits read_end.splits)
  moreover have "e1 \<noteq> None" if "t = x" using that x Cons.prems(2) by (auto simp: ask_turn_def split: if_splits)
  ultimately show ?case using Cons x by (auto split: option.split)
qed simp

text \<open>Asking for a camera over UDP is patient but bounded: whatever arrives, two questions are at least half
  a second apart, and the first turn that begins after the deadline ends the asking with a timeout, an
  answer or an error, so a camera that never answers costs no more than the time allowed.\<close>

theorem asking_bounded:
  assumes "clock_ok now ts" "ask_run accept ts (start_asking deadline) = (e, s)"
  shows "spaced askInterval (askTimes s) \<and> ((\<exists>t \<in> set ts. deadline < atCheck t) \<longrightarrow> e \<noteq> None)"
proof -
  have "asking_ok (start_asking deadline)" by (simp add: asking_ok_def start_asking_def spaced_def)
  then have "asking_ok s" using ask_run_ok assms by blast
  moreover have "askDeadline (start_asking deadline) = deadline" by (simp add: start_asking_def)
  ultimately show ?thesis using ask_run_ends [of _ ts "start_asking deadline" accept] assms(2) by (auto simp: asking_ok_def)
qed

theorem asking_bounded_witness:
  "\<exists>e s. ask_run (\<lambda>d :: nat. None :: nat option)
       [\<lparr>atCtx = False, atCheck = 0, atDue = 0, atSent = 1, atSet = True, atRead = ReadTimeout\<rparr>,
        \<lparr>atCtx = False, atCheck = 100, atDue = 100, atSent = 100, atSet = True, atRead = ReadTimeout\<rparr>]
       (start_asking 50) = (e, s) \<and> e \<noteq> None \<and> spaced askInterval (askTimes s)"
proof -
  define ts where "ts = [\<lparr>atCtx = False, atCheck = 0, atDue = 0, atSent = 1, atSet = True, atRead = ReadTimeout\<rparr>,
    \<lparr>atCtx = False, atCheck = 100, atDue = 100, atSent = 100, atSet = True, atRead = (ReadTimeout :: nat read_end)\<rparr>]"
  obtain e s where run: "ask_run (\<lambda>d :: nat. None :: nat option) ts (start_asking 50) = (e, s)" by fastforce
  have "clock_ok 0 ts" and late: "\<exists>t \<in> set ts. 50 < atCheck t" by (simp_all add: ts_def)
  from asking_bounded [OF this(1) run] late run show ?thesis unfolding ts_def by blast
qed

text \<open>However short the camera's timeout is, a dial waits for the radio to wake up.\<close>

lemma dial_waits_for_radio: "ueNow env + uidWakeTimeout \<le> dial_deadline env timeout"
  by (simp add: dial_deadline_def)

section \<open>Who owns the socket\<close>

lemma ask_run_got:
  "ask_run accept ts s = (Some (AskGot r), s') \<Longrightarrow> \<exists>d. accept d = Some r"
proof (induction ts arbitrary: s)
  case (Cons t ts)
  obtain e1 s1 where t: "ask_turn accept t s = (e1, s1)" by fastforce
  show ?case
  proof (cases e1)
    case None
    then show ?thesis using Cons t by simp
  next
    case (Some x)
    then show ?thesis using Cons.prems t
      by (auto simp: ask_turn_def Let_def split: if_splits read_end.splits)
  qed
qed simp

lemma dial_reply_id:
  assumes "dial_reply parser u cid addr buf = Some session"
  shows "clientID session = cid \<and> uid session = u"
  using assms by (auto simp: dial_reply_def split: sum.splits udp_packet.splits option.splits if_splits)

text \<open>What a finished dial promises: an open socket for a session, a closed one for an error.\<close>

definition owns :: "u32 \<Rightarrow> (uid_dial_error + uid_session) \<times> bool \<Rightarrow> bool" where
  "owns cid r = (case fst r of Inl e \<Rightarrow> \<not> snd r | Inr session \<Rightarrow> snd r \<and> clientID session = cid)"

lemma connect_owns:
  assumes "connectUIDLocal parser env u d = Some r"
  shows "owns (ueCid env) r"
proof -
  obtain e s where run: "ask_run (\<lambda>(buf, addr). dial_reply parser u (ueCid env) addr buf) (ueConnect env) (start_asking d) = (e, s)"
    by fastforce
  show ?thesis
  proof (cases "\<exists>session. e = Some (AskGot session)")
    case True
    then obtain session where e: "e = Some (AskGot session)" by blast
    from ask_run_got [OF run [unfolded e]] obtain buf addr where "dial_reply parser u (ueCid env) addr buf = Some session"
      by auto
    from dial_reply_id [OF this] show ?thesis using assms run e by (auto simp: connectUIDLocal_def owns_def)
  next
    case False
    then show ?thesis using assms run
      by (auto simp: connectUIDLocal_def owns_def split: option.splits ask_end.splits)
  qed
qed

lemma dial_owns:
  assumes "dialUIDLocal parser env u host timeout = Some r"
  shows "owns (ueCid env) r"
proof -
  obtain e s where "queryUIDLocal (ueQuery env) (start_asking (dial_deadline env timeout)) = (e, s)" by fastforce
  then show ?thesis
    using assms connect_owns
    by (auto simp: dialUIDLocal_def Let_def owns_def split: if_splits option.splits ask_end.splits)
qed

text \<open>Opening the UDP transport never leaks its socket and never takes another camera's answer: the socket
  stays open exactly when a session is returned, and the session has the id this dial chose for itself, whatever
  other discovery traffic the port receives.\<close>

theorem uid_dial_owns_session:
  assumes "dialUIDLocal parser env u host timeout = Some (res, live)"
  shows "(live \<longleftrightarrow> (\<exists>session. res = Inr session)) \<and> (\<forall>session. res = Inr session \<longrightarrow> clientID session = ueCid env)"
  using dial_owns [OF assms] by (auto simp: owns_def split: sum.splits)

theorem uid_dial_owns_session_witness:
  "\<exists>env :: uid_env. dialUIDLocal (\<lambda>b. None) env [] ''camera:9000'' 0 = Some (Inl UidNeedsAddress, False) \<and> \<not> False"
proof -
  define env where "env = \<lparr>ueListen = True, ueBroadcast = True, ueParseIP = (\<lambda>h. None), ueNow = 0, ueCid = 7,
    ueQuery = [], ueConnect = []\<rparr>"
  have d: "dialUIDLocal (\<lambda>b. None) env [] ''camera:9000'' 0 = Some (Inl UidNeedsAddress, False)"
    by (simp add: dialUIDLocal_def env_def Let_def)
  show ?thesis using uid_dial_owns_session [OF d] d by blast
qed

section \<open>The watcher and its sockets\<close>

text \<open>The buffers read before the first read that fails, and that read's context.\<close>

fun bufs_read :: "(bool \<times> bytes read_end) list \<Rightarrow> bytes list" where
  "bufs_read ((_, ReadData buf) # rs) = buf # bufs_read rs"
| "bufs_read _ = []"

fun failed_read :: "(bool \<times> bytes read_end) list \<Rightarrow> bool option" where
  "failed_read [] = None"
| "failed_read ((_, ReadData _) # rs) = failed_read rs"
| "failed_read ((ctxDone, _) # _) = Some (\<not> ctxDone)"

lemma Run_reads_eq:
  "Run_reads rs w = (failed_read rs, w\<lparr>waReported := waReported w @ List.map_filter parseDiscoveryReply (bufs_read rs)\<rparr>)"
proof (induction rs arbitrary: w)
  case (Cons r rs)
  obtain c e where "r = (c, e)" by fastforce
  then show ?case
    by (cases e) (auto simp: Run_turn_def Cons.IH List.map_filter_def split: option.split)
qed (simp add: List.map_filter_def)

text \<open>The watcher reports exactly the replies it reads, in order, ends with an error unless its context is over,
  and holds no socket when it has ended, whichever of them could not be opened.\<close>

lemma watcher_runs:
  assumes "Watcher_Run listenErr sendErr optErr reads w {} = (r, w', socks)"
  shows "if listenErr = None \<and> sendErr = None \<and> optErr = None
     then r = failed_read reads \<and> waReported w' = waReported w @ List.map_filter parseDiscoveryReply (bufs_read reads)
       \<and> socks = (if r = None then {ListenSocket, SendSocket} else {})
     else r = Some True \<and> w' = w \<and> socks = {}"
  using assms
  by (cases listenErr; cases sendErr; cases optErr)
    (auto simp: Watcher_Run_def openDiscoverySockets_def Run_reads_eq eq_commute [of "Some _" "failed_read reads"] split: option.splits)

end
