(* ===== verification/Launch.thy ===== *)
theory Launch
  imports Bridge "HOL-Library.AList" "HOL-Library.Multiset"
begin

text \<open>
  The standalone program of \<^verbatim>\<open>cmd/reolinkproxy\<close>: cameras read from the environment (\<^verbatim>\<open>config.go\<close>), the log
  level (\<^verbatim>\<open>logger.go\<close>) and the life of the process (\<^verbatim>\<open>main.go\<close>). \<^verbatim>\<open>time.ParseDuration\<close> is the parameter
  \<open>dur\<close>, the command line library fills the flags; the theorems say that the order of the environment does
  not matter and that a configuration that loads is one the bridge serves.
\<close>

section \<open>A camera in the environment\<close>

record env_camera =
  ecName :: string
  ecHost :: string
  ecPort :: int
  ecUID :: string
  ecUsername :: string
  ecPassword :: string
  ecTimeout :: int
  ecStream :: string
  ecChannel :: int
  ecRTSPPath :: string
  ecTalkProfile :: string
  ecTalkVolume :: int
  ecPauseOnMotion :: bool
  ecPauseOnClient :: bool
  ecPauseTimeout :: int
  ecIdleDisconnect :: bool
  ecIdleTimeout :: int
  ecBatteryCamera :: bool

definition blank_camera :: env_camera where
  "blank_camera = \<lparr>ecName = [], ecHost = [], ecPort = 0, ecUID = [], ecUsername = [], ecPassword = [], ecTimeout = 0,
     ecStream = [], ecChannel = 0, ecRTSPPath = [], ecTalkProfile = [], ecTalkVolume = 0, ecPauseOnMotion = False,
     ecPauseOnClient = False, ecPauseTimeout = 0, ecIdleDisconnect = False, ecIdleTimeout = 0, ecBatteryCamera = False\<rparr>"

text \<open>What reflection knows of a field: its type and how it is set.\<close>

datatype env_field =
    StringField "string \<Rightarrow> env_camera \<Rightarrow> env_camera"
  | IntField "int \<Rightarrow> env_camera \<Rightarrow> env_camera"
  | BoolField "bool \<Rightarrow> env_camera \<Rightarrow> env_camera"
  | DurationField "int \<Rightarrow> env_camera \<Rightarrow> env_camera"

text \<open>The fields under their tags.\<close>

definition tagged_fields :: "(string \<times> env_field) list" where
  "tagged_fields =
     [(''name'', StringField (\<lambda>v c. c\<lparr>ecName := v\<rparr>)), (''host'', StringField (\<lambda>v c. c\<lparr>ecHost := v\<rparr>)),
      (''port'', IntField (\<lambda>v c. c\<lparr>ecPort := v\<rparr>)), (''uid'', StringField (\<lambda>v c. c\<lparr>ecUID := v\<rparr>)),
      (''username'', StringField (\<lambda>v c. c\<lparr>ecUsername := v\<rparr>)), (''password'', StringField (\<lambda>v c. c\<lparr>ecPassword := v\<rparr>)),
      (''timeout'', DurationField (\<lambda>v c. c\<lparr>ecTimeout := v\<rparr>)), (''stream'', StringField (\<lambda>v c. c\<lparr>ecStream := v\<rparr>)),
      (''channel'', IntField (\<lambda>v c. c\<lparr>ecChannel := v\<rparr>)), (''rtsp_path'', StringField (\<lambda>v c. c\<lparr>ecRTSPPath := v\<rparr>)),
      (''talk_profile'', StringField (\<lambda>v c. c\<lparr>ecTalkProfile := v\<rparr>)), (''talk_volume'', IntField (\<lambda>v c. c\<lparr>ecTalkVolume := v\<rparr>)),
      (''pause_on_motion'', BoolField (\<lambda>v c. c\<lparr>ecPauseOnMotion := v\<rparr>)),
      (''pause_on_client'', BoolField (\<lambda>v c. c\<lparr>ecPauseOnClient := v\<rparr>)),
      (''pause_timeout'', DurationField (\<lambda>v c. c\<lparr>ecPauseTimeout := v\<rparr>)),
      (''idle_disconnect'', BoolField (\<lambda>v c. c\<lparr>ecIdleDisconnect := v\<rparr>)),
      (''idle_timeout'', DurationField (\<lambda>v c. c\<lparr>ecIdleTimeout := v\<rparr>)),
      (''battery_camera'', BoolField (\<lambda>v c. c\<lparr>ecBatteryCamera := v\<rparr>))]"

definition cameraEnvFieldIndexes :: "string \<rightharpoonup> env_field" where
  "cameraEnvFieldIndexes = map_of (map (\<lambda>(tag, f). (to_upper tag, f)) tagged_fields)"

section \<open>Reading an entry\<close>

text \<open>\<^verbatim>\<open>strings.Cut\<close> at a character.\<close>

fun cut_at :: "char \<Rightarrow> string \<Rightarrow> (string \<times> string) option" where
  "cut_at sep [] = None"
| "cut_at sep (c # s) = (if c = sep then Some ([], s) else map_option (\<lambda>(before, after). (c # before, after)) (cut_at sep s))"

text \<open>\<^verbatim>\<open>cameraEnvKeyRE\<close>: \<^verbatim>\<open>^REOLINK_CAMERA_(\d+)_([A-Z0-9_]+)$\<close> and its two groups.\<close>

definition is_digit :: "char \<Rightarrow> bool" where
  "is_digit c \<longleftrightarrow> 48 \<le> (of_char c :: nat) \<and> (of_char c :: nat) \<le> 57"

definition field_char :: "char \<Rightarrow> bool" where
  "field_char c \<longleftrightarrow> 65 \<le> (of_char c :: nat) \<and> (of_char c :: nat) \<le> 90 \<or> is_digit c \<or> c = CHR ''_''"

definition cameraEnvKey :: "string \<Rightarrow> (string \<times> string) option" where
  "cameraEnvKey key =
     (let prefix = ''REOLINK_CAMERA_''; rest = drop (length prefix) key in
      if \<not> has_prefix key prefix \<or> takeWhile is_digit rest = [] then None
      else (case dropWhile is_digit rest of
              c # name \<Rightarrow>
                if c = CHR ''_'' \<and> name \<noteq> [] \<and> list_all field_char name then Some (takeWhile is_digit rest, name) else None
            | [] \<Rightarrow> None))"

text \<open>\<^verbatim>\<open>strconv.ParseBool\<close>.\<close>

definition ParseBool :: "string \<Rightarrow> bool option" where
  "ParseBool s =
     (if s \<in> {''1'', ''t'', ''T'', ''TRUE'', ''true'', ''True''} then Some True
      else if s \<in> {''0'', ''f'', ''F'', ''FALSE'', ''false'', ''False''} then Some False
      else None)"

datatype env_error = BadIndex string | BadDuration string string | BadBool string string | BadInt string string
  | BadCamera int config_error

text \<open>The type of every field is one of the four, so the last error of the code is never reported.\<close>

fun setFieldFromEnv ::
  "(string \<Rightarrow> int option) \<Rightarrow> env_field \<Rightarrow> string \<Rightarrow> string \<Rightarrow> env_error + (env_camera \<Rightarrow> env_camera)" where
  "setFieldFromEnv dur (DurationField put) raw key =
     (case dur raw of None \<Rightarrow> Inl (BadDuration key raw) | Some d \<Rightarrow> Inr (put d))"
| "setFieldFromEnv dur (StringField put) raw key = Inr (put raw)"
| "setFieldFromEnv dur (BoolField put) raw key =
     (case ParseBool raw of None \<Rightarrow> Inl (BadBool key raw) | Some b \<Rightarrow> Inr (put b))"
| "setFieldFromEnv dur (IntField put) raw key =
     (case parse_int 64 raw of None \<Rightarrow> Inl (BadInt key raw) | Some i \<Rightarrow> Inr (put i))"

section \<open>Loading the cameras\<close>

type_synonym env_cameras = "(int \<times> env_camera) list"

text \<open>One round of the loop; an entry that is no camera's is skipped.\<close>

definition load_entry :: "(string \<Rightarrow> int option) \<Rightarrow> string \<Rightarrow> env_cameras \<Rightarrow> env_error + env_cameras" where
  "load_entry dur entry cams =
     (case cut_at (CHR ''='') entry of
        None \<Rightarrow> Inr cams
      | Some (key, value) \<Rightarrow>
          (case cameraEnvKey key of
             None \<Rightarrow> Inr cams
           | Some (digits, tag) \<Rightarrow>
               (case parse_int 64 digits of
                  None \<Rightarrow> Inl (BadIndex key)
                | Some i \<Rightarrow>
                    (case cameraEnvFieldIndexes tag of
                       None \<Rightarrow> Inr cams
                     | Some f \<Rightarrow>
                         let camera = (case map_of cams i of None \<Rightarrow> blank_camera | Some c \<Rightarrow> c) in
                         (case setFieldFromEnv dur f value key of
                            Inl e \<Rightarrow> Inl e
                          | Inr put \<Rightarrow> Inr (AList.update i (put camera) cams))))))"

fun load_entries :: "(string \<Rightarrow> int option) \<Rightarrow> string list \<Rightarrow> env_cameras \<Rightarrow> env_error + env_cameras" where
  "load_entries dur [] cams = Inr cams"
| "load_entries dur (e # es) cams =
     (case load_entry dur e cams of Inl err \<Rightarrow> Inl err | Inr cams \<Rightarrow> load_entries dur es cams)"

definition splitCameraStreams :: "string \<Rightarrow> string list" where
  "splitCameraStreams raw =
     filter (\<lambda>name. name \<noteq> []) (map (\<lambda>part. to_lower (trim_space part)) (split_at (CHR '','') [] raw))"

definition toBridgeConfig :: "env_camera \<Rightarrow> camera_config" where
  "toBridgeConfig c =
     \<lparr>camName = ecName c, camHost = ecHost c, camPort = ecPort c, camUID = ecUID c, camUsername = ecUsername c,
      camPassword = ecPassword c, camTimeout = ecTimeout c, camStreams = splitCameraStreams (ecStream c),
      camChannel = ecChannel c, camRTSPPath = ecRTSPPath c, TalkProfile = ecTalkProfile c, TalkVolume = ecTalkVolume c,
      PauseOnMotion = ecPauseOnMotion c, PauseOnClient = ecPauseOnClient c, PauseTimeout = ecPauseTimeout c,
      LiveCatchUp = None, IdleDisconnect = ecIdleDisconnect c, IdleTimeout = ecIdleTimeout c,
      BatteryCamera = ecBatteryCamera c, MainsPowered = False, AudioHints = Map.empty\<rparr>"

fun check_cameras :: "(int \<times> env_camera) list \<Rightarrow> env_error + camera_config list" where
  "check_cameras [] = Inr []"
| "check_cameras ((i, c) # cs) =
     (let camera = ApplyDefaults (toBridgeConfig c) in
      case Validate camera of
        Some err \<Rightarrow> Inl (BadCamera i err)
      | None \<Rightarrow> (case check_cameras cs of Inl err \<Rightarrow> Inl err | Inr cameras \<Rightarrow> Inr (camera # cameras)))"

definition loadCamerasFromEntries :: "(string \<Rightarrow> int option) \<Rightarrow> string list \<Rightarrow> env_error + camera_config list" where
  "loadCamerasFromEntries dur entries =
     (case load_entries dur entries [] of
        Inl err \<Rightarrow> Inl err
      | Inr cams \<Rightarrow>
          if cams = [] then Inr []
          else check_cameras (map (\<lambda>i. (i, the (map_of cams i))) (sort (map fst cams))))"

section \<open>The process\<close>

datatype log_level = LevelDebug | LevelInfo | LevelWarn | LevelError

definition Configure :: "string \<Rightarrow> log_level option" where
  "Configure raw =
     (let level = to_lower (trim_space raw) in
      if level \<in> {[], ''info''} then Some LevelInfo
      else if level = ''debug'' then Some LevelDebug
      else if level \<in> {''warn'', ''warning''} then Some LevelWarn
      else if level = ''error'' then Some LevelError
      else None)"

text \<open>The flags of the server; the address of the profiler only starts one.\<close>

record server_flags =
  flRTSPAddress :: string
  flRTPAddress :: string
  flRTCPAddress :: string
  flLogLevel :: string
  flLogPackets :: bool
  flSenderReports :: bool

definition default_flags :: server_flags where
  "default_flags = \<lparr>flRTSPAddress = '':8554'', flRTPAddress = '':8000'', flRTCPAddress = '':8001'', flLogLevel = ''info'',
     flLogPackets = False, flSenderReports = False\<rparr>"

definition bridge_options :: "server_flags \<Rightarrow> options" where
  "bridge_options f =
     \<lparr>RTSPAddress = flRTSPAddress f, RTPAddress = flRTPAddress f, RTCPAddress = flRTCPAddress f,
      EnableRTCPSenderReports = flSenderReports f, WebhookAddress = [], LogPackets = flLogPackets f\<rparr>"

datatype app_error = LogLevelUnknown string | EnvFault env_error | NoCameras | StartFault bridge_fault
  | AddFault string bridge_fault

text \<open>\<open>now\<close> dates the cameras by their number; the outbound address and the webhook's bind are the machine's.\<close>

record app_env =
  apListens :: bool
  apOutbound :: string
  apBindErr :: "string option"
  apNow :: "nat \<Rightarrow> int"

fun add_all :: "app_env \<Rightarrow> camera_config list \<Rightarrow> bridge_state \<Rightarrow> app_error option \<times> bridge_state" where
  "add_all m [] b = (None, b)"
| "add_all m (c # cs) b =
     (case AddCamera (apOutbound m) (apNow m (nextCam b)) (apBindErr m) c b of
        (Inl e, b) \<Rightarrow> (Some (AddFault (camName c) e), b)
      | (Inr cam, b) \<Rightarrow> add_all m cs b)"

text \<open>\<^verbatim>\<open>runApp\<close> up to its wait for a signal: the error it returns with, and the bridge as it is then.\<close>

definition runApp_up :: "app_env \<Rightarrow> server_flags \<Rightarrow> camera_config list \<Rightarrow> app_error option \<times> bridge_state" where
  "runApp_up m f cameras =
     (case bridge_Start (apListens m) (new_bridge (bridge_options f)) of
        (Some e, b) \<Rightarrow> (Some (StartFault e), b)
      | (None, b) \<Rightarrow> add_all m cameras b)"

text \<open>
  The whole of it: \<open>serve\<close> is what happens to the bridge until the signal comes, \<open>order\<close> the order in which
  the deferred close walks the cameras; a server that did not start is not closed.
\<close>

definition runApp ::
  "app_env \<Rightarrow> server_flags \<Rightarrow> camera_config list \<Rightarrow> (bridge_state \<Rightarrow> bridge_state) \<Rightarrow> (bridge_state \<Rightarrow> string list)
     \<Rightarrow> app_error option \<times> bridge_state" where
  "runApp m f cameras serve order =
     (case runApp_up m f cameras of
        (Some (StartFault e), b) \<Rightarrow> (Some (StartFault e), b)
      | (Some e, b) \<Rightarrow> (Some e, bridge_Close (order b) b)
      | (None, b) \<Rightarrow> (let b = serve b in (None, bridge_Close (order b) b)))"

text \<open>The action of the command: what it checks before the bridge exists.\<close>

definition app_cameras :: "(string \<Rightarrow> int option) \<Rightarrow> server_flags \<Rightarrow> string list \<Rightarrow> app_error + camera_config list" where
  "app_cameras dur f environ =
     (case Configure (flLogLevel f) of
        None \<Rightarrow> Inl (LogLevelUnknown (flLogLevel f))
      | Some _ \<Rightarrow>
          (case loadCamerasFromEntries dur environ of
             Inl e \<Rightarrow> Inl (EnvFault e)
           | Inr [] \<Rightarrow> Inl NoCameras
           | Inr cameras \<Rightarrow> Inr cameras))"

section \<open>The order of the environment\<close>

text \<open>What an entry would write: the camera, the field and how it is set.\<close>

definition env_slot :: "string \<Rightarrow> (int \<times> string) option" where
  "env_slot e =
     (case cut_at (CHR ''='') e of
        None \<Rightarrow> None
      | Some (key, value) \<Rightarrow>
          (case cameraEnvKey key of None \<Rightarrow> None | Some (digits, tag) \<Rightarrow> map_option (\<lambda>i. (i, tag)) (parse_int 64 digits)))"

type_synonym env_write = "(int \<times> string) \<times> (env_camera \<Rightarrow> env_camera)"

definition entry_write :: "(string \<Rightarrow> int option) \<Rightarrow> string \<Rightarrow> env_error + env_write option" where
  "entry_write dur e =
     (case cut_at (CHR ''='') e of
        None \<Rightarrow> Inr None
      | Some (key, value) \<Rightarrow>
          (case cameraEnvKey key of
             None \<Rightarrow> Inr None
           | Some (digits, tag) \<Rightarrow>
               (case parse_int 64 digits of
                  None \<Rightarrow> Inl (BadIndex key)
                | Some i \<Rightarrow>
                    (case cameraEnvFieldIndexes tag of
                       None \<Rightarrow> Inr None
                     | Some f \<Rightarrow>
                         (case setFieldFromEnv dur f value key of Inl e \<Rightarrow> Inl e | Inr put \<Rightarrow> Inr (Some ((i, tag), put)))))))"

definition get_camera :: "env_cameras \<Rightarrow> int \<Rightarrow> env_camera" where
  "get_camera cams i = (case map_of cams i of None \<Rightarrow> blank_camera | Some c \<Rightarrow> c)"

fun put_write :: "env_write \<Rightarrow> env_cameras \<Rightarrow> env_cameras" where
  "put_write ((i, tag), put) cams = AList.update i (put (get_camera cams i)) cams"

lemma load_entry_write:
  "load_entry dur e cams =
     (case entry_write dur e of Inl err \<Rightarrow> Inl err | Inr None \<Rightarrow> Inr cams | Inr (Some w) \<Rightarrow> Inr (put_write w cams))"
  by (auto simp: load_entry_def entry_write_def get_camera_def Let_def split: option.split sum.split)

lemma entry_write_slot: "entry_write dur e = Inr (Some (slot, put)) \<Longrightarrow> env_slot e = Some slot"
  by (auto simp: entry_write_def env_slot_def split: option.splits sum.splits)

definition env_writes :: "(string \<Rightarrow> int option) \<Rightarrow> string list \<Rightarrow> env_write list" where
  "env_writes dur es = List.map_filter (\<lambda>e. case entry_write dur e of Inr w \<Rightarrow> w | Inl err \<Rightarrow> None) es"

lemma load_entries_writes:
  "load_entries dur es cams = Inr cams' \<longleftrightarrow>
     (\<forall>e \<in> set es. \<exists>w. entry_write dur e = Inr w) \<and> cams' = fold put_write (env_writes dur es) cams"
proof (induction es arbitrary: cams)
  case (Cons e es)
  show ?case
    by (cases "entry_write dur e") (auto simp: Cons.IH load_entry_write env_writes_def List.map_filter_def split: option.split)
qed (auto simp: env_writes_def List.map_filter_def)

text \<open>What the writes leave of each camera, and which cameras there are.\<close>

lemma get_camera_put [simp]:
  "get_camera (put_write w cams) i = (if i = fst (fst w) then snd w (get_camera cams i) else get_camera cams i)"
  by (cases w, cases "fst w") (auto simp: get_camera_def update_conv')

lemma get_camera_writes:
  "get_camera (fold put_write ws cams) i = fold snd (filter (\<lambda>w. fst (fst w) = i) ws) (get_camera cams i)"
  by (induction ws arbitrary: cams) auto

lemma put_write_keys:
  "fst ` set (put_write w cams) = insert (fst (fst w)) (fst ` set cams)"
  "distinct (map fst cams) \<Longrightarrow> distinct (map fst (put_write w cams))"
  by (cases w, cases "fst w", simp add: dom_update distinct_update)+

lemma writes_keys:
  "fst ` set (fold put_write ws cams) = (\<lambda>w. fst (fst w)) ` set ws \<union> fst ` set cams
   \<and> (distinct (map fst cams) \<longrightarrow> distinct (map fst (fold put_write ws cams)))"
  by (induction ws arbitrary: cams) (auto simp: put_write_keys)

text \<open>Setting two different fields commutes.\<close>

fun puts :: "env_field \<Rightarrow> (env_camera \<Rightarrow> env_camera) set" where
  "puts (StringField put) = range put"
| "puts (IntField put) = range put"
| "puts (BoolField put) = range put"
| "puts (DurationField put) = range put"

definition commuting :: "env_field \<Rightarrow> env_field \<Rightarrow> bool" where
  "commuting f g \<longleftrightarrow> (\<forall>p \<in> puts f. \<forall>q \<in> puts g. p \<circ> q = q \<circ> p)"

lemma commuting_fields: "sorted_wrt commuting (map snd tagged_fields)"
  by (simp add: tagged_fields_def commuting_def fun_eq_iff)

lemma set_field_puts: "setFieldFromEnv dur f raw key = Inr put \<Longrightarrow> put \<in> puts f"
  by (cases f) (auto split: option.splits)

text \<open>What an entry writes is set in the field its slot names.\<close>

lemma entry_write_puts:
  assumes "entry_write dur e = Inr (Some ((i, tag), put))"
  obtains f where "cameraEnvFieldIndexes tag = Some f" "put \<in> puts f"
  using assms set_field_puts by (fastforce simp: entry_write_def split: option.splits sum.splits)

lemma to_upper_tags: "distinct (map (\<lambda>(tag, f). to_upper tag) tagged_fields)"
  by code_simp

lemma sorted_wrt_pair:
  assumes "sorted_wrt R xs" "\<And>x y. R x y \<Longrightarrow> R y x" "x \<in> set xs" "y \<in> set xs"
  shows "x = y \<or> R x y"
  using assms by (induction xs) auto

lemma commuting_slots:
  assumes "cameraEnvFieldIndexes tag = Some f" "cameraEnvFieldIndexes tag' = Some f'" "tag \<noteq> tag'"
    and "p \<in> puts f" "q \<in> puts f'"
  shows "p \<circ> q = q \<circ> p"
proof -
  have "\<exists>t. (t, f) \<in> set tagged_fields \<and> to_upper t = tag" "\<exists>t. (t, f') \<in> set tagged_fields \<and> to_upper t = tag'"
    using assms(1,2) by (auto simp: cameraEnvFieldIndexes_def dest!: map_of_SomeD)
  then obtain t t' where t: "(t, f) \<in> set tagged_fields" "(t', f') \<in> set tagged_fields" "(t, f) \<noteq> (t', f')"
    using assms(3) by auto
  have "sorted_wrt (\<lambda>a b. commuting (snd a) (snd b)) tagged_fields"
    using commuting_fields by (simp add: sorted_wrt_map)
  from sorted_wrt_pair [OF this _ t(1,2)] t(3) have "commuting f f'" by (auto simp: commuting_def)
  then show ?thesis using assms(4,5) by (auto simp: commuting_def)
qed

lemma env_writes_simps [simp]:
  "env_writes dur [] = []"
  "env_writes dur (e # es) =
     (case entry_write dur e of Inr (Some w) \<Rightarrow> w # env_writes dur es | _ \<Rightarrow> env_writes dur es)"
  by (auto simp: env_writes_def List.map_filter_simps split: sum.split option.split)

lemma writes_slots:
  "distinct (List.map_filter env_slot es) \<Longrightarrow>
     distinct (map fst (env_writes dur es)) \<and> fst ` set (env_writes dur es) \<subseteq> set (List.map_filter env_slot es)"
proof (induction es)
  case (Cons e es)
  let ?rest = "List.map_filter env_slot es"
  have IH: "distinct (map fst (env_writes dur es)) \<and> fst ` set (env_writes dur es) \<subseteq> set ?rest"
    using Cons by (auto simp: List.map_filter_simps split: option.splits)
  show ?case
  proof (cases "\<exists>w. entry_write dur e = Inr (Some w)")
    case True
    then obtain w where w: "entry_write dur e = Inr (Some w)" by blast
    then have "env_slot e = Some (fst w)" using entry_write_slot [of dur e "fst w" "snd w"] by simp
    then show ?thesis using IH w Cons.prems by (auto simp: List.map_filter_simps)
  next
    case False
    then have "env_writes dur (e # es) = env_writes dur es" by (auto split: sum.split option.split)
    moreover have "set ?rest \<subseteq> set (List.map_filter env_slot (e # es))"
      by (auto simp: List.map_filter_simps split: option.split)
    ultimately show ?thesis using IH subset_trans by (simp del: env_writes_simps) blast
  qed
qed (simp add: List.map_filter_simps)

lemma mset_map_filter:
  assumes "mset xs = mset ys"
  shows "mset (List.map_filter f xs) = mset (List.map_filter f ys)"
proof -
  have "mset (List.map_filter f zs) = image_mset (the \<circ> f) (filter_mset (\<lambda>x. f x \<noteq> None) (mset zs))" for zs
    by (simp add: List.map_filter_def)
  then show ?thesis using assms by simp
qed

lemma writes_of_camera_commute:
  assumes "distinct (map fst ws)" "\<forall>w \<in> set ws. \<exists>f. cameraEnvFieldIndexes (snd (fst w)) = Some f \<and> snd w \<in> puts f"
    and "mset ws' = mset ws"
  shows "fold snd (filter (\<lambda>w. fst (fst w) = i) ws') = fold snd (filter (\<lambda>w. fst (fst w) = i) ws)"
proof (rule fold_multiset_equiv)
  have sets: "set ws' = set ws" using assms(3) by (rule mset_eq_setD)
  show "mset (filter (\<lambda>w. fst (fst w) = i) ws') = mset (filter (\<lambda>w. fst (fst w) = i) ws)"
    using assms(3) by simp
  fix w v
  assume wv: "w \<in> set (filter (\<lambda>w. fst (fst w) = i) ws')" "v \<in> set (filter (\<lambda>w. fst (fst w) = i) ws')"
  show "snd w \<circ> snd v = snd v \<circ> snd w"
  proof (cases "w = v")
    case False
    have "inj_on fst (set ws)" using assms(1) by (simp add: distinct_map)
    then have "fst w \<noteq> fst v" using False wv sets by (auto dest: inj_onD)
    then have "snd (fst w) \<noteq> snd (fst v)" using wv by (auto simp: prod_eq_iff)
    moreover obtain f where "cameraEnvFieldIndexes (snd (fst w)) = Some f" "snd w \<in> puts f"
      using assms(2) wv(1) sets by auto
    moreover obtain g where "cameraEnvFieldIndexes (snd (fst v)) = Some g" "snd v \<in> puts g"
      using assms(2) wv(2) sets by auto
    ultimately show ?thesis using commuting_slots by blast
  qed simp
qed

text \<open>The list that is checked is decided by the cameras there are and what each holds.\<close>

lemma loaded_list:
  assumes "distinct (map fst cams)"
  shows "map (\<lambda>i. (i, the (map_of cams i))) (sort (map fst cams)) = map (\<lambda>i. (i, get_camera cams i)) (sorted_list_of_set (fst ` set cams))"
proof -
  have "sort (map fst cams) = sorted_list_of_set (fst ` set cams)"
    using sorted_list_of_set_sort_remdups [of "map fst cams"] assms by (simp add: distinct_remdups_id)
  moreover have "the (map_of cams i) = get_camera cams i" if "i \<in> fst ` set cams" for i
    using that by (auto simp: get_camera_def split: option.split dest: map_of_eq_None_iff [THEN iffD1])
  ultimately show ?thesis by simp
qed

lemma loadCamerasFromEntries_writes:
  assumes "\<forall>e \<in> set es. \<exists>w. entry_write dur e = Inr w"
  shows "loadCamerasFromEntries dur es =
    check_cameras (map (\<lambda>i. (i, fold snd (filter (\<lambda>w. fst (fst w) = i) (env_writes dur es)) blank_camera))
      (sorted_list_of_set ((\<lambda>w. fst (fst w)) ` set (env_writes dur es))))"
proof -
  define cams where "cams = fold put_write (env_writes dur es) []"
  have load: "load_entries dur es [] = Inr cams" using assms by (simp add: load_entries_writes cams_def)
  have keys: "fst ` set cams = (\<lambda>w. fst (fst w)) ` set (env_writes dur es)" "distinct (map fst cams)"
    using writes_keys [of "env_writes dur es" "[]"] by (simp_all add: cams_def)
  have "get_camera cams i = fold snd (filter (\<lambda>w. fst (fst w) = i) (env_writes dur es)) blank_camera" for i
    unfolding cams_def get_camera_writes by (simp add: get_camera_def)
  then show ?thesis
    using load loaded_list [OF keys(2)] keys(1) by (auto simp: loadCamerasFromEntries_def)
qed

text \<open>C27: The order of the environment does not matter: when no two entries set the same field of the same
  camera, the entries load the same cameras, with the same settings and in the order of their numbers,
  however they are mixed, with each other and with entries of other programs; a permutation of an
  environment that loads also loads.\<close>

theorem env_order_irrelevant:
  assumes "loadCamerasFromEntries dur es = Inr cams" "mset es' = mset es" "distinct (List.map_filter env_slot es)"
  shows "loadCamerasFromEntries dur es' = Inr cams"
proof -
  have "\<exists>c. load_entries dur es [] = Inr c"
    using assms(1) by (auto simp: loadCamerasFromEntries_def split: sum.splits)
  then have ok: "\<forall>e \<in> set es. \<exists>w. entry_write dur e = Inr w" by (simp add: load_entries_writes)
  then have ok': "\<forall>e \<in> set es'. \<exists>w. entry_write dur e = Inr w" using mset_eq_setD [OF assms(2)] by simp
  have perm: "mset (env_writes dur es') = mset (env_writes dur es)"
    by (rule mset_map_filter [OF assms(2), of "\<lambda>e. case entry_write dur e of Inr w \<Rightarrow> w | Inl err \<Rightarrow> None", folded env_writes_def])
  have fields: "\<forall>w \<in> set (env_writes dur es). \<exists>f. cameraEnvFieldIndexes (snd (fst w)) = Some f \<and> snd w \<in> puts f"
    by (auto simp: env_writes_def List.map_filter_def split: sum.splits elim!: entry_write_puts)
  show ?thesis
    using assms(1) mset_eq_setD [OF perm] writes_of_camera_commute [OF conjunct1 [OF writes_slots [OF assms(3)]] fields perm]
    unfolding loadCamerasFromEntries_writes [OF ok] loadCamerasFromEntries_writes [OF ok'] by simp
qed

definition demo_env :: "string list" where
  "demo_env = [''REOLINK_CAMERA_1_NAME=gate'', ''REOLINK_CAMERA_1_UID=U=1'', ''PATH=/bin'', ''REOLINK_CAMERA_0_NAME=door'',
     ''REOLINK_CAMERA_1_PORT=9001'', ''REOLINK_CAMERA_0_HOST=10.0.0.2'', ''REOLINK_CAMERA_0_STREAM= Main,,sub'']"

lemma upper_tags:
  "to_upper ''name'' = ''NAME''" "to_upper ''host'' = ''HOST''" "to_upper ''port'' = ''PORT''" "to_upper ''uid'' = ''UID''"
  "to_upper ''username'' = ''USERNAME''" "to_upper ''password'' = ''PASSWORD''" "to_upper ''timeout'' = ''TIMEOUT''"
  "to_upper ''stream'' = ''STREAM''" "to_upper ''channel'' = ''CHANNEL''" "to_upper ''rtsp_path'' = ''RTSP_PATH''"
  "to_upper ''talk_profile'' = ''TALK_PROFILE''" "to_upper ''talk_volume'' = ''TALK_VOLUME''"
  "to_upper ''pause_on_motion'' = ''PAUSE_ON_MOTION''" "to_upper ''pause_on_client'' = ''PAUSE_ON_CLIENT''"
  "to_upper ''pause_timeout'' = ''PAUSE_TIMEOUT''" "to_upper ''idle_disconnect'' = ''IDLE_DISCONNECT''"
  "to_upper ''idle_timeout'' = ''IDLE_TIMEOUT''" "to_upper ''battery_camera'' = ''BATTERY_CAMERA''"
  by code_simp+

lemma field_names:
  "cameraEnvFieldIndexes ''NAME'' = Some (StringField (\<lambda>v c. c\<lparr>ecName := v\<rparr>))"
  "cameraEnvFieldIndexes ''HOST'' = Some (StringField (\<lambda>v c. c\<lparr>ecHost := v\<rparr>))"
  "cameraEnvFieldIndexes ''PORT'' = Some (IntField (\<lambda>v c. c\<lparr>ecPort := v\<rparr>))"
  "cameraEnvFieldIndexes ''UID'' = Some (StringField (\<lambda>v c. c\<lparr>ecUID := v\<rparr>))"
  "cameraEnvFieldIndexes ''STREAM'' = Some (StringField (\<lambda>v c. c\<lparr>ecStream := v\<rparr>))"
  "cameraEnvFieldIndexes ''TALK_ENCODER'' = None"
  by (simp_all add: cameraEnvFieldIndexes_def tagged_fields_def upper_tags)

lemma env_keys:
  "cameraEnvKey ''REOLINK_CAMERA_1_NAME'' = Some (''1'', ''NAME'')" "cameraEnvKey ''REOLINK_CAMERA_1_UID'' = Some (''1'', ''UID'')"
  "cameraEnvKey ''REOLINK_CAMERA_1_PORT'' = Some (''1'', ''PORT'')" "cameraEnvKey ''REOLINK_CAMERA_0_NAME'' = Some (''0'', ''NAME'')"
  "cameraEnvKey ''REOLINK_CAMERA_0_HOST'' = Some (''0'', ''HOST'')" "cameraEnvKey ''REOLINK_CAMERA_0_STREAM'' = Some (''0'', ''STREAM'')"
  "cameraEnvKey ''PATH'' = None" "cameraEnvKey ''REOLINK_CAMERA_0_TALK_ENCODER'' = Some (''0'', ''TALK_ENCODER'')"
  "parse_int 64 ''0'' = Some 0" "parse_int 64 ''1'' = Some 1" "parse_int 64 ''9001'' = Some 9001"
  by code_simp+

lemma demo_env_entries:
  "load_entries (\<lambda>_. None) demo_env [] =
     Inr [(1, blank_camera\<lparr>ecName := ''gate'', ecUID := ''U=1'', ecPort := 9001\<rparr>),
          (0, blank_camera\<lparr>ecName := ''door'', ecHost := ''10.0.0.2'', ecStream := '' Main,,sub''\<rparr>)]"
  by (simp add: demo_env_def load_entry_def env_keys field_names)

lemma demo_env_slots: "distinct (List.map_filter env_slot demo_env)"
  by (simp add: demo_env_def env_slot_def env_keys List.map_filter_simps)

text \<open>A setting the README still lists is read by nobody.\<close>

lemma talk_encoder_ignored: "load_entry dur (''REOLINK_CAMERA_0_TALK_ENCODER='' @ v) cams = Inr cams"
  by (simp add: load_entry_def env_keys field_names)

lemma demo_streams: "splitCameraStreams '' Main,,sub'' = [''main'', ''sub'']" "splitCameraStreams [] = []"
  "normalizeProfileName ''main'' = ''main''" "normalizeProfileName ''sub'' = ''sub''" "normalizeProfileName [] = []"
  by code_simp+

lemma demo_env_loads:
  "\<exists>cams. loadCamerasFromEntries (\<lambda>_. None) demo_env = Inr cams \<and> map camName cams = [''door'', ''gate'']
     \<and> map camUID cams = [[], ''U=1''] \<and> map camPort cams = [9000, 9001] \<and> map camStreams cams = [[''main'', ''sub''], [''main'']]"
  by (simp add: loadCamerasFromEntries_def demo_env_entries Let_def Validate_def ApplyDefaults_def toBridgeConfig_def
      blank_camera_def demo_streams insort_key.simps)

theorem env_order_irrelevant_witness:
  "\<exists>cams. loadCamerasFromEntries (\<lambda>_. None) (rev demo_env) = Inr cams \<and> map camName cams = [''door'', ''gate'']"
proof -
  from demo_env_loads obtain cams where "loadCamerasFromEntries (\<lambda>_. None) demo_env = Inr cams \<and> map camName cams = [''door'', ''gate'']
     \<and> map camUID cams = [[], ''U=1''] \<and> map camPort cams = [9000, 9001] \<and> map camStreams cams = [[''main'', ''sub''], [''main'']]" ..
  note cams = conjunct1 [OF this] conjunct1 [OF conjunct2 [OF this]]
  from env_order_irrelevant [OF cams(1) _ demo_env_slots, of "rev demo_env"] cams(2) show ?thesis by simp
qed

section \<open>What loads can be served\<close>

text \<open>Every camera that was loaded has its defaults, at least one stream, and passes the check it gets again.\<close>

definition ready_config :: "camera_config \<Rightarrow> bool" where
  "ready_config c \<longleftrightarrow> Validate c = None \<and> ApplyDefaults c = c"

lemma split_streams_kept:
  "camStreams (ApplyDefaults (toBridgeConfig c)) \<noteq> []"
proof (cases "splitCameraStreams (ecStream c) = []")
  case True
  then show ?thesis
    by (simp add: ApplyDefaults_def toBridgeConfig_def normalizeProfileName_def trim_space_def is_space_def to_lower_def)
next
  case False
  then obtain s ss where "splitCameraStreams (ecStream c) = s # ss" by (cases "splitCameraStreams (ecStream c)") auto
  moreover have "\<forall>n \<in> set (splitCameraStreams (ecStream c)). normalizeProfileName n = n \<and> n \<noteq> []"
    by (auto simp: splitCameraStreams_def simp flip: normalizeProfileName_def)
  ultimately show ?thesis by (auto simp: ApplyDefaults_def toBridgeConfig_def)
qed

lemma check_cameras_ready: "check_cameras cs = Inr cams \<Longrightarrow> \<forall>c \<in> set cams. ready_config c"
proof (induction cs arbitrary: cams)
  case (Cons p cs)
  obtain i c where p: "p = (i, c)" by fastforce
  obtain rest where rest: "check_cameras cs = Inr rest" "cams = ApplyDefaults (toBridgeConfig c) # rest"
      "Validate (ApplyDefaults (toBridgeConfig c)) = None"
    using Cons.prems by (auto simp: p Let_def split: option.splits sum.splits)
  have "ApplyDefaults (ApplyDefaults (toBridgeConfig c)) = ApplyDefaults (toBridgeConfig c)"
    using split_streams_kept by (simp add: defaults_idempotent)
  then have "ready_config (ApplyDefaults (toBridgeConfig c))" using rest(3) by (simp only: ready_config_def)
  then show ?case using Cons.IH [OF rest(1)] rest(2) by (simp only: list.set ball_simps)
qed simp

lemma app_cameras_ready:
  assumes "app_cameras dur f environ = Inr cams"
  shows "\<forall>c \<in> set cams. ready_config c"
proof -
  have "loadCamerasFromEntries dur environ = Inr cams"
    using assms by (auto simp: app_cameras_def split: option.splits sum.splits list.splits)
  then show ?thesis
    using check_cameras_ready by (auto simp: loadCamerasFromEntries_def split: sum.splits if_splits)
qed

lemma AddCamera_ready:
  assumes "ready_config c" "startedB b" "\<not> closedB b"
  shows "camerasOf b (camName c) = None \<Longrightarrow> \<exists>b'. AddCamera out now err c b = (Inr (nextCam b), b')"
    and "camerasOf b (camName c) \<noteq> None \<Longrightarrow> AddCamera out now err c b = (Inl (CameraExists (camName c)), b)"
  using assms by (auto simp: AddCamera_def ready_config_def Let_def split: prod.split)

lemma add_all_up:
  assumes "\<forall>c \<in> set cs. ready_config c" "startedB b" "\<not> closedB b"
  shows "fst (add_all m cs b) = None \<longleftrightarrow> distinct (map camName cs) \<and> (\<forall>c \<in> set cs. camerasOf b (camName c) = None)"
  using assms
proof (induction cs arbitrary: b)
  case (Cons c cs)
  show ?case
  proof (cases "camerasOf b (camName c)")
    case None
    obtain b' where add: "AddCamera (apOutbound m) (apNow m (nextCam b)) (apBindErr m) c b = (Inr (nextCam b), b')"
      using AddCamera_ready(1) [OF _ Cons.prems(2,3) None] Cons.prems(1) by force
    have "camerasOf b' = (camerasOf b)(camName c \<mapsto> nextCam b)" "startedB b'" "\<not> closedB b'"
      using AddCamera_effect(2,14,15) [OF add] Cons.prems by (simp_all add: ready_config_def)
    then have "fst (add_all m cs b') = None \<longleftrightarrow> distinct (map camName cs)
        \<and> (\<forall>x \<in> set cs. camName x \<noteq> camName c \<and> camerasOf b (camName x) = None)"
      using Cons.IH [of b'] Cons.prems(1) by auto
    moreover have "add_all m (c # cs) b = add_all m cs b'" using add by simp
    moreover have "camName c \<notin> camName ` set cs \<longleftrightarrow> (\<forall>x \<in> set cs. camName x \<noteq> camName c)" by (auto simp: image_iff eq_commute)
    ultimately show ?thesis using None by (simp del: add_all.simps image_iff) blast
  next
    case (Some k)
    then show ?thesis using AddCamera_ready(2) [OF _ Cons.prems(2,3)] Cons.prems(1) by simp
  qed
qed simp

text \<open>What a run of additions that succeeded leaves: the new cameras in order, the old ones as they were.\<close>

lemma add_all_cameras:
  assumes "add_all m cs b = (None, b')" "\<forall>c \<in> set cs. ready_config c"
  shows "nextCam b' = nextCam b + length cs \<and> (\<forall>n k. camerasOf b n = Some k \<longrightarrow> camerasOf b' n = Some k)
    \<and> (\<forall>k < nextCam b. camStore b' k = camStore b k)
    \<and> (\<forall>i < length cs. camerasOf b' (camName (cs ! i)) = Some (nextCam b + i)
        \<and> caConfig (camStore b' (nextCam b + i)) = cs ! i \<and> \<not> caCancelled (camStore b' (nextCam b + i)))"
  using assms
proof (induction cs arbitrary: b)
  case (Cons c cs)
  obtain cam b1 where add: "AddCamera (apOutbound m) (apNow m (nextCam b)) (apBindErr m) c b = (Inr cam, b1)"
    and rest: "add_all m cs b1 = (None, b')"
    using Cons.prems(1) by (auto split: prod.splits sum.splits)
  have c: "ApplyDefaults c = c" using Cons.prems(2) by (simp add: ready_config_def)
  note eff = AddCamera_effect [OF add, unfolded c]
  have IH: "nextCam b' = nextCam b1 + length cs" "\<And>n k. camerasOf b1 n = Some k \<Longrightarrow> camerasOf b' n = Some k"
    "\<And>k. k < nextCam b1 \<Longrightarrow> camStore b' k = camStore b1 k"
    "\<And>i. i < length cs \<Longrightarrow> camerasOf b' (camName (cs ! i)) = Some (nextCam b1 + i)
      \<and> caConfig (camStore b' (nextCam b1 + i)) = cs ! i \<and> \<not> caCancelled (camStore b' (nextCam b1 + i))"
    using Cons.IH [OF rest] Cons.prems(2) by simp_all
  have old: "camerasOf b' n = Some k" if "camerasOf b n = Some k" for n k
    using that IH(2) [of n k] eff(2,7) by (cases "n = camName c") simp_all
  have new: "camerasOf b' (camName c) = Some (nextCam b)" "caConfig (camStore b' (nextCam b)) = c"
    "\<not> caCancelled (camStore b' (nextCam b))"
    using IH(2) [of "camName c" cam] IH(3) [of cam] eff(2-6) by simp_all
  show ?case
  proof (intro conjI allI impI)
    fix i
    assume "i < length (c # cs)"
    then show "camerasOf b' (camName ((c # cs) ! i)) = Some (nextCam b + i)" "caConfig (camStore b' (nextCam b + i)) = (c # cs) ! i"
      "\<not> caCancelled (camStore b' (nextCam b + i))"
      using new IH(4) [of "i - 1"] eff(3,4) by (cases i; simp)+
  qed (use IH(1,3) eff(3,4,8) old in \<open>simp_all\<close>)
qed simp

lemma start_up:
  assumes "bridge_Start listens (new_bridge o') = (e, b)"
  shows "e = None \<longleftrightarrow> listens" "listens \<Longrightarrow> startedB b" "\<not> closedB b" "camerasOf b = Map.empty" "nextCam b = 0"
  using assms by (auto simp: bridge_Start_def new_bridge_def Let_def split: if_splits)

text \<open>C26: A configuration that loads is one the bridge serves: the program comes up exactly when the RTSP server
  can listen and no two cameras share a name, and then every camera of the environment is registered under
  its name with its settings, in the order of their numbers, and runs.\<close>

theorem app_comes_up:
  assumes "app_cameras dur f environ = Inr cams"
  shows "(fst (runApp_up m f cams) = None \<longleftrightarrow> apListens m \<and> distinct (map camName cams))
    \<and> (fst (runApp_up m f cams) = None \<longrightarrow> (\<forall>i < length cams.
          camerasOf (snd (runApp_up m f cams)) (camName (cams ! i)) = Some i
        \<and> caConfig (camStore (snd (runApp_up m f cams)) i) = cams ! i
        \<and> \<not> caCancelled (camStore (snd (runApp_up m f cams)) i)))"
proof -
  note ready = app_cameras_ready [OF assms]
  obtain e b where start: "bridge_Start (apListens m) (new_bridge (bridge_options f)) = (e, b)" by fastforce
  note up = start_up [OF start]
  show ?thesis
  proof (cases "apListens m")
    case True
    then have run: "runApp_up m f cams = add_all m cams b" using start up(1) by (simp add: runApp_up_def)
    have "fst (add_all m cams b) = None \<longleftrightarrow> distinct (map camName cams)"
      using add_all_up [OF ready up(2) [OF True] up(3)] up(4) by simp
    moreover have "camerasOf b' (camName (cams ! i)) = Some i \<and> caConfig (camStore b' i) = cams ! i \<and> \<not> caCancelled (camStore b' i)"
      if "add_all m cams b = (None, b')" "i < length cams" for b' i
      using add_all_cameras [OF that(1) ready] that(2) up(5) by simp
    ultimately show ?thesis using True unfolding run by (cases "add_all m cams b") auto
  next
    case False
    then obtain x where "e = Some x" using up(1) by auto
    then show ?thesis using start False by (simp add: runApp_up_def)
  qed
qed

theorem app_comes_up_witness:
  "\<exists>cams. app_cameras (\<lambda>_. None) default_flags demo_env = Inr cams
     \<and> (fst (runApp_up \<lparr>apListens = True, apOutbound = [], apBindErr = None, apNow = \<lambda>_. 0\<rparr> default_flags cams) = None)"
proof -
  from demo_env_loads obtain cams where "loadCamerasFromEntries (\<lambda>_. None) demo_env = Inr cams \<and> map camName cams = [''door'', ''gate'']
     \<and> map camUID cams = [[], ''U=1''] \<and> map camPort cams = [9000, 9001] \<and> map camStreams cams = [[''main'', ''sub''], [''main'']]" ..
  note cams = conjunct1 [OF this] conjunct1 [OF conjunct2 [OF this]]
  have "Configure ''info'' = Some LevelInfo" by code_simp
  then have "app_cameras (\<lambda>_. None) default_flags demo_env = Inr cams"
    using cams by (cases cams) (simp_all add: app_cameras_def default_flags_def)
  from app_comes_up [OF this, of "\<lparr>apListens = True, apOutbound = [], apBindErr = None, apNow = \<lambda>_. 0\<rparr>"] this cams(2)
  show ?thesis by (intro exI [of _ cams]) simp
qed

section \<open>How the program ends\<close>

text \<open>A closed bridge has no cameras registered.\<close>

definition closed_inv :: "bridge_state \<Rightarrow> bool" where
  "closed_inv b \<longleftrightarrow> cameras_inv b \<and> (closedB b \<longrightarrow> camerasOf b = Map.empty)"

lemma camera_stop_closed [simp]: "closedB (camera_stop c b) = closedB b"
  by (simp add: camera_stop_def upd_camera_def upd_rtsp_def Let_def split: option.split)

lemma fold_camera_stop_closed [simp]: "closedB (fold camera_stop cs b) = closedB b"
  by (induction cs arbitrary: b) simp_all

lemma AddCamera_closed: "closedB b \<Longrightarrow> snd (AddCamera out now err c b) = b"
  by (simp add: AddCamera_def Let_def split: option.split)

lemma AddCamera_keeps_open: "closedB (snd (AddCamera out now err c b)) \<Longrightarrow> closedB b"
proof (cases "AddCamera out now err c b")
  case (Pair r b')
  assume "closedB (snd (AddCamera out now err c b))"
  then show "closedB b"
    using Pair AddCamera_effect(14) [of out now err c b _ b'] by (cases r) (auto simp: AddCamera_def Let_def split: option.splits if_splits prod.splits)
qed

lemma bridge_step_closed:
  assumes "bridge_step b b'" "closed_inv b"
  shows "closed_inv b'"
proof -
  have "closedB b' \<longrightarrow> camerasOf b' = Map.empty"
    using assms(1)
  proof cases
    case (bs_add outbound now bind_err c)
    then show ?thesis using assms(2) AddCamera_closed AddCamera_keeps_open by (metis closed_inv_def)
  next
    case (bs_close order)
    then show ?thesis
      using assms(2) fold_camera_stop [of "List.map_filter (camerasOf b) order" "b\<lparr>closedB := True, camerasOf := Map.empty\<rparr>"]
      by (simp add: bridge_Close_def closed_inv_def Let_def split: option.split)
  next
    case (bs_remove name)
    then show ?thesis
      using assms(2) by (auto simp: RemoveCamera_def closed_inv_def camera_stop_simps split: option.splits)
  qed (use assms(2) in \<open>auto simp: bridge_Start_def closed_inv_def upd_rtsp_def upd_camera_def Let_def\<close>)
  moreover have "cameras_inv b'" using assms bridge_step_inv [of b b'] by (simp add: closed_inv_def)
  ultimately show ?thesis by (simp add: closed_inv_def)
qed

lemma bridge_steps_closed: "bridge_step\<^sup>*\<^sup>* b b' \<Longrightarrow> closed_inv b \<Longrightarrow> closed_inv b'"
  by (induction rule: rtranclp_induct) (auto intro: bridge_step_closed)

lemma add_all_steps: "bridge_step\<^sup>*\<^sup>* b (snd (add_all m cs b))"
proof (induction cs arbitrary: b)
  case (Cons c cs)
  obtain r b1 where add: "AddCamera (apOutbound m) (apNow m (nextCam b)) (apBindErr m) c b = (r, b1)" by fastforce
  have "bridge_step b b1" using bs_add [of b "apOutbound m" "apNow m (nextCam b)" "apBindErr m" c] add by simp
  then show ?case using Cons.IH [of b1] add by (cases r) (auto intro: converse_rtranclp_into_rtranclp)
qed simp

lemma add_all_error: "add_all m cs b = (Some e, b') \<Longrightarrow> \<exists>n x. e = AddFault n x"
  by (induction cs arbitrary: b) (auto split: prod.splits sum.splits)

lemma finite_cameras:
  assumes "cameras_inv b"
  shows "finite (dom (camerasOf b))"
proof (rule finite_subset)
  show "dom (camerasOf b) \<subseteq> (\<lambda>c. camName (caConfig (camStore b c))) ` {..<nextCam b}"
    using cameras_invD(1) [OF assms] by (fastforce simp: dom_def)
qed simp

text \<open>Closing leaves nothing running, whatever went before.\<close>

lemma close_stops_all:
  assumes "closed_inv b" "set order = dom (camerasOf b)" "c < nextCam (bridge_Close order b)"
  shows "caCancelled (camStore (bridge_Close order b) c) \<and> caDeviceClosed (camStore (bridge_Close order b) c)"
proof -
  have step: "bridge_step b (bridge_Close order b)" by (rule bs_close) fact
  have inv: "closed_inv (bridge_Close order b)" using bridge_step_closed [OF step assms(1)] .
  have "closedB (bridge_Close order b)" by (simp add: bridge_Close_def Let_def split: option.split)
  then have "camerasOf (bridge_Close order b) = Map.empty" using inv by (simp add: closed_inv_def)
  then show ?thesis using cameras_invD(2) [of "bridge_Close order b" c] inv assms(3) by (simp add: camera_down_def closed_inv_def)
qed

text \<open>However the program ends, no camera is left running: whether the server could not listen, a camera was
  refused, or a signal came after any life of the bridge, every camera that was ever added has its streams
  cancelled and its device closed.\<close>

theorem app_leaves_nothing_running:
  assumes "\<And>b. bridge_step\<^sup>*\<^sup>* b (serve b)" "\<And>b. finite (dom (camerasOf b)) \<Longrightarrow> set (order b) = dom (camerasOf b)"
    and "runApp m f cams serve order = (e, b)" "c < nextCam b"
  shows "caCancelled (camStore b c) \<and> caDeviceClosed (camStore b c)"
proof -
  have fresh: "closed_inv (new_bridge (bridge_options f))"
    by (simp add: closed_inv_def cameras_inv_def new_bridge_def Let_def)
  obtain s b0 where start: "bridge_Start (apListens m) (new_bridge (bridge_options f)) = (s, b0)" by fastforce
  have b0: "closed_inv b0"
    using bridge_step_closed [OF bs_start [of _ "apListens m"] fresh] start by simp
  have stops: "caCancelled (camStore (bridge_Close (order b1) b1) c) \<and> caDeviceClosed (camStore (bridge_Close (order b1) b1) c)"
    if "closed_inv b1" "c < nextCam (bridge_Close (order b1) b1)" for b1
    using close_stops_all [OF that(1) assms(2) that(2)] finite_cameras that(1) by (simp add: closed_inv_def)
  show ?thesis
  proof (cases s)
    case None
    define b1 where "b1 = snd (add_all m cams b0)"
    have "closed_inv b1" using bridge_steps_closed [OF add_all_steps b0] by (simp add: b1_def)
    moreover have "closed_inv (serve b1)" using bridge_steps_closed [OF assms(1) calculation] .
    moreover have "b = bridge_Close (order b1) b1 \<or> b = bridge_Close (order (serve b1)) (serve b1)"
      using assms(3) start None add_all_error [of m cams b0]
      by (auto simp: runApp_def runApp_up_def b1_def Let_def split: prod.splits option.splits app_error.splits)
    ultimately show ?thesis using stops assms(4) by blast
  next
    case (Some x)
    then have "b = b0" "nextCam b0 = 0"
      using assms(3) start start_up(5) [OF start] by (auto simp: runApp_def runApp_up_def)
    then show ?thesis using assms(4) by simp
  qed
qed

theorem app_leaves_nothing_running_witness:
  "\<exists>order b. runApp \<lparr>apListens = True, apOutbound = [], apBindErr = None, apNow = \<lambda>_. 0\<rparr>
       \<lparr>flRTSPAddress = [], flRTPAddress = [], flRTCPAddress = [], flLogLevel = [], flLogPackets = False, flSenderReports = False\<rparr>
       [two_streams] (\<lambda>b. b) order = (None, b)
     \<and> nextCam b = 1 \<and> caCancelled (camStore b 0) \<and> caDeviceClosed (camStore b 0)"
proof -
  have listed: "\<exists>xs. finite (dom (camerasOf b)) \<longrightarrow> set xs = dom (camerasOf b)" for b :: bridge_state
    using finite_list [of "dom (camerasOf b)"] by (cases "finite (dom (camerasOf b))") auto
  from choice [OF allI [OF listed]] obtain order :: "bridge_state \<Rightarrow> string list"
    where "\<forall>b. finite (dom (camerasOf b)) \<longrightarrow> set (order b) = dom (camerasOf b)" ..
  then have order: "\<And>b. finite (dom (camerasOf b)) \<Longrightarrow> set (order b) = dom (camerasOf b)" by blast
  define m where "m = \<lparr>apListens = True, apOutbound = [], apBindErr = None, apNow = \<lambda>_ :: nat. 0 :: int\<rparr>"
  define f where "f = \<lparr>flRTSPAddress = [], flRTPAddress = [], flRTCPAddress = [], flLogLevel = [], flLogPackets = False,
    flSenderReports = False\<rparr>"
  have "bridge_options f = demo_options" by (simp add: bridge_options_def f_def demo_options_def)
  moreover have "bridge_Start True (new_bridge demo_options) = (None, demo_bridge)"
    by (simp add: demo_bridge_def bridge_Start_def new_bridge_def demo_options_def options_applyDefaults_def)
  ultimately have run: "runApp m f [two_streams] (\<lambda>b. b) order = (None, bridge_Close (order demo_added) demo_added)"
    by (simp add: runApp_def runApp_up_def m_def demo_added)
  have "nextCam demo_added = 1" using AddCamera_effect(4) [OF demo_added] by simp
  then have one: "nextCam (bridge_Close (order demo_added) demo_added) = 1"
    by (simp add: bridge_Close_def Let_def fold_camera_stop split: option.split)
  have "caCancelled (camStore (bridge_Close (order demo_added) demo_added) 0)
      \<and> caDeviceClosed (camStore (bridge_Close (order demo_added) demo_added) 0)"
    by (rule app_leaves_nothing_running [OF _ order run]) (simp_all add: one)
  with run one show ?thesis unfolding m_def f_def
    by (intro exI [of _ order] exI [of _ "bridge_Close (order demo_added) demo_added"] conjI) blast+
qed

end
