(* ===== verification/TalkRun.thy ===== *)
theory TalkRun
  imports TalkPipeline DeviceOps
begin

text \<open>
  The talkback pipeline of \<^verbatim>\<open>pkg/bridge/talk_pipeline.go\<close> on a real device: \<^verbatim>\<open>run\<close> waits for a packet that is
  worth a talk session, opens one on the shared connection, bridges the audio into it and closes it. The
  bridge of \<^theory_text>\<open>TalkPipeline\<close> writes to the session of \<^theory_text>\<open>DeviceOps\<close>, which survives reconnects. The theorems
  say what talkback may touch of the device and what it leaves reported, that failed starts are spaced, and
  how each phrase is ended at the camera.
\<close>

section \<open>Writing to the session of a device\<close>

text \<open>What one write of a block meets; a write that does not return leaves no sink.\<close>

record write_env =
  weOk :: bool
  weRetryOk :: bool
  weNet :: network
  weRetryNet :: network
  weLink :: link
  weNow :: int

type_synonym talk_sink = "(nat \<times> resilient_talk \<times> device) option"

text \<open>The only error of a resilient write is that of a closed session; \<open>n\<close> counts the writes.\<close>

definition resilient_write ::
  "xml_parser \<Rightarrow> (nat \<Rightarrow> write_env) \<Rightarrow> bytes \<Rightarrow> talk_sink \<Rightarrow> write_block_error option \<times> talk_sink" where
  "resilient_write parser ws block sink =
     (case sink of
        None \<Rightarrow> (Some TalkCanceled, None)
      | Some (n, s, m) \<Rightarrow>
          (case WriteADPCMBlock_resilient (weOk (ws n)) (weRetryOk (ws n)) (weNet (ws n)) (weRetryNet (ws n))
                  (weLink (ws n)) parser (weNow (ws n)) block s m of
             None \<Rightarrow> (Some TalkCanceled, None)
           | Some (accepted, s, m) \<Rightarrow> (if accepted then None else Some TalkCanceled, Some (Suc n, s, m))))"

section \<open>The loop\<close>

text \<open>
  One turn: whether the context ended it, else the packet, the clock it is judged by and the clock after a
  failed start, the connection, what the bridge meets, and the close.
\<close>

record run_turn =
  ruCtx :: bool
  ruPcm :: "i16 list"
  ruNow :: int
  ruFailed :: int
  ruNet :: network
  ruLink :: link
  ruWrites :: "nat \<Rightarrow> write_env"
  ruQueued :: "i16 list list"
  ruEvents :: "talk_event list"
  ruClose :: env

text \<open>
  \<open>tpRetryAt\<close> is \<open>None\<close> for the zero time. Kept for the theorems: the starts that were tried, newest first, with the
  time at which one failed, and the closes, each with the session and the device it found, the camera that
  answered it, its error and the device it left.
\<close>

record talk_close =
  clSession :: resilient_talk
  clDevice :: device
  clCamera :: env
  clError :: "client_error option"
  clAfter :: device

record talkback_pipeline =
  tpChannel :: byte
  tpRetryAt :: "int option"
  tpStarts :: "(int \<times> int option) list"
  tpClosed :: "talk_close list"

definition newTalkbackPipeline :: "byte \<Rightarrow> talkback_pipeline" where
  "newTalkbackPipeline channel = \<lparr>tpChannel = channel, tpRetryAt = None, tpStarts = [], tpClosed = []\<rparr>"

datatype run_end = RunStopped | RunGoesOn | RunBridging

definition runBridge ::
  "xml_parser \<Rightarrow> nat \<Rightarrow> run_turn \<Rightarrow> resilient_talk \<Rightarrow> device \<Rightarrow> (bool \<times> resilient_talk \<times> device) option" where
  "runBridge parser rin t s m =
     do { (res, b) \<leftarrow> runBridgeInternal (resilient_write parser (ruWrites t)) rin (rtSampleRate s) (rtSamplesPB s)
                        (ruPcm t) (ruQueued t) (ruEvents t) (Some (0, s, m));
          (n, s, m) \<leftarrow> brSink b;
          Some (res \<noteq> None, s, m) }"

definition pipeline_turn ::
  "xml_parser \<Rightarrow> nat \<Rightarrow> run_turn \<Rightarrow> talkback_pipeline \<Rightarrow> device \<Rightarrow> (run_end \<times> talkback_pipeline \<times> device) option" where
  "pipeline_turn parser rin t p m =
     (if ruCtx t then Some (RunStopped, p, m)
      else if ruPcm t = [] \<or> isSilence (ruPcm t) \<or> (case tpRetryAt p of None \<Rightarrow> False | Some r \<Rightarrow> ruNow t < r)
      then Some (RunGoesOn, p, m)
      else do {
        (r, m) \<leftarrow> StartTalk_device (ruNet t) (ruLink t) parser (tpChannel p) m;
        (case r of
           Inl e \<Rightarrow> Some (RunGoesOn, p\<lparr>tpRetryAt := Some (ruFailed t + talkRetryPause),
                                     tpStarts := (ruNow t, Some (ruFailed t)) # tpStarts p\<rparr>, m)
         | Inr s \<Rightarrow>
             do { let p = p\<lparr>tpStarts := (ruNow t, None) # tpStarts p\<rparr>;
                  (over, s, m) \<leftarrow> runBridge parser rin t s m;
                  if \<not> over then Some (RunBridging, p, m)
                  else (case Close_resilient (ruClose t) s m of
                          (err, s', m') \<Rightarrow> Some (RunGoesOn, p\<lparr>tpClosed := \<lparr>clSession = s, clDevice = m,
                              clCamera = ruClose t, clError = err, clAfter = m'\<rparr> # tpClosed p\<rparr>, m')) }) })"

fun pipeline_run ::
  "xml_parser \<Rightarrow> nat \<Rightarrow> run_turn list \<Rightarrow> talkback_pipeline \<Rightarrow> device \<Rightarrow> (run_end \<times> talkback_pipeline \<times> device) option" where
  "pipeline_run parser rin [] p m = Some (RunGoesOn, p, m)"
| "pipeline_run parser rin (t # ts) p m =
     do { (e, p, m) \<leftarrow> pipeline_turn parser rin t p m;
          (if e = RunGoesOn then pipeline_run parser rin ts p m else Some (e, p, m)) }"

section \<open>What the bridge keeps of its sink\<close>

definition sink_kept :: "(bytes \<Rightarrow> 's \<Rightarrow> write_block_error option \<times> 's) \<Rightarrow> ('s \<Rightarrow> bool) \<Rightarrow> bool" where
  "sink_kept wr P \<longleftrightarrow> (\<forall>block s. P s \<longrightarrow> P (snd (wr block s)))"

lemma sink_keptD: "sink_kept wr P \<Longrightarrow> P s \<Longrightarrow> wr block s = (e, s') \<Longrightarrow> P s'"
  unfolding sink_kept_def by (metis snd_conv)

lemma writeBlocks_sink:
  assumes "writeBlocks wr n enc buf sink = Some r" "sink_kept wr Q" "Q sink"
  shows "Q (snd (snd (snd r)))"
proof -
  have "sink_kept wr Q \<longrightarrow> Q sink \<longrightarrow> Q (snd (snd (snd r)))"
  proof (rule writeBlocks.raw_induct [where P = "\<lambda>wr n enc buf sink r. sink_kept wr Q \<longrightarrow> Q sink \<longrightarrow> Q (snd (snd (snd r)))",
        OF _ assms(1)])
    fix f wr n enc buf sink r
    assume IH: "\<And>wr n enc buf sink r. f wr n enc buf sink = Some r \<Longrightarrow> sink_kept wr Q \<longrightarrow> Q sink \<longrightarrow> Q (snd (snd (snd r)))"
      and run: "(if length buf < n then Some (None, enc, buf, sink)
        else case encode_block enc (take n buf) of
          (enc', Inl e) \<Rightarrow> Some (Some (EncodeError e), enc', buf, sink)
        | (enc', Inr block) \<Rightarrow>
            (case wr block sink of
               (Some e, sink') \<Rightarrow> Some (Some (WriteError e), enc', buf, sink')
             | (None, sink') \<Rightarrow> f wr n enc' (drop n buf) sink')) = Some r"
    show "sink_kept wr Q \<longrightarrow> Q sink \<longrightarrow> Q (snd (snd (snd r)))"
    proof (intro impI)
      assume kept: "sink_kept wr Q" "Q sink"
      show "Q (snd (snd (snd r)))"
      proof (cases "length buf < n")
        case False
        obtain enc' x where e: "encode_block enc (take n buf) = (enc', x)" by fastforce
        show ?thesis
        proof (cases x)
          case (Inr block)
          obtain err sink' where w: "wr block sink = (err, sink')" by fastforce
          have "Q sink'" using sink_keptD [OF kept w] .
          moreover have "err = None \<Longrightarrow> f wr n enc' (drop n buf) sink' = Some r"
            and "err \<noteq> None \<Longrightarrow> snd (snd (snd r)) = sink'"
            using run False e Inr w by auto
          ultimately show ?thesis using IH [of wr n enc' "drop n buf" sink' r] kept(1) by (cases err) simp_all
        qed (use run kept e False in auto)
      qed (use run kept in auto)
    qed
  qed
  then show ?thesis using assms(2,3) by blast
qed

lemma processPCM_sink:
  assumes "processPCM wr rin rout n pcm b = Some (err, b')" "sink_kept wr P" "P (brSink b)"
  shows "P (brSink b')"
  using assms writeBlocks_sink [of wr n "brEncoder b" _ "brSink b" _ P]
  by (fastforce simp: processPCM_def split: Option.bind_splits if_splits)

lemma process_queue_sink:
  assumes "process_queue wr rin rout n q b = Some (err, b')" "sink_kept wr P" "P (brSink b)"
  shows "P (brSink b')"
  using assms
proof (induction q arbitrary: b)
  case (Cons pcm q)
  obtain e b1 where one: "processPCM wr rin rout n pcm b = Some (e, b1)"
    using Cons.prems(1) by (auto split: Option.bind_splits)
  have "P (brSink b1)" using processPCM_sink [OF one Cons.prems(2,3)] .
  then show ?case using Cons.IH [of b1] Cons.prems one by (auto split: option.splits)
qed simp

lemma flush_sink:
  assumes "flush wr rin rout n q b = Some b'" "sink_kept wr P" "P (brSink b)"
  shows "P (brSink b')"
proof -
  obtain e b1 where q: "process_queue wr rin rout n q b = Some (e, b1)"
    using assms(1) by (auto simp: flush_def split: Option.bind_splits)
  have kept: "P (brSink b1)" using process_queue_sink [OF q assms(2,3)] .
  show ?thesis
    using assms(1) q kept writeBlocks_sink [OF _ assms(2) kept]
    by (fastforce simp: flush_def split: Option.bind_splits option.splits if_splits)
qed

lemma bridge_loop_sink:
  assumes "bridge_loop wr rin rout n es b = Some (res, b')" "sink_kept wr P" "P (brSink b)"
  shows "P (brSink b')"
  using assms
proof (induction es arbitrary: b)
  case (Cons ev es)
  show ?case
  proof (cases ev)
    case (PcmArrived pcm)
    obtain e b1 where one: "processPCM wr rin rout n pcm b = Some (e, b1)"
      using Cons.prems(1) PcmArrived by (auto split: Option.bind_splits)
    have "P (brSink b1)" using processPCM_sink [OF one Cons.prems(2,3)] .
    then show ?thesis using Cons.IH [of b1] Cons.prems one PcmArrived by (auto split: option.splits)
  qed (use Cons.prems flush_sink [OF _ Cons.prems(2,3)] in auto)
qed simp

section \<open>Talkback is steps of the device\<close>

lemma WriteADPCMBlock_latch: "WriteADPCMBlock ok now block ts c = (err, ts', c', req) \<Longrightarrow> latch c c'"
  by (auto simp: WriteADPCMBlock_def reserveMessageNumber_def Let_def split: if_splits)

lemma getTalkAbility_latch: "env_latches env \<Longrightarrow> getTalkAbility parser env channel c = (r, c') \<Longrightarrow> latch c c'"
  by (auto simp: getTalkAbility_def split: prod.splits sum.splits client_error.splits option.splits dest!: sendRequest_latch)

lemma stopTalk_latch: "env_latches env \<Longrightarrow> stopTalk env channel c = (r, c') \<Longrightarrow> latch c c'"
  by (auto simp: stopTalk_def split: prod.splits sum.splits client_error.splits dest!: sendRequest_latch)

lemma startTalkSession_latch:
  assumes env: "env_latches env" and run: "startTalkSession env channel tc c = (r, c')"
  shows "latch c c'"
proof -
  define req where "req = talk_request msgIDTalkConfig channel (marshalXMLDocument (talk_config_xml tc))"
  obtain r1 c1 where one: "roundTripRequest env req c = (r1, c1)" by fastforce
  obtain r2 c2 where two: "stopTalk env channel c1 = (r2, c2)" by fastforce
  obtain r3 c3 where three: "roundTripRequest env req c2 = (r3, c3)" by fastforce
  note l = roundTrip_latch [OF env one] stopTalk_latch [OF env two] roundTrip_latch [OF env three]
  have "c' = c1 \<or> c' = c2 \<or> c' = c3"
    using run one two three by (auto simp: startTalkSession_def Let_def req_def split: sum.splits option.splits if_splits)
  then show ?thesis using l latch_trans by blast
qed

lemma StartTalk_latches:
  assumes "link_latches l"
  shows "fn_latches (Talk.StartTalk (loginOf l) parser (answers l n) channel)"
proof -
  have env: "env_latches (answers l n)" using assms by (simp add: link_latches_def)
  show ?thesis
    unfolding StartTalk_def
  proof (rule after_login_latches [OF assms])
    fix c r c'
    assume run: "(case getTalkAbility parser (answers l n) channel c of
        (Inl e, c2) \<Rightarrow> (Inl e, c2)
      | (Inr ability, c2) \<Rightarrow>
          (case defaultTalkConfig channel (Some ability) of
             Inl e \<Rightarrow> (Inl e, c2)
           | Inr tc \<Rightarrow>
               (case startTalkSession (answers l n) channel tc c2 of
                  (Some e, c3) \<Rightarrow> (Inl e, c3)
                | (None, c3) \<Rightarrow> let (num, c4) = reserveMessageNumber c3 in (Inr (new_talk_session channel num tc), c4)))) = (r, c')"
    obtain r2 c2 where ability: "getTalkAbility parser (answers l n) channel c = (r2, c2)" by fastforce
    have "latch c c2" using getTalkAbility_latch [OF env ability] .
    moreover have "latch c2 c'"
      using run ability startTalkSession_latch [OF env]
      by (auto simp: reserveMessageNumber_def Let_def split: sum.splits option.splits prod.splits)
    ultimately show "latch c c'" by (rule latch_trans)
  qed
qed

definition session_ok :: "resilient_talk \<Rightarrow> device \<Rightarrow> bool" where
  "session_ok s m \<longleftrightarrow> (\<forall>i ts. rtSession s = Some (i, ts) \<longrightarrow> i < length (dvConns m))"

lemma session_ok_steps: "session_ok s m \<Longrightarrow> device_steps m m' \<Longrightarrow> session_ok s m'"
  unfolding session_ok_def using device_steps_length less_le_trans by blast

text \<open>A start on the client \<^verbatim>\<open>Ensure\<close> gave.\<close>

lemma start_on_conn:
  assumes "dev_inv m" "link_latches l" "Ensure net m = Some (Inr i, m1)"
    and "on_conn (Talk.StartTalk (loginOf l) parser (answers l 1) channel) i m1 = Some (res, m2)"
  shows "device_steps m m2" "i < length (dvConns m2)" "device_steps m (ResetIfCurrent c m2)"
proof -
  have go: "goes i m1 m2" using on_conn_goes [OF StartTalk_latches [OF assms(2)] assms(4)] .
  show steps: "device_steps m m2" using Ensure_goes [OF assms(3) go assms(1)] .
  show "device_steps m (ResetIfCurrent c m2)" using Ensure_goes [OF assms(3) goes_trans [OF go goes_reset] assms(1)] .
  have "i < length (dvConns m1)" using Ensure_inv [OF assms(1,3)] by blast
  moreover have "device_steps m1 m2" using go calculation by (simp add: goes_def)
  ultimately show "i < length (dvConns m2)" using device_steps_length less_le_trans by blast
qed

lemma StartTalk_device_steps:
  assumes "dev_inv m" "link_latches l" "StartTalk_device net l parser channel m = Some (r, m')"
  shows "device_steps m m' \<and> (\<forall>s. r = Inr s \<longrightarrow> session_ok s m')"
proof -
  obtain e m1 where en: "Ensure net m = Some (e, m1)"
    using assms(3) by (auto simp: StartTalk_device_def split: Option.bind_splits)
  show ?thesis
  proof (cases e)
    case (Inl x)
    then show ?thesis using assms(3) en step_ensure [OF en] by (auto simp: StartTalk_device_def)
  next
    case (Inr i)
    then obtain res m2 where s: "on_conn (Talk.StartTalk (loginOf l) parser (answers l 1) channel) i m1 = Some (res, m2)"
      using assms(3) en by (auto simp: StartTalk_device_def split: Option.bind_splits)
    note go = start_on_conn [OF assms(1,2) en [unfolded Inr] s]
    show ?thesis
      using assms(3) en Inr s go by (auto simp: StartTalk_device_def session_ok_def split: sum.splits if_splits)
  qed
qed

lemma write_conn_steps:
  assumes "WriteADPCMBlock ok now block ts (conn m i) = (err, ts', c, req)" "i < length (dvConns m)"
  shows "device_steps m (set_conn i c m)"
  using step_client [OF assms(2) WriteADPCMBlock_latch [OF assms(1)]] by blast

lemma talk_restart_steps:
  assumes "dev_inv m" "link_latches l" "session_ok s m" "talk_restart ok net l parser now block s m = Some (s', m')"
  shows "device_steps m m' \<and> session_ok s' m'"
proof (cases "case rtRetryAt s of None \<Rightarrow> False | Some t \<Rightarrow> now < t")
  case True
  then show ?thesis using assms(3,4) by (simp add: talk_restart_def)
next
  case False
  let ?s = "s\<lparr>rtRetryAt := Some (now + talkRetryPause)\<rparr>"
  have same: "session_ok ?s x = session_ok s x" for x by (simp add: session_ok_def)
  obtain e m1 where en: "Ensure net m = Some (e, m1)"
    using assms(4) False by (auto simp: talk_restart_def Let_def split: Option.bind_splits)
  show ?thesis
  proof (cases e)
    case (Inl x)
    then have "s' = ?s" "m' = m1" using assms(4) False en by (simp_all add: talk_restart_def Let_def)
    then show ?thesis using step_ensure [OF en] session_ok_steps [OF assms(3)] same by auto
  next
    case (Inr i)
    then obtain res m2 where s: "on_conn (Talk.StartTalk (loginOf l) parser (answers l 1) (rtChannel s)) i m1 = Some (res, m2)"
      using assms(4) False en by (auto simp: talk_restart_def Let_def split: Option.bind_splits)
    note go = start_on_conn [OF assms(1,2) en [unfolded Inr] s]
    show ?thesis
    proof (cases res)
      case (Inl x)
      then have "s' = ?s" "m' = m2 \<or> m' = ResetIfCurrent (Some i) m2"
        using assms(4) False en \<open>e = Inr i\<close> s by (auto simp: talk_restart_def Let_def split: if_splits)
      then show ?thesis using go session_ok_steps [OF assms(3)] same by auto
    next
      case (Inr ts)
      obtain err ts' c req where w: "WriteADPCMBlock ok now block ts (conn m2 i) = (err, ts', c, req)"
        using prod_cases4 by blast
      then have eq: "s' = ?s\<lparr>rtSession := Some (i, ts')\<rparr>" "m' = set_conn i c m2"
        using assms(4) False en \<open>e = Inr i\<close> s Inr by (auto simp: talk_restart_def Let_def)
      have steps: "device_steps m2 m'" using write_conn_steps [OF w go(2)] eq by simp
      then have "i < length (dvConns m')" using go(2) device_steps_length less_le_trans by blast
      then show ?thesis using go(1) steps eq(1) by (auto simp: session_ok_def intro: rtranclp_trans)
    qed
  qed
qed

lemma WriteADPCMBlock_resilient_steps:
  assumes "dev_inv m" "link_latches l" "session_ok s m"
    and "WriteADPCMBlock_resilient ok ok' net net' l parser now block s m = Some (accepted, s', m')"
  shows "device_steps m m' \<and> session_ok s' m'"
proof (cases "rtClosed s \<or> rtSession s = None")
  case True
  then show ?thesis
    using assms(3,4) talk_restart_steps [OF assms(1-3)] by (auto simp: WriteADPCMBlock_resilient_def split: if_splits)
next
  case False
  then obtain i ts where i: "\<not> rtClosed s" "rtSession s = Some (i, ts)" by auto
  have len: "i < length (dvConns m)" using assms(3) i(2) by (simp add: session_ok_def)
  obtain err ts' c req where w: "WriteADPCMBlock ok now block ts (conn m i) = (err, ts', c, req)"
    using prod_cases4 by blast
  note steps = write_conn_steps [OF w len]
  show ?thesis
  proof (cases err)
    case None
    then have eq: "s' = s\<lparr>rtSession := Some (i, ts')\<rparr>" "m' = set_conn i c m"
      using assms(4) i w by (auto simp: WriteADPCMBlock_resilient_def)
    then have "i < length (dvConns m')" using steps len device_steps_length less_le_trans by blast
    then show ?thesis using steps eq by (simp add: session_ok_def)
  next
    case (Some e)
    define m1 where "m1 = set_conn i c m"
    obtain r m2 where en: "Ensure net m1 = Some (r, m2)"
      using assms(4) i w Some by (auto simp: WriteADPCMBlock_resilient_def m1_def split: Option.bind_splits)
    define m3 where "m3 = ResetIfCurrent (case r of Inl e \<Rightarrow> None | Inr j \<Rightarrow> Some j) m2"
    have rest: "talk_restart ok' net' l parser now block (s\<lparr>rtSession := None\<rparr>) m3 = Some (s', m')"
      using assms(4) i w Some en by (auto simp: WriteADPCMBlock_resilient_def m1_def m3_def Let_def)
    have "device_steps m m1" using steps by (simp add: m1_def)
    moreover have "device_steps m1 m3"
      using step_ensure [OF en] step_reset [of m2] by (auto simp: m3_def intro: converse_rtranclp_into_rtranclp)
    ultimately have go: "device_steps m m3" by (rule rtranclp_trans)
    have "dev_inv m3" using device_steps_inv [OF go assms(1)] .
    from talk_restart_steps [OF this assms(2) _ rest] go show ?thesis
      by (auto simp: session_ok_def intro: rtranclp_trans)
  qed
qed

lemma Close_resilient_steps:
  assumes "env_latches env" "session_ok s m" "Close_resilient env s m = (err, s', m')"
  shows "device_steps m m'"
proof (cases "rtClosed s \<or> rtSession s = None")
  case True
  then show ?thesis using assms(3) by (auto simp: Close_resilient_def Let_def split: if_splits)
next
  case False
  then obtain i ts where i: "\<not> rtClosed s" "rtSession s = Some (i, ts)" by auto
  obtain err' ts' c where cl: "CloseTalk env ts (conn m i) = (err', ts', c)" using prod_cases3 by blast
  have "latch (conn m i) c" using cl stopTalk_latch [OF assms(1)] by (auto simp: CloseTalk_def split: if_splits prod.splits)
  moreover have "m' = set_conn i c m" using assms(3) i cl by (simp add: Close_resilient_def)
  ultimately show ?thesis using step_client [of i m c] assms(2) i(2) by (auto simp: session_ok_def)
qed

text \<open>What a turn meets leaves every client that ended as it is.\<close>

definition turn_latches :: "run_turn \<Rightarrow> bool" where
  "turn_latches t \<longleftrightarrow> link_latches (ruLink t) \<and> (\<forall>n. link_latches (weLink (ruWrites t n))) \<and> env_latches (ruClose t)"

definition sink_ok :: "device \<Rightarrow> talk_sink \<Rightarrow> bool" where
  "sink_ok m0 sink \<longleftrightarrow> (case sink of None \<Rightarrow> True | Some (n, s, m) \<Rightarrow> device_steps m0 m \<and> session_ok s m)"

lemma resilient_write_kept:
  assumes "dev_inv m0" "\<forall>n. link_latches (weLink (ws n))"
  shows "sink_kept (resilient_write parser ws) (sink_ok m0)"
  unfolding sink_kept_def
proof (intro allI impI)
  fix block sink
  assume ok: "sink_ok m0 sink"
  show "sink_ok m0 (snd (resilient_write parser ws block sink))"
  proof (cases sink)
    case (Some x)
    obtain n s m where x: "x = (n, s, m)" using prod_cases3 by blast
    have go: "device_steps m0 m" "session_ok s m" using ok Some x by (simp_all add: sink_ok_def)
    show ?thesis
    proof (cases "WriteADPCMBlock_resilient (weOk (ws n)) (weRetryOk (ws n)) (weNet (ws n)) (weRetryNet (ws n))
        (weLink (ws n)) parser (weNow (ws n)) block s m")
      case (Some y)
      obtain acc s' m' where y: "y = (acc, s', m')" using prod_cases3 by blast
      have "device_steps m m' \<and> session_ok s' m'"
        using WriteADPCMBlock_resilient_steps [OF device_steps_inv [OF go(1) assms(1)] _ go(2) Some [unfolded y]] assms(2) by blast
      then show ?thesis
        using \<open>sink = Some x\<close> x y Some go(1) by (auto simp: resilient_write_def sink_ok_def intro: rtranclp_trans)
    qed (use Some x in \<open>simp add: resilient_write_def sink_ok_def\<close>)
  qed (simp add: resilient_write_def sink_ok_def)
qed

lemma runBridge_steps:
  assumes "dev_inv m" "turn_latches t" "session_ok s m" "runBridge parser rin t s m = Some (over, s', m')"
  shows "device_steps m m' \<and> session_ok s' m'"
proof -
  obtain res b n where run: "runBridgeInternal (resilient_write parser (ruWrites t)) rin (rtSampleRate s) (rtSamplesPB s)
      (ruPcm t) (ruQueued t) (ruEvents t) (Some (0, s, m)) = Some (res, b)" and sink: "brSink b = Some (n, s', m')"
    using assms(4) by (auto simp: runBridge_def split: Option.bind_splits)
  have "sink_kept (resilient_write parser (ruWrites t)) (sink_ok m)"
    using resilient_write_kept [OF assms(1)] assms(2) by (simp add: turn_latches_def)
  from bridge_loop_sink [OF run [unfolded runBridgeInternal_def] this] assms(3) sink show ?thesis
    by (simp add: sink_ok_def)
qed

lemma pipeline_turn_steps:
  assumes "dev_inv m" "turn_latches t" "pipeline_turn parser rin t p m = Some (e, p', m')"
  shows "device_steps m m'"
proof (cases "ruCtx t \<or> ruPcm t = [] \<or> isSilence (ruPcm t) \<or> (case tpRetryAt p of None \<Rightarrow> False | Some r \<Rightarrow> ruNow t < r)")
  case True
  then show ?thesis using assms(3) by (auto simp: pipeline_turn_def split: if_splits)
next
  case False
  then obtain r m1 where start: "StartTalk_device (ruNet t) (ruLink t) parser (tpChannel p) m = Some (r, m1)"
    using assms(3) by (auto simp: pipeline_turn_def split: Option.bind_splits)
  have l: "link_latches (ruLink t)" "env_latches (ruClose t)" using assms(2) by (simp_all add: turn_latches_def)
  note go = StartTalk_device_steps [OF assms(1) l(1) start]
  show ?thesis
  proof (cases r)
    case (Inl x)
    then show ?thesis using assms(3) False start go by (auto simp: pipeline_turn_def)
  next
    case (Inr s)
    obtain over s2 m2 where b: "runBridge parser rin t s m1 = Some (over, s2, m2)"
      using assms(3) False start Inr by (auto simp: pipeline_turn_def Let_def split: Option.bind_splits)
    have "dev_inv m1" using device_steps_inv [OF _ assms(1)] go by blast
    from runBridge_steps [OF this assms(2) _ b] go Inr have 2: "device_steps m m2" "session_ok s2 m2"
      by (auto intro: rtranclp_trans)
    have "m' = m2 \<or> (\<exists>err s3. Close_resilient (ruClose t) s2 m2 = (err, s3, m'))"
      using assms(3) False start Inr b by (auto simp: pipeline_turn_def Let_def split: if_splits prod.splits)
    then show ?thesis using 2 Close_resilient_steps [OF l(2) 2(2)] by (auto intro: rtranclp_trans)
  qed
qed

lemma pipeline_run_steps:
  assumes "dev_inv m" "\<forall>t \<in> set ts. turn_latches t" "pipeline_run parser rin ts p m = Some (e, p', m')"
  shows "device_steps m m'"
  using assms
proof (induction ts arbitrary: p m)
  case (Cons t ts)
  obtain e1 p1 m1 where one: "pipeline_turn parser rin t p m = Some (e1, p1, m1)"
    using Cons.prems(3) by (auto split: Option.bind_splits)
  have go: "device_steps m m1" using pipeline_turn_steps [OF Cons.prems(1) _ one] Cons.prems(2) by simp
  show ?case
  proof (cases "e1 = RunGoesOn")
    case True
    have "device_steps m1 m'"
      using Cons.IH [OF device_steps_inv [OF go Cons.prems(1)]] Cons.prems(2,3) one True by simp
    then show ?thesis using go by (rule rtranclp_trans [rotated])
  qed (use Cons.prems(3) one go in simp)
qed simp

section \<open>Talkback touches its own connection only\<close>

text \<open>
  What talkback may touch of a device \<open>m0\<close>: the client it uses, and clients dialled later. Everything the other
  users of the device rely on (the privacy mode, the pushes, the event preparation, what was told to the
  callback so far) stays.
\<close>

definition mine :: "device \<Rightarrow> nat \<Rightarrow> bool" where
  "mine m0 i \<longleftrightarrow> dvClient m0 = Some i \<or> length (dvConns m0) \<le> i"

definition same_users :: "device \<Rightarrow> device \<Rightarrow> bool" where
  "same_users m0 m \<longleftrightarrow> dvNotify m = dvNotify m0 \<and> dvBackoff m = dvBackoff m0 \<and> dvPrivacy m = dvPrivacy m0
     \<and> dvEnded m = dvEnded m0 \<and> dvNextEnd m = dvNextEnd m0 \<and> dvIdle m = dvIdle m0 \<and> dvPushSeen m = dvPushSeen m0
     \<and> dvOnConnect m = dvOnConnect m0 \<and> dvCalls m = dvCalls m0 \<and> dvWebhookFailed m = dvWebhookFailed m0
     \<and> dvForeignWarned m = dvForeignWarned m0 \<and> dvPolls m = dvPolls m0 \<and> dvAudioSeen m = dvAudioSeen m0"

definition guest :: "device \<Rightarrow> device \<Rightarrow> bool" where
  "guest m0 m \<longleftrightarrow> same_users m0 m \<and> length (dvConns m0) \<le> length (dvConns m)
     \<and> (\<forall>j < length (dvConns m0). dvClient m0 \<noteq> Some j \<longrightarrow> conn m j = conn m0 j)
     \<and> (\<forall>i. dvClient m = Some i \<longrightarrow> mine m0 i)"

definition own_session :: "device \<Rightarrow> resilient_talk \<Rightarrow> bool" where
  "own_session m0 s \<longleftrightarrow> (\<forall>i ts. rtSession s = Some (i, ts) \<longrightarrow> mine m0 i)"

lemma guest_refl [simp]: "guest m m"
  by (simp add: guest_def same_users_def mine_def)

lemma notifyState_users [simp]:
  "dvForeignWarned (notifyState b m) = dvForeignWarned m" "dvPolls (notifyState b m) = dvPolls m"
  "dvAudioSeen (notifyState b m) = dvAudioSeen m"
  by (simp_all add: notifyState_def Let_def)

lemma guest_set_conn: "guest m0 m \<Longrightarrow> mine m0 i \<Longrightarrow> guest m0 (set_conn i c m)"
  by (auto simp: guest_def same_users_def mine_def set_conn_def nth_list_update)

lemma guest_closeLocked: "guest m0 m \<Longrightarrow> guest m0 (closeLocked m)"
  using guest_set_conn [of m0 m]
  by (auto simp: closeLocked_def guest_def same_users_def Let_def split: option.split)

lemma guest_reset: "guest m0 m \<Longrightarrow> guest m0 (ResetIfCurrent c m)"
  by (simp add: ResetIfCurrent_def guest_closeLocked)

lemma guest_connect:
  assumes "guest m0 m" "connect_device net m = Some (r, m')"
  shows "guest m0 m'"
proof -
  obtain g t where dc: "dial_config net m = (g, m\<lparr>dvSince := t\<rparr>)"
    using dial_config_keeps by (metis surj_pair)
  let ?m = "m\<lparr>dvSince := t\<rparr>"
  have "m' = ?m \<or> (\<exists>c. m' = ?m\<lparr>dvConns := dvConns m @ [c]\<rparr>) \<or> (\<exists>c i. adopt net c ?m = (i, m'))"
    using assms(2)
    by (auto simp: connect_device_def dc Let_def split: sum.splits Option.bind_splits option.splits prod.splits)
  moreover have "guest m0 m'" if "adopt net c ?m = (i, m')" for c i
  proof -
    obtain h u js where "adopt net c ?m = (length (dvConns ?m),
       (notifyState True (?m\<lparr>dvConns := dvConns ?m @ [c], dvClient := Some (length (dvConns ?m)),
          dvUsed := dvUsed ?m @ [length (dvConns ?m)], dvCfg := h, dvSince := u, dvDual := IsDualLens (loginInfo c)\<rparr>))\<lparr>dvJobs := js\<rparr>)"
      using adopt_form by blast
    with that have "m' = (notifyState True (?m\<lparr>dvConns := dvConns ?m @ [c], dvClient := Some (length (dvConns ?m)),
        dvUsed := dvUsed ?m @ [length (dvConns ?m)], dvCfg := h, dvSince := u, dvDual := IsDualLens (loginInfo c)\<rparr>))\<lparr>dvJobs := js\<rparr>"
      by auto
    then show ?thesis using assms(1) by (simp add: guest_def same_users_def mine_def nth_append)
  qed
  moreover have "guest m0 ?m" "guest m0 (?m\<lparr>dvConns := dvConns m @ [c]\<rparr>)" for c
    using assms(1) by (auto simp: guest_def same_users_def nth_append)
  ultimately show ?thesis by blast
qed

lemma adopt_client: "adopt net c m = (i, m') \<Longrightarrow> dvClient m' = Some i"
  using adopt_form [of net c m] by auto

lemma guest_Ensure:
  assumes "guest m0 m" "Ensure net m = Some (r, m')"
  shows "guest m0 m' \<and> (\<forall>i. r = Inr i \<longrightarrow> mine m0 i)"
proof -
  have g: "guest m0 m'"
    using assms guest_connect [OF assms(1)] guest_connect [OF guest_closeLocked [OF assms(1)]]
    by (auto simp: Ensure_def split: option.splits if_splits)
  have "connect_device net k = Some (Inr i, m') \<Longrightarrow> dvClient m' = Some i" for k i
    by (auto simp: connect_device_def Let_def split: sum.splits Option.bind_splits option.splits prod.splits
        dest: adopt_client)
  then have "r = Inr i \<Longrightarrow> dvClient m' = Some i" for i
    using assms(2) by (auto simp: Ensure_def split: option.splits if_splits)
  with g show ?thesis by (simp add: guest_def)
qed

lemma guest_on_conn: "on_conn fn i m = Some (res, m') \<Longrightarrow> guest m0 m \<Longrightarrow> mine m0 i \<Longrightarrow> guest m0 m'"
  by (auto simp: on_conn_def guest_set_conn)

lemma guest_start:
  assumes "guest m0 m" "StartTalk_device net l parser channel m = Some (r, m')"
  shows "guest m0 m' \<and> (\<forall>s. r = Inr s \<longrightarrow> own_session m0 s)"
proof -
  obtain e m1 where en: "Ensure net m = Some (e, m1)"
    using assms(2) by (auto simp: StartTalk_device_def split: Option.bind_splits)
  note g = guest_Ensure [OF assms(1) en]
  show ?thesis
  proof (cases e)
    case (Inr i)
    then obtain res m2 where s: "on_conn (Talk.StartTalk (loginOf l) parser (answers l 1) channel) i m1 = Some (res, m2)"
      using assms(2) en by (auto simp: StartTalk_device_def split: Option.bind_splits)
    have "guest m0 m2" using guest_on_conn [OF s] g Inr by simp
    then show ?thesis
      using assms(2) en Inr s g guest_reset by (auto simp: StartTalk_device_def own_session_def split: sum.splits if_splits)
  qed (use assms(2) en g in \<open>auto simp: StartTalk_device_def\<close>)
qed

lemma guest_restart:
  assumes "guest m0 m" "own_session m0 s" "talk_restart ok net l parser now block s m = Some (s', m')"
  shows "guest m0 m' \<and> own_session m0 s'"
proof (cases "case rtRetryAt s of None \<Rightarrow> False | Some t \<Rightarrow> now < t")
  case True
  then show ?thesis using assms by (simp add: talk_restart_def)
next
  case False
  obtain e m1 where en: "Ensure net m = Some (e, m1)"
    using assms(3) False by (auto simp: talk_restart_def Let_def split: Option.bind_splits)
  note g = guest_Ensure [OF assms(1) en]
  show ?thesis
  proof (cases e)
    case (Inr i)
    then obtain res m2 where s: "on_conn (Talk.StartTalk (loginOf l) parser (answers l 1) (rtChannel s)) i m1 = Some (res, m2)"
      using assms(3) False en by (auto simp: talk_restart_def Let_def split: Option.bind_splits)
    have "guest m0 m2" using guest_on_conn [OF s] g Inr by simp
    then show ?thesis
      using assms(2,3) False en Inr s g guest_reset guest_set_conn
      by (auto simp: talk_restart_def own_session_def Let_def split: sum.splits if_splits prod.splits)
  qed (use assms(2,3) False en g in \<open>auto simp: talk_restart_def own_session_def Let_def\<close>)
qed

lemma guest_write:
  assumes "guest m0 m" "own_session m0 s"
    and "WriteADPCMBlock_resilient ok ok' net net' l parser now block s m = Some (accepted, s', m')"
  shows "guest m0 m' \<and> own_session m0 s'"
proof (cases "rtClosed s \<or> rtSession s = None")
  case True
  then show ?thesis
    using assms guest_restart [OF assms(1,2)] by (auto simp: WriteADPCMBlock_resilient_def split: if_splits)
next
  case False
  then obtain i ts where i: "\<not> rtClosed s" "rtSession s = Some (i, ts)" by auto
  then have own: "mine m0 i" using assms(2) by (simp add: own_session_def)
  obtain err ts' c req where w: "WriteADPCMBlock ok now block ts (conn m i) = (err, ts', c, req)"
    using prod_cases4 by blast
  note g = guest_set_conn [OF assms(1) own, of c]
  show ?thesis
  proof (cases err)
    case None
    then show ?thesis using assms(3) i w g own by (auto simp: WriteADPCMBlock_resilient_def own_session_def)
  next
    case (Some e)
    obtain x m2 where en: "Ensure net (set_conn i c m) = Some (x, m2)"
      using assms(3) i w Some by (auto simp: WriteADPCMBlock_resilient_def split: Option.bind_splits)
    have "guest m0 (ResetIfCurrent d m2)" for d using guest_Ensure [OF g en] guest_reset by blast
    moreover have "own_session m0 (s\<lparr>rtSession := None\<rparr>)" by (simp add: own_session_def)
    moreover have "talk_restart ok' net' l parser now block (s\<lparr>rtSession := None\<rparr>)
        (ResetIfCurrent (case x of Inl e \<Rightarrow> None | Inr j \<Rightarrow> Some j) m2) = Some (s', m')"
      using assms(3) i w Some en by (auto simp: WriteADPCMBlock_resilient_def Let_def)
    ultimately show ?thesis by (rule guest_restart)
  qed
qed

lemma resilient_write_sink:
  assumes "\<And>ok ok' net net' l now block x y acc x' y'. Q x y \<Longrightarrow>
    WriteADPCMBlock_resilient ok ok' net net' l parser now block x y = Some (acc, x', y') \<Longrightarrow> Q x' y'"
  shows "sink_kept (resilient_write parser ws) (\<lambda>sink. \<forall>n x y. sink = Some (n, x, y) \<longrightarrow> Q x y)"
  unfolding sink_kept_def
proof (intro allI impI)
  fix block sink n x' y'
  assume ok: "\<forall>n x y. sink = Some (n, x, y) \<longrightarrow> Q x y" and out: "snd (resilient_write parser ws block sink) = Some (n, x', y')"
  then obtain k x y where sink: "sink = Some (k, x, y)" by (cases sink) (auto simp: resilient_write_def)
  define res where "res = WriteADPCMBlock_resilient (weOk (ws k)) (weRetryOk (ws k)) (weNet (ws k)) (weRetryNet (ws k))
      (weLink (ws k)) parser (weNow (ws k)) block x y"
  have "snd (resilient_write parser ws block sink) = map_option (\<lambda>(acc, x', y'). (Suc k, x', y')) res"
    by (simp add: resilient_write_def sink res_def split: option.split)
  with out obtain acc where "res = Some (acc, x', y')" by auto
  then show "Q x' y'" using assms [of x y] ok sink unfolding res_def by blast
qed

lemma guest_runBridge:
  assumes "guest m0 m" "own_session m0 s" "runBridge parser rin t s m = Some (over, s', m')"
  shows "guest m0 m' \<and> own_session m0 s'"
proof -
  let ?P = "\<lambda>sink. \<forall>n x y. sink = Some (n, x, y) \<longrightarrow> guest m0 y \<and> own_session m0 x"
  obtain res b n where run: "runBridgeInternal (resilient_write parser (ruWrites t)) rin (rtSampleRate s) (rtSamplesPB s)
      (ruPcm t) (ruQueued t) (ruEvents t) (Some (0, s, m)) = Some (res, b)" and sink: "brSink b = Some (n, s', m')"
    using assms by (auto simp: runBridge_def split: Option.bind_splits)
  have "sink_kept (resilient_write parser (ruWrites t)) ?P"
    by (rule resilient_write_sink) (use guest_write in blast)
  from bridge_loop_sink [OF run [unfolded runBridgeInternal_def] this] sink assms(1,2) show ?thesis by simp
qed

lemma guest_close: "guest m0 m \<Longrightarrow> own_session m0 s \<Longrightarrow> Close_resilient env s m = (err, s', m') \<Longrightarrow> guest m0 m'"
  by (auto simp: Close_resilient_def own_session_def Let_def split: if_splits option.splits prod.splits intro: guest_set_conn)

lemma guest_turn:
  assumes "guest m0 m" "pipeline_turn parser rin t p m = Some (e, p', m')"
  shows "guest m0 m'"
  using assms
  by (auto simp: pipeline_turn_def Let_def split: if_splits Option.bind_splits sum.splits prod.splits
      dest!: guest_start [OF assms(1)] dest: guest_runBridge guest_close)

lemma guest_run: "guest m0 m \<Longrightarrow> pipeline_run parser rin ts p m = Some (e, p', m') \<Longrightarrow> guest m0 m'"
  by (induction ts arbitrary: p m) (auto split: Option.bind_splits if_splits dest: guest_turn)

text \<open>C28: Talkback keeps to the connection it is given: whatever a client says, however the camera and the
  network answer (no answer revives a client that has ended) and wherever the audio is cut, all the pipeline does (starting a session, writing,
  reconnecting in the middle of a phrase, closing) leaves every client the device had given up before as it
  was, and nothing of what the other users of the device rely on changes: the privacy mode, the pushes, the
  preparation of events, what is known of the audio. Every client it dialled and the device does not use in
  the end is closed, and every up and down of the connection on the way is handed to the callback, no state
  lost and none invented.\<close>

theorem talkback_refines_device:
  assumes "device_steps (newCameraDevice c backoff onState) m" "\<forall>t \<in> set ts. turn_latches t"
    and "pipeline_run parser rin ts p m = Some (e, p', m')"
  shows "same_users m m'
    \<and> (\<forall>j < length (dvConns m). dvClient m \<noteq> Some j \<longrightarrow> conn m' j = conn m j)
    \<and> (\<forall>j < length (dvConns m'). dvClient m' \<noteq> Some j \<longrightarrow> closeErr (conn m' j) \<noteq> None)
    \<and> (\<forall>i. dvClient m' = Some i \<longrightarrow> (dvClient m = Some i \<or> length (dvConns m) \<le> i) \<and> i < length (dvConns m'))
    \<and> (onState \<longrightarrow> dvCalls m' @ in_callback m' @ dvPending m' = connection_history m')"
proof -
  have go: "device_steps m m'" using pipeline_run_steps [OF device_steps_inv [OF assms(1) dev_inv_new] assms(2,3)] .
  then have all: "device_steps (newCameraDevice c backoff onState) m'" using assms(1) by (rule rtranclp_trans [rotated])
  have "dvNotify m' = onState" using device_steps_notify [OF all] by (simp add: newCameraDevice_def)
  moreover have "history_ok m'" using device_steps_history [OF all] .
  moreover have "guest m m'" using guest_run [OF guest_refl assms(3)] .
  ultimately show ?thesis
    using device_steps_inv [OF all dev_inv_new]
    by (auto simp: dev_inv_def conns_ok_def guest_def mine_def history_ok_def state_log_def)
qed

section \<open>Starts and closes\<close>

text \<open>
  Failed starts keep their distance from every start that follows, \<open>tpRetryAt\<close> is past all of them, and
  every phrase that was begun has been ended.
\<close>

definition spaced_starts :: "(int \<times> int option) list \<Rightarrow> bool" where
  "spaced_starts starts \<longleftrightarrow>
     sorted_wrt (\<lambda>later earlier. \<forall>f. snd earlier = Some f \<longrightarrow> f + talkRetryPause \<le> fst later) starts"

text \<open>
  A close as it ought to be: the session the phrase ended with is stopped on the client it lives on, by a reset
  for the pipeline's channel, and the error is that of this request, but for the camera's 422, no such session.
\<close>

definition stopped_at_camera :: "byte \<Rightarrow> talk_close \<Rightarrow> bool" where
  "stopped_at_camera channel x \<longleftrightarrow>
     (case rtSession (clSession x) of
        None \<Rightarrow> clError x = None \<and> clAfter x = clDevice x
      | Some (i, ts) \<Rightarrow>
          (case sendRequest (clCamera x) (talk_request msgIDTalkReset channel []) (conn (clDevice x) i) of
             (reply, c) \<Rightarrow> clAfter x = set_conn i c (clDevice x)
               \<and> clError x = (case reply of Inr r \<Rightarrow> None | Inl e \<Rightarrow> if \<exists>k. e = StatusError k 422 then None else Some e)))"

definition pipeline_ok :: "talkback_pipeline \<Rightarrow> bool" where
  "pipeline_ok p \<longleftrightarrow> spaced_starts (tpStarts p)
     \<and> (\<forall>(n, f) \<in> set (tpStarts p). \<forall>x. f = Some x \<longrightarrow> (\<exists>r. tpRetryAt p = Some r \<and> x + talkRetryPause \<le> r))
     \<and> (\<forall>x \<in> set (tpClosed p). stopped_at_camera (tpChannel p) x)"

definition opened :: "talkback_pipeline \<Rightarrow> nat" where
  "opened p = length (filter (\<lambda>(n, f). f = None) (tpStarts p))"

text \<open>A session that is still to be closed, on the channel it was started for.\<close>

definition open_session :: "byte \<Rightarrow> resilient_talk \<Rightarrow> bool" where
  "open_session channel s \<longleftrightarrow> \<not> rtClosed s \<and> rtChannel s = channel
     \<and> (\<forall>i ts. rtSession s = Some (i, ts) \<longrightarrow> \<not> talkClosed ts \<and> tsChannel ts = channel)"

lemma stopTalk_reset:
  "stopTalk env channel c = (case sendRequest env (talk_request msgIDTalkReset channel []) c of
     (reply, c') \<Rightarrow> (case reply of Inr r \<Rightarrow> None | Inl e \<Rightarrow> if \<exists>k. e = StatusError k 422 then None else Some e, c'))"
  by (auto simp: stopTalk_def split: prod.split sum.split client_error.split)

lemma Close_resilient_stops:
  assumes "open_session channel s" "Close_resilient env s m = (err, s', m')"
  shows "stopped_at_camera channel \<lparr>clSession = s, clDevice = m, clCamera = env, clError = err, clAfter = m'\<rparr>"
  using assms
  by (auto simp: open_session_def Close_resilient_def CloseTalk_def stopped_at_camera_def stopTalk_reset Let_def
      split: option.splits prod.splits if_splits)

lemma WriteADPCMBlock_session:
  "WriteADPCMBlock ok now block ts c = (err, ts', c', req) \<Longrightarrow> talkClosed ts' = talkClosed ts \<and> tsChannel ts' = tsChannel ts"
  by (auto simp: WriteADPCMBlock_def Let_def split: if_splits prod.splits)

lemma StartTalk_session:
  "Talk.StartTalk login parser env channel c = Some (Inr ts, c') \<Longrightarrow> \<not> talkClosed ts \<and> tsChannel ts = channel"
  by (auto simp: StartTalk_def new_talk_session_def Let_def split: Option.bind_splits option.splits sum.splits prod.splits)

lemma talk_restart_open:
  assumes "open_session channel s" "talk_restart ok net l parser now block s m = Some (s', m')"
  shows "open_session channel s'"
  using assms
  by (auto simp: talk_restart_def open_session_def on_conn_def Let_def split: if_splits Option.bind_splits sum.splits prod.splits
      dest!: WriteADPCMBlock_session StartTalk_session)

lemma WriteADPCMBlock_resilient_open:
  assumes "open_session channel s" "WriteADPCMBlock_resilient ok ok' net net' l parser now block s m = Some (accepted, s', m')"
  shows "open_session channel s'"
proof (cases "rtSession s")
  case None
  then show ?thesis
    using assms talk_restart_open [OF assms(1)] by (auto simp: WriteADPCMBlock_resilient_def split: if_splits)
next
  case (Some a)
  obtain i ts where a: "a = (i, ts)" by (cases a)
  obtain err ts' c req where w: "WriteADPCMBlock ok now block ts (conn m i) = (err, ts', c, req)"
    using prod_cases4 by blast
  have "open_session channel (s\<lparr>rtSession := None\<rparr>)" "open_session channel (s\<lparr>rtSession := Some (i, ts')\<rparr>)"
    using assms(1) WriteADPCMBlock_session [OF w] Some a by (simp_all add: open_session_def)
  then show ?thesis
    using assms Some a w talk_restart_open [of channel "s\<lparr>rtSession := None\<rparr>"]
    by (auto simp: WriteADPCMBlock_resilient_def Let_def split: if_splits option.splits Option.bind_splits)
qed

lemma runBridge_open:
  assumes "open_session channel s" "runBridge parser rin t s m = Some (over, s', m')"
  shows "open_session channel s'"
proof -
  obtain res b n where run: "runBridgeInternal (resilient_write parser (ruWrites t)) rin (rtSampleRate s) (rtSamplesPB s)
      (ruPcm t) (ruQueued t) (ruEvents t) (Some (0, s, m)) = Some (res, b)" and sink: "brSink b = Some (n, s', m')"
    using assms by (auto simp: runBridge_def split: Option.bind_splits)
  have "sink_kept (resilient_write parser (ruWrites t)) (\<lambda>sink. \<forall>n x y. sink = Some (n, x, y) \<longrightarrow> open_session channel x)"
    by (rule resilient_write_sink) (rule WriteADPCMBlock_resilient_open)
  from bridge_loop_sink [OF run [unfolded runBridgeInternal_def] this] sink assms(1) show ?thesis by simp
qed

lemma StartTalk_device_open: "StartTalk_device net l parser channel m = Some (Inr s, m') \<Longrightarrow> open_session channel s"
  by (auto simp: StartTalk_device_def open_session_def on_conn_def split: Option.bind_splits sum.splits if_splits
      dest!: StartTalk_session)

lemma pipeline_turn_ok:
  assumes "pipeline_ok p" "ruNow t \<le> ruFailed t" "pipeline_turn parser rin t p m = Some (e, p', m')"
  shows "pipeline_ok p' \<and> opened p' + length (tpClosed p) = opened p + length (tpClosed p') + (if e = RunBridging then 1 else 0)"
proof (cases "ruCtx t \<or> ruPcm t = [] \<or> isSilence (ruPcm t) \<or> (case tpRetryAt p of None \<Rightarrow> False | Some r \<Rightarrow> ruNow t < r)")
  case True
  then show ?thesis using assms by (auto simp: pipeline_turn_def split: if_splits)
next
  case False
  then obtain r m1 where start: "StartTalk_device (ruNet t) (ruLink t) parser (tpChannel p) m = Some (r, m1)"
    using assms(3) by (auto simp: pipeline_turn_def split: Option.bind_splits)
  have late: "x + talkRetryPause \<le> ruNow t" if "(n, Some x) \<in> set (tpStarts p)" for n x
    using that assms(1) False by (fastforce simp: pipeline_ok_def)
  have spaced: "spaced_starts ((ruNow t, f) # tpStarts p)" for f
    using assms(1) late by (auto simp: pipeline_ok_def spaced_starts_def)
  show ?thesis
  proof (cases r)
    case (Inl x)
    then have p': "p' = p\<lparr>tpRetryAt := Some (ruFailed t + talkRetryPause), tpStarts := (ruNow t, Some (ruFailed t)) # tpStarts p\<rparr>"
        "e = RunGoesOn"
      using assms(3) False start by (auto simp: pipeline_turn_def)
    have "y + talkRetryPause \<le> ruFailed t + talkRetryPause" if "(n, Some y) \<in> set (tpStarts p)" for n y
      using late [OF that] assms(2) by (simp add: talkRetryPause_def)
    then show ?thesis using spaced assms(1) by (auto simp: p' pipeline_ok_def opened_def)
  next
    case (Inr s)
    define q where "q = p\<lparr>tpStarts := (ruNow t, None) # tpStarts p\<rparr>"
    obtain over s2 m2 where b: "runBridge parser rin t s m1 = Some (over, s2, m2)"
      using assms(3) False start Inr by (auto simp: pipeline_turn_def Let_def split: Option.bind_splits)
    have q: "pipeline_ok q" "opened q = Suc (opened p)" "tpClosed q = tpClosed p" "tpChannel q = tpChannel p"
      using spaced assms(1) by (auto simp: q_def pipeline_ok_def opened_def)
    obtain err s3 m3 where cl: "Close_resilient (ruClose t) s2 m2 = (err, s3, m3)" using prod_cases3 by blast
    let ?x = "\<lparr>clSession = s2, clDevice = m2, clCamera = ruClose t, clError = err, clAfter = m3\<rparr>"
    have "stopped_at_camera (tpChannel p) ?x"
      using Close_resilient_stops [OF _ cl] runBridge_open [OF _ b] StartTalk_device_open start Inr by blast
    moreover have "p' = (if over then q\<lparr>tpClosed := ?x # tpClosed q\<rparr> else q)" "e = (if over then RunGoesOn else RunBridging)"
      using assms(3) False start Inr b cl by (auto simp: pipeline_turn_def Let_def q_def split: if_splits)
    ultimately show ?thesis using q by (auto simp: pipeline_ok_def opened_def)
  qed
qed

lemma pipeline_run_ok:
  assumes "pipeline_ok p" "opened p = length (tpClosed p)" "\<forall>t \<in> set ts. ruNow t \<le> ruFailed t"
    and "pipeline_run parser rin ts p m = Some (e, p', m')"
  shows "pipeline_ok p' \<and> opened p' = length (tpClosed p') + (if e = RunBridging then 1 else 0)"
  using assms
proof (induction ts arbitrary: p m)
  case (Cons t ts)
  obtain e1 p1 m1 where one: "pipeline_turn parser rin t p m = Some (e1, p1, m1)"
    using Cons.prems(4) by (auto split: Option.bind_splits)
  have ok: "pipeline_ok p1" "opened p1 = length (tpClosed p1) + (if e1 = RunBridging then 1 else 0)"
    using pipeline_turn_ok [OF Cons.prems(1) _ one] Cons.prems(2,3) by auto
  show ?case
  proof (cases "e1 = RunGoesOn")
    case True
    then show ?thesis using Cons.IH [OF ok(1)] ok(2) Cons.prems(3,4) one by simp
  qed (use Cons.prems(4) one ok in auto)
qed simp

lemma pipeline_run_channel: "pipeline_run parser rin ts p m = Some (e, p', m') \<Longrightarrow> tpChannel p' = tpChannel p"
proof (induction ts arbitrary: p m)
  case (Cons t ts)
  have "tpChannel p1 = tpChannel p" if "pipeline_turn parser rin t p m = Some (e1, p1, m1)" for e1 p1 m1
    using that by (auto simp: pipeline_turn_def Let_def split: if_splits Option.bind_splits sum.splits prod.splits)
  with Cons show ?case by (fastforce split: Option.bind_splits if_splits)
qed simp

text \<open>C29: The camera's one talk slot is neither hammered nor kept: after a phrase whose start failed, the next start
  comes at least three seconds later whatever is said meanwhile; and every phrase that was started is ended
  before the pipeline waits for the next one. When it is ended, the session it has then (the one it began with,
  or the one a reconnect within the phrase put in its place) is stopped at the camera: a reset of the pipeline's
  channel is sent on the client of the session, and the close fails exactly when that request does, but for
  the camera's answer that there is no session. Only a phrase that a reconnect left without a session sends
  nothing.\<close>

theorem talk_slot_released:
  assumes "\<forall>t \<in> set ts. ruNow t \<le> ruFailed t"
    and "pipeline_run parser rin ts (newTalkbackPipeline channel) m = Some (e, p, m')"
  shows "sorted_wrt (\<lambda>later earlier. \<forall>f. snd earlier = Some f \<longrightarrow> f + 3 * 10 ^ 9 \<le> fst later) (tpStarts p)
    \<and> (e \<noteq> RunBridging \<longrightarrow> length (filter (\<lambda>(n, f). f = None) (tpStarts p)) = length (tpClosed p))
    \<and> (\<forall>x \<in> set (tpClosed p). case rtSession (clSession x) of
          None \<Rightarrow> clError x = None \<and> clAfter x = clDevice x
        | Some (i, ts) \<Rightarrow>
            (case sendRequest (clCamera x) (talk_request msgIDTalkReset channel []) (conn (clDevice x) i) of
               (reply, c) \<Rightarrow> clAfter x = set_conn i c (clDevice x)
                 \<and> clError x = (case reply of Inr r \<Rightarrow> None
                      | Inl e \<Rightarrow> if \<exists>k. e = StatusError k 422 then None else Some e)))"
proof -
  have "pipeline_ok (newTalkbackPipeline channel)" "opened (newTalkbackPipeline channel) = length (tpClosed (newTalkbackPipeline channel))"
    by (simp_all add: newTalkbackPipeline_def pipeline_ok_def opened_def spaced_starts_def)
  note ok = pipeline_run_ok [OF this assms]
  have "tpChannel p = channel" using pipeline_run_channel [OF assms(2)] by (simp add: newTalkbackPipeline_def)
  then have "\<forall>x \<in> set (tpClosed p). stopped_at_camera channel x" using ok by (simp add: pipeline_ok_def)
  moreover have "spaced_starts (tpStarts p)" using ok by (simp add: pipeline_ok_def)
  moreover have "opened p = length (tpClosed p) + (if e = RunBridging then 1 else 0)" using ok ..
  ultimately show ?thesis
    unfolding stopped_at_camera_def spaced_starts_def talkRetryPause_def opened_def by (intro conjI impI) simp_all
qed

section \<open>A phrase on a concrete device\<close>

definition ability_doc :: xml where
  "ability_doc = Elem ''body'' [] [Elem ''TalkAbility'' [(''version'', ''1.1'')]
     [Elem ''duplexList'' [] [field ''duplex'' ''FDX''],
      Elem ''audioStreamModeList'' [] [field ''audioStreamMode'' ''followVideoStream''],
      Elem ''audioConfigList'' [] [Elem ''audioConfig'' []
        [field ''audioType'' ''adpcm'', num_field ''sampleRate'' 8000, num_field ''samplePrecision'' 16,
         num_field ''lengthPerEncoder'' 2, field ''soundTrack'' ''mono'']]]]"

definition demo_writes :: "nat \<Rightarrow> write_env" where
  "demo_writes n = \<lparr>weOk = True, weRetryOk = True, weNet = demo_network 0, weRetryNet = demo_network 0,
     weLink = demo_link [], weNow = 0\<rparr>"

definition phrase :: "network \<Rightarrow> int \<Rightarrow> run_turn" where
  "phrase net now = \<lparr>ruCtx = False, ruPcm = [1000, 2000], ruNow = now, ruFailed = now + 1, ruNet = net, ruLink = demo_link [],
     ruWrites = demo_writes, ruQueued = [], ruEvents = [ClientGone []], ruClose = answers (demo_link []) 0\<rparr>"

lemma ability_doc_decodes:
  "decode_talk_ability ability_doc = Some (Some \<lparr>taVersion = ''1.1'', DuplexList = [''FDX''],
     AudioStreamModeList = [''followVideoStream''],
     AudioConfigList = [\<lparr>Priority = None, AudioType = ''adpcm'', SampleRate = 8000, SamplePrecision = 16,
       LengthPerEncode = 2, SoundTrack = ''mono''\<rparr>]\<rparr>)"
  by (simp add: decode_talk_ability_def ability_doc_def root_kids_def slice_field_def struct_field_def str_field_def attr_value_def
      decode_audio_config_def opt_uint_field_def uint_field_single [where i = 8000] uint_field_single [where i = 16]
      uint_field_single [where i = 2] Let_def)

lemma demo_link_latches: "link_latches (demo_link d)" "env_latches (answers (demo_link d) n)"
  by (auto simp: link_latches_def env_latches_def demo_link_def)

lemma phrase_latches: "turn_latches (phrase net now)"
  by (simp add: turn_latches_def phrase_def demo_writes_def demo_link_latches)

text \<open>The camera answers everything, so a session starts on any client.\<close>

lemma demo_start:
  "\<exists>c' ts. Talk.StartTalk (loginOf (demo_link [])) (\<lambda>_. Some ability_doc) (answers (demo_link []) 1) 0 c = Some (Inr ts, c')
    \<and> sampleRate ts = 8000 \<and> samplesPerBlock ts = 2 \<and> bytesPerBlock ts = 5 \<and> \<not> talkClosed ts"
  by (simp add: StartTalk_def demo_link_def getTalkAbility_def sendRequest_def roundTripRequest_def reserveMessageNumber_def
      message_success_def demo_message_def ability_doc_decodes defaultTalkConfig_def startTalkSession_def talk_accepted_def
      new_talk_session_def Let_def)

lemma demo_encode: "\<exists>e block. encode_block e0 [1000, 2000] = (e, Inr block) \<and> length block = 5"
  using encode_block_layout [of e0 "[1000, 2000]"] by (cases "encode_samples e0 [1000, 2000]") (auto split: prod.splits)

lemma demo_bridged:
  assumes "rtSession s = Some (i, ts)" "\<not> rtClosed s" "\<not> talkClosed ts" "bytesPerBlock ts = 5"
    and "rtSampleRate s = 8000" "rtSamplesPB s = 2"
  shows "\<exists>s' m' ts'. runBridge parser 8000 (phrase net now) s m = Some (True, s', m') \<and> rtSession s' = Some (i, ts')"
proof -
  obtain e block where enc: "encode_block \<lparr>predicted = 0, index = 0\<rparr> [1000, 2000] = (e, Inr block)" "length block = 5"
    using demo_encode by blast
  obtain ts' c req where "WriteADPCMBlock True 0 block ts (conn m i) = (None, ts', c, req)"
    using enc(2) assms(3,4) by (auto simp: WriteADPCMBlock_def reserveMessageNumber_def Let_def)
  then have w: "resilient_write parser demo_writes block (Some (0, s, m)) =
      (None, Some (1, s\<lparr>rtSession := Some (i, ts')\<rparr>, set_conn i c m))"
    using assms(1,2) by (simp add: resilient_write_def demo_writes_def WriteADPCMBlock_resilient_def)
  show ?thesis
    using enc w assms(5,6)
    by (simp add: runBridge_def runBridgeInternal_def phrase_def processPCM_def flush_def
        writeBlocks.simps [of _ 2 _ "[1000, 2000]"] writeBlocks.simps [of _ 2 _ "[]"])
qed

lemma demo_turn:
  "\<exists>p' m'. pipeline_turn (\<lambda>_. Some ability_doc) 8000 (phrase (demo_network 0) 5) (newTalkbackPipeline 0) demo_device =
     Some (RunGoesOn, p', m') \<and> length (tpClosed p') = 1 \<and> (\<exists>x ts. tpClosed p' = [x] \<and> rtSession (clSession x) = Some (0, ts))"
proof -
  obtain m1 where en: "Ensure (demo_network 0) demo_device = Some (Inr 0, m1)" using demo_connects by blast
  obtain c' ts where st: "Talk.StartTalk (loginOf (demo_link [])) (\<lambda>_. Some ability_doc) (answers (demo_link []) 1) 0 (conn m1 0) = Some (Inr ts, c')"
    and ts: "sampleRate ts = 8000" "samplesPerBlock ts = 2" "bytesPerBlock ts = 5" "\<not> talkClosed ts"
    using demo_start by blast
  define s where "s = \<lparr>rtChannel = 0, rtSession = Some (0, ts), rtSampleRate = 8000, rtSamplesPB = 2, rtBytesPB = 5,
    rtClosed = False, rtRetryAt = None\<rparr>"
  have start: "StartTalk_device (demo_network 0) (demo_link []) (\<lambda>_. Some ability_doc) 0 demo_device = Some (Inr s, set_conn 0 c' m1)"
    by (simp add: StartTalk_device_def en on_conn_def st [unfolded One_nat_def] ts s_def)
  obtain s2 m2 ts2 where b: "runBridge (\<lambda>_. Some ability_doc) 8000 (phrase (demo_network 0) 5) s (set_conn 0 c' m1) = Some (True, s2, m2)"
    and ts2: "rtSession s2 = Some (0, ts2)"
    using demo_bridged [of s 0 ts "\<lambda>_. Some ability_doc" "demo_network 0" 5 "set_conn 0 c' m1"] ts by (auto simp: s_def)
  obtain err s3 m3 where cl: "Close_resilient (ruClose (phrase (demo_network 0) 5)) s2 m2 = (err, s3, m3)" using prod_cases3 by blast
  have loud: "\<not> isSilence [1000, 2000]" by (simp add: isSilence_def)
  show ?thesis
    using start b cl loud ts2 by (simp add: pipeline_turn_def newTalkbackPipeline_def phrase_def Let_def)
qed

theorem talkback_refines_device_witness:
  "\<exists>p' m'. pipeline_run (\<lambda>_. Some ability_doc) 8000 [phrase (demo_network 0) 5] (newTalkbackPipeline 0) demo_device = Some (RunGoesOn, p', m')
     \<and> length (tpClosed p') = 1 \<and> same_users demo_device m'"
proof -
  obtain p' m' where t: "pipeline_turn (\<lambda>_. Some ability_doc) 8000 (phrase (demo_network 0) 5) (newTalkbackPipeline 0) demo_device
      = Some (RunGoesOn, p', m')" "length (tpClosed p') = 1" using demo_turn by blast
  then have run: "pipeline_run (\<lambda>_. Some ability_doc) 8000 [phrase (demo_network 0) 5] (newTalkbackPipeline 0) demo_device = Some (RunGoesOn, p', m')"
    by simp
  have "same_users demo_device m'"
    using talkback_refines_device [of Client.demo_config 0 True demo_device, OF _ _ run]
    by (simp add: demo_device_def phrase_latches)
  then show ?thesis using run t(2) by blast
qed

theorem talk_slot_released_witness:
  "\<exists>p m x ts. pipeline_run (\<lambda>_. Some ability_doc) 8000 [phrase (demo_network 0) 5] (newTalkbackPipeline 0) demo_device = Some (RunGoesOn, p, m)
     \<and> tpClosed p = [x] \<and> rtSession (clSession x) = Some (0, ts)
     \<and> clAfter x = set_conn 0 (snd (sendRequest (clCamera x) (talk_request msgIDTalkReset 0 []) (conn (clDevice x) 0))) (clDevice x)"
proof -
  obtain p m x ts where t: "pipeline_turn (\<lambda>_. Some ability_doc) 8000 (phrase (demo_network 0) 5) (newTalkbackPipeline 0) demo_device
      = Some (RunGoesOn, p, m)" "tpClosed p = [x]" "rtSession (clSession x) = Some (0, ts)" using demo_turn by blast
  then have run: "pipeline_run (\<lambda>_. Some ability_doc) 8000 [phrase (demo_network 0) 5] (newTalkbackPipeline 0) demo_device = Some (RunGoesOn, p, m)"
    by simp
  have "\<forall>t \<in> set [phrase (demo_network 0) 5]. ruNow t \<le> ruFailed t" by (simp add: phrase_def)
  from talk_slot_released [OF this run] t(2,3) have
    "clAfter x = set_conn 0 (snd (sendRequest (clCamera x) (talk_request msgIDTalkReset 0 []) (conn (clDevice x) 0))) (clDevice x)"
    by (simp split: prod.splits)
  then show ?thesis using run t(2,3) by blast
qed

end
