(* ===== verification/Listeners.thy ===== *)
theory Listeners
  imports DeviceOps "HOL-Library.Sublist"
begin

text \<open>
  The goroutines that listen to a client's pushes: \<^verbatim>\<open>listenForStates\<close> of \<^verbatim>\<open>client.go\<close> with the listeners built on
  it, \<^verbatim>\<open>ListenForBattery\<close> of \<^verbatim>\<open>battery.go\<close> and the loop of \<^verbatim>\<open>ListenForAlarms\<close> in \<^verbatim>\<open>motion.go\<close>. All are one loop: it
  subscribes to some message ids, hands every message it takes to a handler, and unsubscribes when its
  context, the connection or its caller ends it. The rest of the client goes on between its turns.
\<close>

section \<open>The loop\<close>

text \<open>
  \<open>lsState\<close> is what the handler has done so far. Kept for the theorems: the messages taken, with the
  subscription each came from, and every message the read loop dispatched since the listener started.
\<close>

record 's listening =
  lsKeys :: "(u32 \<times> nat) list"
  lsRunning :: bool
  lsState :: 's
  lsLog :: "((u32 \<times> nat) \<times> message) list"
  lsPushed :: "message list"

fun subscribe_all :: "u32 list \<Rightarrow> client \<Rightarrow> (u32 \<times> nat) list \<times> client" where
  "subscribe_all [] c = ([], c)"
| "subscribe_all (msgID # ids) c =
     (case subscribe msgID c of (n, c) \<Rightarrow> (case subscribe_all ids c of (ks, c) \<Rightarrow> ((msgID, n) # ks, c)))"

definition start_listening :: "u32 list \<Rightarrow> 's \<Rightarrow> client \<Rightarrow> client \<times> 's listening" where
  "start_listening ids s c =
     (case subscribe_all ids c of
        (ks, c) \<Rightarrow> (c, \<lparr>lsKeys = ks, lsRunning = True, lsState = s, lsLog = [], lsPushed = []\<rparr>))"

text \<open>A turn of the select that takes a message from one of the subscriptions.\<close>

definition take_turn ::
  "(u32 \<Rightarrow> message \<Rightarrow> 's \<Rightarrow> 's) \<Rightarrow> u32 \<times> nat \<Rightarrow> client \<times> 's listening \<Rightarrow> client \<times> 's listening" where
  "take_turn handle k cw =
     (case take_message k (fst cw) of
        (None, c) \<Rightarrow> (c, snd cw)
      | (Some m, c) \<Rightarrow>
          (c, (snd cw)\<lparr>lsState := handle (fst k) m (lsState (snd cw)), lsLog := lsLog (snd cw) @ [(k, m)]\<rparr>))"

text \<open>The turn that ends it, with the deferred unsubscribes.\<close>

definition end_turn :: "client \<times> 's listening \<Rightarrow> client \<times> 's listening" where
  "end_turn cw = (fold del_listener (lsKeys (snd cw)) (fst cw), (snd cw)\<lparr>lsRunning := False\<rparr>)"

text \<open>The handlers: what a message does in each listener.\<close>

definition states_handler :: "(string \<Rightarrow> int \<Rightarrow> bool option) \<Rightarrow> byte \<Rightarrow> u32 \<Rightarrow> message \<Rightarrow> bool list \<Rightarrow> bool list" where
  "states_handler parse channel msgID m calls = calls @ state_callback parse channel m"

definition battery_handler :: "xml_parser \<Rightarrow> byte \<Rightarrow> u32 \<Rightarrow> message \<Rightarrow> battery_info list \<Rightarrow> battery_info list" where
  "battery_handler parser channel msgID m calls = calls @ battery_callbacks parser channel (XML m)"

definition alarm_handler ::
  "xml_parser \<Rightarrow> byte \<Rightarrow> bool \<Rightarrow> bool \<Rightarrow> u32 \<Rightarrow> message \<Rightarrow> alarm_listener \<Rightarrow> alarm_listener" where
  "alarm_handler parser channel dualLens isNVR msgID m =
     alarm_listener_step parser channel dualLens isNVR
       (if msgID = msgIDMotion then MotionPush (XML m) else YoloPush (uint msgID) (XML m))"

definition listenForStates :: "u32 \<Rightarrow> client \<Rightarrow> client \<times> bool list listening" where
  "listenForStates msgID = start_listening [msgID] []"

definition ListenForFloodlight :: "client \<Rightarrow> client \<times> bool list listening" where
  "ListenForFloodlight = listenForStates msgIDFloodlightStatus"

definition ListenForSleep :: "client \<Rightarrow> client \<times> bool list listening" where
  "ListenForSleep = listenForStates msgIDChannelInfoList"

definition ListenForBattery :: "client \<Rightarrow> client \<times> battery_info list listening" where
  "ListenForBattery = start_listening [msgIDBatteryInfo, msgIDBatteryInfoList] []"

definition alarm_loop :: "client \<Rightarrow> client \<times> alarm_listener listening" where
  "alarm_loop = start_listening [msgIDMotion, 600, 696] fresh_listener"

section \<open>A listener beside the rest of the client\<close>

text \<open>The read loop dispatches, the listener takes or ends, and anybody else may do what leaves its
  subscriptions alone.\<close>

inductive listens ::
  "(u32 \<Rightarrow> message \<Rightarrow> 's \<Rightarrow> 's) \<Rightarrow> client \<times> 's listening \<Rightarrow> client \<times> 's listening \<Rightarrow> bool"
  for handle where
  listens_push: "listens handle (c, w) (dispatch m c, w\<lparr>lsPushed := lsPushed w @ [m]\<rparr>)"
| listens_take: "lsRunning w \<Longrightarrow> k \<in> set (lsKeys w) \<Longrightarrow> listens handle (c, w) (take_turn handle k (c, w))"
| listens_end: "lsRunning w \<Longrightarrow> listens handle (c, w) (end_turn (c, w))"
| listens_other: "\<forall>k \<in> set (lsKeys w). listener c' k = listener c k \<Longrightarrow> listens handle (c, w) (c', w)"

inductive_cases listensE: "listens handle cw cw'"

definition taken_from :: "u32 \<times> nat \<Rightarrow> 's listening \<Rightarrow> message list" where
  "taken_from k w = map snd (filter (\<lambda>e. fst e = k) (lsLog w))"

definition meant_for :: "u32 \<times> nat \<Rightarrow> 's listening \<Rightarrow> message list" where
  "meant_for k w = filter (\<lambda>m. MsgID (Header m) = fst k) (lsPushed w)"

text \<open>What a running listener knows of one of its subscriptions.\<close>

definition key_ok :: "client \<Rightarrow> 's listening \<Rightarrow> u32 \<times> nat \<Rightarrow> bool" where
  "key_ok c w k \<longleftrightarrow> (\<exists>sub. listener c k = Some sub \<and> subseq (taken_from k w @ ch sub) (meant_for k w)
     \<and> length (taken_from k w @ ch sub) + dropped sub = length (meant_for k w))"

definition listen_inv :: "(u32 \<Rightarrow> message \<Rightarrow> 's \<Rightarrow> 's) \<Rightarrow> 's \<Rightarrow> client \<times> 's listening \<Rightarrow> bool" where
  "listen_inv handle s0 cw \<longleftrightarrow>
     lsState (snd cw) = fold (\<lambda>(k, m). handle (fst k) m) (lsLog (snd cw)) s0
     \<and> (\<forall>k \<in> set (lsKeys (snd cw)). if lsRunning (snd cw) then key_ok (fst cw) (snd cw) k else listener (fst cw) k = None)"

lemma subscribe_listener:
  assumes "subscribe msgID c = (n, c')"
  shows "n = nextSub c" "nextSub c' = nextSub c + 1"
    "listener c' k = (if k = (msgID, n) then Some \<lparr>ch = [], dropped = 0\<rparr> else listener c k)"
proof -
  show "n = nextSub c" "nextSub c' = nextSub c + 1" using assms by (auto simp: subscribe_def Let_def)
  obtain i j where k: "k = (i, j)" by (cases k)
  show "listener c' k = (if k = (msgID, n) then Some \<lparr>ch = [], dropped = 0\<rparr> else listener c k)"
    using assms by (auto simp: k subscribe_def listener_def Let_def split: option.splits if_splits)
qed

lemma subscribe_all_keys:
  assumes "subscribe_all ids c = (ks, c')"
  shows "map fst ks = ids \<and> (\<forall>k \<in> set ks. nextSub c \<le> snd k \<and> listener c' k = Some \<lparr>ch = [], dropped = 0\<rparr>)
    \<and> (\<forall>k. snd k < nextSub c \<longrightarrow> listener c' k = listener c k)"
  using assms
proof (induction ids arbitrary: c ks)
  case (Cons msgID ids)
  obtain n c1 where sub: "subscribe msgID c = (n, c1)" by fastforce
  obtain ks1 where rest: "subscribe_all ids c1 = (ks1, c')" "ks = (msgID, n) # ks1"
    using Cons.prems sub by (auto split: prod.splits)
  note s = subscribe_listener(1,2) [OF sub] and get = subscribe_listener(3) [OF sub]
  have IH: "map fst ks1 = ids" "\<forall>k \<in> set ks1. nextSub c1 \<le> snd k \<and> listener c' k = Some \<lparr>ch = [], dropped = 0\<rparr>"
    "\<forall>k. snd k < nextSub c1 \<longrightarrow> listener c' k = listener c1 k"
    using Cons.IH [OF rest(1)] by auto
  have new: "listener c' (msgID, n) = Some \<lparr>ch = [], dropped = 0\<rparr>" using IH(3) s get by simp
  have later: "nextSub c \<le> snd k" if "k \<in> set ks1" for k using IH(2) s(2) that by fastforce
  have older: "listener c' k = listener c k" if "snd k < nextSub c" for k
  proof -
    have "k \<noteq> (msgID, n)" using that s(1) by auto
    moreover have "listener c' k = listener c1 k" using IH(3) s(2) that by (cases k) simp
    ultimately show ?thesis using get [of k] by simp
  qed
  show ?case using IH(1,2) new later older s(1) by (simp add: rest(2))
qed simp

lemma listen_inv_start: "listen_inv handle s (start_listening ids s c)"
  using subscribe_all_keys [of ids c]
  by (cases "subscribe_all ids c") (auto simp: start_listening_def listen_inv_def key_ok_def taken_from_def meant_for_def)

lemma fold_del_listener: "listener (fold del_listener ks c) k = (if k \<in> set ks then None else listener c k)"
  by (induction ks arbitrary: c) (auto simp: listeners.get_del)

lemma take_message_listener:
  assumes "take_message k c = (r, c')"
  shows "(r = None \<and> c' = c)
    \<or> (\<exists>sub m. r = Some m \<and> listener c k = Some sub \<and> ch sub = m # tl (ch sub)
        \<and> (\<forall>k'. listener c' k' = (if k' = k then Some (sub\<lparr>ch := tl (ch sub)\<rparr>) else listener c k')))"
  using assms by (auto simp: take_message_def listeners.get_put split: option.splits list.splits)

lemma key_ok_push:
  assumes "key_ok c w k"
  shows "key_ok (dispatch m c) (w\<lparr>lsPushed := lsPushed w @ [m]\<rparr>) k"
proof -
  obtain sub where sub: "listener c k = Some sub" "subseq (taken_from k w @ ch sub) (meant_for k w)"
    "length (taken_from k w @ ch sub) + dropped sub = length (meant_for k w)"
    using assms by (auto simp: key_ok_def)
  have "subseq ((taken_from k w @ ch sub) @ [m]) (meant_for k w @ [m])" using sub(2) by (rule list_emb_append_mono) simp
  moreover have "subseq (taken_from k w @ ch sub) (meant_for k w @ [m])" using sub(2) by (rule subseq_rev_drop_many)
  ultimately show ?thesis
    using sub by (auto simp: key_ok_def dispatch_listener offer_def taken_from_def meant_for_def)
qed

lemma listens_inv:
  assumes "listens handle cw cw'" "listen_inv handle s0 cw"
  shows "listen_inv handle s0 cw'"
  using assms
proof (induction rule: listens.induct)
  case (listens_push c w m)
  then show ?case by (auto simp: listen_inv_def dispatch_listener key_ok_push)
next
  case (listens_take w k c)
  obtain r c' where t: "take_message k c = (r, c')" by fastforce
  show ?case
  proof (cases r)
    case None
    then show ?thesis using take_message_listener [OF t] listens_take t by (auto simp: take_turn_def)
  next
    case (Some m)
    then obtain sub where sub: "listener c k = Some sub" "ch sub = m # tl (ch sub)"
        "\<And>k'. listener c' k' = (if k' = k then Some (sub\<lparr>ch := tl (ch sub)\<rparr>) else listener c k')"
      using take_message_listener [OF t] by auto
    let ?w = "w\<lparr>lsState := handle (fst k) m (lsState w), lsLog := lsLog w @ [(k, m)]\<rparr>"
    have ok: "key_ok c w k'" if "k' \<in> set (lsKeys w)" for k'
      using that listens_take by (simp add: listen_inv_def)
    have "taken_from k ?w @ tl (ch sub) = taken_from k w @ ch sub"
      using sub(2) by (simp add: taken_from_def)
    moreover from this have "length (taken_from k ?w @ tl (ch sub)) = length (taken_from k w @ ch sub)" by (rule arg_cong)
    moreover have "meant_for k' ?w = meant_for k' w" "k' \<noteq> k \<Longrightarrow> taken_from k' ?w = taken_from k' w" for k'
      by (simp_all add: meant_for_def taken_from_def)
    ultimately have "key_ok c' ?w k'" if "k' \<in> set (lsKeys w)" for k'
      using ok [OF that] sub by (cases "k' = k") (auto simp: key_ok_def simp del: length_append)
    then show ?thesis using listens_take t Some by (simp add: take_turn_def listen_inv_def)
  qed
next
  case (listens_end w c)
  then show ?case by (simp add: end_turn_def listen_inv_def fold_del_listener)
next
  case (listens_other w c' c)
  then show ?case by (auto simp: listen_inv_def key_ok_def)
qed

lemma listens_keys:
  assumes "(listens handle)\<^sup>*\<^sup>* cw cw'"
  shows "lsKeys (snd cw') = lsKeys (snd cw) \<and> (\<not> lsRunning (snd cw) \<longrightarrow> \<not> lsRunning (snd cw') \<and> lsState (snd cw') = lsState (snd cw))"
  using assms
proof (induction rule: rtranclp_induct)
  case (step cw1 cw2)
  then show ?case
    by (auto elim!: listensE simp: take_turn_def end_turn_def split: prod.splits option.splits)
qed simp

lemma listens_reach: "(listens handle)\<^sup>*\<^sup>* (start_listening ids s c) cw \<Longrightarrow> listen_inv handle s cw"
  by (induction rule: rtranclp_induct) (auto intro: listen_inv_start listens_inv)

text \<open>C30: No push is lost on the way to its callback: while a listener runs, what it has taken and what still waits
  are, for each of its subscriptions, the pushes of that id in the order of their arrival, short of exactly
  those that were counted as dropped; its callbacks are those of the messages taken, in that order; and when
  it has ended its subscriptions are gone and nothing more is reported.\<close>

theorem pushes_reach_callback:
  assumes "(listens handle)\<^sup>*\<^sup>* (start_listening ids s c0) (c, w)"
  shows "lsState w = fold (\<lambda>(k, m). handle (fst k) m) (lsLog w) s
    \<and> (lsRunning w \<longrightarrow> (\<forall>k \<in> set (lsKeys w). \<exists>sub. listener c k = Some sub
         \<and> subseq (taken_from k w @ ch sub) (meant_for k w)
         \<and> length (taken_from k w @ ch sub) + dropped sub = length (meant_for k w)
         \<and> (dropped sub = 0 \<longrightarrow> taken_from k w @ ch sub = meant_for k w)))
    \<and> (\<not> lsRunning w \<longrightarrow> (\<forall>k \<in> set (lsKeys w). listener c k = None)
         \<and> (\<forall>c' w'. (listens handle)\<^sup>*\<^sup>* (c, w) (c', w') \<longrightarrow> lsState w' = lsState w))"
proof -
  have "subseq xs ys \<Longrightarrow> length xs = length ys \<Longrightarrow> xs = ys" for xs ys :: "message list"
    by (rule subseq_same_length)
  then show ?thesis
    using listens_reach [OF assms] listens_keys [of handle "(c, w)"]
    by (fastforce simp: listen_inv_def key_ok_def)
qed

text \<open>Three pushes of which one is of another id, and a turn that takes the first.\<close>

definition demo_client :: client where
  "demo_client = new_client Client.demo_config False"

lemma listens_pushes: "(listens handle)\<^sup>*\<^sup>* (c, w) (fold dispatch ms c, w\<lparr>lsPushed := lsPushed w @ ms\<rparr>)"
proof (induction ms arbitrary: c w)
  case (Cons m ms)
  show ?case
    using Cons.IH [of "dispatch m c" "w\<lparr>lsPushed := lsPushed w @ [m]\<rparr>"]
      converse_rtranclp_into_rtranclp [of "listens handle", OF listens_push [of handle c w m]]
    by simp
qed simp

lemma demo_listening:
  fixes handle :: "u32 \<Rightarrow> message \<Rightarrow> 's \<Rightarrow> 's"
  assumes "listens handle = R"
  shows "\<exists>c w. R\<^sup>*\<^sup>* (start_listening [33] s demo_client) (c, w) \<and> lsRunning w \<and> lsKeys w = [(33, 0)]
    \<and> lsLog w = [((33, 0), demo_message 33 5)] \<and> lsPushed w = [demo_message 33 5, demo_message 3 6, demo_message 33 7]"
proof -
  obtain c0 w0 where s0: "start_listening [33] s demo_client = (c0, w0)" by fastforce
  have w0: "lsKeys w0 = [(33, 0)]" "lsRunning w0" "lsLog w0 = []" "lsPushed w0 = []"
      "listener c0 (33, 0) = Some \<lparr>ch = [], dropped = 0\<rparr>"
    using s0 by (auto simp: start_listening_def demo_client_def new_client_def subscribe_def listener_def Let_def)
  let ?c = "fold dispatch [demo_message 33 5, demo_message 3 6, demo_message 33 7] c0"
  let ?w = "w0\<lparr>lsPushed := [demo_message 33 5, demo_message 3 6, demo_message 33 7]\<rparr>"
  have "R\<^sup>*\<^sup>* (c0, w0) (?c, ?w)" using listens_pushes [of handle c0 w0] w0(4) assms by (metis append_Nil)
  moreover have "R (?c, ?w) (take_turn handle (33, 0) (?c, ?w))"
    using listens_take [of ?w "(33, 0)" handle ?c] assms w0 by auto
  ultimately have run: "R\<^sup>*\<^sup>* (c0, w0) (take_turn handle (33, 0) (?c, ?w))" by (rule rtranclp.rtrancl_into_rtrancl)
  have "listener ?c (33, 0) = Some \<lparr>ch = [demo_message 33 5, demo_message 33 7], dropped = 0\<rparr>"
    using w0(5) by (simp add: dispatch_listener offer_def) (simp add: demo_message_def)
  then obtain c where "take_turn handle (33, 0) (?c, ?w)
      = (c, ?w\<lparr>lsState := handle 33 (demo_message 33 5) (lsState ?w), lsLog := [((33, 0), demo_message 33 5)]\<rparr>)"
    using w0(3) by (auto simp: take_turn_def take_message_def)
  then show ?thesis using run w0 s0 by (intro exI [of _ c] exI) auto
qed

theorem pushes_reach_callback_witness:
  "\<exists>c w sub. (listens (states_handler (\<lambda>_ _. Some True) 0))\<^sup>*\<^sup>* (start_listening [33] [] demo_client) (c, w)
     \<and> lsRunning w \<and> lsState w = [True]
     \<and> listener c (33, 0) = Some sub \<and> length (ch sub) + dropped sub = 1"
proof -
  obtain c w where r: "(listens (states_handler (\<lambda>_ _. Some True) 0))\<^sup>*\<^sup>* (start_listening [33] [] demo_client) (c, w)"
      "lsRunning w" "lsKeys w = [(33, 0)]" "lsLog w = [((33, 0), demo_message 33 5)]"
      "lsPushed w = [demo_message 33 5, demo_message 3 6, demo_message 33 7]"
    using demo_listening [OF refl, of "states_handler (\<lambda>_ _. Some True) 0" "[]"] by metis
  have m: "MsgID (Header (demo_message i n)) = i" for i n by (simp add: demo_message_def)
  note p = pushes_reach_callback [OF r(1)]
  have "lsState w = [True]" using p r(4) by (simp add: states_handler_def state_callback_def demo_message_def)
  moreover have "\<exists>sub. listener c (33, 0) = Some sub \<and> length (ch sub) + dropped sub = 1"
    using p r by (auto simp: taken_from_def meant_for_def m)
  ultimately show ?thesis using r(1,2) by blast
qed

end
