(* ===== verification/Spec2Isabelle.thy ===== *)
theory Spec2Isabelle
  imports Prelude Codec Crypto UdpPacket Latch Xml UidSession Wire MediaParser Registry Client Translator Talk
    Timeline Queries Alarm TalkPipeline Events Rtsp TalkRelease Bridge Commands Device DeviceOps Controls
    Sessions AudioTrack StreamRun StreamLife StreamServe StreamFaults Discovery Launch TalkRun Listeners
begin

text \<open>
  \<^bold>\<open>The program.\<close> reolinkproxy speaks the Baichuan protocol with Reolink cameras, directly over TCP
  or over the vendor's UDP transport by the camera's UID, and serves what it gets as RTSP streams;
  a client that publishes or sends back audio talks through the camera's speaker. This development
  follows the code from the datagram to the RTSP session, one theory per component.

  \<^bold>\<open>Common ground.\<close> \<^theory_text>\<open>Prelude\<close> names Go's machine types (\<open>u8\<close> to \<open>u64\<close> are words, so arithmetic wraps; \<open>int\<close>
  of Go is an unbounded integer where the code cannot come near its range), slices, byte orders, the
  fuel-free loops and the string functions; \<^theory_text>\<open>Xml\<close> what is used of \<^verbatim>\<open>encoding/xml\<close> and \<^verbatim>\<open>strconv\<close>;
  \<^theory_text>\<open>Latch\<close> and \<^theory_text>\<open>Registry\<close> the two interfaces many components share: an error that is recorded once, and
  a table under a key. A panic or a call that never returns is \<open>None\<close> of an option, an error of the
  code an \<open>Inl\<close> or an option of its fault. A goroutine, timer or select is a step: the caller of the step
  chooses which one runs, so a theorem about every sequence of steps is one about every schedule.

  \<^bold>\<open>The transport\<close> (\<^verbatim>\<open>pkg/baichuan\<close>). \<^theory_text>\<open>UdpPacket\<close> is \<^verbatim>\<open>udp.go\<close>: packet layouts, checksum, control envelope,
  receive buffer. \<^theory_text>\<open>Discovery\<close> is \<^verbatim>\<open>discovery.go\<close>, the scan of the local network and the watcher behind the
  list of cameras, with the dialling of \<^verbatim>\<open>uid.go\<close> that asks a camera for its UID and opens a session.
  \<^theory_text>\<open>UidSession\<close> is the session of \<^verbatim>\<open>uid.go\<close>: retransmission, acknowledgements, the ordered
  byte stream; its theorems are that the reader sees a prefix of what the camera sent whatever the
  network does, that an acknowledgement forgets only what was received, and two defects.
  \<^theory_text>\<open>Crypto\<close> is \<^verbatim>\<open>crypto.go\<close>; \<^theory_text>\<open>Wire\<close> is \<^verbatim>\<open>message.go\<close> with the headers of \<^verbatim>\<open>types.go\<close>: framing, encryption
  and the codec state, with the round trip of a request and the framing invariant of the reader.
  \<^theory_text>\<open>MediaParser\<close> is \<^verbatim>\<open>media.go\<close>: parsing does not depend on how the stream was cut, always ends, and one
  branch panics on short units.

  \<^bold>\<open>The client.\<close> \<^theory_text>\<open>Client\<close> is \<^verbatim>\<open>client.go\<close>: login, the fan-out of messages to requests and listeners,
  keepalive, the media readers. On it rest \<^theory_text>\<open>Queries\<close> (\<^verbatim>\<open>ability.go\<close>, \<^verbatim>\<open>support.go\<close>, \<^verbatim>\<open>streaminfo.go\<close>,
  \<^verbatim>\<open>battery.go\<close>, \<^verbatim>\<open>floodlight.go\<close>, the retry and \<^verbatim>\<open>exec\<close> of \<^verbatim>\<open>motion.go\<close> and \<^verbatim>\<open>api_control.go\<close>), \<^theory_text>\<open>Commands\<close>
  (the commands of \<^verbatim>\<open>api_control.go\<close> with the documents of \<^verbatim>\<open>xml_commands.go\<close>, \<^verbatim>\<open>webhook.go\<close>, \<^verbatim>\<open>snap.go\<close>),
  \<^theory_text>\<open>Alarm\<close> (\<^verbatim>\<open>motion.go\<close>: pushes decoded and merged), \<^theory_text>\<open>Listeners\<close> (the goroutines that hand the pushes of a
  client to their callbacks; none is lost but those counted as dropped) and \<^theory_text>\<open>Talk\<close> (\<^verbatim>\<open>talk.go\<close>: negotiation, framing, playout).

  \<^bold>\<open>Media.\<close> \<^theory_text>\<open>Codec\<close> is \<^verbatim>\<open>pkg/codec\<close> (A-law, mu-law, ADPCM), \<^theory_text>\<open>Translator\<close> \<^verbatim>\<open>pkg/media/translator.go\<close>,
  \<^theory_text>\<open>Timeline\<close> the clocks of \<^verbatim>\<open>pkg/bridge/stream_run.go\<close>: the unwrapped camera clock, the guard that keeps RTP
  time increasing, the live edge that drops frames without breaking the decoder.

  \<^bold>\<open>The bridge\<close> (\<^verbatim>\<open>pkg/bridge\<close>). \<^theory_text>\<open>Device\<close> and \<^theory_text>\<open>DeviceOps\<close> are \<^verbatim>\<open>device.go\<close>: the one connection of a camera that
  every user shares (dialled, logged in, reset; its state handed to a callback through a queue; the
  privacy mode), and the loops on it (previews, the battery camera's webhook, the event session, talk
  sessions that survive a reconnect). The relation \<open>device_step\<close> has one rule per operation that changes
  a device, \<open>dev_inv\<close> holds in every state it reaches, what the callback hears is the history of the clients
  the device logged in on (\<open>connection_history\<close>, kept by a record of them the code does not have), and the loops
  of \<^theory_text>\<open>DeviceOps\<close> are shown to be such steps. \<^theory_text>\<open>Controls\<close> is \<^verbatim>\<open>controls.go\<close>; \<^theory_text>\<open>Events\<close> is \<^verbatim>\<open>config.go\<close>, \<^verbatim>\<open>pause.go\<close>, \<^verbatim>\<open>events.go\<close> and \<^verbatim>\<open>webhook.go\<close>: what
  a consumer hears and when a stream pauses. \<^theory_text>\<open>Rtsp\<close> is the server side of \<^verbatim>\<open>rtsp.go\<close> with the talk sessions
  of \<^verbatim>\<open>talk_rtsp.go\<close>, each handler one step; \<^theory_text>\<open>TalkRelease\<close> takes the handlers of talking sessions apart into
  the regions their locks make atomic and treats every schedule of them. \<^theory_text>\<open>TalkPipeline\<close> is the bridge of \<^verbatim>\<open>talk_pipeline.go\<close> and
  \<^theory_text>\<open>TalkRun\<close> its loop on a device (what it may touch of the device, failed starts are spaced, every phrase is
  ended and its session stopped at the camera), and \<^theory_text>\<open>Bridge\<close> is \<^verbatim>\<open>bridge.go\<close>: starting, adding and
  removing cameras, the URLs, the idle gate.

  \<^bold>\<open>Streams.\<close> \<^theory_text>\<open>AudioTrack\<close> is the \<^verbatim>\<open>audioPublisher\<close> of \<^verbatim>\<open>rtsp.go\<close>, \<^theory_text>\<open>StreamRun\<close> is \<^verbatim>\<open>runStream\<close>: its local variables
  are the record \<open>stream_run\<close>, one turn of its select is \<open>runStream_step\<close>, and \<open>stream_life\<close> lets the rest of
  the bridge act between the turns. \<^theory_text>\<open>Sessions\<close> says what preparing, resetting and writing do to a handler
  and its mirrors. \<^theory_text>\<open>StreamRun\<close> proves what every turn keeps (a session is only ever made for a format with
  its parameter sets), \<^theory_text>\<open>StreamLife\<close> that video never ends the loop, \<^theory_text>\<open>StreamServe\<close> when a stream is served and how late
  audio joins it, \<^theory_text>\<open>StreamFaults\<close> where the code falls short of its comments, with runs on concrete packets.

  \<^bold>\<open>The process.\<close> \<^theory_text>\<open>Launch\<close> is \<^verbatim>\<open>cmd/reolinkproxy\<close>: cameras read from the environment, whose order does not
  matter, the action of the command, and \<^verbatim>\<open>runApp\<close>, which comes up exactly when the server can listen and no
  two cameras share a name and leaves nothing running however it ends.

  \<^bold>\<open>Interfaces.\<close> Locales state what a component relies on: error latches, keyed tables, stream ciphers,
  chunked transducers (parsers and encoders that do not see how their input is cut), ordered delivery.
  Each is interpreted on the model of the code in the theory that provides it.

  \<^bold>\<open>Parameters.\<close> The AES block function and MD5, the XML tokeniser and the JSON decoder, the ADTS parser of
  mediacommon, the rounding of floats where a result depends on it, the sockets (what a read delivers,
  whether a dial or a bind succeeds), the clocks, random ids, and of the RTSP library the identity of
  sessions, the success of a stream's initialisation and the RTP encoders. A loop that might not end is
  a \<open>partial_function\<close> or \<open>function\<close> with a termination proof; the only bounds are those of the code.

  \<^bold>\<open>Not modelled.\<close> Logging and the texts of wrapped errors; socket options; the test harness \<^verbatim>\<open>cmd/reolinkcli\<close>,
  which only calls the library and prints; of \<^verbatim>\<open>cmd/reolinkproxy\<close> the command line library, signals
  and the profiler. Durations are integers of nanoseconds or microseconds as the code has them, and the
  scheduler and the mutexes appear only as the order of the steps.
\<close>

end
